(* ===== verification/Prelude.thy ===== *)
theory Prelude
  imports Main "HOL-Library.Word" "HOL-Library.Sublist"
begin

text \<open>
  What the components share: the Rust integer types at their width, results, saturating
  arithmetic on \<^verbatim>\<open>usize\<close>, big and little endian byte conversions, and the generic lemmas on
  lists and words the component proofs use. Byte vectors, slices and Rust strings (their
  UTF-8 bytes) are lists of \<open>u8\<close>; \<^verbatim>\<open>usize\<close> and \<^verbatim>\<open>u64\<close> counters are \<open>nat\<close>, with the
  saturation the code asks for written out.
\<close>

unbundle bit_operations_syntax

type_synonym u8 = "8 word"
type_synonym u16 = "16 word"
type_synonym u32 = "32 word"
type_synonym bytes = "u8 list"

abbreviation Ok :: "'a \<Rightarrow> 'e + 'a" where
  "Ok \<equiv> Inr"

abbreviation Err :: "'e \<Rightarrow> 'e + 'a" where
  "Err \<equiv> Inl"

text \<open>Collections of the rules that carry the component proofs.\<close>

named_theorems wire_simps
named_theorems io_simps
named_theorems shrinks

subsection \<open>The question mark operator and saturating arithmetic\<close>

definition res_bind :: "'e + 'a \<Rightarrow> ('a \<Rightarrow> 'e + 'b) \<Rightarrow> 'e + 'b" where
  "res_bind r f = (case r of Inl e \<Rightarrow> Inl e | Inr x \<Rightarrow> f x)"

lemma res_bind_simps [simp]:
  "res_bind (Inl e) f = Inl e"
  "res_bind (Inr x) f = f x"
  by (simp_all add: res_bind_def)

lemma res_bind_eq_Ok:
  "res_bind r f = Inr y \<longleftrightarrow> (\<exists>x. r = Inr x \<and> f x = Inr y)"
  by (cases r) auto

definition usize_max :: nat where
  "usize_max = 2 ^ 64 - 1"

definition sat_add :: "nat \<Rightarrow> nat \<Rightarrow> nat" where
  "sat_add a b = min (a + b) usize_max"

lemma sat_add_le_iff: "n < usize_max \<Longrightarrow> sat_add a b \<le> n \<longleftrightarrow> a + b \<le> n"
  by (auto simp: sat_add_def)

lemma sat_add_eq: "a + b \<le> usize_max \<Longrightarrow> sat_add a b = a + b"
  by (simp add: sat_add_def)

subsection \<open>Facts about every byte\<close>

text \<open>A property of every byte is a property of 256 numbers, which the simplifier evaluates.\<close>

lemma u8_all: "(\<forall>b::u8. P b) \<longleftrightarrow> list_all (\<lambda>n. P (word_of_nat n)) [0..<256]"
proof
  assume *: "list_all (\<lambda>n. P (word_of_nat n)) [0..<256]"
  show "\<forall>b::u8. P b"
  proof
    fix b :: u8
    have "unat b < 256"
      using unsigned_less [of b] by simp
    then have "(\<lambda>n. P (word_of_nat n)) (unat b)"
      using * by (subst (asm) list_all_iff) (rule bspec, auto)
    then show "P b" by simp
  qed
qed (simp add: list_all_iff)

lemma u8_allI: "list_all (\<lambda>n. P (word_of_nat n)) [0..<256] \<Longrightarrow> P (b::u8)"
  using u8_all by blast

subsection \<open>Endianness\<close>

definition u16_to_be_bytes :: "u16 \<Rightarrow> bytes" where
  "u16_to_be_bytes c = [ucast (drop_bit 8 c), ucast c]"

definition u16_to_le_bytes :: "u16 \<Rightarrow> bytes" where
  "u16_to_le_bytes c = [ucast c, ucast (drop_bit 8 c)]"

definition u16_from_be_bytes :: "u8 \<Rightarrow> u8 \<Rightarrow> u16" where
  "u16_from_be_bytes hi lo = push_bit 8 (ucast hi) OR ucast lo"

definition u16_from_le_bytes :: "u8 \<Rightarrow> u8 \<Rightarrow> u16" where
  "u16_from_le_bytes lo hi = push_bit 8 (ucast hi) OR ucast lo"

definition u32_to_le_bytes :: "u32 \<Rightarrow> bytes" where
  "u32_to_le_bytes c =
     [ucast c, ucast (drop_bit 8 c), ucast (drop_bit 16 c), ucast (drop_bit 24 c)]"

definition u32_from_le_bytes :: "u8 \<Rightarrow> u8 \<Rightarrow> u8 \<Rightarrow> u8 \<Rightarrow> u32" where
  "u32_from_le_bytes a b c d =
     push_bit 24 (ucast d) OR push_bit 16 (ucast c) OR push_bit 8 (ucast b) OR ucast a"

lemma u16_be_round_trip [wire_simps, simp]:
  "u16_from_be_bytes (ucast (drop_bit 8 c)) (ucast c) = c"
  by (rule bit_word_eqI)
     (auto simp: u16_from_be_bytes_def bit_or_iff bit_push_bit_iff bit_unsigned_iff bit_drop_bit_eq)

lemma u16_le_round_trip [wire_simps, simp]:
  "u16_from_le_bytes (ucast c) (ucast (drop_bit 8 c)) = c"
  using u16_be_round_trip [of c] by (simp add: u16_from_le_bytes_def u16_from_be_bytes_def)

lemma u16_be_inj:
  assumes "u16_from_be_bytes a b = c"
  shows "a = ucast (drop_bit 8 c)" and "b = ucast c"
proof -
  have no: "\<not> bit b (8 + n)" for n
    by (auto dest: bit_imp_le_length)
  show "a = ucast (drop_bit 8 c)"
    unfolding assms [symmetric] u16_from_be_bytes_def
    by (rule bit_word_eqI)
       (simp add: bit_or_iff bit_push_bit_iff bit_unsigned_iff bit_drop_bit_eq no)
  show "b = ucast c"
    unfolding assms [symmetric] u16_from_be_bytes_def
    by (rule bit_word_eqI) (simp add: bit_or_iff bit_push_bit_iff bit_unsigned_iff)
qed

lemma u32_le_round_trip [wire_simps, simp]:
  "u32_from_le_bytes (ucast c) (ucast (drop_bit 8 c)) (ucast (drop_bit 16 c))
     (ucast (drop_bit 24 c)) = c"
proof (rule bit_word_eqI)
  fix n assume "n < LENGTH(32)"
  then consider "n < 8" | "8 \<le> n" "n < 16" | "16 \<le> n" "n < 24" | "24 \<le> n" "n < 32"
    by (simp, linarith)
  then show "bit (u32_from_le_bytes (ucast c) (ucast (drop_bit 8 c)) (ucast (drop_bit 16 c))
     (ucast (drop_bit 24 c))) n = bit c n"
    by cases (auto simp: u32_from_le_bytes_def bit_or_iff bit_push_bit_iff bit_unsigned_iff
                         bit_drop_bit_eq)
qed

subsection \<open>Lists\<close>

text \<open>The first index whose element satisfies a predicate (\<^verbatim>\<open>iter().position(..)\<close>).\<close>

fun position :: "('a \<Rightarrow> bool) \<Rightarrow> 'a list \<Rightarrow> nat option" where
  "position P [] = None"
| "position P (x # xs) = (if P x then Some 0 else map_option Suc (position P xs))"

lemma position_append_hit:
  "(\<And>x. x \<in> set xs \<Longrightarrow> \<not> P x) \<Longrightarrow> P y \<Longrightarrow> position P (xs @ y # ys) = Some (length xs)"
  by (induction xs) auto

lemma position_bound: "position P xs = Some i \<Longrightarrow> i < length xs \<and> P (xs ! i)"
  by (induction xs arbitrary: i) (auto split: if_splits)

lemma position_find:
  "List.find P xs = (case position P xs of None \<Rightarrow> None | Some i \<Rightarrow> Some (xs ! i))"
  by (induction xs) (auto split: option.splits)

lemma position_None: "position P xs = None \<longleftrightarrow> (\<forall>x \<in> set xs. \<not> P x)"
  by (induction xs) auto

text \<open>\<^verbatim>\<open>Vec::remove\<close>: the element at an index and the vector without it.\<close>

definition vec_remove :: "nat \<Rightarrow> 'a list \<Rightarrow> 'a \<times> 'a list" where
  "vec_remove i xs = (xs ! i, take i xs @ drop (Suc i) xs)"

lemma vec_remove_facts:
  assumes "position P xs = Some i"
  shows "fst (vec_remove i xs) \<in> set xs" and "P (fst (vec_remove i xs))"
    and "length (snd (vec_remove i xs)) = length xs - 1"
    and "set (snd (vec_remove i xs)) \<subseteq> set xs"
    and "(\<And>x. P x \<Longrightarrow> \<not> Q x) \<Longrightarrow> filter Q (snd (vec_remove i xs)) = filter Q xs"
    and "subseq (snd (vec_remove i xs)) xs"
proof -
  have i: "i < length xs" "P (xs ! i)" using position_bound [OF assms] by simp_all
  then have xs: "xs = take i xs @ [xs ! i] @ drop (Suc i) xs" by (simp add: id_take_nth_drop)
  show "fst (vec_remove i xs) \<in> set xs" "P (fst (vec_remove i xs))"
    "length (snd (vec_remove i xs)) = length xs - 1"
    using i by (simp_all add: vec_remove_def min_def)
  show "set (snd (vec_remove i xs)) \<subseteq> set xs"
    by (auto simp: vec_remove_def dest: in_set_takeD in_set_dropD)
  show "filter Q (snd (vec_remove i xs)) = filter Q xs" if "\<And>x. P x \<Longrightarrow> \<not> Q x"
  proof -
    have "filter Q xs = filter Q (take i xs @ [xs ! i] @ drop (Suc i) xs)" using xs by simp
    then show ?thesis using that i(2) by (simp add: vec_remove_def)
  qed
  have "subseq (take i xs @ drop (Suc i) xs) (take i xs @ [xs ! i] @ drop (Suc i) xs)"
    by (intro list_emb_append_mono) (simp_all add: list_emb_Cons)
  then show "subseq (snd (vec_remove i xs)) xs" using xs by (simp add: vec_remove_def)
qed

end
