(* ===== verification/Crc.thy ===== *)
theory Crc
  imports Prelude
begin

text \<open>
  The two checksums of \<^verbatim>\<open>hapcli-modem-transfer/src/crc.rs\<close>: CRC-16/XMODEM, most significant bit
  first, and the reflected IEEE CRC-32. Each update is shown injective in the accumulator and
  in the byte; the locale \<open>checksum_fold\<close> turns that into the detection of every single-byte
  substitution, and is interpreted on both updates.
\<close>

subsection \<open>The source's functions\<close>

definition crc16_step :: "u16 \<Rightarrow> u16" where
  "crc16_step crc =
     (if crc AND 0x8000 \<noteq> 0 then push_bit 1 crc XOR 0x1021 else push_bit 1 crc)"

definition crc16_xmodem_update :: "u16 \<Rightarrow> u8 \<Rightarrow> u16" where
  "crc16_xmodem_update crc byte = (crc16_step ^^ 8) (crc XOR push_bit 8 (ucast byte))"

definition crc16_xmodem :: "bytes \<Rightarrow> u16" where
  "crc16_xmodem bytes = foldl crc16_xmodem_update 0 bytes"

definition crc32_step :: "u32 \<Rightarrow> u32" where
  "crc32_step crc =
     (if crc AND 1 \<noteq> 0 then drop_bit 1 crc XOR 0xedb88320 else drop_bit 1 crc)"

definition crc32_ieee_update :: "u32 \<Rightarrow> u8 \<Rightarrow> u32" where
  "crc32_ieee_update crc byte = (crc32_step ^^ 8) (crc XOR ucast byte)"

definition crc32_ieee :: "bytes \<Rightarrow> u32" where
  "crc32_ieee bytes = NOT (foldl crc32_ieee_update 0xffffffff bytes)"

subsection \<open>Single bits of one shift\<close>

lemma top_bit16: "crc AND 0x8000 \<noteq> 0 \<longleftrightarrow> bit (crc::u16) 15"
  using and_exp_eq_0_iff_not_bit [of crc 15] by simp

lemma bit_crc16_step:
  "bit (crc16_step c) n \<longleftrightarrow>
     n < 16 \<and> ((0 < n \<and> bit c (n - 1)) \<noteq> (bit c 15 \<and> bit (0x1021::u16) n))"
proof -
  have shift: "bit (push_bit 1 c) n \<longleftrightarrow> n < 16 \<and> 0 < n \<and> bit c (n - 1)"
    by (simp only: bit_push_bit_iff) (auto simp: Suc_le_eq)
  have poly: "bit (0x1021 :: u16) n \<Longrightarrow> n < 16"
    by (drule bit_imp_le_length) simp
  show ?thesis
    unfolding crc16_step_def top_bit16
    by (cases "bit c 15"; cases "n < 16")
       (use poly in \<open>auto simp only: bit_xor_iff shift if_True if_False\<close>)
qed

lemma crc16_step_inj: "crc16_step a = crc16_step b \<Longrightarrow> a = b"
proof (rule bit_word_eqI)
  fix n assume eq: "crc16_step a = crc16_step b" and n: "n < LENGTH(16)"
  have top: "bit a 15 = bit b 15"
    using bit_crc16_step [of a 0] bit_crc16_step [of b 0] eq by simp
  show "bit a n = bit b n"
  proof (cases "n = 15")
    case False
    then show ?thesis
      using bit_crc16_step [of a "Suc n"] bit_crc16_step [of b "Suc n"] eq top n by auto
  qed (use top in simp)
qed

lemma bit_crc32_step:
  "bit (crc32_step c) n \<longleftrightarrow> bit c (Suc n) \<noteq> (bit c 0 \<and> bit (0xedb88320::u32) n)"
proof -
  have low: "c AND 1 \<noteq> 0 \<longleftrightarrow> bit c 0"
    using and_exp_eq_0_iff_not_bit [of c 0] by simp
  have shift: "bit (drop_bit 1 c) n \<longleftrightarrow> bit c (Suc n)"
    by (simp only: bit_drop_bit_eq comp_apply) simp
  show ?thesis
    unfolding crc32_step_def low
    by (cases "bit c 0") (auto simp only: bit_xor_iff shift if_True if_False)
qed

lemma crc32_step_inj: "crc32_step a = crc32_step b \<Longrightarrow> a = b"
proof (rule bit_word_eqI)
  fix n assume eq: "crc32_step a = crc32_step b" and "n < LENGTH(32)"
  have "\<not> bit x (Suc 31)" for x :: u32
    by (auto dest: bit_imp_le_length)
  then have low: "bit a 0 = bit b 0"
    using bit_crc32_step [of a 31] bit_crc32_step [of b 31] eq by simp
  show "bit a n = bit b n"
  proof (cases n)
    case (Suc m)
    then show ?thesis
      using bit_crc32_step [of a m] bit_crc32_step [of b m] eq low by auto
  qed (use low in simp)
qed

subsection \<open>Detection of a substituted byte\<close>

lemma funpow_inj:
  fixes f :: "'a \<Rightarrow> 'a"
  assumes "\<And>a b. f a = f b \<Longrightarrow> a = b" and "(f ^^ k) a = (f ^^ k) b"
  shows "a = b"
proof -
  have "inj f" using assms(1) by (rule injI)
  then have "inj (f ^^ k)" by (rule inj_fn)
  then show ?thesis using assms(2) by (rule injD)
qed

lemma xor_left_cancel: "a XOR x = a XOR y \<longleftrightarrow> x = (y :: 'a :: ring_bit_operations)"
  by (metis bit.xor_left_self)

lemma xor_right_cancel: "x XOR a = y XOR a \<longleftrightarrow> x = (y :: 'a :: ring_bit_operations)"
  by (metis bit.xor_left_self xor.commute)

locale checksum_fold =
  fixes update :: "'c \<Rightarrow> 'b \<Rightarrow> 'c"
  assumes inj_acc: "update a x = update b x \<Longrightarrow> a = b"
    and inj_byte: "update a x = update a y \<Longrightarrow> x = y"
begin

lemma foldl_inj_acc: "foldl update a xs = foldl update b xs \<Longrightarrow> a = b"
  by (induction xs arbitrary: a b) (auto dest: inj_acc)

lemma foldl_substitution:
  "x \<noteq> y \<Longrightarrow> foldl update a (xs @ x # ys) \<noteq> foldl update a (xs @ y # ys)"
  by (auto dest: foldl_inj_acc inj_byte)

end

lemma ucast_u32_inj: "ucast (x::u8) = (ucast y :: u32) \<Longrightarrow> x = y"
proof (rule bit_word_eqI)
  fix n assume *: "ucast x = (ucast y :: u32)" and n: "n < LENGTH(8)"
  have "bit (ucast z :: u32) n = bit z n" for z :: u8
    using n by (simp add: bit_unsigned_iff)
  with * show "bit x n = bit y n" by metis
qed

lemma push_bit_8_inj: "push_bit 8 (ucast (x::u8)) = (push_bit 8 (ucast y) :: u16) \<Longrightarrow> x = y"
proof (rule bit_word_eqI)
  fix n assume *: "push_bit 8 (ucast x) = (push_bit 8 (ucast y) :: u16)" and n: "n < LENGTH(8)"
  have "bit (push_bit 8 (ucast z) :: u16) (n + 8) = bit z n" for z :: u8
    using n by (simp add: bit_push_bit_iff bit_unsigned_iff)
  with * show "bit x n = bit y n" by metis
qed

interpretation crc16: checksum_fold crc16_xmodem_update
  by unfold_locales
     (auto simp: crc16_xmodem_update_def xor_right_cancel xor_left_cancel
           dest!: funpow_inj [rotated] push_bit_8_inj intro: crc16_step_inj)

interpretation crc32: checksum_fold crc32_ieee_update
  by unfold_locales
     (auto simp: crc32_ieee_update_def xor_right_cancel xor_left_cancel
           dest!: funpow_inj [rotated] ucast_u32_inj intro: crc32_step_inj)

text \<open>
  Replacing one byte of a block by a different one always changes its CRC-16/XMODEM, at
  any position and for blocks of any length.
\<close>

theorem crc16_detects_substitution:
  "x \<noteq> y \<Longrightarrow> crc16_xmodem (xs @ x # ys) \<noteq> crc16_xmodem (xs @ y # ys)"
  unfolding crc16_xmodem_def by (rule crc16.foldl_substitution)

theorem crc16_detects_substitution_witness:
  "crc16_xmodem ([1] @ 2 # [3]) \<noteq> crc16_xmodem ([1] @ 7 # [3])"
  by (rule crc16_detects_substitution) simp

text \<open>
  Replacing one byte of a block by a different one always changes its IEEE CRC-32.
\<close>

theorem crc32_detects_substitution:
  "x \<noteq> y \<Longrightarrow> crc32_ieee (xs @ x # ys) \<noteq> crc32_ieee (xs @ y # ys)"
  unfolding crc32_ieee_def by (auto dest: crc32.foldl_substitution)

theorem crc32_detects_substitution_witness:
  "crc32_ieee ([1] @ 2 # [3]) \<noteq> crc32_ieee ([1] @ 7 # [3])"
  by (rule crc32_detects_substitution) simp

subsection \<open>A block followed by its CRC-16 has residue zero\<close>

lemma crc16_steps_low:
  "(\<And>n. bit c n \<Longrightarrow> n + k < 16) \<Longrightarrow> (crc16_step ^^ k) c = push_bit k c"
proof (induction k)
  case (Suc k)
  then have IH: "(crc16_step ^^ k) c = push_bit k c" by fastforce
  have "\<not> bit (push_bit k c) 15"
    using Suc.prems [of "15 - k"] by (auto simp: bit_push_bit_iff)
  then have "crc16_step (push_bit k c) = push_bit 1 (push_bit k c)"
    by (simp only: crc16_step_def top_bit16 if_False)
  then show ?case by (simp only: IH funpow.simps comp_apply push_bit_push_bit) simp
qed simp

lemma bit_clear_high:
  "bit (c XOR push_bit 8 (ucast (ucast (drop_bit 8 c) :: u8)) :: u16) n \<longleftrightarrow> n < 8 \<and> bit c n"
  by (auto simp: bit_xor_iff bit_push_bit_iff bit_drop_bit_eq bit_unsigned_iff
           dest: bit_imp_le_length)

lemma crc16_update_own_crc [wire_simps]:
  "crc16_xmodem_update (crc16_xmodem_update c (ucast (drop_bit 8 c))) (ucast c) = 0"
proof -
  let ?x = "c XOR push_bit 8 (ucast (ucast (drop_bit 8 c) :: u8))"
  have "crc16_xmodem_update c (ucast (drop_bit 8 c)) = push_bit 8 ?x"
    unfolding crc16_xmodem_update_def by (rule crc16_steps_low) (simp add: bit_clear_high)
  moreover have "push_bit 8 ?x XOR push_bit 8 (ucast (ucast c :: u8)) = (0 :: u16)"
    by (rule bit_word_eqI) (auto simp: bit_xor_iff bit_push_bit_iff bit_clear_high bit_unsigned_iff)
  moreover have "(crc16_step ^^ 8) 0 = 0"
    using crc16_steps_low [of 0 8] by simp
  ultimately show ?thesis
    by (simp only: crc16_xmodem_update_def)
qed

end
