(* ===== verification/Modem_Io.thy ===== *)
theory Modem_Io
  imports Prelude
begin

text \<open>
  The errors of \<^verbatim>\<open>hapcli-modem-transfer/src/error.rs\<close>, the byte channel of \<^verbatim>\<open>io.rs\<close> with its
  in-memory implementation \<^verbatim>\<open>MemoryModemIo\<close>, and the sequencing of fallible channel operations
  (Rust's \<^verbatim>\<open>?\<close> on a method that borrows the channel mutably). A channel operation is a function
  from the channel's state to a result and the next state; the state is returned on errors too,
  since the bytes consumed and written before the error are observable.
  The locale \<open>byte_channel\<close> is the interface the protocol code relies on.
\<close>

datatype modem_error =
    Incomplete
  | InvalidMarker
  | InvalidFrameType
  | InvalidFrameEncoding
  | InvalidBlockNumber
  | InvalidChecksum
  | InvalidCrc
  | InvalidLength
  | InvalidEscape
  | InvalidFileName

datatype transfer_error =
    Protocol modem_error
  | Io
  | Timeout
  | Cancelled
  | UnexpectedByte u8
  | UnexpectedFrame
  | UnsupportedFileSize nat
  | InputBufferOverflow nat

subsection \<open>Sequencing\<close>

type_synonym ('s, 'e, 'a) chan = "'s \<Rightarrow> ('e + 'a) \<times> 's"

definition io_return :: "'a \<Rightarrow> ('s, 'e, 'a) chan" where
  "io_return x s = (Ok x, s)"

definition io_fail :: "'e \<Rightarrow> ('s, 'e, 'a) chan" where
  "io_fail e s = (Err e, s)"

definition io_lift :: "'e + 'a \<Rightarrow> ('s, 'e, 'a) chan" where
  "io_lift r s = (r, s)"

definition io_bind ::
    "('s, 'e, 'a) chan \<Rightarrow> ('a \<Rightarrow> ('s, 'e, 'b) chan) \<Rightarrow> ('s, 'e, 'b) chan" where
  "io_bind m f s = (case m s of (Inl e, s') \<Rightarrow> (Inl e, s') | (Inr x, s') \<Rightarrow> f x s')"

lemma io_run [io_simps, simp]:
  "io_return x s = (Ok x, s)"
  "io_fail e s = (Err e, s)"
  "io_lift r s = (r, s)"
  by (simp_all add: io_return_def io_fail_def io_lift_def)

lemma io_bind_Ok [io_simps, simp]: "m s = (Ok x, s') \<Longrightarrow> io_bind m f s = f x s'"
  by (simp add: io_bind_def)

lemma io_bind_Err [io_simps, simp]: "m s = (Err e, s') \<Longrightarrow> io_bind m f s = (Err e, s')"
  by (simp add: io_bind_def)

lemma io_bind_cases:
  assumes "io_bind m f s = (r, s')"
  obtains (err) e where "m s = (Err e, s')" and "r = Err e"
    | (ok) x s1 where "m s = (Ok x, s1)" and "f x s1 = (r, s')"
  using assms by (auto simp: io_bind_def split: prod.splits sum.splits)

text \<open>The conversion of a protocol error by \<^verbatim>\<open>?\<close> (\<^verbatim>\<open>#[from] ModemError\<close>).\<close>

definition protocol_result :: "modem_error + 'a \<Rightarrow> transfer_error + 'a" where
  "protocol_result r = (case r of Inl e \<Rightarrow> Inl (Protocol e) | Inr x \<Rightarrow> Inr x)"

lemma protocol_result_simps [simp]:
  "protocol_result (Inl e) = Inl (Protocol e)"
  "protocol_result (Inr x) = Inr x"
  by (simp_all add: protocol_result_def)

subsection \<open>The in-memory channel\<close>

record memory_io =
  io_input :: bytes
  io_output :: bytes

type_synonym 'a mem = "(memory_io, transfer_error, 'a) chan"

definition with_input :: "bytes \<Rightarrow> memory_io" where
  "with_input bs = \<lparr>io_input = bs, io_output = []\<rparr>"

definition push_input :: "bytes \<Rightarrow> memory_io \<Rightarrow> memory_io" where
  "push_input bs s = s\<lparr>io_input := io_input s @ bs\<rparr>"

definition take_output :: "memory_io \<Rightarrow> bytes \<times> memory_io" where
  "take_output s = (io_output s, s\<lparr>io_output := []\<rparr>)"

definition read_byte :: "u8 mem" where
  "read_byte s = (case io_input s of
       [] \<Rightarrow> (Err Timeout, s)
     | b # bs \<Rightarrow> (Ok b, s\<lparr>io_input := bs\<rparr>))"

definition write_all :: "bytes \<Rightarrow> unit mem" where
  "write_all bs s = (Ok (), s\<lparr>io_output := io_output s @ bs\<rparr>)"

lemma read_byte_run [io_simps, simp]:
  "read_byte \<lparr>io_input = b # bs, io_output = out\<rparr> = (Ok b, \<lparr>io_input = bs, io_output = out\<rparr>)"
  "read_byte \<lparr>io_input = [], io_output = out\<rparr> = (Err Timeout, \<lparr>io_input = [], io_output = out\<rparr>)"
  by (simp_all add: read_byte_def)

lemma write_all_run [io_simps, simp]:
  "write_all bs \<lparr>io_input = i, io_output = out\<rparr> = (Ok (), \<lparr>io_input = i, io_output = out @ bs\<rparr>)"
  by (simp add: write_all_def)

text \<open>The loop \<^verbatim>\<open>for _ in 0..n { raw.push(io.read_byte(..)?) }\<close>, over any channel.\<close>

primrec read_n :: "('s, 'e, u8) chan \<Rightarrow> nat \<Rightarrow> ('s, 'e, bytes) chan" where
  "read_n rd 0 = io_return []"
| "read_n rd (Suc n) = io_bind rd (\<lambda>b. io_bind (read_n rd n) (\<lambda>bs. io_return (b # bs)))"

subsection \<open>The interface of a byte channel\<close>

locale byte_channel =
  fixes rd :: "('s, transfer_error, u8) chan"
    and wr :: "bytes \<Rightarrow> ('s, transfer_error, unit) chan"
    and incoming :: "'s \<Rightarrow> bytes"
    and outgoing :: "'s \<Rightarrow> bytes"
    and live :: "'s \<Rightarrow> bool"
    and room :: "'s \<Rightarrow> bytes \<Rightarrow> bool"
  assumes read_some: "live s \<Longrightarrow> incoming s = b # bs \<Longrightarrow>
      \<exists>s'. rd s = (Ok b, s') \<and> incoming s' = bs \<and> outgoing s' = outgoing s \<and> live s'"
    and read_none: "live s \<Longrightarrow> incoming s = [] \<Longrightarrow> rd s = (Err Timeout, s)"
    and write_room: "live s \<Longrightarrow> room s bs \<Longrightarrow>
      \<exists>s'. wr bs s = (Ok (), s') \<and> incoming s' = incoming s \<and> outgoing s' = outgoing s @ bs \<and> live s'"
begin

lemma read_n_prefix:
  "live s \<Longrightarrow> n \<le> length (incoming s) \<Longrightarrow>
     \<exists>s'. read_n rd n s = (Ok (take n (incoming s)), s') \<and> incoming s' = drop n (incoming s)
        \<and> outgoing s' = outgoing s \<and> live s'"
proof (induction n arbitrary: s)
  case (Suc n)
  then obtain b bs where inc: "incoming s = b # bs" by (cases "incoming s") auto
  obtain s1 where s1: "rd s = (Ok b, s1)" "incoming s1 = bs" "outgoing s1 = outgoing s" "live s1"
    using read_some Suc.prems(1) inc by blast
  obtain s2 where s2: "read_n rd n s1 = (Ok (take n bs), s2)" "incoming s2 = drop n bs"
      "outgoing s2 = outgoing s1" "live s2"
    using Suc.IH [of s1] s1 Suc.prems(2) inc by auto
  then show ?case using s1 inc by simp
qed simp

lemma read_n_short:
  "live s \<Longrightarrow> length (incoming s) < n \<Longrightarrow>
     \<exists>s'. read_n rd n s = (Err Timeout, s') \<and> incoming s' = [] \<and> outgoing s' = outgoing s \<and> live s'"
proof (induction n arbitrary: s)
  case (Suc n)
  show ?case
  proof (cases "incoming s")
    case Nil
    then show ?thesis using read_none Suc.prems(1) by simp
  next
    case (Cons b bs)
    obtain s1 where s1: "rd s = (Ok b, s1)" "incoming s1 = bs" "outgoing s1 = outgoing s" "live s1"
      using read_some Suc.prems(1) Cons by blast
    then obtain s2 where "read_n rd n s1 = (Err Timeout, s2)" "incoming s2 = []"
        "outgoing s2 = outgoing s1" "live s2"
      using Suc.IH [of s1] Suc.prems(2) Cons by auto
    then show ?thesis using s1 by simp
  qed
qed simp

end

interpretation memory: byte_channel read_byte write_all io_input io_output "\<lambda>_. True" "\<lambda>_ _. True"
  by unfold_locales (auto simp: read_byte_def write_all_def)

lemma read_n_memory [io_simps]:
  "n \<le> length i \<Longrightarrow> read_n read_byte n \<lparr>io_input = i, io_output = out\<rparr> =
     (Ok (take n i), \<lparr>io_input = drop n i, io_output = out\<rparr>)"
  using memory.read_n_prefix [of n "\<lparr>io_input = i, io_output = out\<rparr>"]
  by (metis memory_io.select_convs memory_io.surjective old.unit.exhaust)

lemma read_n_memory_short [io_simps]:
  "length i < n \<Longrightarrow> read_n read_byte n \<lparr>io_input = i, io_output = out\<rparr> =
     (Err Timeout, \<lparr>io_input = [], io_output = out\<rparr>)"
  using memory.read_n_short [of "\<lparr>io_input = i, io_output = out\<rparr>" n]
  by (metis memory_io.select_convs memory_io.surjective old.unit.exhaust)

subsection \<open>No operation puts input back\<close>

text \<open>
  The termination of every protocol loop rests on this: an operation never lengthens the
  input, and one that returns a value has consumed a byte where the code says so.
\<close>

definition consumes :: "'a mem \<Rightarrow> bool" where
  "consumes m \<longleftrightarrow> (\<forall>s r s'. m s = (r, s') \<longrightarrow> length (io_input s') \<le> length (io_input s))"

definition consumes1 :: "'a mem \<Rightarrow> bool" where
  "consumes1 m \<longleftrightarrow> consumes m \<and>
     (\<forall>s x s'. m s = (Ok x, s') \<longrightarrow> length (io_input s') < length (io_input s))"

lemma consumesD: "consumes m \<Longrightarrow> m s = (r, s') \<Longrightarrow> length (io_input s') \<le> length (io_input s)"
  by (auto simp: consumes_def)

lemma consumes1D: "consumes1 m \<Longrightarrow> m s = (Ok x, s') \<Longrightarrow> length (io_input s') < length (io_input s)"
  by (auto simp: consumes1_def)

lemma consumes_sym: "consumes m \<Longrightarrow> (r, s') = m s \<Longrightarrow> length (io_input s') \<le> length (io_input s)"
  by (rule consumesD [OF _ sym])

lemma consumes1_sym: "consumes1 m \<Longrightarrow> (Ok x, s') = m s \<Longrightarrow> length (io_input s') < length (io_input s)"
  by (rule consumes1D [OF _ sym])

lemma consumes1_consumes [shrinks]: "consumes1 m \<Longrightarrow> consumes m"
  by (simp add: consumes1_def)

lemma consumes_basic [shrinks, simp]:
  "consumes (io_return x)" "consumes (io_fail e)" "consumes (io_lift r)" "consumes (write_all bs)"
  "consumes read_byte" "consumes1 read_byte" "consumes1 (io_fail e)"
  by (auto simp: consumes_def consumes1_def read_byte_def write_all_def split: list.splits)

lemma consumes_bind [shrinks]:
  assumes "consumes m" and "\<And>x. consumes (f x)"
  shows "consumes (io_bind m f)"
  unfolding consumes_def
proof (intro allI impI)
  fix s r s' assume "io_bind m f s = (r, s')"
  then show "length (io_input s') \<le> length (io_input s)"
    by (cases rule: io_bind_cases)
       (use assms in \<open>auto dest!: consumesD intro: order_trans\<close>)
qed

lemma consumes1_bind [shrinks]:
  assumes "consumes1 m" and "\<And>x. consumes (f x)"
  shows "consumes1 (io_bind m f)"
  unfolding consumes1_def
proof (intro conjI allI impI)
  show "consumes (io_bind m f)"
    using assms by (auto intro: consumes_bind consumes1_consumes)
next
  fix s x s' assume "io_bind m f s = (Ok x, s')"
  then show "length (io_input s') < length (io_input s)"
    by (cases rule: io_bind_cases)
       (use assms in \<open>auto dest!: consumesD consumes1D intro: order_le_less_trans\<close>)
qed

lemma consumes1_bind_right [shrinks]:
  assumes "consumes m" and "\<And>x. consumes1 (f x)"
  shows "consumes1 (io_bind m f)"
  unfolding consumes1_def
proof (intro conjI allI impI)
  show "consumes (io_bind m f)"
    using assms by (auto intro: consumes_bind consumes1_consumes)
next
  fix s x s' assume "io_bind m f s = (Ok x, s')"
  then show "length (io_input s') < length (io_input s)"
    by (cases rule: io_bind_cases)
       (use assms in \<open>auto dest!: consumesD consumes1D intro: order_less_le_trans\<close>)
qed

lemma consumes_read_n [shrinks]:
  assumes "consumes m"
  shows "consumes (read_n m n)"
proof (induction n)
  case 0
  show ?case by (simp only: read_n.simps consumes_basic)
next
  case (Suc n)
  then show ?case
    by (simp only: read_n.simps) (intro consumes_bind consumes_basic assms)
qed

lemma consumes_if [shrinks]:
  "(P \<Longrightarrow> consumes a) \<Longrightarrow> (\<not> P \<Longrightarrow> consumes b) \<Longrightarrow> consumes (if P then a else b)"
  by simp

declare read_n.simps [simp del]

end
