(* ===== verification/Rust_Str.thy ===== *)
theory Rust_Str
  imports Prelude
begin

text \<open>
  The part of Rust's standard library the components use on strings. A \<^verbatim>\<open>str\<close> is the list of its
  UTF-8 bytes; a \<^verbatim>\<open>char\<close> is the list of bytes that encode it. Decoding follows the standard
  library's chunk iterator, so that \<open>from_utf8_lossy\<close> replaces each maximal ill-formed
  sequence by one U+FFFD. Paths are those of the Unix targets.
\<close>

subsection \<open>UTF-8\<close>

definition is_cont :: "u8 \<Rightarrow> bool" where
  "is_cont b \<longleftrightarrow> b AND 0xC0 = 0x80"

definition get0 :: "bytes \<Rightarrow> nat \<Rightarrow> u8" where
  "get0 bs i = (if i < length bs then bs ! i else 0)"

definition char_width :: "u8 \<Rightarrow> nat" where
  "char_width b =
     (if b \<le> 0x7F then 1
      else if 0xC2 \<le> b \<and> b \<le> 0xDF then 2
      else if 0xE0 \<le> b \<and> b \<le> 0xEF then 3
      else if 0xF0 \<le> b \<and> b \<le> 0xF4 then 4
      else 0)"

definition second3 :: "u8 \<Rightarrow> u8 \<Rightarrow> bool" where
  "second3 b c \<longleftrightarrow>
     (b = 0xE0 \<and> 0xA0 \<le> c \<and> c \<le> 0xBF) \<or> (0xE1 \<le> b \<and> b \<le> 0xEC \<and> 0x80 \<le> c \<and> c \<le> 0xBF)
     \<or> (b = 0xED \<and> 0x80 \<le> c \<and> c \<le> 0x9F) \<or> (0xEE \<le> b \<and> b \<le> 0xEF \<and> 0x80 \<le> c \<and> c \<le> 0xBF)"

definition second4 :: "u8 \<Rightarrow> u8 \<Rightarrow> bool" where
  "second4 b c \<longleftrightarrow>
     (b = 0xF0 \<and> 0x90 \<le> c \<and> c \<le> 0xBF) \<or> (0xF1 \<le> b \<and> b \<le> 0xF3 \<and> 0x80 \<le> c \<and> c \<le> 0xBF)
     \<or> (b = 0xF4 \<and> 0x80 \<le> c \<and> c \<le> 0x8F)"

text \<open>Whether the next sequence is well-formed, and the number of bytes it takes.\<close>

definition utf8_chunk :: "bytes \<Rightarrow> bool \<times> nat" where
  "utf8_chunk bs =
     (let b = get0 bs 0; w = char_width b in
      if w = 1 then (True, 1)
      else if w = 2 then (if is_cont (get0 bs 1) then (True, 2) else (False, 1))
      else if w = 3 then
        (if second3 b (get0 bs 1)
         then (if is_cont (get0 bs 2) then (True, 3) else (False, 2))
         else (False, 1))
      else if w = 4 then
        (if second4 b (get0 bs 1)
         then (if is_cont (get0 bs 2)
               then (if is_cont (get0 bs 3) then (True, 4) else (False, 3))
               else (False, 2))
         else (False, 1))
      else (False, 1))"

lemma utf8_chunk_pos: "0 < snd (utf8_chunk bs)"
  by (simp add: utf8_chunk_def Let_def)

lemma utf8_chunk_shrinks:
  "bs \<noteq> [] \<Longrightarrow> (ok, n) = utf8_chunk bs \<Longrightarrow> length (drop n bs) < length bs"
  using utf8_chunk_pos [of bs] by (cases "utf8_chunk bs") simp

text \<open>The characters of a byte string, with U+FFFD for every ill-formed sequence.\<close>

function lossy_chars :: "bytes \<Rightarrow> bytes list" where
  "lossy_chars bs =
     (if bs = [] then []
      else let (ok, n) = utf8_chunk bs in
        (if ok then take n bs else [0xEF, 0xBF, 0xBD]) # lossy_chars (drop n bs))"
  by pat_completeness auto
termination
  by (relation "measure length") (simp, simp only: in_measure, rule utf8_chunk_shrinks, simp_all)

declare lossy_chars.simps [simp del]

definition from_utf8_lossy :: "bytes \<Rightarrow> bytes" where
  "from_utf8_lossy bs = concat (lossy_chars bs)"

function utf8_valid :: "bytes \<Rightarrow> bool" where
  "utf8_valid bs =
     (if bs = [] then True
      else let (ok, n) = utf8_chunk bs in ok \<and> utf8_valid (drop n bs))"
  by pat_completeness auto
termination
  by (relation "measure length") (simp, simp only: in_measure, rule utf8_chunk_shrinks, simp_all)

declare utf8_valid.simps [simp del]

lemma from_utf8_lossy_valid: "utf8_valid bs \<Longrightarrow> from_utf8_lossy bs = bs"
proof (induction bs rule: utf8_valid.induct)
  case (1 bs)
  show ?case
  proof (cases "bs = []")
    case True
    then show ?thesis by (simp add: from_utf8_lossy_def lossy_chars.simps [of "[]"])
  next
    case False
    obtain ok n where c: "utf8_chunk bs = (ok, n)" by fastforce
    with False "1.prems" have ok: "ok" and v: "utf8_valid (drop n bs)"
      by (auto simp: utf8_valid.simps [of bs])
    have "from_utf8_lossy (drop n bs) = drop n bs"
      using "1.IH" [OF False] c ok v by auto
    then show ?thesis
      using False c ok by (simp add: from_utf8_lossy_def lossy_chars.simps [of bs])
  qed
qed

lemma ascii_valid: "list_all (\<lambda>b. b \<le> 0x7F) bs \<Longrightarrow> utf8_valid bs"
proof (induction bs)
  case (Cons b bs)
  then have "utf8_chunk (b # bs) = (True, 1)"
    by (simp add: utf8_chunk_def get0_def char_width_def)
  with Cons show ?case by (simp add: utf8_valid.simps [of "b # bs"])
qed (simp add: utf8_valid.simps [of "[]"])

lemma lossy_chars_ascii: "list_all (\<lambda>b. b \<le> 0x7F) bs \<Longrightarrow> lossy_chars bs = map (\<lambda>b. [b]) bs"
proof (induction bs)
  case (Cons b bs)
  then have "utf8_chunk (b # bs) = (True, 1)"
    by (simp add: utf8_chunk_def get0_def char_width_def)
  with Cons show ?case by (simp add: lossy_chars.simps [of "b # bs"])
qed (simp add: lossy_chars.simps [of "[]"])

subsection \<open>Whitespace and tokens\<close>

text \<open>\<^verbatim>\<open>char::is_whitespace\<close>: the code points with the Unicode property White\_Space.\<close>

definition is_whitespace :: "bytes \<Rightarrow> bool" where
  "is_whitespace c \<longleftrightarrow>
     (\<exists>b \<in> set c. c = [b] \<and> (9 \<le> b \<and> b \<le> 13 \<or> b = 0x20))
     \<or> c = [0xC2, 0x85] \<or> c = [0xC2, 0xA0] \<or> c = [0xE1, 0x9A, 0x80]
     \<or> (\<exists>b \<in> set c. c = [0xE2, 0x80, b] \<and> (0x80 \<le> b \<and> b \<le> 0x8A \<or> b = 0xA8 \<or> b = 0xA9 \<or> b = 0xAF))
     \<or> c = [0xE2, 0x81, 0x9F] \<or> c = [0xE3, 0x80, 0x80]"

text \<open>\<^verbatim>\<open>s.split_whitespace().next()\<close> on the decoded characters.\<close>

definition first_token :: "bytes list \<Rightarrow> bytes option" where
  "first_token cs =
     (let t = takeWhile (\<lambda>c. \<not> is_whitespace c) (dropWhile is_whitespace cs) in
      if t = [] then None else Some (concat t))"

text \<open>\<^verbatim>\<open>str::trim\<close>, and the bytes of a string literal of the source.\<close>

definition trim_chars :: "bytes list \<Rightarrow> bytes list" where
  "trim_chars cs = rev (dropWhile is_whitespace (rev (dropWhile is_whitespace cs)))"

definition str_trim :: "bytes \<Rightarrow> bytes" where
  "str_trim s = concat (trim_chars (lossy_chars s))"

definition str_lit :: "string \<Rightarrow> bytes" where
  "str_lit s = map of_char s"

lemma trim_chars_id:
  assumes "cs \<noteq> [] \<Longrightarrow> \<not> is_whitespace (hd cs)" and "cs \<noteq> [] \<Longrightarrow> \<not> is_whitespace (last cs)"
  shows "trim_chars cs = cs"
proof (cases "cs = []")
  case False
  then have "dropWhile is_whitespace cs = cs"
    using assms(1) by (simp add: dropWhile_eq_self_iff)
  moreover have "dropWhile is_whitespace (rev cs) = rev cs"
    using assms(2) False by (simp add: dropWhile_eq_self_iff hd_rev)
  ultimately show ?thesis by (simp add: trim_chars_def)
qed (simp add: trim_chars_def)

lemma str_trim_plain:
  assumes "list_all (\<lambda>b. 0x20 < b \<and> b \<le> 0x7F) bs"
  shows "str_trim bs = bs"
proof -
  have "list_all (\<lambda>b. b \<le> 0x7F) bs"
    using assms by (rule list.pred_mono_strong) auto
  then have chars: "lossy_chars bs = map (\<lambda>b. [b]) bs" by (rule lossy_chars_ascii)
  have no: "b \<in> set bs \<Longrightarrow> \<not> is_whitespace [b]" for b
    using assms by (auto simp: list_all_iff is_whitespace_def word_le_nat_alt word_less_nat_alt)
  have "trim_chars (lossy_chars bs) = lossy_chars bs"
    by (rule trim_chars_id) (auto simp: chars hd_map last_map no)
  then show ?thesis by (simp add: str_trim_def chars concat_map_singleton)
qed

subsection \<open>Decimal numbers\<close>

definition is_ascii_alphabetic :: "u8 \<Rightarrow> bool" where
  "is_ascii_alphabetic b \<longleftrightarrow> 65 \<le> b \<and> b \<le> 90 \<or> 97 \<le> b \<and> b \<le> 122"

definition is_digit :: "u8 \<Rightarrow> bool" where
  "is_digit b \<longleftrightarrow> 48 \<le> b \<and> b \<le> 57"

fun parse_digits :: "nat \<Rightarrow> bytes \<Rightarrow> nat option" where
  "parse_digits acc [] = Some acc"
| "parse_digits acc (b # bs) =
     (if is_digit b \<and> acc * 10 + (unat b - 48) < 2 ^ 64
      then parse_digits (acc * 10 + (unat b - 48)) bs else None)"

text \<open>\<^verbatim>\<open>str::parse::<u64>\<close>, which accepts a leading plus sign.\<close>

definition parse_u64 :: "bytes \<Rightarrow> nat option" where
  "parse_u64 bs =
     (case bs of [] \<Rightarrow> None
      | b # rest \<Rightarrow> if b = 43 then (if rest = [] then None else parse_digits 0 rest)
                   else parse_digits 0 bs)"

fun u64_to_string :: "nat \<Rightarrow> bytes" where
  "u64_to_string n =
     (if n < 10 then [word_of_nat (48 + n)]
      else u64_to_string (n div 10) @ [word_of_nat (48 + n mod 10)])"

declare u64_to_string.simps [simp del]

lemma digit_byte:
  assumes "d < 10"
  shows "is_digit (48 + word_of_nat d)" and "unat (48 + word_of_nat d :: u8) = 48 + d"
proof -
  have "unat (word_of_nat (48 + d) :: u8) = 48 + d"
    using assms by (simp only: unat_of_nat) simp
  then show "unat (48 + word_of_nat d :: u8) = 48 + d" by simp
  then show "is_digit (48 + word_of_nat d)"
    using assms by (simp add: is_digit_def word_le_nat_alt)
qed

lemma u64_to_string_digits: "list_all is_digit (u64_to_string n)"
proof (induction n rule: u64_to_string.induct)
  case (1 n)
  then show ?case
    by (cases "n < 10") (auto simp: u64_to_string.simps [of n] digit_byte)
qed

lemma u64_to_string_nonempty [simp]: "u64_to_string n \<noteq> []"
  by (subst u64_to_string.simps) simp

lemma decimal_bytes:
  "from_utf8_lossy (u64_to_string n) = u64_to_string n"
  "b \<in> set (u64_to_string n) \<Longrightarrow> b \<noteq> 0 \<and> b \<noteq> 32"
proof -
  have d: "list_all is_digit (u64_to_string n)" by (rule u64_to_string_digits)
  then have "list_all (\<lambda>b. b \<le> 0x7F) (u64_to_string n)"
    by (rule list.pred_mono_strong) (auto simp: is_digit_def word_le_nat_alt)
  then show "from_utf8_lossy (u64_to_string n) = u64_to_string n"
    by (rule from_utf8_lossy_valid [OF ascii_valid])
  show "b \<in> set (u64_to_string n) \<Longrightarrow> b \<noteq> 0 \<and> b \<noteq> 32"
    using d by (auto simp: list_all_iff is_digit_def word_le_nat_alt)
qed

lemma first_token_decimal: "first_token (lossy_chars (u64_to_string n)) = Some (u64_to_string n)"
proof -
  let ?ds = "u64_to_string n"
  have d: "list_all is_digit ?ds" by (rule u64_to_string_digits)
  then have "list_all (\<lambda>b. b \<le> 0x7F) ?ds"
    by (rule list.pred_mono_strong) (auto simp: is_digit_def word_le_nat_alt)
  then have chars: "lossy_chars ?ds = map (\<lambda>b. [b]) ?ds" by (rule lossy_chars_ascii)
  have no: "c \<in> set (map (\<lambda>b. [b]) ?ds) \<Longrightarrow> \<not> is_whitespace c" for c
    using d by (auto simp: list_all_iff is_whitespace_def is_digit_def word_le_nat_alt)
  have "dropWhile is_whitespace (map (\<lambda>b. [b]) ?ds) = map (\<lambda>b. [b]) ?ds"
    using no [of "hd (map (\<lambda>b. [b]) ?ds)"] by (simp add: dropWhile_eq_self_iff del: set_map)
  moreover have "takeWhile (\<lambda>c. \<not> is_whitespace c) (map (\<lambda>b. [b]) ?ds) = map (\<lambda>b. [b]) ?ds"
    by (rule takeWhile_eq_all_conv [THEN iffD2]) (use no in blast)
  ultimately show ?thesis
    by (simp only: first_token_def chars Let_def) (simp add: concat_map_singleton)
qed

lemma parse_digits_snoc:
  "parse_digits a xs = Some v \<Longrightarrow> is_digit b \<Longrightarrow> v * 10 + (unat b - 48) < 2 ^ 64 \<Longrightarrow>
     parse_digits a (xs @ [b]) = Some (v * 10 + (unat b - 48))"
  by (induction xs arbitrary: a) (auto split: if_splits)

lemma parse_digits_to_string:
  "n < 2 ^ 64 \<Longrightarrow> parse_digits 0 (u64_to_string n) = Some n"
proof (induction n rule: u64_to_string.induct)
  case (1 n)
  show ?case
  proof (cases "n < 10")
    case True
    then show ?thesis using digit_byte [of n] by (simp add: u64_to_string.simps [of n])
  next
    case False
    let ?b = "48 + word_of_nat (n mod 10) :: u8"
    have b: "is_digit ?b" "unat ?b - 48 = n mod 10"
      using digit_byte [of "n mod 10"] by simp_all
    have "parse_digits 0 (u64_to_string (n div 10)) = Some (n div 10)"
      using "1.IH" [OF False] "1.prems" by simp
    from parse_digits_snoc [OF this b(1)] b(2) "1.prems" False
    show ?thesis by (simp add: u64_to_string.simps [of n])
  qed
qed

lemma parse_u64_to_string: "n < 2 ^ 64 \<Longrightarrow> parse_u64 (u64_to_string n) = Some n"
proof -
  assume n: "n < 2 ^ 64"
  obtain b rest where s: "u64_to_string n = b # rest"
    using u64_to_string_nonempty [of n] by (cases "u64_to_string n") auto
  then have "is_digit b" using u64_to_string_digits [of n] by simp
  then have "b \<noteq> 43" by (auto simp: is_digit_def)
  then show ?thesis
    using parse_digits_to_string [OF n] by (simp add: parse_u64_def s)
qed

subsection \<open>Paths\<close>

fun split_on :: "u8 \<Rightarrow> bytes \<Rightarrow> bytes list" where
  "split_on c [] = [[]]"
| "split_on c (b # bs) =
     (if b = c then [] # split_on c bs
      else (case split_on c bs of p # ps \<Rightarrow> (b # p) # ps | [] \<Rightarrow> [[b]]))"

text \<open>
  \<^verbatim>\<open>Path::file_name\<close> on Unix: the last component, unless it is the root, the current or the
  parent directory.
\<close>

definition path_file_name :: "bytes \<Rightarrow> bytes option" where
  "path_file_name p =
     (case rev (filter (\<lambda>c. c \<noteq> [] \<and> c \<noteq> [46]) (split_on 47 p)) of
        [] \<Rightarrow> None
      | c # _ \<Rightarrow> if c = [46, 46] then None else Some c)"

definition path_is_absolute :: "bytes \<Rightarrow> bool" where
  "path_is_absolute p \<longleftrightarrow> (case p of b # _ \<Rightarrow> b = 47 | [] \<Rightarrow> False)"

lemma split_on_absent: "c \<notin> set bs \<Longrightarrow> split_on c bs = [bs]"
  by (induction bs) auto

lemma path_file_name_plain:
  "47 \<notin> set p \<Longrightarrow> p \<noteq> [] \<Longrightarrow> p \<noteq> [46] \<Longrightarrow> p \<noteq> [46, 46] \<Longrightarrow> path_file_name p = Some p"
  by (simp add: path_file_name_def split_on_absent)

lemma path_absolute_slash: "47 \<notin> set p \<Longrightarrow> \<not> path_is_absolute p"
  by (auto simp: path_is_absolute_def split: list.splits)

end
