(* ===== verification/Xymodem.thy ===== *)
theory Xymodem
  imports Crc Modem_Io Rust_Str
begin

text \<open>
  The X/YMODEM block layer of \<^verbatim>\<open>hapcli-modem-transfer/src/xymodem.rs\<close>: blocks of 128 or 1024 bytes
  with a block number, its complement and a CRC-16 or an arithmetic checksum, and the YMODEM
  file header carried by block zero. The encoders and parsers are inverse to each other, and
  both parsers reject every block in which a single byte was replaced.
\<close>

abbreviation SOH :: u8 where "SOH \<equiv> 0x01"
abbreviation STX :: u8 where "STX \<equiv> 0x02"
abbreviation EOT :: u8 where "EOT \<equiv> 0x04"
abbreviation ACK :: u8 where "ACK \<equiv> 0x06"
abbreviation NAK :: u8 where "NAK \<equiv> 0x15"
abbreviation CAN :: u8 where "CAN \<equiv> 0x18"
abbreviation WANT_CRC :: u8 where "WANT_CRC \<equiv> 0x43"
abbreviation CPMEOF :: u8 where "CPMEOF \<equiv> 0x1a"

subsection \<open>Blocks\<close>

datatype xy_block_size = Bytes128 | Bytes1024

fun xy_len :: "xy_block_size \<Rightarrow> nat" where
  "xy_len Bytes128 = 128"
| "xy_len Bytes1024 = 1024"

fun xy_marker :: "xy_block_size \<Rightarrow> u8" where
  "xy_marker Bytes128 = SOH"
| "xy_marker Bytes1024 = STX"

definition xy_from_marker :: "u8 \<Rightarrow> xy_block_size option" where
  "xy_from_marker m = (if m = SOH then Some Bytes128 else if m = STX then Some Bytes1024 else None)"

record xy_block =
  xb_number :: u8
  xb_size :: xy_block_size
  xb_payload :: bytes

definition xy_block_new :: "u8 \<Rightarrow> xy_block_size \<Rightarrow> bytes \<Rightarrow> modem_error + xy_block" where
  "xy_block_new number sz payload =
     (if length payload > xy_len sz then Err InvalidLength
      else Ok \<lparr>xb_number = number, xb_size = sz,
               xb_payload = payload @ replicate (xy_len sz - length payload) CPMEOF\<rparr>)"

definition xy_checksum :: "bytes \<Rightarrow> u8" where
  "xy_checksum payload = foldl (+) 0 payload"

definition encode_crc :: "xy_block \<Rightarrow> bytes" where
  "encode_crc b =
     [xy_marker (xb_size b), xb_number b, NOT (xb_number b)] @ xb_payload b
       @ u16_to_be_bytes (crc16_xmodem (xb_payload b))"

definition encode_checksum :: "xy_block \<Rightarrow> bytes" where
  "encode_checksum b =
     [xy_marker (xb_size b), xb_number b, NOT (xb_number b)] @ xb_payload b
       @ [xy_checksum (xb_payload b)]"

definition parse_crc :: "bytes \<Rightarrow> modem_error + xy_block" where
  "parse_crc bs =
     (if length bs < 3 then Err Incomplete
      else case xy_from_marker (bs ! 0) of
        None \<Rightarrow> Err InvalidMarker
      | Some sz \<Rightarrow>
          let expected_len = 3 + xy_len sz + 2 in
          if length bs < expected_len then Err Incomplete
          else if length bs \<noteq> expected_len then Err InvalidLength
          else let number = bs ! 1 in
            if number + bs ! 2 \<noteq> 0xff then Err InvalidBlockNumber
            else let payload = take (xy_len sz) (drop 3 bs);
                     received = u16_from_be_bytes (bs ! (3 + xy_len sz)) (bs ! (3 + xy_len sz + 1)) in
              if crc16_xmodem payload \<noteq> received then Err InvalidCrc
              else Ok \<lparr>xb_number = number, xb_size = sz, xb_payload = payload\<rparr>)"

definition parse_checksum :: "bytes \<Rightarrow> modem_error + xy_block" where
  "parse_checksum bs =
     (if length bs < 3 then Err Incomplete
      else case xy_from_marker (bs ! 0) of
        None \<Rightarrow> Err InvalidMarker
      | Some sz \<Rightarrow>
          let expected_len = 3 + xy_len sz + 1 in
          if length bs < expected_len then Err Incomplete
          else if length bs \<noteq> expected_len then Err InvalidLength
          else let number = bs ! 1 in
            if number + bs ! 2 \<noteq> 0xff then Err InvalidBlockNumber
            else let payload = take (xy_len sz) (drop 3 bs) in
              if xy_checksum payload \<noteq> bs ! (3 + xy_len sz) then Err InvalidChecksum
              else Ok \<lparr>xb_number = number, xb_size = sz, xb_payload = payload\<rparr>)"

subsection \<open>YMODEM file header\<close>

record ymodem_file_header =
  yh_file_name :: bytes
  yh_file_size :: "nat option"

definition validate_ymodem_file_name :: "bytes \<Rightarrow> modem_error + unit" where
  "validate_ymodem_file_name name =
     (if name = [] \<or> name = [46] \<or> name = [46, 46] \<or> 47 \<in> set name \<or> 92 \<in> set name
         \<or> path_is_absolute name \<or> path_file_name name \<noteq> Some name
      then Err InvalidFileName else Ok ())"

definition ymodem_header_new :: "bytes \<Rightarrow> nat option \<Rightarrow> modem_error + ymodem_file_header" where
  "ymodem_header_new name fsize =
     res_bind (validate_ymodem_file_name name)
       (\<lambda>_. Ok \<lparr>yh_file_name = name, yh_file_size = fsize\<rparr>)"

definition encode_block0_payload :: "ymodem_file_header \<Rightarrow> modem_error + bytes" where
  "encode_block0_payload h =
     (let name = yh_file_name h; n = length name in
      if name = [] \<or> n \<ge> 128 then Err InvalidFileName
      else case yh_file_size h of
        None \<Rightarrow> Ok (name @ replicate (128 - n) 0)
      | Some fsize \<Rightarrow>
          let text = u64_to_string fsize; size_start = n + 1; size_end = size_start + length text in
          if size_end \<ge> 128 then Err InvalidLength
          else Ok (name @ [0] @ text @ replicate (128 - size_end) 0))"

definition parse_block0_payload :: "bytes \<Rightarrow> modem_error + ymodem_file_header option" where
  "parse_block0_payload payload =
     (case position (\<lambda>b. b = 0) payload of
        None \<Rightarrow> Err InvalidLength
      | Some nul \<Rightarrow>
          if nul = 0 then Ok None
          else let name = from_utf8_lossy (take nul payload) in
            res_bind (validate_ymodem_file_name name) (\<lambda>_.
              let metadata = drop (nul + 1) payload;
                  size_end = (case position (\<lambda>b. b = 32 \<or> b = 0) metadata of
                                Some i \<Rightarrow> i | None \<Rightarrow> length metadata) in
              if size_end = 0
              then Ok (Some \<lparr>yh_file_name = name, yh_file_size = None\<rparr>)
              else case parse_u64 (from_utf8_lossy (take size_end metadata)) of
                     None \<Rightarrow> Err InvalidLength
                   | Some v \<Rightarrow> Ok (Some \<lparr>yh_file_name = name, yh_file_size = Some v\<rparr>)))"

subsection \<open>Blocks: round trips\<close>

definition xy_block_wf :: "xy_block \<Rightarrow> bool" where
  "xy_block_wf b \<longleftrightarrow> length (xb_payload b) = xy_len (xb_size b)"

lemma xy_len_pos [simp]: "0 < xy_len sz" "xy_len sz \<le> 1024"
  by (cases sz; simp)+

lemma xy_from_marker_marker [simp]: "xy_from_marker (xy_marker sz) = Some sz"
  by (cases sz) (simp_all add: xy_from_marker_def)

lemma xy_from_marker_Some: "xy_from_marker m = Some sz \<Longrightarrow> m = xy_marker sz"
  by (auto simp: xy_from_marker_def split: if_splits)

lemma complement_sum: "n + NOT n = (0xff :: u8)"
  by (rule u8_allI) code_simp

lemma complement_unique: "n + m = (0xff :: u8) \<Longrightarrow> m = NOT n"
  using complement_sum [of n] by (metis add_left_cancel)

lemma xy_block_new_wf: "xy_block_new n sz p = Ok b \<Longrightarrow> xy_block_wf b"
  by (auto simp: xy_block_new_def xy_block_wf_def split: if_splits)

lemma length_encode [wire_simps]:
  "xy_block_wf b \<Longrightarrow> length (encode_crc b) = xy_len (xb_size b) + 5"
  "xy_block_wf b \<Longrightarrow> length (encode_checksum b) = xy_len (xb_size b) + 4"
  by (simp_all add: encode_crc_def encode_checksum_def xy_block_wf_def u16_to_be_bytes_def)

lemma parse_encode_crc [wire_simps]: "xy_block_wf b \<Longrightarrow> parse_crc (encode_crc b) = Ok b"
  by (simp add: parse_crc_def encode_crc_def xy_block_wf_def u16_to_be_bytes_def complement_sum
      nth_append nth_Cons' Let_def)

lemma parse_encode_checksum [wire_simps]:
  "xy_block_wf b \<Longrightarrow> parse_checksum (encode_checksum b) = Ok b"
  by (simp add: parse_checksum_def encode_checksum_def xy_block_wf_def complement_sum
      nth_append nth_Cons' Let_def)

lemma split_frame:
  assumes "length bs = 3 + n + k"
  shows "bs = [bs ! 0, bs ! 1, bs ! 2] @ take n (drop 3 bs) @ drop (3 + n) bs"
proof -
  obtain a b c rest where "bs = a # b # c # rest"
    using assms by (cases bs; cases "tl bs"; cases "tl (tl bs)") auto
  then show ?thesis by (simp add: numeral_2_eq_2 numeral_3_eq_3)
qed

lemma drop_two: "length bs = n + 2 \<Longrightarrow> drop n bs = [bs ! n, bs ! (n + 1)]"
  by (simp add: Cons_nth_drop_Suc [symmetric])

lemma drop_one: "length bs = n + 1 \<Longrightarrow> drop n bs = [bs ! n]"
  by (simp add: Cons_nth_drop_Suc [symmetric])

lemma parse_crc_sound:
  assumes "parse_crc bs = Ok b"
  shows "bs = encode_crc b" and "xy_block_wf b"
proof -
  obtain sz where sz: "bs ! 0 = xy_marker sz" and len: "length bs = 3 + xy_len sz + 2"
    and num: "bs ! 1 + bs ! 2 = 0xff"
    and crc: "crc16_xmodem (take (xy_len sz) (drop 3 bs))
          = u16_from_be_bytes (bs ! (3 + xy_len sz)) (bs ! (3 + xy_len sz + 1))"
    and b: "b = \<lparr>xb_number = bs ! 1, xb_size = sz, xb_payload = take (xy_len sz) (drop 3 bs)\<rparr>"
    using assms
    by (auto simp: parse_crc_def Let_def dest!: xy_from_marker_Some split: if_splits option.splits)
  have "drop (3 + xy_len sz) bs = u16_to_be_bytes (crc16_xmodem (take (xy_len sz) (drop 3 bs)))"
    using drop_two [OF len] u16_be_inj [OF crc [symmetric]] by (simp add: u16_to_be_bytes_def)
  then show "bs = encode_crc b"
    using split_frame [OF len] sz complement_unique [OF num] b by (simp add: encode_crc_def)
  show "xy_block_wf b" using b len by (simp add: xy_block_wf_def)
qed

lemma parse_checksum_sound:
  assumes "parse_checksum bs = Ok b"
  shows "bs = encode_checksum b" and "xy_block_wf b"
proof -
  obtain sz where sz: "bs ! 0 = xy_marker sz" and len: "length bs = 3 + xy_len sz + 1"
    and num: "bs ! 1 + bs ! 2 = 0xff"
    and chk: "xy_checksum (take (xy_len sz) (drop 3 bs)) = bs ! (3 + xy_len sz)"
    and b: "b = \<lparr>xb_number = bs ! 1, xb_size = sz, xb_payload = take (xy_len sz) (drop 3 bs)\<rparr>"
    using assms
    by (auto simp: parse_checksum_def Let_def dest!: xy_from_marker_Some
             split: if_splits option.splits)
  show "bs = encode_checksum b"
    using split_frame [OF len] drop_one [OF len] sz complement_unique [OF num] b chk
    by (simp add: encode_checksum_def)
  show "xy_block_wf b" using b len by (simp add: xy_block_wf_def)
qed

text \<open>
  A byte string parses as a CRC block exactly when it is the encoding of a well-formed
  block, and the block is the one encoded.
\<close>

theorem parse_crc_iff_encode:
  "parse_crc bs = Ok b \<longleftrightarrow> xy_block_wf b \<and> bs = encode_crc b"
  using parse_crc_sound parse_encode_crc by blast

text \<open>
  The same for blocks with the one-byte arithmetic checksum.
\<close>

theorem parse_checksum_iff_encode:
  "parse_checksum bs = Ok b \<longleftrightarrow> xy_block_wf b \<and> bs = encode_checksum b"
  using parse_checksum_sound parse_encode_checksum by blast

subsection \<open>Blocks: every replaced byte is detected\<close>

interpretation checksum8: checksum_fold "(+) :: u8 \<Rightarrow> u8 \<Rightarrow> u8"
  by unfold_locales auto

text \<open>Two frames with the same marker that differ at most at one place are equal.\<close>

lemma frame_substitution:
  assumes detects: "\<And>xs x y ys. x \<noteq> y \<Longrightarrow> chk (xs @ x # ys) \<noteq> chk (xs @ y # ys)"
    and F: "F = [m, n, NOT n] @ p @ chk p" and F': "F' = [m, n', NOT n'] @ p' @ chk p'"
    and len: "length p = length p'" and i: "i < length F" and upd: "F' = F[i := x]"
  shows "x = F ! i"
proof -
  have same: "F' ! j = F ! j" if "j \<noteq> i" for j
    using upd that by simp
  have "n = n'"
  proof (cases "i = 1")
    case True
    then show ?thesis using same [of 2] F F' by simp
  next
    case False
    then show ?thesis using same [of 1] F F' by simp
  qed
  have "p = p'"
  proof (rule ccontr)
    assume "p \<noteq> p'"
    then obtain j where j: "j < length p" "p ! j \<noteq> p' ! j"
      using len nth_equalityI by blast
    have nth: "F ! (3 + k) = p ! k" "F' ! (3 + k) = p' ! k" if "k < length p" for k
      using that len F F' by (simp_all add: nth_append nth_Cons')
    have ij: "i = 3 + j" using same [of "3 + j"] nth [OF j(1)] j(2) by auto
    then have "F' = [m, n, NOT n] @ p[j := x] @ chk p"
      using upd F j(1) by (simp add: list_update_append numeral_3_eq_3)
    then have p': "p' = p[j := x]" and chk: "chk p' = chk p"
      using F' \<open>n = n'\<close> len by auto
    have "p = take j p @ p ! j # drop (Suc j) p" "p' = take j p @ x # drop (Suc j) p"
      using j(1) p' by (simp_all add: id_take_nth_drop upd_conv_take_nth_drop)
    moreover have "p ! j \<noteq> x" using p' j by auto
    ultimately show False using detects chk by metis
  qed
  then have "F' = F" using F F' \<open>n = n'\<close> by simp
  then show ?thesis using upd i by (metis nth_list_update_eq)
qed

lemma xy_len_inj: "xy_len a = xy_len b \<Longrightarrow> a = b"
  by (cases a; cases b; simp)

lemma u16_to_be_bytes_inj: "u16_to_be_bytes a = u16_to_be_bytes b \<Longrightarrow> a = b"
  by (simp add: u16_to_be_bytes_def) (metis u16_be_round_trip)

text \<open>
  Whatever single byte of a transmitted CRC block is replaced by a different one (marker,
  block number, complement, payload or CRC), the receiver's parser returns an error.
\<close>

theorem parse_crc_rejects_corruption:
  assumes "xy_block_wf b" and "i < length (encode_crc b)" and "x \<noteq> encode_crc b ! i"
  shows "\<exists>e. parse_crc ((encode_crc b)[i := x]) = Err e"
proof (cases "parse_crc ((encode_crc b)[i := x])")
  case (Inr b')
  note s = parse_crc_sound [OF Inr]
  have "length (encode_crc b) = length (encode_crc b')" using s(1) by (metis length_list_update)
  then have sz: "xb_size b = xb_size b'"
    using s(2) assms(1) by (simp add: wire_simps xy_len_inj)
  have "x = encode_crc b ! i"
  proof (rule frame_substitution [where chk = "\<lambda>p. u16_to_be_bytes (crc16_xmodem p)" and p = "xb_payload b"
        and p' = "xb_payload b'", OF _ _ _ _ assms(2) s(1) [symmetric]])
    show "u16_to_be_bytes (crc16_xmodem (xs @ u # ys)) \<noteq> u16_to_be_bytes (crc16_xmodem (xs @ v # ys))"
      if "u \<noteq> v" for xs u v ys
      using crc16.foldl_substitution [OF that] by (auto simp: crc16_xmodem_def dest: u16_to_be_bytes_inj)
  qed (use s(2) sz assms(1) in \<open>auto simp: encode_crc_def xy_block_wf_def\<close>)
  then show ?thesis using assms(3) by simp
qed simp

theorem parse_crc_rejects_corruption_witness:
  "\<exists>e. parse_crc ((encode_crc \<lparr>xb_number = 1, xb_size = Bytes128, xb_payload = replicate 128 65\<rparr>)
      [2 := 0]) = Err e"
  by (rule parse_crc_rejects_corruption) (simp_all add: xy_block_wf_def encode_crc_def)

text \<open>
  The same for blocks with the arithmetic checksum.
\<close>

theorem parse_checksum_rejects_corruption:
  assumes "xy_block_wf b" and "i < length (encode_checksum b)" and "x \<noteq> encode_checksum b ! i"
  shows "\<exists>e. parse_checksum ((encode_checksum b)[i := x]) = Err e"
proof (cases "parse_checksum ((encode_checksum b)[i := x])")
  case (Inr b')
  note s = parse_checksum_sound [OF Inr]
  have "length (encode_checksum b) = length (encode_checksum b')"
    using s(1) by (metis length_list_update)
  then have sz: "xb_size b = xb_size b'"
    using s(2) assms(1) by (simp add: wire_simps xy_len_inj)
  have "x = encode_checksum b ! i"
  proof (rule frame_substitution [where chk = "\<lambda>p. [xy_checksum p]" and p = "xb_payload b"
        and p' = "xb_payload b'", OF _ _ _ _ assms(2) s(1) [symmetric]])
    show "[xy_checksum (xs @ u # ys)] \<noteq> [xy_checksum (xs @ v # ys)]" if "u \<noteq> v" for xs u v ys
      using checksum8.foldl_substitution [OF that] by (auto simp: xy_checksum_def)
  qed (use s(2) sz assms(1) in \<open>auto simp: encode_checksum_def xy_block_wf_def\<close>)
  then show ?thesis using assms(3) by simp
qed simp

theorem parse_checksum_rejects_corruption_witness:
  "\<exists>e. parse_checksum ((encode_checksum
      \<lparr>xb_number = 1, xb_size = Bytes128, xb_payload = replicate 128 65\<rparr>) [2 := 0]) = Err e"
  by (rule parse_checksum_rejects_corruption) (simp_all add: xy_block_wf_def encode_checksum_def)

subsection \<open>File header: round trip and plain names\<close>

lemma validate_ymodem_file_name_iff:
  "validate_ymodem_file_name name = Ok u \<longleftrightarrow>
     name \<noteq> [] \<and> name \<noteq> [46] \<and> name \<noteq> [46, 46] \<and> 47 \<notin> set name \<and> 92 \<notin> set name"
  using path_file_name_plain [of name] path_absolute_slash [of name]
  by (auto simp: validate_ymodem_file_name_def)

lemma ymodem_header_new_iff:
  "ymodem_header_new name fsize = Ok h \<longleftrightarrow>
     validate_ymodem_file_name name = Ok () \<and> h = \<lparr>yh_file_name = name, yh_file_size = fsize\<rparr>"
  by (auto simp: ymodem_header_new_def res_bind_eq_Ok)

lemma parse_block0_after_name:
  assumes "validate_ymodem_file_name name = Ok ()" and "utf8_valid name" and "0 \<notin> set name"
  shows "parse_block0_payload (name @ 0 # rest) =
    (let size_end = (case position (\<lambda>b. b = 32 \<or> b = 0) rest of Some i \<Rightarrow> i | None \<Rightarrow> length rest) in
     if size_end = 0 then Ok (Some \<lparr>yh_file_name = name, yh_file_size = None\<rparr>)
     else case parse_u64 (from_utf8_lossy (take size_end rest)) of
            None \<Rightarrow> Err InvalidLength
          | Some v \<Rightarrow> Ok (Some \<lparr>yh_file_name = name, yh_file_size = Some v\<rparr>))"
proof -
  have "position (\<lambda>b. b = 0) (name @ 0 # rest) = Some (length name)"
    using assms(3) by (intro position_append_hit) auto
  moreover have "name \<noteq> []" using assms(1) by (simp add: validate_ymodem_file_name_iff)
  ultimately show ?thesis
    using assms by (simp add: parse_block0_payload_def Let_def from_utf8_lossy_valid)
qed

lemma position_padding: "position (\<lambda>b. b = 32 \<or> b = (0::u8)) (replicate n 0) = (if n = 0 then None else Some 0)"
  by (cases n) auto

lemma header_round_trip:
  assumes new: "ymodem_header_new name fsize = Ok h" and enc: "encode_block0_payload h = Ok payload"
    and utf8: "utf8_valid name" and nul: "0 \<notin> set name" and bound: "\<forall>n. fsize = Some n \<longrightarrow> n < 2 ^ 64"
  shows "parse_block0_payload payload = Ok (Some h) \<and> length payload = 128"
proof -
  have v: "validate_ymodem_file_name name = Ok ()"
    and h: "h = \<lparr>yh_file_name = name, yh_file_size = fsize\<rparr>"
    using new by (simp_all add: ymodem_header_new_iff)
  show ?thesis
  proof (cases fsize)
    case None
    then obtain k where k: "payload = name @ 0 # replicate k 0" and len: "length payload = 128"
      using enc h by (cases "128 - length name") (auto simp: encode_block0_payload_def Let_def split: if_splits)
    then show ?thesis
      using None h by (simp add: parse_block0_after_name [OF v utf8 nul] position_padding Let_def)
  next
    case (Some n)
    obtain k where k: "payload = name @ 0 # u64_to_string n @ 0 # replicate k 0" and len: "length payload = 128"
      using enc h Some
      by (cases "128 - (length name + 1 + length (u64_to_string n))")
         (auto simp: encode_block0_payload_def Let_def split: if_splits)
    have "position (\<lambda>b. b = 32 \<or> b = 0) (u64_to_string n @ 0 # replicate k 0)
        = Some (length (u64_to_string n))"
      by (rule position_append_hit) (auto dest: decimal_bytes(2))
    then show ?thesis
      using Some h bound len unfolding k
      by (simp add: parse_block0_after_name [OF v utf8 nul] Let_def decimal_bytes(1) parse_u64_to_string)
  qed
qed

text \<open>
  The metadata block of YMODEM round-trips: whenever a header is accepted by the
  constructor and fits block zero, parsing the encoded block returns the same file name and
  size (the name being a NUL-free UTF-8 string, the size a 64-bit number).
\<close>

theorem ymodem_header_round_trip:
  assumes new: "ymodem_header_new name fsize = Ok h" and enc: "encode_block0_payload h = Ok payload"
    and utf8: "utf8_valid name" and nul: "0 \<notin> set name" and bound: "\<forall>n. fsize = Some n \<longrightarrow> n < 2 ^ 64"
  shows "parse_block0_payload payload = Ok (Some h) \<and> length payload = 128"
  using assms by (rule header_round_trip)

theorem ymodem_header_round_trip_witness:
  "parse_block0_payload ([65, 66] @ [0] @ u64_to_string 7 @ replicate 124 0)
     = Ok (Some \<lparr>yh_file_name = [65, 66], yh_file_size = Some 7\<rparr>)
   \<and> length ([65, 66] @ [0] @ u64_to_string 7 @ replicate 124 (0 :: u8)) = 128"
  by (rule ymodem_header_round_trip [where name = "[65, 66]" and fsize = "Some 7"])
     (simp_all add: ymodem_header_new_iff validate_ymodem_file_name_iff encode_block0_payload_def
        u64_to_string.simps [of 7] ascii_valid Let_def)

text \<open>
  A file name taken from a received block zero never names another directory: it is not
  empty, not a dot or dot-dot, and holds neither a slash nor a backslash.
\<close>

theorem ymodem_received_name_is_plain:
  assumes "parse_block0_payload payload = Ok (Some h)"
  shows "yh_file_name h \<notin> {[], [46], [46, 46]} \<and> 47 \<notin> set (yh_file_name h) \<and> 92 \<notin> set (yh_file_name h)"
  using assms
  by (auto simp: parse_block0_payload_def Let_def res_bind_eq_Ok validate_ymodem_file_name_iff
           split: option.splits if_splits)

theorem ymodem_received_name_is_plain_witness:
  "parse_block0_payload (65 # 0 # replicate 126 0) = Ok (Some \<lparr>yh_file_name = [65], yh_file_size = None\<rparr>)
   \<and> [65 :: u8] \<notin> {[], [46], [46, 46]}"
proof -
  have p: "parse_block0_payload ([65] @ 0 # replicate 126 0)
      = Ok (Some \<lparr>yh_file_name = [65], yh_file_size = None\<rparr>)"
    by (subst parse_block0_after_name)
       (simp_all add: validate_ymodem_file_name_iff ascii_valid position_padding Let_def)
  show ?thesis using ymodem_received_name_is_plain [OF p] p by simp
qed

end
