(* ===== verification/Xymodem_Transfer.thy ===== *)
theory Xymodem_Transfer
  imports Xymodem
begin

text \<open>
  The XMODEM and YMODEM conversations of \<^verbatim>\<open>hapcli-modem-transfer/src/xymodem_transfer.rs\<close>, run over
  the in-memory channel. A reader is the rest of the bytes it will deliver, a writer the bytes
  written so far; both are returned on errors too. The receiving loops end because every turn
  either consumes input or spends one of the ten retries.
  The sessions at the end run the sender on the receiver's output and the receiver on the
  sender's output.
\<close>

datatype xmodem_block_mode = Mode128 | Mode1024

fun block_size :: "xmodem_block_mode \<Rightarrow> xy_block_size" where
  "block_size Mode128 = Bytes128"
| "block_size Mode1024 = Bytes1024"

definition XYMODEM_RETRIES :: nat where
  "XYMODEM_RETRIES = 10"

record ymodem_send_entry =
  ye_file_name :: bytes
  ye_file_size :: nat
  ye_bytes :: bytes

subsection \<open>Sending\<close>

fun wait_for_start :: "nat \<Rightarrow> bool mem" where
  "wait_for_start 0 = io_fail Timeout"
| "wait_for_start (Suc k) = io_bind read_byte (\<lambda>b.
     if b = WANT_CRC then io_return True
     else if b = NAK then io_return False
     else if b = CAN then
       io_bind read_byte (\<lambda>c. if c = CAN then io_fail Cancelled else wait_for_start k)
     else wait_for_start k)"

definition wait_for_xymodem_start :: "bool mem" where
  "wait_for_xymodem_start = wait_for_start XYMODEM_RETRIES"

fun finish_send :: "nat \<Rightarrow> unit mem" where
  "finish_send 0 = io_fail Timeout"
| "finish_send (Suc k) = io_bind (write_all [EOT]) (\<lambda>_. io_bind read_byte (\<lambda>b.
     if b = ACK then io_return ()
     else if b = NAK then finish_send k
     else if b = CAN then
       io_bind read_byte (\<lambda>c. if c = CAN then io_fail Cancelled else finish_send k)
     else io_fail (UnexpectedByte b)))"

definition finish_xymodem_send :: "unit mem" where
  "finish_xymodem_send = finish_send XYMODEM_RETRIES"

definition expect_byte_or_cancel :: "u8 \<Rightarrow> unit mem" where
  "expect_byte_or_cancel expected = io_bind read_byte (\<lambda>b.
     if b = expected then io_return ()
     else if b = CAN then
       io_bind read_byte (\<lambda>c. if c = CAN then io_fail Cancelled else io_fail (UnexpectedByte CAN))
     else io_fail (UnexpectedByte b))"

fun send_frame :: "bytes \<Rightarrow> nat \<Rightarrow> unit mem" where
  "send_frame frame 0 = io_fail Timeout"
| "send_frame frame (Suc k) = io_bind (write_all frame) (\<lambda>_. io_bind read_byte (\<lambda>b.
     if b = ACK then io_return ()
     else if b = NAK \<or> b = WANT_CRC then send_frame frame k
     else if b = CAN then
       io_bind read_byte (\<lambda>c. if c = CAN then io_fail Cancelled else send_frame frame k)
     else io_fail (UnexpectedByte b)))"

definition send_xymodem_block :: "u8 \<Rightarrow> xy_block_size \<Rightarrow> bytes \<Rightarrow> bool \<Rightarrow> unit mem" where
  "send_xymodem_block number sz payload use_crc =
     io_bind (io_lift (protocol_result (xy_block_new number sz payload))) (\<lambda>block.
       send_frame (if use_crc then encode_crc block else encode_checksum block) XYMODEM_RETRIES)"

function send_xymodem_blocks ::
    "xy_block_size \<Rightarrow> bool \<Rightarrow> u8 \<Rightarrow> nat \<Rightarrow> bytes \<Rightarrow> nat mem" where
  "send_xymodem_blocks sz use_crc number tot reader =
     (let rd = min (xy_len sz) (length reader) in
      if rd = 0 then io_return tot
      else io_bind (send_xymodem_block number sz
                      (take rd reader @ replicate (xy_len sz - rd) CPMEOF) use_crc) (\<lambda>_.
             send_xymodem_blocks sz use_crc (number + 1) (tot + rd) (drop rd reader)))"
  by pat_completeness auto
termination
  by (relation "measure (\<lambda>(sz, use_crc, number, tot, reader). length reader)") auto

declare send_xymodem_blocks.simps [simp del]

definition send_xmodem :: "bytes \<Rightarrow> xmodem_block_mode \<Rightarrow> nat mem" where
  "send_xmodem reader block_mode =
     io_bind wait_for_xymodem_start (\<lambda>use_crc.
     io_bind (send_xymodem_blocks (block_size block_mode) use_crc 1 0 reader) (\<lambda>bytes_sent.
     io_bind finish_xymodem_send (\<lambda>_. io_return bytes_sent)))"

definition send_ymodem_entry :: "ymodem_send_entry \<Rightarrow> nat mem" where
  "send_ymodem_entry entry =
     io_bind wait_for_xymodem_start (\<lambda>_.
     io_bind (io_lift (protocol_result
        (ymodem_header_new (ye_file_name entry) (Some (ye_file_size entry))))) (\<lambda>header.
     io_bind (io_lift (protocol_result (encode_block0_payload header))) (\<lambda>payload.
     io_bind (send_xymodem_block 0 Bytes128 payload True) (\<lambda>_.
     io_bind (expect_byte_or_cancel WANT_CRC) (\<lambda>_.
     io_bind (send_xymodem_blocks Bytes1024 True 1 0 (take (ye_file_size entry) (ye_bytes entry)))
       (\<lambda>entry_bytes.
     if entry_bytes \<noteq> ye_file_size entry then io_fail UnexpectedFrame
     else io_bind finish_xymodem_send (\<lambda>_. io_return entry_bytes)))))))"

fun send_ymodem_entries :: "nat \<Rightarrow> ymodem_send_entry list \<Rightarrow> nat mem" where
  "send_ymodem_entries tot [] = io_return tot"
| "send_ymodem_entries tot (entry # entries) =
     io_bind (send_ymodem_entry entry) (\<lambda>n. send_ymodem_entries (tot + n) entries)"

definition send_ymodem_stream :: "ymodem_send_entry list \<Rightarrow> nat mem" where
  "send_ymodem_stream entries =
     io_bind (send_ymodem_entries 0 entries) (\<lambda>tot.
     io_bind wait_for_xymodem_start (\<lambda>_.
     io_bind (send_xymodem_block 0 Bytes128 (replicate 128 0) True) (\<lambda>_. io_return tot)))"

subsection \<open>Receiving\<close>

datatype xymodem_packet = Block xy_block | EndOfTransmission

definition read_block_body :: "bool \<Rightarrow> u8 \<Rightarrow> xy_block mem" where
  "read_block_body use_crc marker =
     io_bind (io_lift (case xy_from_marker marker of
                 Some sz \<Rightarrow> Ok sz | None \<Rightarrow> Err (UnexpectedByte marker))) (\<lambda>sz.
     io_bind (read_n read_byte (2 + xy_len sz + (if use_crc then 2 else 1))) (\<lambda>raw.
     io_lift (protocol_result
       (if use_crc then parse_crc (marker # raw) else parse_checksum (marker # raw)))))"

definition read_xymodem_block :: "bool \<Rightarrow> xy_block mem" where
  "read_xymodem_block use_crc = io_bind read_byte (read_block_body use_crc)"

definition read_xymodem_packet :: "bool \<Rightarrow> xymodem_packet mem" where
  "read_xymodem_packet use_crc = io_bind read_byte (\<lambda>marker.
     if marker = EOT then io_return EndOfTransmission
     else if marker = CAN then
       io_bind read_byte (\<lambda>c. if c = CAN then io_fail Cancelled else io_fail (UnexpectedByte CAN))
     else io_bind (read_block_body use_crc marker) (\<lambda>block. io_return (Block block)))"

lemma read_block_body_consumes [shrinks]: "consumes (read_block_body use_crc marker)"
  unfolding read_block_body_def by (intro consumes_bind consumes_basic consumes_read_n)

lemma read_xymodem_block_consumes1 [shrinks]: "consumes1 (read_xymodem_block use_crc)"
  unfolding read_xymodem_block_def by (intro consumes1_bind consumes_basic read_block_body_consumes)

lemma read_xymodem_packet_consumes1 [shrinks]: "consumes1 (read_xymodem_packet use_crc)"
  unfolding read_xymodem_packet_def
  by (intro consumes1_bind consumes_if consumes_bind consumes_basic read_block_body_consumes)

lemmas packet_shrinks =
  consumes1_sym [OF read_xymodem_packet_consumes1]
  consumes_sym [OF consumes1_consumes [OF read_xymodem_packet_consumes1]]

lemma write_all_input [simp]: "io_input (snd (write_all bs s)) = io_input s"
  by (simp add: write_all_def)

function receive_xymodem_blocks ::
    "bool \<Rightarrow> nat option \<Rightarrow> bool \<Rightarrow> u8 \<Rightarrow> nat \<Rightarrow> nat \<Rightarrow> bytes \<Rightarrow> memory_io
       \<Rightarrow> ((transfer_error + nat) \<times> bytes) \<times> memory_io" where
  "receive_xymodem_blocks use_crc expected_size eot_handshake expected tot retries writer s =
     (case read_xymodem_packet use_crc s of
        (Inr EndOfTransmission, s1) \<Rightarrow>
          (case (if eot_handshake
                 then io_bind (write_all [NAK]) (\<lambda>_. expect_byte_or_cancel EOT)
                 else io_return ()) s1 of
             (Inl e, s2) \<Rightarrow> ((Inl e, writer), s2)
           | (Inr _, s2) \<Rightarrow> ((Inr tot, writer), snd (write_all [ACK] s2)))
      | (Inr (Block block), s1) \<Rightarrow>
          if xb_number block = expected then
            let write_len = (case expected_size of
                   Some fsize \<Rightarrow> min (fsize - tot) (length (xb_payload block))
                 | None \<Rightarrow> length (xb_payload block)) in
            receive_xymodem_blocks use_crc expected_size eot_handshake (expected + 1)
              (tot + write_len) 0 (writer @ take write_len (xb_payload block))
              (snd (write_all [ACK] s1))
          else if xb_number block \<noteq> expected - 1 then
            receive_xymodem_blocks use_crc expected_size eot_handshake expected tot 0 writer
              (snd (write_all [NAK] s1))
          else
            receive_xymodem_blocks use_crc expected_size eot_handshake expected tot 0 writer
              (snd (write_all [ACK] s1))
      | (Inl e, s1) \<Rightarrow>
          if e = Cancelled then ((Inl Cancelled, writer), s1)
          else if retries < XYMODEM_RETRIES then
            let s2 = snd (write_all [NAK] s1) in
            if e = UnexpectedByte EOT then ((Inl e, writer), s2)
            else receive_xymodem_blocks use_crc expected_size eot_handshake expected tot
                   (retries + 1) writer s2
          else ((Inl e, writer), s1))"
  by pat_completeness auto
termination
  by (relation "measures [\<lambda>(c, es, h, ex, t, r, w, s). length (io_input s),
                          \<lambda>(c, es, h, ex, t, r, w, s). XYMODEM_RETRIES - r]")
     (auto simp: le_neq_implies_less dest: packet_shrinks)

declare receive_xymodem_blocks.simps [simp del]

definition receive_xmodem :: "bool \<Rightarrow> memory_io \<Rightarrow> ((transfer_error + nat) \<times> bytes) \<times> memory_io" where
  "receive_xmodem use_crc s =
     receive_xymodem_blocks use_crc None False 1 0 0 []
       (snd (write_all [if use_crc then WANT_CRC else NAK] s))"

lemma expect_byte_consumes [shrinks]: "consumes (expect_byte_or_cancel b)"
  unfolding expect_byte_or_cancel_def by (intro consumes_bind consumes_if consumes_basic)

lemma receive_blocks_consumes:
  "receive_xymodem_blocks c es h ex t r w s = (res, s') \<Longrightarrow> length (io_input s') \<le> length (io_input s)"
proof (induction c es h ex t r w s rule: receive_xymodem_blocks.induct)
  case (1 c es h ex t r w s)
  have eot: "consumes (if h then io_bind (write_all [NAK]) (\<lambda>_. expect_byte_or_cancel EOT) else io_return ())"
    by (intro consumes_if consumes_bind expect_byte_consumes consumes_basic)
  obtain res1 s1 where rd: "read_xymodem_packet c s = (res1, s1)" by fastforce
  then have le: "length (io_input s1) \<le> length (io_input s)"
    using packet_shrinks(2) by metis
  show ?case
  proof (cases res1)
    case (Inl e)
    then show ?thesis
      using "1.prems" "1.IH"(1) [OF rd [symmetric]] le
      by (subst (asm) receive_xymodem_blocks.simps)
         (fastforce simp: rd Let_def split: if_splits)
  next
    case (Inr p)
    show ?thesis
    proof (cases p)
      case (Block b)
      then show ?thesis
        using "1.prems" "1.IH"(2,3,4) [OF rd [symmetric]] le Inr
        by (subst (asm) receive_xymodem_blocks.simps)
           (fastforce simp: rd Let_def split: if_splits)
    next
      case EndOfTransmission
      then show ?thesis
        using "1.prems" le Inr consumesD [OF eot]
        by (subst (asm) receive_xymodem_blocks.simps)
           (fastforce simp: rd split: prod.splits sum.splits intro: order_trans)
    qed
  qed
qed

lemmas header_read_shrinks =
  consumes1_sym [OF consumes1_bind_right [OF consumes_basic(4) read_xymodem_block_consumes1]]

text \<open>
  One pass of \<^verbatim>\<open>receive_ymodem\<close>'s loop per file. The result carries the headers of the completed
  files; beside it stands what every opened writer has received.
\<close>

function receive_ymodem_loop ::
    "(ymodem_file_header \<Rightarrow> transfer_error + unit) \<Rightarrow> ymodem_file_header list
       \<Rightarrow> (ymodem_file_header \<times> bytes) list \<Rightarrow> memory_io
       \<Rightarrow> ((transfer_error + ymodem_file_header list) \<times> (ymodem_file_header \<times> bytes) list) \<times> memory_io"
where
  "receive_ymodem_loop open_writer received files s =
     (case io_bind (write_all [WANT_CRC]) (\<lambda>_. read_xymodem_block True) s of
        (Inl e, s1) \<Rightarrow> ((Inl e, files), s1)
      | (Inr header_block, s1) \<Rightarrow>
          if xb_number header_block \<noteq> 0 then
            receive_ymodem_loop open_writer received files (snd (write_all [NAK] s1))
          else let s2 = snd (write_all [ACK] s1) in
            (case parse_block0_payload (xb_payload header_block) of
               Inl e \<Rightarrow> ((Inl (Protocol e), files), s2)
             | Inr None \<Rightarrow> ((Inr received, files), s2)
             | Inr (Some header) \<Rightarrow>
                 let s3 = snd (write_all [WANT_CRC] s2) in
                 (case open_writer header of
                    Inl e \<Rightarrow> ((Inl e, files), s3)
                  | Inr _ \<Rightarrow>
                      (case receive_xymodem_blocks True (yh_file_size header) True 1 0 0 [] s3 of
                         ((Inl e, w), s4) \<Rightarrow> ((Inl e, files @ [(header, w)]), s4)
                       | ((Inr n, w), s4) \<Rightarrow>
                           if (case yh_file_size header of Some fsize \<Rightarrow> n < fsize | None \<Rightarrow> False)
                           then ((Inl UnexpectedFrame, files @ [(header, w)]), s4)
                           else receive_ymodem_loop open_writer (received @ [header])
                                  (files @ [(header, w)]) s4))))"
  by pat_completeness auto
termination
proof (relation "measure (\<lambda>(ow, rec, fs, s). length (io_input s))", goal_cases)
  case (2 ow rec fs s x y b)
  then show ?case using header_read_shrinks by auto
next
  case (3 ow rec fs s x y b)
  then show ?case using header_read_shrinks receive_blocks_consumes [OF sym] by fastforce
qed simp

declare receive_ymodem_loop.simps [simp del]

definition receive_ymodem ::
    "(ymodem_file_header \<Rightarrow> transfer_error + unit) \<Rightarrow> memory_io
       \<Rightarrow> ((transfer_error + ymodem_file_header list) \<times> (ymodem_file_header \<times> bytes) list) \<times> memory_io"
where
  "receive_ymodem open_writer s = receive_ymodem_loop open_writer [] [] s"

subsection \<open>The wire format of a file\<close>

text \<open>
  What the sender puts on the wire, stated without the conversation: the file cut into blocks,
  the last one padded, numbered from one modulo 256.
\<close>

function chunks :: "nat \<Rightarrow> 'a list \<Rightarrow> 'a list list" where
  "chunks n xs = (if n = 0 \<or> xs = [] then [] else take n xs # chunks n (drop n xs))"
  by pat_completeness auto
termination
  by (relation "measure (\<lambda>(n, xs). length xs)") auto

declare chunks.simps [simp del]

lemma chunks_Nil [simp]: "chunks n [] = []"
  by (subst chunks.simps) simp

definition padded :: "xy_block_size \<Rightarrow> bytes \<Rightarrow> bytes" where
  "padded sz c = c @ replicate (xy_len sz - length c) CPMEOF"

definition frame :: "bool \<Rightarrow> xy_block_size \<Rightarrow> u8 \<Rightarrow> bytes \<Rightarrow> bytes" where
  "frame use_crc sz n c =
     (let b = \<lparr>xb_number = n, xb_size = sz, xb_payload = padded sz c\<rparr> in
      if use_crc then encode_crc b else encode_checksum b)"

fun frames :: "bool \<Rightarrow> xy_block_size \<Rightarrow> u8 \<Rightarrow> bytes list \<Rightarrow> bytes" where
  "frames use_crc sz n [] = []"
| "frames use_crc sz n (c # cs) = frame use_crc sz n c @ frames use_crc sz (n + 1) cs"

lemma concat_chunks [simp]: "0 < n \<Longrightarrow> concat (chunks n xs) = xs"
proof (induction n xs rule: chunks.induct)
  case (1 n xs)
  then show ?case by (cases "xs = []") (simp_all add: chunks.simps [of n xs])
qed

lemma chunks_bound: "c \<in> set (chunks n xs) \<Longrightarrow> length c \<le> n \<and> c \<noteq> []"
proof (induction n xs rule: chunks.induct)
  case (1 n xs)
  then show ?case by (cases "n = 0 \<or> xs = []") (auto simp: chunks.simps [of n xs])
qed

lemma length_padded [simp]: "length c \<le> xy_len sz \<Longrightarrow> length (padded sz c) = xy_len sz"
  by (simp add: padded_def)

lemma padded_padded [simp]: "length c \<le> xy_len sz \<Longrightarrow> padded sz (padded sz c) = padded sz c"
  by (simp add: padded_def)

lemma concat_padded_chunks:
  "\<exists>k < xy_len sz. concat (map (padded sz) (chunks (xy_len sz) xs)) = xs @ replicate k CPMEOF"
proof (induction "xy_len sz" xs rule: chunks.induct)
  case (1 xs)
  let ?n = "xy_len sz"
  show ?case
  proof (cases "xs = []")
    case True
    then show ?thesis by (auto intro: exI [of _ 0])
  next
    case False
    then obtain k where k: "k < ?n"
        "concat (map (padded sz) (chunks ?n (drop ?n xs))) = drop ?n xs @ replicate k CPMEOF"
      using 1 by auto
    show ?thesis
    proof (cases "length xs < ?n")
      case True
      then have "concat (map (padded sz) (chunks ?n xs)) = xs @ replicate (?n - length xs) CPMEOF"
        using False by (simp add: chunks.simps [of ?n xs] padded_def)
      moreover have "?n - length xs < ?n" using False by simp
      ultimately show ?thesis by blast
    next
      case False
      then have "padded sz (take ?n xs) = take ?n xs" by (simp add: padded_def)
      then show ?thesis
        using k \<open>xs \<noteq> []\<close> by (auto simp: chunks.simps [of ?n xs])
    qed
  qed
qed

subsection \<open>One block across the channel\<close>

lemma retries_pos [simp]: "0 < XYMODEM_RETRIES" "Suc 0 < XYMODEM_RETRIES"
  by (simp_all add: XYMODEM_RETRIES_def)

lemma send_frame_acked [io_simps]:
  "0 < k \<Longrightarrow> send_frame f k \<lparr>io_input = ACK # i, io_output = out\<rparr> =
     (Ok (), \<lparr>io_input = i, io_output = out @ f\<rparr>)"
  by (cases k) simp_all

lemma xy_marker_neq [simp]: "xy_marker sz \<noteq> EOT" "xy_marker sz \<noteq> CAN"
  by (cases sz; simp)+

lemma frame_padded [simp]: "length c \<le> xy_len sz \<Longrightarrow> frame crc sz n (padded sz c) = frame crc sz n c"
  by (simp add: frame_def)

lemma send_block_acked [io_simps]:
  "length c \<le> xy_len sz \<Longrightarrow>
     send_xymodem_block n sz c crc \<lparr>io_input = ACK # i, io_output = out\<rparr> =
       (Ok (), \<lparr>io_input = i, io_output = out @ frame crc sz n c\<rparr>)"
  by (simp add: send_xymodem_block_def xy_block_new_def send_frame_acked frame_def padded_def Let_def)

lemma frame_cons:
  assumes "length c \<le> xy_len sz"
  obtains rest where "frame crc sz n c = xy_marker sz # rest"
    and "length rest = 2 + xy_len sz + (if crc then 2 else 1)"
  using assms that
  by (cases crc) (auto simp: frame_def encode_crc_def encode_checksum_def u16_to_be_bytes_def Let_def)

lemma read_body_frame [io_simps]:
  assumes "length c \<le> xy_len sz" and "frame crc sz n c = m # rest"
  shows "read_block_body crc m \<lparr>io_input = rest @ i, io_output = out\<rparr> =
    (Ok \<lparr>xb_number = n, xb_size = sz, xb_payload = padded sz c\<rparr>, \<lparr>io_input = i, io_output = out\<rparr>)"
proof -
  let ?b = "\<lparr>xb_number = n, xb_size = sz, xb_payload = padded sz c\<rparr>"
  have wf: "xy_block_wf ?b" using assms(1) by (simp add: xy_block_wf_def)
  obtain rest' where "frame crc sz n c = xy_marker sz # rest'"
    and "length rest' = 2 + xy_len sz + (if crc then 2 else 1)"
    by (rule frame_cons [OF assms(1)])
  then have m: "m = xy_marker sz" and len: "length rest = 2 + xy_len sz + (if crc then 2 else 1)"
    using assms(2) by simp_all
  have "(if crc then parse_crc (m # rest) else parse_checksum (m # rest)) = Ok ?b"
    using parse_encode_crc [OF wf] parse_encode_checksum [OF wf] assms(2)
    by (auto simp: frame_def Let_def split: if_splits)
  then show ?thesis
    using m len by (cases crc) (simp_all add: read_block_body_def read_n_memory)
qed

lemma read_packet_frame [io_simps]:
  assumes "length c \<le> xy_len sz"
  shows "read_xymodem_packet crc \<lparr>io_input = frame crc sz n c @ i, io_output = out\<rparr> =
    (Ok (Block \<lparr>xb_number = n, xb_size = sz, xb_payload = padded sz c\<rparr>),
     \<lparr>io_input = i, io_output = out\<rparr>)"
proof -
  obtain rest where f: "frame crc sz n c = xy_marker sz # rest"
    by (rule frame_cons [OF assms])
  then show ?thesis
    by (simp add: read_xymodem_packet_def read_body_frame [OF assms f])
qed

lemma read_block_frame [io_simps]:
  assumes "length c \<le> xy_len sz"
  shows "read_xymodem_block crc \<lparr>io_input = frame crc sz n c @ i, io_output = out\<rparr> =
    (Ok \<lparr>xb_number = n, xb_size = sz, xb_payload = padded sz c\<rparr>, \<lparr>io_input = i, io_output = out\<rparr>)"
proof -
  obtain rest where f: "frame crc sz n c = xy_marker sz # rest"
    by (rule frame_cons [OF assms])
  then show ?thesis
    by (simp add: read_xymodem_block_def read_body_frame [OF assms f])
qed

lemma read_packet_eot [io_simps]:
  "read_xymodem_packet crc \<lparr>io_input = EOT # i, io_output = out\<rparr> =
     (Ok EndOfTransmission, \<lparr>io_input = i, io_output = out\<rparr>)"
  by (simp add: read_xymodem_packet_def)

subsection \<open>Whole files across the channel\<close>

lemma send_blocks_acked:
  "send_xymodem_blocks sz crc n t xs
      \<lparr>io_input = replicate (length (chunks (xy_len sz) xs)) ACK @ i, io_output = out\<rparr> =
     (Ok (t + length xs), \<lparr>io_input = i, io_output = out @ frames crc sz n (chunks (xy_len sz) xs)\<rparr>)"
proof (induction "xy_len sz" xs arbitrary: n t out rule: chunks.induct)
  case (1 xs)
  let ?n = "xy_len sz" and ?rd = "min (xy_len sz) (length xs)"
  show ?case
  proof (cases "xs = []")
    case True
    then show ?thesis by (subst send_xymodem_blocks.simps) simp
  next
    case False
    have rd: "?rd \<noteq> 0" and c: "take ?rd xs = take ?n xs" and d: "drop ?rd xs = drop ?n xs"
      using False by (auto simp: min_def)
    have pad: "take ?rd xs @ replicate (?n - ?rd) CPMEOF = padded sz (take ?n xs)"
      by (simp add: c padded_def)
    have ch: "chunks ?n xs = take ?n xs # chunks ?n (drop ?n xs)"
      using False by (simp add: chunks.simps [of ?n xs])
    note block = send_block_acked [of "padded sz (take ?n xs)" sz n crc]
    show ?thesis
      by (subst send_xymodem_blocks.simps)
         (use rd False 1 block in \<open>simp add: Let_def ch d pad\<close>)
  qed
qed

definition quota :: "nat option \<Rightarrow> nat \<Rightarrow> bytes \<Rightarrow> bytes" where
  "quota expected_size t data =
     (case expected_size of None \<Rightarrow> data | Some fsize \<Rightarrow> take (fsize - t) data)"

lemma quota_append:
  "quota es t (p @ q) =
     (let w = quota es t p in w @ quota es (t + length w) q)"
  by (auto simp: quota_def Let_def min_def split: option.splits)

lemma receive_blocks_frame:
  assumes "length c \<le> xy_len sz"
  shows "receive_xymodem_blocks crc es h n t r w \<lparr>io_input = frame crc sz n c @ i, io_output = out\<rparr> =
    receive_xymodem_blocks crc es h (n + 1) (t + length (quota es t (padded sz c))) 0
      (w @ quota es t (padded sz c)) \<lparr>io_input = i, io_output = out @ [ACK]\<rparr>"
  using assms
  by (subst receive_xymodem_blocks.simps)
     (auto simp: read_packet_frame quota_def Let_def min_def split: option.splits)

lemma receive_blocks_frames:
  "list_all (\<lambda>c. length c \<le> xy_len sz) cs \<Longrightarrow>
   receive_xymodem_blocks crc es h n t 0 w \<lparr>io_input = frames crc sz n cs @ i, io_output = out\<rparr> =
   (let data = quota es t (concat (map (padded sz) cs)) in
    receive_xymodem_blocks crc es h (n + word_of_nat (length cs)) (t + length data) 0 (w @ data)
      \<lparr>io_input = i, io_output = out @ replicate (length cs) ACK\<rparr>)"
proof (induction cs arbitrary: n t w out)
  case Nil
  then show ?case by (simp add: quota_def split: option.splits)
next
  case (Cons c cs)
  then show ?case
    by (simp add: receive_blocks_frame quota_append Let_def add.assoc)
qed

lemma receive_blocks_eot:
  "receive_xymodem_blocks crc es False n t r w \<lparr>io_input = EOT # i, io_output = out\<rparr> =
     ((Ok t, w), \<lparr>io_input = i, io_output = out @ [ACK]\<rparr>)"
  "receive_xymodem_blocks crc es True n t r w \<lparr>io_input = EOT # EOT # i, io_output = out\<rparr> =
     ((Ok t, w), \<lparr>io_input = i, io_output = out @ [NAK, ACK]\<rparr>)"
  by (subst receive_xymodem_blocks.simps, simp add: read_packet_eot expect_byte_or_cancel_def)+

lemma wait_for_start_pos:
  "0 < k \<Longrightarrow> wait_for_start k \<lparr>io_input = WANT_CRC # i, io_output = out\<rparr> =
     (Ok True, \<lparr>io_input = i, io_output = out\<rparr>)"
  "0 < k \<Longrightarrow> wait_for_start k \<lparr>io_input = NAK # i, io_output = out\<rparr> =
     (Ok False, \<lparr>io_input = i, io_output = out\<rparr>)"
  by (cases k; simp)+

lemma wait_for_start_run [io_simps]:
  "wait_for_xymodem_start \<lparr>io_input = WANT_CRC # i, io_output = out\<rparr> =
     (Ok True, \<lparr>io_input = i, io_output = out\<rparr>)"
  "wait_for_xymodem_start \<lparr>io_input = NAK # i, io_output = out\<rparr> =
     (Ok False, \<lparr>io_input = i, io_output = out\<rparr>)"
  by (simp_all add: wait_for_xymodem_start_def wait_for_start_pos)

lemma finish_send_pos:
  "0 < k \<Longrightarrow> finish_send k \<lparr>io_input = ACK # i, io_output = out\<rparr> =
     (Ok (), \<lparr>io_input = i, io_output = out @ [EOT]\<rparr>)"
  "Suc 0 < k \<Longrightarrow> finish_send k \<lparr>io_input = NAK # ACK # i, io_output = out\<rparr> =
     (Ok (), \<lparr>io_input = i, io_output = out @ [EOT, EOT]\<rparr>)"
  by (cases k; cases "k - 1"; simp)+

lemma finish_send_run [io_simps]:
  "finish_xymodem_send \<lparr>io_input = ACK # i, io_output = out\<rparr> =
     (Ok (), \<lparr>io_input = i, io_output = out @ [EOT]\<rparr>)"
  "finish_xymodem_send \<lparr>io_input = NAK # ACK # i, io_output = out\<rparr> =
     (Ok (), \<lparr>io_input = i, io_output = out @ [EOT, EOT]\<rparr>)"
  by (simp_all add: finish_xymodem_send_def finish_send_pos)

lemma chunks_all_bound: "list_all (\<lambda>c. length c \<le> n) (chunks n xs)"
  by (auto simp: list_all_iff dest: chunks_bound)

text \<open>
  An XMODEM transfer delivers the file. For every file, both block sizes and both checks,
  there is a conversation in which the sender's output is the receiver's input and the
  receiver's output is the sender's input; both sides return, nothing is left unread, the
  sender reports the file's length, and the receiver has written the file followed only by
  less than one block of CP/M end-of-file padding.
\<close>

theorem xmodem_session_delivers_file:
  "\<exists>wire replies k.
     send_xmodem data mode (with_input replies) = (Ok (length data), \<lparr>io_input = [], io_output = wire\<rparr>)
   \<and> receive_xmodem use_crc (with_input wire) =
       ((Ok (length data + k), data @ replicate k CPMEOF), \<lparr>io_input = [], io_output = replies\<rparr>)
   \<and> k < xy_len (block_size mode)"
proof -
  let ?sz = "block_size mode" and ?start = "if use_crc then WANT_CRC else NAK"
  let ?cs = "chunks (xy_len ?sz) data"
  let ?wire = "frames use_crc ?sz 1 ?cs @ [EOT]"
  let ?replies = "?start # replicate (length ?cs) ACK @ [ACK]"
  obtain k where k: "k < xy_len ?sz" "concat (map (padded ?sz) ?cs) = data @ replicate k CPMEOF"
    using concat_padded_chunks by blast
  have "send_xmodem data mode (with_input ?replies) = (Ok (length data), \<lparr>io_input = [], io_output = ?wire\<rparr>)"
    using send_blocks_acked [of ?sz use_crc 1 0 data "[ACK]" "[]"]
    by (cases use_crc) (simp_all add: send_xmodem_def with_input_def io_simps)
  moreover have "receive_xmodem use_crc (with_input ?wire) =
      ((Ok (length data + k), data @ replicate k CPMEOF), \<lparr>io_input = [], io_output = ?replies\<rparr>)"
    using k(2)
    by (simp add: receive_xmodem_def with_input_def receive_blocks_frames [OF chunks_all_bound]
        receive_blocks_eot quota_def)
  ultimately show ?thesis using k(1) by blast
qed

subsection \<open>A YMODEM batch across the channel\<close>

definition ymodem_entry_ok :: "ymodem_send_entry \<Rightarrow> bool" where
  "ymodem_entry_ok e \<longleftrightarrow> ye_file_size e = length (ye_bytes e) \<and> ye_file_size e < 2 ^ 64
     \<and> utf8_valid (ye_file_name e) \<and> 0 \<notin> set (ye_file_name e)
     \<and> validate_ymodem_file_name (ye_file_name e) = Ok ()
     \<and> length (ye_file_name e) + length (u64_to_string (ye_file_size e)) < 127"

definition ymodem_header_of :: "ymodem_send_entry \<Rightarrow> ymodem_file_header" where
  "ymodem_header_of e = \<lparr>yh_file_name = ye_file_name e, yh_file_size = Some (ye_file_size e)\<rparr>"

text \<open>What one file puts on the wire in either direction.\<close>

definition ymodem_block0 :: "ymodem_send_entry \<Rightarrow> bytes" where
  "ymodem_block0 e = (case encode_block0_payload (ymodem_header_of e) of Inr p \<Rightarrow> p | Inl _ \<Rightarrow> [])"

definition ymodem_wire :: "ymodem_send_entry \<Rightarrow> bytes" where
  "ymodem_wire e = frame True Bytes128 0 (ymodem_block0 e)
     @ frames True Bytes1024 1 (chunks 1024 (ye_bytes e)) @ [EOT, EOT]"

definition ymodem_replies :: "ymodem_send_entry \<Rightarrow> bytes" where
  "ymodem_replies e =
     [WANT_CRC, ACK, WANT_CRC] @ replicate (length (chunks 1024 (ye_bytes e))) ACK @ [NAK, ACK]"

lemma ymodem_block0_ok:
  assumes "ymodem_entry_ok e"
  shows "encode_block0_payload (ymodem_header_of e) = Ok (ymodem_block0 e)"
    and "parse_block0_payload (ymodem_block0 e) = Ok (Some (ymodem_header_of e))"
    and "length (ymodem_block0 e) = 128"
proof -
  have new: "ymodem_header_new (ye_file_name e) (Some (ye_file_size e)) = Ok (ymodem_header_of e)"
    using assms by (simp add: ymodem_header_new_iff ymodem_entry_ok_def ymodem_header_of_def)
  show enc: "encode_block0_payload (ymodem_header_of e) = Ok (ymodem_block0 e)"
    using assms
    by (auto simp: ymodem_block0_def encode_block0_payload_def ymodem_header_of_def
          ymodem_entry_ok_def validate_ymodem_file_name_iff Let_def)
  show "parse_block0_payload (ymodem_block0 e) = Ok (Some (ymodem_header_of e))"
    and "length (ymodem_block0 e) = 128"
    using header_round_trip [OF new enc] assms by (auto simp: ymodem_entry_ok_def)
qed

lemma send_ymodem_entry_run:
  assumes "ymodem_entry_ok e"
  shows "send_ymodem_entry e \<lparr>io_input = ymodem_replies e @ i, io_output = out\<rparr> =
    (Ok (ye_file_size e), \<lparr>io_input = i, io_output = out @ ymodem_wire e\<rparr>)"
proof -
  have new: "ymodem_header_new (ye_file_name e) (Some (length (ye_bytes e))) = Ok (ymodem_header_of e)"
    and size: "ye_file_size e = length (ye_bytes e)"
    using assms by (simp_all add: ymodem_header_new_iff ymodem_entry_ok_def ymodem_header_of_def)
  show ?thesis
    using send_blocks_acked [of Bytes1024 True 1 0 "ye_bytes e" "[NAK, ACK] @ i"]
      send_block_acked [of "ymodem_block0 e" Bytes128 0 True] ymodem_block0_ok [OF assms] size
    by (simp add: send_ymodem_entry_def ymodem_replies_def ymodem_wire_def new io_simps
        expect_byte_or_cancel_def)
qed

lemma receive_ymodem_entry_run:
  assumes "ymodem_entry_ok e" and "open_writer (ymodem_header_of e) = Ok ()"
  shows "receive_ymodem_loop open_writer rec fs \<lparr>io_input = ymodem_wire e @ i, io_output = out\<rparr> =
    receive_ymodem_loop open_writer (rec @ [ymodem_header_of e])
      (fs @ [(ymodem_header_of e, ye_bytes e)]) \<lparr>io_input = i, io_output = out @ ymodem_replies e\<rparr>"
proof -
  let ?h = "ymodem_header_of e" and ?cs = "chunks (xy_len Bytes1024) (ye_bytes e)"
  note b0 = ymodem_block0_ok [OF assms(1)]
  have size: "yh_file_size ?h = Some (length (ye_bytes e))"
    using assms(1) by (simp add: ymodem_header_of_def ymodem_entry_ok_def)
  obtain k where k: "concat (map (padded Bytes1024) ?cs) = ye_bytes e @ replicate k CPMEOF"
    using concat_padded_chunks by blast
  have pad: "padded Bytes128 (ymodem_block0 e) = ymodem_block0 e"
    using b0(3) by (simp add: padded_def)
  have blocks: "receive_xymodem_blocks True (yh_file_size ?h) True 1 0 0 []
      \<lparr>io_input = frames True Bytes1024 1 ?cs @ EOT # EOT # i, io_output = o'\<rparr> =
    ((Ok (length (ye_bytes e)), ye_bytes e),
      \<lparr>io_input = i, io_output = o' @ replicate (length ?cs) ACK @ [NAK, ACK]\<rparr>)" for o'
    using k by (simp add: receive_blocks_frames [OF chunks_all_bound [of "xy_len Bytes1024"], simplified]
        receive_blocks_eot quota_def size Let_def)
  show ?thesis
    using blocks b0 assms(2) pad size
    by (subst receive_ymodem_loop.simps)
       (simp add: ymodem_wire_def ymodem_replies_def read_block_frame Let_def)
qed

lemma send_ymodem_entries_run:
  "list_all ymodem_entry_ok es \<Longrightarrow>
   send_ymodem_entries t es \<lparr>io_input = concat (map ymodem_replies es) @ i, io_output = out\<rparr> =
     (Ok (t + sum_list (map ye_file_size es)),
      \<lparr>io_input = i, io_output = out @ concat (map ymodem_wire es)\<rparr>)"
  by (induction es arbitrary: t out) (simp_all add: send_ymodem_entry_run add.assoc)

lemma receive_ymodem_entries_run:
  "list_all ymodem_entry_ok es \<Longrightarrow> (\<And>h. open_writer h = Ok ()) \<Longrightarrow>
   receive_ymodem_loop open_writer rec fs
      \<lparr>io_input = concat (map ymodem_wire es) @ i, io_output = out\<rparr> =
     receive_ymodem_loop open_writer (rec @ map ymodem_header_of es)
       (fs @ map (\<lambda>e. (ymodem_header_of e, ye_bytes e)) es)
       \<lparr>io_input = i, io_output = out @ concat (map ymodem_replies es)\<rparr>"
  by (induction es arbitrary: rec fs out) (simp_all add: receive_ymodem_entry_run)

lemma receive_ymodem_end_run:
  "receive_ymodem_loop open_writer rec fs
      \<lparr>io_input = frame True Bytes128 0 (replicate 128 0) @ i, io_output = out\<rparr> =
     ((Ok rec, fs), \<lparr>io_input = i, io_output = out @ [WANT_CRC, ACK]\<rparr>)"
proof -
  have "position (\<lambda>b. b = 0) (replicate 128 (0::u8)) = Some 0"
    by (simp add: numeral_eq_Suc)
  then have "parse_block0_payload (replicate 128 0) = Ok None"
    by (simp add: parse_block0_payload_def)
  moreover have "padded Bytes128 (replicate 128 0) = replicate 128 0"
    by (simp add: padded_def)
  ultimately show ?thesis
    by (subst receive_ymodem_loop.simps) (simp add: read_block_frame Let_def)
qed



subsection \<open>Whatever the peer sends\<close>

lemma receive_blocks_size_inv:
  "receive_xymodem_blocks c es h ex t r w s = ((res, w'), s') \<Longrightarrow> t = length w \<Longrightarrow>
     (\<forall>n. res = Ok n \<longrightarrow> n = length w') \<and>
     (\<forall>fsize. es = Some fsize \<longrightarrow> length w \<le> fsize \<longrightarrow> length w' \<le> fsize)"
proof (induction c es h ex t r w s rule: receive_xymodem_blocks.induct)
  case (1 c es h ex t r w s)
  obtain res1 s1 where rd: "read_xymodem_packet c s = (res1, s1)" by fastforce
  show ?case
  proof (cases res1)
    case (Inl e)
    then show ?thesis
      using "1.prems" "1.IH"(1) [OF rd [symmetric]]
      by (subst (asm) receive_xymodem_blocks.simps)
         (auto simp: rd Let_def split: if_splits)
  next
    case (Inr p)
    show ?thesis
    proof (cases p)
      case (Block b)
      then show ?thesis
        using "1.prems" "1.IH"(2,3,4) [OF rd [symmetric]] Inr
        by (subst (asm) receive_xymodem_blocks.simps)
           (auto simp: rd Let_def split: if_splits option.splits)
    next
      case EndOfTransmission
      then show ?thesis
        using "1.prems" Inr
        by (subst (asm) receive_xymodem_blocks.simps)
           (auto simp: rd split: prod.splits sum.splits)
    qed
  qed
qed

text \<open>
  C25: whatever bytes the peer sends, a YMODEM receiver told a file size never writes more than
  that many bytes, and a successful transfer reports exactly the number of bytes written.
\<close>

theorem ymodem_never_exceeds_declared_size:
  assumes "receive_xymodem_blocks use_crc (Some fsize) handshake 1 0 0 [] s = ((res, written), s')"
  shows "length written \<le> fsize \<and> (\<forall>n. res = Ok n \<longrightarrow> n = length written)"
  using receive_blocks_size_inv [OF assms] by simp

theorem ymodem_never_exceeds_declared_size_witness:
  "\<exists>res written s'.
     receive_xymodem_blocks True (Some 3) False 1 0 0 []
       (with_input (frame True Bytes128 1 [7, 8, 9, 10] @ [EOT])) = ((res, written), s')
   \<and> length written \<le> 3 \<and> (\<forall>n. res = Ok n \<longrightarrow> n = length written)"
proof -
  obtain res written s' where r: "receive_xymodem_blocks True (Some 3) False 1 0 0 []
       (with_input (frame True Bytes128 1 [7, 8, 9, 10] @ [EOT])) = ((res, written), s')"
    by (metis surj_pair)
  then show ?thesis using ymodem_never_exceeds_declared_size [OF r] by blast
qed

text \<open>
  A block repeated because its acknowledgment was lost is acknowledged again and not
  written again: the receiver continues exactly as if it had arrived once.
\<close>

theorem repeated_block_is_written_once:
  assumes "length c \<le> xy_len sz"
  shows "receive_xymodem_blocks crc es h n t r w
      \<lparr>io_input = frame crc sz n c @ frame crc sz n c @ i, io_output = out\<rparr> =
    receive_xymodem_blocks crc es h (n + 1) (t + length (quota es t (padded sz c))) 0
      (w @ quota es t (padded sz c)) \<lparr>io_input = i, io_output = out @ [ACK, ACK]\<rparr>"
proof -
  have again: "receive_xymodem_blocks crc es h (n + 1) t' 0 w'
      \<lparr>io_input = frame crc sz n c @ i, io_output = out'\<rparr> =
    receive_xymodem_blocks crc es h (n + 1) t' 0 w' \<lparr>io_input = i, io_output = out' @ [ACK]\<rparr>"
    for t' w' out'
    using assms
    by (subst receive_xymodem_blocks.simps) (simp add: read_packet_frame)
  show ?thesis
    using receive_blocks_frame [OF assms, of crc es h n t r w "frame crc sz n c @ i" out]
    by (simp add: again)
qed

theorem repeated_block_is_written_once_witness:
  "length [7 :: u8] \<le> xy_len Bytes128 \<and>
   receive_xymodem_blocks True None False 1 0 0 []
      \<lparr>io_input = frame True Bytes128 1 [7] @ frame True Bytes128 1 [7] @ [EOT], io_output = []\<rparr> =
   receive_xymodem_blocks True None False 2 (0 + length (quota None 0 (padded Bytes128 [7]))) 0
      ([] @ quota None 0 (padded Bytes128 [7])) \<lparr>io_input = [EOT], io_output = [] @ [ACK, ACK]\<rparr>"
  using repeated_block_is_written_once [of "[7]" Bytes128 True None False 1 0 0 "[]" "[EOT]" "[]"]
  by simp

end
