(* ===== verification/Zmodem.thy ===== *)
theory Zmodem
  imports Crc Modem_Io
begin

text \<open>
  The ZMODEM frame layer of \<^verbatim>\<open>hapcli-modem-transfer/src/zmodem.rs\<close>: frame types, hexadecimal and
  binary headers, the data subpacket ends and the ZDLE escaping. A header position (four bytes)
  is a 4-tuple of bytes.
\<close>

abbreviation ZPAD :: u8 where "ZPAD \<equiv> 0x2a"
abbreviation ZDLE :: u8 where "ZDLE \<equiv> 0x18"
abbreviation ZBIN :: u8 where "ZBIN \<equiv> 0x41"
abbreviation ZHEX :: u8 where "ZHEX \<equiv> 0x42"
abbreviation ZBIN32 :: u8 where "ZBIN32 \<equiv> 0x43"
abbreviation XON :: u8 where "XON \<equiv> 0x11"
abbreviation ZCRCE :: u8 where "ZCRCE \<equiv> 0x68"
abbreviation ZCRCG :: u8 where "ZCRCG \<equiv> 0x69"
abbreviation ZCRCQ :: u8 where "ZCRCQ \<equiv> 0x6a"
abbreviation ZCRCW :: u8 where "ZCRCW \<equiv> 0x6b"
abbreviation ZRUB0 :: u8 where "ZRUB0 \<equiv> 0x6c"
abbreviation ZRUB1 :: u8 where "ZRUB1 \<equiv> 0x6d"

subsection \<open>Frame types and headers\<close>

datatype z_frame_type =
    ZrqInit | ZrInit | ZsInit | ZAck | ZFile | ZSkip | ZNak | ZAbort | ZFin | ZRpos
  | ZData | ZEof | ZFerr | ZCrc | ZChallenge | ZCompl | ZCan | ZFreeCnt | ZCommand | ZStderr

fun zft_byte :: "z_frame_type \<Rightarrow> u8" where
  "zft_byte ZrqInit = 0"
| "zft_byte ZrInit = 1"
| "zft_byte ZsInit = 2"
| "zft_byte ZAck = 3"
| "zft_byte ZFile = 4"
| "zft_byte ZSkip = 5"
| "zft_byte ZNak = 6"
| "zft_byte ZAbort = 7"
| "zft_byte ZFin = 8"
| "zft_byte ZRpos = 9"
| "zft_byte ZData = 10"
| "zft_byte ZEof = 11"
| "zft_byte ZFerr = 12"
| "zft_byte ZCrc = 13"
| "zft_byte ZChallenge = 14"
| "zft_byte ZCompl = 15"
| "zft_byte ZCan = 16"
| "zft_byte ZFreeCnt = 17"
| "zft_byte ZCommand = 18"
| "zft_byte ZStderr = 19"

definition zft_from_byte :: "u8 \<Rightarrow> z_frame_type option" where
  "zft_from_byte b =
     (if b = 0 then Some ZrqInit
      else if b = 1 then Some ZrInit
      else if b = 2 then Some ZsInit
      else if b = 3 then Some ZAck
      else if b = 4 then Some ZFile
      else if b = 5 then Some ZSkip
      else if b = 6 then Some ZNak
      else if b = 7 then Some ZAbort
      else if b = 8 then Some ZFin
      else if b = 9 then Some ZRpos
      else if b = 10 then Some ZData
      else if b = 11 then Some ZEof
      else if b = 12 then Some ZFerr
      else if b = 13 then Some ZCrc
      else if b = 14 then Some ZChallenge
      else if b = 15 then Some ZCompl
      else if b = 16 then Some ZCan
      else if b = 17 then Some ZFreeCnt
      else if b = 18 then Some ZCommand
      else if b = 19 then Some ZStderr
      else None)"

lemma zft_round_trip [wire_simps, simp]: "zft_from_byte (zft_byte t) = Some t"
  by (cases t) (simp_all add: zft_from_byte_def)

datatype z_header_encoding = Bin16 | Bin32 | Hex

type_synonym z_position = "u8 \<times> u8 \<times> u8 \<times> u8"

record z_header =
  zh_frame_type :: z_frame_type
  zh_position :: z_position
  zh_encoding :: z_header_encoding

fun position_bytes :: "z_position \<Rightarrow> bytes" where
  "position_bytes (a, b, c, d) = [a, b, c, d]"

definition position_u32 :: "z_header \<Rightarrow> u32" where
  "position_u32 h = (case zh_position h of (a, b, c, d) \<Rightarrow> u32_from_le_bytes a b c d)"

definition position_header :: "u32 \<Rightarrow> z_position" where
  "position_header p =
     (ucast p, ucast (drop_bit 8 p), ucast (drop_bit 16 p), ucast (drop_bit 24 p))"

datatype z_data_end = End | Continue | ContinueWithAck | EndWithAck

fun zde_marker :: "z_data_end \<Rightarrow> u8" where
  "zde_marker End = ZCRCE"
| "zde_marker Continue = ZCRCG"
| "zde_marker ContinueWithAck = ZCRCQ"
| "zde_marker EndWithAck = ZCRCW"

definition zde_from_marker :: "u8 \<Rightarrow> z_data_end option" where
  "zde_from_marker m =
     (if m = ZCRCE then Some End
      else if m = ZCRCG then Some Continue
      else if m = ZCRCQ then Some ContinueWithAck
      else if m = ZCRCW then Some EndWithAck
      else None)"

lemma zde_round_trip [wire_simps, simp]: "zde_from_marker (zde_marker e) = Some e"
  by (cases e) (simp_all add: zde_from_marker_def)

subsection \<open>Escaping\<close>

definition should_escape_zdle :: "u8 \<Rightarrow> bool" where
  "should_escape_zdle b \<longleftrightarrow>
     b = ZDLE \<or> b = 0x10 \<or> b = 0x11 \<or> b = 0x13 \<or> b = 0x90 \<or> b = 0x91 \<or> b = 0x93"

definition zdle_escaped :: "bool \<Rightarrow> u8 \<Rightarrow> bytes" where
  "zdle_escaped escape_control b =
     (if should_escape_zdle b \<or> (escape_control \<and> b AND 0x60 = 0) then [ZDLE, b XOR 0x40] else [b])"

fun decode_zdle_payload :: "nat \<Rightarrow> bytes \<Rightarrow> modem_error + bytes" where
  "decode_zdle_payload 0 bs = Ok []"
| "decode_zdle_payload (Suc n) [] = Err Incomplete"
| "decode_zdle_payload (Suc n) (b # bs) =
     (if b = ZDLE then
        (case bs of
           [] \<Rightarrow> Err Incomplete
         | e # rest \<Rightarrow>
             res_bind (if e = ZRUB0 then Ok 0x7f
                       else if e = ZRUB1 then Ok 0xff
                       else if e AND 0x60 = 0x40 then Ok (e XOR 0x40)
                       else Err InvalidEscape)
               (\<lambda>d. res_bind (decode_zdle_payload n rest) (\<lambda>ds. Ok (d # ds))))
      else res_bind (decode_zdle_payload n bs) (\<lambda>ds. Ok (b # ds)))"

subsection \<open>Hexadecimal headers\<close>

definition HEX :: bytes where
  "HEX = [0x30, 0x31, 0x32, 0x33, 0x34, 0x35, 0x36, 0x37, 0x38, 0x39,
          0x61, 0x62, 0x63, 0x64, 0x65, 0x66]"

definition hex_byte :: "u8 \<Rightarrow> bytes" where
  "hex_byte b = [HEX ! unat (drop_bit 4 b), HEX ! unat (b AND 0x0f)]"

definition hex_value :: "u8 \<Rightarrow> modem_error + u8" where
  "hex_value b =
     (if 0x30 \<le> b \<and> b \<le> 0x39 then Ok (b - 0x30)
      else if 0x61 \<le> b \<and> b \<le> 0x66 then Ok (b - 0x61 + 10)
      else if 0x41 \<le> b \<and> b \<le> 0x46 then Ok (b - 0x41 + 10)
      else Err InvalidFrameEncoding)"

definition read_hex_byte :: "u8 \<Rightarrow> u8 \<Rightarrow> modem_error + u8" where
  "read_hex_byte a b =
     res_bind (hex_value a) (\<lambda>high. res_bind (hex_value b) (\<lambda>low. Ok (push_bit 4 high OR low)))"

fun read_hex_bytes :: "nat \<Rightarrow> bytes \<Rightarrow> modem_error + bytes" where
  "read_hex_bytes (Suc n) (a # b # rest) =
     res_bind (read_hex_byte a b) (\<lambda>v. res_bind (read_hex_bytes n rest) (\<lambda>vs. Ok (v # vs)))"
| "read_hex_bytes 0 bs = Ok []"
| "read_hex_bytes (Suc n) bs = Err Incomplete"

definition encode_hex_header :: "z_frame_type \<Rightarrow> z_position \<Rightarrow> bool \<Rightarrow> bytes" where
  "encode_hex_header t pos include_xon =
     (let payload = zft_byte t # position_bytes pos; crc = crc16_xmodem payload in
      [ZPAD, ZPAD, ZDLE, ZHEX] @ concat (map hex_byte payload)
        @ hex_byte (ucast (drop_bit 8 crc)) @ hex_byte (ucast crc)
        @ [0x0d, 0x0a OR 0x80] @ (if include_xon then [XON] else []))"

definition parse_hex_header :: "bytes \<Rightarrow> modem_error + z_header" where
  "parse_hex_header bs =
     (if length bs < 18 then Err Incomplete
      else if take 4 bs \<noteq> [ZPAD, ZPAD, ZDLE, ZHEX] then Err InvalidMarker
      else res_bind (read_hex_bytes 7 (drop 4 bs)) (\<lambda>d.
        if crc16_xmodem (take 5 d) \<noteq> u16_from_be_bytes (d ! 5) (d ! 6) then Err InvalidCrc
        else case zft_from_byte (d ! 0) of
               None \<Rightarrow> Err InvalidFrameType
             | Some t \<Rightarrow> Ok \<lparr>zh_frame_type = t, zh_position = (d ! 1, d ! 2, d ! 3, d ! 4),
                             zh_encoding = Hex\<rparr>))"

subsection \<open>Binary headers\<close>

text \<open>The header CRC of the 16-bit form, which feeds two zero bytes after the payload.\<close>

definition bin16_header_crc :: "bytes \<Rightarrow> u16" where
  "bin16_header_crc payload =
     crc16_xmodem_update (crc16_xmodem_update (foldl crc16_xmodem_update 0 payload) 0) 0"

definition encode_bin16_header_with_escape :: "z_frame_type \<Rightarrow> z_position \<Rightarrow> bool \<Rightarrow> bytes" where
  "encode_bin16_header_with_escape t pos escape_control =
     (let payload = zft_byte t # position_bytes pos; crc = bin16_header_crc payload in
      [ZPAD, ZDLE, ZBIN]
        @ concat (map (zdle_escaped escape_control) payload)
        @ zdle_escaped escape_control (ucast (drop_bit 8 crc))
        @ zdle_escaped escape_control (ucast crc))"

definition encode_bin16_header :: "z_frame_type \<Rightarrow> z_position \<Rightarrow> bytes" where
  "encode_bin16_header t pos = encode_bin16_header_with_escape t pos False"

definition encode_bin32_header_with_escape :: "z_frame_type \<Rightarrow> z_position \<Rightarrow> bool \<Rightarrow> bytes" where
  "encode_bin32_header_with_escape t pos escape_control =
     (let payload = zft_byte t # position_bytes pos;
          crc = NOT (foldl crc32_ieee_update 0xffffffff payload) in
      [ZPAD, ZDLE, ZBIN32]
        @ concat (map (zdle_escaped escape_control) payload)
        @ concat (map (zdle_escaped escape_control) (u32_to_le_bytes crc)))"

definition encode_bin32_header :: "z_frame_type \<Rightarrow> z_position \<Rightarrow> bytes" where
  "encode_bin32_header t pos = encode_bin32_header_with_escape t pos False"

definition parse_binary_header :: "bytes \<Rightarrow> modem_error + z_header" where
  "parse_binary_header bs =
     (if length bs < 3 then Err Incomplete
      else if bs ! 0 \<noteq> ZPAD \<or> bs ! 1 \<noteq> ZDLE then Err InvalidMarker
      else res_bind (if bs ! 2 = ZBIN then Ok (Bin16, 2)
                     else if bs ! 2 = ZBIN32 then Ok (Bin32, 4)
                     else Err InvalidFrameEncoding) (\<lambda>(encoding, crc_len).
        res_bind (decode_zdle_payload (5 + crc_len) (drop 3 bs)) (\<lambda>d.
          case zft_from_byte (d ! 0) of
            None \<Rightarrow> Err InvalidFrameType
          | Some t \<Rightarrow>
              res_bind (case encoding of
                  Bin16 \<Rightarrow>
                    if bin16_header_crc (take 5 d) \<noteq> u16_from_be_bytes (d ! 5) (d ! 6)
                    then Err InvalidCrc else Ok ()
                | Bin32 \<Rightarrow>
                    if crc32_ieee (take 5 d) \<noteq> u32_from_le_bytes (d ! 5) (d ! 6) (d ! 7) (d ! 8)
                    then Err InvalidCrc else Ok ()
                | Hex \<Rightarrow> Err InvalidFrameEncoding)
                (\<lambda>_. Ok \<lparr>zh_frame_type = t, zh_position = (d ! 1, d ! 2, d ! 3, d ! 4),
                         zh_encoding = encoding\<rparr>))))"

subsection \<open>Bytes through the escaping\<close>

text \<open>
  The four facts about single bytes that every ZMODEM proof uses, checked for all 256 bytes.
\<close>

lemma zdle_escaped_byte:
  "zdle_escaped ec b = [b] \<and> b \<noteq> ZDLE \<and> b \<notin> {XON, 0x13, 0x91, 0x93}
   \<or> zdle_escaped ec b = [ZDLE, b XOR 0x40] \<and> (b XOR 0x40) AND 0x60 = 0x40
     \<and> b XOR 0x40 \<noteq> ZRUB0 \<and> b XOR 0x40 \<noteq> ZRUB1 \<and> b XOR 0x40 \<noteq> ZDLE
     \<and> zde_from_marker (b XOR 0x40) = None"
proof (cases ec)
  case True
  then show ?thesis by (rule_tac u8_allI [where b = b]) (simp only:, code_simp)
next
  case False
  then show ?thesis by (rule_tac u8_allI [where b = b]) (simp only:, code_simp)
qed

lemma xor_twice [simp]: "(b XOR 0x40) XOR 0x40 = (b :: u8)"
  by (simp only: xor.assoc xor_self_eq xor.right_neutral)

lemma decode_zdle_escaped:
  "decode_zdle_payload (length xs) (concat (map (zdle_escaped ec) xs) @ rest) = Ok xs"
proof (induction xs)
  case (Cons x xs)
  with zdle_escaped_byte [of ec x] show ?case by auto
qed simp

lemma hex_byte_round_trip:
  "read_hex_byte (hd (hex_byte b)) (hd (tl (hex_byte b))) = Ok b"
  by (rule u8_allI [where b = b]) code_simp

lemma read_hex_bytes_round_trip:
  "read_hex_bytes (length xs) (concat (map hex_byte xs) @ rest) = Ok xs"
proof (induction xs)
  case (Cons x xs)
  with hex_byte_round_trip [of x] show ?case by (simp add: hex_byte_def)
qed simp

lemma length_hex_byte [simp]: "length (hex_byte b) = 2"
  by (simp add: hex_byte_def)

subsection \<open>Header round trips\<close>

text \<open>
  A hexadecimal header parses back to its frame type and position, with or without the
  trailing XON and whatever follows it.
\<close>

theorem hex_header_round_trip:
  "parse_hex_header (encode_hex_header t (p0, p1, p2, p3) xon @ rest) =
     Ok \<lparr>zh_frame_type = t, zh_position = (p0, p1, p2, p3), zh_encoding = Hex\<rparr>"
proof -
  let ?payload = "[zft_byte t, p0, p1, p2, p3]"
  let ?crc = "crc16_xmodem ?payload"
  let ?tail = "[0x0d, 0x0a OR 0x80] @ (if xon then [XON] else []) @ rest"
  have "read_hex_bytes 7 (concat (map hex_byte (?payload @ [ucast (drop_bit 8 ?crc), ucast ?crc])) @ ?tail)
      = Ok (?payload @ [ucast (drop_bit 8 ?crc), ucast ?crc])"
    using read_hex_bytes_round_trip [of "?payload @ [ucast (drop_bit 8 ?crc), ucast ?crc]" ?tail]
    by (simp del: concat.simps concat_append add: eval_nat_numeral)
  then show ?thesis
    by (simp add: encode_hex_header_def parse_hex_header_def Let_def u16_be_round_trip)
qed

text \<open>
  Binary headers of either CRC width, with or without control escaping, parse back to their
  frame type and position, whatever follows them.
\<close>

theorem binary_header_round_trip:
  "parse_binary_header (encode_bin16_header_with_escape t (p0, p1, p2, p3) ec @ rest) =
     Ok \<lparr>zh_frame_type = t, zh_position = (p0, p1, p2, p3), zh_encoding = Bin16\<rparr>
   \<and> parse_binary_header (encode_bin32_header_with_escape t (p0, p1, p2, p3) ec @ rest) =
     Ok \<lparr>zh_frame_type = t, zh_position = (p0, p1, p2, p3), zh_encoding = Bin32\<rparr>"
proof
  let ?payload = "[zft_byte t, p0, p1, p2, p3]"
  let ?crc = "bin16_header_crc ?payload"
  let ?d = "?payload @ [ucast (drop_bit 8 ?crc), ucast ?crc]"
  have "decode_zdle_payload 7 (concat (map (zdle_escaped ec) ?d) @ rest) = Ok ?d"
    using decode_zdle_escaped [of ?d] by (simp del: concat.simps concat_append add: eval_nat_numeral)
  then show "parse_binary_header (encode_bin16_header_with_escape t (p0, p1, p2, p3) ec @ rest) =
     Ok \<lparr>zh_frame_type = t, zh_position = (p0, p1, p2, p3), zh_encoding = Bin16\<rparr>"
    by (simp add: encode_bin16_header_with_escape_def parse_binary_header_def Let_def)
next
  let ?payload = "[zft_byte t, p0, p1, p2, p3]"
  let ?crc = "crc32_ieee ?payload"
  let ?d = "?payload @ u32_to_le_bytes ?crc"
  have crc: "NOT (foldl crc32_ieee_update 0xffffffff ?payload) = ?crc"
    by (simp add: crc32_ieee_def)
  have "decode_zdle_payload 9 (concat (map (zdle_escaped ec) ?d) @ rest) = Ok ?d"
    using decode_zdle_escaped [of ?d]
    by (simp del: concat.simps concat_append add: eval_nat_numeral u32_to_le_bytes_def)
  then show "parse_binary_header (encode_bin32_header_with_escape t (p0, p1, p2, p3) ec @ rest) =
     Ok \<lparr>zh_frame_type = t, zh_position = (p0, p1, p2, p3), zh_encoding = Bin32\<rparr>"
    unfolding encode_bin32_header_with_escape_def Let_def position_bytes.simps crc
    by (simp add: parse_binary_header_def u32_to_le_bytes_def)
qed

end
