(* ===== verification/Zmodem_Stream.thy ===== *)
theory Zmodem_Stream
  imports Zmodem Rust_Str
begin

text \<open>
  The reading and writing of ZMODEM headers and data subpackets over a byte channel, the lower
  half of \<^verbatim>\<open>hapcli-modem-transfer/src/zmodem_transfer.rs\<close>. Every reading loop ends because it
  consumes a byte per turn. A subpacket's end marker is a \<^typ>\<open>z_data_end\<close>.
\<close>

subsection \<open>Constants and negotiated values\<close>

definition ZMODEM_MAX_CHUNK :: nat where "ZMODEM_MAX_CHUNK = 8192"
definition ZMODEM_MAX_POSITION :: nat where "ZMODEM_MAX_POSITION = 2 ^ 32 - 1"
definition ZMODEM_ATTENTION_MAX_BYTES :: nat where "ZMODEM_ATTENTION_MAX_BYTES = 32"

abbreviation ZMODEM_CAN_FULL_DUPLEX :: u8 where "ZMODEM_CAN_FULL_DUPLEX \<equiv> 0x01"
abbreviation ZMODEM_CAN_OVERLAPPED_IO :: u8 where "ZMODEM_CAN_OVERLAPPED_IO \<equiv> 0x02"
abbreviation ZMODEM_CAN_CRC32 :: u8 where "ZMODEM_CAN_CRC32 \<equiv> 0x20"
abbreviation ZMODEM_ESCAPE_CONTROL :: u8 where "ZMODEM_ESCAPE_CONTROL \<equiv> 0x40"

definition ZFILE_BINARY_FLAGS :: z_position where
  "ZFILE_BINARY_FLAGS = (0, 0, 0, 0x01)"

definition ZRINIT_FLAGS :: z_position where
  "ZRINIT_FLAGS =
     (of_nat (ZMODEM_MAX_CHUNK mod 256), of_nat (ZMODEM_MAX_CHUNK div 256), 0,
      ZMODEM_CAN_FULL_DUPLEX OR ZMODEM_CAN_OVERLAPPED_IO OR ZMODEM_CAN_CRC32
        OR ZMODEM_ESCAPE_CONTROL)"

record zmodem_peer_capabilities =
  zp_chunk_size :: nat
  zp_use_crc32 :: bool
  zp_escape_control :: bool

record zmodem_file_header =
  zf_file_name :: bytes
  zf_file_size :: "nat option"

record zmodem_send_entry =
  ze_file_name :: bytes
  ze_file_size :: nat
  ze_bytes :: bytes

record z_data_frame =
  zd_payload :: bytes
  zd_end :: z_data_end

definition validate_zmodem_file_size :: "nat \<Rightarrow> transfer_error + unit" where
  "validate_zmodem_file_size n =
     (if n > ZMODEM_MAX_POSITION then Err (UnsupportedFileSize n) else Ok ())"

definition position_header_checked :: "nat \<Rightarrow> transfer_error + z_position" where
  "position_header_checked n =
     (if n > ZMODEM_MAX_POSITION then Err (UnsupportedFileSize n)
      else Ok (position_header (word_of_nat n)))"

subsection \<open>File headers\<close>

definition build_zfile_header :: "bytes \<Rightarrow> nat \<Rightarrow> bytes" where
  "build_zfile_header name fsize = name @ [0] @ u64_to_string fsize"

definition parse_zfile_header :: "bytes \<Rightarrow> transfer_error + zmodem_file_header option" where
  "parse_zfile_header bs =
     (case position (\<lambda>b. b = 0) bs of
        None \<Rightarrow> Err (Protocol InvalidLength)
      | Some nul \<Rightarrow>
          if nul = 0 then Ok None
          else let name = from_utf8_lossy (take nul bs) in
            if 47 \<in> set name \<or> 92 \<in> set name \<or> name = [46] \<or> name = [46, 46]
            then Err (Protocol InvalidFileName)
            else (case first_token (lossy_chars (drop (nul + 1) bs)) of
                    None \<Rightarrow> Ok (Some \<lparr>zf_file_name = name, zf_file_size = None\<rparr>)
                  | Some tok \<Rightarrow>
                      (case parse_u64 tok of
                         None \<Rightarrow> Err (Protocol InvalidLength)
                       | Some v \<Rightarrow> Ok (Some \<lparr>zf_file_name = name, zf_file_size = Some v\<rparr>))))"

subsection \<open>Writing\<close>

definition write_zheader :: "z_frame_type \<Rightarrow> z_position \<Rightarrow> unit mem" where
  "write_zheader t pos =
     (let include_xon = (t \<noteq> ZFin \<and> t \<noteq> ZAck) in write_all (encode_hex_header t pos include_xon))"

definition write_zbinary_header ::
    "z_frame_type \<Rightarrow> z_position \<Rightarrow> bool \<Rightarrow> bool \<Rightarrow> unit mem" where
  "write_zbinary_header t pos use_crc32 escape_control =
     write_all (if use_crc32 then encode_bin32_header_with_escape t pos escape_control
                else encode_bin16_header_with_escape t pos escape_control)"

definition zdata_bytes :: "bytes \<Rightarrow> z_data_end \<Rightarrow> bool \<Rightarrow> bool \<Rightarrow> bytes" where
  "zdata_bytes payload en use_crc32 escape_control =
     (let push = zdle_escaped escape_control in
      (if use_crc32 then
         let crc = NOT (crc32_ieee_update (foldl crc32_ieee_update 0xffffffff payload) (zde_marker en)) in
         concat (map push payload) @ [ZDLE, zde_marker en] @ concat (map push (u32_to_le_bytes crc))
       else
         let crc = crc16_xmodem_update (foldl crc16_xmodem_update 0 payload) (zde_marker en) in
         concat (map push payload) @ [ZDLE, zde_marker en]
           @ push (ucast (drop_bit 8 crc)) @ push (ucast crc))
      @ (if en = EndWithAck then [XON] else []))"

definition write_zdata :: "bytes \<Rightarrow> z_data_end \<Rightarrow> bool \<Rightarrow> bool \<Rightarrow> unit mem" where
  "write_zdata payload en use_crc32 escape_control =
     write_all (zdata_bytes payload en use_crc32 escape_control)"

definition send_zrinit :: "unit mem" where
  "send_zrinit = write_zheader ZrInit ZRINIT_FLAGS"

subsection \<open>Reading\<close>

text \<open>The flow-control bytes that readers drop.\<close>

definition is_flow_control :: "u8 \<Rightarrow> bool" where
  "is_flow_control b \<longleftrightarrow> b = XON \<or> b = 0x13 \<or> b = 0x91 \<or> b = 0x93"

text \<open>The loop that expects the rest of the five ZDLE (CAN) bytes that cancel a session.\<close>

fun expect_cancel :: "nat \<Rightarrow> 'a mem" where
  "expect_cancel 0 = io_fail Cancelled"
| "expect_cancel (Suc n) = io_bind read_byte (\<lambda>b.
     if b \<noteq> ZDLE then io_fail (Protocol InvalidEscape) else expect_cancel n)"

definition decode_zescaped_followup :: "u8 \<Rightarrow> u8 mem" where
  "decode_zescaped_followup escaped =
     (if escaped = ZRUB0 then io_return 0x7f
      else if escaped = ZRUB1 then io_return 0xff
      else if escaped AND 0x60 = 0x40 then io_return (escaped XOR 0x40)
      else if escaped = ZDLE then expect_cancel 3
      else io_fail (Protocol InvalidEscape))"

function read_zescaped_byte :: "u8 mem" where
  "read_zescaped_byte s =
     (case read_byte s of
        (Inl e, s1) \<Rightarrow> (Inl e, s1)
      | (Inr b, s1) \<Rightarrow>
          if is_flow_control b then read_zescaped_byte s1
          else if b = ZDLE then io_bind read_byte decode_zescaped_followup s1
          else (Ok b, s1))"
  by pat_completeness auto
termination
  by (relation "measure (\<lambda>s. length (io_input s))") (auto dest: consumes1_sym [OF consumes_basic(6)])

declare read_zescaped_byte.simps [simp del]

definition read_hex_nibble :: "u8 mem" where
  "read_hex_nibble = io_bind read_byte (\<lambda>b.
     if 0x30 \<le> b \<and> b \<le> 0x39 then io_return (b - 0x30)
     else if 0x61 \<le> b \<and> b \<le> 0x66 then io_return (b - 0x61 + 10)
     else if 0x41 \<le> b \<and> b \<le> 0x46 then io_return (b - 0x41 + 10)
     else io_fail (UnexpectedByte b))"

definition read_hex_slot :: "u8 mem" where
  "read_hex_slot = io_bind read_hex_nibble (\<lambda>high. io_bind read_hex_nibble (\<lambda>low.
     io_return (push_bit 4 high OR low)))"

definition consume_hex_header_line_end :: "unit mem" where
  "consume_hex_header_line_end = io_bind read_byte (\<lambda>cr.
     if cr \<noteq> 0x0d then io_fail (UnexpectedByte cr)
     else io_bind read_byte (\<lambda>lf.
       if lf AND 0x7f \<noteq> 0x0a then io_fail (UnexpectedByte lf) else io_return ()))"

definition zheader_of :: "bytes \<Rightarrow> z_header_encoding \<Rightarrow> transfer_error + z_header" where
  "zheader_of d encoding =
     (case zft_from_byte (d ! 0) of
        None \<Rightarrow> Err (Protocol InvalidFrameType)
      | Some t \<Rightarrow> Ok \<lparr>zh_frame_type = t, zh_position = (d ! 1, d ! 2, d ! 3, d ! 4),
                      zh_encoding = encoding\<rparr>)"

definition read_hex_zheader :: "z_header mem" where
  "read_hex_zheader = io_bind (read_n read_hex_slot 7) (\<lambda>d.
     if crc16_xmodem (take 5 d) \<noteq> u16_from_be_bytes (d ! 5) (d ! 6)
     then io_fail (Protocol InvalidCrc)
     else io_bind consume_hex_header_line_end (\<lambda>_. io_lift (zheader_of d Hex)))"

definition read_binary_zheader :: "z_header_encoding \<Rightarrow> z_header mem" where
  "read_binary_zheader encoding =
     (let crc_len = (if encoding = Bin32 then 4 else 2) in
      io_bind (read_n read_zescaped_byte (5 + crc_len)) (\<lambda>d.
        case encoding of
          Bin16 \<Rightarrow>
            if foldl crc16_xmodem_update 0 (take 7 d) \<noteq> 0 then io_fail (Protocol InvalidCrc)
            else io_lift (zheader_of d encoding)
        | Bin32 \<Rightarrow>
            if NOT (foldl crc32_ieee_update 0xffffffff (take 5 d))
                 \<noteq> u32_from_le_bytes (d ! 5) (d ! 6) (d ! 7) (d ! 8)
            then io_fail (Protocol InvalidCrc)
            else io_lift (zheader_of d encoding)
        | Hex \<Rightarrow> io_fail UnexpectedFrame))"

definition read_encoded_zheader :: "z_header mem" where
  "read_encoded_zheader = io_bind read_byte (\<lambda>encoding.
     if encoding = ZHEX then read_hex_zheader
     else if encoding = ZBIN then read_binary_zheader Bin16
     else if encoding = ZBIN32 then read_binary_zheader Bin32
     else io_fail (UnexpectedByte encoding))"

function read_zmodem_header :: "z_header mem" where
  "read_zmodem_header s =
     (case read_byte s of
        (Inl e, s1) \<Rightarrow> (Inl e, s1)
      | (Inr b, s1) \<Rightarrow>
          if b \<noteq> ZPAD then read_zmodem_header s1
          else (case read_byte s1 of
             (Inl e, s2) \<Rightarrow> (Inl e, s2)
           | (Inr nxt, s2) \<Rightarrow>
               if nxt = ZPAD then
                 (case read_byte s2 of
                    (Inl e, s3) \<Rightarrow> (Inl e, s3)
                  | (Inr d, s3) \<Rightarrow>
                      if d \<noteq> ZDLE then read_zmodem_header s3 else read_encoded_zheader s3)
               else if nxt = ZDLE then read_encoded_zheader s2
               else read_zmodem_header s2))"
  by pat_completeness auto
termination
  by (relation "measure (\<lambda>s. length (io_input s))")
     (auto dest!: consumes1_sym [OF consumes_basic(6)])

declare read_zmodem_header.simps [simp del]

function read_zdata_payload :: "nat \<Rightarrow> bytes \<Rightarrow> (bytes \<times> z_data_end) mem" where
  "read_zdata_payload max_payload payload s =
     (case read_byte s of
        (Inl e, s1) \<Rightarrow> (Inl e, s1)
      | (Inr b, s1) \<Rightarrow>
          if is_flow_control b then read_zdata_payload max_payload payload s1
          else if b \<noteq> ZDLE then
            (if length payload \<ge> max_payload then (Err (Protocol InvalidLength), s1)
             else read_zdata_payload max_payload (payload @ [b]) s1)
          else (case read_byte s1 of
             (Inl e, s2) \<Rightarrow> (Inl e, s2)
           | (Inr escaped, s2) \<Rightarrow>
               (case zde_from_marker escaped of
                  Some en \<Rightarrow> (Ok (payload, en), s2)
                | None \<Rightarrow>
                    if length payload \<ge> max_payload then (Err (Protocol InvalidLength), s2)
                    else (case decode_zescaped_followup escaped s2 of
                       (Inl e, s3) \<Rightarrow> (Inl e, s3)
                     | (Inr d, s3) \<Rightarrow> read_zdata_payload max_payload (payload @ [d]) s3))))"
  by pat_completeness auto

lemma expect_cancel_consumes [shrinks]: "consumes (expect_cancel n)"
  by (induction n) (auto simp del: io_run intro!: consumes_bind)

lemma decode_zescaped_followup_consumes [shrinks]: "consumes (decode_zescaped_followup b)"
  unfolding decode_zescaped_followup_def by (auto intro!: shrinks)

termination read_zdata_payload
  by (relation "measure (\<lambda>(mx, p, s). length (io_input s))")
     (auto dest!: consumes1_sym [OF consumes_basic(6)] consumes_sym [OF decode_zescaped_followup_consumes])

declare read_zdata_payload.simps [simp del]

definition read_zmodem_data :: "bool \<Rightarrow> nat \<Rightarrow> z_data_frame mem" where
  "read_zmodem_data use_crc32 max_payload =
     io_bind (read_zdata_payload max_payload []) (\<lambda>(payload, en).
       if use_crc32 then
         io_bind (read_n read_zescaped_byte 4) (\<lambda>crc_bytes.
           if NOT (crc32_ieee_update (foldl crc32_ieee_update 0xffffffff payload) (zde_marker en))
                \<noteq> u32_from_le_bytes (crc_bytes ! 0) (crc_bytes ! 1) (crc_bytes ! 2) (crc_bytes ! 3)
           then io_fail (Protocol InvalidCrc)
           else io_return \<lparr>zd_payload = payload, zd_end = en\<rparr>)
       else
         io_bind read_zescaped_byte (\<lambda>high. io_bind read_zescaped_byte (\<lambda>low.
           if foldl crc16_xmodem_update 0 (payload @ [zde_marker en, high, low]) \<noteq> 0
           then io_fail (Protocol InvalidCrc)
           else io_return \<lparr>zd_payload = payload, zd_end = en\<rparr>)))"

definition parse_zmodem_header_prefix :: "bytes \<Rightarrow> modem_error + z_header option" where
  "parse_zmodem_header_prefix bs =
     (case fst (read_zmodem_header (with_input bs)) of
        Inr header \<Rightarrow> Ok (Some header)
      | Inl Timeout \<Rightarrow> Ok None
      | Inl (Protocol error) \<Rightarrow> Err error
      | Inl _ \<Rightarrow> Err InvalidMarker)"

subsection \<open>Readers consume input\<close>

lemma read_zescaped_byte_consumes [shrinks]: "consumes read_zescaped_byte"
proof -
  have "read_zescaped_byte s = (r, s') \<Longrightarrow> length (io_input s') \<le> length (io_input s)" for s r s'
  proof (induction s rule: read_zescaped_byte.induct)
    case (1 s)
    obtain r1 s1 where rd: "read_byte s = (r1, s1)" by fastforce
    note le = consumesD [OF consumes_basic(5) rd]
      and le2 = consumesD [OF consumes_bind [OF consumes_basic(5) decode_zescaped_followup_consumes]]
    show ?case
      using "1.prems" "1.IH" [OF rd [symmetric]] le
      by (subst (asm) (1) read_zescaped_byte.simps)
         (auto simp: rd split: sum.splits if_splits dest!: le2)
  qed
  then show ?thesis by (auto simp: consumes_def)
qed

lemma read_hex_slot_consumes [shrinks]: "consumes read_hex_slot"
  unfolding read_hex_slot_def read_hex_nibble_def by (intro consumes_bind consumes_if consumes_basic)

lemma read_hex_zheader_consumes [shrinks]: "consumes read_hex_zheader"
  unfolding read_hex_zheader_def consume_hex_header_line_end_def
  by (intro consumes_bind consumes_if consumes_basic consumes_read_n read_hex_slot_consumes)

lemma read_binary_zheader_consumes [shrinks]: "consumes (read_binary_zheader enc)"
  unfolding read_binary_zheader_def Let_def
  by (cases enc; simp only: z_header_encoding.case)
     (intro consumes_bind consumes_if consumes_basic consumes_read_n read_zescaped_byte_consumes)+

lemma read_encoded_zheader_consumes [shrinks]: "consumes read_encoded_zheader"
  unfolding read_encoded_zheader_def by (intro consumes_bind consumes_if shrinks)

lemma read_zmodem_header_consumes1 [shrinks]: "consumes1 read_zmodem_header"
proof -
  have "read_zmodem_header s = (r, s') \<Longrightarrow> length (io_input s') \<le> length (io_input s)
      \<and> (\<forall>h. r = Ok h \<longrightarrow> length (io_input s') < length (io_input s))" for s r s'
  proof (induction s rule: read_zmodem_header.induct)
    case (1 s)
    obtain r1 s1 where rd: "read_byte s = (r1, s1)" by fastforce
    obtain r2 s2 where rd2: "read_byte s1 = (r2, s2)" by fastforce
    obtain r3 s3 where rd3: "read_byte s2 = (r3, s3)" by fastforce
    note le = consumesD [OF consumes_basic(5) rd] consumesD [OF consumes_basic(5) rd2]
        consumesD [OF consumes_basic(5) rd3]
      and less = consumes1D [OF consumes_basic(6)]
    have lt: "r1 = Ok b \<Longrightarrow> length (io_input s1) < length (io_input s)" for b
      using less rd by blast
    show ?case
      using "1.prems" "1.IH" [OF rd [symmetric]] "1.IH"(2) [OF rd [symmetric] _ _ rd2 [symmetric] _ _ rd3 [symmetric]]
        "1.IH"(3) [OF rd [symmetric] _ _ rd2 [symmetric]] le lt
      by (subst (asm) (1) read_zmodem_header.simps)
         (force simp: rd rd2 rd3 split: sum.splits if_splits dest!: consumesD [OF read_encoded_zheader_consumes])
  qed
  then show ?thesis by (auto simp: consumes_def consumes1_def)
qed

lemma read_zdata_payload_consumes1 [shrinks]: "consumes1 (read_zdata_payload mx p)"
proof -
  have "read_zdata_payload mx p s = (r, s') \<Longrightarrow> length (io_input s') \<le> length (io_input s)
      \<and> (\<forall>x. r = Ok x \<longrightarrow> length (io_input s') < length (io_input s))" for s r s'
  proof (induction mx p s rule: read_zdata_payload.induct)
    case (1 mx p s)
    obtain r1 s1 where rd: "read_byte s = (r1, s1)" by fastforce
    obtain r2 s2 where rd2: "read_byte s1 = (r2, s2)" by fastforce
    note le = consumesD [OF consumes_basic(5) rd] consumesD [OF consumes_basic(5) rd2]
    have lt: "r1 = Ok b \<Longrightarrow> length (io_input s1) < length (io_input s)" for b
      using consumes1D [OF consumes_basic(6)] rd by blast
    show ?case
    proof (cases r1)
      case (Inl e)
      then show ?thesis using "1.prems" le by (subst (asm) read_zdata_payload.simps) (auto simp: rd)
    next
      case b: (Inr b)
      consider (flow) "is_flow_control b" | (plain) "\<not> is_flow_control b" "b \<noteq> ZDLE"
        | (escape) "b = ZDLE" "\<not> is_flow_control b" by blast
      then show ?thesis
      proof cases
        case flow
        then show ?thesis using "1.prems" "1.IH"(1) [OF rd [symmetric] b flow] lt [OF b] b
          by (subst (asm) read_zdata_payload.simps) (auto simp: rd)
      next
        case plain
        then show ?thesis using "1.prems" "1.IH"(2) [OF rd [symmetric] b plain] lt [OF b] b
          by (subst (asm) read_zdata_payload.simps) (auto simp: rd split: if_splits)
      next
        case escape
        then show ?thesis
          using "1.prems" "1.IH"(3) [OF rd [symmetric] b escape(2) _ rd2 [symmetric]] lt [OF b] le b
          by (subst (asm) read_zdata_payload.simps)
             (force simp: rd rd2 split: sum.splits if_splits option.splits prod.splits
                dest: consumesD [OF decode_zescaped_followup_consumes])
      qed
    qed
  qed
  then show ?thesis by (auto simp: consumes_def consumes1_def)
qed

lemma read_zmodem_data_consumes1 [shrinks]: "consumes1 (read_zmodem_data c32 mx)"
  unfolding read_zmodem_data_def
  by (intro consumes1_bind read_zdata_payload_consumes1)
     (auto simp del: io_run intro!: consumes_bind consumes_basic consumes_read_n read_zescaped_byte_consumes)

subsection \<open>Reading what was written\<close>

lemma read_zescaped_byte_run [io_simps]:
  "read_zescaped_byte \<lparr>io_input = zdle_escaped ec b @ i, io_output = out\<rparr> =
     (Ok b, \<lparr>io_input = i, io_output = out\<rparr>)"
  using zdle_escaped_byte [of ec b]
  by (subst read_zescaped_byte.simps) (auto simp: is_flow_control_def decode_zescaped_followup_def)

lemma read_zescaped_n_run [io_simps]:
  "n = length xs \<Longrightarrow>
   read_n read_zescaped_byte n \<lparr>io_input = concat (map (zdle_escaped ec) xs) @ i, io_output = out\<rparr> =
     (Ok xs, \<lparr>io_input = i, io_output = out\<rparr>)"
  by (induction xs arbitrary: n) (simp_all add: read_n.simps read_zescaped_byte_run)

lemma read_zdata_payload_run:
  "length p + length xs \<le> mx \<Longrightarrow>
   read_zdata_payload mx p
     \<lparr>io_input = concat (map (zdle_escaped ec) xs) @ ZDLE # zde_marker en # i, io_output = out\<rparr> =
     (Ok (p @ xs, en), \<lparr>io_input = i, io_output = out\<rparr>)"
proof (induction xs arbitrary: p)
  case Nil
  show ?case by (subst read_zdata_payload.simps) (simp add: is_flow_control_def)
next
  case (Cons x xs)
  show ?case
    using zdle_escaped_byte [of ec x] Cons.prems Cons.IH [of "p @ [x]"]
    by (subst read_zdata_payload.simps)
       (auto simp: is_flow_control_def decode_zescaped_followup_def)
qed

lemma crc16_residue: "foldl crc16_xmodem_update 0
     (xs @ [ucast (drop_bit 8 (foldl crc16_xmodem_update 0 xs)), ucast (foldl crc16_xmodem_update 0 xs)]) = 0"
  by (simp add: wire_simps)

text \<open>What is left in front of the next frame: the XON after a subpacket that asks for an answer.\<close>

definition xon_after :: "z_data_end \<Rightarrow> bytes" where
  "xon_after en = (if en = EndWithAck then [XON] else [])"

lemma read_zmodem_data_run [io_simps]:
  assumes "length xs \<le> mx"
  shows "read_zmodem_data c32 mx \<lparr>io_input = zdata_bytes xs en c32 ec @ i, io_output = out\<rparr> =
     (Ok \<lparr>zd_payload = xs, zd_end = en\<rparr>, \<lparr>io_input = xon_after en @ i, io_output = out\<rparr>)"
proof (cases c32)
  case True
  let ?crc = "NOT (crc32_ieee_update (foldl crc32_ieee_update 0xffffffff xs) (zde_marker en))"
  show ?thesis
    using True assms read_zdata_payload_run [of "[]" xs mx ec en]
      read_zescaped_n_run [of 4 "u32_to_le_bytes ?crc" ec]
    by (simp add: read_zmodem_data_def zdata_bytes_def Let_def xon_after_def u32_to_le_bytes_def)
next
  case False
  then show ?thesis
    using assms read_zdata_payload_run [of "[]" xs mx ec en]
    by (simp add: read_zmodem_data_def zdata_bytes_def Let_def xon_after_def read_zescaped_byte_run
        wire_simps)
qed

lemma read_hex_slot_run:
  "read_hex_slot \<lparr>io_input = hex_byte b @ i, io_output = out\<rparr> = (Ok b, \<lparr>io_input = i, io_output = out\<rparr>)"
proof -
  have nibble: "hex_value x = Ok v \<Longrightarrow> read_hex_nibble \<lparr>io_input = x # j, io_output = out\<rparr>
      = (Ok v, \<lparr>io_input = j, io_output = out\<rparr>)" for x v j
    by (auto simp: read_hex_nibble_def hex_value_def split: if_splits)
  obtain x y where xy: "hex_byte b = [x, y]" by (simp add: hex_byte_def)
  obtain h l where "hex_value x = Ok h" "hex_value y = Ok l" "push_bit 4 h OR l = b"
    using hex_byte_round_trip [of b] by (auto simp: xy read_hex_byte_def res_bind_eq_Ok)
  then show ?thesis by (simp add: read_hex_slot_def xy nibble)
qed

lemma read_hex_slots_run:
  "n = length xs \<Longrightarrow>
   read_n read_hex_slot n \<lparr>io_input = concat (map hex_byte xs) @ i, io_output = out\<rparr> =
     (Ok xs, \<lparr>io_input = i, io_output = out\<rparr>)"
  by (induction xs arbitrary: n) (simp_all add: read_n.simps read_hex_slot_run)

lemma read_zmodem_header_skip [io_simps]:
  "b \<noteq> ZPAD \<Longrightarrow> read_zmodem_header \<lparr>io_input = b # i, io_output = out\<rparr> =
     read_zmodem_header \<lparr>io_input = i, io_output = out\<rparr>"
  by (subst read_zmodem_header.simps) simp

lemma read_zmodem_header_hex:
  "read_zmodem_header \<lparr>io_input = encode_hex_header t (p0, p1, p2, p3) xon @ i, io_output = out\<rparr> =
     (Ok \<lparr>zh_frame_type = t, zh_position = (p0, p1, p2, p3), zh_encoding = Hex\<rparr>,
      \<lparr>io_input = (if xon then [XON] else []) @ i, io_output = out\<rparr>)"
proof -
  let ?payload = "[zft_byte t, p0, p1, p2, p3]"
  let ?crc = "crc16_xmodem ?payload"
  let ?d = "?payload @ [ucast (drop_bit 8 ?crc), ucast ?crc]"
  have slots: "read_n read_hex_slot 7 \<lparr>io_input = concat (map hex_byte ?d) @ j, io_output = out\<rparr> =
      (Ok ?d, \<lparr>io_input = j, io_output = out\<rparr>)" for j
    by (rule read_hex_slots_run) simp
  then show ?thesis
    by (subst read_zmodem_header.simps)
       (simp add: encode_hex_header_def read_encoded_zheader_def read_hex_zheader_def zheader_of_def
          consume_hex_header_line_end_def Let_def)
qed

lemma read_zmodem_header_bin32:
  "read_zmodem_header
     \<lparr>io_input = encode_bin32_header_with_escape t (p0, p1, p2, p3) ec @ i, io_output = out\<rparr> =
     (Ok \<lparr>zh_frame_type = t, zh_position = (p0, p1, p2, p3), zh_encoding = Bin32\<rparr>,
      \<lparr>io_input = i, io_output = out\<rparr>)"
proof -
  let ?payload = "[zft_byte t, p0, p1, p2, p3]"
  let ?crc = "NOT (foldl crc32_ieee_update 0xffffffff ?payload)"
  let ?d = "?payload @ u32_to_le_bytes ?crc"
  have slots: "read_n read_zescaped_byte 9 \<lparr>io_input = concat (map (zdle_escaped ec) ?d) @ j, io_output = out\<rparr> =
      (Ok ?d, \<lparr>io_input = j, io_output = out\<rparr>)" for j
    by (rule read_zescaped_n_run) (simp add: u32_to_le_bytes_def)
  then show ?thesis
    unfolding encode_bin32_header_with_escape_def Let_def position_bytes.simps
    by (subst read_zmodem_header.simps)
       (simp add: read_encoded_zheader_def read_binary_zheader_def zheader_of_def
          u32_to_le_bytes_def Let_def)
qed

text \<open>A 16-bit binary header is accepted only when its seven bytes leave no CRC residue.\<close>

definition bin16_header_bytes :: "z_frame_type \<Rightarrow> u8 \<Rightarrow> u8 \<Rightarrow> u8 \<Rightarrow> u8 \<Rightarrow> bytes" where
  "bin16_header_bytes t p0 p1 p2 p3 =
     (let payload = [zft_byte t, p0, p1, p2, p3]; crc = bin16_header_crc payload in
      payload @ [ucast (drop_bit 8 crc), ucast crc])"

lemma read_zmodem_header_bin16:
  "read_zmodem_header
     \<lparr>io_input = encode_bin16_header_with_escape t (p0, p1, p2, p3) ec @ i, io_output = out\<rparr> =
     (if foldl crc16_xmodem_update 0 (bin16_header_bytes t p0 p1 p2 p3) \<noteq> 0 then Err (Protocol InvalidCrc)
      else Ok \<lparr>zh_frame_type = t, zh_position = (p0, p1, p2, p3), zh_encoding = Bin16\<rparr>,
      \<lparr>io_input = i, io_output = out\<rparr>)"
proof -
  let ?d = "bin16_header_bytes t p0 p1 p2 p3"
  have slots: "read_n read_zescaped_byte 7 \<lparr>io_input = concat (map (zdle_escaped ec) ?d) @ j, io_output = out\<rparr> =
      (Ok ?d, \<lparr>io_input = j, io_output = out\<rparr>)" for j
    by (rule read_zescaped_n_run) (simp add: bin16_header_bytes_def Let_def)
  have enc: "encode_bin16_header_with_escape t (p0, p1, p2, p3) ec = [ZPAD, ZDLE, ZBIN] @ concat (map (zdle_escaped ec) ?d)"
    by (simp add: encode_bin16_header_with_escape_def bin16_header_bytes_def Let_def)
  have header: "zheader_of ?d Bin16 = Ok \<lparr>zh_frame_type = t, zh_position = (p0, p1, p2, p3), zh_encoding = Bin16\<rparr>"
    and len: "take 7 ?d = ?d"
    by (simp_all add: zheader_of_def bin16_header_bytes_def Let_def)
  show ?thesis
    unfolding enc using slots
    by (subst read_zmodem_header.simps)
       (simp add: read_encoded_zheader_def read_binary_zheader_def header len)
qed

lemma bin16_residue:
  assumes "crc16_xmodem [zft_byte t, p0, p1, p2, p3] = c" and "bin16_header_crc [zft_byte t, p0, p1, p2, p3] \<noteq> c"
  shows "foldl crc16_xmodem_update 0 (bin16_header_bytes t p0 p1 p2 p3) \<noteq> 0"
proof
  let ?e = "bin16_header_crc [zft_byte t, p0, p1, p2, p3]"
  let ?own = "[ucast (drop_bit 8 ?e), ucast ?e] :: bytes"
  assume "foldl crc16_xmodem_update 0 (bin16_header_bytes t p0 p1 p2 p3) = 0"
  then have "foldl crc16_xmodem_update c ?own = 0"
    using assms(1) by (simp add: bin16_header_bytes_def Let_def crc16_xmodem_def)
  moreover have "foldl crc16_xmodem_update ?e ?own = 0" by (simp add: wire_simps)
  ultimately have "c = ?e" by (intro crc16.foldl_inj_acc [of c ?own]) simp
  then show False using assms(2) by simp
qed

end
