(* ===== verification/Zmodem_Transfer.thy ===== *)
theory Zmodem_Transfer
  imports Zmodem_Stream
begin

text \<open>
  The ZMODEM conversations of \<^verbatim>\<open>hapcli-modem-transfer/src/zmodem_transfer.rs\<close>: the batch sender with
  its restarts, the receiver with its three nested loops, and the closing handshakes. A reader
  is the file it reads from (seeking is dropping a prefix), a writer the bytes written so far;
  both are in memory, so writing and flushing do not fail. Every loop consumes a header or a
  subpacket per turn, or advances in the file.
\<close>

subsection \<open>Sending\<close>

function wait_for_zrinit :: "zmodem_peer_capabilities mem" where
  "wait_for_zrinit s =
     (case read_zmodem_header s of
        (Inl e, s1) \<Rightarrow> (Inl e, s1)
      | (Inr header, s1) \<Rightarrow>
          (case zh_frame_type header of
             ZrInit \<Rightarrow>
               (case zh_position header of (p0, p1, p2, flags) \<Rightarrow>
                  let advertised_chunk = unat (u16_from_le_bytes p0 p1);
                      chunk_size = (if advertised_chunk < 32 then 1024
                                    else min advertised_chunk ZMODEM_MAX_CHUNK) in
                  (Ok \<lparr>zp_chunk_size = chunk_size,
                       zp_use_crc32 = (flags AND ZMODEM_CAN_CRC32 \<noteq> 0),
                       zp_escape_control = (flags AND ZMODEM_ESCAPE_CONTROL \<noteq> 0)\<rparr>, s1))
           | ZrqInit \<Rightarrow> wait_for_zrinit (snd (write_zheader ZrInit ZRINIT_FLAGS s1))
           | ZAbort \<Rightarrow> (Err Cancelled, s1)
           | ZCan \<Rightarrow> (Err Cancelled, s1)
           | _ \<Rightarrow> wait_for_zrinit s1))"
  by pat_completeness auto

lemma write_zheader_input [simp]: "io_input (snd (write_zheader t p s)) = io_input s"
  by (simp add: write_zheader_def write_all_def Let_def)

lemmas header_shrinks =
  consumes1_sym [OF read_zmodem_header_consumes1]
  consumes_sym [OF consumes1_consumes [OF read_zmodem_header_consumes1]]

termination wait_for_zrinit
  by (relation "measure (\<lambda>s. length (io_input s))") (auto dest: header_shrinks)

declare wait_for_zrinit.simps [simp del]

datatype zmodem_send_data_result = Complete | ResumeAt nat | Skip

text \<open>
  One pass over the rest of a file: \<open>reader\<close> is what the seeked reader still holds. A chunk
  is what \<^verbatim>\<open>read_padded_exact\<close> delivers: as many bytes as asked for, fewer only at the end.
\<close>

definition read_padded_exact :: "bytes \<Rightarrow> nat \<Rightarrow> bytes \<times> bytes" where
  "read_padded_exact reader n = (take n reader, drop n reader)"

function send_zdata_chunks ::
    "zmodem_peer_capabilities \<Rightarrow> nat \<Rightarrow> nat \<Rightarrow> bytes \<Rightarrow> zmodem_send_data_result mem" where
  "send_zdata_chunks peer file_size sent_offset reader s =
     (if sent_offset < file_size then
        let (chunk, reader') =
              read_padded_exact reader (min (file_size - sent_offset) (zp_chunk_size peer)) in
        if chunk = [] then (Err UnexpectedFrame, s)
        else
          let sent = sent_offset + length chunk;
              frame_end = (if sent < file_size then ContinueWithAck else End);
              s1 = snd (write_zdata chunk frame_end (zp_use_crc32 peer) (zp_escape_control peer) s) in
          if frame_end = ContinueWithAck then
            (case read_zmodem_header s1 of
               (Inl e, s2) \<Rightarrow> (Inl e, s2)
             | (Inr response, s2) \<Rightarrow>
                 (case zh_frame_type response of
                    ZAck \<Rightarrow>
                      if unat (position_u32 response) = sent
                      then send_zdata_chunks peer file_size sent reader' s2
                      else (Err UnexpectedFrame, s2)
                  | ZRpos \<Rightarrow> (Ok (ResumeAt (unat (position_u32 response))), s2)
                  | ZSkip \<Rightarrow> (Ok Skip, s2)
                  | ZAbort \<Rightarrow> (Err Cancelled, s2)
                  | ZCan \<Rightarrow> (Err Cancelled, s2)
                  | _ \<Rightarrow> (Err UnexpectedFrame, s2)))
          else send_zdata_chunks peer file_size sent reader' s1
      else (Ok Complete, s))"
  by pat_completeness auto
termination
  by (relation "measure (\<lambda>(p, n, off, r, s). n - off)")
     (auto simp: read_padded_exact_def intro!: diff_less_mono2)

declare send_zdata_chunks.simps [simp del]

definition send_zfile_data_stream ::
    "bytes \<Rightarrow> nat \<Rightarrow> nat \<Rightarrow> zmodem_peer_capabilities \<Rightarrow> zmodem_send_data_result mem" where
  "send_zfile_data_stream file file_size offset peer =
     (let start = min offset file_size in
      io_bind (io_lift (position_header_checked start)) (\<lambda>pos.
      io_bind (write_zbinary_header ZData pos (zp_use_crc32 peer) (zp_escape_control peer)) (\<lambda>_.
      io_bind (send_zdata_chunks peer file_size start (drop start file)) (\<lambda>r.
        if r \<noteq> Complete then io_return r
        else
          io_bind (if start = file_size
                   then write_zdata [] End (zp_use_crc32 peer) (zp_escape_control peer)
                   else io_return ()) (\<lambda>_.
          io_bind (io_lift (position_header_checked file_size)) (\<lambda>eof.
          io_bind (write_zheader ZEof eof) (\<lambda>_. io_return Complete)))))))"

text \<open>The sending of one file's data until it is complete (\<open>Some\<close> its size) or skipped.\<close>

function send_zfile_passes ::
    "zmodem_peer_capabilities \<Rightarrow> zmodem_send_entry \<Rightarrow> nat \<Rightarrow> nat mem" where
  "send_zfile_passes peer entry offset s =
     (case send_zfile_data_stream (ze_bytes entry) (ze_file_size entry) offset peer s of
        (Inl e, s1) \<Rightarrow> (Inl e, s1)
      | (Inr (ResumeAt next_offset), s1) \<Rightarrow>
          if next_offset > ze_file_size entry then (Err UnexpectedFrame, s1)
          else send_zfile_passes peer entry next_offset s1
      | (Inr Skip, s1) \<Rightarrow> (Ok 0, s1)
      | (Inr Complete, s1) \<Rightarrow>
          (case read_zmodem_header s1 of
             (Inl e, s2) \<Rightarrow> (Inl e, s2)
           | (Inr followup, s2) \<Rightarrow>
               (case zh_frame_type followup of
                  ZrInit \<Rightarrow> (Ok (ze_file_size entry), s2)
                | ZRpos \<Rightarrow>
                    let next_offset = unat (position_u32 followup) in
                    if next_offset > ze_file_size entry then (Err UnexpectedFrame, s2)
                    else send_zfile_passes peer entry next_offset s2
                | ZSkip \<Rightarrow> (Ok 0, s2)
                | ZAbort \<Rightarrow> (Err Cancelled, s2)
                | ZCan \<Rightarrow> (Err Cancelled, s2)
                | _ \<Rightarrow> (Err UnexpectedFrame, s2))))"
  by pat_completeness auto

lemma send_zdata_chunks_consumes:
  "send_zdata_chunks peer n off rd s = (r, s') \<Longrightarrow> length (io_input s') \<le> length (io_input s)
     \<and> (\<forall>k. r = Ok (ResumeAt k) \<longrightarrow> length (io_input s') < length (io_input s))"
proof (induction peer n off rd s rule: send_zdata_chunks.induct)
  case (1 peer n off rd s)
  obtain c rest where chunk: "read_padded_exact rd (min (n - off) (zp_chunk_size peer)) = (c, rest)"
    by fastforce
  let ?s1 = "\<lambda>e. snd (write_zdata c e (zp_use_crc32 peer) (zp_escape_control peer) s)"
  obtain r2 s2 where rd: "read_zmodem_header (?s1 ContinueWithAck) = (r2, s2)" by fastforce
  have s1: "io_input (?s1 e) = io_input s" for e by (simp add: write_zdata_def write_all_def)
  have le: "length (io_input s2) \<le> length (io_input s)"
    and lt: "r2 = Ok h \<Longrightarrow> length (io_input s2) < length (io_input s)" for h
    using header_shrinks rd s1 by metis+
  consider (fin) "\<not> off < n" | (short) "off < n" "c = []"
    | (ack) "off < n" "c \<noteq> []" "off + length c < n" | (last) "off < n" "c \<noteq> []" "\<not> off + length c < n"
    by blast
  then show ?case
  proof cases
    case last
    show ?thesis
      using "1.prems" "1.IH"(2) [OF last(1) chunk [symmetric] refl last(2) refl refl refl] last s1
      by (subst (asm) send_zdata_chunks.simps) (simp add: chunk Let_def)
  next
    case ack
    have end_eq: "ContinueWithAck = (if off + length c < n then ContinueWithAck else End)"
      using ack by simp
    show ?thesis
      using "1.prems" "1.IH"(1) [OF ack(1) chunk [symmetric] refl ack(2) refl end_eq refl refl rd [symmetric]]
        ack le lt
      by (subst (asm) send_zdata_chunks.simps)
         (fastforce simp: chunk Let_def rd split: sum.splits if_splits z_frame_type.splits)
  qed (use "1.prems" chunk in \<open>auto simp: send_zdata_chunks.simps [of peer n off rd s]\<close>)
qed

lemma write_consumes [shrinks]:
  "consumes (write_zheader t p)" "consumes (write_zbinary_header t p c ec)" "consumes (write_zdata d e c ec)"
  by (simp_all add: write_zheader_def write_zbinary_header_def write_zdata_def Let_def)

lemma send_zfile_data_stream_consumes:
  assumes "send_zfile_data_stream file n off peer s = (r, s')"
  shows "length (io_input s') \<le> length (io_input s)"
    and "r = Ok (ResumeAt k) \<Longrightarrow> length (io_input s') < length (io_input s)"
proof -
  have rest: "consumes (io_bind (if P then write_zdata [] End c ec else io_return ()) (\<lambda>_.
          io_bind (io_lift (position_header_checked n)) (\<lambda>eof.
          io_bind (write_zheader ZEof eof) (\<lambda>_. io_return Complete))))" for P c ec
    by (intro consumes_bind consumes_if consumes_basic write_consumes)
  have "length (io_input s') \<le> length (io_input s)
      \<and> (\<forall>k. r = Ok (ResumeAt k) \<longrightarrow> length (io_input s') < length (io_input s))"
    using assms unfolding send_zfile_data_stream_def Let_def
    by (elim io_bind_cases)
       (auto split: if_splits elim!: io_bind_cases
          dest!: send_zdata_chunks_consumes consumesD [OF write_consumes(1)]
            consumesD [OF write_consumes(2)] consumesD [OF write_consumes(3)])
  then show "length (io_input s') \<le> length (io_input s)"
    and "r = Ok (ResumeAt k) \<Longrightarrow> length (io_input s') < length (io_input s)" by auto
qed

termination send_zfile_passes
  by (relation "measure (\<lambda>(p, e, off, s). length (io_input s))")
     (auto dest!: sym [of _ "send_zfile_data_stream _ _ _ _ _"] dest: send_zfile_data_stream_consumes header_shrinks
        intro: order_less_le_trans)

declare send_zfile_passes.simps [simp del]

text \<open>The wait for the receiver's answer to a file header.\<close>

function send_zfile_response :: "zmodem_peer_capabilities \<Rightarrow> zmodem_send_entry \<Rightarrow> nat mem" where
  "send_zfile_response peer entry s =
     (case read_zmodem_header s of
        (Inl e, s1) \<Rightarrow> (Inl e, s1)
      | (Inr response, s1) \<Rightarrow>
          (case zh_frame_type response of
             ZRpos \<Rightarrow>
               let offset = unat (position_u32 response) in
               if offset > ze_file_size entry then (Err UnexpectedFrame, s1)
               else send_zfile_passes peer entry offset s1
           | ZSkip \<Rightarrow> (Ok 0, s1)
           | ZAbort \<Rightarrow> (Err Cancelled, s1)
           | ZCan \<Rightarrow> (Err Cancelled, s1)
           | _ \<Rightarrow> send_zfile_response peer entry s1))"
  by pat_completeness auto
termination
  by (relation "measure (\<lambda>(p, e, s). length (io_input s))") (auto dest: header_shrinks)

declare send_zfile_response.simps [simp del]

definition send_zmodem_entry :: "zmodem_peer_capabilities \<Rightarrow> zmodem_send_entry \<Rightarrow> nat mem" where
  "send_zmodem_entry peer entry =
     (let header_payload = build_zfile_header (ze_file_name entry) (ze_file_size entry) in
      io_bind (write_zbinary_header ZFile ZFILE_BINARY_FLAGS (zp_use_crc32 peer) (zp_escape_control peer))
        (\<lambda>_.
      io_bind (write_zdata header_payload EndWithAck (zp_use_crc32 peer) (zp_escape_control peer)) (\<lambda>_.
      send_zfile_response peer entry)))"

fun send_zmodem_entries ::
    "zmodem_peer_capabilities \<Rightarrow> nat \<Rightarrow> zmodem_send_entry list \<Rightarrow> nat mem" where
  "send_zmodem_entries peer tot [] = io_return tot"
| "send_zmodem_entries peer tot (entry # entries) =
     io_bind (send_zmodem_entry peer entry) (\<lambda>n. send_zmodem_entries peer (tot + n) entries)"

fun finish_zsend :: "nat \<Rightarrow> unit mem" where
  "finish_zsend 0 = io_fail Timeout"
| "finish_zsend (Suc k) =
     io_bind (write_zheader ZFin (position_header 0)) (\<lambda>_.
     io_bind read_zmodem_header (\<lambda>header.
       if zh_frame_type header = ZFin then write_all [0x4f, 0x4f]
       else if zh_frame_type header \<in> {ZAbort, ZCan, ZFerr} then io_fail Cancelled
       else finish_zsend k))"

definition finish_zmodem_send :: "unit mem" where
  "finish_zmodem_send = finish_zsend 3"

fun validate_entries :: "zmodem_send_entry list \<Rightarrow> transfer_error + unit" where
  "validate_entries [] = Ok ()"
| "validate_entries (entry # entries) =
     res_bind (validate_zmodem_file_size (ze_file_size entry)) (\<lambda>_. validate_entries entries)"

definition send_zmodem_stream :: "zmodem_send_entry list \<Rightarrow> nat mem" where
  "send_zmodem_stream entries =
     io_bind (io_lift (validate_entries entries)) (\<lambda>_.
     io_bind wait_for_zrinit (\<lambda>peer.
     io_bind (send_zmodem_entries peer 0 entries) (\<lambda>tot.
     io_bind finish_zmodem_send (\<lambda>_. io_return tot))))"

text \<open>Sending in-memory files: the declared size is the length.\<close>

definition send_zmodem :: "(bytes \<times> bytes) list \<Rightarrow> nat mem" where
  "send_zmodem entries =
     send_zmodem_stream (map (\<lambda>(name, bs).
       \<lparr>ze_file_name = name, ze_file_size = length bs, ze_bytes = bs\<rparr>) entries)"

subsection \<open>Receiving\<close>

text \<open>Asking for data from an offset, and acknowledging up to one.\<close>

definition write_zposition :: "z_frame_type \<Rightarrow> nat \<Rightarrow> unit mem" where
  "write_zposition t offset =
     io_bind (io_lift (position_header_checked offset)) (write_zheader t)"

lemma write_zposition_consumes [shrinks]: "consumes (write_zposition t n)"
  unfolding write_zposition_def by (intro consumes_bind consumes_basic write_consumes)

text \<open>
  The subpackets of one ZDATA frame. The result is the offset reached, or the error that ends
  the session; the second component is the writer.
\<close>

function receive_zdata_frames ::
    "zmodem_file_header \<Rightarrow> bool \<Rightarrow> nat \<Rightarrow> bytes \<Rightarrow> memory_io
       \<Rightarrow> ((transfer_error + nat) \<times> bytes) \<times> memory_io" where
  "receive_zdata_frames file_header data_uses_crc32 received_offset writer s =
     (case read_zmodem_data data_uses_crc32 ZMODEM_MAX_CHUNK s of
        (Inl e, s1) \<Rightarrow>
          if e = Protocol InvalidCrc then
            (case write_zposition ZRpos received_offset s1 of
               (Inl e, s2) \<Rightarrow> ((Inl e, writer), s2)
             | (Inr _, s2) \<Rightarrow> ((Inr received_offset, writer), s2))
          else ((Inl e, writer), s1)
      | (Inr frame, s1) \<Rightarrow>
          let next_offset = received_offset + length (zd_payload frame) in
          if next_offset \<ge> 2 ^ 64 then ((Err UnexpectedFrame, writer), s1)
          else if (case zf_file_size file_header of Some n \<Rightarrow> next_offset > n | None \<Rightarrow> False)
          then ((Err UnexpectedFrame, writer), s1)
          else
            let writer' = writer @ zd_payload frame in
            (case zd_end frame of
               Continue \<Rightarrow> receive_zdata_frames file_header data_uses_crc32 next_offset writer' s1
             | ContinueWithAck \<Rightarrow>
                 (case write_zposition ZAck next_offset s1 of
                    (Inl e, s2) \<Rightarrow> ((Inl e, writer'), s2)
                  | (Inr _, s2) \<Rightarrow>
                      receive_zdata_frames file_header data_uses_crc32 next_offset writer' s2)
             | End \<Rightarrow> ((Ok next_offset, writer'), s1)
             | EndWithAck \<Rightarrow>
                 (case write_zposition ZAck next_offset s1 of
                    (Inl e, s2) \<Rightarrow> ((Inl e, writer'), s2)
                  | (Inr _, s2) \<Rightarrow> ((Ok next_offset, writer'), s2))))"
  by pat_completeness auto

lemmas data_shrinks =
  consumes1_sym [OF read_zmodem_data_consumes1]
  consumes_sym [OF consumes1_consumes [OF read_zmodem_data_consumes1]]
  consumes_sym [OF write_zposition_consumes]

termination receive_zdata_frames
  by (relation "measure (\<lambda>(h, c, off, w, s). length (io_input s))")
     (auto dest!: data_shrinks(1,3))

declare receive_zdata_frames.simps [simp del]

lemma receive_zdata_frames_consumes:
  "receive_zdata_frames h c off w s = ((r, w'), s') \<Longrightarrow> length (io_input s') \<le> length (io_input s)"
proof (induction h c off w s rule: receive_zdata_frames.induct)
  case (1 h c off w s)
  obtain r1 s1 where rd: "read_zmodem_data c ZMODEM_MAX_CHUNK s = (r1, s1)" by fastforce
  have le: "length (io_input s1) \<le> length (io_input s)"
    by (rule data_shrinks(2) [OF rd [symmetric]])
  show ?case
  proof (cases r1)
    case (Inl e)
    then show ?thesis
      using "1.prems" le
      by (subst (asm) receive_zdata_frames.simps)
         (auto simp: rd split: if_splits sum.splits prod.splits dest!: consumesD [OF write_zposition_consumes])
  next
    case (Inr f)
    let ?n = "off + length (zd_payload f)"
    obtain r2 s2 where wr: "write_zposition ZAck ?n s1 = (r2, s2)" by fastforce
    note le2 = consumesD [OF write_zposition_consumes wr]
    show ?thesis
      using "1.prems" "1.IH"(1) [OF rd [symmetric] Inr refl] Inr le le2
        "1.IH"(2) [OF rd [symmetric] Inr refl _ _ refl _ wr [symmetric]]
      by (subst (asm) receive_zdata_frames.simps)
         (cases "zd_end f"; auto simp: rd wr Let_def split: if_splits sum.splits)
  qed
qed

text \<open>The loop over the data headers of one file.\<close>

function receive_zfile_body ::
    "zmodem_file_header \<Rightarrow> nat \<Rightarrow> bytes \<Rightarrow> memory_io
       \<Rightarrow> ((transfer_error + unit) \<times> bytes) \<times> memory_io" where
  "receive_zfile_body file_header received_offset writer s =
     (case read_zmodem_header s of
        (Inl e, s1) \<Rightarrow> ((Inl e, writer), s1)
      | (Inr data_header, s1) \<Rightarrow>
          (case zh_frame_type data_header of
             ZData \<Rightarrow>
               if unat (position_u32 data_header) \<noteq> received_offset then
                 (case write_zposition ZRpos received_offset s1 of
                    (Inl e, s2) \<Rightarrow> ((Inl e, writer), s2)
                  | (Inr _, s2) \<Rightarrow> receive_zfile_body file_header received_offset writer s2)
               else
                 (case receive_zdata_frames file_header (zh_encoding data_header = Bin32)
                         received_offset writer s1 of
                    ((Inl e, writer'), s2) \<Rightarrow> ((Inl e, writer'), s2)
                  | ((Inr offset', writer'), s2) \<Rightarrow> receive_zfile_body file_header offset' writer' s2)
           | ZEof \<Rightarrow>
               if unat (position_u32 data_header) \<noteq> received_offset
                  \<or> \<not> (case zf_file_size file_header of Some n \<Rightarrow> n = received_offset | None \<Rightarrow> True)
               then
                 (case write_zposition ZRpos received_offset s1 of
                    (Inl e, s2) \<Rightarrow> ((Inl e, writer), s2)
                  | (Inr _, s2) \<Rightarrow> receive_zfile_body file_header received_offset writer s2)
               else (case send_zrinit s1 of
                       (Inl e, s2) \<Rightarrow> ((Inl e, writer), s2)
                     | (Inr _, s2) \<Rightarrow> ((Ok (), writer), s2))
           | ZFin \<Rightarrow> ((Err UnexpectedFrame, writer), s1)
           | ZAbort \<Rightarrow> ((Err Cancelled, writer), s1)
           | ZCan \<Rightarrow> ((Err Cancelled, writer), s1)
           | _ \<Rightarrow> ((Err UnexpectedFrame, writer), s1)))"
  by pat_completeness auto
termination
  by (relation "measure (\<lambda>(h, off, w, s). length (io_input s))")
     (fastforce dest!: header_shrinks(1) data_shrinks(3)
        receive_zdata_frames_consumes [OF sym])+

declare receive_zfile_body.simps [simp del]

text \<open>The closing of a receiving session: two \<^verbatim>\<open>O\<close> in a row, or five ZDLE to cancel.\<close>

function finish_zreceive :: "nat \<Rightarrow> nat \<Rightarrow> unit mem" where
  "finish_zreceive consecutive_o consecutive_cancel s =
     (case read_byte s of
        (Inl e, s1) \<Rightarrow> (Inl e, s1)
      | (Inr b, s1) \<Rightarrow>
          let os = (if b = 0x4f then consecutive_o + 1 else 0) in
          if os = 2 then (Ok (), s1)
          else let cs = (if b = ZDLE then consecutive_cancel + 1 else 0) in
            if cs = 5 then (Err Cancelled, s1) else finish_zreceive os cs s1)"
  by pat_completeness auto
termination
  by (relation "measure (\<lambda>(a, b, s). length (io_input s))")
     (auto dest: consumes1_sym [OF consumes_basic(6)])

declare finish_zreceive.simps [simp del]

definition finish_zmodem_receive :: "unit mem" where
  "finish_zmodem_receive =
     io_bind (write_zheader ZFin (position_header 0)) (\<lambda>_. finish_zreceive 0 0)"

lemma receive_zfile_body_consumes:
  "receive_zfile_body h off w s = ((r, w'), s') \<Longrightarrow> length (io_input s') \<le> length (io_input s)"
proof (induction h off w s rule: receive_zfile_body.induct)
  case (1 h off w s)
  obtain r1 s1 where rd: "read_zmodem_header s = (r1, s1)" by fastforce
  have le: "length (io_input s1) \<le> length (io_input s)"
    by (rule header_shrinks(2) [OF rd [symmetric]])
  show ?case
  proof (cases r1)
    case (Inl e)
    then show ?thesis using "1.prems" le by (subst (asm) receive_zfile_body.simps) (auto simp: rd)
  next
    case (Inr dh)
    obtain r2 s2 where wr: "write_zposition ZRpos off s1 = (r2, s2)" by fastforce
    obtain r3 w3 s3 where fr: "receive_zdata_frames h (zh_encoding dh = Bin32) off w s1 = ((r3, w3), s3)"
      by (metis surj_pair)
    note le2 = consumesD [OF write_zposition_consumes wr] receive_zdata_frames_consumes [OF fr]
    note ih = "1.IH"(1) [OF rd [symmetric] Inr _ _ wr [symmetric]]
      "1.IH"(2) [OF rd [symmetric] Inr _ _ fr [symmetric] refl]
      "1.IH"(3) [OF rd [symmetric] Inr _ _ wr [symmetric]]
    show ?thesis
      using "1.prems" ih le le2 Inr
      by (subst (asm) receive_zfile_body.simps)
         (cases "zh_frame_type dh"; auto simp: rd wr fr send_zrinit_def split: if_splits sum.splits
            option.splits prod.splits dest!: consumesD [OF write_consumes(1)])
  qed
qed

text \<open>The metadata subpacket after a ZFILE header, and the attention string after ZSINIT.\<close>

definition read_zfile_header :: "bool \<Rightarrow> zmodem_file_header option mem" where
  "read_zfile_header use_crc32 = io_bind (read_zmodem_data use_crc32 ZMODEM_MAX_CHUNK) (\<lambda>frame.
     if zd_end frame \<noteq> EndWithAck then io_fail UnexpectedFrame
     else io_lift (parse_zfile_header (zd_payload frame)))"

definition read_zattention :: "bool \<Rightarrow> unit mem" where
  "read_zattention use_crc32 = io_bind (read_zmodem_data use_crc32 ZMODEM_ATTENTION_MAX_BYTES) (\<lambda>frame.
     if zd_end frame \<noteq> EndWithAck then io_fail UnexpectedFrame
     else write_zheader ZAck (position_header 1))"

text \<open>
  Receiving one announced file. The second component lists what was written where: nothing
  when the size is refused or the writer cannot be opened, else the file with its bytes.
\<close>

definition receive_zfile ::
    "(zmodem_file_header \<Rightarrow> transfer_error + unit) \<Rightarrow> zmodem_file_header \<Rightarrow> memory_io
       \<Rightarrow> ((transfer_error + unit) \<times> (zmodem_file_header \<times> bytes) list) \<times> memory_io" where
  "receive_zfile open_writer file_header s =
     (case (case zf_file_size file_header of Some n \<Rightarrow> validate_zmodem_file_size n | None \<Rightarrow> Ok ()) of
        Inl e \<Rightarrow> ((Inl e, []), s)
      | Inr _ \<Rightarrow>
          (case open_writer file_header of
             Inl e \<Rightarrow> ((Inl e, []), s)
           | Inr _ \<Rightarrow>
               (case write_zposition ZRpos 0 s of
                  (Inl e, s1) \<Rightarrow> ((Inl e, [(file_header, [])]), s1)
                | (Inr _, s1) \<Rightarrow>
                    (case receive_zfile_body file_header 0 [] s1 of
                       ((r, w), s2) \<Rightarrow> ((r, [(file_header, w)]), s2)))))"

lemma zfile_reads_consume [shrinks]:
  "consumes (read_zfile_header c)" "consumes (read_zattention c)"
  unfolding read_zfile_header_def read_zattention_def
  by (intro consumes_bind consumes_if consumes_basic write_consumes
        consumes1_consumes [OF read_zmodem_data_consumes1])+

lemma receive_zfile_consumes:
  "receive_zfile open_writer h s = ((r, fs), s') \<Longrightarrow> length (io_input s') \<le> length (io_input s)"
  by (fastforce simp: receive_zfile_def split: sum.splits option.splits prod.splits
      dest!: consumesD [OF write_zposition_consumes] receive_zfile_body_consumes)

text \<open>
  The session loop. \<open>received\<close> are the headers of the files finished, \<open>files\<close> every file opened
  with what was written to it.
\<close>

function receive_zmodem_loop ::
    "(zmodem_file_header \<Rightarrow> transfer_error + unit) \<Rightarrow> zmodem_file_header list
       \<Rightarrow> (zmodem_file_header \<times> bytes) list \<Rightarrow> memory_io
       \<Rightarrow> ((transfer_error + zmodem_file_header list) \<times> (zmodem_file_header \<times> bytes) list) \<times> memory_io"
where
  "receive_zmodem_loop open_writer received files s =
     (case read_zmodem_header s of
        (Inl e, s1) \<Rightarrow> ((Inl e, files), s1)
      | (Inr header, s1) \<Rightarrow>
          (case zh_frame_type header of
             ZrqInit \<Rightarrow> receive_zmodem_loop open_writer received files (snd (send_zrinit s1))
           | ZFile \<Rightarrow>
               (case read_zfile_header (zh_encoding header = Bin32) s1 of
                  (Inl e, s2) \<Rightarrow> ((Inl e, files), s2)
                | (Inr None, s2) \<Rightarrow>
                    (case finish_zmodem_receive s2 of
                       (Inl e, s3) \<Rightarrow> ((Inl e, files), s3)
                     | (Inr _, s3) \<Rightarrow> ((Ok received, files), s3))
                | (Inr (Some file_header), s2) \<Rightarrow>
                    (case receive_zfile open_writer file_header s2 of
                       ((Inl e, fs), s3) \<Rightarrow> ((Inl e, files @ fs), s3)
                     | ((Inr _, fs), s3) \<Rightarrow>
                         receive_zmodem_loop open_writer (received @ [file_header]) (files @ fs) s3))
           | ZsInit \<Rightarrow>
               (case read_zattention (zh_encoding header = Bin32) s1 of
                  (Inl e, s2) \<Rightarrow> ((Inl e, files), s2)
                | (Inr _, s2) \<Rightarrow> receive_zmodem_loop open_writer received files s2)
           | ZFin \<Rightarrow>
               (case finish_zmodem_receive s1 of
                  (Inl e, s2) \<Rightarrow> ((Inl e, files), s2)
                | (Inr _, s2) \<Rightarrow> ((Ok received, files), s2))
           | ZAbort \<Rightarrow> ((Err Cancelled, files), s1)
           | ZCan \<Rightarrow> ((Err Cancelled, files), s1)
           | _ \<Rightarrow> receive_zmodem_loop open_writer received files s1))"
  by pat_completeness auto
termination
  by (relation "measure (\<lambda>(o', r, f, s). length (io_input s))")
     (fastforce simp: send_zrinit_def dest!: header_shrinks(1) consumes_sym [OF zfile_reads_consume(1)]
        consumes_sym [OF zfile_reads_consume(2)] receive_zfile_consumes [OF sym])+

declare receive_zmodem_loop.simps [simp del]

definition receive_zmodem ::
    "(zmodem_file_header \<Rightarrow> transfer_error + unit) \<Rightarrow> memory_io
       \<Rightarrow> ((transfer_error + zmodem_file_header list) \<times> (zmodem_file_header \<times> bytes) list) \<times> memory_io"
where
  "receive_zmodem open_writer s = receive_zmodem_loop open_writer [] [] (snd (send_zrinit s))"

subsection \<open>What a file puts on the wire\<close>

lemma header_runs [io_simps]:
  "read_zmodem_header \<lparr>io_input = encode_hex_header t pos xon @ i, io_output = out\<rparr> =
     (Ok \<lparr>zh_frame_type = t, zh_position = pos, zh_encoding = Hex\<rparr>,
      \<lparr>io_input = (if xon then [XON] else []) @ i, io_output = out\<rparr>)"
  "read_zmodem_header \<lparr>io_input = encode_bin32_header_with_escape t pos ec @ i, io_output = out\<rparr> =
     (Ok \<lparr>zh_frame_type = t, zh_position = pos, zh_encoding = Bin32\<rparr>,
      \<lparr>io_input = i, io_output = out\<rparr>)"
  by (cases pos; simp add: read_zmodem_header_hex read_zmodem_header_bin32)+

lemma write_runs [io_simps]:
  "write_zheader t pos \<lparr>io_input = i, io_output = out\<rparr> =
     (Ok (), \<lparr>io_input = i, io_output = out @ encode_hex_header t pos (t \<noteq> ZFin \<and> t \<noteq> ZAck)\<rparr>)"
  "write_zdata d e c ec \<lparr>io_input = i, io_output = out\<rparr> =
     (Ok (), \<lparr>io_input = i, io_output = out @ zdata_bytes d e c ec\<rparr>)"
  "write_zbinary_header t pos True ec \<lparr>io_input = i, io_output = out\<rparr> =
     (Ok (), \<lparr>io_input = i, io_output = out @ encode_bin32_header_with_escape t pos ec\<rparr>)"
  by (simp_all add: write_zheader_def write_zdata_def write_zbinary_header_def Let_def)

lemma position_runs [io_simps]:
  assumes "n \<le> ZMODEM_MAX_POSITION"
  shows "position_header_checked n = Ok (position_header (word_of_nat n))"
    and "unat (position_u32 \<lparr>zh_frame_type = t, zh_position = position_header (word_of_nat n), zh_encoding = e\<rparr>) = n"
    and "write_zposition t n \<lparr>io_input = i, io_output = out\<rparr> =
      (Ok (), \<lparr>io_input = i, io_output = out @ encode_hex_header t (position_header (word_of_nat n))
         (t \<noteq> ZFin \<and> t \<noteq> ZAck)\<rparr>)"
  using assms
  by (simp_all add: position_header_checked_def position_u32_def position_header_def unat_of_nat
      ZMODEM_MAX_POSITION_def write_zposition_def write_runs)

text \<open>The data subpackets of a file in chunks of \<open>n\<close>, and the answers they call for.\<close>

function zwire_chunks :: "nat \<Rightarrow> bool \<Rightarrow> bytes \<Rightarrow> bytes" where
  "zwire_chunks n ec data =
     (if n = 0 \<or> length data \<le> n then zdata_bytes data End True ec
      else zdata_bytes (take n data) ContinueWithAck True ec @ zwire_chunks n ec (drop n data))"
  by pat_completeness auto
termination
  by (relation "measure (\<lambda>(n, ec, d). length d)") auto

function zack_chunks :: "nat \<Rightarrow> nat \<Rightarrow> bytes \<Rightarrow> bytes" where
  "zack_chunks n off data =
     (if n = 0 \<or> length data \<le> n then []
      else encode_hex_header ZAck (position_header (word_of_nat (off + n))) False
             @ zack_chunks n (off + n) (drop n data))"
  by pat_completeness auto
termination
  by (relation "measure (\<lambda>(n, off, d). length d)") auto

declare zwire_chunks.simps [simp del] zack_chunks.simps [simp del]

lemma read_zmodem_header_junk [io_simps]:
  "list_all (\<lambda>b. b \<noteq> ZPAD) junk \<Longrightarrow>
   read_zmodem_header \<lparr>io_input = junk @ i, io_output = out\<rparr> =
     read_zmodem_header \<lparr>io_input = i, io_output = out\<rparr>"
  by (induction junk) (simp_all add: read_zmodem_header_skip)

lemma send_zdata_chunks_run:
  "0 < n \<Longrightarrow> data \<noteq> [] \<Longrightarrow> off + length data \<le> ZMODEM_MAX_POSITION \<Longrightarrow> list_all (\<lambda>b. b \<noteq> ZPAD) junk \<Longrightarrow>
   send_zdata_chunks \<lparr>zp_chunk_size = n, zp_use_crc32 = True, zp_escape_control = ec\<rparr>
       (off + length data) off data \<lparr>io_input = junk @ zack_chunks n off data @ i, io_output = out\<rparr> =
     (Ok Complete, \<lparr>io_input = (if length data \<le> n then junk else []) @ i,
                    io_output = out @ zwire_chunks n ec data\<rparr>)"
proof (induction n off data arbitrary: out junk rule: zack_chunks.induct)
  case (1 n off data)
  show ?case
  proof (cases "length data \<le> n")
    case True
    then show ?thesis
      using "1.prems"
      by (subst send_zdata_chunks.simps)
         (simp add: read_padded_exact_def Let_def write_runs zwire_chunks.simps [of n]
            zack_chunks.simps [of n] send_zdata_chunks.simps [of _ "off + length data" "off + length data"])
  next
    case False
    then show ?thesis
      using "1.prems" "1.IH" [of "[]" "out @ zdata_bytes (take n data) ContinueWithAck True ec"]
      by (subst send_zdata_chunks.simps)
         (simp add: read_padded_exact_def Let_def io_simps zwire_chunks.simps [of n ec data]
            zack_chunks.simps [of n off data] min_def del: of_nat_add)
  qed
qed

lemma receive_zdata_frames_run:
  "zf_file_size h = Some fs \<Longrightarrow> off + length data \<le> fs \<Longrightarrow> fs \<le> ZMODEM_MAX_POSITION \<Longrightarrow>
   0 < n \<Longrightarrow> n \<le> ZMODEM_MAX_CHUNK \<Longrightarrow>
   receive_zdata_frames h True off w \<lparr>io_input = zwire_chunks n ec data @ i, io_output = out\<rparr> =
     ((Ok (off + length data), w @ data), \<lparr>io_input = i, io_output = out @ zack_chunks n off data\<rparr>)"
proof (induction n off data arbitrary: w out rule: zack_chunks.induct)
  case (1 n off data)
  have small: "off + length data < 2 ^ 64"
    using "1.prems" by (simp add: ZMODEM_MAX_POSITION_def)
  show ?case
  proof (cases "length data \<le> n")
    case True
    then show ?thesis
      using "1.prems" small
      by (subst receive_zdata_frames.simps)
         (simp add: zwire_chunks.simps [of n] zack_chunks.simps [of n] read_zmodem_data_run xon_after_def Let_def)
  next
    case False
    then show ?thesis
      using "1.prems" "1.IH" [of "w @ take n data" "out @ encode_hex_header ZAck (position_header (word_of_nat (off + n))) False"] small
      by (subst receive_zdata_frames.simps)
         (simp add: zwire_chunks.simps [of n ec data] zack_chunks.simps [of n off data]
            read_zmodem_data_run xon_after_def Let_def position_runs min_def)
  qed
qed

subsection \<open>A session between the two ends\<close>

definition zmodem_entry_ok :: "zmodem_send_entry \<Rightarrow> bool" where
  "zmodem_entry_ok e \<longleftrightarrow> ze_file_size e = length (ze_bytes e) \<and> ze_file_size e \<le> ZMODEM_MAX_POSITION
     \<and> utf8_valid (ze_file_name e) \<and> ze_file_name e \<noteq> [] \<and> 0 \<notin> set (ze_file_name e)
     \<and> 47 \<notin> set (ze_file_name e) \<and> 92 \<notin> set (ze_file_name e)
     \<and> ze_file_name e \<noteq> [46] \<and> ze_file_name e \<noteq> [46, 46]
     \<and> length (build_zfile_header (ze_file_name e) (ze_file_size e)) \<le> ZMODEM_MAX_CHUNK"

definition zmodem_header_of :: "zmodem_send_entry \<Rightarrow> zmodem_file_header" where
  "zmodem_header_of e = \<lparr>zf_file_name = ze_file_name e, zf_file_size = Some (ze_file_size e)\<rparr>"

abbreviation our_peer :: zmodem_peer_capabilities where
  "our_peer \<equiv> \<lparr>zp_chunk_size = ZMODEM_MAX_CHUNK, zp_use_crc32 = True, zp_escape_control = True\<rparr>"

abbreviation zrinit_bytes :: bytes where
  "zrinit_bytes \<equiv> encode_hex_header ZrInit ZRINIT_FLAGS True"

definition zmodem_wire :: "zmodem_send_entry \<Rightarrow> bytes" where
  "zmodem_wire e = encode_bin32_header_with_escape ZFile ZFILE_BINARY_FLAGS True
     @ zdata_bytes (build_zfile_header (ze_file_name e) (ze_file_size e)) EndWithAck True True
     @ encode_bin32_header_with_escape ZData (position_header 0) True
     @ zwire_chunks ZMODEM_MAX_CHUNK True (ze_bytes e)
     @ encode_hex_header ZEof (position_header (word_of_nat (ze_file_size e))) True"

definition zmodem_replies :: "zmodem_send_entry \<Rightarrow> bytes" where
  "zmodem_replies e = encode_hex_header ZRpos (position_header 0) True
     @ zack_chunks ZMODEM_MAX_CHUNK 0 (ze_bytes e) @ zrinit_bytes"

lemma parse_zfile_header_run:
  assumes "zmodem_entry_ok e"
  shows "parse_zfile_header (build_zfile_header (ze_file_name e) (ze_file_size e)) =
    Ok (Some (zmodem_header_of e))"
proof -
  let ?name = "ze_file_name e" and ?digits = "u64_to_string (ze_file_size e)"
  have pos: "position (\<lambda>b. b = 0) (?name @ 0 # ?digits) = Some (length ?name)"
    using assms by (intro position_append_hit) (auto simp: zmodem_entry_ok_def)
  have tok: "first_token (lossy_chars ?digits) = Some ?digits"
    by (rule first_token_decimal)
  have "ze_file_size e < 2 ^ 64"
    using assms by (simp add: zmodem_entry_ok_def ZMODEM_MAX_POSITION_def)
  then show ?thesis
    using assms pos tok
    by (simp add: parse_zfile_header_def build_zfile_header_def zmodem_entry_ok_def Let_def
        from_utf8_lossy_valid parse_u64_to_string zmodem_header_of_def)
qed

lemma zero_position [simp]:
  "position_header_checked 0 = Ok (position_header 0)"
  "unat (position_u32 \<lparr>zh_frame_type = t, zh_position = position_header 0, zh_encoding = en\<rparr>) = 0"
  "write_zposition t 0 \<lparr>io_input = i, io_output = out\<rparr> =
     (Ok (), \<lparr>io_input = i, io_output = out @ encode_hex_header t (position_header 0) (t \<noteq> ZFin \<and> t \<noteq> ZAck)\<rparr>)"
  using position_runs [of 0] by simp_all

lemma max_chunk [simp]: "0 < ZMODEM_MAX_CHUNK" by (simp add: ZMODEM_MAX_CHUNK_def)

lemma send_zfile_data_stream_run:
  assumes "n = length data" and "n \<le> ZMODEM_MAX_POSITION"
  shows "\<exists>junk. list_all (\<lambda>b. b \<noteq> ZPAD) junk \<and>
    send_zfile_data_stream data n 0 our_peer
      \<lparr>io_input = XON # zack_chunks ZMODEM_MAX_CHUNK 0 data @ i, io_output = out\<rparr> =
    (Ok Complete, \<lparr>io_input = junk @ i,
        io_output = out @ encode_bin32_header_with_escape ZData (position_header 0) True
          @ zwire_chunks ZMODEM_MAX_CHUNK True data
          @ encode_hex_header ZEof (position_header (word_of_nat n)) True\<rparr>)"
proof (cases "data = []")
  case True
  then show ?thesis
    using assms
    by (intro exI [of _ "[XON]"])
       (simp add: send_zfile_data_stream_def io_simps send_zdata_chunks.simps zwire_chunks.simps
          zack_chunks.simps)
next
  case False
  then show ?thesis
    using assms send_zdata_chunks_run [of ZMODEM_MAX_CHUNK data 0 "[XON]" True i
        "out @ encode_bin32_header_with_escape ZData (position_header 0) True"]
    by (intro exI [of _ "if length data \<le> ZMODEM_MAX_CHUNK then [XON] else []"])
       (simp add: send_zfile_data_stream_def io_simps)
qed

lemma send_zmodem_entry_run:
  assumes "zmodem_entry_ok e"
  shows "send_zmodem_entry our_peer e \<lparr>io_input = XON # zmodem_replies e @ i, io_output = out\<rparr> =
    (Ok (ze_file_size e), \<lparr>io_input = XON # i, io_output = out @ zmodem_wire e\<rparr>)"
proof -
  have size: "ze_file_size e = length (ze_bytes e)" "length (ze_bytes e) \<le> ZMODEM_MAX_POSITION"
    using assms by (simp_all add: zmodem_entry_ok_def)
  let ?out = "out @ encode_bin32_header_with_escape ZFile ZFILE_BINARY_FLAGS True
     @ zdata_bytes (build_zfile_header (ze_file_name e) (ze_file_size e)) EndWithAck True True"
  obtain junk where junk: "list_all (\<lambda>b. b \<noteq> ZPAD) junk"
    and run: "send_zfile_data_stream (ze_bytes e) (ze_file_size e) 0 our_peer
      \<lparr>io_input = XON # zack_chunks ZMODEM_MAX_CHUNK 0 (ze_bytes e) @ zrinit_bytes @ i, io_output = ?out\<rparr> =
    (Ok Complete, \<lparr>io_input = junk @ zrinit_bytes @ i,
        io_output = ?out @ encode_bin32_header_with_escape ZData (position_header 0) True
          @ zwire_chunks ZMODEM_MAX_CHUNK True (ze_bytes e)
          @ encode_hex_header ZEof (position_header (word_of_nat (ze_file_size e))) True\<rparr>)"
    using send_zfile_data_stream_run [of "ze_file_size e" "ze_bytes e"] size by metis
  show ?thesis
    using junk run
    by (simp add: send_zmodem_entry_def io_simps zmodem_replies_def send_zfile_response.simps
        send_zfile_passes.simps zmodem_wire_def)
qed

lemma receive_zmodem_entry_run:
  assumes "zmodem_entry_ok e" and "open_writer (zmodem_header_of e) = Ok ()"
    and "list_all (\<lambda>b. b \<noteq> ZPAD) junk"
  shows "receive_zmodem_loop open_writer rec fs \<lparr>io_input = junk @ zmodem_wire e @ i, io_output = out\<rparr> =
    receive_zmodem_loop open_writer (rec @ [zmodem_header_of e]) (fs @ [(zmodem_header_of e, ze_bytes e)])
      \<lparr>io_input = XON # i, io_output = out @ zmodem_replies e\<rparr>"
proof -
  let ?h = "zmodem_header_of e"
  have size: "ze_file_size e = length (ze_bytes e)" "length (ze_bytes e) \<le> ZMODEM_MAX_POSITION"
    "zf_file_size ?h = Some (length (ze_bytes e))"
    "length (build_zfile_header (ze_file_name e) (ze_file_size e)) \<le> ZMODEM_MAX_CHUNK"
    using assms by (auto simp: zmodem_entry_ok_def zmodem_header_of_def)
  have body: "receive_zfile_body ?h 0 [] \<lparr>io_input = XON # encode_bin32_header_with_escape ZData (position_header 0) True
       @ zwire_chunks ZMODEM_MAX_CHUNK True (ze_bytes e)
       @ encode_hex_header ZEof (position_header (word_of_nat (length (ze_bytes e)))) True @ i, io_output = o'\<rparr> =
     ((Ok (), ze_bytes e), \<lparr>io_input = XON # i, io_output = o' @ zack_chunks ZMODEM_MAX_CHUNK 0 (ze_bytes e) @ zrinit_bytes\<rparr>)"
    for o'
    using size receive_zdata_frames_run [of ?h "length (ze_bytes e)" 0 "ze_bytes e" ZMODEM_MAX_CHUNK]
    by (subst receive_zfile_body.simps)
       (simp add: io_simps receive_zfile_body.simps send_zrinit_def)
  show ?thesis
    using assms size body parse_zfile_header_run [OF assms(1)]
    by (subst receive_zmodem_loop.simps)
       (simp add: zmodem_wire_def zmodem_replies_def io_simps xon_after_def read_zfile_header_def
          receive_zfile_def validate_zmodem_file_size_def)
qed

lemma send_zmodem_entries_run:
  "list_all zmodem_entry_ok es \<Longrightarrow>
   send_zmodem_entries our_peer t es
       \<lparr>io_input = XON # concat (map zmodem_replies es) @ i, io_output = out\<rparr> =
     (Ok (t + sum_list (map ze_file_size es)),
      \<lparr>io_input = XON # i, io_output = out @ concat (map zmodem_wire es)\<rparr>)"
  by (induction es arbitrary: t out) (simp_all add: send_zmodem_entry_run add.assoc)

lemma receive_zmodem_entries_run:
  "list_all zmodem_entry_ok es \<Longrightarrow> (\<And>h. open_writer h = Ok ()) \<Longrightarrow> list_all (\<lambda>b. b \<noteq> ZPAD) junk \<Longrightarrow>
   \<exists>junk'. list_all (\<lambda>b. b \<noteq> ZPAD) junk' \<and>
   receive_zmodem_loop open_writer rec fs
      \<lparr>io_input = junk @ concat (map zmodem_wire es) @ i, io_output = out\<rparr> =
     receive_zmodem_loop open_writer (rec @ map zmodem_header_of es)
       (fs @ map (\<lambda>e. (zmodem_header_of e, ze_bytes e)) es)
       \<lparr>io_input = junk' @ i, io_output = out @ concat (map zmodem_replies es)\<rparr>"
proof (induction es arbitrary: rec fs out junk)
  case (Cons e es)
  have "list_all (\<lambda>b. b \<noteq> ZPAD) [XON]" by simp
  from Cons.IH [OF _ Cons.prems(2) this, of "rec @ [zmodem_header_of e]" "fs @ [(zmodem_header_of e, ze_bytes e)]"
      "out @ zmodem_replies e"] Cons.prems
  show ?case by (simp add: receive_zmodem_entry_run)
qed auto

lemma validate_entries_ok: "list_all zmodem_entry_ok es \<Longrightarrow> validate_entries es = Ok ()"
  by (induction es) (simp_all add: zmodem_entry_ok_def validate_zmodem_file_size_def)

lemma wait_for_zrinit_run:
  "wait_for_zrinit \<lparr>io_input = zrinit_bytes @ i, io_output = out\<rparr> =
     (Ok our_peer, \<lparr>io_input = XON # i, io_output = out\<rparr>)"
proof -
  have "u16_from_le_bytes (0 :: u8) 32 = 8192" by code_simp
  then show ?thesis
    by (subst wait_for_zrinit.simps)
       (simp add: header_runs ZRINIT_FLAGS_def ZMODEM_MAX_CHUNK_def Let_def)
qed



subsection \<open>Whatever the peer sends\<close>

lemma receive_zdata_frames_inv:
  "receive_zdata_frames h c off w s = ((r, w'), s') \<Longrightarrow> off = length w \<Longrightarrow>
     zf_file_size h = Some fs \<Longrightarrow> length w \<le> fs \<Longrightarrow>
     length w' \<le> fs \<and> (\<forall>n. r = Ok n \<longrightarrow> n = length w')"
proof (induction h c off w s rule: receive_zdata_frames.induct)
  case (1 h c off w s)
  obtain r1 s1 where rd: "read_zmodem_data c ZMODEM_MAX_CHUNK s = (r1, s1)" by fastforce
  show ?case
  proof (cases r1)
    case (Inl e)
    then show ?thesis
      using "1.prems"
      by (subst (asm) receive_zdata_frames.simps) (auto simp: rd split: if_splits sum.splits prod.splits)
  next
    case (Inr f)
    let ?n = "off + length (zd_payload f)"
    obtain r2 s2 where wr: "write_zposition ZAck ?n s1 = (r2, s2)" by fastforce
    note run = "1.prems"(1) [unfolded receive_zdata_frames.simps [of h c off w s] rd Inr, simplified,
        unfolded Let_def wr "1.prems"(3), simplified]
    show ?thesis
    proof (cases "?n \<ge> 2 ^ 64 \<or> ?n > fs")
      case True
      then show ?thesis using run "1.prems"(4) by (auto split: if_splits)
    next
      case False
      have ok: "\<not> 2 ^ 64 \<le> ?n" "\<not> (case zf_file_size h of None \<Rightarrow> False | Some n \<Rightarrow> n < ?n)"
        "?n = length (w @ zd_payload f)" "length (w @ zd_payload f) \<le> fs"
        using False "1.prems"(2,3) by auto
      note ih = "1.IH"(1) [OF rd [symmetric] Inr refl ok(1,2) refl _ _ ok(3) "1.prems"(3) ok(4)]
        "1.IH"(2) [OF rd [symmetric] Inr refl ok(1,2) refl _ wr [symmetric] _ _ ok(3) "1.prems"(3) ok(4)]
      show ?thesis
        using run False ok(3,4) by (cases "zd_end f"; cases r2) (auto dest: ih)
    qed
  qed
qed

lemma receive_zfile_body_inv:
  "receive_zfile_body h off w s = ((r, w'), s') \<Longrightarrow> off = length w \<Longrightarrow>
     zf_file_size h = Some fs \<Longrightarrow> length w \<le> fs \<Longrightarrow>
     length w' \<le> fs \<and> (r = Ok () \<longrightarrow> length w' = fs)"
proof (induction h off w s rule: receive_zfile_body.induct)
  case (1 h off w s)
  obtain r1 s1 where rd: "read_zmodem_header s = (r1, s1)" by fastforce
  show ?case
  proof (cases r1)
    case (Inl e)
    then show ?thesis using "1.prems" by (subst (asm) receive_zfile_body.simps) (auto simp: rd)
  next
    case (Inr dh)
    obtain r2 s2 where wr: "write_zposition ZRpos off s1 = (r2, s2)" by fastforce
    obtain r3 w3 s3 where fr: "receive_zdata_frames h (zh_encoding dh = Bin32) off w s1 = ((r3, w3), s3)"
      by (metis surj_pair)
    note inv = receive_zdata_frames_inv [OF fr "1.prems"(2-4)]
      and run = "1.prems"(1) [unfolded receive_zfile_body.simps [of h off w s] rd Inr, simplified]
    consider (data) "zh_frame_type dh = ZData" | (eof) "zh_frame_type dh = ZEof"
      | (other) "zh_frame_type dh \<noteq> ZData" "zh_frame_type dh \<noteq> ZEof" by blast
    then show ?thesis
    proof cases
      case data
      note run1 = run [unfolded data wr fr, simplified]
      show ?thesis
      proof (cases "unat (position_u32 dh) = off")
        case True
        then show ?thesis
          using run1 inv "1.IH"(2) [OF rd [symmetric] Inr data _ fr [symmetric] refl _ _ _ "1.prems"(3)]
          by (cases r3) auto
      next
        case False
        then show ?thesis
          using run1 "1.prems"(4) "1.IH"(1) [OF rd [symmetric] Inr data False wr [symmetric] _ _ "1.prems"(2-4)]
          by (cases r2) auto
      qed
    next
      case eof
      obtain r4 s4 where zr: "send_zrinit s1 = (r4, s4)" by fastforce
      show ?thesis
        using run [unfolded eof wr zr] "1.prems"(2-)
          "1.IH"(3) [OF rd [symmetric] Inr eof _ wr [symmetric]]
        by (auto split: if_splits sum.splits)
    next
      case other
      then show ?thesis
        using "1.prems" Inr
        by (subst (asm) (1) receive_zfile_body.simps) (auto simp: rd split: z_frame_type.splits)
    qed
  qed
qed

text \<open>
  The files of a session: within the declared size, and complete when finished.
\<close>

definition within_size :: "zmodem_file_header \<times> bytes \<Rightarrow> bool" where
  "within_size f = (case zf_file_size (fst f) of Some n \<Rightarrow> length (snd f) \<le> n | None \<Rightarrow> True)"

definition complete_file :: "zmodem_file_header \<times> bytes \<Rightarrow> bool" where
  "complete_file f = (case zf_file_size (fst f) of Some n \<Rightarrow> length (snd f) = n | None \<Rightarrow> True)"

definition session_outcome ::
    "transfer_error + zmodem_file_header list \<Rightarrow> (zmodem_file_header \<times> bytes) list \<Rightarrow> bool" where
  "session_outcome r files \<longleftrightarrow> list_all within_size files
     \<and> (\<forall>hs. r = Ok hs \<longrightarrow> hs = map fst files \<and> list_all complete_file files)"

lemma complete_within: "list_all complete_file fs \<Longrightarrow> list_all within_size fs"
  by (auto simp: list_all_iff complete_file_def within_size_def split: option.splits)

lemma receive_zfile_sizes:
  assumes "receive_zfile open_writer h s = ((r, fs), s')"
  shows "list_all within_size fs" and "r = Ok () \<Longrightarrow> map fst fs = [h] \<and> list_all complete_file fs"
proof -
  have body: "receive_zfile_body h 0 [] s1 = ((r, w), s') \<Longrightarrow>
      within_size (h, w) \<and> (r = Ok () \<longrightarrow> complete_file (h, w))" for s1 w
    using receive_zfile_body_inv [of h 0 "[]" s1 r w s']
    by (auto simp: within_size_def complete_file_def split: option.splits)
  show "list_all within_size fs" and "r = Ok () \<Longrightarrow> map fst fs = [h] \<and> list_all complete_file fs"
    using assms body
    by (auto simp: receive_zfile_def within_size_def split: sum.splits prod.splits option.splits)
qed

lemma receive_zmodem_loop_inv:
  assumes "receive_zmodem_loop open_writer rec fs s = ((r, fs'), s')"
    and "rec = map fst fs" and "list_all complete_file fs"
  shows "session_outcome r fs'"
  using assms
proof (induction "length (io_input s)" arbitrary: rec fs s rule: less_induct)
  case less
  note fin = less.prems(2,3) complete_within [OF less.prems(3)]
  obtain r1 s1 where rd: "read_zmodem_header s = (r1, s1)" by fastforce
  show ?case
  proof (cases r1)
    case (Inl e)
    then show ?thesis
      using less.prems(1) fin by (subst (asm) receive_zmodem_loop.simps) (auto simp: rd session_outcome_def)
  next
    case (Inr header)
    note run = less.prems(1) [unfolded receive_zmodem_loop.simps [of open_writer rec fs s] rd Inr, simplified]
    have lt: "length (io_input s1) < length (io_input s)"
      using header_shrinks(1) rd Inr by metis
    obtain rf s2 where rf: "read_zfile_header (zh_encoding header = Bin32) s1 = (rf, s2)" by fastforce
    have le: "length (io_input s2) \<le> length (io_input s1)"
      by (rule consumesD [OF zfile_reads_consume(1) rf])
    consider (got) h where "zh_frame_type header = ZFile" "rf = Ok (Some h)"
      | (no) "zh_frame_type header = ZFile" "\<And>h. rf \<noteq> Ok (Some h)"
      | (other) "zh_frame_type header \<noteq> ZFile" by blast
    then show ?thesis
    proof cases
      case got
      obtain rb fs1 s3 where body: "receive_zfile open_writer h s2 = ((rb, fs1), s3)" by (metis surj_pair)
      show ?thesis
      proof (cases rb)
        case (Inl e)
        then show ?thesis
          using run [unfolded got rf, simplified, unfolded body] receive_zfile_sizes(1) [OF body] fin(3)
          by (auto simp: session_outcome_def)
      next
        case (Inr u)
        then have "map fst fs1 = [h]" "list_all complete_file fs1"
          using receive_zfile_sizes(2) [OF body] by simp_all
        then show ?thesis
          using run [unfolded got rf, simplified, unfolded body] Inr fin(1,2) lt le
            receive_zfile_consumes [OF body] less.hyps [of s3 "rec @ [h]" "fs @ fs1"] by simp
      qed
    next
      case no
      then show ?thesis
        using run [unfolded no(1) rf] fin
        by (auto simp: session_outcome_def split: sum.splits option.splits prod.splits)
    next
      case other
      have again: "receive_zmodem_loop open_writer rec fs t = ((r, fs'), s') \<Longrightarrow>
          length (io_input t) \<le> length (io_input s1) \<Longrightarrow> session_outcome r fs'" for t
        using less.hyps [of t rec fs] lt fin(1,2) by simp
      obtain ra sa where ra: "read_zattention (zh_encoding header = Bin32) s1 = (ra, sa)" by fastforce
      obtain rx sx where rx: "finish_zmodem_receive s1 = (rx, sx)" by fastforce
      have leaf: "fs = fs' \<Longrightarrow> session_outcome (Inl e) fs'" "fs = fs' \<Longrightarrow> session_outcome (Ok rec) fs'" for e
        using fin by (simp_all add: session_outcome_def)
      show ?thesis
        using run [unfolded ra rx] other consumesD [OF zfile_reads_consume(2) ra]
        by (auto simp: send_zrinit_def split: sum.splits z_frame_type.splits intro: again leaf)
    qed
  qed
qed

text \<open>
  C13: whatever the peer sends, a ZMODEM receiver never writes more to a file than its header
  declared, and a session that ends without error has received every file it opened, each with
  exactly its declared size.
\<close>

theorem zmodem_receiver_keeps_declared_sizes:
  assumes "receive_zmodem open_writer s = ((r, files), s')"
  shows "(\<forall>(h, written) \<in> set files. \<forall>n. zf_file_size h = Some n \<longrightarrow> length written \<le> n)
    \<and> (\<forall>hs. r = Ok hs \<longrightarrow> hs = map fst files \<and>
         (\<forall>(h, written) \<in> set files. \<forall>n. zf_file_size h = Some n \<longrightarrow> length written = n))"
proof -
  have "session_outcome r files"
    using receive_zmodem_loop_inv [OF assms [unfolded receive_zmodem_def]] by simp
  then show ?thesis
    by (fastforce simp: session_outcome_def list_all_iff within_size_def complete_file_def)
qed

theorem zmodem_receiver_keeps_declared_sizes_witness:
  "\<exists>r files s'. receive_zmodem (\<lambda>_. Ok ()) (with_input [ZPAD, 0]) = ((r, files), s')
    \<and> (\<forall>(h, written) \<in> set files. \<forall>n. zf_file_size h = Some n \<longrightarrow> length written \<le> n)"
proof -
  obtain r files s' where run: "receive_zmodem (\<lambda>_. Ok ()) (with_input [ZPAD, 0]) = ((r, files), s')"
    by (metis surj_pair)
  then show ?thesis using zmodem_receiver_keeps_declared_sizes [OF run] by blast
qed

text \<open>
  A file name accepted from a ZFILE header never names another directory.
\<close>

theorem zmodem_received_name_is_plain:
  assumes "parse_zfile_header bs = Ok (Some h)"
  shows "47 \<notin> set (zf_file_name h) \<and> 92 \<notin> set (zf_file_name h)
    \<and> zf_file_name h \<noteq> [46] \<and> zf_file_name h \<noteq> [46, 46]"
  using assms
  by (auto simp: parse_zfile_header_def Let_def split: option.splits if_splits)

theorem zmodem_received_name_is_plain_witness:
  "parse_zfile_header (build_zfile_header [97] 2) = Ok (Some \<lparr>zf_file_name = [97], zf_file_size = Some 2\<rparr>)
   \<and> 47 \<notin> set [97 :: u8]"
proof -
  let ?e = "\<lparr>ze_file_name = [97], ze_file_size = 2, ze_bytes = [1, 2]\<rparr>"
  have "zmodem_entry_ok ?e"
    by (simp add: zmodem_entry_ok_def ascii_valid ZMODEM_MAX_POSITION_def ZMODEM_MAX_CHUNK_def
        build_zfile_header_def u64_to_string.simps [of 2])
  then have p: "parse_zfile_header (build_zfile_header [97] 2) = Ok (Some \<lparr>zf_file_name = [97], zf_file_size = Some 2\<rparr>)"
    using parse_zfile_header_run by (fastforce simp: zmodem_header_of_def)
  show ?thesis using zmodem_received_name_is_plain [OF p] p by simp
qed

subsection \<open>The 16-bit header check\<close>

text \<open>
  C38: the 16-bit binary header that the sender writes for a peer without CRC-32 carries a check
  value computed over two extra zero bytes, while the reader expects the plain check value: our
  own receiver ends such a session at the first frame, whatever follows it, with a CRC error.
\<close>

theorem crc16_file_header_is_rejected:
  "receive_zmodem open_writer
      (with_input (encode_bin16_header_with_escape ZFile ZFILE_BINARY_FLAGS ec @ i)) =
     ((Err (Protocol InvalidCrc), []), \<lparr>io_input = i, io_output = zrinit_bytes\<rparr>)"
proof -
  have crc: "crc16_xmodem_update 0 4 = 0x4084" "crc16_xmodem_update 0x4084 0 = 0xccc4"
    "crc16_xmodem_update 0xccc4 0 = 0xdcc0" "crc16_xmodem_update 0xdcc0 0 = 0xcaf1"
    "crc16_xmodem_update 0xcaf1 1 = 0x9927" "crc16_xmodem_update 0x9927 0 = 0x3590"
    "crc16_xmodem_update 0x3590 0 = 0xf6f6"
    by code_simp+
  then have "foldl crc16_xmodem_update 0 (bin16_header_bytes ZFile 0 0 0 0x01) \<noteq> 0"
    by (intro bin16_residue [of _ _ _ _ _ "0x9927"]) (simp_all add: crc16_xmodem_def bin16_header_crc_def)
  then have "read_zmodem_header
      \<lparr>io_input = encode_bin16_header_with_escape ZFile ZFILE_BINARY_FLAGS ec @ i, io_output = out\<rparr> =
     (Err (Protocol InvalidCrc), \<lparr>io_input = i, io_output = out\<rparr>)" for out
    by (simp only: ZFILE_BINARY_FLAGS_def read_zmodem_header_bin16 if_True not_False_eq_True)
  then show ?thesis
    by (simp add: receive_zmodem_def with_input_def send_zrinit_def write_runs receive_zmodem_loop.simps)
qed

end
