(* ===== verification/Modem_Detector.thy ===== *)
theory Modem_Detector
  imports Zmodem Xymodem
begin

text \<open>
  The detection of modem starts in terminal output, \<^verbatim>\<open>hapcli-modem-transfer/src/detector.rs\<close>. A
  detector keeps the last 64 bytes it has seen, so that a start marker split over two chunks is
  recognised; the main theorem is that feeding a stream in any chunks finds a ZMODEM marker
  exactly in the chunk that completes it.
\<close>

subsection \<open>The source's functions\<close>

definition DETECTOR_TAIL_BYTES :: nat where
  "DETECTOR_TAIL_BYTES = 64"

datatype detected_modem_protocol = Xmodem | XymodemNegotiation | Ymodem | Zmodem

record detected_modem_start =
  ds_protocol :: detected_modem_protocol
  ds_offset :: nat

record modem_detector =
  md_tail :: bytes

definition detector_new :: modem_detector where
  "detector_new = \<lparr>md_tail = []\<rparr>"

definition slice_at :: "'a list \<Rightarrow> nat \<Rightarrow> nat \<Rightarrow> 'a list" where
  "slice_at xs i n = take n (drop i xs)"

definition find_pattern_crossing_current_chunk :: "bytes \<Rightarrow> nat \<Rightarrow> bytes \<Rightarrow> nat option" where
  "find_pattern_crossing_current_chunk window current_start pattern =
     (if pattern = [] \<or> length pattern > length window then None
      else List.find (\<lambda>index. slice_at window index (length pattern) = pattern
                         \<and> index + length pattern > current_start)
             [0..<length window - length pattern + 1])"

definition zmodem_patterns :: "bytes list" where
  "zmodem_patterns = [[ZPAD, ZPAD, ZDLE, ZHEX], [ZPAD, ZDLE, ZBIN], [ZPAD, ZDLE, ZBIN32]]"

fun list_min :: "nat list \<Rightarrow> nat option" where
  "list_min [] = None"
| "list_min (x # xs) = Some (foldl min x xs)"

definition find_zmodem_start :: "bytes \<Rightarrow> nat \<Rightarrow> detected_modem_start option" where
  "find_zmodem_start window current_start =
     map_option (\<lambda>offset. \<lparr>ds_protocol = Zmodem, ds_offset = offset\<rparr>)
       (list_min (List.map_filter (find_pattern_crossing_current_chunk window current_start)
                    zmodem_patterns))"

definition detect_xymodem_start :: "bytes \<Rightarrow> nat \<Rightarrow> detected_modem_start option" where
  "detect_xymodem_start window current_start =
     (case find_pattern_crossing_current_chunk window current_start [WANT_CRC] of
        Some offset \<Rightarrow> Some \<lparr>ds_protocol = XymodemNegotiation, ds_offset = offset\<rparr>
      | None \<Rightarrow>
          (case find_pattern_crossing_current_chunk window current_start [NAK] of
             Some offset \<Rightarrow> Some \<lparr>ds_protocol = XymodemNegotiation, ds_offset = offset\<rparr>
           | None \<Rightarrow> None))"

definition scan_first ::
    "modem_detector \<Rightarrow> bytes \<Rightarrow> detected_modem_start option \<times> modem_detector" where
  "scan_first d chunk =
     (if chunk = [] then (None, d)
      else
        let window = md_tail d @ chunk;
            current_start = length (md_tail d);
            zmodem_start = find_zmodem_start window current_start;
            xymodem_start = (if zmodem_start = None
                             then detect_xymodem_start window current_start else None);
            keep = min DETECTOR_TAIL_BYTES (length window);
            start = (case zmodem_start of Some z \<Rightarrow> Some z | None \<Rightarrow> xymodem_start) in
        (map_option (\<lambda>st. st\<lparr>ds_offset := ds_offset st - current_start\<rparr>) start,
         d\<lparr>md_tail := drop (length window - keep) window\<rparr>))"

definition scan :: "modem_detector \<Rightarrow> bytes \<Rightarrow> detected_modem_protocol list \<times> modem_detector" where
  "scan d chunk =
     (case scan_first d chunk of
        (None, d') \<Rightarrow> ([], d')
      | (Some st, d') \<Rightarrow> ([ds_protocol st], d'))"

subsection \<open>Occurrences\<close>

text \<open>A pattern occurs in a stream at an index and ends beyond a position.\<close>

definition occurs_at :: "bytes \<Rightarrow> bytes \<Rightarrow> nat \<Rightarrow> bool" where
  "occurs_at xs pattern i \<longleftrightarrow> (\<exists>u v. xs = u @ pattern @ v \<and> length u = i)"

lemma occurs_at_slice:
  "occurs_at xs p i \<longleftrightarrow> i + length p \<le> length xs \<and> slice_at xs i (length p) = p"
proof
  assume "i + length p \<le> length xs \<and> slice_at xs i (length p) = p"
  then have "xs = take i xs @ p @ drop (i + length p) xs" and "length (take i xs) = i"
    by (auto simp: slice_at_def) (metis append_take_drop_id add.commute drop_drop)
  then show "occurs_at xs p i" unfolding occurs_at_def by blast
qed (auto simp: occurs_at_def slice_at_def)

lemma find_upt: "List.find P [0..<n] = Some i \<longleftrightarrow> i < n \<and> P i \<and> (\<forall>j<i. \<not> P j)"
  by (auto simp: find_Some_iff)

lemma find_pattern_Some:
  assumes "p \<noteq> []"
  shows "find_pattern_crossing_current_chunk w c p = Some i \<longleftrightarrow>
     occurs_at w p i \<and> c < i + length p \<and> (\<forall>j<i. occurs_at w p j \<longrightarrow> j + length p \<le> c)"
proof (cases "length p \<le> length w")
  case True
  then have bound: "j < Suc (length w - length p) \<longleftrightarrow> j + length p \<le> length w" for j by linarith
  show ?thesis
    using assms True
    by (auto simp: find_pattern_crossing_current_chunk_def find_upt occurs_at_slice bound simp del: upt_Suc)
next
  case False
  then show ?thesis
    by (auto simp: find_pattern_crossing_current_chunk_def occurs_at_slice)
qed

lemma find_pattern_None:
  assumes "p \<noteq> []"
  shows "find_pattern_crossing_current_chunk w c p = None \<longleftrightarrow>
     (\<forall>i. occurs_at w p i \<longrightarrow> i + length p \<le> c)"
proof (cases "length p \<le> length w")
  case True
  then have bound: "j < Suc (length w - length p) \<longleftrightarrow> j + length p \<le> length w" for j by linarith
  show ?thesis
    using assms True
    by (auto simp: find_pattern_crossing_current_chunk_def find_None_iff occurs_at_slice bound not_less
        simp del: upt_Suc)
next
  case False
  then show ?thesis
    by (auto simp: find_pattern_crossing_current_chunk_def occurs_at_slice)
qed

lemma zmodem_start_None:
  "find_zmodem_start w c = None \<longleftrightarrow>
     (\<forall>p\<in>set zmodem_patterns. \<forall>i. occurs_at w p i \<longrightarrow> i + length p \<le> c)"
proof -
  have "find_zmodem_start w c = None \<longleftrightarrow>
      (\<forall>p\<in>set zmodem_patterns. find_pattern_crossing_current_chunk w c p = None)"
    by (simp add: find_zmodem_start_def zmodem_patterns_def map_filter_simps split: option.splits)
  moreover have "\<forall>p\<in>set zmodem_patterns. p \<noteq> []" by (simp add: zmodem_patterns_def)
  ultimately show ?thesis using find_pattern_None by blast
qed

subsection \<open>The window is the end of the stream\<close>

definition tracks :: "modem_detector \<Rightarrow> bytes \<Rightarrow> bool" where
  "tracks d hist \<longleftrightarrow> md_tail d = drop (length hist - DETECTOR_TAIL_BYTES) hist"

lemma tracks_new: "tracks detector_new []"
  by (simp add: tracks_def detector_new_def)

lemma tracks_scan:
  assumes "tracks d hist"
  shows "tracks (snd (scan_first d chunk)) (hist @ chunk)"
proof -
  let ?k = "length hist - DETECTOR_TAIL_BYTES"
  have w: "md_tail d @ chunk = drop ?k (hist @ chunk)"
    using assms by (simp add: tracks_def)
  have cut: "drop (length (drop ?k xs) - min DETECTOR_TAIL_BYTES (length (drop ?k xs))) (drop ?k xs) =
      drop (length xs - DETECTOR_TAIL_BYTES) xs" if "length hist \<le> length xs" for xs :: bytes
    using that by (simp add: drop_drop) (metis (no_types, lifting) add.commute diff_diff_left diff_le_mono
        le_add_diff_inverse2 min_def nat_le_linear diff_diff_cancel diff_is_0_eq diff_zero)
  have "drop (length (md_tail d @ chunk) - min DETECTOR_TAIL_BYTES (length (md_tail d @ chunk)))
      (md_tail d @ chunk) = drop (length (hist @ chunk) - DETECTOR_TAIL_BYTES) (hist @ chunk)"
    unfolding w by (rule cut) simp
  then show ?thesis
    using assms by (simp add: tracks_def scan_first_def Let_def)
qed

lemma occurs_in_window:
  assumes "k \<le> length xs"
  shows "occurs_at (drop k xs) p i \<longleftrightarrow> occurs_at xs p (i + k)"
  using assms by (auto simp: occurs_at_slice slice_at_def add.commute)

lemma scan_first_zmodem:
  assumes "tracks d hist" and "chunk \<noteq> []"
  shows "(\<exists>st. fst (scan_first d chunk) = Some st \<and> ds_protocol st = Zmodem) \<longleftrightarrow>
    (\<exists>p\<in>set zmodem_patterns. \<exists>i. occurs_at (hist @ chunk) p i \<and> length hist < i + length p)"
proof -
  let ?k = "length hist - DETECTOR_TAIL_BYTES"
  let ?w = "md_tail d @ chunk" and ?c = "length (md_tail d)"
  have w: "?w = drop ?k (hist @ chunk)" and c: "?c + ?k = length hist"
    using assms(1) by (simp_all add: tracks_def)
  have "(\<exists>st. fst (scan_first d chunk) = Some st \<and> ds_protocol st = Zmodem) \<longleftrightarrow> find_zmodem_start ?w ?c \<noteq> None"
    using assms(2)
    by (auto simp: scan_first_def Let_def find_zmodem_start_def detect_xymodem_start_def split: option.splits)
  also have "\<dots> \<longleftrightarrow> (\<exists>p\<in>set zmodem_patterns. \<exists>i. occurs_at (hist @ chunk) p (i + ?k) \<and> ?c < i + length p)"
    unfolding zmodem_start_None w using occurs_in_window [of ?k "hist @ chunk"] by (simp add: not_le)
  also have "\<dots> \<longleftrightarrow> (\<exists>p\<in>set zmodem_patterns. \<exists>i. occurs_at (hist @ chunk) p i \<and> length hist < i + length p)"
  proof (rule bex_cong [OF refl])
    fix p assume "p \<in> set zmodem_patterns"
    then have "length p \<le> 4" by (auto simp: zmodem_patterns_def)
    then have reach: "?k \<le> i" if "length hist < i + length p" for i
      using that by (simp add: DETECTOR_TAIL_BYTES_def)
    show "(\<exists>i. occurs_at (hist @ chunk) p (i + ?k) \<and> ?c < i + length p) \<longleftrightarrow>
        (\<exists>i. occurs_at (hist @ chunk) p i \<and> length hist < i + length p)" (is "?l \<longleftrightarrow> ?r")
    proof
      assume ?l
      then obtain i where "occurs_at (hist @ chunk) p (i + ?k)" "?c < i + length p" by blast
      then show ?r using c by (intro exI [of _ "i + ?k"]) linarith
    next
      assume ?r
      then obtain i where i: "occurs_at (hist @ chunk) p i" "length hist < i + length p" by blast
      with reach [of i] c have "i - ?k + ?k = i" "?c < i - ?k + length p" by linarith+
      then show ?l using i by (intro exI [of _ "i - ?k"]) simp
    qed
  qed
  finally show ?thesis .
qed

text \<open>Feeding a detector chunk by chunk.\<close>

fun feed :: "modem_detector \<Rightarrow> bytes list \<Rightarrow> modem_detector" where
  "feed d [] = d"
| "feed d (c # cs) = feed (snd (scan_first d c)) cs"

lemma tracks_feed: "tracks d hist \<Longrightarrow> tracks (feed d cs) (hist @ concat cs)"
  by (induction cs arbitrary: d hist) (simp, metis append_assoc concat.simps(2) feed.simps(2) tracks_scan)

text \<open>
  However the stream is cut into chunks, the detector reports a ZMODEM start in exactly
  those chunks in which the last byte of a ZMODEM marker arrives, wherever the marker began.
\<close>

theorem zmodem_start_found_across_chunks:
  assumes "chunk \<noteq> []"
  shows "(\<exists>st. fst (scan_first (feed detector_new chunks) chunk) = Some st \<and> ds_protocol st = Zmodem) \<longleftrightarrow>
    (\<exists>p\<in>set zmodem_patterns. \<exists>i.
       occurs_at (concat chunks @ chunk) p i \<and> length (concat chunks) < i + length p)"
  using scan_first_zmodem [OF tracks_feed [OF tracks_new] assms, of chunks] by simp

theorem zmodem_start_found_across_chunks_witness:
  "\<exists>st. fst (scan_first (feed detector_new [[0x61, ZPAD], [ZPAD, ZDLE]]) [ZHEX, 0x30]) = Some st
     \<and> ds_protocol st = Zmodem"
proof (rule zmodem_start_found_across_chunks [THEN iffD2])
  show "\<exists>p\<in>set zmodem_patterns. \<exists>i. occurs_at (concat [[0x61, ZPAD], [ZPAD, ZDLE]] @ [ZHEX, 0x30]) p i
      \<and> length (concat [[0x61, ZPAD], [ZPAD, ZDLE]]) < i + length p"
    by (intro bexI [of _ "[ZPAD, ZPAD, ZDLE, ZHEX]"] exI [of _ 1])
       (simp_all add: zmodem_patterns_def occurs_at_slice slice_at_def)
qed simp

end
