(* ===== verification/Modem_Stream.thy ===== *)
theory Modem_Stream
  imports Modem_Io
begin

text \<open>
  The buffer between a protocol worker and the terminal transport,
  \<^verbatim>\<open>hapcli-modem-transfer/src/stream.rs\<close>. The state is what the mutex guards; every operation is
  one critical section. A wait on the condition variable is not a step: a blocked write is
  \<^const>\<open>None\<close> and is retried in the state another operation leaves; a read that finds nothing until
  its deadline returns \<^const>\<open>Timeout\<close>. The wake-up callback has no effect on the state.
  The channel interface of the protocol code is interpreted on this buffer, and an inductive
  step relation describes all interleavings of worker, transport and user.
\<close>

definition MODEM_REMOTE_OUTPUT_BUFFER_BYTES :: nat where
  "MODEM_REMOTE_OUTPUT_BUFFER_BYTES = 4 * 1024 * 1024"

definition MODEM_SERVER_WRITE_BUFFER_BYTES :: nat where
  "MODEM_SERVER_WRITE_BUFFER_BYTES = 1024 * 1024"

record modem_transfer =
  mt_remote_output :: bytes
  mt_server_writes :: "bytes list"
  mt_server_write_bytes :: nat
  mt_server_write_in_flight_bytes :: nat
  mt_cancellation_bytes :: bytes
  mt_input_overflow :: bool
  mt_stopped :: bool

definition modem_transfer_new :: "bytes \<Rightarrow> bytes \<Rightarrow> modem_transfer" where
  "modem_transfer_new initial_remote_output cancellation_bytes =
     \<lparr>mt_remote_output = initial_remote_output, mt_server_writes = [], mt_server_write_bytes = 0,
      mt_server_write_in_flight_bytes = 0, mt_cancellation_bytes = cancellation_bytes,
      mt_input_overflow = False, mt_stopped = False\<rparr>"

definition cancel_locked :: "modem_transfer \<Rightarrow> modem_transfer" where
  "cancel_locked s =
     (if mt_stopped s then s
      else
        let queued = sum_list (map length (mt_server_writes s));
            s1 = s\<lparr>mt_stopped := True, mt_remote_output := [], mt_server_writes := [],
                    mt_server_write_bytes := mt_server_write_bytes s - queued\<rparr> in
        if mt_cancellation_bytes s \<noteq> [] then
          s1\<lparr>mt_server_write_bytes := sat_add (mt_server_write_bytes s1) (length (mt_cancellation_bytes s)),
              mt_server_writes := mt_server_writes s1 @ [mt_cancellation_bytes s]\<rparr>
        else s1)"

definition push_remote_output :: "bytes \<Rightarrow> modem_transfer \<Rightarrow> modem_transfer" where
  "push_remote_output bs s =
     (if bs = [] then s
      else if mt_stopped s then s
      else if sat_add (length (mt_remote_output s)) (length bs) > MODEM_REMOTE_OUTPUT_BUFFER_BYTES
      then cancel_locked (s\<lparr>mt_remote_output := [], mt_input_overflow := True\<rparr>)
      else s\<lparr>mt_remote_output := mt_remote_output s @ bs\<rparr>)"

definition take_server_write :: "modem_transfer \<Rightarrow> bytes option \<times> modem_transfer" where
  "take_server_write s =
     (case mt_server_writes s of
        [] \<Rightarrow> (None, s)
      | bs # rest \<Rightarrow>
          (Some bs, s\<lparr>mt_server_writes := rest,
             mt_server_write_in_flight_bytes := sat_add (mt_server_write_in_flight_bytes s) (length bs)\<rparr>))"

definition complete_server_write :: "nat \<Rightarrow> modem_transfer \<Rightarrow> modem_transfer" where
  "complete_server_write n s =
     s\<lparr>mt_server_write_in_flight_bytes := mt_server_write_in_flight_bytes s - n,
        mt_server_write_bytes := mt_server_write_bytes s - n\<rparr>"

definition restore_server_write :: "bytes \<Rightarrow> modem_transfer \<Rightarrow> modem_transfer" where
  "restore_server_write bs s =
     s\<lparr>mt_server_write_in_flight_bytes := mt_server_write_in_flight_bytes s - length bs,
        mt_server_writes := bs # mt_server_writes s\<rparr>"

definition server_writes_drained :: "modem_transfer \<Rightarrow> bool" where
  "server_writes_drained s \<longleftrightarrow>
     mt_server_write_bytes s = 0 \<and> mt_server_write_in_flight_bytes s = 0"

definition drain_remote_output :: "modem_transfer \<Rightarrow> bytes \<times> modem_transfer" where
  "drain_remote_output s = (mt_remote_output s, s\<lparr>mt_remote_output := []\<rparr>)"

definition transfer_stop :: "modem_transfer \<Rightarrow> modem_transfer" where
  "transfer_stop s = cancel_locked s"

definition transfer_read_byte :: "(modem_transfer, transfer_error, u8) chan" where
  "transfer_read_byte s =
     (if mt_input_overflow s then (Err (InputBufferOverflow MODEM_REMOTE_OUTPUT_BUFFER_BYTES), s)
      else if mt_stopped s then (Err Cancelled, s)
      else case mt_remote_output s of
             b # rest \<Rightarrow> (Ok b, s\<lparr>mt_remote_output := rest\<rparr>)
           | [] \<Rightarrow> (Err Timeout, s))"

definition write_has_room :: "bytes \<Rightarrow> modem_transfer \<Rightarrow> bool" where
  "write_has_room bs s \<longleftrightarrow>
     sat_add (mt_server_write_bytes s) (length bs) \<le> MODEM_SERVER_WRITE_BUFFER_BYTES
     \<or> mt_server_write_bytes s = 0 \<and> mt_server_write_in_flight_bytes s = 0"

definition transfer_write_all ::
    "bytes \<Rightarrow> modem_transfer \<Rightarrow> ((transfer_error + unit) \<times> modem_transfer) option" where
  "transfer_write_all bs s =
     (if bs = [] then Some (Ok (), s)
      else if mt_stopped s then Some (Err Cancelled, s)
      else if write_has_room bs s then
        Some (Ok (), s\<lparr>mt_server_write_bytes := sat_add (mt_server_write_bytes s) (length bs),
                       mt_server_writes := mt_server_writes s @ [bs]\<rparr>)
      else None)"

subsection \<open>The channel interface\<close>

interpretation transfer: byte_channel transfer_read_byte "\<lambda>bs s. the (transfer_write_all bs s)"
  mt_remote_output "\<lambda>s. concat (mt_server_writes s)" "\<lambda>s. \<not> mt_stopped s \<and> \<not> mt_input_overflow s"
  "\<lambda>s bs. write_has_room bs s"
  by unfold_locales (auto simp: transfer_read_byte_def transfer_write_all_def)

subsection \<open>All interleavings\<close>

text \<open>
  The environment of the buffer: the terminal pushes remote output, the worker reads and writes,
  the transport takes queued writes and then either completes some of the bytes in flight or
  gives a chunk back, and the user stops the transfer. A chunk completed or restored is one
  that is in flight. No write is larger than \<open>w\<close> bytes.
\<close>

inductive transfer_step :: "nat \<Rightarrow> modem_transfer \<Rightarrow> modem_transfer \<Rightarrow> bool" for w where
  step_push: "transfer_step w s (push_remote_output bs s)"
| step_read: "transfer_step w s (snd (transfer_read_byte s))"
| step_write: "length bs \<le> w \<Longrightarrow> transfer_write_all bs s = Some (r, s') \<Longrightarrow> transfer_step w s s'"
| step_take: "transfer_step w s (snd (take_server_write s))"
| step_complete: "n \<le> mt_server_write_in_flight_bytes s \<Longrightarrow> transfer_step w s (complete_server_write n s)"
| step_restore: "length bs \<le> mt_server_write_in_flight_bytes s \<Longrightarrow> transfer_step w s (restore_server_write bs s)"
| step_drain: "transfer_step w s (snd (drain_remote_output s))"
| step_stop: "transfer_step w s (transfer_stop s)"

inductive_cases transfer_stepE: "transfer_step w s s'"

text \<open>
  The accounting: the byte count is what is queued plus what is in flight; it stays within the
  limit, except for one oversized write and the cancellation sequence.
\<close>

definition transfer_inv :: "nat \<Rightarrow> modem_transfer \<Rightarrow> bool" where
  "transfer_inv w s \<longleftrightarrow>
     mt_server_write_bytes s = sum_list (map length (mt_server_writes s)) + mt_server_write_in_flight_bytes s
   \<and> mt_server_write_bytes s \<le> max MODEM_SERVER_WRITE_BUFFER_BYTES w
       + (if mt_stopped s then length (mt_cancellation_bytes s) else 0)
   \<and> length (mt_remote_output s) \<le> MODEM_REMOTE_OUTPUT_BUFFER_BYTES
   \<and> (mt_input_overflow s \<longrightarrow> mt_stopped s)
   \<and> (mt_stopped s \<longrightarrow> mt_remote_output s = [])"

lemma cancel_locked_inv:
  assumes "transfer_inv w s" and "max MODEM_SERVER_WRITE_BUFFER_BYTES w + length (mt_cancellation_bytes s) \<le> usize_max"
  shows "transfer_inv w (cancel_locked s)"
  using assms by (auto simp: transfer_inv_def cancel_locked_def Let_def sat_add_def)

lemma write_has_room_bound:
  "length bs \<le> w \<Longrightarrow> write_has_room bs s \<Longrightarrow>
     mt_server_write_bytes s + length bs \<le> max MODEM_SERVER_WRITE_BUFFER_BYTES w"
  by (auto simp: write_has_room_def sat_add_def MODEM_SERVER_WRITE_BUFFER_BYTES_def usize_max_def)

lemma transfer_step_cancellation:
  "transfer_step w s s' \<Longrightarrow> mt_cancellation_bytes s' = mt_cancellation_bytes s"
  by (erule transfer_stepE)
     (auto simp: push_remote_output_def transfer_read_byte_def transfer_write_all_def
        take_server_write_def complete_server_write_def restore_server_write_def drain_remote_output_def
        transfer_stop_def cancel_locked_def Let_def split: if_splits list.splits)

lemma transfer_step_inv:
  assumes "transfer_step w s s'" and inv: "transfer_inv w s"
    and room: "max MODEM_SERVER_WRITE_BUFFER_BYTES w + length (mt_cancellation_bytes s) \<le> usize_max"
  shows "transfer_inv w s'"
  using assms(1)
proof cases
  case (step_push bs)
  let ?over = "s\<lparr>mt_remote_output := [], mt_input_overflow := True\<rparr>"
  have over: "transfer_inv w (cancel_locked ?over)" if "\<not> mt_stopped s"
    using inv room that by (auto simp: transfer_inv_def cancel_locked_def Let_def sat_add_def)
  show ?thesis
    using inv over step_push
    by (auto simp: push_remote_output_def transfer_inv_def sat_add_def MODEM_REMOTE_OUTPUT_BUFFER_BYTES_def
        usize_max_def split: if_splits)
next
  case (step_write bs r)
  then show ?thesis
    using inv room write_has_room_bound [OF step_write(1), of s]
    by (auto simp: transfer_write_all_def transfer_inv_def sat_add_def split: if_splits)
next
  case step_stop
  then show ?thesis using cancel_locked_inv [OF inv room] by (simp add: transfer_stop_def)
qed (use inv room in \<open>auto simp: transfer_inv_def transfer_read_byte_def take_server_write_def sat_add_def
       complete_server_write_def restore_server_write_def drain_remote_output_def split: list.splits if_splits\<close>)

lemma transfer_reachable_inv:
  assumes "(transfer_step w)\<^sup>*\<^sup>* (modem_transfer_new initial cancellation) s"
    and "length initial \<le> MODEM_REMOTE_OUTPUT_BUFFER_BYTES"
    and "max MODEM_SERVER_WRITE_BUFFER_BYTES w + length cancellation \<le> usize_max"
  shows "transfer_inv w s \<and> mt_cancellation_bytes s = cancellation"
  using assms(1)
proof (induction rule: rtranclp_induct)
  case base
  show ?case using assms(2) by (simp add: transfer_inv_def modem_transfer_new_def)
next
  case (step s1 s2)
  then show ?case
    using transfer_step_inv [of w s1 s2] transfer_step_cancellation [of w s1 s2] assms(3) by simp
qed

text \<open>
  C24: under every interleaving of worker, transport and user, the buffer's byte count is exactly
  what is queued plus what is in flight and stays within its limit (one oversized write and the
  cancellation sequence apart), the input buffer stays within 4 MiB, and the buffer counts as
  drained exactly when nothing is queued and nothing is in flight.
\<close>

theorem transfer_buffers_bounded:
  assumes "(transfer_step w)\<^sup>*\<^sup>* (modem_transfer_new initial cancellation) s"
    and "length initial \<le> MODEM_REMOTE_OUTPUT_BUFFER_BYTES"
    and "max MODEM_SERVER_WRITE_BUFFER_BYTES w + length cancellation \<le> usize_max"
  shows "mt_server_write_bytes s = length (concat (mt_server_writes s)) + mt_server_write_in_flight_bytes s
    \<and> mt_server_write_bytes s \<le> max MODEM_SERVER_WRITE_BUFFER_BYTES w + length cancellation
    \<and> length (mt_remote_output s) \<le> MODEM_REMOTE_OUTPUT_BUFFER_BYTES
    \<and> (server_writes_drained s \<longleftrightarrow> concat (mt_server_writes s) = [] \<and> mt_server_write_in_flight_bytes s = 0)"
proof -
  have inv: "transfer_inv w s" and c: "mt_cancellation_bytes s = cancellation"
    using transfer_reachable_inv [OF assms] by auto
  then have count: "mt_server_write_bytes s = length (concat (mt_server_writes s)) + mt_server_write_in_flight_bytes s"
    and rest: "mt_server_write_bytes s \<le> max MODEM_SERVER_WRITE_BUFFER_BYTES w + length cancellation"
      "length (mt_remote_output s) \<le> MODEM_REMOTE_OUTPUT_BUFFER_BYTES"
    by (auto simp: transfer_inv_def length_concat split: if_splits)
  then show ?thesis by (simp add: server_writes_drained_def)
qed

theorem transfer_buffers_bounded_witness:
  "let s = push_remote_output [1, 2] (modem_transfer_new [] [0x18]) in
   mt_server_write_bytes s \<le> max MODEM_SERVER_WRITE_BUFFER_BYTES 10 + 1
   \<and> length (mt_remote_output s) \<le> MODEM_REMOTE_OUTPUT_BUFFER_BYTES"
proof -
  have "(transfer_step 10)\<^sup>*\<^sup>* (modem_transfer_new [] [0x18]) (push_remote_output [1, 2] (modem_transfer_new [] [0x18]))"
    by (rule r_into_rtranclp) (rule step_push)
  from transfer_buffers_bounded [OF this] show ?thesis
    by (simp add: MODEM_SERVER_WRITE_BUFFER_BYTES_def usize_max_def)
qed

subsection \<open>Cancellation is final\<close>

lemma stopped_stable: "transfer_step w s s' \<Longrightarrow> mt_stopped s \<Longrightarrow> mt_stopped s'"
  by (erule transfer_stepE)
     (auto simp: push_remote_output_def transfer_read_byte_def transfer_write_all_def
        take_server_write_def complete_server_write_def restore_server_write_def drain_remote_output_def
        transfer_stop_def cancel_locked_def Let_def split: if_splits list.splits)

lemma stopped_reachable: "(transfer_step w)\<^sup>*\<^sup>* s s' \<Longrightarrow> mt_stopped s \<Longrightarrow> mt_stopped s'"
  by (induction rule: rtranclp_induct) (auto dest: stopped_stable)

text \<open>
  Stopping a transfer replaces everything still queued by the cancellation sequence, and
  from then on, whatever else happens, no byte can be read and no byte can be queued by the
  worker.
\<close>

theorem stop_is_final:
  assumes "\<not> mt_stopped s" and "(transfer_step w)\<^sup>*\<^sup>* (transfer_stop s) s'"
  shows "concat (mt_server_writes (transfer_stop s)) = mt_cancellation_bytes s
    \<and> (\<exists>e. transfer_read_byte s' = (Err e, s'))
    \<and> (bs \<noteq> [] \<longrightarrow> transfer_write_all bs s' = Some (Err Cancelled, s'))"
proof -
  have "mt_stopped (transfer_stop s)"
    by (simp add: transfer_stop_def cancel_locked_def Let_def)
  then have "mt_stopped s'" using stopped_reachable [OF assms(2)] by simp
  then show ?thesis
    using assms(1)
    by (auto simp: transfer_stop_def cancel_locked_def Let_def transfer_read_byte_def transfer_write_all_def)
qed

theorem stop_is_final_witness:
  "concat (mt_server_writes (transfer_stop (modem_transfer_new [] [0x18]))) = [0x18]
   \<and> transfer_write_all [1] (transfer_stop (modem_transfer_new [] [0x18])) =
       Some (Err Cancelled, transfer_stop (modem_transfer_new [] [0x18]))"
  using stop_is_final [of "modem_transfer_new [] [0x18]" 1 _ "[1]", OF _ rtranclp.rtrancl_refl]
  by (simp add: modem_transfer_new_def)

end
