(* ===== verification/Modem_Consumer.thy ===== *)
theory Modem_Consumer
  imports Modem_Detector Modem_Stream Zmodem_Stream
begin

text \<open>
  The filter between the transport and the terminal, \<^verbatim>\<open>hapcli-modem-transfer/src/consumer.rs\<close>. It
  masks terminal control strings, looks for modem starts, holds back what may be the beginning
  of one, and hands the stream to a transfer once one starts. A text is the list of its decoded
  characters. The reference-counted transfers live in a store; a handle is an index, so that the
  consumer, the worker and the transport share one state.
\<close>

subsection \<open>Text\<close>

text \<open>\<^verbatim>\<open>str::lines\<close>: cut at line feeds, a carriage return before one dropped, no empty last line.\<close>

definition strip_cr :: "bytes list \<Rightarrow> bytes list" where
  "strip_cr line = (if line \<noteq> [] \<and> last line = [0x0d] then butlast line else line)"

fun lines_from :: "bytes list \<Rightarrow> bytes list \<Rightarrow> bytes list list" where
  "lines_from acc [] = (if acc = [] then [] else [acc])"
| "lines_from acc (c # cs) =
     (if c = [0x0a] then strip_cr acc # lines_from [] cs else lines_from (acc @ [c]) cs)"

definition str_lines :: "bytes list \<Rightarrow> bytes list list" where
  "str_lines cs = lines_from [] cs"

fun tokens_from :: "bytes list \<Rightarrow> bytes list \<Rightarrow> bytes list list" where
  "tokens_from acc [] = (if acc = [] then [] else [acc])"
| "tokens_from acc (c # cs) =
     (if is_whitespace c then (if acc = [] then tokens_from [] cs else acc # tokens_from [] cs)
      else tokens_from (acc @ [c]) cs)"

definition split_whitespace :: "bytes list \<Rightarrow> bytes list list" where
  "split_whitespace cs = tokens_from [] cs"

definition after_last :: "('a \<Rightarrow> bool) \<Rightarrow> 'a list \<Rightarrow> 'a list" where
  "after_last sep cs = rev (takeWhile (\<lambda>c. \<not> sep c) (rev cs))"

definition trim_matches :: "('a \<Rightarrow> bool) \<Rightarrow> 'a list \<Rightarrow> 'a list" where
  "trim_matches p cs = rev (dropWhile p (rev (dropWhile p cs)))"

definition is_ascii_alphanumeric :: "bytes \<Rightarrow> bool" where
  "is_ascii_alphanumeric c = (case c of
       [b] \<Rightarrow> 0x30 \<le> b \<and> b \<le> 0x39 \<or> 0x41 \<le> b \<and> b \<le> 0x5a \<or> 0x61 \<le> b \<and> b \<le> 0x7a
     | _ \<Rightarrow> False)"

subsection \<open>Requests and hints\<close>

definition PLAIN_HISTORY_LIMIT :: nat where
  "PLAIN_HISTORY_LIMIT = 512"

definition XYMODEM_CANCEL_BYTES :: bytes where
  "XYMODEM_CANCEL_BYTES = replicate 8 CAN"

definition ZMODEM_CANCEL_BYTES :: bytes where
  "ZMODEM_CANCEL_BYTES = replicate 8 ZDLE @ replicate 8 0x08"

datatype modem_transfer_direction = Upload | Download

record modem_transfer_request =
  mr_protocol :: detected_modem_protocol
  mr_direction :: modem_transfer_direction

datatype modem_consumer_event =
    WriteTerminal bytes
  | SendServer bytes
  | TransferStarted modem_transfer_request
  | TransferDataQueued
  | TransferCancelRequested

definition is_shell_prompt_token :: "bytes list \<Rightarrow> bool" where
  "is_shell_prompt_token token \<longleftrightarrow>
     token = [[0x50], [0x53]]
     \<or> token \<noteq> [] \<and> last token \<in> {[0x24], [0x23], [0x3e], [0x25]}"

definition command_of_token :: "bytes list \<Rightarrow> bytes" where
  "command_of_token token =
     concat (trim_matches (\<lambda>ch. \<not> is_ascii_alphanumeric ch \<and> ch \<noteq> [0x2d] \<and> ch \<noteq> [0x5f])
       (after_last (\<lambda>ch. ch = [0x2f] \<or> ch = [0x5c]) token))"

definition command_request ::
    "bytes \<Rightarrow> (detected_modem_protocol \<times> modem_transfer_direction) option" where
  "command_request command =
     (if command \<in> {[0x72, 0x78], [0x6c, 0x72, 0x78]} then Some (Xmodem, Upload)
      else if command \<in> {[0x72, 0x62], [0x72, 0x79], [0x6c, 0x72, 0x62], [0x6c, 0x72, 0x79]}
      then Some (Ymodem, Upload)
      else if command \<in> {[0x73, 0x78], [0x6c, 0x73, 0x78]} then Some (Xmodem, Download)
      else if command \<in> {[0x73, 0x62], [0x73, 0x79], [0x6c, 0x73, 0x62], [0x6c, 0x73, 0x79]}
      then Some (Ymodem, Download)
      else None)"

fun hint_of_tokens ::
    "bytes list list \<Rightarrow> (detected_modem_protocol \<times> modem_transfer_direction) option" where
  "hint_of_tokens [] = None"
| "hint_of_tokens (token # tokens) =
     (case command_request (command_of_token token) of
        Some request \<Rightarrow> Some request
      | None \<Rightarrow> if \<not> is_shell_prompt_token token then None else hint_of_tokens tokens)"

definition xymodem_command_hint ::
    "bytes list \<Rightarrow> (detected_modem_protocol \<times> modem_transfer_direction) option" where
  "xymodem_command_hint line = hint_of_tokens (split_whitespace line)"

definition xymodem_negotiation_protocol_hint :: "bytes \<Rightarrow> detected_modem_protocol option" where
  "xymodem_negotiation_protocol_hint plain_history =
     (case List.map_filter (\<lambda>line. case xymodem_command_hint line of
              Some (protocol, Upload) \<Rightarrow> Some protocol | _ \<Rightarrow> None)
            (take 4 (rev (str_lines (lossy_chars plain_history)))) of
        [] \<Rightarrow> None
      | protocol # _ \<Rightarrow> Some protocol)"

definition xymodem_download_request :: "bytes \<Rightarrow> modem_transfer_request option" where
  "xymodem_download_request plain_history =
     (if plain_history = [] \<or> (last plain_history \<noteq> 0x0d \<and> last plain_history \<noteq> 0x0a) then None
      else case rev (str_lines (lossy_chars plain_history)) of
        [] \<Rightarrow> None
      | line # _ \<Rightarrow>
          (case xymodem_command_hint line of
             Some (protocol, Download) \<Rightarrow> Some \<lparr>mr_protocol = protocol, mr_direction = Download\<rparr>
           | _ \<Rightarrow> None))"

definition header_of_prefix :: "bytes \<Rightarrow> z_header option" where
  "header_of_prefix bs = (case parse_zmodem_header_prefix bs of Inr (Some h) \<Rightarrow> Some h | _ \<Rightarrow> None)"

definition request_for_protocol ::
    "detected_modem_protocol \<Rightarrow> bytes \<Rightarrow> bytes \<Rightarrow> modem_transfer_request option" where
  "request_for_protocol protocol bs plain_history =
     (case protocol of
        Zmodem \<Rightarrow>
          (case header_of_prefix bs of
             None \<Rightarrow> None
           | Some header \<Rightarrow>
               if zh_frame_type header = ZrInit
               then Some \<lparr>mr_protocol = protocol, mr_direction = Upload\<rparr>
               else if zh_frame_type header \<in> {ZrqInit, ZFile, ZData}
               then Some \<lparr>mr_protocol = protocol, mr_direction = Download\<rparr>
               else None)
      | XymodemNegotiation \<Rightarrow>
          map_option (\<lambda>p. \<lparr>mr_protocol = p, mr_direction = Upload\<rparr>)
            (xymodem_negotiation_protocol_hint plain_history)
      | Xmodem \<Rightarrow> Some \<lparr>mr_protocol = protocol, mr_direction = Download\<rparr>
      | Ymodem \<Rightarrow> Some \<lparr>mr_protocol = protocol, mr_direction = Download\<rparr>)"

definition should_wait_for_protocol_confirmation :: "detected_modem_protocol \<Rightarrow> bytes \<Rightarrow> bool" where
  "should_wait_for_protocol_confirmation protocol bs \<longleftrightarrow>
     protocol = Zmodem \<and> parse_zmodem_header_prefix bs = Ok None"

definition zmodem_control_prefix_len :: "detected_modem_protocol \<Rightarrow> bytes \<Rightarrow> nat option" where
  "zmodem_control_prefix_len protocol bs =
     (if protocol \<noteq> Zmodem then None
      else case header_of_prefix bs of
        None \<Rightarrow> None
      | Some header \<Rightarrow>
          if zh_frame_type header \<in> {ZrInit, ZrqInit, ZFile, ZData} then None
          else
            let encoded = (\<lambda>include_xon.
                  encode_hex_header (zh_frame_type header) (zh_position header) include_xon) in
            if take (length (encoded False)) bs = encoded False then Some (length (encoded False))
            else if take (length (encoded True)) bs = encoded True then Some (length (encoded True))
            else None)"

definition ends_with :: "bytes \<Rightarrow> bytes \<Rightarrow> bool" where
  "ends_with bs sfx \<longleftrightarrow> length sfx \<le> length bs \<and> drop (length bs - length sfx) bs = sfx"

definition possible_modem_prefix_suffix_len :: "bytes \<Rightarrow> nat" where
  "possible_modem_prefix_suffix_len bs =
     foldl max 0 (map length (filter (ends_with bs)
       [[ZPAD], [ZPAD, ZPAD], [ZPAD, ZPAD, ZDLE], [ZPAD, ZDLE], [SOH], [STX]]))"

subsection \<open>Masking of control strings\<close>

datatype terminal_control_string_kind = Osc | Dcs | Apc

datatype modem_detection_scope =
    Ground
  | Escape
  | ControlString terminal_control_string_kind bool

abbreviation MASKED_BYTE :: u8 where "MASKED_BYTE \<equiv> 0x20"

fun mask_step :: "modem_detection_scope \<Rightarrow> u8 \<Rightarrow> u8 \<times> modem_detection_scope" where
  "mask_step Ground b =
     (if b = 0x1b then (MASKED_BYTE, Escape)
      else if b = 0x90 then (MASKED_BYTE, ControlString Dcs False)
      else if b = 0x9d then (MASKED_BYTE, ControlString Osc False)
      else if b = 0x9f then (MASKED_BYTE, ControlString Apc False)
      else (b, Ground))"
| "mask_step Escape b =
     (if b = 0x5d then (MASKED_BYTE, ControlString Osc False)
      else if b = 0x50 then (MASKED_BYTE, ControlString Dcs False)
      else if b = 0x5f then (MASKED_BYTE, ControlString Apc False)
      else if b = 0x1b then (MASKED_BYTE, Escape)
      else (b, Ground))"
| "mask_step (ControlString kind escape_pending) b =
     (MASKED_BYTE,
      if kind = Osc \<and> b = 0x07 \<or> b = 0x9c \<or> escape_pending \<and> b = 0x5c then Ground
      else ControlString kind (b = 0x1b))"

fun mask_control_strings ::
    "modem_detection_scope \<Rightarrow> bytes \<Rightarrow> bytes \<times> modem_detection_scope" where
  "mask_control_strings scope [] = ([], scope)"
| "mask_control_strings scope (b # bs) =
     (let (m, scope') = mask_step scope b; (ms, scope'') = mask_control_strings scope' bs in
      (m # ms, scope''))"

lemma length_mask [simp]: "length (fst (mask_control_strings scope bs)) = length bs"
  by (induction bs arbitrary: scope) (simp_all add: case_prod_unfold Let_def)

lemma mask_append:
  "fst (mask_control_strings scope (xs @ ys)) =
     fst (mask_control_strings scope xs) @ fst (mask_control_strings (snd (mask_control_strings scope xs)) ys)"
  "snd (mask_control_strings scope (xs @ ys)) =
     snd (mask_control_strings (snd (mask_control_strings scope xs)) ys)"
  by (induction xs arbitrary: scope) (simp_all add: case_prod_unfold Let_def)

subsection \<open>The consumer\<close>

record pending_transfer =
  pt_protocol :: detected_modem_protocol
  pt_bytes :: bytes

record modem_consumer =
  mc_plain_tail :: bytes
  mc_detection_tail :: bytes
  mc_plain_history :: bytes
  mc_detection_scope :: modem_detection_scope
  mc_pending :: "pending_transfer option"
  mc_transfer :: "nat option"
  mc_transfer_input :: "nat option"

type_synonym transfer_store = "modem_transfer list"

definition consumer_new :: modem_consumer where
  "consumer_new = \<lparr>mc_plain_tail = [], mc_detection_tail = [], mc_plain_history = [],
     mc_detection_scope = Ground, mc_pending = None, mc_transfer = None, mc_transfer_input = None\<rparr>"

definition take_active_transfer :: "modem_consumer \<Rightarrow> nat option \<times> modem_consumer" where
  "take_active_transfer c = (mc_transfer c, c\<lparr>mc_transfer := None\<rparr>)"

definition remember_plain_output :: "bytes \<Rightarrow> modem_consumer \<Rightarrow> modem_consumer" where
  "remember_plain_output bs c =
     (if bs = [] then c
      else
        let history = mc_plain_history c @ bs in
        c\<lparr>mc_plain_history :=
             (if length history > PLAIN_HISTORY_LIMIT
              then drop (length history - PLAIN_HISTORY_LIMIT) history else history)\<rparr>)"

definition start_transfer ::
    "bytes \<Rightarrow> modem_transfer_request \<Rightarrow> modem_consumer \<Rightarrow> transfer_store
       \<Rightarrow> nat \<times> modem_consumer \<times> transfer_store" where
  "start_transfer initial_bytes request c store =
     (let cancellation_bytes = (if mr_protocol request = Zmodem then ZMODEM_CANCEL_BYTES
                                else XYMODEM_CANCEL_BYTES);
          transfer = length store in
      (transfer,
       c\<lparr>mc_transfer_input := Some transfer, mc_transfer := Some transfer, mc_plain_history := []\<rparr>,
       store @ [modem_transfer_new initial_bytes cancellation_bytes]))"

definition start_manual_transfer ::
    "modem_transfer_request \<Rightarrow> modem_consumer \<Rightarrow> transfer_store
       \<Rightarrow> nat option \<times> modem_consumer \<times> transfer_store" where
  "start_manual_transfer request c store =
     (if mc_transfer c \<noteq> None then (None, c, store)
      else let (t, c', store') = start_transfer [] request c store in (Some t, c', store'))"

definition finish_transfer ::
    "modem_consumer \<Rightarrow> transfer_store \<Rightarrow> bytes \<times> modem_consumer \<times> transfer_store" where
  "finish_transfer c store =
     (let (trailing_output, store') = (case mc_transfer_input c of
             Some t \<Rightarrow> (let (out, t') = drain_remote_output (store ! t) in (out, store[t := t']))
           | None \<Rightarrow> ([], store)) in
      (trailing_output,
       c\<lparr>mc_transfer := None, mc_transfer_input := None, mc_pending := None, mc_plain_tail := [],
          mc_detection_tail := [], mc_plain_history := [], mc_detection_scope := Ground\<rparr>,
       store'))"

definition stop_handle :: "nat option \<Rightarrow> transfer_store \<Rightarrow> transfer_store" where
  "stop_handle h store = (case h of Some t \<Rightarrow> store[t := transfer_stop (store ! t)] | None \<Rightarrow> store)"

definition interrupt_transfer :: "modem_consumer \<Rightarrow> transfer_store \<Rightarrow> transfer_store" where
  "interrupt_transfer c store = stop_handle (mc_transfer_input c) (stop_handle (mc_transfer c) store)"

definition process_pending_server_output ::
    "pending_transfer \<Rightarrow> bytes \<Rightarrow> modem_consumer \<Rightarrow> transfer_store
       \<Rightarrow> modem_consumer_event list \<times> modem_consumer \<times> transfer_store" where
  "process_pending_server_output pending0 bs c0 store =
     (let c = c0\<lparr>mc_pending := None\<rparr>;
          pending = pending0\<lparr>pt_bytes := pt_bytes pending0 @ bs\<rparr> in
      case request_for_protocol (pt_protocol pending) (pt_bytes pending) (mc_plain_history c) of
        Some request \<Rightarrow>
          (let (_, c', store') = start_transfer (pt_bytes pending) request c store in
           ([TransferStarted request], c', store'))
      | None \<Rightarrow>
          if should_wait_for_protocol_confirmation (pt_protocol pending) (pt_bytes pending)
          then ([], c\<lparr>mc_pending := Some pending\<rparr>, store)
          else case zmodem_control_prefix_len (pt_protocol pending) (pt_bytes pending) of
            Some control_len \<Rightarrow>
              (let remaining = drop control_len (pt_bytes pending) in
               (if remaining \<noteq> [] then [WriteTerminal remaining] else [],
                remember_plain_output remaining c, store))
          | None \<Rightarrow>
              ([WriteTerminal (pt_bytes pending)], remember_plain_output (pt_bytes pending) c, store))"

text \<open>The branch of \<open>process_server_output\<close> in which a modem start was found.\<close>

definition process_start ::
    "detected_modem_start \<Rightarrow> bytes \<Rightarrow> bytes \<Rightarrow> modem_consumer \<Rightarrow> transfer_store
       \<Rightarrow> modem_consumer_event list \<times> modem_consumer \<times> transfer_store" where
  "process_start start scan_bytes detection_bytes c0 store =
     (let offset = ds_offset start;
          c = (if offset > 0 then remember_plain_output (take offset detection_bytes) c0 else c0);
          events = (if offset > 0 then [WriteTerminal (take offset scan_bytes)] else []);
          protocol_bytes = drop offset scan_bytes in
      case request_for_protocol (ds_protocol start) protocol_bytes (mc_plain_history c) of
        Some request \<Rightarrow>
          (let (_, c', store') = start_transfer protocol_bytes request c store in
           (events @ [TransferStarted request], c', store'))
      | None \<Rightarrow>
          if should_wait_for_protocol_confirmation (ds_protocol start) protocol_bytes
          then (events, c\<lparr>mc_pending := Some \<lparr>pt_protocol = ds_protocol start, pt_bytes = protocol_bytes\<rparr>\<rparr>, store)
          else case zmodem_control_prefix_len (ds_protocol start) protocol_bytes of
            Some control_len \<Rightarrow>
              (let remaining = drop control_len protocol_bytes in
               if remaining \<noteq> []
               then (events @ [WriteTerminal remaining], remember_plain_output remaining c, store)
               else (events, c, store))
          | None \<Rightarrow>
              (events @ [WriteTerminal protocol_bytes], remember_plain_output protocol_bytes c, store))"

text \<open>The branch in which none was found.\<close>

definition process_plain ::
    "bytes \<Rightarrow> bytes \<Rightarrow> modem_consumer \<Rightarrow> transfer_store
       \<Rightarrow> modem_consumer_event list \<times> modem_consumer \<times> transfer_store" where
  "process_plain scan_bytes detection_bytes c store =
     (let hold = possible_modem_prefix_suffix_len detection_bytes in
      if hold = length scan_bytes
      then ([], c\<lparr>mc_plain_tail := scan_bytes, mc_detection_tail := detection_bytes\<rparr>, store)
      else
        let split = length scan_bytes - hold;
            c1 = remember_plain_output (take split detection_bytes)
                   (c\<lparr>mc_plain_tail := drop split scan_bytes,
                       mc_detection_tail := drop split detection_bytes\<rparr>);
            events = [WriteTerminal (take split scan_bytes)] in
        case xymodem_download_request (mc_plain_history c1) of
          Some request \<Rightarrow>
            (let (_, c2, store') = start_transfer [] request c1 store in
             (events @ [TransferStarted request], c2, store'))
        | None \<Rightarrow> (events, c1, store))"

definition process_server_output ::
    "bytes \<Rightarrow> modem_consumer \<Rightarrow> transfer_store
       \<Rightarrow> modem_consumer_event list \<times> modem_consumer \<times> transfer_store" where
  "process_server_output bs c store =
     (if bs = [] then ([], c, store)
      else case mc_transfer_input c of
        Some t \<Rightarrow> ([TransferDataQueued], c, store[t := push_remote_output bs (store ! t)])
      | None \<Rightarrow>
          (case mc_pending c of
             Some pending \<Rightarrow> process_pending_server_output pending bs c store
           | None \<Rightarrow>
               (let (masked_bytes, scope') = mask_control_strings (mc_detection_scope c) bs;
                    scan_bytes = mc_plain_tail c @ bs;
                    detection_bytes = mc_detection_tail c @ masked_bytes;
                    c1 = c\<lparr>mc_detection_scope := scope', mc_plain_tail := [], mc_detection_tail := []\<rparr> in
                case fst (scan_first detector_new detection_bytes) of
                  None \<Rightarrow> process_plain scan_bytes detection_bytes c1 store
                | Some start \<Rightarrow> process_start start scan_bytes detection_bytes c1 store)))"

subsection \<open>Invariant\<close>

definition consumer_inv :: "modem_consumer \<Rightarrow> transfer_store \<Rightarrow> bool" where
  "consumer_inv c store \<longleftrightarrow>
     length (mc_detection_tail c) = length (mc_plain_tail c) \<and> length (mc_plain_tail c) \<le> 3
   \<and> length (mc_plain_history c) \<le> PLAIN_HISTORY_LIMIT
   \<and> (mc_pending c \<noteq> None \<longrightarrow> mc_plain_tail c = [])
   \<and> (\<forall>t. mc_transfer_input c = Some t \<longrightarrow> t < length store)
   \<and> (\<forall>t. mc_transfer c = Some t \<longrightarrow> t < length store)"

lemma hold_bound: "possible_modem_prefix_suffix_len bs \<le> 3"
  by (simp add: possible_modem_prefix_suffix_len_def)

lemma hold_within: "possible_modem_prefix_suffix_len bs \<le> length bs"
  by (simp add: possible_modem_prefix_suffix_len_def ends_with_def)

lemma remember_fields [simp]:
  "mc_plain_tail (remember_plain_output bs c) = mc_plain_tail c"
  "mc_detection_tail (remember_plain_output bs c) = mc_detection_tail c"
  "mc_pending (remember_plain_output bs c) = mc_pending c"
  "mc_transfer (remember_plain_output bs c) = mc_transfer c"
  "mc_transfer_input (remember_plain_output bs c) = mc_transfer_input c"
  by (simp_all add: remember_plain_output_def Let_def)

lemma remember_bound:
  "length (mc_plain_history c) \<le> PLAIN_HISTORY_LIMIT \<Longrightarrow>
   length (mc_plain_history (remember_plain_output bs c)) \<le> PLAIN_HISTORY_LIMIT"
  by (simp add: remember_plain_output_def Let_def del: drop_append)

lemma process_pending_inv:
  assumes "process_pending_server_output p bs c store = (ev, c', store')" and "consumer_inv c store"
    and "mc_pending c = Some p"
  shows "consumer_inv c' store'"
  using assms
  by (auto simp: process_pending_server_output_def consumer_inv_def Let_def start_transfer_def remember_bound
      split: option.splits if_splits)

lemma process_plain_inv:
  assumes "process_plain sb db c store = (ev, c', store')" and "consumer_inv c store"
    and "length sb = length db" and "mc_pending c = None"
  shows "consumer_inv c' store'"
  using assms hold_bound [of db] hold_within [of db]
  by (auto simp: process_plain_def consumer_inv_def Let_def start_transfer_def remember_bound
      split: option.splits if_splits)

lemma process_start_inv:
  assumes "process_start st sb db c store = (ev, c', store')" and "consumer_inv c store"
    and "mc_plain_tail c = []"
  shows "consumer_inv c' store'"
  using assms
  by (auto simp: process_start_def consumer_inv_def Let_def start_transfer_def remember_bound
      split: option.splits if_splits)

lemma process_server_output_inv:
  assumes run: "process_server_output bs c store = (ev, c', store')" and inv: "consumer_inv c store"
  shows "consumer_inv c' store'"
proof (cases "bs = [] \<or> mc_transfer_input c \<noteq> None \<or> mc_pending c \<noteq> None")
  case True
  then show ?thesis
    using run inv process_pending_inv [of _ bs c store ev c' store']
    by (auto simp: process_server_output_def consumer_inv_def split: if_splits option.splits)
next
  case False
  let ?m = "mask_control_strings (mc_detection_scope c) bs"
  let ?sb = "mc_plain_tail c @ bs" and ?db = "mc_detection_tail c @ fst ?m"
  let ?c1 = "c\<lparr>mc_detection_scope := snd ?m, mc_plain_tail := [], mc_detection_tail := []\<rparr>"
  have c1: "consumer_inv ?c1 store" "mc_pending ?c1 = None" "length ?sb = length ?db"
    using inv False by (auto simp: consumer_inv_def)
  show ?thesis
    using run False process_plain_inv [OF _ c1(1,3,2), of ev c' store'] process_start_inv [OF _ c1(1), of _ ?sb ?db ev c' store']
    by (auto simp: process_server_output_def case_prod_unfold Let_def split: option.splits)
qed

lemma start_manual_inv:
  "start_manual_transfer req c store = (r, c', store') \<Longrightarrow> consumer_inv c store \<Longrightarrow> consumer_inv c' store'"
  by (auto simp: start_manual_transfer_def start_transfer_def consumer_inv_def Let_def split: if_splits)

lemma finish_inv:
  "finish_transfer c store = (r, c', store') \<Longrightarrow> consumer_inv c store \<Longrightarrow> consumer_inv c' store'"
  by (auto simp: finish_transfer_def consumer_inv_def Let_def case_prod_unfold split: option.splits)

lemma interrupt_inv: "consumer_inv c store \<Longrightarrow> consumer_inv c (interrupt_transfer c store)"
  by (auto simp: interrupt_transfer_def stop_handle_def consumer_inv_def split: option.splits)

lemma take_active_inv:
  "take_active_transfer c = (r, c') \<Longrightarrow> consumer_inv c store \<Longrightarrow> consumer_inv c' store"
  by (auto simp: take_active_transfer_def consumer_inv_def)

subsection \<open>No byte is lost on the way to the terminal\<close>

definition held :: "modem_consumer \<Rightarrow> bytes" where
  "held c = (case mc_pending c of Some p \<Rightarrow> pt_bytes p | None \<Rightarrow> mc_plain_tail c)"

fun terminal_bytes :: "modem_consumer_event list \<Rightarrow> bytes" where
  "terminal_bytes [] = []"
| "terminal_bytes (WriteTerminal bs # evs) = bs @ terminal_bytes evs"
| "terminal_bytes (_ # evs) = terminal_bytes evs"

definition handed_over :: "modem_consumer \<Rightarrow> transfer_store \<Rightarrow> bytes" where
  "handed_over c store = (case mc_transfer_input c of Some t \<Rightarrow> mt_remote_output (store ! t) | None \<Rightarrow> [])"

text \<open>A ZMODEM header, in hexadecimal form, that starts no transfer.\<close>

definition is_control_header :: "bytes \<Rightarrow> bool" where
  "is_control_header bs \<longleftrightarrow> (\<exists>t pos xon. t \<notin> {ZrInit, ZrqInit, ZFile, ZData} \<and> bs = encode_hex_header t pos xon)"

definition accounted ::
    "bytes \<Rightarrow> modem_consumer_event list \<Rightarrow> modem_consumer \<Rightarrow> transfer_store \<Rightarrow> bool" where
  "accounted bs ev c store \<longleftrightarrow>
     (\<exists>shown1 control shown2. bs = shown1 @ control @ shown2 @ handed_over c store @ held c
        \<and> terminal_bytes ev = shown1 @ shown2 \<and> (control = [] \<or> is_control_header control))"

lemma control_headerI:
  "t \<notin> {ZrInit, ZrqInit, ZFile, ZData} \<Longrightarrow> is_control_header (encode_hex_header t pos xon)"
  unfolding is_control_header_def by blast

lemma control_prefix_split:
  assumes "zmodem_control_prefix_len p bs = Some n"
  shows "is_control_header (take n bs)"
  using assms
  by (auto simp: zmodem_control_prefix_len_def Let_def split: if_splits option.splits
      intro: control_headerI)

lemma accounted_shown:
  "handed_over c store = [] \<Longrightarrow> held c = [] \<Longrightarrow> terminal_bytes ev = bs \<Longrightarrow> accounted bs ev c store"
  unfolding accounted_def by (rule exI [of _ bs]) (rule exI [of _ "[]"], rule exI [of _ "[]"], simp)

lemma accounted_kept:
  "bs = shown @ handed_over c store @ held c \<Longrightarrow> terminal_bytes ev = shown \<Longrightarrow> accounted bs ev c store"
  unfolding accounted_def by (rule exI [of _ shown]) (rule exI [of _ "[]"], rule exI [of _ "[]"], simp)

lemma accounted_control:
  "bs = shown1 @ control @ shown2 \<Longrightarrow> is_control_header control \<Longrightarrow> handed_over c store = [] \<Longrightarrow>
   held c = [] \<Longrightarrow> terminal_bytes ev = shown1 @ shown2 \<Longrightarrow> accounted bs ev c store"
  unfolding accounted_def by (rule exI [of _ shown1]) (rule exI [of _ control], rule exI [of _ shown2], simp)

lemmas start_fields = start_transfer_def handed_over_def held_def modem_transfer_new_def

lemma process_pending_accounted:
  assumes run: "process_pending_server_output p bs c store = (ev, c', store')" and "mc_pending c = Some p"
    and "mc_plain_tail c = []" and "mc_transfer_input c = None"
  shows "accounted (pt_bytes p @ bs) ev c' store'"
proof -
  define all where "all = pt_bytes p @ bs"
  note run1 = run [unfolded process_pending_server_output_def Let_def, simplified, folded all_def]
  consider (req) r where "request_for_protocol (pt_protocol p) all (mc_plain_history c) = Some r"
    | (waiting) "request_for_protocol (pt_protocol p) all (mc_plain_history c) = None"
        "should_wait_for_protocol_confirmation (pt_protocol p) all"
    | (ctl) n where "request_for_protocol (pt_protocol p) all (mc_plain_history c) = None"
        "\<not> should_wait_for_protocol_confirmation (pt_protocol p) all"
        "zmodem_control_prefix_len (pt_protocol p) all = Some n"
    | (plain) "request_for_protocol (pt_protocol p) all (mc_plain_history c) = None"
        "\<not> should_wait_for_protocol_confirmation (pt_protocol p) all"
        "zmodem_control_prefix_len (pt_protocol p) all = None"
    by fastforce
  then have "accounted all ev c' store'"
  proof cases
    case req
    then show ?thesis
      using run1 assms(2-) by (intro accounted_kept [where shown = "[]"]) (auto simp: start_fields Let_def all_def)
  next
    case waiting
    then show ?thesis
      using run1 assms(2-) by (intro accounted_kept [where shown = "[]"])
        (auto simp: handed_over_def held_def all_def)
  next
    case ctl
    have "is_control_header (take n all)" "all = take n all @ drop n all"
      using control_prefix_split [OF ctl(3)] by simp_all
    then show ?thesis
      using run1 ctl assms(2-)
      by (intro accounted_control [where ?shown1.0 = "[]" and control = "take n all" and ?shown2.0 = "drop n all"])
         (auto simp: handed_over_def held_def)
  next
    case plain
    then show ?thesis
      using run1 assms(2-) by (intro accounted_shown) (auto simp: handed_over_def held_def)
  qed
  then show ?thesis by (simp add: all_def)
qed

lemma process_plain_accounted:
  assumes "process_plain sb db c store = (ev, c', store')" and "mc_pending c = None"
    and "mc_transfer_input c = None"
  shows "accounted sb ev c' store'"
proof (cases "possible_modem_prefix_suffix_len db = length sb")
  case True
  then show ?thesis
    using assms by (intro accounted_kept [where shown = "[]"])
      (auto simp: process_plain_def handed_over_def held_def Let_def)
next
  case False
  then show ?thesis
    using assms
    by (intro accounted_kept [where shown = "take (length sb - possible_modem_prefix_suffix_len db) sb"])
       (auto simp: process_plain_def start_fields Let_def split: option.splits)
qed

lemma process_start_accounted:
  assumes run: "process_start st sb db c store = (ev, c', store')" and "mc_pending c = None"
    and "mc_plain_tail c = []" and "mc_transfer_input c = None"
  shows "accounted sb ev c' store'"
proof -
  define pre where "pre = take (ds_offset st) sb"
  define rest where "rest = drop (ds_offset st) sb"
  have sb: "sb = pre @ rest" by (simp add: pre_def rest_def)
  define c1 where "c1 = (if ds_offset st > 0 then remember_plain_output (take (ds_offset st) db) c else c)"
  define e where "e = (if ds_offset st > 0 then [WriteTerminal pre] else [])"
  have e: "terminal_bytes (e @ evs) = pre @ terminal_bytes evs" for evs
    by (simp add: e_def pre_def)
  have c1: "mc_pending c1 = None" "mc_plain_tail c1 = []" "mc_transfer_input c1 = None"
    using assms(2-) by (simp_all add: c1_def)
  note run1 = run [unfolded process_start_def Let_def, folded pre_def rest_def, folded c1_def, folded e_def]
  consider (req) r where "request_for_protocol (ds_protocol st) rest (mc_plain_history c1) = Some r"
    | (waiting) "request_for_protocol (ds_protocol st) rest (mc_plain_history c1) = None"
        "should_wait_for_protocol_confirmation (ds_protocol st) rest"
    | (ctl) n where "request_for_protocol (ds_protocol st) rest (mc_plain_history c1) = None"
        "\<not> should_wait_for_protocol_confirmation (ds_protocol st) rest"
        "zmodem_control_prefix_len (ds_protocol st) rest = Some n"
    | (plain) "request_for_protocol (ds_protocol st) rest (mc_plain_history c1) = None"
        "\<not> should_wait_for_protocol_confirmation (ds_protocol st) rest"
        "zmodem_control_prefix_len (ds_protocol st) rest = None"
    by fastforce
  then show ?thesis
  proof cases
    case req
    then show ?thesis
      using run1 c1 sb e by (intro accounted_kept [where shown = pre]) (auto simp: start_fields Let_def)
  next
    case waiting
    then show ?thesis
      using run1 c1 sb e [of "[]"] by (intro accounted_kept [where shown = pre])
        (auto simp: handed_over_def held_def)
  next
    case ctl
    have "is_control_header (take n rest)" "rest = take n rest @ drop n rest"
      using control_prefix_split [OF ctl(3)] by simp_all
    then show ?thesis
      using run1 ctl c1 sb e e [of "[]"]
      by (intro accounted_control [where ?shown1.0 = pre and control = "take n rest" and ?shown2.0 = "drop n rest"])
         (auto simp: handed_over_def held_def split: if_splits)
  next
    case plain
    then show ?thesis
      using run1 c1 sb e by (intro accounted_shown) (auto simp: handed_over_def held_def)
  qed
qed

text \<open>
  C6: until a transfer is attached, the filter loses no terminal output. What was held back
  together with a new chunk is, in order, what is shown on the terminal, what is handed to a
  transfer that starts, and what is still held back; the only bytes dropped are those of one
  ZMODEM control header of an earlier session.
\<close>

theorem consumer_accounts_for_every_byte:
  assumes run: "process_server_output bs c store = (ev, c', store')"
    and inv: "consumer_inv c store" and idle: "mc_transfer_input c = None"
  shows "accounted (held c @ bs) ev c' store'"
proof (cases "bs = [] \<or> mc_pending c \<noteq> None")
  case True
  show ?thesis
  proof (cases "bs = []")
    case True
    then show ?thesis
      using run idle
      by (intro accounted_kept [where shown = "[]"]) (auto simp: process_server_output_def handed_over_def)
  next
    case False
    with True obtain p where p: "mc_pending c = Some p" by auto
    then show ?thesis
      using run False idle inv process_pending_accounted [of p bs c store ev c' store']
      by (simp add: process_server_output_def held_def consumer_inv_def)
  qed
next
  case False
  let ?m = "mask_control_strings (mc_detection_scope c) bs"
  let ?sb = "mc_plain_tail c @ bs" and ?db = "mc_detection_tail c @ fst ?m"
  let ?c1 = "c\<lparr>mc_detection_scope := snd ?m, mc_plain_tail := [], mc_detection_tail := []\<rparr>"
  have c1: "mc_pending ?c1 = None" "mc_plain_tail ?c1 = []" "mc_transfer_input ?c1 = None" "held c @ bs = ?sb"
    using False idle by (simp_all add: held_def)
  show ?thesis
    unfolding c1(4)
    using run False idle process_plain_accounted [of ?sb ?db ?c1 store ev c' store']
      process_start_accounted [of _ ?sb ?db ?c1 store ev c' store'] c1(1-3)
    by (auto simp: process_server_output_def case_prod_unfold Let_def split: option.splits)
qed

theorem consumer_accounts_for_every_byte_witness:
  "accounted ([] @ [0x61, ZPAD]) [WriteTerminal [0x61]]
     (consumer_new\<lparr>mc_plain_tail := [ZPAD], mc_detection_tail := [ZPAD], mc_plain_history := [0x61]\<rparr>) []"
proof -
  have run: "process_server_output [0x61, ZPAD] consumer_new [] = ([WriteTerminal [0x61]],
      consumer_new\<lparr>mc_plain_tail := [ZPAD], mc_detection_tail := [ZPAD], mc_plain_history := [0x61]\<rparr>, [])"
    by code_simp
  have "consumer_inv consumer_new []" by (simp add: consumer_inv_def consumer_new_def)
  from consumer_accounts_for_every_byte [OF run this] show ?thesis
    by (simp add: consumer_new_def held_def)
qed

subsection \<open>Reachable states\<close>

text \<open>
  The consumer's operations, and any change that the worker or the transport makes to a shared
  transfer in between.
\<close>

inductive consumer_step ::
    "modem_consumer \<times> transfer_store \<Rightarrow> modem_consumer \<times> transfer_store \<Rightarrow> bool" where
  step_output: "process_server_output bs c st = (ev, c', st') \<Longrightarrow> consumer_step (c, st) (c', st')"
| step_manual: "start_manual_transfer req c st = (r, c', st') \<Longrightarrow> consumer_step (c, st) (c', st')"
| step_take_active: "take_active_transfer c = (r, c') \<Longrightarrow> consumer_step (c, st) (c', st)"
| step_finish: "finish_transfer c st = (r, c', st') \<Longrightarrow> consumer_step (c, st) (c', st')"
| step_interrupt: "consumer_step (c, st) (c, interrupt_transfer c st)"
| step_shared: "consumer_step (c, st) (c, st[t := x])"

inductive_cases consumer_stepE: "consumer_step s s'"

lemma consumer_step_inv:
  "consumer_step s s' \<Longrightarrow> consumer_inv (fst s) (snd s) \<Longrightarrow> consumer_inv (fst s') (snd s')"
  by (erule consumer_stepE)
     (auto intro: process_server_output_inv start_manual_inv take_active_inv finish_inv interrupt_inv
        simp: consumer_inv_def [of _ "_ [_ := _]"], auto simp: consumer_inv_def)

text \<open>
  In every reachable state the two held-back tails are equally long and at most three bytes,
  the remembered history is at most 512 bytes, nothing is held twice, and every handle points to
  an existing transfer.
\<close>

theorem consumer_reachable_inv:
  assumes "consumer_step\<^sup>*\<^sup>* (consumer_new, []) (c, store)"
  shows "length (mc_detection_tail c) = length (mc_plain_tail c) \<and> length (mc_plain_tail c) \<le> 3
    \<and> length (mc_plain_history c) \<le> PLAIN_HISTORY_LIMIT
    \<and> (mc_pending c \<noteq> None \<longrightarrow> mc_plain_tail c = [])
    \<and> (\<forall>t. mc_transfer_input c = Some t \<or> mc_transfer c = Some t \<longrightarrow> t < length store)"
proof -
  have "consumer_inv (fst (c, store)) (snd (c, store))"
    using assms
  proof (induction rule: rtranclp_induct)
    case base
    show ?case by (simp add: consumer_inv_def consumer_new_def)
  qed (rule consumer_step_inv)
  then show ?thesis by (auto simp: consumer_inv_def)
qed

theorem consumer_reachable_inv_witness:
  "length (mc_plain_tail (fst (snd (process_server_output [0x61, ZPAD] consumer_new [])))) \<le> 3"
proof -
  obtain ev c store where run: "process_server_output [0x61, ZPAD] consumer_new [] = (ev, c, store)"
    by (metis surj_pair)
  then have "consumer_step\<^sup>*\<^sup>* (consumer_new, []) (c, store)"
    by (intro r_into_rtranclp step_output)
  from consumer_reachable_inv [OF this] show ?thesis by (simp add: run)
qed

text \<open>
  Masking does not depend on how the output is cut into chunks, and it never changes the
  number of bytes, so detection offsets are offsets into the terminal output.
\<close>

theorem mask_chunk_independent:
  "fst (mask_control_strings scope (xs @ ys)) =
     fst (mask_control_strings scope xs) @ fst (mask_control_strings (snd (mask_control_strings scope xs)) ys)
   \<and> length (fst (mask_control_strings scope (xs @ ys))) = length xs + length ys"
  by (simp add: mask_append)

subsection \<open>Two bytes that go astray\<close>

text \<open>
  A retried control header that ends in XON is recognised without it: for every frame type
  that starts no transfer, the recognised prefix of the header with XON is the header without
  it, so the XON byte is shown on the terminal.
\<close>

theorem control_header_xon_reaches_terminal:
  assumes "t \<notin> {ZrInit, ZrqInit, ZFile, ZData}"
  shows "zmodem_control_prefix_len Zmodem (encode_hex_header t (p0, p1, p2, p3) True @ rest) =
     Some (length (encode_hex_header t (p0, p1, p2, p3) True) - 1)"
proof -
  have split: "encode_hex_header t (p0, p1, p2, p3) True = encode_hex_header t (p0, p1, p2, p3) False @ [XON]"
    by (simp add: encode_hex_header_def Let_def)
  have "header_of_prefix (encode_hex_header t (p0, p1, p2, p3) True @ rest) =
      Some \<lparr>zh_frame_type = t, zh_position = (p0, p1, p2, p3), zh_encoding = Hex\<rparr>"
    by (simp add: header_of_prefix_def parse_zmodem_header_prefix_def with_input_def read_zmodem_header_hex)
  then show ?thesis
    using assms by (simp add: zmodem_control_prefix_len_def Let_def split)
qed

theorem control_header_xon_reaches_terminal_witness:
  "zmodem_control_prefix_len Zmodem (encode_hex_header ZFin (0, 0, 0, 0) True @ []) =
     Some (length (encode_hex_header ZFin (0, 0, 0, 0) True) - 1)"
  by (rule control_header_xon_reaches_terminal) simp

text \<open>
  A block start held back while a download command completes is not handed to the transfer
  it belongs to. After the chunk \<^verbatim>\<open>sx f\<close>, line feed, SOH a download starts with empty input while
  SOH stays held; the next chunk goes to the transfer alone, and finishing drops the held byte.
\<close>

theorem held_block_start_skips_transfer:
  "\<exists>c1 st1 c2 st2.
     process_server_output [0x73, 0x78, 0x20, 0x66, 0x0a, SOH] consumer_new [] =
       ([WriteTerminal [0x73, 0x78, 0x20, 0x66, 0x0a],
         TransferStarted \<lparr>mr_protocol = Xmodem, mr_direction = Download\<rparr>], c1, st1)
   \<and> held c1 = [SOH] \<and> handed_over c1 st1 = []
   \<and> process_server_output [1, 0xfe] c1 st1 = ([TransferDataQueued], c2, st2)
   \<and> handed_over c2 st2 = [1, 0xfe] \<and> held (fst (snd (finish_transfer c2 st2))) = []"
proof -
  let ?c = "consumer_new\<lparr>mc_plain_tail := [SOH], mc_detection_tail := [SOH], mc_transfer := Some 0,
      mc_transfer_input := Some 0\<rparr>"
  let ?st = "[modem_transfer_new [] XYMODEM_CANCEL_BYTES]"
  have "process_server_output [0x73, 0x78, 0x20, 0x66, 0x0a, SOH] consumer_new [] =
       ([WriteTerminal [0x73, 0x78, 0x20, 0x66, 0x0a],
         TransferStarted \<lparr>mr_protocol = Xmodem, mr_direction = Download\<rparr>], ?c, ?st)"
    by code_simp
  moreover have "held ?c = [SOH]" "handed_over ?c ?st = []"
    by (simp_all add: held_def handed_over_def consumer_new_def modem_transfer_new_def)
  moreover have "process_server_output [1, 0xfe] ?c ?st =
      ([TransferDataQueued], ?c, [modem_transfer_new [1, 0xfe] XYMODEM_CANCEL_BYTES])"
    by (simp add: process_server_output_def push_remote_output_def modem_transfer_new_def sat_add_def
        MODEM_REMOTE_OUTPUT_BUFFER_BYTES_def)
  moreover have "handed_over ?c [modem_transfer_new [1, 0xfe] XYMODEM_CANCEL_BYTES] = [1, 0xfe]"
    "held (fst (snd (finish_transfer ?c [modem_transfer_new [1, 0xfe] XYMODEM_CANCEL_BYTES]))) = []"
    by (simp_all add: handed_over_def modem_transfer_new_def held_def finish_transfer_def
        drain_remote_output_def)
  ultimately show ?thesis by blast
qed

end
