(* ===== verification/Editor_Text.thy ===== *)
theory Editor_Text
  imports Prelude Rust_Str
begin

text \<open>
  The values of \<^verbatim>\<open>hapcli-editor-core\<close>: ranges, selections, edits and errors (\<^verbatim>\<open>types.rs\<close>,
  \<^verbatim>\<open>selection.rs\<close>, \<^verbatim>\<open>edit.rs\<close>, \<^verbatim>\<open>error.rs\<close>), the specification of what a list of edits does to a
  text, and the line index of \<^verbatim>\<open>line_index.rs\<close> with the theorem that its incremental update
  agrees with a recomputation. A text is the bytes of a UTF-8 string, an offset a byte offset.
\<close>

subsection \<open>Ranges, selections, edits\<close>

record text_range =
  tr_start :: nat
  tr_end :: nat

definition text_range_new :: "nat \<Rightarrow> nat \<Rightarrow> text_range" where
  "text_range_new a b =
     (if a \<le> b then \<lparr>tr_start = a, tr_end = b\<rparr> else \<lparr>tr_start = b, tr_end = a\<rparr>)"

definition text_range_caret :: "nat \<Rightarrow> text_range" where
  "text_range_caret offset = \<lparr>tr_start = offset, tr_end = offset\<rparr>"

definition text_range_len :: "text_range \<Rightarrow> nat" where
  "text_range_len r = tr_end r - tr_start r"

record selection =
  se_anchor :: nat
  se_head :: nat

definition selection_caret :: "nat \<Rightarrow> selection" where
  "selection_caret offset = \<lparr>se_anchor = offset, se_head = offset\<rparr>"

definition is_caret :: "selection \<Rightarrow> bool" where
  "is_caret s \<longleftrightarrow> se_anchor s = se_head s"

definition selection_range :: "selection \<Rightarrow> text_range" where
  "selection_range s = text_range_new (se_anchor s) (se_head s)"

record text_edit =
  te_range :: text_range
  te_replacement :: bytes

abbreviation te_start :: "text_edit \<Rightarrow> nat" where "te_start e \<equiv> tr_start (te_range e)"
abbreviation te_end :: "text_edit \<Rightarrow> nat" where "te_end e \<equiv> tr_end (te_range e)"

definition text_edit_insert :: "nat \<Rightarrow> bytes \<Rightarrow> text_edit" where
  "text_edit_insert offset text = \<lparr>te_range = text_range_caret offset, te_replacement = text\<rparr>"

record edit_transaction =
  et_edits :: "text_edit list"

datatype editor_error =
    OffsetOutOfBounds nat nat
  | InvalidUtf8Boundary nat
  | InvalidRange nat nat
  | InvalidLine nat nat
  | InvalidColumn nat nat nat
  | OverlappingEdits nat
  | EditDeltaOverflow

subsection \<open>Substrings and character boundaries\<close>

definition str_slice :: "'a list \<Rightarrow> nat \<Rightarrow> nat \<Rightarrow> 'a list" where
  "str_slice s a b = take (b - a) (drop a s)"

lemma str_slice_same [simp]: "str_slice s a a = []"
  by (simp add: str_slice_def)

lemma str_slice_all [simp]: "str_slice s 0 (length s) = s"
  by (simp add: str_slice_def)

lemma length_str_slice [simp]: "a \<le> b \<Longrightarrow> b \<le> length s \<Longrightarrow> length (str_slice s a b) = b - a"
  by (simp add: str_slice_def)

lemma str_slice_join: "a \<le> b \<Longrightarrow> b \<le> c \<Longrightarrow> str_slice s a b @ str_slice s b c = str_slice s a c"
proof -
  assume "a \<le> b" and "b \<le> c"
  then obtain m n where b: "b = a + m" and c: "c = a + m + n"
    by (metis add.assoc le_iff_add)
  show ?thesis
    unfolding str_slice_def b c
    by (simp add: take_add add.commute)
qed

lemma str_slice_to_end: "a \<le> b \<Longrightarrow> str_slice s a b @ drop b s = drop a s"
  by (simp add: str_slice_def) (metis append_take_drop_id drop_drop le_add_diff_inverse2)

lemma str_slice_append_left: "b \<le> length s \<Longrightarrow> str_slice (s @ t) a b = str_slice s a b"
  by (simp add: str_slice_def)

text \<open>\<^verbatim>\<open>str::is_char_boundary\<close>, and the one fact about UTF-8 that the editor relies on: a string
  does not begin inside a character.\<close>

definition str_is_char_boundary :: "bytes \<Rightarrow> nat \<Rightarrow> bool" where
  "str_is_char_boundary s i \<longleftrightarrow> i = 0 \<or> i = length s \<or> i < length s \<and> \<not> is_cont (s ! i)"

definition str_ok :: "bytes \<Rightarrow> bool" where
  "str_ok s \<longleftrightarrow> s = [] \<or> \<not> is_cont (hd s)"

lemma str_ok_simps [simp]: "str_ok []" "str_ok (b # s) \<longleftrightarrow> \<not> is_cont b"
  by (simp_all add: str_ok_def)

lemma str_ok_append: "str_ok s \<Longrightarrow> str_ok t \<Longrightarrow> str_ok (s @ t)"
  by (cases s) auto

lemma boundary_le: "str_is_char_boundary s i \<Longrightarrow> i \<le> length s"
  by (auto simp: str_is_char_boundary_def)

lemma str_ok_drop: "str_ok s \<Longrightarrow> str_is_char_boundary s i \<Longrightarrow> str_ok (drop i s)"
  by (auto simp: str_is_char_boundary_def str_ok_def hd_drop_conv_nth)

lemma str_ok_take: "str_ok s \<Longrightarrow> str_ok (take n s)"
  by (cases s; cases n) auto

lemma str_ok_slice: "str_ok s \<Longrightarrow> str_is_char_boundary s i \<Longrightarrow> str_ok (str_slice s i j)"
  by (simp add: str_slice_def str_ok_take str_ok_drop)

lemma boundary_append: "str_ok t \<Longrightarrow> str_is_char_boundary (s @ t) (length s)"
  by (cases t) (auto simp: str_is_char_boundary_def)

lemma cont_width: "is_cont b \<longrightarrow> char_width b = 0"
  by (rule u8_allI [where b = b]) code_simp

lemma utf8_valid_str_ok: "utf8_valid s \<Longrightarrow> str_ok s"
proof (cases s)
  case (Cons b t)
  assume "utf8_valid s"
  then have "fst (utf8_chunk s)"
    using Cons by (subst (asm) utf8_valid.simps) (auto simp: case_prod_unfold Let_def)
  then have "char_width b \<noteq> 0"
    by (simp add: Cons utf8_chunk_def get0_def Let_def split: if_splits)
  then show ?thesis using cont_width Cons by auto
qed simp

subsection \<open>What a list of edits does\<close>

text \<open>
  Edits in order of position, each starting where or after the previous one ended, and the
  text they produce from a position on.
\<close>

fun edits_ok :: "bytes \<Rightarrow> nat \<Rightarrow> text_edit list \<Rightarrow> bool" where
  "edits_ok text pos [] \<longleftrightarrow> pos \<le> length text"
| "edits_ok text pos (e # es) \<longleftrightarrow> pos \<le> te_start e \<and> te_start e \<le> te_end e
     \<and> str_is_char_boundary text (te_start e) \<and> str_is_char_boundary text (te_end e)
     \<and> str_ok (te_replacement e) \<and> edits_ok text (te_end e) es"

fun spliced :: "bytes \<Rightarrow> nat \<Rightarrow> text_edit list \<Rightarrow> bytes" where
  "spliced text pos [] = drop pos text"
| "spliced text pos (e # es) =
     str_slice text pos (te_start e) @ te_replacement e @ spliced text (te_end e) es"

definition edited :: "bytes \<Rightarrow> text_edit list \<Rightarrow> bytes" where
  "edited text es = spliced text 0 es"

lemma edits_ok_bound: "edits_ok text pos es \<Longrightarrow> pos \<le> length text"
  by (induction "text" pos es rule: edits_ok.induct) (auto dest: boundary_le)

lemma spliced_ok:
  "edits_ok text pos es \<Longrightarrow> str_ok text \<Longrightarrow> str_is_char_boundary text pos \<Longrightarrow> str_ok (spliced text pos es)"
  by (induction "text" pos es rule: edits_ok.induct)
     (auto intro!: str_ok_append str_ok_drop str_ok_slice)

lemma edited_ok: "edits_ok text 0 es \<Longrightarrow> str_ok text \<Longrightarrow> str_ok (edited text es)"
  unfolding edited_def by (rule spliced_ok) (auto simp: str_is_char_boundary_def)

subsection \<open>The line index\<close>

fun newlines_from :: "nat \<Rightarrow> bytes \<Rightarrow> nat list" where
  "newlines_from index [] = []"
| "newlines_from index (b # bs) =
     (if b = 0x0a then (index + 1) # newlines_from (index + 1) bs else newlines_from (index + 1) bs)"

definition compute_line_starts :: "bytes \<Rightarrow> nat list" where
  "compute_line_starts text = 0 # newlines_from 0 text"

definition push_line_start :: "nat list \<Rightarrow> nat \<Rightarrow> nat list" where
  "push_line_start starts offset =
     (if starts \<noteq> [] \<and> last starts = offset then starts else starts @ [offset])"

definition apply_line_shift :: "nat \<Rightarrow> int \<Rightarrow> nat" where
  "apply_line_shift offset shift =
     (if shift < 0 then offset - nat (- shift) else sat_add offset (nat shift))"

text \<open>The first loop over the old line starts before an edit; it returns the starts still to visit.\<close>

fun keep_line_starts :: "nat \<Rightarrow> nat \<Rightarrow> int \<Rightarrow> nat list \<Rightarrow> nat list \<Rightarrow> nat list \<times> nat list" where
  "keep_line_starts limit previous shift starts [] = (starts, [])"
| "keep_line_starts limit previous shift starts (l # ls) =
     (if l > limit then (starts, l # ls)
      else keep_line_starts limit previous shift
             (if l > previous then push_line_start starts (apply_line_shift l shift) else starts) ls)"

fun push_replacement_lines :: "nat \<Rightarrow> nat \<Rightarrow> nat list \<Rightarrow> bytes \<Rightarrow> nat list" where
  "push_replacement_lines base index starts [] = starts"
| "push_replacement_lines base index starts (b # bs) =
     push_replacement_lines base (index + 1)
       (if b = 0x0a then push_line_start starts (base + index + 1) else starts) bs"

fun update_line_starts ::
    "nat list \<Rightarrow> nat list \<Rightarrow> int \<Rightarrow> nat \<Rightarrow> text_edit list \<Rightarrow> nat list" where
  "update_line_starts starts rest shift previous [] =
     foldl (\<lambda>acc l. if l > previous then push_line_start acc (apply_line_shift l shift) else acc) starts rest"
| "update_line_starts starts rest shift previous (e # es) =
     (let (starts1, rest1) = keep_line_starts (te_start e) previous shift starts rest;
          base = apply_line_shift (te_start e) shift;
          starts2 = push_replacement_lines base 0 starts1 (te_replacement e);
          rest2 = dropWhile (\<lambda>l. l \<le> te_end e) rest1 in
      update_line_starts starts2 rest2
        (shift + int (length (te_replacement e)) - int (text_range_len (te_range e))) (te_end e) es)"

definition update_line_starts_after_edits :: "nat list \<Rightarrow> text_edit list \<Rightarrow> nat list" where
  "update_line_starts_after_edits old_starts edits =
     (if edits = [] then old_starts else update_line_starts [0] (drop 1 old_starts) 0 0 edits)"

subsection \<open>The incremental update is a recomputation\<close>

lemma newlines_append:
  "newlines_from i (xs @ ys) = newlines_from i xs @ newlines_from (i + length xs) ys"
  by (induction xs arbitrary: i) simp_all

lemma newlines_range: "l \<in> set (newlines_from i xs) \<Longrightarrow> i < l \<and> l \<le> i + length xs"
  by (induction xs arbitrary: i) (fastforce split: if_splits)+

lemma newlines_sorted: "sorted_wrt (<) (newlines_from i xs)"
  by (induction xs arbitrary: i) (auto dest: newlines_range)

lemma push_line_start_fresh:
  "starts \<noteq> [] \<Longrightarrow> last starts < l \<Longrightarrow> push_line_start starts l = starts @ [l]"
  by (simp add: push_line_start_def)

lemma line_starts_last: "last (compute_line_starts xs) \<le> length xs"
proof -
  have "l \<in> set (compute_line_starts xs) \<Longrightarrow> l \<le> length xs" for l
    using newlines_range [of l 0 xs] by (auto simp: compute_line_starts_def)
  then show ?thesis using last_in_set [of "compute_line_starts xs"] by (simp add: compute_line_starts_def)
qed

lemma line_starts_snoc:
  "compute_line_starts (p @ [b]) =
     (if b = 0x0a then compute_line_starts p @ [length p + 1] else compute_line_starts p)"
  by (simp add: compute_line_starts_def newlines_append)

lemma push_newlines:
  "push_replacement_lines base index (compute_line_starts p) bs =
     compute_line_starts (p @ bs)" if "base + index = length p"
  using that
proof (induction bs arbitrary: index p)
  case (Cons b bs)
  have "push_line_start (compute_line_starts p) (base + index + 1) = compute_line_starts p @ [base + index + 1]"
    using line_starts_last [of p] Cons.prems by (intro push_line_start_fresh) (simp_all add: compute_line_starts_def)
  then have step: "(if b = 0x0a then push_line_start (compute_line_starts p) (base + index + 1) else compute_line_starts p)
      = compute_line_starts (p @ [b])"
    using Cons.prems by (auto simp: compute_line_starts_def newlines_append)
  show ?case
    using Cons.IH [of "index + 1" "p @ [b]"] Cons.prems by (simp add: step)
qed simp

lemma apply_line_shift_eq:
  "int n = int offset + shift \<Longrightarrow> n \<le> usize_max \<Longrightarrow> apply_line_shift offset shift = n"
  by (auto simp: apply_line_shift_def sat_add_def)

lemma push_shifted:
  assumes "int (length p) = int i + shift" and "length p < usize_max"
  shows "push_line_start (compute_line_starts p) (apply_line_shift (i + 1) shift) =
    compute_line_starts p @ [length p + 1]"
proof -
  have "apply_line_shift (i + 1) shift = length p + 1"
    using assms by (intro apply_line_shift_eq) simp_all
  then show ?thesis
    using line_starts_last [of p] by (simp add: push_line_start_fresh compute_line_starts_def)
qed

lemma keep_newlines:
  assumes "\<forall>l\<in>set later. limit < l" and "int (length p) = int i + shift" and "previous \<le> i"
    and "i + length xs = limit" and "length p + length xs \<le> usize_max"
  shows "keep_line_starts limit previous shift (compute_line_starts p) (newlines_from i xs @ later) =
    (compute_line_starts (p @ xs), later)"
  using assms(2-)
proof (induction xs arbitrary: i p)
  case Nil
  then show ?case using assms(1) by (cases later) simp_all
next
  case (Cons b xs)
  have step: "push_line_start (compute_line_starts p) (apply_line_shift (i + 1) shift) =
      compute_line_starts p @ [length p + 1]"
    using Cons.prems by (intro push_shifted) simp_all
  show ?case
    using Cons.IH [of "p @ [b]" "i + 1"] Cons.prems step [simplified] by (cases "b = 0x0a") (simp_all add: line_starts_snoc)
qed

lemma fold_newlines:
  assumes "int (length p) = int i + shift" and "previous \<le> i" and "length p + length xs \<le> usize_max"
  shows "foldl (\<lambda>acc l. if l > previous then push_line_start acc (apply_line_shift l shift) else acc)
      (compute_line_starts p) (newlines_from i xs) = compute_line_starts (p @ xs)"
  using assms
proof (induction xs arbitrary: i p)
  case (Cons b xs)
  have step: "push_line_start (compute_line_starts p) (apply_line_shift (i + 1) shift) =
      compute_line_starts p @ [length p + 1]"
    using Cons.prems by (intro push_shifted) simp_all
  show ?case
    using Cons.IH [of "p @ [b]" "i + 1"] Cons.prems step [simplified] by (cases "b = 0x0a") (simp_all add: line_starts_snoc)
qed simp

lemma newlines_split:
  "a \<le> b \<Longrightarrow> b \<le> length text \<Longrightarrow>
   newlines_from a (drop a text) = newlines_from a (str_slice text a b) @ newlines_from b (drop b text)"
  using newlines_append [of a "str_slice text a b" "drop b text"] by (simp add: str_slice_to_end)

lemma skip_newlines:
  assumes "a \<le> b" and "b \<le> length text"
  shows "dropWhile (\<lambda>l. l \<le> b) (newlines_from a (drop a text)) = newlines_from b (drop b text)"
proof -
  have low: "l \<le> b" if "l \<in> set (newlines_from a (str_slice text a b))" for l
    using newlines_range [OF that] assms by simp
  have high: "dropWhile (\<lambda>l. l \<le> b) (newlines_from b (drop b text)) = newlines_from b (drop b text)"
  proof (cases "newlines_from b (drop b text)")
    case (Cons l ls)
    then show ?thesis using newlines_range [of l b "drop b text"] by simp
  qed simp
  show ?thesis
    unfolding newlines_split [OF assms] using low high by (simp add: dropWhile_append2)
qed

lemma update_line_starts_spliced:
  assumes "edits_ok text prev es" and "int (length p) = int prev + shift"
    and "length (p @ spliced text prev es) \<le> usize_max"
  shows "update_line_starts (compute_line_starts p) (newlines_from prev (drop prev text)) shift prev es =
    compute_line_starts (p @ spliced text prev es)"
  using assms
proof (induction es arbitrary: p prev shift)
  case Nil
  then show ?case by (simp add: fold_newlines)
next
  case (Cons e es)
  let ?p1 = "p @ str_slice text prev (te_start e)"
  have ok: "prev \<le> te_start e" "te_start e \<le> te_end e" "te_end e \<le> length text" "edits_ok text (te_end e) es"
    using Cons.prems(1) edits_ok_bound by auto
  have small: "length ?p1 \<le> usize_max" using Cons.prems(3) by simp
  have keep: "keep_line_starts (te_start e) prev shift (compute_line_starts p) (newlines_from prev (drop prev text)) =
      (compute_line_starts ?p1, newlines_from (te_start e) (drop (te_start e) text))"
    using ok Cons.prems(2) small newlines_range
    by (subst newlines_split [of prev "te_start e"]) (auto intro!: keep_newlines)
  have base: "apply_line_shift (te_start e) shift = length ?p1"
    using ok Cons.prems(2) small by (intro apply_line_shift_eq) simp_all
  show ?case
    using ok Cons.prems(2,3) Cons.IH [OF ok(4), of "?p1 @ te_replacement e"
        "shift + int (length (te_replacement e)) - int (text_range_len (te_range e))"]
    by (simp add: keep base push_newlines skip_newlines text_range_len_def Let_def)
qed

lemma line_starts_after_edits:
  assumes "edits_ok text 0 es" and "length (edited text es) \<le> usize_max"
  shows "update_line_starts_after_edits (compute_line_starts text) es = compute_line_starts (edited text es)"
  using update_line_starts_spliced [of "text" 0 es "[]" 0] assms
  by (auto simp: update_line_starts_after_edits_def edited_def compute_line_starts_def)

text \<open>
  C16: after any list of edits in order and without overlap, the line index that is updated edit
  by edit is the one computed from the edited text.
\<close>

theorem line_index_update_correct:
  assumes "edits_ok text 0 es" and "length (edited text es) \<le> usize_max"
  shows "update_line_starts_after_edits (compute_line_starts text) es = compute_line_starts (edited text es)"
  using assms by (rule line_starts_after_edits)

theorem line_index_update_correct_witness:
  "update_line_starts_after_edits (compute_line_starts [97, 10, 98, 10])
     [\<lparr>te_range = \<lparr>tr_start = 1, tr_end = 3\<rparr>, te_replacement = [10, 10]\<rparr>] =
   compute_line_starts (edited [97, 10, 98, 10]
     [\<lparr>te_range = \<lparr>tr_start = 1, tr_end = 3\<rparr>, te_replacement = [10, 10]\<rparr>])"
  by (rule line_index_update_correct)
     (simp_all add: str_is_char_boundary_def is_cont_def edited_def str_slice_def usize_max_def)

end
