(* ===== verification/Piece_Table.thy ===== *)
theory Piece_Table
  imports Editor_Text
begin

text \<open>
  The piece table of \<^verbatim>\<open>hapcli-editor-core/src/piece_table.rs\<close>: the text is a sequence of pieces of
  two append-only strings. The locale \<open>text_storage\<close> is what the editor buffer relies on (a
  replacement, a slice and a boundary test that agree with one string); it is interpreted on
  the piece table, and applying a list of edits from last to first is proved inside it.
\<close>

subsection \<open>The source's operations\<close>

datatype piece_source = Original | Add

record piece =
  pc_source :: piece_source
  pc_start :: nat
  pc_len :: nat

definition piece_new :: "piece_source \<Rightarrow> nat \<Rightarrow> nat \<Rightarrow> piece option" where
  "piece_new source start len =
     (if len > 0 then Some \<lparr>pc_source = source, pc_start = start, pc_len = len\<rparr> else None)"

definition piece_slice :: "piece \<Rightarrow> nat \<Rightarrow> nat \<Rightarrow> piece option" where
  "piece_slice p offset len = piece_new (pc_source p) (pc_start p + offset) len"

definition piece_end :: "piece \<Rightarrow> nat" where
  "piece_end p = pc_start p + pc_len p"

record piece_table =
  pt_original :: bytes
  pt_add :: bytes
  pt_pieces :: "piece list"
  pt_len :: nat

definition piece_table_new :: "bytes \<Rightarrow> piece_table" where
  "piece_table_new original =
     \<lparr>pt_original = original, pt_add = [],
      pt_pieces = (case piece_new Original 0 (length original) of Some p \<Rightarrow> [p] | None \<Rightarrow> []),
      pt_len = length original\<rparr>"

definition source_text :: "piece_table \<Rightarrow> piece_source \<Rightarrow> bytes" where
  "source_text pt s = (case s of Original \<Rightarrow> pt_original pt | Add \<Rightarrow> pt_add pt)"

definition piece_text :: "piece_table \<Rightarrow> piece \<Rightarrow> bytes" where
  "piece_text pt p = str_slice (source_text pt (pc_source p)) (pc_start p) (piece_end p)"

definition to_text :: "piece_table \<Rightarrow> bytes" where
  "to_text pt = concat (map (piece_text pt) (pt_pieces pt))"

fun slice_pieces :: "piece_table \<Rightarrow> nat \<Rightarrow> nat \<Rightarrow> nat \<Rightarrow> piece list \<Rightarrow> bytes" where
  "slice_pieces pt a b pos [] = []"
| "slice_pieces pt a b pos (p # ps) =
     (let piece_start = pos; piece_end = pos + pc_len p in
      if piece_end \<le> a then slice_pieces pt a b piece_end ps
      else if piece_start \<ge> b then []
      else
        let local_start = max a piece_start - piece_start;
            local_end = min b piece_end - piece_start in
        str_slice (source_text pt (pc_source p)) (pc_start p + local_start) (pc_start p + local_end)
          @ slice_pieces pt a b piece_end ps)"

definition slice_to_string :: "piece_table \<Rightarrow> nat \<Rightarrow> nat \<Rightarrow> bytes" where
  "slice_to_string pt a b = (if a \<ge> b then [] else slice_pieces pt a b 0 (pt_pieces pt))"

fun boundary_in_pieces :: "piece_table \<Rightarrow> nat \<Rightarrow> nat \<Rightarrow> piece list \<Rightarrow> bool" where
  "boundary_in_pieces pt offset pos [] = False"
| "boundary_in_pieces pt offset pos (p # ps) =
     (let piece_start = pos; piece_end = pos + pc_len p in
      if offset < piece_start then False
      else if offset = piece_start \<or> offset = piece_end then True
      else if offset < piece_end
      then str_is_char_boundary (source_text pt (pc_source p)) (pc_start p + (offset - piece_start))
      else boundary_in_pieces pt offset piece_end ps)"

definition is_char_boundary :: "piece_table \<Rightarrow> nat \<Rightarrow> bool" where
  "is_char_boundary pt offset =
     (if offset > pt_len pt then False
      else if offset = pt_len pt then True
      else boundary_in_pieces pt offset 0 (pt_pieces pt))"

definition push_piece :: "piece list \<Rightarrow> piece \<Rightarrow> piece list" where
  "push_piece pieces p =
     (if pieces \<noteq> [] \<and> pc_source (last pieces) = pc_source p \<and> piece_end (last pieces) = pc_start p
      then butlast pieces @ [(last pieces)\<lparr>pc_len := pc_len (last pieces) + pc_len p\<rparr>]
      else pieces @ [p])"

definition push_opt :: "piece list \<Rightarrow> piece option \<Rightarrow> piece list" where
  "push_opt pieces p = (case p of Some p \<Rightarrow> push_piece pieces p | None \<Rightarrow> pieces)"

text \<open>The loop of \<open>replace\<close>: the pieces built so far and whether the replacement is in.\<close>

fun replace_pieces ::
    "nat \<Rightarrow> nat \<Rightarrow> piece option \<Rightarrow> nat \<Rightarrow> bool \<Rightarrow> piece list \<Rightarrow> piece list \<Rightarrow> piece list \<times> bool" where
  "replace_pieces a b rep pos inserted next [] = (next, inserted)"
| "replace_pieces a b rep pos inserted next (p # ps) =
     (let piece_start = pos; piece_end = pos + pc_len p in
      if piece_end \<le> a then replace_pieces a b rep piece_end inserted (push_piece next p) ps
      else if piece_start \<ge> b then
        let next1 = (if inserted then next else push_opt next rep) in
        replace_pieces a b rep piece_end True (push_piece next1 p) ps
      else
        let next1 = (if inserted then next
                     else push_opt
                            (if a > piece_start then push_opt next (piece_slice p 0 (a - piece_start)) else next)
                            rep);
            next2 = (if b < piece_end
                     then push_opt next1 (piece_slice p (b - piece_start) (piece_end - b)) else next1) in
        replace_pieces a b rep piece_end True next2 ps)"

definition replace :: "nat \<Rightarrow> nat \<Rightarrow> bytes \<Rightarrow> piece_table \<Rightarrow> piece_table" where
  "replace a b replacement pt =
     (let rep = piece_new Add (length (pt_add pt)) (length replacement);
          (next, inserted) = replace_pieces a b rep 0 False [] (pt_pieces pt) in
      pt\<lparr>pt_add := pt_add pt @ replacement,
          pt_pieces := (if inserted then next else push_opt next rep),
          pt_len := pt_len pt - (b - a) + length replacement\<rparr>)"

subsection \<open>Well-formed tables\<close>

lemma source_text_update [simp]:
  "source_text (pt\<lparr>pt_pieces := x\<rparr>) s = source_text pt s"
  "source_text (pt\<lparr>pt_len := y\<rparr>) s = source_text pt s"
  by (cases s; simp add: source_text_def)+

definition piece_ok :: "piece_table \<Rightarrow> piece \<Rightarrow> bool" where
  "piece_ok pt p \<longleftrightarrow> 0 < pc_len p \<and> piece_end p \<le> length (source_text pt (pc_source p))
     \<and> str_is_char_boundary (source_text pt (pc_source p)) (pc_start p)
     \<and> str_is_char_boundary (source_text pt (pc_source p)) (piece_end p)"

definition pt_inv :: "piece_table \<Rightarrow> bool" where
  "pt_inv pt \<longleftrightarrow> str_ok (pt_original pt) \<and> str_ok (pt_add pt)
     \<and> list_all (piece_ok pt) (pt_pieces pt) \<and> pt_len pt = length (to_text pt)"

definition pieces_text :: "piece_table \<Rightarrow> piece list \<Rightarrow> bytes" where
  "pieces_text pt ps = concat (map (piece_text pt) ps)"

lemma pieces_text_simps [simp]:
  "pieces_text pt [] = []"
  "pieces_text pt (p # ps) = piece_text pt p @ pieces_text pt ps"
  "pieces_text pt (ps @ qs) = pieces_text pt ps @ pieces_text pt qs"
  by (simp_all add: pieces_text_def)

lemma length_piece_text: "piece_ok pt p \<Longrightarrow> length (piece_text pt p) = pc_len p"
  by (simp add: piece_ok_def piece_text_def piece_end_def)

lemma piece_text_slice:
  assumes "piece_ok pt p" and "i \<le> j" and "j \<le> pc_len p"
  shows "str_slice (source_text pt (pc_source p)) (pc_start p + i) (pc_start p + j) =
    str_slice (piece_text pt p) i j"
proof -
  have "take (j - i) (drop i (take (pc_len p) xs)) = take (j - i) (drop i xs)" for xs :: bytes
    using assms by (simp add: drop_take)
  then show ?thesis
    by (simp add: piece_text_def str_slice_def piece_end_def add.commute)
qed

subsection \<open>Slices and boundaries\<close>

lemma str_slice_append:
  "str_slice (xs @ ys) a b = str_slice xs a b @ str_slice ys (a - length xs) (b - length xs)"
proof -
  have "b - a - (n - a) = b - n - (a - n)" for n :: nat by arith
  then show ?thesis by (simp add: str_slice_def)
qed

lemma slice_pieces_text:
  "list_all (piece_ok pt) ps \<Longrightarrow> a \<le> b \<Longrightarrow>
   slice_pieces pt a b pos ps = str_slice (pieces_text pt ps) (a - pos) (b - pos)"
proof (induction ps arbitrary: pos)
  case (Cons p ps)
  let ?n = "pc_len p"
  have len: "length (piece_text pt p) = ?n" using Cons.prems length_piece_text by simp
  have ih: "slice_pieces pt a b (pos + ?n) ps = str_slice (pieces_text pt ps) (a - pos - ?n) (b - pos - ?n)"
    using Cons by simp
  have cut: "str_slice (piece_text pt p) (a - pos) (b - pos) =
      str_slice (piece_text pt p) (max a pos - pos) (min b (pos + ?n) - pos)"
    using len Cons.prems(2) by (auto simp: str_slice_def min_def max_def)
  consider "pos + ?n \<le> a" | "\<not> pos + ?n \<le> a" "b \<le> pos" | "\<not> pos + ?n \<le> a" "\<not> b \<le> pos" by blast
  then show ?case
  proof cases
    case 1
    then have "str_slice (piece_text pt p) (a - pos) (b - pos) = []"
      using len by (simp add: str_slice_def)
    then show ?thesis using 1 ih len by (simp add: str_slice_append Let_def)
  next
    case 2
    then show ?thesis using Cons.prems(2) by (simp add: str_slice_def)
  next
    case 3
    have "str_slice (source_text pt (pc_source p)) (pc_start p + (max a pos - pos))
        (pc_start p + (min b (pos + ?n) - pos)) = str_slice (piece_text pt p) (a - pos) (b - pos)"
      unfolding cut using Cons.prems 3 by (intro piece_text_slice) auto
    then show ?thesis using 3 ih len by (simp add: str_slice_append Let_def)
  qed
qed (simp add: str_slice_def)

lemma slice_to_string_text:
  "pt_inv pt \<Longrightarrow> a \<le> b \<Longrightarrow> slice_to_string pt a b = str_slice (to_text pt) a b"
  using slice_pieces_text [of pt "pt_pieces pt" a b 0]
  by (auto simp: slice_to_string_def pt_inv_def to_text_def pieces_text_def str_slice_def)

lemma piece_start_ok:
  assumes "piece_ok pt p" and "str_ok (pt_original pt)" and "str_ok (pt_add pt)"
  shows "str_ok (piece_text pt p)"
proof -
  have "str_ok (source_text pt (pc_source p))"
    using assms(2,3) by (simp add: source_text_def split: piece_source.splits)
  then show ?thesis using assms(1) by (simp add: piece_text_def piece_ok_def str_ok_slice)
qed

lemma pieces_text_ok:
  "list_all (piece_ok pt) ps \<Longrightarrow> str_ok (pt_original pt) \<Longrightarrow> str_ok (pt_add pt) \<Longrightarrow> str_ok (pieces_text pt ps)"
  by (induction ps) (auto intro!: str_ok_append piece_start_ok)

lemma boundary_shift:
  "str_is_char_boundary (xs @ ys) (length xs + n) \<longleftrightarrow>
     (xs = [] \<and> n = 0) \<or> n = length ys \<or> n < length ys \<and> \<not> is_cont (ys ! n)"
  by (auto simp: str_is_char_boundary_def)

lemma boundary_in_pieces_text:
  "list_all (piece_ok pt) ps \<Longrightarrow> str_ok (pt_original pt) \<Longrightarrow> str_ok (pt_add pt) \<Longrightarrow>
   offset < length (pieces_text pt ps) \<Longrightarrow>
   boundary_in_pieces pt (pos + offset) pos ps = (\<not> is_cont (pieces_text pt ps ! offset))"
proof (induction ps arbitrary: pos offset)
  case (Cons p ps)
  let ?n = "pc_len p" and ?s = "source_text pt (pc_source p)"
  have p: "piece_ok pt p" and ps: "list_all (piece_ok pt) ps" using Cons.prems by simp_all
  have len: "length (piece_text pt p) = ?n" by (rule length_piece_text [OF p])
  have first: "\<not> is_cont (piece_text pt p ! 0)"
    using piece_start_ok [OF p Cons.prems(2,3)] len p
    by (cases "piece_text pt p") (auto simp: piece_ok_def)
  have inner: "piece_text pt p ! k = ?s ! (pc_start p + k)" if "k < ?n" for k
    using that p by (simp add: piece_text_def str_slice_def piece_ok_def piece_end_def)
  consider "offset = 0" | "0 < offset" "offset < ?n" | "offset = ?n" | "?n < offset" by linarith
  then show ?case
  proof cases
    case 1
    then show ?thesis using first len p by (simp add: nth_append piece_ok_def)
  next
    case 2
    then have "pc_start p + offset < length ?s" using p by (simp add: piece_ok_def piece_end_def)
    then show ?thesis
      using 2 len inner [of offset] by (simp add: nth_append str_is_char_boundary_def)
  next
    case 3
    have "\<not> is_cont (pieces_text pt ps ! 0)"
      using pieces_text_ok [OF ps Cons.prems(2,3)] Cons.prems(4) 3 len
      by (cases "pieces_text pt ps") auto
    then show ?thesis using 3 len by (simp add: nth_append)
  next
    case 4
    then show ?thesis
      using Cons.IH [OF ps Cons.prems(2,3), of "offset - ?n" "pos + ?n"] Cons.prems(4) len
      by (simp add: nth_append Let_def)
  qed
qed simp

lemma is_char_boundary_text:
  assumes "pt_inv pt"
  shows "is_char_boundary pt offset = str_is_char_boundary (to_text pt) offset"
proof -
  have eq: "to_text pt = pieces_text pt (pt_pieces pt)" by (simp add: to_text_def pieces_text_def)
  have ok: "str_ok (to_text pt)" and len: "pt_len pt = length (to_text pt)"
    using assms pieces_text_ok by (auto simp: pt_inv_def eq)
  have "is_char_boundary pt offset = (\<not> is_cont (to_text pt ! offset))" if "offset < length (to_text pt)"
    using boundary_in_pieces_text [of pt "pt_pieces pt" offset 0] assms that
    by (simp add: is_char_boundary_def pt_inv_def eq)
  then show ?thesis
    using ok len by (cases "to_text pt") (auto simp: is_char_boundary_def str_is_char_boundary_def)
qed

subsection \<open>Replacement\<close>

lemma push_piece_ok:
  assumes "list_all (piece_ok pt) ps" and "piece_ok pt p"
  shows "list_all (piece_ok pt) (push_piece ps p)"
    and "pieces_text pt (push_piece ps p) = pieces_text pt ps @ piece_text pt p"
proof -
  let ?q = "last ps"
  have q: "piece_ok pt ?q" if "ps \<noteq> []" using assms(1) that by (simp add: list_all_iff)
  have merged: "piece_text pt (?q\<lparr>pc_len := pc_len ?q + pc_len p\<rparr>) = piece_text pt ?q @ piece_text pt p"
    if "pc_source ?q = pc_source p" "piece_end ?q = pc_start p"
    using that str_slice_join [of "pc_start ?q" "pc_start p" "piece_end p" "source_text pt (pc_source p)"]
    by (simp add: piece_text_def piece_end_def add.assoc [symmetric])
  show "list_all (piece_ok pt) (push_piece ps p)"
  proof (cases "ps \<noteq> [] \<and> pc_source ?q = pc_source p \<and> piece_end ?q = pc_start p")
    case True
    have "list_all (piece_ok pt) (butlast ps)"
      using assms(1) by (auto simp: list_all_iff dest: in_set_butlastD)
    then show ?thesis
      using True q assms(2) by (auto simp: push_piece_def piece_ok_def piece_end_def add.assoc [symmetric])
  next
    case False
    then show ?thesis using assms by (auto simp: push_piece_def)
  qed
  show "pieces_text pt (push_piece ps p) = pieces_text pt ps @ piece_text pt p"
  proof (cases "ps \<noteq> [] \<and> pc_source ?q = pc_source p \<and> piece_end ?q = pc_start p")
    case True
    then have "pieces_text pt ps = pieces_text pt (butlast ps) @ piece_text pt ?q"
      using pieces_text_simps(3) [of pt "butlast ps" "[?q]"] by simp
    then show ?thesis using True merged by (simp add: push_piece_def)
  next
    case False
    then show ?thesis by (auto simp: push_piece_def)
  qed
qed

definition opt_text :: "piece_table \<Rightarrow> piece option \<Rightarrow> bytes" where
  "opt_text pt r = (case r of Some p \<Rightarrow> piece_text pt p | None \<Rightarrow> [])"

definition opt_ok :: "piece_table \<Rightarrow> piece option \<Rightarrow> bool" where
  "opt_ok pt r = (case r of Some p \<Rightarrow> piece_ok pt p | None \<Rightarrow> True)"

lemma push_opt_ok:
  assumes "list_all (piece_ok pt) ps" and "opt_ok pt r"
  shows "list_all (piece_ok pt) (push_opt ps r)" and "pieces_text pt (push_opt ps r) = pieces_text pt ps @ opt_text pt r"
  using assms push_piece_ok by (auto simp: push_opt_def opt_ok_def opt_text_def split: option.splits)

lemma piece_slice_ok:
  assumes p: "piece_ok pt p" and len: "i + n \<le> pc_len p"
    and start: "i = 0 \<or> i < pc_len p \<and> \<not> is_cont (piece_text pt p ! i)"
    and stop: "i + n = pc_len p \<or> i + n < pc_len p \<and> \<not> is_cont (piece_text pt p ! (i + n))"
  shows "opt_ok pt (piece_slice p i n)" and "opt_text pt (piece_slice p i n) = str_slice (piece_text pt p) i (i + n)"
proof -
  let ?s = "source_text pt (pc_source p)"
  have inner: "piece_text pt p ! k = ?s ! (pc_start p + k)" "pc_start p + k < length ?s" if "k < pc_len p" for k
    using that p by (simp_all add: piece_text_def str_slice_def piece_ok_def piece_end_def)
  have b1: "str_is_char_boundary ?s (pc_start p + i)"
    using start inner [of i] p by (auto simp: piece_ok_def str_is_char_boundary_def)
  have b2: "str_is_char_boundary ?s (pc_start p + (i + n))"
    using stop inner [of "i + n"] p by (auto simp: piece_ok_def str_is_char_boundary_def piece_end_def)
  show "opt_ok pt (piece_slice p i n)"
    using b1 b2 boundary_le [OF b2]
    by (simp add: opt_ok_def piece_slice_def piece_new_def piece_ok_def piece_end_def add.assoc)
  show "opt_text pt (piece_slice p i n) = str_slice (piece_text pt p) i (i + n)"
  proof (cases "n = 0")
    case False
    then show ?thesis
      using piece_text_slice [OF p, of i "i + n"] len
      by (simp add: opt_text_def piece_slice_def piece_new_def)
         (simp add: piece_text_def piece_end_def add.assoc)
  qed (simp add: opt_text_def piece_slice_def piece_new_def)
qed

text \<open>A cut that falls inside the pieces falls on a character boundary.\<close>

definition cut_ok :: "bytes \<Rightarrow> nat \<Rightarrow> nat \<Rightarrow> bool" where
  "cut_ok t pos off \<longleftrightarrow> (pos < off \<longrightarrow> off < pos + length t \<longrightarrow> \<not> is_cont (t ! (off - pos)))"

lemma cut_ok_append:
  "cut_ok (s @ t) pos off \<Longrightarrow> cut_ok s pos off"
  "cut_ok (s @ t) pos off \<Longrightarrow> cut_ok t (pos + length s) off"
  by (auto simp: cut_ok_def nth_append split: if_splits) 

lemma replace_pieces_text:
  assumes "list_all (piece_ok pt) ps" and "list_all (piece_ok pt) nxt" and rep: "opt_ok pt rep" and ab: "a \<le> b"
    and "cut_ok (pieces_text pt ps) pos a" and "cut_ok (pieces_text pt ps) pos b"
    and "if inserted then a < pos else pos \<le> a"
    and "replace_pieces a b rep pos inserted nxt ps = (nxt', inserted')"
  shows "list_all (piece_ok pt) nxt' \<and>
    pieces_text pt nxt' @ (if inserted' then [] else opt_text pt rep) =
      pieces_text pt nxt @ (if inserted then [] else take (a - pos) (pieces_text pt ps) @ opt_text pt rep)
        @ drop (b - pos) (pieces_text pt ps)"
  using assms(1,2,5-)
proof (induction ps arbitrary: pos inserted nxt)
  case (Cons p ps)
  let ?n = "pc_len p" and ?t = "piece_text pt p"
  have p: "piece_ok pt p" and ps: "list_all (piece_ok pt) ps" using Cons.prems(1) by simp_all
  have n: "length ?t = ?n" "0 < ?n" using length_piece_text [OF p] p by (simp_all add: piece_ok_def)
  have cuts: "cut_ok (pieces_text pt ps) (pos + ?n) a" "cut_ok (pieces_text pt ps) (pos + ?n) b"
    "cut_ok ?t pos a" "cut_ok ?t pos b"
    using Cons.prems(3,4) cut_ok_append [of ?t "pieces_text pt ps" pos] n by auto
  consider (before) "pos + ?n \<le> a" | (after) "\<not> pos + ?n \<le> a" "b \<le> pos"
    | (overlap) "\<not> pos + ?n \<le> a" "\<not> b \<le> pos" by blast
  then show ?case
  proof cases
    case before
    then show ?thesis
      using Cons.prems(5,6) Cons.IH [OF ps push_piece_ok(1) [OF Cons.prems(2) p] cuts(1,2), of inserted]
        push_piece_ok(2) [OF Cons.prems(2) p] n ab
      by (auto split: if_splits)
  next
    case after
    let ?next1 = "if inserted then nxt else push_opt nxt rep"
    have n1: "list_all (piece_ok pt) ?next1"
      "pieces_text pt ?next1 = pieces_text pt nxt @ (if inserted then [] else opt_text pt rep)"
      using push_opt_ok [OF Cons.prems(2) rep] Cons.prems(2) by auto
    show ?thesis
      using after Cons.prems(5,6) Cons.IH [OF ps push_piece_ok(1) [OF n1(1) p] cuts(1,2), of True]
        push_piece_ok(2) [OF n1(1) p] n1(2) n ab
      by (auto simp: Let_def split: if_splits)
  next
    case overlap
    let ?left = "piece_slice p 0 (a - pos)" and ?right = "piece_slice p (b - pos) (pos + ?n - b)"
    let ?l = "if a > pos then push_opt nxt ?left else nxt"
    let ?next1 = "if inserted then nxt else push_opt ?l rep"
    let ?next2 = "if b < pos + ?n then push_opt ?next1 ?right else ?next1"
    have left: "opt_ok pt ?left" "opt_text pt ?left = take (a - pos) ?t" if "a > pos"
    proof -
      have "a - pos < ?n" "\<not> is_cont (?t ! (a - pos))"
        using overlap that cuts(3) n by (auto simp: cut_ok_def)
      then show "opt_ok pt ?left" "opt_text pt ?left = take (a - pos) ?t"
        using piece_slice_ok [OF p, of 0 "a - pos"] by (simp_all add: str_slice_def)
    qed
    have right: "opt_ok pt ?right" "opt_text pt ?right = drop (b - pos) ?t" if "b < pos + ?n"
    proof -
      have "b - pos < ?n" "\<not> is_cont (?t ! (b - pos))" "b - pos + (pos + ?n - b) = ?n"
        using overlap that cuts(4) n by (auto simp: cut_ok_def)
      then show "opt_ok pt ?right" "opt_text pt ?right = drop (b - pos) ?t"
        using piece_slice_ok [OF p, of "b - pos" "pos + ?n - b"] n by (simp_all add: str_slice_def)
    qed
    have l: "list_all (piece_ok pt) ?l" "pieces_text pt ?l = pieces_text pt nxt @ take (a - pos) ?t"
      using push_opt_ok [OF Cons.prems(2) left(1)] left(2) Cons.prems(2) by auto
    have n1: "list_all (piece_ok pt) ?next1"
      "pieces_text pt ?next1 = pieces_text pt nxt @ (if inserted then [] else take (a - pos) ?t @ opt_text pt rep)"
      using push_opt_ok [OF l(1) rep] l(2) Cons.prems(2) by auto
    have n2: "list_all (piece_ok pt) ?next2" "pieces_text pt ?next2 = pieces_text pt ?next1 @ drop (b - pos) ?t"
      using push_opt_ok [OF n1(1) right(1)] right(2) n1(1) n by auto
    show ?thesis
      using overlap Cons.prems(6) Cons.IH [OF ps n2(1) cuts(1,2), of True] n2(2) n1(2) n
      by (simp add: Let_def)
  qed
qed (use ab in auto)

text \<open>Appending to the second string changes no existing piece.\<close>

lemma append_add_piece:
  assumes "piece_ok pt p" and "str_ok extra"
  shows "piece_ok (pt\<lparr>pt_add := pt_add pt @ extra\<rparr>) p"
    and "piece_text (pt\<lparr>pt_add := pt_add pt @ extra\<rparr>) p = piece_text pt p"
proof -
  let ?pt = "pt\<lparr>pt_add := pt_add pt @ extra\<rparr>"
  obtain t where t: "source_text ?pt (pc_source p) = source_text pt (pc_source p) @ t" and "str_ok t"
    using assms(2) by (cases "pc_source p") (auto simp: source_text_def)
  have keep: "str_is_char_boundary (s @ t) i" if "str_is_char_boundary s i" for s i
    using that boundary_append [OF \<open>str_ok t\<close>, of s] by (auto simp: str_is_char_boundary_def nth_append)
  show "piece_ok ?pt p"
    using assms(1) keep by (auto simp: piece_ok_def t)
  show "piece_text ?pt p = piece_text pt p"
    using assms(1) by (simp add: piece_text_def t piece_ok_def str_slice_append_left)
qed

lemma replace_text:
  assumes inv: "pt_inv pt" and ab: "a \<le> b" and ba: "str_is_char_boundary (to_text pt) a"
    and bb: "str_is_char_boundary (to_text pt) b" and r: "str_ok r"
  shows "to_text (replace a b r pt) = take a (to_text pt) @ r @ drop b (to_text pt)"
    and "pt_inv (replace a b r pt)"
proof -
  let ?pt = "pt\<lparr>pt_add := pt_add pt @ r\<rparr>"
  let ?rep = "piece_new Add (length (pt_add pt)) (length r)"
  have ok: "list_all (piece_ok ?pt) (pt_pieces pt)" and same: "pieces_text ?pt (pt_pieces pt) = to_text pt"
    using inv append_add_piece [OF _ r]
    by (auto simp: pt_inv_def pieces_text_def to_text_def list_all_iff intro!: arg_cong [where f = concat])
  have rep: "opt_ok ?pt ?rep" "opt_text ?pt ?rep = r"
    using boundary_append [OF r, of "pt_add pt"]
    by (auto simp: opt_ok_def opt_text_def piece_new_def piece_ok_def piece_text_def piece_end_def
        source_text_def str_slice_def str_is_char_boundary_def)
  have cut: "cut_ok (to_text pt) 0 off" if "str_is_char_boundary (to_text pt) off" for off
    using that by (auto simp: cut_ok_def str_is_char_boundary_def)
  obtain nxt ins where run: "replace_pieces a b ?rep 0 False [] (pt_pieces pt) = (nxt, ins)" by fastforce
  note main = replace_pieces_text [OF ok _ rep(1) ab, unfolded same, OF _ cut [OF ba] cut [OF bb] _ run, simplified]
  let ?final = "if ins then nxt else push_opt nxt ?rep"
  have final: "list_all (piece_ok ?pt) ?final" "pieces_text ?pt ?final = take a (to_text pt) @ r @ drop b (to_text pt)"
    using main push_opt_ok [of ?pt nxt ?rep] rep by auto
  have res: "replace a b r pt = ?pt\<lparr>pt_pieces := ?final, pt_len := pt_len pt - (b - a) + length r\<rparr>"
    by (simp add: replace_def run Let_def)
  have text_eq: "pieces_text (?pt\<lparr>pt_pieces := x, pt_len := y\<rparr>) ps = pieces_text ?pt ps" for x y ps
    by (simp add: pieces_text_def piece_text_def [abs_def])
  have ok_eq: "piece_ok (?pt\<lparr>pt_pieces := x, pt_len := y\<rparr>) = piece_ok ?pt" for x y
    by (simp add: piece_ok_def [abs_def])
  show text1: "to_text (replace a b r pt) = take a (to_text pt) @ r @ drop b (to_text pt)"
    using final(2) text_eq unfolding res by (simp add: to_text_def pieces_text_def)
  have "pt_len pt - (b - a) + length r = length (take a (to_text pt) @ r @ drop b (to_text pt))"
    using inv boundary_le [OF ba] boundary_le [OF bb] ab by (simp add: pt_inv_def)
  then show "pt_inv (replace a b r pt)"
    using inv final(1) ok_eq r text1 unfolding res by (simp add: pt_inv_def str_ok_append)
qed

lemma piece_table_new_inv:
  assumes "str_ok s"
  shows "pt_inv (piece_table_new s)" and "to_text (piece_table_new s) = s"
  using assms
  by (auto simp: pt_inv_def piece_table_new_def to_text_def piece_new_def piece_text_def piece_ok_def
      piece_end_def source_text_def str_is_char_boundary_def)

lemma pt_inv_ok: "pt_inv pt \<Longrightarrow> str_ok (to_text pt)"
  using pieces_text_ok [of pt "pt_pieces pt"] by (simp add: pt_inv_def to_text_def pieces_text_def)

subsection \<open>The interface of a text storage\<close>

locale text_storage =
  fixes content :: "'s \<Rightarrow> bytes"
    and put :: "nat \<Rightarrow> nat \<Rightarrow> bytes \<Rightarrow> 's \<Rightarrow> 's"
    and part :: "'s \<Rightarrow> nat \<Rightarrow> nat \<Rightarrow> bytes"
    and at_boundary :: "'s \<Rightarrow> nat \<Rightarrow> bool"
    and wf :: "'s \<Rightarrow> bool"
  assumes put_content: "wf s \<Longrightarrow> a \<le> b \<Longrightarrow> at_boundary s a \<Longrightarrow> at_boundary s b \<Longrightarrow> str_ok r \<Longrightarrow>
      content (put a b r s) = take a (content s) @ r @ drop b (content s) \<and> wf (put a b r s)"
    and part_content: "wf s \<Longrightarrow> a \<le> b \<Longrightarrow> part s a b = str_slice (content s) a b"
    and boundary_content: "wf s \<Longrightarrow> at_boundary s i = str_is_char_boundary (content s) i"
    and content_ok: "wf s \<Longrightarrow> str_ok (content s)"
begin

text \<open>Applying edits from the last to the first is splicing them into the text.\<close>

definition put_all :: "text_edit list \<Rightarrow> 's \<Rightarrow> 's" where
  "put_all es s = foldr (\<lambda>e. put (te_start e) (te_end e) (te_replacement e)) es s"

lemma put_all_from:
  "wf s \<Longrightarrow> edits_ok (content s) pos es \<Longrightarrow> str_is_char_boundary (content s) pos \<Longrightarrow>
   content (put_all es s) = take pos (content s) @ spliced (content s) pos es \<and> wf (put_all es s)"
proof (induction es arbitrary: pos)
  case (Cons e es)
  let ?t = "content s"
  have ok: "pos \<le> te_start e" "te_start e \<le> te_end e" "str_is_char_boundary ?t (te_start e)"
    "str_is_char_boundary ?t (te_end e)" "str_ok (te_replacement e)" "edits_ok ?t (te_end e) es"
    "te_end e \<le> length ?t"
    using Cons.prems(2) boundary_le by auto
  have t1: "content (put_all es s) = take (te_end e) ?t @ spliced ?t (te_end e) es" and wf1: "wf (put_all es s)"
    using Cons.IH [OF Cons.prems(1) ok(6,4)] by simp_all
  have rest: "str_ok (spliced ?t (te_end e) es)"
    using spliced_ok [OF ok(6) content_ok [OF Cons.prems(1)] ok(4)] .
  have end1: "str_is_char_boundary (content (put_all es s)) (te_end e)"
    using boundary_append [OF rest, of "take (te_end e) ?t"] ok(7) by (simp add: t1)
  have start1: "str_is_char_boundary (content (put_all es s)) (te_start e)"
  proof (cases "te_start e = te_end e")
    case False
    then show ?thesis
      using ok by (auto simp: t1 str_is_char_boundary_def nth_append)
  qed (use end1 in simp)
  have "content (put_all (e # es) s) = take (te_start e) (content (put_all es s)) @ te_replacement e
      @ drop (te_end e) (content (put_all es s)) \<and> wf (put_all (e # es) s)"
    using put_content [OF wf1 ok(2) _ _ ok(5)] start1 end1 boundary_content [OF wf1]
    by (simp add: put_all_def)
  moreover have "take (te_start e) ?t = take pos ?t @ str_slice ?t pos (te_start e)"
    using ok(1) by (simp add: str_slice_def take_add [symmetric])
  ultimately show ?case using ok by (simp add: t1)
qed (simp add: put_all_def)

lemma put_all_edited:
  "wf s \<Longrightarrow> edits_ok (content s) 0 es \<Longrightarrow> content (put_all es s) = edited (content s) es \<and> wf (put_all es s)"
  using put_all_from [of s 0 es] by (simp add: edited_def str_is_char_boundary_def)

end

interpretation pieces: text_storage to_text replace slice_to_string is_char_boundary pt_inv
  by unfold_locales
     (simp_all add: replace_text slice_to_string_text is_char_boundary_text pt_inv_ok)

text \<open>
  C12: a piece table is its text. A replacement between character boundaries replaces that range
  of the text and leaves a well-formed table; slices and boundary tests agree with the text.
\<close>

theorem piece_table_refines_text:
  assumes "pt_inv pt" and "a \<le> b" and "is_char_boundary pt a" and "is_char_boundary pt b" and "str_ok r"
  shows "to_text (replace a b r pt) = take a (to_text pt) @ r @ drop b (to_text pt)
    \<and> pt_inv (replace a b r pt)
    \<and> slice_to_string pt a b = str_slice (to_text pt) a b
    \<and> is_char_boundary pt i = str_is_char_boundary (to_text pt) i"
  using assms pieces.put_content pieces.part_content pieces.boundary_content by blast

theorem piece_table_refines_text_witness:
  "to_text (replace 1 2 [120, 121] (piece_table_new [97, 98, 99])) =
     take 1 (to_text (piece_table_new [97, 98, 99])) @ [120, 121] @ drop 2 (to_text (piece_table_new [97, 98, 99]))"
proof -
  have inv: "pt_inv (piece_table_new [97, 98, 99])"
    by (rule piece_table_new_inv) (simp add: is_cont_def)
  have "is_char_boundary (piece_table_new [97, 98, 99]) 1" "is_char_boundary (piece_table_new [97, 98, 99]) 2"
    by code_simp+
  from piece_table_refines_text [OF inv _ this] show ?thesis by (simp add: is_cont_def)
qed

end
