(* ===== verification/Text_Buffer.thy ===== *)
theory Text_Buffer
  imports Piece_Table "HOL-Library.Product_Lexorder"
begin

text \<open>
  The editor buffer of \<^verbatim>\<open>hapcli-editor-core/src/buffer.rs\<close>: a piece table with a cached text, a line
  index, revisions for the dirty flag and undo and redo stacks (top first). An operation returns
  its result and the next state, also when it fails, since a failing operation may already have
  changed counters. The grapheme functions rely on a Unicode segmentation library and take it as
  a parameter. The cached text is interior state of a reading method: reading returns the state
  with the cache filled.
\<close>

subsection \<open>The source's operations\<close>

record history_entry =
  he_edits :: "text_edit list"
  he_before_revision :: nat
  he_after_revision :: nat

record text_buffer =
  tb_storage :: piece_table
  tb_text_cache :: "bytes option"
  tb_line_starts :: "nat list"
  tb_version :: nat
  tb_content_revision :: nat
  tb_saved_revision :: nat
  tb_next_content_revision :: nat
  tb_undo_stack :: "history_entry list"
  tb_redo_stack :: "history_entry list"

definition text_buffer_new :: "bytes \<Rightarrow> text_buffer" where
  "text_buffer_new txt =
     \<lparr>tb_storage = piece_table_new txt, tb_text_cache = Some txt,
      tb_line_starts = compute_line_starts txt, tb_version = 0, tb_content_revision = 0,
      tb_saved_revision = 0, tb_next_content_revision = 1, tb_undo_stack = [], tb_redo_stack = []\<rparr>"

definition with_text :: "(bytes \<Rightarrow> 'r) \<Rightarrow> text_buffer \<Rightarrow> 'r \<times> text_buffer" where
  "with_text f b =
     (let b1 = (if tb_text_cache b = None then b\<lparr>tb_text_cache := Some (to_text (tb_storage b))\<rparr> else b) in
      (f (the (tb_text_cache b1)), b1))"

definition buffer_text :: "text_buffer \<Rightarrow> bytes \<times> text_buffer" where
  "buffer_text b = with_text (\<lambda>t. t) b"

definition buffer_len :: "text_buffer \<Rightarrow> nat" where
  "buffer_len b = pt_len (tb_storage b)"

definition line_count :: "text_buffer \<Rightarrow> nat" where
  "line_count b = length (tb_line_starts b)"

definition is_dirty :: "text_buffer \<Rightarrow> bool" where
  "is_dirty b \<longleftrightarrow> tb_content_revision b \<noteq> tb_saved_revision b"

definition mark_saved :: "text_buffer \<Rightarrow> text_buffer" where
  "mark_saved b = b\<lparr>tb_saved_revision := tb_content_revision b\<rparr>"

definition validate_offset_for_storage :: "piece_table \<Rightarrow> nat \<Rightarrow> editor_error + unit" where
  "validate_offset_for_storage st offset =
     (if offset > pt_len st then Err (OffsetOutOfBounds offset (pt_len st))
      else if \<not> is_char_boundary st offset then Err (InvalidUtf8Boundary offset)
      else Ok ())"

definition validate_offset :: "text_buffer \<Rightarrow> nat \<Rightarrow> editor_error + unit" where
  "validate_offset b offset = validate_offset_for_storage (tb_storage b) offset"

definition validate_range :: "text_buffer \<Rightarrow> text_range \<Rightarrow> editor_error + unit" where
  "validate_range b r =
     res_bind (validate_offset b (tr_start r)) (\<lambda>_.
     res_bind (validate_offset b (tr_end r)) (\<lambda>_.
     if tr_start r > tr_end r then Err (InvalidRange (tr_start r) (tr_end r)) else Ok ()))"

definition buffer_slice :: "text_buffer \<Rightarrow> text_range \<Rightarrow> editor_error + bytes" where
  "buffer_slice b r =
     res_bind (validate_range b r) (\<lambda>_. Ok (slice_to_string (tb_storage b) (tr_start r) (tr_end r)))"

definition line_end_offset :: "text_buffer \<Rightarrow> nat \<Rightarrow> nat option" where
  "line_end_offset b line =
     (if line < length (tb_line_starts b) then
        let start = tb_line_starts b ! line;
            end = (if line + 1 < length (tb_line_starts b) then tb_line_starts b ! (line + 1) - 1
                   else pt_len (tb_storage b)) in
        Some (max end start)
      else None)"

definition line_start_offset :: "text_buffer \<Rightarrow> nat \<Rightarrow> nat option" where
  "line_start_offset b line =
     (if line < length (tb_line_starts b) then Some (tb_line_starts b ! line) else None)"

definition line_text :: "text_buffer \<Rightarrow> nat \<Rightarrow> bytes option" where
  "line_text b line =
     (case line_start_offset b line of
        None \<Rightarrow> None
      | Some start \<Rightarrow>
          (case line_end_offset b line of
             None \<Rightarrow> None
           | Some end \<Rightarrow> Some (slice_to_string (tb_storage b) start end)))"

text \<open>\<^verbatim>\<open>str::get\<close> of a range, and the number of characters of a string.\<close>

definition str_get :: "bytes \<Rightarrow> nat \<Rightarrow> nat \<Rightarrow> bytes option" where
  "str_get s a b =
     (if a \<le> b \<and> str_is_char_boundary s a \<and> str_is_char_boundary s b then Some (str_slice s a b) else None)"

definition char_count :: "bytes \<Rightarrow> nat" where
  "char_count s = length (filter (\<lambda>b. \<not> is_cont b) s)"

definition with_line_text :: "(bytes \<Rightarrow> 'r) \<Rightarrow> nat \<Rightarrow> text_buffer \<Rightarrow> 'r option \<times> text_buffer" where
  "with_line_text f line b =
     (case line_start_offset b line of
        None \<Rightarrow> (None, b)
      | Some start \<Rightarrow>
          (case line_end_offset b line of
             None \<Rightarrow> (None, b)
           | Some end \<Rightarrow> with_text (\<lambda>t. map_option f (str_get t start end)) b))"

definition line_char_counts :: "text_buffer \<Rightarrow> nat list \<times> text_buffer" where
  "line_char_counts b =
     with_text (\<lambda>t. map (\<lambda>line.
       let start = tb_line_starts b ! line;
           end = max (if line + 1 < length (tb_line_starts b) then tb_line_starts b ! (line + 1) - 1
                      else length t) start in
       (case str_get t start end of Some l \<Rightarrow> char_count l | None \<Rightarrow> 0))
       [0..<length (tb_line_starts b)]) b"

text \<open>\<^verbatim>\<open>slice::binary_search\<close> on a strictly sorted slice: the index found, or where to insert.\<close>

definition binary_search :: "nat list \<Rightarrow> nat \<Rightarrow> nat + nat" where
  "binary_search xs v =
     (let i = length (takeWhile (\<lambda>x. x < v) xs) in
      if i < length xs \<and> xs ! i = v then Ok i else Err i)"

definition offset_to_line_col :: "text_buffer \<Rightarrow> nat \<Rightarrow> editor_error + nat \<times> nat" where
  "offset_to_line_col b offset =
     res_bind (validate_offset b offset) (\<lambda>_.
       let line = (case binary_search (tb_line_starts b) offset of Inr l \<Rightarrow> l | Inl nxt \<Rightarrow> nxt - 1) in
       Ok (line, offset - tb_line_starts b ! line))"

definition line_col_to_offset :: "text_buffer \<Rightarrow> nat \<times> nat \<Rightarrow> editor_error + nat" where
  "line_col_to_offset b pos =
     (case pos of (line, column) \<Rightarrow>
        (case line_start_offset b line of
           None \<Rightarrow> Err (InvalidLine line (line_count b))
         | Some start \<Rightarrow>
             (case line_end_offset b line of
                None \<Rightarrow> Err (InvalidLine line (line_count b))
              | Some line_end \<Rightarrow>
                  let offset = (start + column) mod 2 ^ 64 in
                  if offset > line_end then Err (InvalidColumn line column (line_end - start))
                  else res_bind (validate_offset b offset) (\<lambda>_. Ok offset))))"

fun check_edits :: "piece_table \<Rightarrow> nat \<Rightarrow> text_edit list \<Rightarrow> editor_error + unit" where
  "check_edits st previous_end [] = Ok ()"
| "check_edits st previous_end (e # es) =
     res_bind (validate_offset_for_storage st (te_start e)) (\<lambda>_.
     res_bind (validate_offset_for_storage st (te_end e)) (\<lambda>_.
     if te_start e > te_end e then Err (InvalidRange (te_start e) (te_end e))
     else if te_start e < previous_end then Err (OverlappingEdits (te_start e))
     else check_edits st (te_end e) es))"

definition normalize_edits_for_storage ::
    "text_edit list \<Rightarrow> piece_table \<Rightarrow> editor_error + text_edit list" where
  "normalize_edits_for_storage edits st =
     (let sorted_edits = sort_key (\<lambda>e. (te_start e, te_end e)) edits in
      res_bind (check_edits st 0 sorted_edits) (\<lambda>_. Ok sorted_edits))"

definition apply_delta :: "nat \<Rightarrow> int \<Rightarrow> editor_error + nat" where
  "apply_delta offset delta =
     (if delta < 0 then
        (if nat (- delta) \<le> offset then Ok (offset - nat (- delta)) else Err EditDeltaOverflow)
      else if delta = 0 then Ok offset
      else if offset + nat delta \<le> usize_max then Ok (offset + nat delta) else Err EditDeltaOverflow)"

text \<open>The loop that builds the inverse of the edits.\<close>

fun inverse_edits :: "piece_table \<Rightarrow> int \<Rightarrow> text_edit list \<Rightarrow> editor_error + text_edit list" where
  "inverse_edits st delta [] = Ok []"
| "inverse_edits st delta (e # es) =
     (let original = slice_to_string st (te_start e) (te_end e) in
      res_bind (apply_delta (te_start e) delta) (\<lambda>start_after.
        let end_after = start_after + length (te_replacement e) in
        res_bind (inverse_edits st
            (delta + int (length (te_replacement e)) - int (text_range_len (te_range e))) es) (\<lambda>rest.
          Ok (\<lparr>te_range = text_range_new start_after end_after, te_replacement = original\<rparr> # rest))))"

definition apply_edits_internal ::
    "text_edit list \<Rightarrow> text_buffer \<Rightarrow> editor_error + text_edit list \<times> text_buffer" where
  "apply_edits_internal edits0 b =
     res_bind (normalize_edits_for_storage edits0 (tb_storage b)) (\<lambda>edits.
     res_bind (inverse_edits (tb_storage b) 0 edits) (\<lambda>inv_edits.
       let next_line_starts = update_line_starts_after_edits (tb_line_starts b) edits;
           storage = foldr (\<lambda>e. replace (te_start e) (te_end e) (te_replacement e)) edits (tb_storage b) in
       Ok (inv_edits, b\<lparr>tb_storage := storage, tb_text_cache := None, tb_line_starts := next_line_starts,
                      tb_version := sat_add (tb_version b) 1\<rparr>)))"

definition allocate_content_revision :: "text_buffer \<Rightarrow> nat \<times> text_buffer" where
  "allocate_content_revision b =
     (tb_next_content_revision b,
      b\<lparr>tb_next_content_revision := sat_add (tb_next_content_revision b) 1\<rparr>)"

definition apply_transaction ::
    "edit_transaction \<Rightarrow> text_buffer \<Rightarrow> (editor_error + unit) \<times> text_buffer" where
  "apply_transaction t b =
     (if et_edits t = [] then (Ok (), b)
      else
        let before_revision = tb_content_revision b;
            (after_revision, b1) = allocate_content_revision b in
        case apply_edits_internal (et_edits t) b1 of
          Inl e \<Rightarrow> (Err e, b1)
        | Inr (inv_edits, b2) \<Rightarrow>
            (Ok (), b2\<lparr>tb_content_revision := after_revision,
                       tb_undo_stack := \<lparr>he_edits = inv_edits, he_before_revision = before_revision,
                                         he_after_revision = after_revision\<rparr> # tb_undo_stack b2,
                       tb_redo_stack := []\<rparr>))"

definition replace_selection ::
    "selection \<Rightarrow> bytes \<Rightarrow> text_buffer \<Rightarrow> (editor_error + selection) \<times> text_buffer" where
  "replace_selection sel replacement b =
     (let r = selection_range sel;
          caret = tr_start r + length replacement in
      case apply_transaction \<lparr>et_edits = [\<lparr>te_range = r, te_replacement = replacement\<rparr>]\<rparr> b of
        (Inl e, b1) \<Rightarrow> (Err e, b1)
      | (Inr _, b1) \<Rightarrow> (Ok (selection_caret caret), b1))"

definition undo :: "text_buffer \<Rightarrow> (editor_error + bool) \<times> text_buffer" where
  "undo b =
     (case tb_undo_stack b of
        [] \<Rightarrow> (Ok False, b)
      | entry # rest \<Rightarrow>
          (case apply_edits_internal (he_edits entry) (b\<lparr>tb_undo_stack := rest\<rparr>) of
             Inl e \<Rightarrow> (Err e, b\<lparr>tb_undo_stack := rest\<rparr>)
           | Inr (redo_edits, b1) \<Rightarrow>
               (Ok True, b1\<lparr>tb_content_revision := he_before_revision entry,
                            tb_redo_stack := entry\<lparr>he_edits := redo_edits\<rparr> # tb_redo_stack b1\<rparr>)))"

definition redo :: "text_buffer \<Rightarrow> (editor_error + bool) \<times> text_buffer" where
  "redo b =
     (case tb_redo_stack b of
        [] \<Rightarrow> (Ok False, b)
      | entry # rest \<Rightarrow>
          (case apply_edits_internal (he_edits entry) (b\<lparr>tb_redo_stack := rest\<rparr>) of
             Inl e \<Rightarrow> (Err e, b\<lparr>tb_redo_stack := rest\<rparr>)
           | Inr (undo_edits, b1) \<Rightarrow>
               (Ok True, b1\<lparr>tb_content_revision := he_after_revision entry,
                            tb_undo_stack := entry\<lparr>he_edits := undo_edits\<rparr> # tb_undo_stack b1\<rparr>)))"

text \<open>Caret movement by grapheme, over a segmentation library: the length of the first and of the
  last grapheme of a text, if it has one.\<close>

definition next_grapheme_offset ::
    "(bytes \<Rightarrow> nat option) \<Rightarrow> text_buffer \<Rightarrow> nat \<Rightarrow> nat \<times> text_buffer" where
  "next_grapheme_offset first_grapheme b offset =
     (if validate_offset b offset \<noteq> Ok () \<or> offset \<ge> pt_len (tb_storage b)
      then (pt_len (tb_storage b), b)
      else with_text (\<lambda>t.
        let next_len = (case first_grapheme (drop offset t) of Some n \<Rightarrow> n | None \<Rightarrow> 0) in
        min (offset + next_len) (length t)) b)"

definition previous_grapheme_offset ::
    "(bytes \<Rightarrow> nat option) \<Rightarrow> text_buffer \<Rightarrow> nat \<Rightarrow> nat \<times> text_buffer" where
  "previous_grapheme_offset last_grapheme b offset =
     (if validate_offset b offset \<noteq> Ok () \<or> offset = 0 then (0, b)
      else with_text (\<lambda>t.
        let previous_len = (case last_grapheme (take offset t) of Some n \<Rightarrow> n | None \<Rightarrow> 0) in
        offset - previous_len) b)"

subsection \<open>Edits and their inverse\<close>

definition edits_text_ok :: "text_edit list \<Rightarrow> bool" where
  "edits_text_ok es = list_all (\<lambda>e. str_ok (te_replacement e)) es"

lemma validate_storage_iff:
  "pt_inv st \<Longrightarrow> validate_offset_for_storage st i = Ok u \<longleftrightarrow> str_is_char_boundary (to_text st) i"
  using boundary_le [of "to_text st" i]
  by (auto simp: validate_offset_for_storage_def is_char_boundary_text pt_inv_def)

lemma check_edits_iff:
  assumes "pt_inv st" and "edits_text_ok es" and "pos \<le> length (to_text st)"
  shows "check_edits st pos es = Ok u \<longleftrightarrow> edits_ok (to_text st) pos es"
  using assms(2,3)
  by (induction es arbitrary: pos)
     (auto simp: edits_text_ok_def res_bind_eq_Ok validate_storage_iff [OF assms(1)] dest: boundary_le)

lemma edits_ok_starts: "edits_ok text pos es \<Longrightarrow> e \<in> set es \<Longrightarrow> pos \<le> te_start e \<and> pos \<le> te_end e"
  by (induction es arbitrary: pos) fastforce+

lemma edits_ok_sorted: "edits_ok text pos es \<Longrightarrow> sorted (map (\<lambda>e. (te_start e, te_end e)) es)"
  by (induction es arbitrary: pos) (auto simp: less_eq_prod_def dest: edits_ok_starts)

lemma edits_ok_text: "edits_ok text pos es \<Longrightarrow> edits_text_ok es"
  by (induction es arbitrary: pos) (auto simp: edits_text_ok_def)

lemma normalize_ok:
  assumes "pt_inv st" and "edits_ok (to_text st) 0 es"
  shows "normalize_edits_for_storage es st = Ok es"
proof -
  have "sort_key (\<lambda>e. (te_start e, te_end e)) es = es"
    by (rule sort_key_id_if_sorted [OF edits_ok_sorted [OF assms(2)]])
  then show ?thesis
    using check_edits_iff [OF assms(1) edits_ok_text [OF assms(2)], of 0] assms(2)
    by (simp add: normalize_edits_for_storage_def)
qed

lemma normalize_result:
  assumes "pt_inv st" and "edits_text_ok es0" and "normalize_edits_for_storage es0 st = Ok es"
  shows "edits_ok (to_text st) 0 es"
proof -
  let ?s = "sort_key (\<lambda>e. (te_start e, te_end e)) es0"
  have "edits_text_ok ?s" using assms(2) by (simp add: edits_text_ok_def list_all_iff)
  moreover have "es = ?s" and "check_edits st 0 ?s = Ok ()"
    using assms(3) by (auto simp: normalize_edits_for_storage_def Let_def res_bind_eq_Ok)
  ultimately show ?thesis using check_edits_iff [OF assms(1)] by auto
qed

lemma inverse_edits_spliced:
  assumes st: "pt_inv st" and ok: "edits_ok (to_text st) prev es"
    and bd: "str_is_char_boundary (to_text st) prev"
    and delta: "int (length p) = int prev + delta"
    and small: "length (p @ spliced (to_text st) prev es) \<le> usize_max"
  shows "\<exists>inv. inverse_edits st delta es = Ok inv
    \<and> edits_ok (p @ spliced (to_text st) prev es) (length p) inv
    \<and> spliced (p @ spliced (to_text st) prev es) (length p) inv = drop prev (to_text st)"
  using ok bd delta small
proof (induction es arbitrary: p prev delta)
  case (Cons e es)
  let ?t = "to_text st"
  let ?p1 = "p @ str_slice ?t prev (te_start e)"
  let ?p2 = "?p1 @ te_replacement e"
  let ?n = "?p2 @ spliced ?t (te_end e) es"
  have e: "prev \<le> te_start e" "te_start e \<le> te_end e" "str_is_char_boundary ?t (te_start e)"
    "str_is_char_boundary ?t (te_end e)" "str_ok (te_replacement e)" "edits_ok ?t (te_end e) es" "te_end e \<le> length ?t"
    using Cons.prems(1) boundary_le by auto
  have n: "p @ spliced ?t prev (e # es) = ?n" by simp
  have str: "str_ok ?t" by (rule pt_inv_ok [OF st])
  have rest: "str_ok (spliced ?t (te_end e) es)" by (rule spliced_ok [OF e(6) str e(4)])
  obtain inv where inv: "inverse_edits st (delta + int (length (te_replacement e)) - int (text_range_len (te_range e))) es = Ok inv"
      "edits_ok ?n (length ?p2) inv" "spliced ?n (length ?p2) inv = drop (te_end e) ?t"
    using Cons.IH [OF e(6,4), of ?p2 "delta + int (length (te_replacement e)) - int (text_range_len (te_range e))"]
      Cons.prems(3,4) e(1,2,7) by (auto simp: text_range_len_def)
  have start: "apply_delta (te_start e) delta = Ok (length ?p1)"
    using Cons.prems(3,4) e(1,2,7) by (auto simp: apply_delta_def)
  let ?e' = "\<lparr>te_range = text_range_new (length ?p1) (length ?p1 + length (te_replacement e)),
      te_replacement = slice_to_string st (te_start e) (te_end e)\<rparr>"
  have orig: "slice_to_string st (te_start e) (te_end e) = str_slice ?t (te_start e) (te_end e)"
    by (rule slice_to_string_text [OF st e(2)])
  have bounds: "str_is_char_boundary ?n (length ?p1)" "str_is_char_boundary ?n (length ?p2)"
    using boundary_append [of "te_replacement e @ spliced ?t (te_end e) es" ?p1] boundary_append [OF rest, of ?p2]
      str_ok_append [OF e(5) rest] by simp_all
  have "edits_ok ?n (length p) (?e' # inv)"
    using inv(2) bounds str_ok_slice [OF str e(3)] orig by (simp add: text_range_new_def add.assoc)
  moreover have "spliced ?n (length p) (?e' # inv) = drop prev ?t"
  proof -
    have "str_slice ?n (length p) (length ?p1) = str_slice ?t prev (te_start e)"
      using e by (simp add: str_slice_def)
    then show ?thesis
      using inv(3) orig e(1,2) str_slice_to_end [of prev "te_start e" ?t] str_slice_to_end [OF e(2), of ?t]
      by (simp add: text_range_new_def add.assoc)
  qed
  moreover have "inverse_edits st delta (e # es) = Ok (?e' # inv)"
    using inv(1) start by (simp add: Let_def)
  ultimately show ?case unfolding n by blast
qed (simp add: edits_ok_bound)

lemma inverse_edits_correct:
  assumes "pt_inv st" and "edits_ok (to_text st) 0 es" and "length (edited (to_text st) es) \<le> usize_max"
  obtains inv where "inverse_edits st 0 es = Ok inv" and "edits_ok (edited (to_text st) es) 0 inv"
    and "edited (edited (to_text st) es) inv = to_text st"
  using inverse_edits_spliced [OF assms(1,2), of "[]" 0] assms(3)
  by (auto simp: edited_def str_is_char_boundary_def)

subsection \<open>Invariant\<close>

abbreviation content_of :: "text_buffer \<Rightarrow> bytes" where
  "content_of b \<equiv> to_text (tb_storage b)"

text \<open>What the storage, the cache and the line index have to do with each other.\<close>

definition buffer_ok :: "text_buffer \<Rightarrow> bool" where
  "buffer_ok b \<longleftrightarrow> pt_inv (tb_storage b) \<and> tb_line_starts b = compute_line_starts (content_of b)
     \<and> (\<forall>t. tb_text_cache b = Some t \<longrightarrow> t = content_of b) \<and> length (content_of b) \<le> usize_max"

lemma apply_edits_run:
  assumes "buffer_ok b" and "edits_ok (content_of b) 0 es" and "length (edited (content_of b) es) \<le> usize_max"
  obtains inv st where
    "apply_edits_internal es b = Ok (inv, b\<lparr>tb_storage := st, tb_text_cache := None,
        tb_line_starts := compute_line_starts (edited (content_of b) es), tb_version := sat_add (tb_version b) 1\<rparr>)"
    and "pt_inv st" and "to_text st = edited (content_of b) es"
    and "edits_ok (to_text st) 0 inv" and "edited (to_text st) inv = content_of b"
proof -
  have inv: "pt_inv (tb_storage b)" and lines: "tb_line_starts b = compute_line_starts (content_of b)"
    using assms(1) by (simp_all add: buffer_ok_def)
  obtain iv where iv: "inverse_edits (tb_storage b) 0 es = Ok iv" "edits_ok (edited (content_of b) es) 0 iv"
      "edited (edited (content_of b) es) iv = content_of b"
    using inverse_edits_correct [OF inv assms(2,3)] by blast
  let ?st = "foldr (\<lambda>e. replace (te_start e) (te_end e) (te_replacement e)) es (tb_storage b)"
  have st: "to_text ?st = edited (content_of b) es" "pt_inv ?st"
    using pieces.put_all_edited [OF inv assms(2)] by (simp_all add: pieces.put_all_def)
  have li: "update_line_starts_after_edits (tb_line_starts b) es = compute_line_starts (edited (content_of b) es)"
    unfolding lines by (rule line_starts_after_edits [OF assms(2,3)])
  have "apply_edits_internal es b = Ok (iv, b\<lparr>tb_storage := ?st, tb_text_cache := None,
        tb_line_starts := compute_line_starts (edited (content_of b) es), tb_version := sat_add (tb_version b) 1\<rparr>)"
    using normalize_ok [OF inv assms(2)] iv(1) li by (simp add: apply_edits_internal_def)
  then show ?thesis using that st iv by simp
qed

lemma apply_edits_success:
  assumes "buffer_ok b" and "edits_text_ok es0" and "apply_edits_internal es0 b = Ok (iv, b')"
  obtains es where "edits_ok (content_of b) 0 es" and "apply_edits_internal es b = Ok (iv, b')"
    and "content_of b' = edited (content_of b) es"
proof -
  have inv: "pt_inv (tb_storage b)" using assms(1) by (simp add: buffer_ok_def)
  obtain es where es: "normalize_edits_for_storage es0 (tb_storage b) = Ok es"
    using assms(3) by (auto simp: apply_edits_internal_def res_bind_eq_Ok)
  have ok: "edits_ok (content_of b) 0 es" by (rule normalize_result [OF inv assms(2) es])
  have again: "apply_edits_internal es b = Ok (iv, b')"
    using assms(3) normalize_ok [OF inv ok] by (simp add: apply_edits_internal_def es)
  have "content_of b' = edited (content_of b) es"
    using assms(3) pieces.put_all_edited [OF inv ok]
    by (auto simp: apply_edits_internal_def es res_bind_eq_Ok Let_def pieces.put_all_def)
  then show ?thesis using that ok again by blast
qed

subsection \<open>History\<close>

text \<open>
  A ghost map from revision numbers to contents ties the history to the text: the undo stack
  leads back through the contents of earlier revisions, the redo stack forward through later
  ones, and all revisions in use are below the next one to be given out.
\<close>

fun undo_chain :: "(nat \<Rightarrow> bytes) \<Rightarrow> nat \<Rightarrow> nat \<Rightarrow> history_entry list \<Rightarrow> bool" where
  "undo_chain \<rho> nxt cur [] \<longleftrightarrow> True"
| "undo_chain \<rho> nxt cur (h # hs) \<longleftrightarrow> he_after_revision h = cur \<and> he_before_revision h < nxt
     \<and> edits_ok (\<rho> cur) 0 (he_edits h) \<and> edited (\<rho> cur) (he_edits h) = \<rho> (he_before_revision h)
     \<and> length (\<rho> (he_before_revision h)) \<le> usize_max \<and> undo_chain \<rho> nxt (he_before_revision h) hs"

fun redo_chain :: "(nat \<Rightarrow> bytes) \<Rightarrow> nat \<Rightarrow> nat \<Rightarrow> history_entry list \<Rightarrow> bool" where
  "redo_chain \<rho> nxt cur [] \<longleftrightarrow> True"
| "redo_chain \<rho> nxt cur (h # hs) \<longleftrightarrow> he_before_revision h = cur \<and> he_after_revision h < nxt
     \<and> edits_ok (\<rho> cur) 0 (he_edits h) \<and> edited (\<rho> cur) (he_edits h) = \<rho> (he_after_revision h)
     \<and> length (\<rho> (he_after_revision h)) \<le> usize_max \<and> redo_chain \<rho> nxt (he_after_revision h) hs"

definition buffer_inv :: "(nat \<Rightarrow> bytes) \<Rightarrow> bytes \<Rightarrow> text_buffer \<Rightarrow> bool" where
  "buffer_inv \<rho> saved b \<longleftrightarrow> buffer_ok b
     \<and> \<rho> (tb_content_revision b) = content_of b \<and> \<rho> (tb_saved_revision b) = saved
     \<and> tb_content_revision b < tb_next_content_revision b
     \<and> tb_saved_revision b < tb_next_content_revision b
     \<and> undo_chain \<rho> (tb_next_content_revision b) (tb_content_revision b) (tb_undo_stack b)
     \<and> redo_chain \<rho> (tb_next_content_revision b) (tb_content_revision b) (tb_redo_stack b)"

lemma undo_chain_extend:
  "undo_chain \<rho> nxt cur hs \<Longrightarrow> cur < nxt \<Longrightarrow> nxt \<le> nxt' \<Longrightarrow> undo_chain (\<rho>(nxt := t)) nxt' cur hs"
  by (induction hs arbitrary: cur) (auto simp: nat_less_le)

lemma redo_chain_extend:
  "redo_chain \<rho> nxt cur hs \<Longrightarrow> cur < nxt \<Longrightarrow> nxt \<le> nxt' \<Longrightarrow> redo_chain (\<rho>(nxt := t)) nxt' cur hs"
  by (induction hs arbitrary: cur) (auto simp: nat_less_le)

lemma buffer_inv_new:
  "str_ok t \<Longrightarrow> length t \<le> usize_max \<Longrightarrow> buffer_inv (\<lambda>_. t) t (text_buffer_new t)"
  by (simp add: buffer_inv_def buffer_ok_def text_buffer_new_def piece_table_new_inv)

lemma buffer_inv_mark_saved: "buffer_inv \<rho> saved b \<Longrightarrow> buffer_inv \<rho> (content_of b) (mark_saved b)"
  by (simp add: buffer_inv_def buffer_ok_def mark_saved_def)

lemma buffer_inv_with_text: "buffer_inv \<rho> saved b \<Longrightarrow> buffer_inv \<rho> saved (snd (with_text f b))"
  by (auto simp: buffer_inv_def buffer_ok_def with_text_def Let_def)

lemma with_text_content: "buffer_ok b \<Longrightarrow> fst (with_text f b) = f (content_of b)"
  by (auto simp: buffer_ok_def with_text_def Let_def)

lemma undo_step:
  assumes inv: "buffer_inv \<rho> saved b" and h: "tb_undo_stack b = h # hs"
  obtains b' where "undo b = (Ok True, b')" and "buffer_inv \<rho> saved b'"
    and "content_of b' = \<rho> (he_before_revision h)" and "tb_content_revision b' = he_before_revision h"
    and "\<exists>es. tb_redo_stack b' = h\<lparr>he_edits := es\<rparr> # tb_redo_stack b" and "tb_undo_stack b' = hs"
    and "tb_saved_revision b' = tb_saved_revision b"
proof -
  let ?b = "b\<lparr>tb_undo_stack := hs\<rparr>"
  have chain: "he_after_revision h = tb_content_revision b" "he_before_revision h < tb_next_content_revision b"
    "edits_ok (content_of b) 0 (he_edits h)" "edited (content_of b) (he_edits h) = \<rho> (he_before_revision h)"
    "length (\<rho> (he_before_revision h)) \<le> usize_max"
    "undo_chain \<rho> (tb_next_content_revision b) (he_before_revision h) hs"
    using inv h by (auto simp: buffer_inv_def)
  have ok: "buffer_ok ?b" using inv by (simp add: buffer_inv_def buffer_ok_def)
  obtain iv st where run: "apply_edits_internal (he_edits h) ?b = Ok (iv, ?b\<lparr>tb_storage := st, tb_text_cache := None,
        tb_line_starts := compute_line_starts (\<rho> (he_before_revision h)), tb_version := sat_add (tb_version b) 1\<rparr>)"
    and st: "pt_inv st" "to_text st = \<rho> (he_before_revision h)" "edits_ok (to_text st) 0 iv"
      "edited (to_text st) iv = content_of b"
    using apply_edits_run [OF ok, of "he_edits h"] chain(3-5) by auto
  show ?thesis
  proof (rule that)
    show "undo b = (Ok True, ?b\<lparr>tb_storage := st, tb_text_cache := None,
        tb_line_starts := compute_line_starts (\<rho> (he_before_revision h)), tb_version := sat_add (tb_version b) 1,
        tb_content_revision := he_before_revision h, tb_redo_stack := h\<lparr>he_edits := iv\<rparr> # tb_redo_stack b\<rparr>)"
      using run h by (simp add: undo_def)
  qed (use inv st chain in \<open>auto simp: buffer_inv_def buffer_ok_def\<close>)
qed

lemma redo_step:
  assumes inv: "buffer_inv \<rho> saved b" and h: "tb_redo_stack b = h # hs"
  obtains b' where "redo b = (Ok True, b')" and "buffer_inv \<rho> saved b'"
    and "content_of b' = \<rho> (he_after_revision h)" and "tb_content_revision b' = he_after_revision h"
    and "\<exists>es. tb_undo_stack b' = h\<lparr>he_edits := es\<rparr> # tb_undo_stack b" and "tb_redo_stack b' = hs"
    and "tb_saved_revision b' = tb_saved_revision b"
proof -
  let ?b = "b\<lparr>tb_redo_stack := hs\<rparr>"
  have chain: "he_before_revision h = tb_content_revision b" "he_after_revision h < tb_next_content_revision b"
    "edits_ok (content_of b) 0 (he_edits h)" "edited (content_of b) (he_edits h) = \<rho> (he_after_revision h)"
    "length (\<rho> (he_after_revision h)) \<le> usize_max"
    "redo_chain \<rho> (tb_next_content_revision b) (he_after_revision h) hs"
    using inv h by (auto simp: buffer_inv_def)
  have ok: "buffer_ok ?b" using inv by (simp add: buffer_inv_def buffer_ok_def)
  obtain iv st where run: "apply_edits_internal (he_edits h) ?b = Ok (iv, ?b\<lparr>tb_storage := st, tb_text_cache := None,
        tb_line_starts := compute_line_starts (\<rho> (he_after_revision h)), tb_version := sat_add (tb_version b) 1\<rparr>)"
    and st: "pt_inv st" "to_text st = \<rho> (he_after_revision h)" "edits_ok (to_text st) 0 iv"
      "edited (to_text st) iv = content_of b"
    using apply_edits_run [OF ok, of "he_edits h"] chain(3-5) by auto
  show ?thesis
  proof (rule that)
    show "redo b = (Ok True, ?b\<lparr>tb_storage := st, tb_text_cache := None,
        tb_line_starts := compute_line_starts (\<rho> (he_after_revision h)), tb_version := sat_add (tb_version b) 1,
        tb_content_revision := he_after_revision h, tb_undo_stack := h\<lparr>he_edits := iv\<rparr> # tb_undo_stack b\<rparr>)"
      using run h by (simp add: redo_def)
  qed (use inv st chain in \<open>auto simp: buffer_inv_def buffer_ok_def\<close>)
qed

lemma transaction_step:
  assumes inv: "buffer_inv \<rho> saved b" and run: "apply_transaction t b = (r, b')"
    and strs: "edits_text_ok (et_edits t)" and fits: "length (content_of b') \<le> usize_max"
    and fresh: "tb_next_content_revision b < usize_max"
  shows "\<exists>\<rho>'. buffer_inv \<rho>' saved b'"
    and "r = Ok () \<Longrightarrow> et_edits t \<noteq> [] \<Longrightarrow> \<exists>\<rho>' iv. buffer_inv \<rho>' saved b' \<and> \<rho>' (tb_content_revision b) = content_of b
      \<and> tb_undo_stack b' = \<lparr>he_edits = iv, he_before_revision = tb_content_revision b,
            he_after_revision = tb_content_revision b'\<rparr> # tb_undo_stack b
      \<and> tb_saved_revision b' = tb_saved_revision b"
proof -
  let ?nxt = "tb_next_content_revision b"
  let ?b1 = "b\<lparr>tb_next_content_revision := ?nxt + 1\<rparr>"
  have alloc: "allocate_content_revision b = (?nxt, ?b1)"
    using fresh by (simp add: allocate_content_revision_def sat_add_def)
  have ok1: "buffer_ok ?b1" using inv by (simp add: buffer_inv_def buffer_ok_def)
  have mono: "undo_chain \<rho> (?nxt + 1) cur hs" if "undo_chain \<rho> ?nxt cur hs" for cur hs
    using that by (induction hs arbitrary: cur) auto
  have mono': "redo_chain \<rho> (?nxt + 1) cur hs" if "redo_chain \<rho> ?nxt cur hs" for cur hs
    using that by (induction hs arbitrary: cur) auto
  have failed: "buffer_inv \<rho> saved ?b1"
    using inv mono mono' by (auto simp: buffer_inv_def buffer_ok_def)
  have success: "\<exists>\<rho>' iv. buffer_inv \<rho>' saved b' \<and> \<rho>' (tb_content_revision b) = content_of b
      \<and> tb_undo_stack b' = \<lparr>he_edits = iv, he_before_revision = tb_content_revision b,
            he_after_revision = tb_content_revision b'\<rparr> # tb_undo_stack b
      \<and> tb_saved_revision b' = tb_saved_revision b"
    if res: "apply_edits_internal (et_edits t) ?b1 = Ok (iv, b2)" and ne: "et_edits t \<noteq> []" for iv b2
  proof -
    have b': "b' = b2\<lparr>tb_content_revision := ?nxt,
        tb_undo_stack := \<lparr>he_edits = iv, he_before_revision = tb_content_revision b, he_after_revision = ?nxt\<rparr> # tb_undo_stack b2,
        tb_redo_stack := []\<rparr>"
      using run res ne alloc by (simp add: apply_transaction_def)
    obtain es where es: "edits_ok (content_of ?b1) 0 es" "apply_edits_internal es ?b1 = Ok (iv, b2)"
        "content_of b2 = edited (content_of ?b1) es"
      using apply_edits_success [OF ok1 strs res] by blast
    have small: "length (edited (content_of ?b1) es) \<le> usize_max"
      using fits es(3) by (simp add: b')
    obtain iv' st where run': "apply_edits_internal es ?b1 = Ok (iv', ?b1\<lparr>tb_storage := st, tb_text_cache := None,
        tb_line_starts := compute_line_starts (edited (content_of ?b1) es), tb_version := sat_add (tb_version ?b1) 1\<rparr>)"
      and st': "pt_inv st" "to_text st = edited (content_of ?b1) es" "edits_ok (to_text st) 0 iv'"
        "edited (to_text st) iv' = content_of ?b1"
      by (rule apply_edits_run [OF ok1 es(1) small])
    have "iv' = iv" and b2: "b2 = ?b1\<lparr>tb_storage := st, tb_text_cache := None,
        tb_line_starts := compute_line_starts (edited (content_of ?b1) es), tb_version := sat_add (tb_version ?b1) 1\<rparr>"
      using run' es(2) by simp_all
    note st = b2 st' [unfolded \<open>iv' = iv\<close>]
    have revs: "tb_content_revision b < ?nxt" "tb_saved_revision b < ?nxt" "length (content_of b) \<le> usize_max"
      "undo_chain \<rho> ?nxt (tb_content_revision b) (tb_undo_stack b)"
      "\<rho> (tb_content_revision b) = content_of b" "\<rho> (tb_saved_revision b) = saved"
      using inv by (auto simp: buffer_inv_def buffer_ok_def)
    let ?\<rho> = "\<rho>(?nxt := to_text st)"
    have "buffer_inv ?\<rho> saved b'"
      using st revs small undo_chain_extend [OF revs(4) revs(1), of "?nxt + 1" "to_text st"]
      by (auto simp: b' buffer_inv_def buffer_ok_def)
    then show ?thesis
      using revs st(1) by (intro exI [of _ ?\<rho>] exI [of _ iv]) (simp add: b')
  qed
  show "\<exists>\<rho>'. buffer_inv \<rho>' saved b'"
  proof (cases "et_edits t = []")
    case True
    then show ?thesis using run inv by (auto simp: apply_transaction_def)
  next
    case False
    show ?thesis
    proof (cases "apply_edits_internal (et_edits t) ?b1")
      case (Inl e)
      then show ?thesis using run False failed alloc by (auto simp: apply_transaction_def)
    next
      case (Inr x)
      then show ?thesis using success False by (cases x) blast
    qed
  qed
  show "\<exists>\<rho>' iv. buffer_inv \<rho>' saved b' \<and> \<rho>' (tb_content_revision b) = content_of b
      \<and> tb_undo_stack b' = \<lparr>he_edits = iv, he_before_revision = tb_content_revision b,
            he_after_revision = tb_content_revision b'\<rparr> # tb_undo_stack b
      \<and> tb_saved_revision b' = tb_saved_revision b" if "r = Ok ()" and ne: "et_edits t \<noteq> []"
  proof (cases "apply_edits_internal (et_edits t) ?b1")
    case (Inl e)
    then show ?thesis using run that alloc by (auto simp: apply_transaction_def)
  next
    case (Inr x)
    then show ?thesis using success ne by (cases x) blast
  qed
qed

end
