(* ===== verification/Buffer_History.thy ===== *)
theory Buffer_History
  imports Text_Buffer
begin

text \<open>
  What the editor buffer promises to its clients. The states a buffer can be in are those reached
  from \<^verbatim>\<open>TextBuffer::new\<close> by the public operations; along the way the text of the last save is kept.
  On these states undo and redo always succeed and lead back and forth through the same contents,
  a clean buffer holds the saved text, a rejected transaction changes nothing a client can see, and
  the line index translates positions both ways.
\<close>

subsection \<open>Reachable buffers\<close>

text \<open>
  A transaction is taken with replacements that are strings, with a result that a machine can
  address and before the revision counter is exhausted.
\<close>

inductive buffer_reach :: "bytes \<Rightarrow> text_buffer \<Rightarrow> bool" where
  reach_new: "str_ok t \<Longrightarrow> length t \<le> usize_max \<Longrightarrow> buffer_reach t (text_buffer_new t)"
| reach_transaction: "buffer_reach saved b \<Longrightarrow> apply_transaction t b = (r, b') \<Longrightarrow> edits_text_ok (et_edits t)
    \<Longrightarrow> length (content_of b') \<le> usize_max \<Longrightarrow> tb_next_content_revision b < usize_max \<Longrightarrow> buffer_reach saved b'"
| reach_undo: "buffer_reach saved b \<Longrightarrow> undo b = (r, b') \<Longrightarrow> buffer_reach saved b'"
| reach_redo: "buffer_reach saved b \<Longrightarrow> redo b = (r, b') \<Longrightarrow> buffer_reach saved b'"
| reach_save: "buffer_reach saved b \<Longrightarrow> buffer_reach (content_of b) (mark_saved b)"
| reach_read: "buffer_reach saved b \<Longrightarrow> buffer_text b = (t, b') \<Longrightarrow> buffer_reach saved b'"

lemma undo_empty: "tb_undo_stack b = [] \<Longrightarrow> undo b = (Ok False, b)"
  by (simp add: undo_def)

lemma redo_empty: "tb_redo_stack b = [] \<Longrightarrow> redo b = (Ok False, b)"
  by (simp add: redo_def)

lemma undo_inv:
  assumes "buffer_inv \<rho> saved b"
  shows "buffer_inv \<rho> saved (snd (undo b))" and "fst (undo b) = Ok (tb_undo_stack b \<noteq> [])"
proof -
  have "buffer_inv \<rho> saved (snd (undo b)) \<and> fst (undo b) = Ok (tb_undo_stack b \<noteq> [])"
  proof (cases "tb_undo_stack b")
    case Nil
    then show ?thesis using assms by (simp add: undo_empty)
  next
    case (Cons h hs)
    obtain b' where "undo b = (Ok True, b')" and "buffer_inv \<rho> saved b'"
      by (rule undo_step [OF assms Cons])
    then show ?thesis by (simp add: Cons)
  qed
  then show "buffer_inv \<rho> saved (snd (undo b))" and "fst (undo b) = Ok (tb_undo_stack b \<noteq> [])"
    by blast+
qed

lemma redo_inv:
  assumes "buffer_inv \<rho> saved b"
  shows "buffer_inv \<rho> saved (snd (redo b))" and "fst (redo b) = Ok (tb_redo_stack b \<noteq> [])"
proof -
  have "buffer_inv \<rho> saved (snd (redo b)) \<and> fst (redo b) = Ok (tb_redo_stack b \<noteq> [])"
  proof (cases "tb_redo_stack b")
    case Nil
    then show ?thesis using assms by (simp add: redo_empty)
  next
    case (Cons h hs)
    obtain b' where "redo b = (Ok True, b')" and "buffer_inv \<rho> saved b'"
      by (rule redo_step [OF assms Cons])
    then show ?thesis by (simp add: Cons)
  qed
  then show "buffer_inv \<rho> saved (snd (redo b))" and "fst (redo b) = Ok (tb_redo_stack b \<noteq> [])"
    by blast+
qed

lemma reach_inv: "buffer_reach saved b \<Longrightarrow> \<exists>\<rho>. buffer_inv \<rho> saved b"
proof (induction rule: buffer_reach.induct)
  case (reach_new t)
  then show ?case using buffer_inv_new by blast
next
  case (reach_transaction saved b t r b')
  then show ?case using transaction_step(1) by blast
next
  case (reach_undo saved b r b')
  then show ?case using undo_inv(1) by (metis snd_conv)
next
  case (reach_redo saved b r b')
  then show ?case using redo_inv(1) by (metis snd_conv)
next
  case (reach_save saved b)
  then show ?case using buffer_inv_mark_saved by blast
next
  case (reach_read saved b t b')
  then show ?case using buffer_inv_with_text unfolding buffer_text_def by (metis snd_conv)
qed

lemma reach_ok: "buffer_reach saved b \<Longrightarrow> buffer_ok b"
  using reach_inv by (auto simp: buffer_inv_def)

subsection \<open>Going back and forth\<close>

abbreviation undone :: "nat \<Rightarrow> text_buffer \<Rightarrow> text_buffer" where
  "undone n \<equiv> (\<lambda>b. snd (undo b)) ^^ n"

abbreviation redone :: "nat \<Rightarrow> text_buffer \<Rightarrow> text_buffer" where
  "redone n \<equiv> (\<lambda>b. snd (redo b)) ^^ n"

definition revisions :: "history_entry list \<Rightarrow> (nat \<times> nat) list" where
  "revisions hs = map (\<lambda>h. (he_before_revision h, he_after_revision h)) hs"

definition same_place :: "text_buffer \<Rightarrow> text_buffer \<Rightarrow> bool" where
  "same_place b c \<longleftrightarrow> tb_content_revision c = tb_content_revision b
     \<and> tb_saved_revision c = tb_saved_revision b
     \<and> revisions (tb_undo_stack c) = revisions (tb_undo_stack b)
     \<and> revisions (tb_redo_stack c) = revisions (tb_redo_stack b)"

lemma revisions_simps [simp]:
  "revisions [] = []"
  "revisions (h # hs) = (he_before_revision h, he_after_revision h) # revisions hs"
  by (simp_all add: revisions_def)

lemma undo_redo_same_place:
  assumes inv: "buffer_inv \<rho> saved b" and h: "tb_undo_stack b = h # hs"
    and d: "buffer_inv \<rho> saved d" "same_place (snd (undo b)) d"
  shows "buffer_inv \<rho> saved (snd (redo d)) \<and> same_place b (snd (redo d))"
proof -
  obtain b1 where b1: "undo b = (Ok True, b1)" "tb_undo_stack b1 = hs" "tb_saved_revision b1 = tb_saved_revision b"
      "revisions (tb_redo_stack b1) = (he_before_revision h, he_after_revision h) # revisions (tb_redo_stack b)"
    by (rule undo_step [OF inv h]) auto
  obtain k ks where k: "tb_redo_stack d = k # ks" "he_before_revision k = he_before_revision h"
      "he_after_revision k = he_after_revision h" "revisions ks = revisions (tb_redo_stack b)"
    using d(2) b1 by (cases "tb_redo_stack d") (auto simp: same_place_def)
  have cur: "tb_content_revision b = he_after_revision h" using inv h by (simp add: buffer_inv_def)
  obtain d1 where "redo d = (Ok True, d1)" "buffer_inv \<rho> saved d1" "tb_content_revision d1 = he_after_revision k"
      "revisions (tb_undo_stack d1) = (he_before_revision k, he_after_revision k) # revisions (tb_undo_stack d)"
      "tb_redo_stack d1 = ks" "tb_saved_revision d1 = tb_saved_revision d"
    by (rule redo_step [OF d(1) k(1)]) auto
  then show ?thesis using d(2) b1 k h cur by (simp add: same_place_def)
qed

lemma undone_redone:
  assumes "buffer_inv \<rho> saved b" and "n \<le> length (tb_undo_stack b)"
  shows "buffer_inv \<rho> saved (redone n (undone n b)) \<and> same_place b (redone n (undone n b))"
  using assms
proof (induction n arbitrary: b)
  case 0
  then show ?case by (simp add: same_place_def)
next
  case (Suc n)
  obtain h hs where h: "tb_undo_stack b = h # hs" using Suc.prems(2) by (cases "tb_undo_stack b") auto
  obtain b1 where b1: "undo b = (Ok True, b1)" "tb_undo_stack b1 = hs" by (rule undo_step [OF Suc.prems(1) h])
  have "n \<le> length (tb_undo_stack (snd (undo b)))" using Suc.prems(2) h b1 by simp
  then have "buffer_inv \<rho> saved (redone n (undone n (snd (undo b))))
      \<and> same_place (snd (undo b)) (redone n (undone n (snd (undo b))))"
    using Suc.IH undo_inv(1) [OF Suc.prems(1)] by blast
  moreover have "redone (Suc n) (undone (Suc n) b) = snd (redo (redone n (undone n (snd (undo b)))))"
    using funpow_swap1 [of "\<lambda>b. snd (undo b)" n b] by simp
  ultimately show ?case
    using undo_redo_same_place [OF Suc.prems(1) h] by simp
qed

lemma same_place_content:
  "buffer_inv \<rho> saved b \<Longrightarrow> buffer_inv \<rho> saved c \<Longrightarrow> same_place b c \<Longrightarrow>
     content_of c = content_of b \<and> is_dirty c = is_dirty b"
  by (auto simp: buffer_inv_def same_place_def is_dirty_def)

lemma undone_stack: "buffer_inv \<rho> saved b \<Longrightarrow> n \<le> length (tb_undo_stack b) \<Longrightarrow>
   buffer_inv \<rho> saved (undone n b) \<and> length (tb_undo_stack (undone n b)) = length (tb_undo_stack b) - n"
proof (induction n)
  case (Suc n)
  then have inv: "buffer_inv \<rho> saved (undone n b)"
    and len: "length (tb_undo_stack (undone n b)) = length (tb_undo_stack b) - n" by auto
  obtain h hs where h: "tb_undo_stack (undone n b) = h # hs"
    using len Suc.prems(2) by (cases "tb_undo_stack (undone n b)") auto
  obtain b1 where "undo (undone n b) = (Ok True, b1)" "tb_undo_stack b1 = hs" "buffer_inv \<rho> saved b1"
    by (rule undo_step [OF inv h])
  then show ?case using len h by simp
qed simp

text \<open>A concrete buffer: the text ``ab'' with a newline, after an x has been put in front. The
  definitions that evaluate an edit are collected once.\<close>

lemmas edit_eval = apply_transaction_def text_edit_insert_def allocate_content_revision_def
  apply_edits_internal_def normalize_edits_for_storage_def validate_offset_for_storage_def piece_table_new_def
  is_char_boundary_def str_is_char_boundary_def is_cont_def text_range_caret_def text_range_new_def
  text_range_len_def apply_delta_def slice_to_string_def source_text_def piece_text_def Let_def str_slice_def
  update_line_starts_after_edits_def compute_line_starts_def replace_def piece_new_def piece_end_def
  piece_slice_def push_piece_def push_opt_def push_line_start_def apply_line_shift_def sat_add_def usize_max_def

definition demo_buffer :: text_buffer where
  "demo_buffer = \<lparr>tb_storage = \<lparr>pt_original = [97, 98, 10], pt_add = [120],
       pt_pieces = [\<lparr>pc_source = Add, pc_start = 0, pc_len = 1\<rparr>, \<lparr>pc_source = Original, pc_start = 0, pc_len = 3\<rparr>],
       pt_len = 4\<rparr>,
     tb_text_cache = None, tb_line_starts = [0, 4], tb_version = 1, tb_content_revision = 1,
     tb_saved_revision = 0, tb_next_content_revision = 2,
     tb_undo_stack = [\<lparr>he_edits = [\<lparr>te_range = \<lparr>tr_start = 0, tr_end = 1\<rparr>, te_replacement = []\<rparr>],
          he_before_revision = 0, he_after_revision = 1\<rparr>],
     tb_redo_stack = []\<rparr>"

lemma demo_content: "content_of demo_buffer = [120, 97, 98, 10]"
  by (simp add: demo_buffer_def to_text_def piece_text_def source_text_def str_slice_def piece_end_def)

lemma demo_reach: "buffer_reach [97, 98, 10] demo_buffer"
proof (rule reach_transaction)
  show "buffer_reach [97, 98, 10] (text_buffer_new [97, 98, 10])"
    by (rule reach_new) (simp_all add: is_cont_def usize_max_def)
  show "apply_transaction \<lparr>et_edits = [text_edit_insert 0 [120]]\<rparr> (text_buffer_new [97, 98, 10]) = (Ok (), demo_buffer)"
    by (simp add: edit_eval text_buffer_new_def demo_buffer_def)
qed (simp_all add: edits_text_ok_def text_edit_insert_def is_cont_def text_buffer_new_def usize_max_def demo_content)

subsection \<open>Properties of the history\<close>

text \<open>
  C5: on every reachable buffer, undo succeeds exactly as often as there are entries on its
  stack and never fails; as many redos then lead back to the same text and the same dirty flag.
\<close>

theorem undo_redo_round_trip:
  assumes "buffer_reach saved b" and "n \<le> length (tb_undo_stack b)"
  shows "fst (undo (undone n b)) = Ok (n < length (tb_undo_stack b))
    \<and> content_of (redone n (undone n b)) = content_of b
    \<and> is_dirty (redone n (undone n b)) = is_dirty b"
proof -
  obtain \<rho> where inv: "buffer_inv \<rho> saved b" using reach_inv [OF assms(1)] by blast
  have "fst (undo (undone n b)) = Ok (n < length (tb_undo_stack b))"
    using undo_inv(2) [of \<rho> saved "undone n b"] undone_stack [OF inv assms(2)]
    by (simp flip: length_greater_0_conv)
  then show ?thesis
    using undone_redone [OF inv assms(2)] same_place_content [OF inv] by blast
qed

theorem undo_redo_round_trip_witness:
  "let b = demo_buffer in
     fst (undo (undone 1 b)) = Ok (1 < length (tb_undo_stack b))
     \<and> content_of (redone 1 (undone 1 b)) = content_of b \<and> is_dirty (redone 1 (undone 1 b)) = is_dirty b"
  unfolding Let_def by (rule undo_redo_round_trip [OF demo_reach]) (simp add: demo_buffer_def)

text \<open>
  C23: a buffer that reports itself clean holds the text that was last saved, whatever sequence of
  edits, undos, redos and failed edits led to it.
\<close>

theorem clean_buffer_is_saved:
  assumes "buffer_reach saved b" and "\<not> is_dirty b"
  shows "fst (buffer_text b) = saved"
proof -
  obtain \<rho> where "buffer_inv \<rho> saved b" using reach_inv [OF assms(1)] by blast
  then show ?thesis
    using assms(2) by (auto simp: buffer_text_def with_text_content buffer_inv_def is_dirty_def)
qed

theorem clean_buffer_is_saved_witness:
  "fst (buffer_text (snd (undo demo_buffer))) = [97, 98, 10]"
  by (rule clean_buffer_is_saved [OF reach_undo [OF demo_reach prod.collapse [symmetric]]])
     (simp add: undo_def is_dirty_def demo_buffer_def edit_eval)

subsection \<open>Transactions\<close>

lemma apply_edits_fails:
  assumes "buffer_ok b" and "edits_text_ok es0" and "\<not> edits_ok (content_of b) 0 (sort_key (\<lambda>e. (te_start e, te_end e)) es0)"
  shows "\<exists>e. apply_edits_internal es0 b = Err e"
proof -
  let ?s = "sort_key (\<lambda>e. (te_start e, te_end e)) es0"
  have st: "pt_inv (tb_storage b)" using assms(1) by (simp add: buffer_ok_def)
  have "edits_text_ok ?s" using assms(2) by (simp add: edits_text_ok_def list_all_iff)
  then have "check_edits (tb_storage b) 0 ?s \<noteq> Ok ()" using check_edits_iff [OF st] assms(3) by blast
  then obtain e where "check_edits (tb_storage b) 0 ?s = Err e"
    by (cases "check_edits (tb_storage b) 0 ?s") auto
  then show ?thesis by (simp add: apply_edits_internal_def normalize_edits_for_storage_def)
qed

lemma apply_edits_sorted:
  assumes "buffer_ok b" and "edits_ok (content_of b) 0 (sort_key (\<lambda>e. (te_start e, te_end e)) es0)"
  shows "apply_edits_internal es0 b = apply_edits_internal (sort_key (\<lambda>e. (te_start e, te_end e)) es0) b"
proof -
  let ?s = "sort_key (\<lambda>e. (te_start e, te_end e)) es0"
  have st: "pt_inv (tb_storage b)" using assms(1) by (simp add: buffer_ok_def)
  have "normalize_edits_for_storage es0 (tb_storage b) = Ok ?s"
    using check_edits_iff [OF st edits_ok_text [OF assms(2)], of 0] assms(2)
    by (simp add: normalize_edits_for_storage_def)
  then show ?thesis using normalize_ok [OF st assms(2)] by (simp add: apply_edits_internal_def)
qed

text \<open>
  C17: a transaction on a reachable buffer is all or nothing. If its edits, sorted by position, fit
  the text and do not overlap, it succeeds and the text is the one with all of them made; otherwise
  it fails and only a revision number has been used up.
\<close>

theorem transaction_all_or_nothing:
  assumes "buffer_reach saved b" and "edits_text_ok (et_edits t)"
    and "es = sort_key (\<lambda>e. (te_start e, te_end e)) (et_edits t)"
    and "length (edited (content_of b) es) \<le> usize_max"
  shows "if edits_ok (content_of b) 0 es
    then fst (apply_transaction t b) = Ok () \<and> content_of (snd (apply_transaction t b)) = edited (content_of b) es
    else (\<exists>e. apply_transaction t b =
      (Err e, b\<lparr>tb_next_content_revision := sat_add (tb_next_content_revision b) 1\<rparr>))"
proof (cases "et_edits t = []")
  case True
  then show ?thesis using assms(3) by (simp add: apply_transaction_def edited_def)
next
  case False
  let ?b = "b\<lparr>tb_next_content_revision := sat_add (tb_next_content_revision b) 1\<rparr>"
  have ok: "buffer_ok ?b" using reach_ok [OF assms(1)] by (simp add: buffer_ok_def)
  show ?thesis
  proof (cases "edits_ok (content_of b) 0 es")
    case True
    obtain iv st where "apply_edits_internal es ?b = Ok (iv, ?b\<lparr>tb_storage := st, tb_text_cache := None,
        tb_line_starts := compute_line_starts (edited (content_of ?b) es), tb_version := sat_add (tb_version ?b) 1\<rparr>)"
      and "to_text st = edited (content_of ?b) es"
      by (rule apply_edits_run [OF ok, of es]) (use True assms(4) in simp_all)
    moreover have "apply_edits_internal (et_edits t) ?b = apply_edits_internal es ?b"
      using apply_edits_sorted [OF ok, of "et_edits t"] True assms(3) by simp
    ultimately show ?thesis
      using True False by (simp add: apply_transaction_def allocate_content_revision_def)
  next
    case bad: False
    then obtain e where "apply_edits_internal (et_edits t) ?b = Err e"
      using apply_edits_fails [OF ok assms(2)] assms(3) by auto
    then show ?thesis
      using bad False by (simp add: apply_transaction_def allocate_content_revision_def)
  qed
qed

theorem transaction_all_or_nothing_witness:
  "\<exists>e. apply_transaction \<lparr>et_edits = [text_edit_insert 9 [120]]\<rparr> demo_buffer =
      (Err e, demo_buffer\<lparr>tb_next_content_revision := sat_add (tb_next_content_revision demo_buffer) 1\<rparr>)"
proof -
  let ?t = "\<lparr>et_edits = [text_edit_insert 9 [120]]\<rparr>"
  let ?es = "sort_key (\<lambda>e. (te_start e, te_end e)) (et_edits ?t)"
  have "\<not> edits_ok (content_of demo_buffer) 0 ?es"
    by (simp add: demo_content text_edit_insert_def text_range_caret_def str_is_char_boundary_def)
  moreover have "length (edited (content_of demo_buffer) ?es) \<le> usize_max"
    by (simp add: demo_content text_edit_insert_def text_range_caret_def edited_def str_slice_def usize_max_def)
  moreover have "edits_text_ok (et_edits ?t)"
    by (simp add: edits_text_ok_def text_edit_insert_def is_cont_def)
  ultimately show ?thesis
    using transaction_all_or_nothing [OF demo_reach _ refl, of ?t] by (simp only: if_False)
qed

subsection \<open>Lines and columns\<close>

abbreviation line_of :: "nat list \<Rightarrow> nat \<Rightarrow> nat" where
  "line_of xs v \<equiv> (case binary_search xs v of Inr l \<Rightarrow> l | Inl nxt \<Rightarrow> nxt - 1)"

lemma line_of_iff:
  assumes "sorted_wrt (<) (x # xs)" and "x \<le> v"
  shows "line_of (x # xs) v = l \<longleftrightarrow>
    l < length (x # xs) \<and> (x # xs) ! l \<le> v \<and> (l + 1 < length (x # xs) \<longrightarrow> v < (x # xs) ! (l + 1))"
proof -
  let ?ys = "x # xs"
  let ?n = "length (takeWhile (\<lambda>y. y < v) ?ys)"
  let ?fits = "\<lambda>l. l < length ?ys \<and> ?ys ! l \<le> v \<and> (l + 1 < length ?ys \<longrightarrow> v < ?ys ! (l + 1))"
  have less: "i < j \<Longrightarrow> j < length ?ys \<Longrightarrow> ?ys ! i < ?ys ! j" for i j
    using assms(1) sorted_wrt_nth_less by blast
  have low: "j < ?n \<Longrightarrow> ?ys ! j < v" for j
    using set_takeWhileD [of "?ys ! j" "\<lambda>y. y < v" ?ys] takeWhile_nth [of j "\<lambda>y. y < v" ?ys]
      nth_mem [of j "takeWhile (\<lambda>y. y < v) ?ys"] by metis
  have high: "?n < length ?ys \<Longrightarrow> v \<le> ?ys ! ?n"
    using nth_length_takeWhile [of "\<lambda>y. y < v" ?ys] by (simp only: not_less)
  have len: "?n \<le> length ?ys" by (rule length_takeWhile_le)
  have fits: "?fits (line_of ?ys v)"
  proof (cases "?n < length ?ys \<and> ?ys ! ?n = v")
    case True
    then have "line_of ?ys v = ?n" by (simp add: binary_search_def Let_def)
    then show ?thesis using True less [of ?n "?n + 1"] by simp
  next
    case False
    then have n: "line_of ?ys v = ?n - 1" by (auto simp: binary_search_def Let_def simp del: takeWhile.simps)
    have pos: "0 < ?n" using False high assms(2) by (cases "x < v") auto
    have "?n < length ?ys \<Longrightarrow> v < ?ys ! ?n" using high False by linarith
    then show ?thesis using pos low [of "?n - 1"] len unfolding n by simp
  qed
  have unique: "l = m" if "?fits l" and "?fits m" for l m
  proof (rule ccontr)
    assume "l \<noteq> m"
    then consider "l < m" | "m < l" by linarith
    then show False
    proof cases
      case 1
      then have "?ys ! (l + 1) \<le> ?ys ! m" using less [of "l + 1" m] that by (cases "l + 1 = m") auto
      then show False using 1 that by simp
    next
      case 2
      then have "?ys ! (m + 1) \<le> ?ys ! l" using less [of "m + 1" l] that by (cases "m + 1 = l") auto
      then show False using 2 that by simp
    qed
  qed
  show ?thesis using fits unique by blast
qed

lemma starts_sorted: "sorted_wrt (<) (compute_line_starts t)"
  using newlines_range newlines_sorted by (fastforce simp: compute_line_starts_def)

lemma starts_bound: "l \<in> set (compute_line_starts t) \<Longrightarrow> l \<le> length t"
  using newlines_range [of l 0 t] by (auto simp: compute_line_starts_def)

text \<open>The end of a line, on a buffer whose line index is right: before its newline, or the end.\<close>

lemma line_end_offset_ok:
  assumes ok: "buffer_ok b" and l: "l < length (tb_line_starts b)"
  shows "line_end_offset b l = Some (if l + 1 < length (tb_line_starts b) then tb_line_starts b ! (l + 1) - 1
       else length (content_of b))"
    and "l + 1 < length (tb_line_starts b) \<Longrightarrow> tb_line_starts b ! l < tb_line_starts b ! (l + 1)"
    and "tb_line_starts b ! l \<le> length (content_of b)"
proof -
  have starts: "tb_line_starts b = compute_line_starts (content_of b)" and len: "pt_len (tb_storage b) = length (content_of b)"
    using ok by (simp_all add: buffer_ok_def pt_inv_def)
  show up: "tb_line_starts b ! l < tb_line_starts b ! (l + 1)" if "l + 1 < length (tb_line_starts b)"
    using that sorted_wrt_nth_less [OF starts_sorted, of l "l + 1" "content_of b"] starts by simp
  show top: "tb_line_starts b ! l \<le> length (content_of b)"
    using l starts_bound nth_mem unfolding starts by blast
  show "line_end_offset b l = Some (if l + 1 < length (tb_line_starts b) then tb_line_starts b ! (l + 1) - 1
       else length (content_of b))"
    using l up top len by (auto simp: line_end_offset_def)
qed

text \<open>
  On every reachable buffer the translations between byte offsets and positions are inverse to
  each other: an offset has the position exactly if the position has the offset. (The column must
  be small enough for the sum with a line start not to wrap around.)
\<close>

theorem line_col_round_trip:
  assumes "buffer_reach saved b" and "column + length (content_of b) \<le> usize_max"
  shows "offset_to_line_col b offset = Ok (line, column) \<longleftrightarrow> line_col_to_offset b (line, column) = Ok offset"
proof -
  have ok: "buffer_ok b" by (rule reach_ok [OF assms(1)])
  let ?s = "tb_line_starts b"
  have s: "?s = 0 # newlines_from 0 (content_of b)" "sorted_wrt (<) (0 # newlines_from 0 (content_of b))"
    using ok starts_sorted [of "content_of b"] by (simp_all add: buffer_ok_def compute_line_starts_def)
  have at: "line_of ?s offset = line \<longleftrightarrow> line < length ?s \<and> ?s ! line \<le> offset
      \<and> (line + 1 < length ?s \<longrightarrow> offset < ?s ! (line + 1))"
    unfolding s(1) by (rule line_of_iff [OF s(2)]) simp
  have valid: "validate_offset b offset = Ok () \<Longrightarrow> offset \<le> length (content_of b)"
    using ok boundary_le validate_storage_iff by (auto simp: validate_offset_def buffer_ok_def)
  have fst_eq: "offset_to_line_col b offset = Ok (line, column) \<longleftrightarrow>
      validate_offset b offset = Ok () \<and> line_of ?s offset = line \<and> column = offset - ?s ! line"
    by (auto simp: offset_to_line_col_def res_bind_eq_Ok Let_def)
  show ?thesis
  proof (cases "line < length ?s")
    case False
    then show ?thesis using at fst_eq by (auto simp: line_col_to_offset_def line_start_offset_def)
  next
    case True
    note le = line_end_offset_ok [OF ok True]
    have "(?s ! line + column) mod 2 ^ 64 = ?s ! line + column"
      using assms(2) le(3) by (simp add: usize_max_def)
    then have "line_col_to_offset b (line, column) = Ok offset \<longleftrightarrow>
        offset = ?s ! line + column \<and> validate_offset b offset = Ok ()
        \<and> offset \<le> (if line + 1 < length ?s then ?s ! (line + 1) - 1 else length (content_of b))"
      using True le(1) by (auto simp: line_col_to_offset_def line_start_offset_def res_bind_eq_Ok Let_def)
    then show ?thesis using fst_eq at True le(2) valid by auto
  qed
qed

theorem line_col_round_trip_witness:
  "offset_to_line_col demo_buffer 4 = Ok (1, 0) \<and> line_col_to_offset demo_buffer (1, 0) = Ok 4"
proof -
  have "0 + length (content_of demo_buffer) \<le> usize_max" by (simp add: demo_content usize_max_def)
  moreover have "offset_to_line_col demo_buffer 4 = Ok (1, 0)"
    by (simp add: offset_to_line_col_def validate_offset_def binary_search_def demo_buffer_def edit_eval)
  ultimately show ?thesis using line_col_round_trip [OF demo_reach] by blast
qed

text \<open>The lines, cut out of the text between the line starts.\<close>

fun lines_at :: "bytes \<Rightarrow> nat \<Rightarrow> nat list \<Rightarrow> bytes list" where
  "lines_at t s [] = [drop s t]"
| "lines_at t s (n # ns) = str_slice t s (n - 1) # lines_at t n ns"

fun joined :: "bytes list \<Rightarrow> bytes" where
  "joined [] = []"
| "joined [l] = l"
| "joined (l # ls) = l @ [0x0a] @ joined ls"

lemma joined_Cons: "ls \<noteq> [] \<Longrightarrow> joined (l # ls) = l @ [0x0a] @ joined ls"
  by (cases ls) simp_all

lemma lines_at_nonempty [simp]: "lines_at t s ns \<noteq> []"
  by (cases ns) simp_all

lemma joined_lines_at:
  "drop j t = u \<Longrightarrow> s \<le> j \<Longrightarrow> 0x0a \<notin> set (str_slice t s j) \<Longrightarrow>
   joined (lines_at t s (newlines_from j u)) = drop s t
   \<and> (\<forall>l\<in>set (lines_at t s (newlines_from j u)). 0x0a \<notin> set l)"
proof (induction u arbitrary: s j)
  case Nil
  then show ?case using str_slice_to_end [of s j t] by auto
next
  case (Cons c u)
  have j: "drop (j + 1) t = u" using Cons.prems(1) by (metis drop_Suc tl_drop list.sel(3) Suc_eq_plus1)
  have sl: "str_slice t s (j + 1) = str_slice t s j @ [c]"
    using str_slice_join [of s j "j + 1" t] Cons.prems(1,2) by (simp add: str_slice_def)
  show ?case
  proof (cases "c = 0x0a")
    case True
    have "str_slice t s j @ 0x0a # drop (j + 1) t = drop s t"
      using str_slice_to_end [OF Cons.prems(2), of t] Cons.prems(1) j True by simp
    then show ?thesis
      using Cons.IH [OF j, of "j + 1"] Cons.prems(3) True by (simp add: joined_Cons)
  next
    case False
    then show ?thesis using Cons.IH [OF j, of s] Cons.prems(2,3) sl by simp
  qed
qed

lemma lines_at_nth:
  "i \<le> length ns \<Longrightarrow> lines_at t s ns ! i =
    str_slice t ((s # ns) ! i) (if i < length ns then ns ! i - 1 else length t)"
  by (induction ns arbitrary: s i) (auto simp: str_slice_def nth_Cons split: nat.split)

lemma length_lines_at [simp]: "length (lines_at t s ns) = length ns + 1"
  by (induction ns arbitrary: s) simp_all

lemma line_text_at:
  assumes ok: "buffer_ok b"
  shows "map (line_text b) [0..<line_count b] = map Some (lines_at (content_of b) 0 (newlines_from 0 (content_of b)))"
proof (rule nth_equalityI)
  have starts: "tb_line_starts b = 0 # newlines_from 0 (content_of b)"
    using ok by (simp add: buffer_ok_def compute_line_starts_def)
  show "length (map (line_text b) [0..<line_count b]) =
      length (map Some (lines_at (content_of b) 0 (newlines_from 0 (content_of b))))"
    by (simp add: line_count_def starts)
  fix i assume "i < length (map (line_text b) [0..<line_count b])"
  then have i: "i < length (tb_line_starts b)" by (simp add: line_count_def)
  note le = line_end_offset_ok [OF ok i]
  have st: "pt_inv (tb_storage b)" using ok by (simp add: buffer_ok_def)
  have "line_text b i = Some (str_slice (content_of b) (tb_line_starts b ! i)
      (if i + 1 < length (tb_line_starts b) then tb_line_starts b ! (i + 1) - 1 else length (content_of b)))"
    using i le(1,3) le(2) [THEN Suc_leI]
    by (auto simp: line_text_def line_start_offset_def intro!: slice_to_string_text [OF st])
  then show "map (line_text b) [0..<line_count b] ! i =
      map Some (lines_at (content_of b) 0 (newlines_from 0 (content_of b))) ! i"
    using i by (simp add: lines_at_nth starts line_count_def del: upt_Suc)
qed

text \<open>
  The lines of a reachable buffer are its text cut at the newlines: none of them contains a
  newline, and joined by newlines they give the text back.
\<close>

theorem lines_partition_text:
  assumes "buffer_reach saved b"
  shows "\<exists>ls. map (line_text b) [0..<line_count b] = map Some ls
    \<and> joined ls = content_of b \<and> (\<forall>l\<in>set ls. 0x0a \<notin> set l)"
  using line_text_at [OF reach_ok [OF assms]] joined_lines_at [of 0 "content_of b" "content_of b" 0]
  by (intro exI [of _ "lines_at (content_of b) 0 (newlines_from 0 (content_of b))"]) simp

theorem lines_partition_text_witness:
  "\<exists>ls. map (line_text demo_buffer) [0..<line_count demo_buffer] = map Some ls
    \<and> joined ls = content_of demo_buffer \<and> (\<forall>l\<in>set ls. 0x0a \<notin> set l)"
  by (rule lines_partition_text [OF demo_reach])

end
