(* ===== verification/Editor_Search.thy ===== *)
theory Editor_Search
  imports Buffer_History
begin

text \<open>
  Search and replace (\<^verbatim>\<open>search.rs\<close>), the word under a position (\<^verbatim>\<open>word.rs\<close>), cursors (\<^verbatim>\<open>cursor.rs\<close>)
  and the set of cursors (\<^verbatim>\<open>multicursor.rs\<close>) of \<^verbatim>\<open>hapcli-editor-core\<close>. A character is the list of its
  bytes: a byte that is not a continuation byte with the continuation bytes that follow. Which
  characters outside ASCII are alphanumeric is a table of the Unicode standard and a parameter here.
\<close>

subsection \<open>Characters of a string\<close>

text \<open>\<^verbatim>\<open>str::char_indices\<close>, with the index of the first byte given.\<close>

function char_indices :: "nat \<Rightarrow> bytes \<Rightarrow> (nat \<times> bytes) list" where
  "char_indices i [] = []"
| "char_indices i (b # bs) =
     (i, b # takeWhile is_cont bs)
     # char_indices (i + 1 + length (takeWhile is_cont bs)) (dropWhile is_cont bs)"
  by pat_completeness auto
termination
  by (relation "measure (\<lambda>(i, s). length s)") (auto simp: le_imp_less_Suc length_dropWhile_le)

definition first_char :: "bytes \<Rightarrow> bytes option" where
  "first_char s = (case char_indices 0 s of [] \<Rightarrow> None | (_, c) # _ \<Rightarrow> Some c)"

definition last_char :: "bytes \<Rightarrow> bytes option" where
  "last_char s = (if s = [] then None else Some (snd (last (char_indices 0 s))))"

definition ascii_alphanumeric_byte :: "u8 \<Rightarrow> bool" where
  "ascii_alphanumeric_byte b \<longleftrightarrow> 48 \<le> b \<and> b \<le> 57 \<or> 65 \<le> b \<and> b \<le> 90 \<or> 97 \<le> b \<and> b \<le> 122"

definition is_alphanumeric :: "(bytes \<Rightarrow> bool) \<Rightarrow> bytes \<Rightarrow> bool" where
  "is_alphanumeric wide c = (case c of [b] \<Rightarrow> ascii_alphanumeric_byte b | _ \<Rightarrow> wide c)"

definition to_ascii_lowercase :: "u8 \<Rightarrow> u8" where
  "to_ascii_lowercase b = (if 65 \<le> b \<and> b \<le> 90 then b + 32 else b)"

definition eq_ignore_ascii_case :: "bytes \<Rightarrow> bytes \<Rightarrow> bool" where
  "eq_ignore_ascii_case s t \<longleftrightarrow> map to_ascii_lowercase s = map to_ascii_lowercase t"

text \<open>\<^verbatim>\<open>str::find\<close> of a substring.\<close>

definition str_find :: "bytes \<Rightarrow> bytes \<Rightarrow> nat option" where
  "str_find s query = List.find (\<lambda>i. take (length query) (drop i s) = query) [0..<length s + 1]"

subsection \<open>The source's operations: search\<close>

record find_options =
  fo_case_sensitive :: bool
  fo_whole_word :: bool

record find_match =
  fm_range :: text_range

definition is_word_char :: "(bytes \<Rightarrow> bool) \<Rightarrow> bytes \<Rightarrow> bool" where
  "is_word_char wide c \<longleftrightarrow> c = [95] \<or> is_alphanumeric wide c"

definition is_whole_word_match :: "(bytes \<Rightarrow> bool) \<Rightarrow> bytes \<Rightarrow> nat \<Rightarrow> nat \<Rightarrow> bool" where
  "is_whole_word_match wide source start end =
     (let before = last_char (take start source);
          after = first_char (drop end source) in
      \<not> (case before of Some c \<Rightarrow> is_word_char wide c | None \<Rightarrow> False)
      \<and> \<not> (case after of Some c \<Rightarrow> is_word_char wide c | None \<Rightarrow> False))"

definition next_match :: "bytes \<Rightarrow> bytes \<Rightarrow> nat \<Rightarrow> bool \<Rightarrow> nat option" where
  "next_match source query search_from case_sensitive =
     (if case_sensitive
      then map_option (\<lambda>relative. search_from + relative) (str_find (drop search_from source) query)
      else List.find (\<lambda>start.
             let end = start + length query in
             end \<le> length source \<and> str_is_char_boundary source end
             \<and> eq_ignore_ascii_case (str_slice source start end) query)
           (map (\<lambda>(relative, _). search_from + relative) (char_indices 0 (drop search_from source))))"

definition next_search_offset :: "bytes \<Rightarrow> nat \<Rightarrow> nat" where
  "next_search_offset source start =
     (case first_char (drop start source) of Some c \<Rightarrow> start + length c | None \<Rightarrow> length source)"

lemma find_Some_mem: "List.find P xs = Some x \<Longrightarrow> x \<in> set xs \<and> P x"
  by (induction xs) (auto split: if_splits)

lemma next_match_from: "next_match source query from cs = Some start \<Longrightarrow> from \<le> start"
  by (auto simp: next_match_def split: if_splits dest!: find_Some_mem)

lemma next_search_offset_up: "start < length source \<Longrightarrow> start < next_search_offset source start"
  by (cases "drop start source") (auto simp: next_search_offset_def first_char_def)

lemma next_search_offset_end: "length source \<le> start \<Longrightarrow> next_search_offset source start = length source"
  by (simp add: next_search_offset_def first_char_def)

function find_loop ::
    "(bytes \<Rightarrow> bool) \<Rightarrow> bytes \<Rightarrow> bytes \<Rightarrow> find_options \<Rightarrow> nat \<Rightarrow> find_match list" where
  "find_loop wide source query options search_from =
     (case next_match source query search_from (fo_case_sensitive options) of
        None \<Rightarrow> []
      | Some start \<Rightarrow>
          (let end = start + length query;
               hit = (if str_is_char_boundary source start \<and> str_is_char_boundary source end
                         \<and> (\<not> fo_whole_word options \<or> is_whole_word_match wide source start end)
                      then [\<lparr>fm_range = text_range_new start end\<rparr>] else []);
               next_from = next_search_offset source start in
           hit @ (if next_from \<ge> length source then []
                  else find_loop wide source query options next_from)))"
  by pat_completeness auto
termination
proof (relation "measure (\<lambda>(w, source, q, opts, from). length source - from)")
  fix wide source query options search_from start e hit next_from
  assume "next_match source query search_from (fo_case_sensitive options) = Some start"
    and n: "next_from = next_search_offset source start" and lt: "\<not> length source \<le> next_from"
  then have "search_from \<le> start" using next_match_from by blast
  moreover have "start < length source" using lt n next_search_offset_end [of source start] by (cases "start < length source") simp_all
  ultimately have "search_from < next_from" using n next_search_offset_up [of start source] by simp
  then show "((wide, source, query, options, next_from), (wide, source, query, options, search_from))
      \<in> measure (\<lambda>(w, source, q, opts, from). length source - from)"
    using lt by simp
qed simp

declare find_loop.simps [simp del]

definition find_all ::
    "(bytes \<Rightarrow> bool) \<Rightarrow> bytes \<Rightarrow> bytes \<Rightarrow> find_options \<Rightarrow> find_match list" where
  "find_all wide source query options =
     (if query = [] then [] else find_loop wide source query options 0)"

definition replace_all_transaction ::
    "(bytes \<Rightarrow> bool) \<Rightarrow> bytes \<Rightarrow> bytes \<Rightarrow> bytes \<Rightarrow> find_options \<Rightarrow> edit_transaction" where
  "replace_all_transaction wide source query replacement options =
     \<lparr>et_edits = map (\<lambda>hit. \<lparr>te_range = fm_range hit, te_replacement = replacement\<rparr>)
                     (find_all wide source query options)\<rparr>"

subsection \<open>The search finds every match\<close>

lemma find_least: "sorted_wrt (<) xs \<Longrightarrow> List.find P xs = Some (x::nat) \<Longrightarrow> y \<in> set xs \<Longrightarrow> y < x \<Longrightarrow> \<not> P y"
  by (induction xs) (auto split: if_splits dest: find_Some_mem)

lemma char_indices_ge: "(j, c) \<in> set (char_indices i s) \<Longrightarrow> i \<le> j"
  by (induction i s rule: char_indices.induct) auto

lemma char_indices_sorted: "sorted_wrt (<) (map fst (char_indices i s))"
  by (induction i s rule: char_indices.induct) (auto dest: char_indices_ge)

lemma takeWhile_split: "j < length (takeWhile P xs) \<Longrightarrow> P (xs ! j)"
  using takeWhile_nth [of j P xs] nth_mem set_takeWhileD by metis

lemma dropWhile_at: "j < length (dropWhile P xs) \<Longrightarrow> dropWhile P xs ! j = xs ! (length (takeWhile P xs) + j)"
  by (metis dropWhile_eq_drop nth_drop length_takeWhile_le)

lemma char_indices_set:
  "str_ok s \<Longrightarrow> fst ` set (char_indices i s) = {i + j |j. j < length s \<and> \<not> is_cont (s ! j)}"
proof (induction i s rule: char_indices.induct)
  case (2 i b bs)
  let ?k = "length (takeWhile is_cont bs)"
  have len: "length bs = ?k + length (dropWhile is_cont bs)"
    by (metis length_append takeWhile_dropWhile_id)
  have "str_ok (dropWhile is_cont bs)"
    unfolding str_ok_def using hd_dropWhile by blast
  then have IH: "fst ` set (char_indices (i + 1 + ?k) (dropWhile is_cont bs)) =
      {i + 1 + ?k + j |j. j < length (dropWhile is_cont bs) \<and> \<not> is_cont (dropWhile is_cont bs ! j)}"
    by (rule "2.IH")
  have "(\<exists>j. x = i + j \<and> j < length (b # bs) \<and> \<not> is_cont ((b # bs) ! j)) \<longleftrightarrow>
      x = i \<or> (\<exists>j. x = i + 1 + ?k + j \<and> j < length (dropWhile is_cont bs) \<and> \<not> is_cont (dropWhile is_cont bs ! j))" for x
  proof
    assume "\<exists>j. x = i + j \<and> j < length (b # bs) \<and> \<not> is_cont ((b # bs) ! j)"
    then obtain j where j: "x = i + j" "j < length (b # bs)" "\<not> is_cont ((b # bs) ! j)" by blast
    show "x = i \<or> (\<exists>j. x = i + 1 + ?k + j \<and> j < length (dropWhile is_cont bs) \<and> \<not> is_cont (dropWhile is_cont bs ! j))"
    proof (cases j)
      case (Suc m)
      then have "?k \<le> m" using j(3) takeWhile_split [of m is_cont bs] by (cases "m < ?k") auto
      then show ?thesis
        using Suc j len dropWhile_at [of "m - ?k" is_cont bs] by (intro disjI2 exI [of _ "m - ?k"]) auto
    qed (use j in simp)
  next
    assume "x = i \<or> (\<exists>j. x = i + 1 + ?k + j \<and> j < length (dropWhile is_cont bs) \<and> \<not> is_cont (dropWhile is_cont bs ! j))"
    then show "\<exists>j. x = i + j \<and> j < length (b # bs) \<and> \<not> is_cont ((b # bs) ! j)"
    proof
      assume "x = i"
      then show ?thesis using "2.prems" by (intro exI [of _ 0]) simp
    next
      assume "\<exists>j. x = i + 1 + ?k + j \<and> j < length (dropWhile is_cont bs) \<and> \<not> is_cont (dropWhile is_cont bs ! j)"
      then obtain j where "x = i + 1 + ?k + j" "j < length (dropWhile is_cont bs)" "\<not> is_cont (dropWhile is_cont bs ! j)"
        by blast
      then show ?thesis using len dropWhile_at [of j is_cont bs] by (intro exI [of _ "1 + ?k + j"]) simp
    qed
  qed
  then show ?case using IH by auto
qed simp

text \<open>What it means that the query is found at an index, before the boundaries and the word test.\<close>

definition match_at :: "bytes \<Rightarrow> bytes \<Rightarrow> bool \<Rightarrow> nat \<Rightarrow> bool" where
  "match_at source query case_sensitive i =
     (if case_sensitive then str_slice source i (i + length query) = query
      else i + length query \<le> length source \<and> str_is_char_boundary source (i + length query)
        \<and> eq_ignore_ascii_case (str_slice source i (i + length query)) query)"

lemma next_match_insensitive:
  assumes "str_ok (drop from source)" and "from \<le> length source"
  shows "next_match source query from False = List.find (match_at source query False)
      (map ((+) from) (map fst (char_indices 0 (drop from source))))"
    and "sorted_wrt (<) (map ((+) from) (map fst (char_indices 0 (drop from source))))"
    and "i \<in> set (map ((+) from) (map fst (char_indices 0 (drop from source)))) \<longleftrightarrow>
      from \<le> i \<and> i < length source \<and> \<not> is_cont (source ! i)"
proof -
  show "next_match source query from False = List.find (match_at source query False)
      (map ((+) from) (map fst (char_indices 0 (drop from source))))"
    by (auto simp: next_match_def match_at_def [abs_def] Let_def case_prod_unfold comp_def intro!: arg_cong2 [where f = List.find])
  show "sorted_wrt (<) (map ((+) from) (map fst (char_indices 0 (drop from source))))"
    using char_indices_sorted [of 0 "drop from source"] by (simp add: sorted_wrt_map)
  have "i \<in> set (map ((+) from) (map fst (char_indices 0 (drop from source)))) \<longleftrightarrow>
      (\<exists>j. i = from + j \<and> j < length (drop from source) \<and> \<not> is_cont (drop from source ! j))"
    unfolding set_map char_indices_set [OF assms(1)] by auto
  also have "\<dots> \<longleftrightarrow> from \<le> i \<and> i < length source \<and> \<not> is_cont (source ! i)"
    using assms(2) by (auto intro!: exI [of _ "i - from"])
  finally show "i \<in> set (map ((+) from) (map fst (char_indices 0 (drop from source)))) \<longleftrightarrow>
      from \<le> i \<and> i < length source \<and> \<not> is_cont (source ! i)" .
qed

lemma match_at_sensitive:
  "query \<noteq> [] \<Longrightarrow> str_slice source i (i + length query) = query \<Longrightarrow> i < length source"
  by (cases "i < length source") (auto simp: str_slice_def)

lemma next_match_spec:
  assumes q: "query \<noteq> []" and fr: "from \<le> length source" and ok: "str_ok (drop from source)"
  shows "case next_match source query from cs of
      None \<Rightarrow> \<forall>i. from \<le> i \<longrightarrow> i < length source \<longrightarrow> \<not> is_cont (source ! i) \<longrightarrow> \<not> match_at source query cs i
    | Some start \<Rightarrow> from \<le> start \<and> start < length source \<and> match_at source query cs start
        \<and> (\<forall>i. from \<le> i \<longrightarrow> i < start \<longrightarrow> \<not> is_cont (source ! i) \<longrightarrow> \<not> match_at source query cs i)"
proof (cases cs)
  case False
  note f = next_match_insensitive [OF ok fr]
  show ?thesis
  proof (cases "next_match source query from False")
    case None
    then have "\<not> match_at source query False i" if "from \<le> i" "i < length source" "\<not> is_cont (source ! i)" for i
      using that f(3) [of i] unfolding f(1) find_None_iff by blast
    then show ?thesis using False None by simp
  next
    case (Some start)
    note hit = Some [unfolded f(1)]
    then have "from \<le> start \<and> start < length source \<and> match_at source query False start"
      using find_Some_mem [OF hit] f(3) by blast
    moreover have "\<not> match_at source query False i" if "from \<le> i" "i < start" "\<not> is_cont (source ! i)" for i
      using find_least [OF f(2) hit, of i] f(3) [of i] that calculation by auto
    ultimately show ?thesis using False Some by simp
  qed
next
  case True
  have m: "take (length query) (drop i (drop from source)) = query \<longleftrightarrow> match_at source query True (from + i)" for i
    by (simp add: match_at_def str_slice_def add.commute)
  have lt: "match_at source query True i \<Longrightarrow> i < length source" for i
    using match_at_sensitive [OF q] by (simp add: match_at_def)
  show ?thesis
  proof (cases "str_find (drop from source) query")
    case None
    then have "\<not> match_at source query True (from + j)" if "from + j < length source" for j
      using that m by (auto simp: str_find_def find_None_iff dest!: spec [of _ j])
    then show ?thesis using True None by (auto simp: next_match_def le_iff_add)
  next
    case (Some j)
    have "match_at source query True (from + j)"
      using find_Some_mem [OF Some [unfolded str_find_def]] m by blast
    moreover have "\<not> match_at source query True (from + i)" if "i < j" for i
      using find_least [OF _ Some [unfolded str_find_def], of i] find_Some_mem [OF Some [unfolded str_find_def]] m that
      by (simp add: sorted_wrt_upt del: upt_Suc)
    ultimately show ?thesis using True Some lt by (auto simp: next_match_def le_iff_add)
  qed
qed

lemma next_search_offset_skips:
  assumes "start < length source"
  shows "\<forall>i. start < i \<longrightarrow> i < next_search_offset source start \<longrightarrow> i < length source \<longrightarrow> is_cont (source ! i)"
    and "str_ok (drop (next_search_offset source start) source)"
    and "next_search_offset source start \<le> length source"
proof -
  obtain b bs where d: "drop start source = b # bs" using assms by (cases "drop start source") auto
  then have bs: "bs = drop (start + 1) source" by (metis Suc_eq_plus1 drop_Suc list.sel(3) tl_drop)
  have off: "next_search_offset source start = start + 1 + length (takeWhile is_cont bs)"
    by (simp add: next_search_offset_def first_char_def d)
  show "\<forall>i. start < i \<longrightarrow> i < next_search_offset source start \<longrightarrow> i < length source \<longrightarrow> is_cont (source ! i)"
  proof (intro allI impI)
    fix i assume i: "start < i" "i < next_search_offset source start" "i < length source"
    then have "is_cont (bs ! (i - start - 1))" using takeWhile_split [of "i - start - 1" is_cont bs] by (simp add: off)
    then show "is_cont (source ! i)" using i by (simp add: bs)
  qed
  have "drop (next_search_offset source start) source = dropWhile is_cont bs"
    by (simp add: off dropWhile_eq_drop bs add.commute)
  then show "str_ok (drop (next_search_offset source start) source)"
    unfolding str_ok_def using hd_dropWhile by metis
  have "length (takeWhile is_cont bs) \<le> length bs" by (rule length_takeWhile_le)
  then show "next_search_offset source start \<le> length source" using assms by (simp add: off bs)
qed

definition hit_at :: "(bytes \<Rightarrow> bool) \<Rightarrow> bytes \<Rightarrow> bytes \<Rightarrow> find_options \<Rightarrow> nat \<Rightarrow> bool" where
  "hit_at wide source query options i \<longleftrightarrow> match_at source query (fo_case_sensitive options) i
     \<and> str_is_char_boundary source i \<and> str_is_char_boundary source (i + length query)
     \<and> (\<not> fo_whole_word options \<or> is_whole_word_match wide source i (i + length query))"

lemma filter_upt_none: "(\<And>i. a \<le> i \<Longrightarrow> i < b \<Longrightarrow> \<not> P i) \<Longrightarrow> filter P [a..<b] = []"
  by auto

lemma filter_upt_first:
  assumes "a \<le> s" "s < c" "c \<le> b" and "\<And>i. a \<le> i \<Longrightarrow> i < s \<Longrightarrow> \<not> P i" and "\<And>i. s < i \<Longrightarrow> i < c \<Longrightarrow> \<not> P i"
  shows "filter P [a..<b] = (if P s then [s] else []) @ filter P [c..<b]"
proof -
  have "[a..<b] = [a..<s] @ [s] @ [s + 1..<c] @ [c..<b]"
    using assms(1-3) upt_add_eq_append [of a s "b - s"] upt_conv_Cons [of s b] upt_add_eq_append [of "s + 1" c "b - c"]
    by simp
  then show ?thesis using assms(4,5) by (simp add: filter_upt_none)
qed

lemma find_loop_hits:
  assumes q: "query \<noteq> []" and ok: "str_ok source"
  shows "from \<le> length source \<Longrightarrow> str_ok (drop from source) \<Longrightarrow>
    find_loop wide source query options from =
      map (\<lambda>i. \<lparr>fm_range = \<lparr>tr_start = i, tr_end = i + length query\<rparr>\<rparr>)
        (filter (hit_at wide source query options) [from..<length source])"
proof (induction "length source - from" arbitrary: "from" rule: less_induct)
  case less
  let ?hit = "hit_at wide source query options"
  have at: "?hit i \<Longrightarrow> i < length source \<Longrightarrow> \<not> is_cont (source ! i) \<and> match_at source query (fo_case_sensitive options) i" for i
    using ok by (cases "i = 0") (auto simp: hit_at_def str_is_char_boundary_def str_ok_def hd_conv_nth)
  note spec = next_match_spec [OF q less.prems, of "fo_case_sensitive options"]
  show ?case
  proof (cases "next_match source query from (fo_case_sensitive options)")
    case None
    then have "filter ?hit [from..<length source] = []"
      using spec at by (intro filter_upt_none) auto
    then show ?thesis using None by (simp add: find_loop.simps)
  next
    case (Some start)
    let ?n = "next_search_offset source start"
    have start: "from \<le> start" "start < length source" "match_at source query (fo_case_sensitive options) start"
      "\<And>i. from \<le> i \<Longrightarrow> i < start \<Longrightarrow> \<not> is_cont (source ! i) \<Longrightarrow> \<not> match_at source query (fo_case_sensitive options) i"
      using spec Some by auto
    note nx = next_search_offset_skips [OF start(2)] next_search_offset_up [OF start(2)]
    have split: "filter ?hit [from..<length source] =
        (if ?hit start then [start] else []) @ filter ?hit [?n..<length source]"
    proof (rule filter_upt_first [OF start(1) nx(4,3)])
      show "\<not> ?hit i" if "from \<le> i" "i < start" for i using at start that by force
      show "\<not> ?hit i" if "start < i" "i < ?n" for i using at nx(1,3) that by force
    qed
    have rest: "find_loop wide source query options ?n =
        map (\<lambda>i. \<lparr>fm_range = \<lparr>tr_start = i, tr_end = i + length query\<rparr>\<rparr>) (filter ?hit [?n..<length source])"
      if "?n < length source" using less.hyps [OF _ nx(3,2)] nx(4) start(1) that by simp
    show ?thesis
      using Some start(3) rest
      by (subst find_loop.simps) (auto simp: split hit_at_def text_range_new_def Let_def)
  qed
qed

text \<open>
  C18: searching finds every occurrence and nothing else, in order: the result of \<open>find_all\<close> is the
  list of all positions at which the query, read with or without regard to case, stands on
  character boundaries and, if asked for, between word boundaries.
\<close>

theorem find_all_finds_every_match:
  assumes "str_ok source"
  shows "find_all wide source query options =
    (if query = [] then [] else
       map (\<lambda>i. \<lparr>fm_range = \<lparr>tr_start = i, tr_end = i + length query\<rparr>\<rparr>)
         (filter (hit_at wide source query options) [0..<length source]))"
  using find_loop_hits [of query source 0] assms by (simp add: find_all_def)

theorem find_all_finds_every_match_witness:
  "find_all (\<lambda>_. True) [97, 66, 97, 98] [97, 98] \<lparr>fo_case_sensitive = False, fo_whole_word = False\<rparr> =
     [\<lparr>fm_range = \<lparr>tr_start = 0, tr_end = 2\<rparr>\<rparr>, \<lparr>fm_range = \<lparr>tr_start = 2, tr_end = 4\<rparr>\<rparr>]"
proof -
  have "filter (hit_at (\<lambda>_. True) [97, 66, 97, 98] [97, 98] \<lparr>fo_case_sensitive = False, fo_whole_word = False\<rparr>)
      [0..<length [97, 66, 97, 98 :: u8]] = [0, 2]"
    by code_simp
  then show ?thesis by (subst find_all_finds_every_match) (simp_all add: is_cont_def)
qed

text \<open>
  Matches may overlap, and then the transaction that is to replace them all is rejected:
  replacing ``aa'' in ``aaa'' fails with overlapping edits instead of replacing anything.
\<close>

theorem replace_all_overlapping_rejected:
  "fst (apply_transaction
      (replace_all_transaction wide [97, 97, 97] [97, 97] [98] \<lparr>fo_case_sensitive = True, fo_whole_word = False\<rparr>)
      (text_buffer_new [97, 97, 97])) = Err (OverlappingEdits 1)"
proof -
  have "find_all wide [97, 97, 97] [97, 97] \<lparr>fo_case_sensitive = True, fo_whole_word = False\<rparr> =
      [\<lparr>fm_range = \<lparr>tr_start = 0, tr_end = 2\<rparr>\<rparr>, \<lparr>fm_range = \<lparr>tr_start = 1, tr_end = 3\<rparr>\<rparr>]"
    by (simp add: find_all_def find_loop.simps next_match_def str_find_def next_search_offset_def first_char_def
      str_is_char_boundary_def is_cont_def text_range_new_def Let_def)
  then show ?thesis
    by (simp add: replace_all_transaction_def text_buffer_new_def edit_eval)
qed

end
