(* ===== verification/Editor_Cursor.thy ===== *)
theory Editor_Cursor
  imports Editor_Search
begin

text \<open>
  Cursors (\<^verbatim>\<open>cursor.rs\<close>), the set of cursors (\<^verbatim>\<open>multicursor.rs\<close>) and the word at a position
  (\<^verbatim>\<open>word.rs\<close>) of \<^verbatim>\<open>hapcli-editor-core\<close>. Movement by grapheme uses the segmentation library that
  is a parameter of the buffer's functions; what is used of it is that a grapheme ends on a
  character boundary.
\<close>

subsection \<open>The source's operations\<close>

record cursor =
  cu_selection :: selection
  cu_preferred_column :: "nat option"

definition cursor_new :: "nat \<Rightarrow> cursor" where
  "cursor_new offset = \<lparr>cu_selection = selection_caret offset, cu_preferred_column = None\<rparr>"

definition set_selection :: "selection \<Rightarrow> cursor \<Rightarrow> cursor" where
  "set_selection sel c = c\<lparr>cu_selection := sel, cu_preferred_column := None\<rparr>"

definition set_head :: "nat \<Rightarrow> bool \<Rightarrow> cursor \<Rightarrow> cursor" where
  "set_head head extending c =
     c\<lparr>cu_selection := (if extending then \<lparr>se_anchor = se_anchor (cu_selection c), se_head = head\<rparr>
                        else selection_caret head),
       cu_preferred_column := None\<rparr>"

definition move_left ::
    "(bytes \<Rightarrow> nat option) \<Rightarrow> text_buffer \<Rightarrow> bool \<Rightarrow> cursor \<Rightarrow> cursor \<times> text_buffer" where
  "move_left last_grapheme b extending c =
     (if \<not> extending \<and> \<not> is_caret (cu_selection c)
      then (set_head (tr_start (selection_range (cu_selection c))) extending c, b)
      else let (next, b1) = previous_grapheme_offset last_grapheme b (se_head (cu_selection c)) in
           (set_head next extending c, b1))"

definition move_right ::
    "(bytes \<Rightarrow> nat option) \<Rightarrow> text_buffer \<Rightarrow> bool \<Rightarrow> cursor \<Rightarrow> cursor \<times> text_buffer" where
  "move_right first_grapheme b extending c =
     (if \<not> extending \<and> \<not> is_caret (cu_selection c)
      then (set_head (tr_end (selection_range (cu_selection c))) extending c, b)
      else let (next, b1) = next_grapheme_offset first_grapheme b (se_head (cu_selection c)) in
           (set_head next extending c, b1))"

definition move_to :: "nat \<Rightarrow> bool \<Rightarrow> cursor \<Rightarrow> cursor" where
  "move_to offset extending c = set_head offset extending c"

definition preferred_column_or :: "nat \<Rightarrow> cursor \<Rightarrow> nat \<times> cursor" where
  "preferred_column_or current_column c =
     (case cu_preferred_column c of
        Some column \<Rightarrow> (column, c)
      | None \<Rightarrow> (current_column, c\<lparr>cu_preferred_column := Some current_column\<rparr>))"

definition move_to_with_preferred_column :: "nat \<Rightarrow> bool \<Rightarrow> nat \<Rightarrow> cursor \<Rightarrow> cursor" where
  "move_to_with_preferred_column offset extending preferred_column c =
     c\<lparr>cu_selection := (if extending then \<lparr>se_anchor = se_anchor (cu_selection c), se_head = offset\<rparr>
                        else selection_caret offset),
       cu_preferred_column := Some preferred_column\<rparr>"

record cursor_set =
  cs_selections :: "selection list"

definition cursor_set_new :: "selection \<Rightarrow> cursor_set" where
  "cursor_set_new primary = \<lparr>cs_selections = [primary]\<rparr>"

definition primary :: "cursor_set \<Rightarrow> selection" where
  "primary c = (case cs_selections c of s # _ \<Rightarrow> s | [] \<Rightarrow> selection_caret 0)"

definition set_primary :: "selection \<Rightarrow> cursor_set \<Rightarrow> cursor_set" where
  "set_primary sel c = c\<lparr>cs_selections := [sel]\<rparr>"

definition selection_key :: "selection \<Rightarrow> nat \<times> nat" where
  "selection_key s = (tr_start (selection_range s), tr_end (selection_range s))"

definition normalize_selections :: "selection list \<Rightarrow> selection list" where
  "normalize_selections sels = remdups_adj (sort_key selection_key sels)"

definition add_selection :: "selection \<Rightarrow> cursor_set \<Rightarrow> cursor_set" where
  "add_selection sel c =
     (if sel \<in> set (cs_selections c) then c
      else c\<lparr>cs_selections := normalize_selections (cs_selections c @ [sel])\<rparr>)"

definition clear_secondary :: "cursor_set \<Rightarrow> cursor_set" where
  "clear_secondary c = c\<lparr>cs_selections := [primary c]\<rparr>"

fun floor_char_boundary :: "bytes \<Rightarrow> nat \<Rightarrow> nat" where
  "floor_char_boundary text byte =
     (if byte > 0 \<and> \<not> str_is_char_boundary text byte then floor_char_boundary text (byte - 1) else byte)"

declare floor_char_boundary.simps [simp del]

definition word_is_word_char :: "(bytes \<Rightarrow> bool) \<Rightarrow> bytes \<Rightarrow> bool" where
  "word_is_word_char wide c \<longleftrightarrow> c = [95] \<or> c = [36] \<or> is_alphanumeric wide c"

definition word_at :: "(bytes \<Rightarrow> bool) \<Rightarrow> bytes \<Rightarrow> nat \<Rightarrow> bytes" where
  "word_at wide source offset0 =
     (let offset = floor_char_boundary source (min (min offset0 (length source)) (length source));
          start = (case List.find (\<lambda>(_, ch). \<not> word_is_word_char wide ch)
                          (rev (char_indices 0 (take offset source))) of
                     Some (index, ch) \<Rightarrow> index + length ch | None \<Rightarrow> 0);
          end = (case List.find (\<lambda>(_, ch). \<not> word_is_word_char wide ch)
                          (char_indices 0 (drop offset source)) of
                     Some (index, ch) \<Rightarrow> offset + index | None \<Rightarrow> length source) in
      str_slice source start end)"

subsection \<open>Cursors stay on characters\<close>

definition cursor_on :: "bytes \<Rightarrow> cursor \<Rightarrow> bool" where
  "cursor_on t c \<longleftrightarrow> str_is_char_boundary t (se_anchor (cu_selection c)) \<and> str_is_char_boundary t (se_head (cu_selection c))"

text \<open>What is used of the segmentation library: the first grapheme of a string ends, and the last
  one begins, on a character boundary.\<close>

definition segments :: "(bytes \<Rightarrow> nat option) \<Rightarrow> (bytes \<Rightarrow> nat option) \<Rightarrow> bool" where
  "segments first_grapheme last_grapheme \<longleftrightarrow>
     (\<forall>t n. str_ok t \<longrightarrow> first_grapheme t = Some n \<longrightarrow> str_is_char_boundary t n)
     \<and> (\<forall>t n. str_ok t \<longrightarrow> last_grapheme t = Some n \<longrightarrow> str_is_char_boundary t (length t - n))"

lemma set_head_on:
  "cursor_on t c \<Longrightarrow> str_is_char_boundary t head \<Longrightarrow> cursor_on t (set_head head extending c)"
  by (simp add: cursor_on_def set_head_def selection_caret_def)

lemma selection_range_on:
  "cursor_on t c \<Longrightarrow> str_is_char_boundary t (tr_start (selection_range (cu_selection c)))
     \<and> str_is_char_boundary t (tr_end (selection_range (cu_selection c)))"
  by (simp add: cursor_on_def selection_range_def text_range_new_def)

lemma with_text_storage [simp]: "content_of (snd (with_text f b)) = content_of b"
  by (simp add: with_text_def Let_def)

lemma boundary_of_rest:
  "str_is_char_boundary (drop i t) n \<Longrightarrow> str_is_char_boundary t i \<Longrightarrow> str_is_char_boundary t (min (i + n) (length t))"
  by (auto simp: str_is_char_boundary_def min_def)

lemma boundary_of_front:
  "str_is_char_boundary (take i t) n \<Longrightarrow> str_is_char_boundary t i \<Longrightarrow> str_is_char_boundary t n"
  by (auto simp: str_is_char_boundary_def min_def split: if_splits)

lemma next_grapheme_on:
  assumes "buffer_ok b" and "segments f l" and "str_is_char_boundary (content_of b) i"
  shows "str_is_char_boundary (content_of b) (fst (next_grapheme_offset f b i))
    \<and> content_of (snd (next_grapheme_offset f b i)) = content_of b"
proof -
  have st: "pt_inv (tb_storage b)" and len: "pt_len (tb_storage b) = length (content_of b)"
    using assms(1) by (simp_all add: buffer_ok_def pt_inv_def)
  have ok: "str_ok (drop i (content_of b))" by (rule str_ok_drop [OF pt_inv_ok [OF st] assms(3)])
  have "str_is_char_boundary (content_of b)
      (min (i + (case f (drop i (content_of b)) of Some n \<Rightarrow> n | None \<Rightarrow> 0)) (length (content_of b)))"
    using assms(2,3) ok boundary_of_rest [of i "content_of b"] boundary_le [OF assms(3)]
    by (auto simp: segments_def split: option.split)
  then show ?thesis
    using assms(1) by (simp add: next_grapheme_offset_def len with_text_content Let_def) (simp add: str_is_char_boundary_def)
qed

lemma previous_grapheme_on:
  assumes "buffer_ok b" and "segments f l" and "str_is_char_boundary (content_of b) i"
  shows "str_is_char_boundary (content_of b) (fst (previous_grapheme_offset l b i))
    \<and> content_of (snd (previous_grapheme_offset l b i)) = content_of b"
proof -
  have st: "pt_inv (tb_storage b)" using assms(1) by (simp add: buffer_ok_def)
  have ok: "str_ok (take i (content_of b))" by (rule str_ok_take [OF pt_inv_ok [OF st]])
  have "str_is_char_boundary (content_of b) (i - (case l (take i (content_of b)) of Some n \<Rightarrow> n | None \<Rightarrow> 0))"
  proof (cases "l (take i (content_of b))")
    case (Some n)
    then have "str_is_char_boundary (take i (content_of b)) (i - n)"
      using assms(2) ok boundary_le [OF assms(3)] by (auto simp: segments_def min.absorb2 dest!: spec [of _ "take i (content_of b)"])
    then show ?thesis using boundary_of_front [OF _ assms(3)] by (simp add: Some)
  qed (use assms(3) in simp)
  then show ?thesis
    using assms(1) by (simp add: previous_grapheme_offset_def with_text_content Let_def) (simp add: str_is_char_boundary_def)
qed


text \<open>Characters themselves are a segmentation.\<close>

lemma char_indices_last:
  "s \<noteq> [] \<Longrightarrow> fst (last (char_indices i s)) + length (snd (last (char_indices i s))) = i + length s"
proof (induction i s rule: char_indices.induct)
  case (2 i b bs)
  have len: "length bs = length (takeWhile is_cont bs) + length (dropWhile is_cont bs)"
    by (metis length_append takeWhile_dropWhile_id)
  have ne: "dropWhile is_cont bs \<noteq> [] \<Longrightarrow> char_indices j (dropWhile is_cont bs) \<noteq> []" for j
    by (cases "dropWhile is_cont bs") auto
  show ?case
    using 2 len ne by (cases "dropWhile is_cont bs = []") (auto simp del: dropWhile_eq_Nil_conv)
qed simp

lemma last_char_boundary:
  assumes "str_ok t" and "last_char t = Some c"
  shows "str_is_char_boundary t (length t - length c)"
proof -
  have t: "t \<noteq> []" and c: "c = snd (last (char_indices 0 t))"
    using assms(2) by (auto simp: last_char_def split: if_splits)
  then have ne: "char_indices 0 t \<noteq> []" by (cases t) auto
  let ?j = "fst (last (char_indices 0 t))"
  have "?j \<in> fst ` set (char_indices 0 t)" using ne by simp
  then have "?j < length t" "\<not> is_cont (t ! ?j)" using char_indices_set [OF assms(1), of 0] by auto
  moreover have "length t - length c = ?j" using char_indices_last [OF t, of 0] c by simp
  ultimately show ?thesis by (simp add: str_is_char_boundary_def)
qed

lemma first_char_boundary:
  assumes "first_char t = Some c"
  shows "str_is_char_boundary t (length c)"
proof -
  have t: "0 < length t" using assms by (cases t) (auto simp: first_char_def)
  have n: "next_search_offset t 0 = length c" by (simp add: next_search_offset_def assms)
  show ?thesis
    using next_search_offset_skips(2,3) [OF t] boundary_append [of "drop (length c) t" "take (length c) t"]
    unfolding n by (simp add: min_def split: if_splits)
qed

lemma chars_segment: "segments (\<lambda>t. map_option length (first_char t)) (\<lambda>t. map_option length (last_char t))"
  using first_char_boundary last_char_boundary by (auto simp: segments_def)


subsection \<open>Which cursor is the primary one\<close>

definition set_inv :: "cursor_set \<Rightarrow> bool" where
  "set_inv c \<longleftrightarrow> cs_selections c \<noteq> [] \<and> sorted (map selection_key (cs_selections c)) \<and> distinct (cs_selections c)"

lemma remdups_adj_distinct_id: "distinct xs \<Longrightarrow> remdups_adj xs = xs"
  by (induction xs rule: remdups_adj.induct) auto

lemma add_selection_inv: "set_inv c \<Longrightarrow> set_inv (add_selection s c)"
  by (auto simp: set_inv_def add_selection_def normalize_selections_def remdups_adj_distinct_id
      dest: arg_cong [where f = length])

lemma add_selection_set: "set (cs_selections (add_selection s c)) = insert s (set (cs_selections c))"
  by (auto simp: add_selection_def normalize_selections_def)

lemma add_all:
  "set_inv c \<Longrightarrow> set_inv (fold add_selection ss c)
     \<and> set (cs_selections (fold add_selection ss c)) = set (cs_selections c) \<union> set ss"
  by (induction ss arbitrary: c) (auto simp: add_selection_inv add_selection_set)

text \<open>
  The primary cursor of a set is the one that comes first in the text, not the one the set was
  created with: after any selections have been added, \<open>primary\<close> is one of them with the least
  range, every selection is there once, and clearing the secondary cursors keeps this one.
\<close>

theorem primary_is_leftmost:
  "primary (fold add_selection ss (cursor_set_new p)) \<in> set (p # ss)
   \<and> list_all (\<lambda>s. selection_key (primary (fold add_selection ss (cursor_set_new p))) \<le> selection_key s) (p # ss)
   \<and> distinct (cs_selections (fold add_selection ss (cursor_set_new p)))
   \<and> set (cs_selections (fold add_selection ss (cursor_set_new p))) = set (p # ss)
   \<and> cs_selections (clear_secondary (fold add_selection ss (cursor_set_new p)))
       = [primary (fold add_selection ss (cursor_set_new p))]"
proof -
  let ?c = "fold add_selection ss (cursor_set_new p)"
  have all: "set_inv ?c" "set (cs_selections ?c) = set (p # ss)"
    using add_all [of "cursor_set_new p" ss] by (auto simp: set_inv_def cursor_set_new_def)
  obtain x xs where x: "cs_selections ?c = x # xs" using all(1) by (cases "cs_selections ?c") (auto simp: set_inv_def)
  have "primary ?c = x" by (simp add: primary_def x)
  moreover have "\<forall>s\<in>set (p # ss). selection_key x \<le> selection_key s"
    using all x by (auto simp: set_inv_def simp flip: all(2))
  moreover have "x \<in> set (p # ss)" using all(2) x by (metis list.set_intros(1))
  ultimately show ?thesis using all by (simp add: clear_secondary_def list_all_iff set_inv_def)
qed

end
