(* ===== verification/Editor_Utf16.thy ===== *)
theory Editor_Utf16
  imports Editor_Cursor
begin

text \<open>
  Offsets in UTF-16 units for input methods and text fields, \<^verbatim>\<open>hapcli-editor-core/src/utf16.rs\<close>. A
  character of four bytes takes two units, every other character one. Slicing with a range whose
  start lies behind its end panics in the source and is \<open>None\<close> here.
\<close>

subsection \<open>The source's operations\<close>

definition str_chars :: "bytes \<Rightarrow> bytes list" where
  "str_chars s = map snd (char_indices 0 s)"

definition char_len_utf16 :: "bytes \<Rightarrow> nat" where
  "char_len_utf16 c = (if length c = 4 then 2 else 1)"

definition utf16_len :: "bytes \<Rightarrow> nat" where
  "utf16_len s = sum_list (map char_len_utf16 (str_chars s))"

fun byte_index_loop :: "nat \<Rightarrow> nat \<Rightarrow> nat \<Rightarrow> (nat \<times> bytes) list \<Rightarrow> nat" where
  "byte_index_loop len offset utf16_count [] = len"
| "byte_index_loop len offset utf16_count ((byte_index, ch) # rest) =
     (if utf16_count \<ge> offset then byte_index
      else byte_index_loop len offset (utf16_count + char_len_utf16 ch) rest)"

definition byte_index_for_utf16 :: "bytes \<Rightarrow> nat \<Rightarrow> nat" where
  "byte_index_for_utf16 s offset = byte_index_loop (length s) offset 0 (char_indices 0 s)"

definition replace_utf16 :: "bytes \<Rightarrow> (nat \<times> nat) option \<Rightarrow> bytes \<Rightarrow> bytes option" where
  "replace_utf16 s utf16_range replacement =
     (let (a, b) = (case utf16_range of Some r \<Rightarrow> r | None \<Rightarrow> (utf16_len s, utf16_len s));
          start = byte_index_for_utf16 s a;
          end = byte_index_for_utf16 s b in
      if start \<le> end then Some (take start s @ replacement @ drop end s) else None)"

definition utf16_slice :: "bytes \<Rightarrow> nat \<Rightarrow> nat \<Rightarrow> bytes option" where
  "utf16_slice s a b =
     (let start = byte_index_for_utf16 s a; end = byte_index_for_utf16 s b in
      if start \<le> end then Some (str_slice s start end) else None)"

definition utf16_offset_for_byte_index :: "bytes \<Rightarrow> nat \<Rightarrow> nat" where
  "utf16_offset_for_byte_index s byte_offset =
     utf16_len (take (floor_char_boundary s (min byte_offset (length s))) s)"

definition utf16_offset_for_char_index :: "bytes \<Rightarrow> nat \<Rightarrow> nat" where
  "utf16_offset_for_char_index s char_offset = sum_list (map char_len_utf16 (take char_offset (str_chars s)))"

fun char_index_loop :: "nat \<Rightarrow> nat \<Rightarrow> nat \<Rightarrow> bytes list \<Rightarrow> nat" where
  "char_index_loop offset char_index utf16_count [] = char_index"
| "char_index_loop offset char_index utf16_count (ch # rest) =
     (if utf16_count \<ge> offset then char_index
      else char_index_loop offset (char_index + 1) (utf16_count + char_len_utf16 ch) rest)"

definition char_index_for_utf16 :: "bytes \<Rightarrow> nat \<Rightarrow> nat" where
  "char_index_for_utf16 s offset = char_index_loop offset 0 0 (str_chars s)"

fun previous_boundary_loop :: "nat \<Rightarrow> nat \<Rightarrow> nat \<Rightarrow> bytes list \<Rightarrow> nat" where
  "previous_boundary_loop offset previous utf16_count [] = previous"
| "previous_boundary_loop offset previous utf16_count (ch # rest) =
     (if utf16_count \<ge> offset then previous
      else previous_boundary_loop offset utf16_count (utf16_count + char_len_utf16 ch) rest)"

definition previous_utf16_boundary :: "bytes \<Rightarrow> nat \<Rightarrow> nat" where
  "previous_utf16_boundary s offset = previous_boundary_loop offset 0 0 (str_chars s)"

fun next_boundary_loop :: "nat \<Rightarrow> nat \<Rightarrow> nat \<Rightarrow> bytes list \<Rightarrow> nat" where
  "next_boundary_loop len offset utf16_count [] = len"
| "next_boundary_loop len offset utf16_count (ch # rest) =
     (let next = utf16_count + char_len_utf16 ch in
      if utf16_count \<ge> offset then next else next_boundary_loop len offset next rest)"

definition next_utf16_boundary :: "bytes \<Rightarrow> nat \<Rightarrow> nat" where
  "next_utf16_boundary s offset = next_boundary_loop (utf16_len s) offset 0 (str_chars s)"

fun previous_word_loop :: "bytes \<Rightarrow> bool \<Rightarrow> (nat \<times> bytes) list \<Rightarrow> nat" where
  "previous_word_loop front saw_word [] = 0"
| "previous_word_loop front saw_word ((byte_index, ch) # rest) =
     (if is_whitespace ch then
        (if saw_word then utf16_len (take (byte_index + length ch) front)
         else previous_word_loop front saw_word rest)
      else previous_word_loop front True rest)"

definition previous_word_boundary :: "bytes \<Rightarrow> nat \<Rightarrow> nat" where
  "previous_word_boundary s offset =
     (let front = take (byte_index_for_utf16 s offset) s in
      previous_word_loop front False (rev (char_indices 0 front)))"

fun next_word_loop :: "bytes \<Rightarrow> nat \<Rightarrow> bool \<Rightarrow> (nat \<times> bytes) list \<Rightarrow> nat" where
  "next_word_loop s current saw_word [] = utf16_len s"
| "next_word_loop s current saw_word ((relative_byte, ch) # rest) =
     (if is_whitespace ch then
        (if saw_word then utf16_len (take (current + relative_byte) s)
         else next_word_loop s current saw_word rest)
      else next_word_loop s current True rest)"

definition next_word_boundary :: "bytes \<Rightarrow> nat \<Rightarrow> nat" where
  "next_word_boundary s offset =
     (let current = byte_index_for_utf16 s offset in
      next_word_loop s current False (char_indices 0 (drop current s)))"

fun line_ranges_loop :: "nat \<Rightarrow> nat \<Rightarrow> bytes list \<Rightarrow> (nat \<times> nat) list" where
  "line_ranges_loop start offset [] = [(start, offset)]"
| "line_ranges_loop start offset (ch # rest) =
     (if ch = [10]
      then (start, offset) # line_ranges_loop (offset + char_len_utf16 ch) (offset + char_len_utf16 ch) rest
      else line_ranges_loop start (offset + char_len_utf16 ch) rest)"

definition line_ranges_utf16 :: "bytes \<Rightarrow> (nat \<times> nat) list" where
  "line_ranges_utf16 s = line_ranges_loop 0 0 (str_chars s)"

definition line_range_for_utf16_offset :: "bytes \<Rightarrow> nat \<Rightarrow> nat \<times> nat" where
  "line_range_for_utf16_offset s offset =
     (case List.find (\<lambda>r. offset \<le> snd r) (line_ranges_utf16 s) of
        Some r \<Rightarrow> r | None \<Rightarrow> (utf16_len s, utf16_len s))"

definition line_start_for_utf16_offset :: "bytes \<Rightarrow> nat \<Rightarrow> nat" where
  "line_start_for_utf16_offset s offset = fst (line_range_for_utf16_offset s offset)"

definition line_end_for_utf16_offset :: "bytes \<Rightarrow> nat \<Rightarrow> nat" where
  "line_end_for_utf16_offset s offset = snd (line_range_for_utf16_offset s offset)"

definition control_k_delete_end :: "bytes \<Rightarrow> nat \<Rightarrow> nat" where
  "control_k_delete_end s offset =
     (let line_end = line_end_for_utf16_offset s offset in
      if line_end > offset then line_end else next_utf16_boundary s offset)"

definition transpose_text_at_utf16_offset :: "bytes \<Rightarrow> nat \<Rightarrow> (bytes \<times> nat) option" where
  "transpose_text_at_utf16_offset s offset =
     (let chars = str_chars s; text_len = utf16_len s in
      if length chars < 2 then None
      else
        let right = (if offset \<ge> text_len then length chars - 1
                     else min (char_index_for_utf16 s offset) (length chars - 1)) in
        if right = 0 then None
        else
          let left = right - 1;
              swapped = chars[left := chars ! right, right := chars ! left];
              next_caret = (if offset \<ge> text_len then text_len
                            else utf16_offset_for_char_index (concat swapped) (right + 1)) in
          Some (concat swapped, next_caret))"

definition vertical_line_navigation_destination :: "bytes \<Rightarrow> nat \<Rightarrow> bool \<Rightarrow> nat" where
  "vertical_line_navigation_destination s offset down =
     (let ranges = line_ranges_utf16 s in
      if ranges = [] then 0
      else
        let line_index = (case position (\<lambda>r. offset \<le> snd r) ranges of
                            Some i \<Rightarrow> i | None \<Rightarrow> length ranges - 1);
            column = offset - fst (ranges ! line_index) in
        if down then
          (if line_index + 1 < length ranges
           then let next = ranges ! (line_index + 1) in fst next + min column (snd next - fst next)
           else utf16_len s)
        else if line_index = 0 then 0
        else let previous = ranges ! (line_index - 1) in
             fst previous + min column (snd previous - fst previous))"

definition previous_char_start :: "bytes \<Rightarrow> nat \<Rightarrow> nat" where
  "previous_char_start s byte_index =
     (let cs = char_indices 0 (take byte_index s) in if cs = [] then 0 else fst (last cs))"

lemma char_indices_eq_Nil [simp]: "char_indices i s = [] \<longleftrightarrow> s = []"
  by (cases s) auto

lemma char_indices_nonempty: "(j, c) \<in> set (char_indices i s) \<Longrightarrow> c \<noteq> []"
  by (induction i s rule: char_indices.induct) auto

lemma previous_char_start_less: "0 < n \<Longrightarrow> previous_char_start s n < n"
proof (cases "take n s = []")
  case False
  assume "0 < n"
  let ?l = "last (char_indices 0 (take n s))"
  have "?l \<in> set (char_indices 0 (take n s))" using False by simp
  then have "0 < length (snd ?l)" using char_indices_nonempty by (metis length_greater_0_conv prod.collapse)
  moreover have "fst ?l + length (snd ?l) = length (take n s)" using char_indices_last [OF False, of 0] by simp
  moreover have "length (take n s) \<le> n" by simp
  ultimately have "fst ?l < n" by linarith
  then show ?thesis using False by (simp add: previous_char_start_def Let_def)
qed (simp add: previous_char_start_def)

text \<open>The two loops of \<^verbatim>\<open>word_range_for_utf16_offset\<close>.\<close>

function word_start_loop :: "bytes \<Rightarrow> nat \<Rightarrow> nat" where
  "word_start_loop s start =
     (if start > 0 then
        (let previous = previous_char_start s start in
         case first_char (drop previous s) of
           None \<Rightarrow> start
         | Some ch \<Rightarrow> if is_whitespace ch then start else word_start_loop s previous)
      else start)"
  by pat_completeness auto
termination
  by (relation "measure (\<lambda>(s, start). start)") (auto simp: previous_char_start_less)

lemma first_char_nonempty: "first_char s = Some c \<Longrightarrow> c \<noteq> []"
  by (cases s) (auto simp: first_char_def)

function word_end_loop :: "bytes \<Rightarrow> nat \<Rightarrow> nat" where
  "word_end_loop s end =
     (if end < length s then
        (case first_char (drop end s) of
           None \<Rightarrow> end
         | Some ch \<Rightarrow> if is_whitespace ch then end else word_end_loop s (end + length ch))
      else end)"
  by pat_completeness auto
termination
  by (relation "measure (\<lambda>(s, end). length s - end)") (auto dest: first_char_nonempty intro!: diff_less_mono2)

declare word_start_loop.simps [simp del] word_end_loop.simps [simp del]

definition starts_with_whitespace :: "bytes \<Rightarrow> bool" where
  "starts_with_whitespace s = (case first_char s of Some ch \<Rightarrow> is_whitespace ch | None \<Rightarrow> False)"

definition word_range_for_utf16_offset :: "bytes \<Rightarrow> nat \<Rightarrow> nat \<times> nat" where
  "word_range_for_utf16_offset s offset =
     (let text_len = utf16_len s in
      if text_len = 0 then (0, 0)
      else
        let byte_index0 = byte_index_for_utf16 s (min offset text_len);
            byte_index1 = (if byte_index0 = length s \<and> byte_index0 > 0
                           then previous_char_start s byte_index0 else byte_index0);
            byte_index = (if starts_with_whitespace (drop byte_index1 s) \<and> byte_index1 > 0
                          then let previous = previous_char_start s byte_index1 in
                               if \<not> starts_with_whitespace (drop previous s) then previous else byte_index1
                          else byte_index1) in
        (utf16_offset_for_byte_index s (word_start_loop s byte_index),
         utf16_offset_for_byte_index s (word_end_loop s byte_index)))"

subsection \<open>Bytes and UTF-16 units\<close>

lemma takeWhile_str_ok: "str_ok q \<Longrightarrow> takeWhile is_cont q = [] \<and> dropWhile is_cont q = q"
  by (cases q) auto

lemma char_indices_append:
  "str_ok q \<Longrightarrow> char_indices i (p @ q) = char_indices i p @ char_indices (i + length p) q"
proof (induction i p rule: char_indices.induct)
  case (2 i b bs)
  show ?case
  proof (cases "list_all is_cont bs")
    case True
    then have all: "takeWhile is_cont bs = bs" "dropWhile is_cont bs = []"
      by (simp_all add: takeWhile_eq_all_conv list_all_iff)
    have "takeWhile is_cont (bs @ q) = bs @ takeWhile is_cont q" "dropWhile is_cont (bs @ q) = dropWhile is_cont q"
      using True by (auto simp: list_all_iff intro!: takeWhile_append2 dropWhile_append2)
    then have app: "takeWhile is_cont (bs @ q) = bs" "dropWhile is_cont (bs @ q) = q"
      unfolding takeWhile_str_ok [OF "2.prems", THEN conjunct1] takeWhile_str_ok [OF "2.prems", THEN conjunct2] by (simp_all only: append_Nil2)
    show ?thesis unfolding append_Cons char_indices.simps app all by simp
  next
    case False
    then obtain x where x: "x \<in> set bs" "\<not> is_cont x" by (auto simp: list_all_iff)
    have len: "length bs = length (takeWhile is_cont bs) + length (dropWhile is_cont bs)"
      by (metis length_append takeWhile_dropWhile_id)
    show ?thesis
      using "2.IH" [OF "2.prems"] takeWhile_append1 [of x bs is_cont q, OF x] dropWhile_append1 [of x bs is_cont q, OF x] len
      by (simp add: add.assoc)
  qed
qed simp

lemma char_indices_shift: "map snd (char_indices i s) = map snd (char_indices j s)"
  by (induction i s arbitrary: j rule: char_indices.induct) auto

lemma utf16_len_indices: "utf16_len s = sum_list (map (char_len_utf16 \<circ> snd) (char_indices i s))"
  using char_indices_shift [of i s 0] by (simp add: utf16_len_def str_chars_def flip: map_map)

lemma char_len_pos: "1 \<le> char_len_utf16 c" "char_len_utf16 c \<le> 2"
  by (simp_all add: char_len_utf16_def)

text \<open>Where the loop stops: after as many characters as begin before the offset.\<close>

abbreviation units :: "(nat \<times> bytes) list \<Rightarrow> nat" where
  "units cs \<equiv> sum_list (map (char_len_utf16 \<circ> snd) cs)"

lemma byte_index_loop_exact:
  "byte_index_loop len (n + units cp) n (cp @ cq) = (case cq of [] \<Rightarrow> len | (i, c) # _ \<Rightarrow> i)"
proof (induction cp arbitrary: n)
  case Nil
  then show ?case by (auto split: list.split)
next
  case (Cons x cp)
  then show ?case using Cons.IH [of "n + char_len_utf16 (snd x)"] char_len_pos [of "snd x"]
    by (cases x) (simp add: add.assoc)
qed

lemma byte_index_loop_split:
  "\<exists>cp cq. cs = cp @ cq \<and> byte_index_loop len off n cs = (case cq of [] \<Rightarrow> len | (i, c) # _ \<Rightarrow> i)
     \<and> (cq = [] \<or> off \<le> n + units cp) \<and> (cp = [] \<or> n + units cp \<le> off + 1)"
proof (induction cs arbitrary: n)
  case (Cons x cs)
  show ?case
  proof (cases "n \<ge> off")
    case True
    then show ?thesis by (intro exI [of _ "[]"] exI [of _ "x # cs"]) (cases x, simp)
  next
    case False
    obtain cp cq where IH: "cs = cp @ cq"
      "byte_index_loop len off (n + char_len_utf16 (snd x)) cs = (case cq of [] \<Rightarrow> len | (i, c) # _ \<Rightarrow> i)"
      "cq = [] \<or> off \<le> n + char_len_utf16 (snd x) + units cp" "cp = [] \<or> n + char_len_utf16 (snd x) + units cp \<le> off + 1"
      using Cons.IH by blast
    have "n + units (x # cp) \<le> off + 1"
      using IH(4) False char_len_pos(2) [of "snd x"] by auto
    moreover have "byte_index_loop len off n (x # cs) = (case cq of [] \<Rightarrow> len | (i, c) # _ \<Rightarrow> i)"
      using IH(2) False by (cases x) simp
    moreover have "x # cs = (x # cp) @ cq" "cq = [] \<or> off \<le> n + units (x # cp)"
      using IH(1,3) by (auto simp: add.assoc)
    ultimately show ?thesis by blast
  qed
qed simp

lemma floor_of_boundary: "str_is_char_boundary s i \<Longrightarrow> floor_char_boundary s i = i"
  by (simp add: floor_char_boundary.simps)

lemma boundary_drop_ok: "str_ok s \<Longrightarrow> str_is_char_boundary s i \<Longrightarrow> char_indices 0 s = char_indices 0 (take i s) @ char_indices i (drop i s)"
  using char_indices_append [OF str_ok_drop, of s i 0 "take i s"] boundary_le [of s i] by simp

lemma offset_of_boundary:
  "str_is_char_boundary s i \<Longrightarrow> utf16_offset_for_byte_index s i = units (char_indices 0 (take i s))"
  using boundary_le [of s i] by (simp add: utf16_offset_for_byte_index_def floor_of_boundary utf16_len_indices [of _ 0])

lemma indices_before:
  assumes ok: "str_ok s" and cs: "char_indices 0 s = cp @ x # r" and bd: "str_is_char_boundary s (fst x)"
  shows "char_indices 0 (take (fst x) s) = cp"
proof -
  let ?before = "filter (\<lambda>y. fst y < fst x)"
  have "?before (char_indices 0 s) = cp"
    using char_indices_sorted [of 0 s] by (auto simp: cs sorted_wrt_append filter_id_conv filter_empty_conv)
  moreover have "fst y < fst x" if "y \<in> set (char_indices 0 (take (fst x) s))" for y
  proof -
    have "fst y \<in> fst ` set (char_indices 0 (take (fst x) s))" using that by simp
    then show ?thesis using char_indices_set [OF str_ok_take [OF ok], of 0 "fst x"] by auto
  qed
  moreover have "\<not> fst y < fst x" if "y \<in> set (char_indices (fst x) (drop (fst x) s))" for y
    using char_indices_ge [of "fst y" "snd y"] that by fastforce
  ultimately show ?thesis
    unfolding boundary_drop_ok [OF ok bd] by (simp add: filter_id_conv filter_empty_conv)
qed

text \<open>
  C40: on every string the two translations fit together: a UTF-16 offset always leads to a
  character boundary; a boundary translated to units leads back to itself; and an offset translated to
  bytes and back is the same offset, one more if it lies inside a surrogate pair, or the end.
\<close>

theorem utf16_offsets_round_trip:
  assumes "str_ok s"
  shows "str_is_char_boundary s (byte_index_for_utf16 s offset)
    \<and> (str_is_char_boundary s i \<longrightarrow> byte_index_for_utf16 s (utf16_offset_for_byte_index s i) = i)
    \<and> (offset \<le> utf16_len s \<longrightarrow> utf16_offset_for_byte_index s (byte_index_for_utf16 s offset) \<in> {offset, offset + 1})"
proof (intro conjI impI)
  have sp: "\<exists>cp cq. char_indices 0 s = cp @ cq \<and> byte_index_for_utf16 s offset = (case cq of [] \<Rightarrow> length s | (i, c) # _ \<Rightarrow> i)
     \<and> (cq = [] \<or> offset \<le> units cp) \<and> (cp = [] \<or> units cp \<le> offset + 1)"
    using byte_index_loop_split [of "char_indices 0 s" "length s" offset 0] by (simp add: byte_index_for_utf16_def)
  then obtain cp cq where cs: "char_indices 0 s = cp @ cq"
    "byte_index_for_utf16 s offset = (case cq of [] \<Rightarrow> length s | (i, c) # _ \<Rightarrow> i)"
    "cq = [] \<or> offset \<le> units cp" "cp = [] \<or> units cp \<le> offset + 1" by blast
  have head: "\<not> is_cont (s ! j) \<and> j < length s" if "cq = (j, c) # r" for j c r
  proof -
    have "j \<in> fst ` set (char_indices 0 s)" using cs(1) that by force
    then show ?thesis using char_indices_set [OF assms, of 0] by auto
  qed
  show bd: "str_is_char_boundary s (byte_index_for_utf16 s offset)"
    using head by (auto simp: cs(2) str_is_char_boundary_def split: list.split)
  show "byte_index_for_utf16 s (utf16_offset_for_byte_index s i) = i" if b: "str_is_char_boundary s i"
  proof -
    have "byte_index_for_utf16 s (utf16_offset_for_byte_index s i) =
        (case char_indices i (drop i s) of [] \<Rightarrow> length s | (j, c) # _ \<Rightarrow> j)"
      using byte_index_loop_exact [of "length s" 0 "char_indices 0 (take i s)" "char_indices i (drop i s)"]
      by (simp add: byte_index_for_utf16_def offset_of_boundary [OF b] boundary_drop_ok [OF assms b])
    then show ?thesis using boundary_le [OF b] by (cases "drop i s") auto
  qed
  let ?j = "byte_index_for_utf16 s offset"
  have "char_indices 0 (take ?j s) = cp"
  proof (cases cq)
    case (Cons x r)
    then have "fst x = ?j" using cs(2) by (cases x) simp
    then show ?thesis using indices_before [OF assms, of cp x r] cs(1) Cons bd by simp
  qed (use cs in simp)
  then show "utf16_offset_for_byte_index s ?j \<in> {offset, offset + 1}" if "offset \<le> utf16_len s"
    using offset_of_boundary [OF bd] cs that utf16_len_indices [of s 0] by (cases "cq = []") auto
qed

theorem utf16_offsets_round_trip_witness:
  "utf16_offset_for_byte_index [97, 0xF0, 0x9F, 0x98, 0x84, 98] (byte_index_for_utf16 [97, 0xF0, 0x9F, 0x98, 0x84, 98] 2) \<in> {2, 3}
   \<and> byte_index_for_utf16 [97, 0xF0, 0x9F, 0x98, 0x84, 98]
        (utf16_offset_for_byte_index [97, 0xF0, 0x9F, 0x98, 0x84, 98] 5) = 5"
proof -
  have "str_ok [97, 0xF0, 0x9F, 0x98, 0x84, 98]" "2 \<le> utf16_len [97, 0xF0, 0x9F, 0x98, 0x84, 98]"
    "str_is_char_boundary [97, 0xF0, 0x9F, 0x98, 0x84, 98] 5"
    by code_simp+
  then show ?thesis using utf16_offsets_round_trip [of "[97, 0xF0, 0x9F, 0x98, 0x84, 98]" 2 5] by simp
qed

end
