(* ===== verification/Backpressure.thy ===== *)
theory Backpressure
  imports Prelude Rust_Str
begin

text \<open>
  Flow control of terminal output (\<^verbatim>\<open>hapcli-terminal/src/backpressure.rs\<close> and \<^verbatim>\<open>activity.rs\<close>): drain
  budgets and reports, the channel between a worker and its session that is bounded by bytes, the
  guard that keeps a UTF-8 character from being cut at a chunk boundary, and the window that finds
  a marker across chunks. Each critical section of the channel is one definition on the state behind
  the mutex. Waiting on the condition variable or on the notifier is a state of the producer; the
  condition variable forgets a wake-up nobody waits for, the notifier stores one.
\<close>

subsection \<open>The source's operations: budgets and reports\<close>

definition LOCAL_PTY_READ_BUFFER_BYTES :: nat where "LOCAL_PTY_READ_BUFFER_BYTES = 8 * 1024"
definition LOCAL_MAX_LOCKED_PARSE_BYTES :: nat where "LOCAL_MAX_LOCKED_PARSE_BYTES = 64 * 1024"
definition MAGIC_DETECT_OVERLAP_BYTES :: nat where "MAGIC_DETECT_OVERLAP_BYTES = 128"
definition UTF8_RESIDUAL_MAX_BYTES :: nat where "UTF8_RESIDUAL_MAX_BYTES = 4"
definition TRANSPORT_OUTPUT_BACKLOG_BYTES :: nat where "TRANSPORT_OUTPUT_BACKLOG_BYTES = 1024 * 1024"
definition NATIVE_INTERACTIVE_DRAIN_BYTES :: nat where "NATIVE_INTERACTIVE_DRAIN_BYTES = 32 * 1024"
definition NATIVE_NORMAL_DRAIN_BYTES :: nat where "NATIVE_NORMAL_DRAIN_BYTES = 128 * 1024"
definition NATIVE_THROUGHPUT_DRAIN_BYTES :: nat where "NATIVE_THROUGHPUT_DRAIN_BYTES = 256 * 1024"
definition DEFAULT_MAX_EVENTS_PER_DRAIN :: nat where "DEFAULT_MAX_EVENTS_PER_DRAIN = 512"

text \<open>Durations in nanoseconds; the longest has 64 bits of seconds.\<close>

definition duration_max :: nat where
  "duration_max = (2 ^ 64 - 1) * 1000000000 + 999999999"

record terminal_drain_budget =
  db_max_bytes :: nat
  db_max_events :: nat
  db_max_duration :: nat

definition drain_budget_new :: "nat \<Rightarrow> nat \<Rightarrow> terminal_drain_budget" where
  "drain_budget_new max_bytes max_events =
     \<lparr>db_max_bytes = max_bytes, db_max_events = max_events, db_max_duration = duration_max\<rparr>"

definition with_max_duration :: "nat \<Rightarrow> terminal_drain_budget \<Rightarrow> terminal_drain_budget" where
  "with_max_duration d b = b\<lparr>db_max_duration := d\<rparr>"

definition time_exhausted :: "terminal_drain_budget \<Rightarrow> nat \<Rightarrow> bool" where
  "time_exhausted b elapsed \<longleftrightarrow> elapsed \<ge> db_max_duration b"

definition budget_interactive :: terminal_drain_budget where
  "budget_interactive = drain_budget_new NATIVE_INTERACTIVE_DRAIN_BYTES DEFAULT_MAX_EVENTS_PER_DRAIN"

definition budget_normal :: terminal_drain_budget where
  "budget_normal = drain_budget_new NATIVE_NORMAL_DRAIN_BYTES DEFAULT_MAX_EVENTS_PER_DRAIN"

definition budget_throughput :: terminal_drain_budget where
  "budget_throughput = drain_budget_new NATIVE_THROUGHPUT_DRAIN_BYTES DEFAULT_MAX_EVENTS_PER_DRAIN"

definition budget_unlimited :: terminal_drain_budget where
  "budget_unlimited = drain_budget_new usize_max usize_max"

record terminal_drain_report =
  dr_changed :: bool
  dr_drained_bytes :: nat
  dr_pending_bytes :: nat
  dr_events_drained :: nat
  dr_drain_duration :: nat
  dr_budget_exhausted :: bool

definition mark_changed :: "terminal_drain_report \<Rightarrow> terminal_drain_report" where
  "mark_changed r = r\<lparr>dr_changed := True\<rparr>"

text \<open>The counters saturate, the sum of the durations panics when it overflows (\<open>None\<close>).\<close>

definition combine :: "terminal_drain_report \<Rightarrow> terminal_drain_report \<Rightarrow> terminal_drain_report option" where
  "combine r other =
     (if dr_drain_duration r + dr_drain_duration other > duration_max then None
      else Some \<lparr>dr_changed = (dr_changed r \<or> dr_changed other),
        dr_drained_bytes = sat_add (dr_drained_bytes r) (dr_drained_bytes other),
        dr_pending_bytes = sat_add (dr_pending_bytes r) (dr_pending_bytes other),
        dr_events_drained = sat_add (dr_events_drained r) (dr_events_drained other),
        dr_drain_duration = dr_drain_duration r + dr_drain_duration other,
        dr_budget_exhausted = (dr_budget_exhausted r \<or> dr_budget_exhausted other)\<rparr>)"

subsection \<open>The source's operations: the byte-bounded channel\<close>

record 'a queued_output =
  qo_value :: 'a
  qo_byte_len :: nat

record 'a byte_bounded_state =
  bb_queue :: "'a queued_output list"
  bb_outstanding_bytes :: nat
  bb_sender_open :: bool
  bb_receiver_open :: bool

text \<open>The activity channel has room for one pending notification; without one it is \<open>None\<close>.\<close>

record 'a byte_bounded_inner =
  bi_state :: "'a byte_bounded_state"
  bi_async_space :: bool
  bi_max_bytes :: nat
  bi_activity :: "bool option"

record 'a byte_bounded_item =
  it_value :: "'a option"
  it_byte_len :: nat

datatype try_recv_error = ChannelEmpty | Disconnected

definition activity_notify :: "bool option \<Rightarrow> bool option" where
  "activity_notify a = map_option (\<lambda>_. True) a"

definition byte_bounded_channel :: "nat \<Rightarrow> bool option \<Rightarrow> 'a byte_bounded_inner" where
  "byte_bounded_channel max_bytes activity =
     \<lparr>bi_state = \<lparr>bb_queue = [], bb_outstanding_bytes = 0, bb_sender_open = True, bb_receiver_open = True\<rparr>,
      bi_async_space = False, bi_max_bytes = max_bytes, bi_activity = activity\<rparr>"

definition enqueue :: "'a byte_bounded_state \<Rightarrow> 'a \<Rightarrow> nat \<Rightarrow> 'a byte_bounded_state" where
  "enqueue st v byte_len =
     st\<lparr>bb_outstanding_bytes := sat_add (bb_outstanding_bytes st) byte_len,
        bb_queue := bb_queue st @ [\<lparr>qo_value = v, qo_byte_len = byte_len\<rparr>]\<rparr>"

text \<open>One turn of the loop of \<^verbatim>\<open>send\<close> and of \<^verbatim>\<open>send_async\<close>: sent, refused with the value given back, or
  no room yet, in which case the producer waits and takes another turn.\<close>

datatype 'a turn = Sent | Refused 'a | NoRoom

definition send_turn :: "'a \<Rightarrow> nat \<Rightarrow> 'a byte_bounded_inner \<Rightarrow> 'a turn \<times> 'a byte_bounded_inner" where
  "send_turn v byte_len ch =
     (if \<not> bb_receiver_open (bi_state ch) then (Refused v, ch)
      else if sat_add (bb_outstanding_bytes (bi_state ch)) byte_len \<le> bi_max_bytes ch
      then (Sent, ch\<lparr>bi_state := enqueue (bi_state ch) v byte_len, bi_activity := activity_notify (bi_activity ch)\<rparr>)
      else (NoRoom, ch))"

text \<open>A waiting task of \<^verbatim>\<open>send_async\<close> goes on with its next turn by taking the stored permit.\<close>

definition send_async_resume :: "'a \<Rightarrow> nat \<Rightarrow> 'a byte_bounded_inner \<Rightarrow> 'a turn \<times> 'a byte_bounded_inner" where
  "send_async_resume v byte_len ch =
     (if bi_async_space ch then send_turn v byte_len (ch\<lparr>bi_async_space := False\<rparr>) else (NoRoom, ch))"

text \<open>The start of either operation: an event larger than the whole budget is refused at once.\<close>

definition send_start :: "'a \<Rightarrow> nat \<Rightarrow> 'a byte_bounded_inner \<Rightarrow> 'a turn \<times> 'a byte_bounded_inner" where
  "send_start v byte_len ch = (if byte_len > bi_max_bytes ch then (Refused v, ch) else send_turn v byte_len ch)"

definition send_control :: "'a \<Rightarrow> 'a byte_bounded_inner \<Rightarrow> ('a + unit) \<times> 'a byte_bounded_inner" where
  "send_control v ch =
     (if \<not> bb_receiver_open (bi_state ch) then (Err v, ch)
      else (Ok (), ch\<lparr>bi_state := enqueue (bi_state ch) v 0, bi_activity := activity_notify (bi_activity ch)\<rparr>))"

definition drop_sender :: "'a byte_bounded_inner \<Rightarrow> 'a byte_bounded_inner" where
  "drop_sender ch =
     ch\<lparr>bi_state := (bi_state ch)\<lparr>bb_sender_open := False\<rparr>, bi_activity := activity_notify (bi_activity ch)\<rparr>"

definition try_recv ::
    "'a byte_bounded_inner \<Rightarrow> (try_recv_error + 'a byte_bounded_item) \<times> 'a byte_bounded_inner" where
  "try_recv ch =
     (case bb_queue (bi_state ch) of
        queued # rest \<Rightarrow>
          (Ok \<lparr>it_value = Some (qo_value queued), it_byte_len = qo_byte_len queued\<rparr>,
           ch\<lparr>bi_state := (bi_state ch)\<lparr>bb_queue := rest\<rparr>\<rparr>)
      | [] \<Rightarrow> (Err (if bb_sender_open (bi_state ch) then ChannelEmpty else Disconnected), ch))"

definition pending_bytes :: "'a byte_bounded_inner \<Rightarrow> nat" where
  "pending_bytes ch = bb_outstanding_bytes (bi_state ch)"

definition channel_is_empty :: "'a byte_bounded_inner \<Rightarrow> bool" where
  "channel_is_empty ch \<longleftrightarrow> bb_queue (bi_state ch) = []"

text \<open>The first component says whether the waiters on the condition variable are woken.\<close>

definition close :: "'a byte_bounded_inner \<Rightarrow> bool \<times> 'a byte_bounded_inner" where
  "close ch =
     (if \<not> bb_receiver_open (bi_state ch) then (False, ch)
      else (True, ch\<lparr>bi_state := (bi_state ch)\<lparr>bb_receiver_open := False, bb_queue := [],
              bb_outstanding_bytes := bb_outstanding_bytes (bi_state ch)
                - sum_list (map qo_byte_len (bb_queue (bi_state ch)))\<rparr>,
            bi_async_space := True\<rparr>))"

definition drop_item :: "'a byte_bounded_item \<Rightarrow> 'a byte_bounded_inner \<Rightarrow> bool \<times> 'a byte_bounded_inner" where
  "drop_item item ch =
     (if it_byte_len item = 0 then (False, ch)
      else (True, ch\<lparr>bi_state := (bi_state ch)\<lparr>bb_outstanding_bytes :=
              bb_outstanding_bytes (bi_state ch) - it_byte_len item\<rparr>,
            bi_async_space := True\<rparr>))"

definition into_inner ::
    "'a byte_bounded_item \<Rightarrow> 'a byte_bounded_inner \<Rightarrow> 'a option \<times> bool \<times> 'a byte_bounded_inner" where
  "into_inner item ch = (it_value item, drop_item (item\<lparr>it_value := None\<rparr>) ch)"

subsection \<open>The source's operations: residual bytes and markers\<close>

definition utf8_char_width :: "u8 \<Rightarrow> nat" where
  "utf8_char_width b =
     (if b \<le> 0x7f then 1 else if 0xc2 \<le> b \<and> b \<le> 0xdf then 2 else if 0xe0 \<le> b \<and> b \<le> 0xef then 3
      else if 0xf0 \<le> b \<and> b \<le> 0xf4 then 4 else 0)"

definition is_utf8_continuation :: "u8 \<Rightarrow> bool" where
  "is_utf8_continuation b \<longleftrightarrow> 0x80 \<le> b \<and> b \<le> 0xbf"

fun split_tail :: "bytes \<Rightarrow> nat list \<Rightarrow> nat" where
  "split_tail bs [] = length bs"
| "split_tail bs (tail_len # ls) =
     (let start = length bs - tail_len; width = utf8_char_width (bs ! start) in
      if width = 0 then split_tail bs ls
      else if width > tail_len \<and> list_all is_utf8_continuation (drop (start + 1) bs) then start
      else length bs)"

definition split_before_incomplete_utf8_tail :: "bytes \<Rightarrow> nat" where
  "split_before_incomplete_utf8_tail bs =
     split_tail bs [1..<min (length bs) (UTF8_RESIDUAL_MAX_BYTES - 1) + 1]"

text \<open>The guard is its residual.\<close>

definition guard_push :: "bytes \<Rightarrow> bytes \<Rightarrow> bytes option \<times> bytes" where
  "guard_push bs residual =
     (if bs = [] \<and> residual = [] then (None, residual)
      else
        let all = residual @ bs;
            split = split_before_incomplete_utf8_tail all;
            (out, rest) = (if split < length all then (take split all, drop split all) else (all, []));
            (out, rest) = (if length rest \<ge> UTF8_RESIDUAL_MAX_BYTES then (out @ rest, []) else (out, rest)) in
        (if out \<noteq> [] then Some out else None, rest))"

definition guard_flush :: "bytes \<Rightarrow> bytes option \<times> bytes" where
  "guard_flush residual = (if residual \<noteq> [] then (Some residual, []) else (None, residual))"

datatype terminal_magic_kind = TrzszTransfer

definition marker :: "terminal_magic_kind \<Rightarrow> bytes" where
  "marker k = (case k of TrzszTransfer \<Rightarrow>
     [58, 58, 84, 82, 90, 83, 90, 58, 84, 82, 65, 78, 83, 70, 69, 82, 58])"

record magic_scan_window =
  ms_tail :: bytes
  ms_patterns :: "terminal_magic_kind list"

definition magic_scan_default :: magic_scan_window where
  "magic_scan_default = \<lparr>ms_tail = [], ms_patterns = [TrzszTransfer]\<rparr>"

definition marker_in_window :: "bytes \<Rightarrow> nat \<Rightarrow> terminal_magic_kind \<Rightarrow> bool" where
  "marker_in_window window current_start k =
     (marker k \<noteq> [] \<and> length (marker k) \<le> length window
      \<and> (\<exists>index \<in> set [0..<length window - length (marker k) + 1].
           take (length (marker k)) (drop index window) = marker k \<and> index + length (marker k) > current_start))"

definition magic_scan :: "bytes \<Rightarrow> magic_scan_window \<Rightarrow> terminal_magic_kind list \<times> magic_scan_window" where
  "magic_scan chunk w =
     (if chunk = [] then ([], w)
      else
        let window = ms_tail w @ chunk;
            current_start = length (ms_tail w);
            keep = min MAGIC_DETECT_OVERLAP_BYTES (length window) in
        (filter (marker_in_window window current_start) (ms_patterns w),
         w\<lparr>ms_tail := drop (length window - keep) window\<rparr>))"

subsection \<open>Producer, consumer and channel together\<close>

text \<open>
  A channel with its only producer, which runs, waits on the condition variable (woken or not) or
  waits on the notifier; the items the consumer has taken and not yet dropped; and, for the
  statements, the values sent and received so far.
\<close>

datatype 'a producer = Running | Blocked 'a nat bool | Awaiting 'a nat

record 'a flow =
  fl_channel :: "'a byte_bounded_inner"
  fl_producer :: "'a producer"
  fl_held :: "'a byte_bounded_item list"
  fl_sent :: "'a list"
  fl_received :: "'a list"

fun wake :: "bool \<Rightarrow> 'a producer \<Rightarrow> 'a producer" where
  "wake w (Blocked v n woken) = Blocked v n (w \<or> woken)"
| "wake w p = p"

definition after_turn :: "bool \<Rightarrow> 'a \<Rightarrow> nat \<Rightarrow> 'a turn \<Rightarrow> 'a byte_bounded_inner \<Rightarrow> 'a flow \<Rightarrow> 'a flow" where
  "after_turn async v n t ch s =
     s\<lparr>fl_channel := ch,
       fl_producer := (if t = NoRoom then if async then Awaiting v n else Blocked v n False else Running),
       fl_sent := (if t = Sent then fl_sent s @ [v] else fl_sent s)\<rparr>"

text \<open>
  The steps. A thread blocked on the condition variable may wake up without a reason, so that its
  next turn needs no premise; the notifier lets a task go on only by consuming its permit.
\<close>

inductive flow_step :: "'a flow \<Rightarrow> 'a flow \<Rightarrow> bool" where
  step_send: "fl_producer s = Running \<Longrightarrow> bb_sender_open (bi_state (fl_channel s)) \<Longrightarrow>
    send_start v n (fl_channel s) = (t, ch) \<Longrightarrow> flow_step s (after_turn async v n t ch s)"
| step_blocked: "fl_producer s = Blocked v n woken \<Longrightarrow>
    send_turn v n (fl_channel s) = (t, ch) \<Longrightarrow> flow_step s (after_turn False v n t ch s)"
| step_awaiting: "fl_producer s = Awaiting v n \<Longrightarrow>
    send_async_resume v n (fl_channel s) = (t, ch) \<Longrightarrow> flow_step s (after_turn True v n t ch s)"
| step_control: "fl_producer s = Running \<Longrightarrow> bb_sender_open (bi_state (fl_channel s)) \<Longrightarrow>
    send_control v (fl_channel s) = (r, ch) \<Longrightarrow>
    flow_step s (s\<lparr>fl_channel := ch, fl_sent := (if r = Ok () then fl_sent s @ [v] else fl_sent s)\<rparr>)"
| step_drop_sender: "fl_producer s = Running \<Longrightarrow> flow_step s (s\<lparr>fl_channel := drop_sender (fl_channel s)\<rparr>)"
| step_recv: "try_recv (fl_channel s) = (Ok item, ch) \<Longrightarrow>
    flow_step s (s\<lparr>fl_channel := ch, fl_held := fl_held s @ [item],
      fl_received := fl_received s @ (case it_value item of Some v \<Rightarrow> [v] | None \<Rightarrow> [])\<rparr>)"
| step_drop_item: "fl_held s = xs @ item # ys \<Longrightarrow> drop_item item (fl_channel s) = (w, ch) \<Longrightarrow>
    flow_step s (s\<lparr>fl_channel := ch, fl_held := xs @ ys, fl_producer := wake w (fl_producer s)\<rparr>)"
| step_close: "close (fl_channel s) = (w, ch) \<Longrightarrow>
    flow_step s (s\<lparr>fl_channel := ch, fl_producer := wake w (fl_producer s)\<rparr>)"

definition flow_start :: "nat \<Rightarrow> bool option \<Rightarrow> 'a flow" where
  "flow_start max_bytes activity =
     \<lparr>fl_channel = byte_bounded_channel max_bytes activity, fl_producer = Running, fl_held = [],
      fl_sent = [], fl_received = []\<rparr>"

definition queued_bytes :: "'a flow \<Rightarrow> nat" where
  "queued_bytes s = sum_list (map qo_byte_len (bb_queue (bi_state (fl_channel s))))"

definition held_bytes :: "'a flow \<Rightarrow> nat" where
  "held_bytes s = sum_list (map it_byte_len (fl_held s))"

text \<open>A waiting event fits nowhere unless its producer has been told to look again.\<close>

definition waits_rightly :: "nat \<Rightarrow> 'a flow \<Rightarrow> bool" where
  "waits_rightly max_bytes s =
     (let no_room = (\<lambda>n. bb_receiver_open (bi_state (fl_channel s)) \<and> pending_bytes (fl_channel s) + n > max_bytes) in
      case fl_producer s of
        Running \<Rightarrow> True
      | Blocked v n woken \<Rightarrow> n \<le> max_bytes \<and> (woken \<or> no_room n)
      | Awaiting v n \<Rightarrow> n \<le> max_bytes \<and> (bi_async_space (fl_channel s) \<or> no_room n))"

definition flow_inv :: "nat \<Rightarrow> 'a flow \<Rightarrow> bool" where
  "flow_inv max_bytes s \<longleftrightarrow> bi_max_bytes (fl_channel s) = max_bytes
     \<and> pending_bytes (fl_channel s) = queued_bytes s + held_bytes s
     \<and> pending_bytes (fl_channel s) \<le> max_bytes
     \<and> (if bb_receiver_open (bi_state (fl_channel s))
        then fl_sent s = fl_received s @ map qo_value (bb_queue (bi_state (fl_channel s)))
        else bb_queue (bi_state (fl_channel s)) = [] \<and> prefix (fl_received s) (fl_sent s))
     \<and> waits_rightly max_bytes s"

lemmas flow_defs = flow_inv_def waits_rightly_def pending_bytes_def queued_bytes_def held_bytes_def Let_def

lemma flow_start_inv: "flow_inv max_bytes (flow_start max_bytes activity)"
  by (simp add: flow_defs flow_start_def byte_bounded_channel_def)

text \<open>Below the largest \<^verbatim>\<open>usize\<close> the saturating test of a turn is the plain one.\<close>

lemma send_turn_eq:
  assumes "bi_max_bytes ch < usize_max"
  shows "send_turn v n ch =
    (if \<not> bb_receiver_open (bi_state ch) then (Refused v, ch)
     else if bb_outstanding_bytes (bi_state ch) + n \<le> bi_max_bytes ch
     then (Sent, ch\<lparr>bi_state := (bi_state ch)\<lparr>bb_outstanding_bytes := bb_outstanding_bytes (bi_state ch) + n,
             bb_queue := bb_queue (bi_state ch) @ [\<lparr>qo_value = v, qo_byte_len = n\<rparr>]\<rparr>,
           bi_activity := activity_notify (bi_activity ch)\<rparr>)
     else (NoRoom, ch))"
  using assms sat_add_le_iff [OF assms] by (auto simp: send_turn_def enqueue_def sat_add_eq)

lemma after_turn_inv:
  assumes inv: "flow_inv max_bytes (s\<lparr>fl_producer := Running\<rparr>)" and small: "max_bytes < usize_max" "n \<le> max_bytes"
    and run: "send_turn v n (fl_channel s) = (t, ch)"
  shows "flow_inv max_bytes (after_turn async v n t ch s)"
proof -
  have "bi_max_bytes (fl_channel s) < usize_max" using inv small by (simp add: flow_inv_def)
  then show ?thesis
    using run inv small(2) by (auto simp: send_turn_eq after_turn_def flow_defs split: if_splits)
qed

lemma flow_inv_running: "flow_inv max_bytes s \<Longrightarrow> flow_inv max_bytes (s\<lparr>fl_producer := Running\<rparr>)"
  by (simp add: flow_defs)

lemma flow_step_inv:
  assumes "flow_step s s'" and "flow_inv max_bytes s" and small: "max_bytes < usize_max"
  shows "flow_inv max_bytes s'"
  using assms(1,2)
proof (cases rule: flow_step.cases)
  case (step_send v n t ch async)
  then show ?thesis
  proof (cases "n > bi_max_bytes (fl_channel s)")
    case True
    then show ?thesis using step_send assms(2) by (auto simp: send_start_def after_turn_def flow_defs)
  next
    case False
    have "bi_max_bytes (fl_channel s) = max_bytes" using assms(2) by (simp add: flow_inv_def)
    then show ?thesis
      using False step_send after_turn_inv [OF flow_inv_running [OF assms(2)] small] by (simp add: send_start_def)
  qed
next
  case (step_blocked v n woken t ch)
  then have "n \<le> max_bytes" using assms(2) by (simp add: flow_defs)
  then show ?thesis using step_blocked after_turn_inv [OF flow_inv_running [OF assms(2)] small] by simp
next
  case (step_awaiting v n t ch)
  show ?thesis
  proof (cases "bi_async_space (fl_channel s)")
    case False
    then have "t = NoRoom" "ch = fl_channel s" using step_awaiting by (simp_all add: send_async_resume_def)
    then have "s' = s" using step_awaiting by (simp add: after_turn_def)
    then show ?thesis using assms(2) by simp
  next
    case True
    let ?s = "s\<lparr>fl_channel := (fl_channel s)\<lparr>bi_async_space := False\<rparr>\<rparr>"
    have "n \<le> max_bytes" using assms(2) step_awaiting by (simp add: flow_defs)
    moreover have "flow_inv max_bytes (?s\<lparr>fl_producer := Running\<rparr>)" using assms(2) by (simp add: flow_defs)
    moreover have "after_turn True v n t ch ?s = after_turn True v n t ch s" by (simp add: after_turn_def)
    moreover have "send_turn v n (fl_channel ?s) = (t, ch)" using step_awaiting True by (simp add: send_async_resume_def)
    ultimately show ?thesis using step_awaiting after_turn_inv [of max_bytes ?s n v t ch True] small by simp
  qed
next
  case (step_control v r ch)
  then show ?thesis
    using assms(2) small by (auto simp: send_control_def flow_defs enqueue_def sat_add_def split: if_splits)
next
  case step_drop_sender
  then show ?thesis using assms(2) by (simp add: drop_sender_def flow_defs)
next
  case (step_recv item ch)
  then show ?thesis
    using assms(2) by (auto simp: try_recv_def flow_defs split: list.splits if_splits producer.splits)
next
  case (step_drop_item xs item ys w ch)
  then show ?thesis
    using assms(2) by (cases "fl_producer s") (auto simp: drop_item_def flow_defs split: if_splits)
next
  case (step_close w ch)
  then show ?thesis
    using assms(2) by (cases "fl_producer s") (auto simp: close_def flow_defs split: if_splits)
qed

lemma flow_steps_inv:
  "flow_step\<^sup>*\<^sup>* s s' \<Longrightarrow> flow_inv max_bytes s \<Longrightarrow> max_bytes < usize_max \<Longrightarrow> flow_inv max_bytes s'"
  by (induction rule: rtranclp_induct) (auto intro: flow_step_inv)

subsection \<open>Properties of the channel\<close>

text \<open>
  C7: whatever the producer, the consumer and the threads do in whatever order, the bytes the
  channel accounts for are those of the queued and of the received but still held events, they
  never exceed the limit, and the consumer receives the events in the order they were sent, without
  loss as long as the channel is open.
\<close>

theorem channel_bounded_and_ordered:
  assumes "flow_step\<^sup>*\<^sup>* (flow_start max_bytes activity) s" and "max_bytes < usize_max"
  shows "pending_bytes (fl_channel s) = queued_bytes s + held_bytes s
    \<and> pending_bytes (fl_channel s) \<le> max_bytes
    \<and> prefix (fl_received s) (fl_sent s)
    \<and> (bb_receiver_open (bi_state (fl_channel s)) \<longrightarrow>
        fl_sent s = fl_received s @ map qo_value (bb_queue (bi_state (fl_channel s))))"
  using flow_steps_inv [OF assms(1) flow_start_inv assms(2)] by (auto simp: flow_inv_def split: if_splits)

text \<open>A concrete run: a channel for two bytes, into which two events of two bytes are sent.\<close>

definition demo_flow :: "nat flow" where
  "demo_flow = \<lparr>fl_channel = \<lparr>bi_state = \<lparr>bb_queue = [\<lparr>qo_value = 7, qo_byte_len = 2\<rparr>],
        bb_outstanding_bytes = 2, bb_sender_open = True, bb_receiver_open = True\<rparr>,
      bi_async_space = False, bi_max_bytes = 2, bi_activity = None\<rparr>,
     fl_producer = Blocked 8 2 False, fl_held = [], fl_sent = [7], fl_received = []\<rparr>"

lemma demo_flow_reached: "flow_step\<^sup>*\<^sup>* (flow_start 2 None) demo_flow"
proof -
  let ?s1 = "demo_flow\<lparr>fl_producer := Running\<rparr>"
  have ch: "send_start (7::nat) 2 (byte_bounded_channel 2 None) = (Sent, fl_channel demo_flow)"
    by (simp add: send_start_def send_turn_def byte_bounded_channel_def demo_flow_def enqueue_def sat_add_def
        usize_max_def activity_notify_def)
  have opn: "bb_sender_open (bi_state (byte_bounded_channel 2 None))" by (simp add: byte_bounded_channel_def)
  have "flow_step (flow_start 2 None) (after_turn False 7 2 Sent (fl_channel demo_flow) (flow_start 2 None))"
    by (rule step_send) (simp_all add: flow_start_def ch opn)
  also have "after_turn False 7 2 Sent (fl_channel demo_flow) (flow_start 2 None) = ?s1"
    by (simp add: after_turn_def flow_start_def demo_flow_def)
  finally have first: "flow_step (flow_start 2 None) ?s1" .
  have "flow_step ?s1 (after_turn False 8 2 NoRoom (fl_channel demo_flow) ?s1)"
    by (rule step_send) (simp_all add: demo_flow_def send_start_def send_turn_def sat_add_def usize_max_def)
  also have "after_turn False 8 2 NoRoom (fl_channel demo_flow) ?s1 = demo_flow"
    by (simp add: after_turn_def demo_flow_def)
  finally show ?thesis using first by (meson converse_rtranclp_into_rtranclp rtranclp.rtrancl_refl)
qed

theorem channel_bounded_and_ordered_witness:
  "pending_bytes (fl_channel demo_flow) = queued_bytes demo_flow + held_bytes demo_flow
    \<and> pending_bytes (fl_channel demo_flow) \<le> 2 \<and> prefix (fl_received demo_flow) (fl_sent demo_flow)"
  using channel_bounded_and_ordered [OF demo_flow_reached] by (simp add: usize_max_def)

text \<open>Waiting for an event, and the consumer emptying the channel.\<close>

definition waiting_for :: "'a flow \<Rightarrow> 'a \<Rightarrow> nat \<Rightarrow> bool" where
  "waiting_for s v n \<longleftrightarrow> (\<exists>woken. fl_producer s = Blocked v n woken) \<or> fl_producer s = Awaiting v n"

definition awake :: "'a flow \<Rightarrow> bool" where
  "awake s = (case fl_producer s of
     Running \<Rightarrow> True | Blocked _ _ woken \<Rightarrow> woken | Awaiting _ _ \<Rightarrow> bi_async_space (fl_channel s))"

lemma wake_waiting: "waiting_for (s\<lparr>fl_producer := wake w (fl_producer s), fl_channel := ch, fl_held := hs\<rparr>) v n
    \<longleftrightarrow> waiting_for s v n"
  by (cases "fl_producer s") (auto simp: waiting_for_def)

lemma consumer_drains:
  "waiting_for s v n \<Longrightarrow> bb_receiver_open (bi_state (fl_channel s)) \<Longrightarrow>
   \<exists>s'. flow_step\<^sup>*\<^sup>* s s' \<and> waiting_for s' v n \<and> bb_receiver_open (bi_state (fl_channel s'))
     \<and> fl_sent s' = fl_sent s \<and> bb_queue (bi_state (fl_channel s')) = [] \<and> fl_held s' = []"
proof (induction "2 * length (bb_queue (bi_state (fl_channel s))) + length (fl_held s)" arbitrary: s rule: less_induct)
  case less
  have one: ?case if "flow_step s s1" and "waiting_for s1 v n" and "bb_receiver_open (bi_state (fl_channel s1))"
    and "fl_sent s1 = fl_sent s"
    and "2 * length (bb_queue (bi_state (fl_channel s1))) + length (fl_held s1)
       < 2 * length (bb_queue (bi_state (fl_channel s))) + length (fl_held s)" for s1
    using less.hyps [OF that(5,2,3)] that(1,4) by (metis converse_rtranclp_into_rtranclp)
  show ?case
  proof (cases "bb_queue (bi_state (fl_channel s))")
    case (Cons q qs)
    then have "try_recv (fl_channel s) = (Ok \<lparr>it_value = Some (qo_value q), it_byte_len = qo_byte_len q\<rparr>,
        (fl_channel s)\<lparr>bi_state := (bi_state (fl_channel s))\<lparr>bb_queue := qs\<rparr>\<rparr>)"
      by (simp add: try_recv_def)
    from step_recv [OF this] show ?thesis
      by (rule one) (use less.prems Cons in \<open>auto simp: waiting_for_def\<close>)
  next
    case queue: Nil
    show ?thesis
    proof (cases "fl_held s")
      case Nil
      then show ?thesis using less.prems queue by blast
    next
      case (Cons item items)
      then have "fl_held s = [] @ item # items" by simp
      from step_drop_item [OF this prod.collapse [symmetric]] show ?thesis
      proof (rule one)
        show "waiting_for (s\<lparr>fl_channel := snd (drop_item item (fl_channel s)), fl_held := [] @ items,
            fl_producer := wake (fst (drop_item item (fl_channel s))) (fl_producer s)\<rparr>) v n"
          using less.prems(1) by (cases "fl_producer s") (auto simp: waiting_for_def)
      qed (use less.prems Cons queue in \<open>auto simp: drop_item_def\<close>)
    qed
  qed
qed

lemma drained_sends:
  assumes inv: "flow_inv max_bytes s" and small: "max_bytes < usize_max" and wait: "waiting_for s v n"
    and drained: "bb_queue (bi_state (fl_channel s)) = []" "fl_held s = []"
    and opn: "bb_receiver_open (bi_state (fl_channel s))"
  shows "awake s \<and> (\<exists>s'. flow_step s s' \<and> fl_sent s' = fl_sent s @ [v] \<and> fl_producer s' = Running)"
proof -
  have zero: "bb_outstanding_bytes (bi_state (fl_channel s)) = 0" and mx: "bi_max_bytes (fl_channel s) = max_bytes"
    using inv drained by (simp_all add: flow_defs)
  have n: "n \<le> max_bytes" and up: "awake s"
    using inv wait zero by (auto simp: flow_defs waiting_for_def awake_def)
  have sends: "fst (send_turn v n ch) = Sent"
    if "bi_state ch = bi_state (fl_channel s)" "bi_max_bytes ch = max_bytes" for ch
    using that n zero opn small by (simp add: send_turn_eq)
  consider woken where "fl_producer s = Blocked v n woken" | "fl_producer s = Awaiting v n"
    using wait by (auto simp: waiting_for_def)
  then obtain async t ch where step: "flow_step s (after_turn async v n t ch s)" and sent: "t = Sent"
  proof cases
    case 1
    then show ?thesis
      using that [OF step_blocked [OF 1 prod.collapse [symmetric]] sends] mx by simp
  next
    case 2
    then have "bi_async_space (fl_channel s)" using up by (simp add: awake_def)
    then have "fst (send_async_resume v n (fl_channel s)) = Sent" using sends mx by (simp add: send_async_resume_def)
    from that [OF step_awaiting [OF 2 prod.collapse [symmetric]] this] show ?thesis .
  qed
  have "fl_sent (after_turn async v n t ch s) = fl_sent s @ [v] \<and> fl_producer (after_turn async v n t ch s) = Running"
    by (simp add: after_turn_def sent)
  then show ?thesis using up step by blast
qed

text \<open>
  C14: a waiting producer is not forgotten. It sleeps only while its event does not fit and the
  channel is open; and from any state the consumer can go on, by receiving and dropping what is
  there, to one in which the producer is awake and its next turn sends the event.
\<close>

theorem waiting_producer_can_finish:
  assumes "flow_step\<^sup>*\<^sup>* (flow_start max_bytes activity) s" and "max_bytes < usize_max" and "waiting_for s v n"
  shows "(awake s \<or> bb_receiver_open (bi_state (fl_channel s)) \<and> pending_bytes (fl_channel s) + n > max_bytes)
    \<and> (bb_receiver_open (bi_state (fl_channel s)) \<longrightarrow>
       (\<exists>s1 s2. flow_step\<^sup>*\<^sup>* s s1 \<and> awake s1 \<and> flow_step s1 s2
          \<and> fl_sent s2 = fl_sent s @ [v] \<and> fl_producer s2 = Running))"
proof -
  have inv: "flow_inv max_bytes s" by (rule flow_steps_inv [OF assms(1) flow_start_inv assms(2)])
  have "awake s \<or> bb_receiver_open (bi_state (fl_channel s)) \<and> pending_bytes (fl_channel s) + n > max_bytes"
    using inv assms(3) by (auto simp: flow_inv_def waits_rightly_def waiting_for_def awake_def Let_def)
  moreover have "\<exists>s1 s2. flow_step\<^sup>*\<^sup>* s s1 \<and> awake s1 \<and> flow_step s1 s2
      \<and> fl_sent s2 = fl_sent s @ [v] \<and> fl_producer s2 = Running"
    if "bb_receiver_open (bi_state (fl_channel s))"
    using consumer_drains [OF assms(3) that] drained_sends flow_steps_inv [OF _ inv assms(2)] assms(2) by metis
  ultimately show ?thesis by blast
qed

theorem waiting_producer_can_finish_witness:
  "\<exists>s1 s2. flow_step\<^sup>*\<^sup>* demo_flow s1 \<and> awake s1 \<and> flow_step s1 s2
      \<and> fl_sent s2 = fl_sent demo_flow @ [8] \<and> fl_producer s2 = Running"
proof -
  have "waiting_for demo_flow 8 2" "bb_receiver_open (bi_state (fl_channel demo_flow))"
    by (auto simp: waiting_for_def demo_flow_def)
  then show ?thesis using waiting_producer_can_finish [OF demo_flow_reached] by (simp add: usize_max_def)
qed

subsection \<open>Characters are not cut\<close>

lemma cont_range: "0x80 \<le> c \<and> c \<le> 0xBF \<longrightarrow> is_cont c"
  by (rule u8_allI [where b = c]) code_simp

lemma second_cont: "second3 b c \<Longrightarrow> is_cont c" "second4 b c \<Longrightarrow> is_cont c"
  using cont_range [of c] by (auto simp: second3_def second4_def word_le_nat_alt)

lemma not_second_zero: "\<not> is_cont 0" "\<not> second3 b 0" "\<not> second4 b 0"
  using second_cont [of b 0] by (auto simp: is_cont_def)

lemma chunk_ok:
  assumes "utf8_chunk bs = (True, n)" and "bs \<noteq> []"
  shows "n = char_width (hd bs)" and "1 \<le> n" and "n \<le> 4" and "n \<le> length bs"
    and "\<And>i. 0 < i \<Longrightarrow> i < n \<Longrightarrow> is_cont (bs ! i)"
proof -
  show "n = char_width (hd bs)" "1 \<le> n" "n \<le> 4" using assms
    by (auto simp: utf8_chunk_def get0_def Let_def hd_conv_nth split: if_splits)
  have "0 < length bs" using assms(2) by simp
  then show "n \<le> length bs" using assms not_second_zero
    by (auto simp del: length_greater_0_conv simp: utf8_chunk_def get0_def Let_def split: if_splits)
  then have "0 < n \<longrightarrow> (1 < n \<longrightarrow> is_cont (bs ! 1)) \<and> (2 < n \<longrightarrow> is_cont (bs ! 2)) \<and> (3 < n \<longrightarrow> is_cont (bs ! 3))"
    using assms second_cont by (auto simp: utf8_chunk_def get0_def Let_def split: if_splits)
  then have "1 < n \<Longrightarrow> is_cont (bs ! 1)" "2 < n \<Longrightarrow> is_cont (bs ! 2)" "3 < n \<Longrightarrow> is_cont (bs ! 3)" by auto
  note conts = this
  show "is_cont (bs ! i)" if i: "0 < i" "i < n" for i
  proof -
    consider "i = 1" | "i = 2" | "i = 3" using i \<open>n \<le> 4\<close> by linarith
    then show ?thesis using conts i(2) by cases simp_all
  qed
qed

lemma get0_take: "i < n \<Longrightarrow> n \<le> length bs \<Longrightarrow> get0 (take n bs @ ys) i = get0 bs i"
  by (simp add: get0_def nth_append)

lemma chunk_local:
  assumes "utf8_chunk bs = (True, n)" and "bs \<noteq> []"
  shows "utf8_chunk (take n bs @ ys) = (True, n)"
proof -
  note facts = chunk_ok [OF assms]
  have same: "get0 (take n bs @ ys) i = get0 bs i" if "i < n" for i
    using that facts(4) by (rule get0_take)
  have "get0 bs 0 = hd bs" using assms(2) by (simp add: get0_def hd_conv_nth)
  then show ?thesis
    using assms(1) facts(1,2) same [of 0] same [of 1] same [of 2] same [of 3]
    by (simp add: utf8_chunk_def Let_def split: if_splits)
qed

lemma valid_step: "bs \<noteq> [] \<Longrightarrow> utf8_valid bs \<longleftrightarrow> (\<exists>n. utf8_chunk bs = (True, n) \<and> utf8_valid (drop n bs))"
  by (subst utf8_valid.simps) (auto simp: case_prod_unfold Let_def prod_eq_iff)

lemma utf8_valid_Nil [simp]: "utf8_valid []"
  by (simp add: utf8_valid.simps [of "[]"])

lemma valid_chunk_append:
  assumes "utf8_chunk bs = (True, n)" and "bs \<noteq> []" and "utf8_valid ys"
  shows "utf8_valid (take n bs @ ys)"
  using chunk_local [OF assms(1,2), of ys] chunk_ok(2,4) [OF assms(1,2)] assms(2,3) by (subst valid_step) auto

text \<open>A prefix of a valid string consists of whole characters and the beginning of one more.\<close>

definition whole_end :: "bytes \<Rightarrow> bool" where
  "whole_end c \<longleftrightarrow> c = [] \<or> (\<exists>c' l. c = c' @ l \<and> l \<noteq> [] \<and> char_width (hd l) = length l \<and> list_all is_cont (tl l))"

definition char_begin :: "bytes \<Rightarrow> bool" where
  "char_begin p \<longleftrightarrow> p = [] \<or> length p < char_width (hd p) \<and> list_all is_cont (tl p)"

lemma whole_end_append:
  assumes "whole_end c" and "l \<noteq> []" and "char_width (hd l) = length l" and "list_all is_cont (tl l)"
  shows "whole_end (l @ c)"
proof (cases "c = []")
  case True
  then show ?thesis
    unfolding whole_end_def using assms(2-) by (intro disjI2 exI [of _ "[]"] exI [of _ l]) simp
next
  case False
  then obtain c' k where "c = c' @ k" "k \<noteq> []" "char_width (hd k) = length k" "list_all is_cont (tl k)"
    using assms(1) by (auto simp: whole_end_def)
  then show ?thesis unfolding whole_end_def by (intro disjI2 exI [of _ "l @ c'"] exI [of _ k]) simp
qed

lemma valid_prefix:
  "utf8_valid (xs @ ys) \<Longrightarrow>
   \<exists>c p. xs = c @ p \<and> utf8_valid c \<and> utf8_valid (p @ ys) \<and> char_begin p \<and> whole_end c"
proof (induction xs rule: length_induct)
  case (1 xs)
  show ?case
  proof (cases "xs = []")
    case True
    then show ?thesis using "1.prems" by (intro exI [of _ "[]"]) (simp add: char_begin_def whole_end_def)
  next
    case False
    then have ne: "xs @ ys \<noteq> []" by simp
    obtain n where n: "utf8_chunk (xs @ ys) = (True, n)" "utf8_valid (drop n (xs @ ys))"
      using "1.prems" valid_step [OF ne] by blast
    note facts = chunk_ok [OF n(1) ne]
    show ?thesis
    proof (cases "n \<le> length xs")
      case True
      have "utf8_valid (drop n xs @ ys)" using n(2) True by simp
      moreover have "length (drop n xs) < length xs" using False facts(2) True by simp
      ultimately obtain c p where cp: "drop n xs = c @ p" "utf8_valid c" "utf8_valid (p @ ys)" "char_begin p" "whole_end c"
        using "1.IH" by blast
      let ?l = "take n xs"
      have l: "take n (xs @ ys) = ?l" using True by simp
      have "char_width (hd ?l) = length ?l" using facts(1,2) True False by (simp add: hd_append)
      moreover have "is_cont (tl ?l ! i)" if "i < length (tl ?l)" for i
        using facts(5) [of "i + 1"] that True by (simp add: nth_tl nth_append)
      ultimately have "whole_end (?l @ c)"
        using cp(5) facts(2) False by (intro whole_end_append) (simp_all add: list_all_length)
      moreover have "utf8_valid (?l @ c)" using valid_chunk_append [OF n(1) ne cp(2)] unfolding l .
      ultimately show ?thesis
        using cp append_take_drop_id [of n xs] by (intro exI [of _ "?l @ c"] exI [of _ p]) simp
    next
      case short: False
      have "is_cont (tl xs ! i)" if "i < length (tl xs)" for i
      proof -
        have "i + 1 < length xs" "i + 1 < n" using that short by auto
        then show ?thesis using facts(5) [of "i + 1"] that by (simp add: nth_tl nth_append)
      qed
      then have "list_all is_cont (tl xs)" by (simp add: list_all_length)
      then have "char_begin xs" using facts(1) short False by (simp add: char_begin_def hd_append)
      then show ?thesis
        using "1.prems" by (intro exI [of _ "[]"] exI [of _ xs]) (simp add: whole_end_def)
    qed
  qed
qed

lemma width_eq: "utf8_char_width b = char_width b"
  unfolding utf8_char_width_def char_width_def by simp

lemma cont_facts: "is_cont b \<longrightarrow> char_width b = 0 \<and> is_utf8_continuation b"
  by (rule u8_allI [where b = b]) code_simp

lemma split_tail_skip:
  assumes "\<And>j. a \<le> j \<Longrightarrow> j < t \<Longrightarrow> char_width (bs ! (length bs - j)) = 0" and "a \<le> t" and "t \<le> m"
  shows "split_tail bs [a..<m] = split_tail bs [t..<m]"
  using assms(2,1)
proof (induction rule: inc_induct)
  case (step k)
  then have "k < m" using assms(3) by simp
  then show ?case using step by (simp add: upt_conv_Cons width_eq Let_def)
qed simp

lemma split_tail_bound: "list_all (\<lambda>j. j \<le> 3) ls \<Longrightarrow> length bs - 3 \<le> split_tail bs ls \<and> split_tail bs ls \<le> length bs"
  by (induction bs ls rule: split_tail.induct) (auto simp: Let_def)

lemma split_bound:
  "length bs - 3 \<le> split_before_incomplete_utf8_tail bs" "split_before_incomplete_utf8_tail bs \<le> length bs"
  using split_tail_bound [of "[1..<min (length bs) 3 + 1]" bs]
  by (auto simp: split_before_incomplete_utf8_tail_def UTF8_RESIDUAL_MAX_BYTES_def list_all_iff)

lemma tail_conts:
  assumes "list_all is_cont (tl l)" and "1 \<le> j" and "j < length l"
  shows "char_width ((c @ l) ! (length (c @ l) - j)) = 0"
proof -
  have "(c @ l) ! (length (c @ l) - j) = tl l ! (length l - j - 1)"
  proof -
    have "length (c @ l) - j = length c + Suc (length l - j - 1)"
      using assms(2,3) by simp
    then show ?thesis using assms(2,3) by (simp only: nth_append_length_plus) (simp add: nth_tl)
  qed
  then show ?thesis using assms cont_facts by (simp add: list_all_length)
qed

lemma split_at_begin:
  assumes "char_begin p" and "p \<noteq> []" and "char_width (hd p) \<le> 4"
  shows "split_before_incomplete_utf8_tail (c @ p) = length c"
proof -
  let ?bs = "c @ p"
  let ?m = "min (length ?bs) 3 + 1"
  have p: "length p < char_width (hd p)" "list_all is_cont (tl p)" using assms by (auto simp: char_begin_def)
  have "1 \<le> length p" using assms(2) by (cases p) auto
  moreover have "length p < ?m" using p(1) assms(3) by simp
  moreover have "split_tail ?bs [1..<?m] = split_tail ?bs [length p..<?m]"
    using tail_conts [OF p(2), of _ c] calculation by (intro split_tail_skip) auto
  moreover have "?bs ! (length ?bs - length p) = hd p" using assms(2) by (simp add: nth_append hd_conv_nth)
  moreover have "list_all is_utf8_continuation (drop (length ?bs - length p + 1) ?bs)"
    using p(2) cont_facts by (cases p) (auto simp: list_all_iff)
  ultimately show ?thesis
    using p(1) by (simp add: split_before_incomplete_utf8_tail_def UTF8_RESIDUAL_MAX_BYTES_def upt_conv_Cons
        width_eq Let_def del: upt_Suc)
qed

lemma split_at_whole:
  assumes "whole_end c"
  shows "split_before_incomplete_utf8_tail c = length c"
proof (cases "c = []")
  case True
  then show ?thesis using split_bound(2) [of c] by simp
next
  case False
  then obtain c' l where l: "c = c' @ l" "l \<noteq> []" "char_width (hd l) = length l" "list_all is_cont (tl l)"
    using assms by (auto simp: whole_end_def)
  let ?m = "min (length c) 3 + 1"
  have skip: "split_tail c [1..<?m] = split_tail c [min (length l) ?m..<?m]"
    using tail_conts [OF l(4), of _ c'] l(1,2) by (intro split_tail_skip) (auto simp: Suc_le_eq)
  have at: "c ! (length c - length l) = hd l" using l(1,2) by (simp add: nth_append hd_conv_nth)
  show ?thesis
    using skip at l(2,3)
    by (cases "length l < ?m")
       (auto simp: split_before_incomplete_utf8_tail_def UTF8_RESIDUAL_MAX_BYTES_def upt_conv_Cons width_eq Let_def
        simp del: upt_Suc)
qed

lemma split_of_prefix:
  assumes "utf8_valid (xs @ ys)"
  shows "utf8_valid (take (split_before_incomplete_utf8_tail xs) xs)
    \<and> utf8_valid (drop (split_before_incomplete_utf8_tail xs) xs @ ys)"
proof -
  obtain c p where cp: "xs = c @ p" "utf8_valid c" "utf8_valid (p @ ys)" "char_begin p" "whole_end c"
    using valid_prefix [OF assms] by blast
  have "char_width b \<le> 4" for b by (simp add: char_width_def)
  then have "split_before_incomplete_utf8_tail xs = length c"
    using split_at_begin [OF cp(4)] split_at_whole [OF cp(5)] cp(1) by (cases "p = []") simp_all
  then show ?thesis using cp by simp
qed

fun guard_run :: "bytes \<Rightarrow> bytes list \<Rightarrow> bytes list \<times> bytes" where
  "guard_run residual [] = ([], residual)"
| "guard_run residual (c # cs) =
     (let (out, residual1) = guard_push c residual; (outs, residual2) = guard_run residual1 cs in
      ((case out of Some piece \<Rightarrow> [piece] | None \<Rightarrow> []) @ outs, residual2))"

lemma guard_push_spec:
  assumes "guard_push c r = (out, r1)" and "length r < 4"
  shows "(case out of Some piece \<Rightarrow> piece | None \<Rightarrow> []) @ r1 = r @ c" and "length r1 < 4"
    and "utf8_valid (r @ c @ ys) \<Longrightarrow> utf8_valid (case out of Some piece \<Rightarrow> piece | None \<Rightarrow> []) \<and> utf8_valid (r1 @ ys)"
proof -
  let ?k = "split_before_incomplete_utf8_tail (r @ c)"
  have k: "length (r @ c) - 3 \<le> ?k" "?k \<le> length (r @ c)" using split_bound [of "r @ c"] by auto
  have run: "r1 = drop ?k (r @ c)" "(case out of Some piece \<Rightarrow> piece | None \<Rightarrow> []) = take ?k (r @ c)"
    using assms(1) k by (auto simp: guard_push_def UTF8_RESIDUAL_MAX_BYTES_def Let_def split: if_splits)
  show "(case out of Some piece \<Rightarrow> piece | None \<Rightarrow> []) @ r1 = r @ c" unfolding run by (rule append_take_drop_id)
  show "length r1 < 4" using k unfolding run by simp
  show "utf8_valid (case out of Some piece \<Rightarrow> piece | None \<Rightarrow> []) \<and> utf8_valid (r1 @ ys)" if "utf8_valid (r @ c @ ys)"
    unfolding run using split_of_prefix [of "r @ c" ys] that by simp
qed

lemma guard_run_spec:
  "guard_run r cs = (outs, r') \<Longrightarrow> length r < 4 \<Longrightarrow>
   concat outs @ r' = r @ concat cs \<and> length r' < 4
   \<and> (utf8_valid (r @ concat cs @ ys) \<longrightarrow> list_all utf8_valid outs)"
proof (induction cs arbitrary: r outs)
  case (Cons c cs)
  obtain out r1 where p: "guard_push c r = (out, r1)" by fastforce
  obtain os where os: "guard_run r1 cs = (os, r')" "outs = (case out of Some piece \<Rightarrow> [piece] | None \<Rightarrow> []) @ os"
    using Cons.prems(1) p by (auto split: prod.splits)
  note spec = guard_push_spec [OF p Cons.prems(2)]
  have IH: "concat os @ r' = r1 @ concat cs \<and> length r' < 4 \<and> (utf8_valid (r1 @ concat cs @ ys) \<longrightarrow> list_all utf8_valid os)"
    by (rule Cons.IH [OF os(1) spec(2)])
  have "concat outs @ r' = r @ concat (c # cs)"
  proof -
    have "concat outs = (case out of Some piece \<Rightarrow> piece | None \<Rightarrow> []) @ concat os"
      by (cases out) (simp_all add: os(2))
    then have "concat outs @ r' = (case out of Some piece \<Rightarrow> piece | None \<Rightarrow> []) @ (r1 @ concat cs)"
      using IH by simp
    also have "\<dots> = r @ concat (c # cs)" unfolding append_assoc [symmetric] spec(1) by simp
    finally show ?thesis .
  qed
  moreover have "list_all utf8_valid outs" if "utf8_valid (r @ concat (c # cs) @ ys)"
    using spec(3) [of "concat cs @ ys"] IH that os(2) by (cases out) auto
  ultimately show ?case using IH by blast
qed auto

text \<open>
  C22: the guard against cut characters loses and reorders nothing, keeps back at most three bytes,
  and if the stream is UTF-8, however it is cut into chunks and however it goes on, every piece that
  is handed on is UTF-8 by itself.
\<close>

theorem utf8_guard_keeps_characters:
  assumes "guard_run [] chunks = (outs, residual)"
  shows "concat outs @ residual = concat chunks \<and> length residual < 4
    \<and> (utf8_valid (concat chunks @ later) \<longrightarrow> list_all utf8_valid outs)"
  using guard_run_spec [OF assms, of later] by simp

theorem utf8_guard_keeps_characters_witness:
  "list_all utf8_valid (fst (guard_run [] [[0x61, 0xe4, 0xbd], [0xa0]]))"
proof -
  have "utf8_valid (concat [[0x61, 0xe4, 0xbd], [0xa0 :: u8]] @ [])" by code_simp
  then show ?thesis using utf8_guard_keeps_characters [OF prod.collapse [symmetric]] by blast
qed

end
