(* ===== verification/Telnet.thy ===== *)
theory Telnet
  imports Prelude
begin

text \<open>
  The Telnet protocol of \<^verbatim>\<open>hapcli-terminal/src/session/telnet.rs\<close>: the codec that filters what the
  server sends and answers its negotiation, and the worker that connects the codec, the socket and
  the session. Connecting and the session's terminal are not modelled: a worker starts connected,
  and whether the socket takes a write or the session takes an event is decided by its surroundings, which know what came before.
  An automaton of the protocol (RFC 854) that reads byte by byte is the reference.
\<close>

subsection \<open>The source's operations: the codec\<close>

definition TELNET_TERMINAL_TYPE :: bytes where
  "TELNET_TERMINAL_TYPE = [120, 116, 101, 114, 109, 45, 50, 53, 54, 99, 111, 108, 111, 114]"

abbreviation IAC :: u8 where "IAC \<equiv> 255"
abbreviation DONT :: u8 where "DONT \<equiv> 254"
abbreviation DO :: u8 where "DO \<equiv> 253"
abbreviation WONT :: u8 where "WONT \<equiv> 252"
abbreviation WILL :: u8 where "WILL \<equiv> 251"
abbreviation SB :: u8 where "SB \<equiv> 250"
abbreviation SE :: u8 where "SE \<equiv> 240"
abbreviation OPTION_BINARY :: u8 where "OPTION_BINARY \<equiv> 0"
abbreviation OPTION_ECHO :: u8 where "OPTION_ECHO \<equiv> 1"
abbreviation OPTION_SUPPRESS_GO_AHEAD :: u8 where "OPTION_SUPPRESS_GO_AHEAD \<equiv> 3"
abbreviation OPTION_TERMINAL_TYPE :: u8 where "OPTION_TERMINAL_TYPE \<equiv> 24"
abbreviation OPTION_NAWS :: u8 where "OPTION_NAWS \<equiv> 31"

datatype telnet_control_command =
    NoOperation | Break | InterruptProcess | AbortOutput | AreYouThere
  | EraseCharacter | EraseLine | GoAhead

datatype telnet_command =
    CommandData bytes
  | CommandControl telnet_control_command
  | CommandResize u16 u16
  | CommandClose

datatype telnet_worker_event = Connected | Output bytes | Failed bytes | Closed

record telnet_codec =
  tc_cols :: u16
  tc_rows :: u16

definition telnet_codec_new :: "u16 \<Rightarrow> u16 \<Rightarrow> telnet_codec" where
  "telnet_codec_new cols rows = \<lparr>tc_cols = cols, tc_rows = rows\<rparr>"

definition set_window_size :: "u16 \<Rightarrow> u16 \<Rightarrow> telnet_codec \<Rightarrow> telnet_codec" where
  "set_window_size cols rows c = c\<lparr>tc_cols := max cols 2, tc_rows := max rows 2\<rparr>"

fun telnet_escape_iac_payload :: "bytes \<Rightarrow> bytes" where
  "telnet_escape_iac_payload [] = []"
| "telnet_escape_iac_payload (b # bs) =
     (if b = IAC then [b, IAC] else [b]) @ telnet_escape_iac_payload bs"

fun encode_client_data :: "bytes \<Rightarrow> bytes" where
  "encode_client_data [] = []"
| "encode_client_data (b # bs) = (if b = IAC then [b, IAC] else [b]) @ encode_client_data bs"

definition naws_message :: "telnet_codec \<Rightarrow> bytes" where
  "naws_message c =
     (let payload = [ucast (drop_bit 8 (tc_cols c)), ucast (tc_cols c),
                     ucast (drop_bit 8 (tc_rows c)), ucast (tc_rows c)] in
      [IAC, SB, OPTION_NAWS] @ telnet_escape_iac_payload payload @ [IAC, SE])"

definition negotiation_responses :: "telnet_codec \<Rightarrow> u8 \<Rightarrow> u8 \<Rightarrow> bytes list" where
  "negotiation_responses c command option =
     (if command = DO then
        (if option \<in> {OPTION_BINARY, OPTION_SUPPRESS_GO_AHEAD, OPTION_TERMINAL_TYPE, OPTION_NAWS}
         then [IAC, WILL, option] # (if option = OPTION_NAWS then [naws_message c] else [])
         else [[IAC, WONT, option]])
      else if command = WILL then
        (if option \<in> {OPTION_BINARY, OPTION_ECHO, OPTION_SUPPRESS_GO_AHEAD}
         then [[IAC, DO, option]] else [[IAC, DONT, option]])
      else if command = DONT then [[IAC, WONT, option]]
      else if command = WONT then [[IAC, DONT, option]]
      else [])"

definition subnegotiation_responses :: "bytes \<Rightarrow> bytes list" where
  "subnegotiation_responses bs =
     (case bs of
        a # b # _ \<Rightarrow>
          if a = OPTION_TERMINAL_TYPE \<and> b = 1
          then [[IAC, SB, OPTION_TERMINAL_TYPE, 0] @ TELNET_TERMINAL_TYPE @ [IAC, SE]] else []
      | _ \<Rightarrow> [])"

text \<open>The inner loop over a subnegotiation: the index at which it stops.\<close>

fun sub_end :: "bytes \<Rightarrow> nat" where
  "sub_end (a # b # rest) = (if a = IAC \<and> b = SE then 0 else sub_end (b # rest) + 1)"
| "sub_end bs = 0"

lemma sub_end_le: "sub_end bs \<le> length bs"
  by (induction bs rule: sub_end.induct) auto

function filter_server_bytes :: "telnet_codec \<Rightarrow> bytes \<Rightarrow> bytes \<times> bytes list" where
  "filter_server_bytes c bs =
     (case bs of
        [] \<Rightarrow> ([], [])
      | b # rest \<Rightarrow>
          if b \<noteq> IAC then (let (data, responses) = filter_server_bytes c rest in (b # data, responses))
          else (case rest of
             [] \<Rightarrow> ([], [])
           | command # rest \<Rightarrow>
               if command = IAC then
                 (let (data, responses) = filter_server_bytes c rest in (IAC # data, responses))
               else if command \<in> {DO, DONT, WILL, WONT} then
                 (case rest of
                    [] \<Rightarrow> ([], [])
                  | option # rest \<Rightarrow>
                      (let (data, responses) = filter_server_bytes c rest in
                       (data, negotiation_responses c command option @ responses)))
               else if command = SB then
                 (let k = sub_end rest;
                      (data, responses) = filter_server_bytes c (drop (if k + 1 < length rest then k + 2 else k) rest) in
                  (data, subnegotiation_responses (take k rest) @ responses))
               else filter_server_bytes c rest))"
  by pat_completeness auto
termination
  by (relation "measure (\<lambda>(c, bs). length bs)") auto

declare filter_server_bytes.simps [simp del]

definition control_command_byte :: "telnet_control_command \<Rightarrow> u8" where
  "control_command_byte command =
     (case command of NoOperation \<Rightarrow> 241 | Break \<Rightarrow> 243 | InterruptProcess \<Rightarrow> 244 | AbortOutput \<Rightarrow> 245
      | AreYouThere \<Rightarrow> 246 | EraseCharacter \<Rightarrow> 247 | EraseLine \<Rightarrow> 248 | GoAhead \<Rightarrow> 249)"

subsection \<open>The source's operations: the worker\<close>

text \<open>What the select loop of the worker waits for: the socket or a command.\<close>

datatype worker_input = ReadBytes bytes | ReadError bytes | Received "telnet_command option"

record telnet_worker =
  tw_codec :: telnet_codec
  tw_written :: bytes
  tw_events :: "telnet_worker_event list"
  tw_running :: bool

definition worker_start :: "u16 \<Rightarrow> u16 \<Rightarrow> telnet_worker" where
  "worker_start cols rows =
     \<lparr>tw_codec = telnet_codec_new cols rows, tw_written = [], tw_events = [Connected], tw_running = True\<rparr>"

definition worker_stop :: "telnet_worker_event \<Rightarrow> telnet_worker \<Rightarrow> telnet_worker" where
  "worker_stop e w = w\<lparr>tw_events := tw_events w @ [e], tw_running := False\<rparr>"

definition worker_write :: "(bytes \<Rightarrow> bytes \<Rightarrow> bool) \<Rightarrow> bytes \<Rightarrow> telnet_worker \<Rightarrow> telnet_worker" where
  "worker_write accept bs w =
     (if accept (tw_written w) bs then w\<lparr>tw_written := tw_written w @ bs\<rparr> else worker_stop Closed w)"

fun worker_write_all :: "(bytes \<Rightarrow> bytes \<Rightarrow> bool) \<Rightarrow> bytes list \<Rightarrow> telnet_worker \<Rightarrow> telnet_worker" where
  "worker_write_all accept [] w = w"
| "worker_write_all accept (r # rs) w =
     (let w1 = worker_write accept r w in if tw_running w1 then worker_write_all accept rs w1 else w1)"

definition worker_turn ::
    "(bytes \<Rightarrow> bytes \<Rightarrow> bool) \<Rightarrow> (telnet_worker_event list \<Rightarrow> bytes \<Rightarrow> bool)
       \<Rightarrow> worker_input \<Rightarrow> telnet_worker \<Rightarrow> telnet_worker" where
  "worker_turn accept deliver inp w =
     (case inp of
        ReadBytes bs \<Rightarrow>
          if bs = [] then worker_stop Closed w
          else
            let (data, responses) = filter_server_bytes (tw_codec w) bs;
                w1 = worker_write_all accept responses w in
            if \<not> tw_running w1 \<or> data = [] then w1
            else if deliver (tw_events w1) data then w1\<lparr>tw_events := tw_events w1 @ [Output data]\<rparr>
            else w1\<lparr>tw_running := False\<rparr>
      | ReadError e \<Rightarrow> worker_stop (Failed e) w
      | Received (Some (CommandData bs)) \<Rightarrow> worker_write accept (encode_client_data bs) w
      | Received (Some (CommandControl command)) \<Rightarrow> worker_write accept [IAC, control_command_byte command] w
      | Received (Some (CommandResize cols rows)) \<Rightarrow>
          (let w1 = w\<lparr>tw_codec := set_window_size cols rows (tw_codec w)\<rparr> in
           worker_write accept (naws_message (tw_codec w1)) w1)
      | Received (Some CommandClose) \<Rightarrow> worker_stop Closed w
      | Received None \<Rightarrow> worker_stop Closed w)"

fun run_telnet_worker ::
    "(bytes \<Rightarrow> bytes \<Rightarrow> bool) \<Rightarrow> (telnet_worker_event list \<Rightarrow> bytes \<Rightarrow> bool)
       \<Rightarrow> worker_input list \<Rightarrow> telnet_worker \<Rightarrow> telnet_worker" where
  "run_telnet_worker accept deliver [] w = w"
| "run_telnet_worker accept deliver (i # is) w =
     (let w1 = worker_turn accept deliver i w in
      if tw_running w1 then run_telnet_worker accept deliver is w1 else w1)"

subsection \<open>The protocol, byte by byte\<close>

datatype telnet_item = Data u8 | Negotiate u8 u8 | Subnegotiate bytes | Command u8

datatype telnet_state = Ground | SeenIac | SeenNegotiation u8 | InSub bytes | InSubIac bytes

fun telnet_byte :: "telnet_state \<Rightarrow> u8 \<Rightarrow> telnet_state \<times> telnet_item list" where
  "telnet_byte Ground b = (if b = IAC then (SeenIac, []) else (Ground, [Data b]))"
| "telnet_byte SeenIac b =
     (if b = IAC then (Ground, [Data IAC])
      else if b \<in> {DO, DONT, WILL, WONT} then (SeenNegotiation b, [])
      else if b = SB then (InSub [], []) else (Ground, [Command b]))"
| "telnet_byte (SeenNegotiation c) b = (Ground, [Negotiate c b])"
| "telnet_byte (InSub p) b = (if b = IAC then (InSubIac p, []) else (InSub (p @ [b]), []))"
| "telnet_byte (InSubIac p) b =
     (if b = SE then (Ground, [Subnegotiate p])
      else if b = IAC then (InSub (p @ [IAC]), []) else (InSub (p @ [IAC, b]), []))"

fun telnet_parse :: "telnet_state \<Rightarrow> bytes \<Rightarrow> telnet_state \<times> telnet_item list" where
  "telnet_parse s [] = (s, [])"
| "telnet_parse s (b # bs) =
     (let (s1, is) = telnet_byte s b; (s2, js) = telnet_parse s1 bs in (s2, is @ js))"

lemma telnet_parse_append:
  "telnet_parse s (xs @ ys) =
     (let (s1, is) = telnet_parse s xs; (s2, js) = telnet_parse s1 ys in (s2, is @ js))"
  by (induction xs arbitrary: s) (auto split: prod.splits)

fun data_of :: "telnet_item list \<Rightarrow> bytes" where
  "data_of [] = []"
| "data_of (Data b # is) = b # data_of is"
| "data_of (i # is) = data_of is"

lemma data_of_append [simp]: "data_of (is @ js) = data_of is @ data_of js"
  by (induction "is" rule: data_of.induct) auto

lemma data_of_Data [simp]: "data_of (map Data bs) = bs"
  by (induction bs) auto

fun answers :: "telnet_codec \<Rightarrow> telnet_item list \<Rightarrow> bytes list" where
  "answers c [] = []"
| "answers c (Negotiate command option # is) = negotiation_responses c command option @ answers c is"
| "answers c (Subnegotiate p # is) = subnegotiation_responses p @ answers c is"
| "answers c (i # is) = answers c is"

text \<open>Complete messages: read from the ground state they lead back to it.\<close>

definition message :: "bytes \<Rightarrow> telnet_item list \<Rightarrow> bool" where
  "message bs is \<longleftrightarrow> telnet_parse Ground bs = (Ground, is)"

lemma message_append: "message xs is \<Longrightarrow> message ys js \<Longrightarrow> message (xs @ ys) (is @ js)"
  by (simp add: message_def telnet_parse_append)

lemma message_Nil: "message [] []"
  by (simp add: message_def)

lemma encode_message: "message (encode_client_data bs) (map Data bs)"
proof (induction bs)
  case (Cons b bs)
  then show ?case by (cases "b = IAC") (auto simp: message_def)
qed (simp add: message_Nil)

lemma parse_sub: "telnet_parse (InSub p) (telnet_escape_iac_payload bs @ [IAC, SE]) = (Ground, [Subnegotiate (p @ bs)])"
  by (induction bs arbitrary: p) auto

lemma naws_is_message:
  "message (naws_message c) [Subnegotiate [OPTION_NAWS, ucast (drop_bit 8 (tc_cols c)), ucast (tc_cols c),
     ucast (drop_bit 8 (tc_rows c)), ucast (tc_rows c)]]"
proof -
  let ?p = "[ucast (drop_bit 8 (tc_cols c)), ucast (tc_cols c), ucast (drop_bit 8 (tc_rows c)), ucast (tc_rows c)] :: bytes"
  have "telnet_parse Ground ([IAC, SB, OPTION_NAWS] @ telnet_escape_iac_payload ?p @ [IAC, SE]) =
      (Ground, [Subnegotiate ([OPTION_NAWS] @ ?p)])"
    by (simp only: telnet_parse_append [of Ground "[IAC, SB, OPTION_NAWS]"]) (simp add: parse_sub del: telnet_escape_iac_payload.simps)
  then show ?thesis by (simp add: message_def naws_message_def Let_def)
qed

lemma negotiation_is_message:
  assumes "r \<in> set (negotiation_responses c command option)"
  shows "\<exists>is. message r is \<and> data_of is = []"
proof -
  have three: "message [IAC, k, option] [Negotiate k option]" if "k \<in> {DO, DONT, WILL, WONT}" for k
    using that by (auto simp: message_def)
  have "r = naws_message c \<or> (\<exists>k\<in>{DO, DONT, WILL, WONT}. r = [IAC, k, option])"
    using assms by (auto simp: negotiation_responses_def split: if_splits)
  then show ?thesis using three naws_is_message by (metis data_of.simps(1,3,4))
qed

lemma subnegotiation_is_message:
  assumes "r \<in> set (subnegotiation_responses p)"
  shows "\<exists>is. message r is \<and> data_of is = []"
proof -
  have "r = [IAC, SB, OPTION_TERMINAL_TYPE, 0] @ TELNET_TERMINAL_TYPE @ [IAC, SE]"
    using assms by (auto simp: subnegotiation_responses_def split: list.splits if_splits)
  moreover have "message ([IAC, SB, OPTION_TERMINAL_TYPE, 0] @ TELNET_TERMINAL_TYPE @ [IAC, SE])
      [Subnegotiate ([OPTION_TERMINAL_TYPE, 0] @ TELNET_TERMINAL_TYPE)]"
    by (simp add: message_def TELNET_TERMINAL_TYPE_def)
  ultimately show ?thesis by fastforce
qed

lemma response_is_message:
  "r \<in> set (snd (filter_server_bytes c bs)) \<Longrightarrow> \<exists>is. message r is \<and> data_of is = []"
proof (induction c bs rule: filter_server_bytes.induct)
  case (1 c bs)
  then show ?case
    by (subst (asm) filter_server_bytes.simps)
       (auto split: list.splits if_splits prod.splits dest: negotiation_is_message subnegotiation_is_message simp: Let_def)
qed

subsection \<open>What the worker writes\<close>

fun typed :: "worker_input list \<Rightarrow> bytes" where
  "typed [] = []"
| "typed (Received (Some (CommandData bs)) # is) = bs @ typed is"
| "typed (i # is) = typed is"

lemma typed_Cons: "typed (i # is) = typed [i] @ typed is"
  by (cases "i # is" rule: typed.cases) auto

definition wire_ok :: "bytes \<Rightarrow> telnet_worker \<Rightarrow> bool" where
  "wire_ok t w \<longleftrightarrow> (\<exists>is. message (tw_written w) is
     \<and> (if tw_running w then data_of is = t else prefix (data_of is) t))"

lemma wire_write:
  assumes "wire_ok t w" and "tw_running w" and "message bs js"
  shows "wire_ok (t @ data_of js) (worker_write accept bs w)"
proof -
  obtain "is" where "is": "message (tw_written w) is" "data_of is = t" using assms(1,2) by (auto simp: wire_ok_def)
  show ?thesis
  proof (cases "accept (tw_written w) bs")
    case True
    then show ?thesis
      using message_append [OF "is"(1) assms(3)] "is"(2) assms(2)
      by (auto simp: wire_ok_def worker_write_def intro!: exI [of _ "is @ js"])
  next
    case False
    then show ?thesis using "is" by (auto simp: wire_ok_def worker_write_def worker_stop_def)
  qed
qed

lemma wire_write_all:
  assumes "wire_ok t w" and "tw_running w" and "\<And>r. r \<in> set rs \<Longrightarrow> \<exists>is. message r is \<and> data_of is = []"
  shows "wire_ok t (worker_write_all accept rs w)"
  using assms
proof (induction rs arbitrary: w)
  case (Cons r rs)
  obtain js where js: "message r js" "data_of js = []" using Cons.prems(3) [of r] by auto
  have "wire_ok t (worker_write accept r w)" using wire_write [OF Cons.prems(1,2) js(1)] js(2) by simp
  then show ?case using Cons.IH Cons.prems(3) by (simp add: Let_def)
qed simp

lemma wire_stop: "wire_ok t w \<Longrightarrow> tw_running w \<Longrightarrow> prefix t t' \<Longrightarrow> wire_ok t' (w\<lparr>tw_running := False, tw_events := es\<rparr>)"
  by (auto simp: wire_ok_def)

lemma wire_events [simp]: "wire_ok t (w\<lparr>tw_events := es\<rparr>) = wire_ok t w"
  "wire_ok t (w\<lparr>tw_codec := c\<rparr>) = wire_ok t w"
  by (simp_all add: wire_ok_def)

lemma wire_turn:
  assumes ok: "wire_ok t w" and run: "tw_running w"
  shows "wire_ok (t @ typed [i]) (worker_turn accept deliver i w)"
proof -
  have stop: "wire_ok t (worker_stop e w)" for e
    using ok run by (auto simp: wire_ok_def worker_stop_def)
  consider (bytes) bs where "i = ReadBytes bs" | (error) e where "i = ReadError e"
    | (data) bs where "i = Received (Some (CommandData bs))" | (control) k where "i = Received (Some (CommandControl k))"
    | (resize) cols rows where "i = Received (Some (CommandResize cols rows))"
    | (close) "i = Received (Some CommandClose)" | (none) "i = Received None"
    by (metis worker_input.exhaust option.exhaust telnet_command.exhaust)
  then show ?thesis
  proof cases
    case bytes
    let ?w1 = "worker_write_all accept (snd (filter_server_bytes (tw_codec w) bs)) w"
    have "wire_ok t ?w1"
      by (rule wire_write_all [OF ok run]) (rule response_is_message)
    moreover from this have "wire_ok t (?w1\<lparr>tw_running := False\<rparr>)" by (auto simp: wire_ok_def split: if_splits)
    ultimately show ?thesis using stop by (auto simp: bytes worker_turn_def case_prod_unfold Let_def)
  next
    case data
    then show ?thesis using wire_write [OF ok run encode_message] by (simp add: worker_turn_def)
  next
    case control
    have "message [IAC, control_command_byte k] [Command (control_command_byte k)]"
      by (cases k) (simp_all add: message_def control_command_byte_def)
    from wire_write [OF ok run this] show ?thesis by (simp add: control worker_turn_def)
  next
    case resize
    let ?w = "w\<lparr>tw_codec := set_window_size cols rows (tw_codec w)\<rparr>"
    have "wire_ok t ?w" "tw_running ?w" using ok run by simp_all
    from wire_write [OF this naws_is_message] show ?thesis by (simp add: resize worker_turn_def Let_def)
  qed (use stop in \<open>simp_all add: worker_turn_def\<close>)
qed

lemma wire_run:
  "wire_ok t w \<Longrightarrow> tw_running w \<Longrightarrow> wire_ok (t @ typed is) (run_telnet_worker accept deliver is w)"
proof (induction "is" arbitrary: t w)
  case (Cons i "is")
  let ?w1 = "worker_turn accept deliver i w"
  have one: "wire_ok (t @ typed [i]) ?w1" by (rule wire_turn [OF Cons.prems])
  show ?case
  proof (cases "tw_running ?w1")
    case True
    then show ?thesis using Cons.IH [OF one True] by (simp add: typed_Cons [of i "is"])
  next
    case False
    then have "wire_ok ((t @ typed [i]) @ typed is) ?w1"
      using one prefix_prefix unfolding wire_ok_def by force
    then show ?thesis using False by (simp add: typed_Cons [of i "is"])
  qed
qed simp



subsection \<open>What the codec makes of the server's bytes\<close>

definition plain_subs :: "telnet_item list \<Rightarrow> bool" where
  "plain_subs is \<longleftrightarrow> list_all (\<lambda>i. case i of Subnegotiate p \<Rightarrow> IAC \<notin> set p | _ \<Rightarrow> True) is"

lemma plain_subs_simps [simp]:
  "plain_subs []"
  "plain_subs (i # is) \<longleftrightarrow> (case i of Subnegotiate p \<Rightarrow> IAC \<notin> set p | _ \<Rightarrow> True) \<and> plain_subs is"
  "plain_subs (is @ js) \<longleftrightarrow> plain_subs is \<and> plain_subs js"
  by (simp_all add: plain_subs_def)

lemma sub_keeps_iac:
  "telnet_parse s bs = (Ground, is) \<Longrightarrow> (case s of InSub p \<Rightarrow> IAC \<in> set p | InSubIac p \<Rightarrow> IAC \<in> set p | _ \<Rightarrow> False) \<Longrightarrow>
   \<not> plain_subs is"
proof (induction bs arbitrary: s "is")
  case (Cons b bs)
  obtain s1 js where step: "telnet_byte s b = (s1, js)" by fastforce
  obtain ks where rest: "telnet_parse s1 bs = (Ground, ks)" "is = js @ ks"
    using Cons.prems(1) step by (auto split: prod.splits)
  show ?case using Cons.prems(2) step rest Cons.IH [OF rest(1)] by (cases s) (auto split: if_splits)
qed (auto split: telnet_state.splits)

lemma sub_end_parse:
  assumes "telnet_parse (InSub p) xs = (Ground, is)" and "plain_subs is"
  shows "sub_end xs + 1 < length xs
    \<and> (\<exists>js. is = Subnegotiate (p @ take (sub_end xs) xs) # js \<and> telnet_parse Ground (drop (sub_end xs + 2) xs) = (Ground, js))"
  using assms
proof (induction xs arbitrary: p)
  case (Cons x xs)
  show ?case
  proof (cases "x = IAC")
    case False
    then have "telnet_parse (InSub (p @ [x])) xs = (Ground, is)" using Cons.prems(1) by (auto split: prod.splits)
    moreover have "sub_end (x # xs) = sub_end xs + 1" if "xs \<noteq> []" using that False by (cases xs) auto
    ultimately show ?thesis using Cons.IH [of "p @ [x]"] Cons.prems(2) by (cases "xs = []") auto
  next
    case True
    then have rest: "telnet_parse (InSubIac p) xs = (Ground, is)" using Cons.prems(1) by (auto split: prod.splits)
    then obtain y ys where y: "xs = y # ys" by (cases xs) auto
    show ?thesis
    proof (cases "y = SE")
      case True
      then show ?thesis using rest y \<open>x = IAC\<close> by (auto split: prod.splits)
    next
      case False
      then have "telnet_parse (InSub (p @ (if y = IAC then [IAC] else [IAC, y]))) ys = (Ground, is)"
        using rest y by (auto split: prod.splits)
      then show ?thesis using sub_keeps_iac Cons.prems(2) by fastforce
    qed
  qed
qed simp

lemma filter_cases:
  "filter_server_bytes c [] = ([], [])"
  "b \<noteq> IAC \<Longrightarrow> filter_server_bytes c (b # rest) =
     (let (data, responses) = filter_server_bytes c rest in (b # data, responses))"
  "filter_server_bytes c (IAC # IAC # rest) =
     (let (data, responses) = filter_server_bytes c rest in (IAC # data, responses))"
  "k \<in> {DO, DONT, WILL, WONT} \<Longrightarrow> filter_server_bytes c (IAC # k # opt # rest) =
     (let (data, responses) = filter_server_bytes c rest in (data, negotiation_responses c k opt @ responses))"
  "filter_server_bytes c (IAC # SB # rest) =
     (let n = sub_end rest;
          (data, responses) = filter_server_bytes c (drop (if n + 1 < length rest then n + 2 else n) rest) in
      (data, subnegotiation_responses (take n rest) @ responses))"
  by (subst filter_server_bytes.simps, force)+

lemma filter_other:
  "k \<noteq> IAC \<Longrightarrow> k \<notin> {DO, DONT, WILL, WONT} \<Longrightarrow> k \<noteq> SB \<Longrightarrow>
     filter_server_bytes c (IAC # k # rest) = filter_server_bytes c rest"
  by (simp add: filter_server_bytes.simps [of c "IAC # k # rest"])

lemma filter_complete:
  "telnet_parse Ground bs = (Ground, is) \<Longrightarrow> plain_subs is \<Longrightarrow>
   filter_server_bytes c bs = (data_of is, answers c is)"
proof (induction "length bs" arbitrary: bs "is" rule: less_induct)
  case less
  show ?case
  proof (cases bs)
    case Nil
    then show ?thesis using less.prems by (simp add: filter_server_bytes.simps)
  next
    case (Cons b rest)
    show ?thesis
    proof (cases "b = IAC")
      case False
      then obtain js where "telnet_parse Ground rest = (Ground, js)" "is = Data b # js"
        using less.prems(1) Cons by (auto split: prod.splits)
      then show ?thesis
        using less.hyps [of rest js] less.prems(2) Cons False by (simp add: filter_cases)
    next
      case iac: True
      then have "telnet_parse SeenIac rest = (Ground, is)" using less.prems(1) Cons by (auto split: prod.splits)
      then obtain k rest2 where rest: "rest = k # rest2" and after: "telnet_parse SeenIac (k # rest2) = (Ground, is)"
        by (cases rest) auto
      consider (iac) "k = IAC" | (neg) "k \<in> {DO, DONT, WILL, WONT}" | (sub) "k = SB"
        | (other) "k \<noteq> IAC" "k \<notin> {DO, DONT, WILL, WONT}" "k \<noteq> SB" by blast
      then show ?thesis
      proof cases
        case iac
        then obtain js where "telnet_parse Ground rest2 = (Ground, js)" "is = Data IAC # js"
          using after by (auto split: prod.splits)
        then show ?thesis
          using less.hyps [of rest2 js] less.prems(2) Cons rest iac \<open>b = IAC\<close> by (simp add: filter_cases)
      next
        case neg
        then have "telnet_parse (SeenNegotiation k) rest2 = (Ground, is)" using after by (auto split: prod.splits)
        then obtain opt rest3 js where "rest2 = opt # rest3" "telnet_parse Ground rest3 = (Ground, js)" "is = Negotiate k opt # js"
          by (cases rest2) (auto split: prod.splits)
        then show ?thesis
          using less.hyps [of rest3 js] less.prems(2) Cons rest neg \<open>b = IAC\<close> by (auto simp: filter_cases)
      next
        case sub
        then have "telnet_parse (InSub []) rest2 = (Ground, is)" using after by (auto split: prod.splits)
        from sub_end_parse [OF this less.prems(2)] obtain js where js: "sub_end rest2 + 1 < length rest2"
          "is = Subnegotiate (take (sub_end rest2) rest2) # js" "telnet_parse Ground (drop (sub_end rest2 + 2) rest2) = (Ground, js)"
          by auto
        have "filter_server_bytes c (drop (sub_end rest2 + 2) rest2) = (data_of js, answers c js)"
          by (rule less.hyps) (use js less.prems(2) Cons rest in auto)
        then show ?thesis
          using js sub \<open>b = IAC\<close> Cons rest by (simp add: filter_cases Let_def)
      next
        case other
        then obtain js where "telnet_parse Ground rest2 = (Ground, js)" "is = Command k # js"
          using after by (auto split: prod.splits)
        then show ?thesis
          using less.hyps [of rest2 js] less.prems(2) Cons rest other \<open>b = IAC\<close> by (simp add: filter_other)
      qed
    qed
  qed
qed



text \<open>
  The codec keeps no state between reads. When the socket delivers a message in two
  parts, its second part is taken for terminal data and the request is not answered; and of a
  subnegotiation that is not yet complete, the last byte is shown on the terminal.
\<close>

theorem telnet_split_message_becomes_data:
  assumes "command \<in> {DO, DONT, WILL, WONT}" and "option \<noteq> IAC"
  shows "filter_server_bytes c [IAC, command, option] = ([], negotiation_responses c command option)
    \<and> filter_server_bytes c [IAC] = ([], []) \<and> filter_server_bytes c [command, option] = ([command, option], [])
    \<and> filter_server_bytes c [IAC, SB, OPTION_TERMINAL_TYPE, 1] = ([1], [])"
  using assms
  by (auto simp: filter_server_bytes.simps subnegotiation_responses_def)

theorem telnet_split_message_becomes_data_witness:
  "fst (filter_server_bytes (telnet_codec_new 80 24) [IAC]) @ fst (filter_server_bytes (telnet_codec_new 80 24) [DO, OPTION_NAWS]) = [DO, OPTION_NAWS]
   \<and> fst (filter_server_bytes (telnet_codec_new 80 24) [IAC, DO, OPTION_NAWS]) = []"
  using telnet_split_message_becomes_data [of DO OPTION_NAWS "telnet_codec_new 80 24"] by simp

text \<open>Refusals are answered by refusals, although they acknowledge: two such codecs never stop
  refusing each other an option.\<close>

lemma telnet_refusals_answer_each_other:
  "filter_server_bytes c [IAC, WONT, option] = ([], [[IAC, DONT, option]])
   \<and> filter_server_bytes c [IAC, DONT, option] = ([], [[IAC, WONT, option]])"
  by (simp add: filter_cases negotiation_responses_def)

end
