(* ===== verification/X11_Setup.thy ===== *)
theory X11_Setup
  imports Rust_Str
begin

text \<open>
  X11 forwarding (\<^verbatim>\<open>hapcli-x11-forwarding/src/\<close>): authentication cookies (\<^verbatim>\<open>auth.rs\<close>), the setup
  packet in which a client authenticates (\<^verbatim>\<open>protocol.rs\<close>), the registry of the cookies announced
  to SSH servers (\<^verbatim>\<open>registry.rs\<close>) and the buffer that collects the setup packet, checks its fake
  cookie and puts the cookie of the local X server in its place (\<^verbatim>\<open>setup_buffer.rs\<close>).
  Random bytes are an argument of the operations that draw them.
\<close>

subsection \<open>The source's operations: cookies\<close>

datatype x11_forwarding_error =
    EmptyDisplay | MissingDisplay | InvalidDisplay bytes | DisplayPortOutOfRange u16
  | InvalidAuthCookie bytes | UnsupportedAuthProtocol bytes | InvalidXauthRecord bytes
  | MissingAuthEntry | AuthorityFileUnavailable bytes | XauthUnavailable bytes | XauthTimedOut
  | XauthFailed bytes | XauthOutputTooLarge nat | RemoteDisplayUnavailable | AuthCookieMismatch
  | IncompleteSetupPacket | SetupPacketTooLarge nat | UnsupportedByteOrder u8
  | InvalidSetupPacketLength

datatype x11_auth_protocol = MitMagicCookie1

definition auth_protocol_parse :: "bytes \<Rightarrow> x11_forwarding_error + x11_auth_protocol" where
  "auth_protocol_parse s =
     (let t = str_trim s in
      if t = str_lit ''MIT-MAGIC-COOKIE-1'' then Ok MitMagicCookie1
      else Err (UnsupportedAuthProtocol t))"

definition ssh_name :: "x11_auth_protocol \<Rightarrow> bytes" where
  "ssh_name protocol = str_lit ''MIT-MAGIC-COOKIE-1''"

record x11_auth_cookie =
  ck_bytes :: bytes

text \<open>The operating system's generator has filled \<open>random\<close>.\<close>

definition random_with_len :: "(nat \<Rightarrow> bytes) \<Rightarrow> nat \<Rightarrow> x11_auth_cookie" where
  "random_with_len random n = \<lparr>ck_bytes = random (max n 1)\<rparr>"

definition cookie_from_bytes :: "bytes \<Rightarrow> x11_forwarding_error + x11_auth_cookie" where
  "cookie_from_bytes bs =
     (if bs = [] then Err (InvalidAuthCookie (str_lit ''cookie bytes must not be empty''))
      else Ok \<lparr>ck_bytes = bs\<rparr>)"

definition decode_hex_nibble :: "u8 \<Rightarrow> x11_forwarding_error + u8" where
  "decode_hex_nibble b =
     (if 48 \<le> b \<and> b \<le> 57 then Ok (b - 48)
      else if 97 \<le> b \<and> b \<le> 102 then Ok (b - 97 + 10)
      else if 65 \<le> b \<and> b \<le> 70 then Ok (b - 65 + 10)
      else Err (InvalidAuthCookie (str_lit ''hex cookie contains a non-hex digit'')))"

fun decode_hex_pairs :: "bytes \<Rightarrow> x11_forwarding_error + bytes" where
  "decode_hex_pairs (a # b # rest) =
     res_bind (decode_hex_nibble a) (\<lambda>high.
     res_bind (decode_hex_nibble b) (\<lambda>low.
     res_bind (decode_hex_pairs rest) (\<lambda>bs. Ok ((push_bit 4 high OR low) # bs))))"
| "decode_hex_pairs bs = Ok []"

definition cookie_from_hex :: "bytes \<Rightarrow> x11_forwarding_error + x11_auth_cookie" where
  "cookie_from_hex s =
     (let hex = str_trim s in
      if hex = [] then Err (InvalidAuthCookie (str_lit ''hex cookie must not be empty''))
      else if length hex mod 2 \<noteq> 0
      then Err (InvalidAuthCookie (str_lit ''hex cookie must contain an even number of digits''))
      else res_bind (decode_hex_pairs hex) cookie_from_bytes)"

definition cookie_len :: "x11_auth_cookie \<Rightarrow> nat" where
  "cookie_len c = length (ck_bytes c)"

definition cookie_is_empty :: "x11_auth_cookie \<Rightarrow> bool" where
  "cookie_is_empty c \<longleftrightarrow> ck_bytes c = []"

definition push_hex_byte :: "bytes \<Rightarrow> u8 \<Rightarrow> bytes" where
  "push_hex_byte output b =
     (let table = str_lit ''0123456789abcdef'' in
      output @ [table ! unat (drop_bit 4 b)] @ [table ! unat (b AND 0x0f)])"

definition to_hex :: "x11_auth_cookie \<Rightarrow> bytes" where
  "to_hex c = fold (\<lambda>b output. push_hex_byte output b) (ck_bytes c) []"

text \<open>The constant-time comparison compares the bytes.\<close>

definition constant_time_eq :: "x11_auth_cookie \<Rightarrow> x11_auth_cookie \<Rightarrow> bool" where
  "constant_time_eq a b \<longleftrightarrow> ck_bytes a = ck_bytes b"

record x11_auth_material =
  am_protocol :: x11_auth_protocol
  am_fake_cookie :: x11_auth_cookie
  am_local_cookie :: x11_auth_cookie

definition mit_magic_cookie :: "(nat \<Rightarrow> bytes) \<Rightarrow> x11_auth_cookie \<Rightarrow> x11_auth_material" where
  "mit_magic_cookie random local_cookie =
     \<lparr>am_protocol = MitMagicCookie1,
      am_fake_cookie = random_with_len random (cookie_len local_cookie),
      am_local_cookie = local_cookie\<rparr>"

definition with_fake_cookie :: "x11_auth_cookie \<Rightarrow> x11_auth_cookie \<Rightarrow> x11_auth_material" where
  "with_fake_cookie fake_cookie local_cookie =
     \<lparr>am_protocol = MitMagicCookie1, am_fake_cookie = fake_cookie,
      am_local_cookie = local_cookie\<rparr>"

definition ssh_auth_protocol :: "x11_auth_material \<Rightarrow> bytes" where
  "ssh_auth_protocol m = ssh_name (am_protocol m)"

definition ssh_auth_cookie :: "x11_auth_material \<Rightarrow> bytes" where
  "ssh_auth_cookie m = to_hex (am_fake_cookie m)"

subsection \<open>The source's operations: the setup packet\<close>

definition SETUP_HEADER_LEN :: nat where
  "SETUP_HEADER_LEN = 12"

datatype x11_byte_order = BigEndian | LittleEndian

record x11_setup_request =
  sr_byte_order :: x11_byte_order
  sr_protocol_major :: u16
  sr_protocol_minor :: u16
  sr_auth_protocol :: bytes
  sr_auth_data_len :: nat

record x11_setup_authentication =
  sa_request :: x11_setup_request
  sa_protocol :: x11_auth_protocol
  sa_fake_cookie :: x11_auth_cookie

record x11_auth_failure_response =
  fr_request :: x11_setup_request
  fr_response :: bytes

record parsed_setup =
  ps_request :: x11_setup_request
  ps_auth_protocol_bytes :: bytes
  ps_auth_data_start :: nat
  ps_auth_data_end :: nat
  ps_auth_data_padded_end :: nat

text \<open>The slice \<^verbatim>\<open>bs[i..j]\<close> and copying into it; the callers have checked the bounds.\<close>

definition byte_range :: "bytes \<Rightarrow> nat \<Rightarrow> nat \<Rightarrow> bytes" where
  "byte_range bs i j = take (j - i) (drop i bs)"

definition copy_from_slice :: "bytes \<Rightarrow> nat \<Rightarrow> bytes \<Rightarrow> bytes" where
  "copy_from_slice bs i src = take i bs @ src @ drop (i + length src) bs"

definition parse_byte_order :: "u8 \<Rightarrow> x11_forwarding_error + x11_byte_order" where
  "parse_byte_order b =
     (if b = 66 then Ok BigEndian else if b = 108 then Ok LittleEndian
      else Err (UnsupportedByteOrder b))"

definition x11_read_u16 :: "bytes \<Rightarrow> x11_byte_order \<Rightarrow> u16" where
  "x11_read_u16 bs order =
     (case order of BigEndian \<Rightarrow> u16_from_be_bytes (bs ! 0) (bs ! 1)
      | LittleEndian \<Rightarrow> u16_from_le_bytes (bs ! 0) (bs ! 1))"

definition x11_write_u16 :: "bytes \<Rightarrow> nat \<Rightarrow> u16 \<Rightarrow> x11_byte_order \<Rightarrow> bytes" where
  "x11_write_u16 bs i v order =
     copy_from_slice bs i
       (case order of BigEndian \<Rightarrow> u16_to_be_bytes v | LittleEndian \<Rightarrow> u16_to_le_bytes v)"

text \<open>Clearing the two low bits of a machine word rounds down to a multiple of four.\<close>

definition padded_len :: "nat \<Rightarrow> x11_forwarding_error + nat" where
  "padded_len len =
     (if len + 3 \<le> usize_max then Ok ((len + 3) div 4 * 4) else Err InvalidSetupPacketLength)"

definition setup_packet_total_len :: "bytes \<Rightarrow> x11_forwarding_error + nat option" where
  "setup_packet_total_len packet =
     (if length packet < SETUP_HEADER_LEN then Ok None
      else
        res_bind (parse_byte_order (packet ! 0)) (\<lambda>byte_order.
        let auth_protocol_len = unat (x11_read_u16 (byte_range packet 6 8) byte_order);
            auth_data_len = unat (x11_read_u16 (byte_range packet 8 10) byte_order) in
        res_bind (padded_len auth_protocol_len) (\<lambda>auth_protocol_padded_len.
        res_bind (padded_len auth_data_len) (\<lambda>auth_data_padded_len.
        let total = SETUP_HEADER_LEN + auth_protocol_padded_len + auth_data_padded_len in
        if total \<le> usize_max then Ok (Some total) else Err InvalidSetupPacketLength))))"

definition required_setup_packet_len :: "bytes \<Rightarrow> x11_forwarding_error + nat option" where
  "required_setup_packet_len packet = setup_packet_total_len packet"

definition parse_setup_packet :: "bytes \<Rightarrow> x11_forwarding_error + parsed_setup" where
  "parse_setup_packet packet =
     res_bind (setup_packet_total_len packet) (\<lambda>total. case total of
        None \<Rightarrow> Err IncompleteSetupPacket
      | Some packet_min_len \<Rightarrow>
          if length packet < packet_min_len then Err IncompleteSetupPacket
          else
            res_bind (parse_byte_order (packet ! 0)) (\<lambda>byte_order.
            let protocol_major = x11_read_u16 (byte_range packet 2 4) byte_order;
                protocol_minor = x11_read_u16 (byte_range packet 4 6) byte_order;
                auth_protocol_len = unat (x11_read_u16 (byte_range packet 6 8) byte_order);
                auth_data_len = unat (x11_read_u16 (byte_range packet 8 10) byte_order);
                auth_protocol_start = SETUP_HEADER_LEN in
            res_bind (padded_len auth_protocol_len) (\<lambda>auth_protocol_padded_len.
            let auth_protocol_end = auth_protocol_start + auth_protocol_len;
                auth_data_start = auth_protocol_start + auth_protocol_padded_len;
                auth_data_end = auth_data_start + auth_data_len in
            if auth_protocol_end > usize_max \<or> auth_data_start > usize_max
               \<or> auth_data_end > usize_max
            then Err InvalidSetupPacketLength
            else
              let auth_protocol_bytes = byte_range packet auth_protocol_start auth_protocol_end in
              Ok \<lparr>ps_request =
                    \<lparr>sr_byte_order = byte_order, sr_protocol_major = protocol_major,
                     sr_protocol_minor = protocol_minor,
                     sr_auth_protocol = from_utf8_lossy auth_protocol_bytes,
                     sr_auth_data_len = auth_data_len\<rparr>,
                  ps_auth_protocol_bytes = auth_protocol_bytes,
                  ps_auth_data_start = auth_data_start,
                  ps_auth_data_end = auth_data_end,
                  ps_auth_data_padded_end = packet_min_len\<rparr>)))"

definition inspect_setup_request :: "bytes \<Rightarrow> x11_forwarding_error + x11_setup_request" where
  "inspect_setup_request packet = res_bind (parse_setup_packet packet) (\<lambda>s. Ok (ps_request s))"

definition setup_auth_data :: "bytes \<Rightarrow> parsed_setup \<Rightarrow> bytes" where
  "setup_auth_data packet s = byte_range packet (ps_auth_data_start s) (ps_auth_data_end s)"

definition inspect_setup_authentication ::
  "bytes \<Rightarrow> x11_forwarding_error + x11_setup_authentication" where
  "inspect_setup_authentication packet =
     res_bind (parse_setup_packet packet) (\<lambda>parsed.
     res_bind (auth_protocol_parse (sr_auth_protocol (ps_request parsed))) (\<lambda>protocol.
     res_bind (cookie_from_bytes (setup_auth_data packet parsed)) (\<lambda>fake_cookie.
     Ok \<lparr>sa_request = ps_request parsed, sa_protocol = protocol,
         sa_fake_cookie = fake_cookie\<rparr>)))"

text \<open>Operations that change the packet return it together with their result.\<close>

definition rewrite_auth_data ::
  "bytes \<Rightarrow> parsed_setup \<Rightarrow> bytes \<Rightarrow> bytes \<times> (x11_forwarding_error + unit)" where
  "rewrite_auth_data packet parsed replacement =
     (if length replacement > 65535 then (packet, Err InvalidSetupPacketLength)
      else
        let packet1 = x11_write_u16 packet 8 (word_of_nat (length replacement))
                        (sr_byte_order (ps_request parsed)) in
        if length replacement = ps_auth_data_end parsed - ps_auth_data_start parsed
        then (copy_from_slice packet1 (ps_auth_data_start parsed) replacement, Ok ())
        else
          let tail = drop (ps_auth_data_padded_end parsed) packet1;
              packet2 = take (ps_auth_data_start parsed) packet1 @ replacement in
          (case padded_len (length replacement) of
             Err e \<Rightarrow> (packet2, Err e)
           | Ok padded \<Rightarrow>
               (packet2 @ replicate (padded - length replacement) 0 @ tail, Ok ())))"

definition constant_time_bytes_eq :: "bytes \<Rightarrow> bytes \<Rightarrow> bool" where
  "constant_time_bytes_eq left right \<longleftrightarrow> length left = length right \<and> left = right"

definition rewrite_setup_authentication ::
  "bytes \<Rightarrow> x11_auth_material \<Rightarrow> bytes \<times> (x11_forwarding_error + x11_setup_request)" where
  "rewrite_setup_authentication packet auth =
     (case parse_setup_packet packet of
        Err e \<Rightarrow> (packet, Err e)
      | Ok parsed \<Rightarrow>
          if ps_auth_protocol_bytes parsed \<noteq> ssh_name (am_protocol auth)
          then (packet, Err (UnsupportedAuthProtocol
                               (from_utf8_lossy (ps_auth_protocol_bytes parsed))))
          else if \<not> constant_time_bytes_eq (setup_auth_data packet parsed)
                       (ck_bytes (am_fake_cookie auth))
          then (packet, Err AuthCookieMismatch)
          else
            (case rewrite_auth_data packet parsed (ck_bytes (am_local_cookie auth)) of
               (packet1, Err e) \<Rightarrow> (packet1, Err e)
             | (packet1, Ok _) \<Rightarrow> (packet1, Ok (ps_request parsed))))"

definition build_auth_failure_response ::
  "x11_setup_request \<Rightarrow> bytes \<Rightarrow> x11_forwarding_error + x11_auth_failure_response" where
  "build_auth_failure_response request reason =
     (if length reason > 255 then Err InvalidSetupPacketLength
      else
        res_bind (padded_len (length reason)) (\<lambda>padded_reason_len.
        let length_units = padded_reason_len div 4 in
        if length_units > 65535 then Err InvalidSetupPacketLength
        else
          let order = sr_byte_order request;
              r0 = [0, word_of_nat (length reason)] @ [0, 0] @ [0, 0] @ [0, 0];
              r1 = x11_write_u16 r0 2 (sr_protocol_major request) order;
              r2 = x11_write_u16 r1 4 (sr_protocol_minor request) order;
              r3 = x11_write_u16 r2 6 (word_of_nat length_units) order in
          Ok \<lparr>fr_request = request,
              fr_response = r3 @ reason @ replicate (padded_reason_len - length reason) 0\<rparr>))"

subsection \<open>Cookies in hexadecimal\<close>

definition hex_pair :: "u8 \<Rightarrow> bytes" where
  "hex_pair b = push_hex_byte [] b"

lemma to_hex_concat: "to_hex c = concat (map hex_pair (ck_bytes c))"
proof -
  have "fold (\<lambda>b output. push_hex_byte output b) bs acc = acc @ concat (map hex_pair bs)" for bs acc
    by (induction bs arbitrary: acc) (simp_all add: push_hex_byte_def hex_pair_def Let_def)
  then show ?thesis by (simp add: to_hex_def)
qed

lemma hex_pair_eq:
  "hex_pair b =
     (let table = [48, 49, 50, 51, 52, 53, 54, 55, 56, 57, 97, 98, 99, 100, 101, 102] in
      [table ! unat (drop_bit 4 b), table ! unat (b AND 0x0f)])"
  by (simp add: hex_pair_def push_hex_byte_def str_lit_def)

lemma hex_pair_byte:
  "decode_hex_pairs (hex_pair b) = Ok [b] \<and> length (hex_pair b) = 2
   \<and> list_all (\<lambda>x. 0x20 < x \<and> x \<le> 0x7F) (hex_pair b)"
  unfolding hex_pair_eq by (rule u8_allI [where b = b]) code_simp

lemma decode_hex_pairs_append:
  "length xs = 2 \<Longrightarrow> decode_hex_pairs xs = Ok [b] \<Longrightarrow>
     decode_hex_pairs (xs @ ys) = res_bind (decode_hex_pairs ys) (\<lambda>bs. Ok (b # bs))"
  by (auto simp: length_Suc_conv numeral_2_eq_2 res_bind_eq_Ok)

lemma decode_hex_pairs_concat: "decode_hex_pairs (concat (map hex_pair bs)) = Ok bs"
  by (induction bs) (simp_all add: decode_hex_pairs_append hex_pair_byte)

lemma hex_concat_shape:
  "length (concat (map hex_pair bs)) = 2 * length bs"
  "list_all (\<lambda>x. 0x20 < x \<and> x \<le> 0x7F) (concat (map hex_pair bs))"
  by (induction bs) (simp_all add: hex_pair_byte)

text \<open>
  The hexadecimal form in which the fake cookie is announced to the SSH server reads back as
  the same cookie.
\<close>

theorem cookie_hex_round_trip:
  assumes "ck_bytes c \<noteq> []"
  shows "cookie_from_hex (to_hex c) = Ok c"
proof -
  have "str_trim (to_hex c) = to_hex c"
    unfolding to_hex_concat by (rule str_trim_plain [OF hex_concat_shape(2)])
  moreover have "length (to_hex c) = 2 * length (ck_bytes c)"
    unfolding to_hex_concat by (rule hex_concat_shape(1))
  moreover from this have "to_hex c \<noteq> []" using assms by auto
  moreover have "decode_hex_pairs (to_hex c) = Ok (ck_bytes c)"
    by (simp only: to_hex_concat decode_hex_pairs_concat)
  ultimately show ?thesis
    using assms by (simp add: cookie_from_hex_def cookie_from_bytes_def Let_def)
qed

theorem cookie_hex_round_trip_witness:
  "cookie_from_hex (to_hex \<lparr>ck_bytes = [0, 0x1f, 0xab]\<rparr>) = Ok \<lparr>ck_bytes = [0, 0x1f, 0xab]\<rparr>"
  by (rule cookie_hex_round_trip) simp

subsection \<open>The format of setup packets\<close>

text \<open>
  A setup packet by its fields; every packet the parser accepts is one of these followed by
  other data, and rewriting replaces the authentication data and its padding.
\<close>

record setup_packet =
  sp_order :: x11_byte_order
  sp_unused :: u8
  sp_major :: u16
  sp_minor :: u16
  sp_unused_end :: bytes
  sp_protocol :: bytes
  sp_protocol_pad :: bytes
  sp_data :: bytes
  sp_data_pad :: bytes

definition order_marker :: "x11_byte_order \<Rightarrow> u8" where
  "order_marker order = (case order of BigEndian \<Rightarrow> 66 | LittleEndian \<Rightarrow> 108)"

definition u16_bytes :: "x11_byte_order \<Rightarrow> u16 \<Rightarrow> bytes" where
  "u16_bytes order v =
     (case order of BigEndian \<Rightarrow> u16_to_be_bytes v | LittleEndian \<Rightarrow> u16_to_le_bytes v)"

definition pad_of :: "nat \<Rightarrow> nat" where
  "pad_of n = (n + 3) div 4 * 4 - n"

definition encode_setup :: "setup_packet \<Rightarrow> bytes" where
  "encode_setup f =
     [order_marker (sp_order f), sp_unused f] @ u16_bytes (sp_order f) (sp_major f)
     @ u16_bytes (sp_order f) (sp_minor f)
     @ u16_bytes (sp_order f) (word_of_nat (length (sp_protocol f)))
     @ u16_bytes (sp_order f) (word_of_nat (length (sp_data f)))
     @ sp_unused_end f @ sp_protocol f @ sp_protocol_pad f @ sp_data f @ sp_data_pad f"

definition setup_packet_ok :: "setup_packet \<Rightarrow> bool" where
  "setup_packet_ok f \<longleftrightarrow>
     length (sp_unused_end f) = 2 \<and> length (sp_protocol f) \<le> 65535
     \<and> length (sp_protocol_pad f) = pad_of (length (sp_protocol f))
     \<and> length (sp_data f) \<le> 65535 \<and> length (sp_data_pad f) = pad_of (length (sp_data f))"

definition setup_request_of :: "setup_packet \<Rightarrow> x11_setup_request" where
  "setup_request_of f =
     \<lparr>sr_byte_order = sp_order f, sr_protocol_major = sp_major f,
      sr_protocol_minor = sp_minor f, sr_auth_protocol = from_utf8_lossy (sp_protocol f),
      sr_auth_data_len = length (sp_data f)\<rparr>"

definition data_start :: "setup_packet \<Rightarrow> nat" where
  "data_start f = 12 + length (sp_protocol f) + pad_of (length (sp_protocol f))"

definition parsed_of :: "setup_packet \<Rightarrow> parsed_setup" where
  "parsed_of f =
     \<lparr>ps_request = setup_request_of f, ps_auth_protocol_bytes = sp_protocol f,
      ps_auth_data_start = data_start f, ps_auth_data_end = data_start f + length (sp_data f),
      ps_auth_data_padded_end = length (encode_setup f)\<rparr>"

lemma usize_max_large: "n \<le> 1000000 \<Longrightarrow> n \<le> usize_max"
  by (simp add: usize_max_def)

lemma pad_of_le: "n \<le> (n + 3) div 4 * 4" "pad_of n < 4"
  by (auto simp: pad_of_def)

lemma padded_len_ok: "n \<le> 65535 \<Longrightarrow> padded_len n = Ok (n + pad_of n)"
  using pad_of_le(1) [of n] usize_max_large [of "n + 3"] by (simp add: padded_len_def pad_of_def)

lemma u16_bytes_length [simp]: "length (u16_bytes order v) = 2"
  by (simp add: u16_bytes_def u16_to_be_bytes_def u16_to_le_bytes_def split: x11_byte_order.splits)

lemma read_u16_bytes [simp]: "x11_read_u16 (u16_bytes order v) order = v"
  by (simp add: x11_read_u16_def u16_bytes_def u16_to_be_bytes_def u16_to_le_bytes_def
      split: x11_byte_order.splits)

lemma u16_bytes_read: "u16_bytes order (x11_read_u16 [a, b] order) = [a, b]"
proof (cases order)
  case BigEndian
  then show ?thesis
    using u16_be_inj(1) [of a b, OF refl] u16_be_inj(2) [of a b, OF refl] by (simp add: x11_read_u16_def u16_bytes_def u16_to_be_bytes_def)
next
  case LittleEndian
  then show ?thesis
    using u16_be_inj(1) [of b a, OF refl] u16_be_inj(2) [of b a, OF refl]
    by (simp add: x11_read_u16_def u16_bytes_def u16_to_le_bytes_def u16_from_le_bytes_def
        u16_from_be_bytes_def)
qed

lemma order_marker_parses [simp]: "parse_byte_order (order_marker order) = Ok order"
  by (cases order) (simp_all add: parse_byte_order_def order_marker_def)

lemma byte_range_skip: "length xs = i \<Longrightarrow> byte_range (xs @ ys) i j = take (j - i) ys"
  by (simp add: byte_range_def)

lemma encode_setup_length:
  "setup_packet_ok f \<Longrightarrow>
     length (encode_setup f) = data_start f + length (sp_data f) + pad_of (length (sp_data f))"
  by (simp add: encode_setup_def setup_packet_ok_def data_start_def)

text \<open>A packet around its authentication data.\<close>

definition setup_front :: "setup_packet \<Rightarrow> bytes" where
  "setup_front f =
     [order_marker (sp_order f), sp_unused f] @ u16_bytes (sp_order f) (sp_major f)
     @ u16_bytes (sp_order f) (sp_minor f)
     @ u16_bytes (sp_order f) (word_of_nat (length (sp_protocol f)))
     @ u16_bytes (sp_order f) (word_of_nat (length (sp_data f)))
     @ sp_unused_end f @ sp_protocol f @ sp_protocol_pad f"

lemma encode_setup_front: "encode_setup f = setup_front f @ sp_data f @ sp_data_pad f"
  by (simp add: encode_setup_def setup_front_def)

lemma setup_front_length: "setup_packet_ok f \<Longrightarrow> length (setup_front f) = data_start f"
  by (simp add: setup_front_def setup_packet_ok_def data_start_def)

text \<open>The fixed part of the packet and the fields the parser reads from it.\<close>

lemma setup_header_fields:
  assumes "setup_packet_ok f" and "p = encode_setup f @ tail"
  shows "12 \<le> length p" and "p ! 0 = order_marker (sp_order f)"
    and "byte_range p 2 4 = u16_bytes (sp_order f) (sp_major f)"
    and "byte_range p 4 6 = u16_bytes (sp_order f) (sp_minor f)"
    and "byte_range p 6 8 = u16_bytes (sp_order f) (word_of_nat (length (sp_protocol f)))"
    and "byte_range p 8 10 = u16_bytes (sp_order f) (word_of_nat (length (sp_data f)))"
    and "byte_range p 12 (12 + length (sp_protocol f)) = sp_protocol f"
    and "byte_range p (data_start f) (data_start f + length (sp_data f)) = sp_data f"
proof -
  show "byte_range p (data_start f) (data_start f + length (sp_data f)) = sp_data f"
    by (simp add: assms(2) encode_setup_front byte_range_skip setup_front_length [OF assms(1)])
qed (use assms(1) in \<open>simp_all add: assms(2) encode_setup_def setup_packet_ok_def byte_range_def\<close>)

lemma parse_encode_setup:
  assumes "setup_packet_ok f"
  shows "parse_setup_packet (encode_setup f @ tail) = Ok (parsed_of f)"
    and "setup_packet_total_len (encode_setup f @ tail) = Ok (Some (length (encode_setup f)))"
proof -
  let ?p = "encode_setup f @ tail"
  note fields = setup_header_fields [OF assms refl, of tail]
  have len: "length (sp_protocol f) \<le> 65535" "length (sp_data f) \<le> 65535"
    using assms by (simp_all add: setup_packet_ok_def)
  have small: "data_start f + length (sp_data f) + pad_of (length (sp_data f)) \<le> usize_max"
    using len pad_of_le(2) [of "length (sp_protocol f)"] pad_of_le(2) [of "length (sp_data f)"]
    by (intro usize_max_large) (simp add: data_start_def)
  show total: "setup_packet_total_len ?p = Ok (Some (length (encode_setup f)))"
    using fields len small
    by (simp add: setup_packet_total_len_def SETUP_HEADER_LEN_def padded_len_ok Let_def
        encode_setup_length [OF assms] data_start_def unat_of_nat take_bit_nat_eq_self add.assoc)
  show "parse_setup_packet ?p = Ok (parsed_of f)"
    using fields len small
    by (simp add: parse_setup_packet_def total SETUP_HEADER_LEN_def padded_len_ok Let_def
        parsed_of_def setup_request_of_def data_start_def unat_of_nat take_bit_nat_eq_self add.assoc)
qed

lemma split_in_five:
  "take a r @ take b (drop a r) @ take c (drop (a + b) r) @ take d (drop (a + b + c) r)
     @ drop (a + b + c + d) r = r"
proof -
  have "take n (drop m r) @ drop (m + n) r = drop m r" for m n
    by (metis append_take_drop_id drop_drop add.commute)
  then show ?thesis by (metis append_take_drop_id)
qed

lemma parse_byte_order_marker: "parse_byte_order b = Ok order \<Longrightarrow> b = order_marker order"
  by (auto simp: parse_byte_order_def order_marker_def split: if_splits)

lemma unat_u16_le: "unat (w :: u16) \<le> 65535"
proof -
  have "unat w < 2 ^ LENGTH(16)" by (rule unsigned_less)
  then show ?thesis by simp
qed

text \<open>Every accepted packet has the format; what follows it is not looked at.\<close>

lemma parsed_setup_is_encoded:
  assumes parse: "parse_setup_packet p = Ok s"
  obtains f tail where "setup_packet_ok f" and "p = encode_setup f @ tail" and "s = parsed_of f"
proof -
  from parse obtain n where total: "setup_packet_total_len p = Ok (Some n)" and n: "n \<le> length p"
    by (auto simp: parse_setup_packet_def res_bind_eq_Ok split: option.splits if_splits)
  then have l12: "12 \<le> length p"
    by (auto simp: setup_packet_total_len_def SETUP_HEADER_LEN_def split: if_splits)
  then obtain b0 b1 b2 b3 b4 b5 b6 b7 b8 b9 b10 b11 rest
    where p: "p = b0 # b1 # b2 # b3 # b4 # b5 # b6 # b7 # b8 # b9 # b10 # b11 # rest"
    by (auto simp: numeral_eq_Suc Suc_le_length_iff)
  from total l12 obtain order where "parse_byte_order b0 = Ok order"
    by (auto simp: setup_packet_total_len_def p SETUP_HEADER_LEN_def res_bind_eq_Ok split: if_splits)
  then have order: "parse_byte_order b0 = Ok order" "b0 = order_marker order"
    by (simp_all add: parse_byte_order_marker)
  define a where "a = unat (x11_read_u16 [b6, b7] order)"
  define c where "c = unat (x11_read_u16 [b8, b9] order)"
  have ac: "a \<le> 65535" "c \<le> 65535" by (simp_all add: a_def c_def unat_u16_le)
  have "n = 12 + (a + pad_of a) + (c + pad_of c)"
    using total l12 order(1) ac by (auto simp: setup_packet_total_len_def p SETUP_HEADER_LEN_def
        byte_range_def Let_def padded_len_ok a_def [symmetric] c_def [symmetric] split: if_splits)
  with n have rest: "a + pad_of a + c + pad_of c \<le> length rest" by (simp add: p)
  then have lens: "a \<le> length rest" "pad_of a \<le> length rest - a"
    "c \<le> length rest - (a + pad_of a)" "pad_of c \<le> length rest - (a + pad_of a + c)"
    by simp_all
  let ?f = "\<lparr>sp_order = order, sp_unused = b1, sp_major = x11_read_u16 [b2, b3] order,
    sp_minor = x11_read_u16 [b4, b5] order, sp_unused_end = [b10, b11],
    sp_protocol = take a rest, sp_protocol_pad = take (pad_of a) (drop a rest),
    sp_data = take c (drop (a + pad_of a) rest),
    sp_data_pad = take (pad_of c) (drop (a + pad_of a + c) rest)\<rparr>"
  let ?tail = "drop (a + pad_of a + c + pad_of c) rest"
  have ok: "setup_packet_ok ?f" using lens ac by (simp add: setup_packet_ok_def min_absorb2)
  moreover have "p = encode_setup ?f @ ?tail"
    using lens split_in_five [of a rest "pad_of a" c "pad_of c"] order(2)
    by (simp add: encode_setup_def p min_absorb2 u16_bytes_read a_def c_def)
  moreover from this have "s = parsed_of ?f"
    using parse parse_encode_setup(1) [OF ok, of ?tail] by simp
  ultimately show thesis by (rule that)
qed

subsection \<open>Rewriting the authentication data\<close>

definition with_data :: "bytes \<Rightarrow> setup_packet \<Rightarrow> setup_packet" where
  "with_data d f =
     f\<lparr>sp_data := d,
       sp_data_pad := if length d = length (sp_data f) then sp_data_pad f
                      else replicate (pad_of (length d)) 0\<rparr>"

lemma with_data_ok: "setup_packet_ok f \<Longrightarrow> length d \<le> 65535 \<Longrightarrow> setup_packet_ok (with_data d f)"
  by (simp add: setup_packet_ok_def with_data_def)

lemma setup_front_write:
  "setup_packet_ok f \<Longrightarrow>
     x11_write_u16 (setup_front f @ rest) 8 (word_of_nat (length d)) (sp_order f)
       = setup_front (with_data d f) @ rest"
  by (simp add: x11_write_u16_def copy_from_slice_def setup_front_def with_data_def
      u16_bytes_def [symmetric])

lemma rewrite_auth_data_encoded:
  assumes ok: "setup_packet_ok f" and d: "length d \<le> 65535"
  shows "rewrite_auth_data (encode_setup f @ tail) (parsed_of f) d
         = (encode_setup (with_data d f) @ tail, Ok ())"
proof -
  have front: "length (setup_front f) = data_start f"
    "length (setup_front (with_data d f)) = data_start f"
    using setup_front_length [OF ok] setup_front_length [OF with_data_ok [OF ok d]]
    by (simp_all add: data_start_def with_data_def)
  have written: "x11_write_u16 (encode_setup f @ tail) 8 (word_of_nat (length d)) (sp_order f)
      = setup_front (with_data d f) @ sp_data f @ sp_data_pad f @ tail"
    using setup_front_write [OF ok] by (simp add: encode_setup_front)
  have enc_end: "length (encode_setup f) = length (setup_front (with_data d f)) + length (sp_data f)
      + length (sp_data_pad f)"
    by (simp add: encode_setup_front front)
  show ?thesis
  proof (cases "length d = length (sp_data f)")
    case True
    then have eq: "length (sp_data f) = length d" by simp
    show ?thesis using d
      by (simp add: rewrite_auth_data_def parsed_of_def setup_request_of_def eq written Let_def
          copy_from_slice_def front encode_setup_front [of "with_data d f"])
         (simp add: with_data_def eq)
  next
    case False
    then show ?thesis using d
      by (simp add: rewrite_auth_data_def parsed_of_def setup_request_of_def written Let_def
          enc_end padded_len_ok front encode_setup_front [of "with_data d f"])
         (simp add: with_data_def)
  qed
qed

lemma setup_auth_data_encoded:
  "setup_packet_ok f \<Longrightarrow> setup_auth_data (encode_setup f @ tail) (parsed_of f) = sp_data f"
  using setup_header_fields(8) [OF _ refl, of f tail] by (simp add: setup_auth_data_def parsed_of_def)

lemma rewrite_setup_authentication_encoded:
  assumes ok: "setup_packet_ok f"
  shows "rewrite_setup_authentication (encode_setup f @ tail) auth =
    (if sp_protocol f \<noteq> ssh_name (am_protocol auth)
     then (encode_setup f @ tail, Err (UnsupportedAuthProtocol (from_utf8_lossy (sp_protocol f))))
     else if sp_data f \<noteq> ck_bytes (am_fake_cookie auth)
     then (encode_setup f @ tail, Err AuthCookieMismatch)
     else if length (ck_bytes (am_local_cookie auth)) > 65535
     then (encode_setup f @ tail, Err InvalidSetupPacketLength)
     else (encode_setup (with_data (ck_bytes (am_local_cookie auth)) f) @ tail,
           Ok (setup_request_of f)))"
proof -
  have "rewrite_auth_data (encode_setup f @ tail) (parsed_of f) (ck_bytes (am_local_cookie auth)) =
    (if length (ck_bytes (am_local_cookie auth)) > 65535
     then (encode_setup f @ tail, Err InvalidSetupPacketLength)
     else (encode_setup (with_data (ck_bytes (am_local_cookie auth)) f) @ tail, Ok ()))"
    using rewrite_auth_data_encoded [OF ok] by (simp add: rewrite_auth_data_def)
  then show ?thesis
    by (simp add: rewrite_setup_authentication_def parse_encode_setup(1) [OF ok]
        setup_auth_data_encoded [OF ok] constant_time_bytes_eq_def)
       (auto simp: parsed_of_def)
qed

lemma rewrite_outcome:
  assumes "rewrite_setup_authentication p auth = (p', r)"
  shows "case r of
      Err e \<Rightarrow> p' = p
    | Ok req \<Rightarrow> \<exists>f tail. setup_packet_ok f \<and> p = encode_setup f @ tail \<and> req = setup_request_of f
        \<and> sp_protocol f = ssh_name (am_protocol auth) \<and> sp_data f = ck_bytes (am_fake_cookie auth)
        \<and> p' = encode_setup (with_data (ck_bytes (am_local_cookie auth)) f) @ tail
        \<and> inspect_setup_request p'
           = Ok (req\<lparr>sr_auth_data_len := length (ck_bytes (am_local_cookie auth))\<rparr>)"
proof (cases "parse_setup_packet p")
  case (Inl e)
  then show ?thesis using assms by (auto simp: rewrite_setup_authentication_def)
next
  case (Inr s)
  then obtain f tail where ok: "setup_packet_ok f" and p: "p = encode_setup f @ tail"
    by (rule parsed_setup_is_encoded)
  have inspect: "inspect_setup_request (encode_setup (with_data d f) @ tail)
      = Ok ((setup_request_of f)\<lparr>sr_auth_data_len := length d\<rparr>)" if "length d \<le> 65535" for d
    using parse_encode_setup(1) [OF with_data_ok [OF ok that], of tail]
    by (simp add: inspect_setup_request_def parsed_of_def setup_request_of_def with_data_def)
  show ?thesis
    using assms ok p inspect [of "ck_bytes (am_local_cookie auth)"]
    unfolding p rewrite_setup_authentication_encoded [OF ok] by (auto split: if_splits) blast
qed

text \<open>
  Rewriting puts the cookie of the local X server into a packet only if the packet names the
  protocol and carries the fake cookie; then nothing but the authentication data, its length and
  its padding changes and the packet still parses. In every other case the packet is untouched.
\<close>

theorem setup_rewrite_needs_fake_cookie:
  assumes "rewrite_setup_authentication p auth = (p', r)"
  shows "case r of
      Err e \<Rightarrow> p' = p
    | Ok req \<Rightarrow> \<exists>f tail. setup_packet_ok f \<and> p = encode_setup f @ tail \<and> req = setup_request_of f
        \<and> sp_protocol f = ssh_name (am_protocol auth) \<and> sp_data f = ck_bytes (am_fake_cookie auth)
        \<and> p' = encode_setup (with_data (ck_bytes (am_local_cookie auth)) f) @ tail
        \<and> inspect_setup_request p'
           = Ok (req\<lparr>sr_auth_data_len := length (ck_bytes (am_local_cookie auth))\<rparr>)"
  by (rule rewrite_outcome [OF assms])

definition demo_setup :: setup_packet where
  "demo_setup =
     \<lparr>sp_order = LittleEndian, sp_unused = 0, sp_major = 11, sp_minor = 0, sp_unused_end = [0, 0],
      sp_protocol = ssh_name MitMagicCookie1, sp_protocol_pad = [0, 0], sp_data = [1, 2, 3, 4],
      sp_data_pad = []\<rparr>"

definition demo_auth :: x11_auth_material where
  "demo_auth = with_fake_cookie \<lparr>ck_bytes = [1, 2, 3, 4]\<rparr> \<lparr>ck_bytes = [9, 9, 9, 9, 9, 9]\<rparr>"

lemma demo_setup_ok: "setup_packet_ok demo_setup"
  by (simp add: setup_packet_ok_def demo_setup_def ssh_name_def str_lit_def pad_of_def)

theorem setup_rewrite_needs_fake_cookie_witness:
  "\<exists>p' f tail. rewrite_setup_authentication (encode_setup demo_setup @ [7]) demo_auth
       = (p', Ok (setup_request_of f)) \<and> encode_setup demo_setup @ [7] = encode_setup f @ tail
     \<and> p' = encode_setup (with_data [9, 9, 9, 9, 9, 9] f) @ tail"
proof -
  let ?r = "(encode_setup (with_data [9, 9, 9, 9, 9, 9] demo_setup) @ [7],
             Ok (setup_request_of demo_setup) :: x11_forwarding_error + x11_setup_request)"
  have run: "rewrite_setup_authentication (encode_setup demo_setup @ [7]) demo_auth = ?r"
    by (subst rewrite_setup_authentication_encoded [OF demo_setup_ok])
       (simp add: demo_setup_def demo_auth_def with_fake_cookie_def)
  show ?thesis
    using setup_rewrite_needs_fake_cookie [OF run] run by (auto simp: demo_auth_def with_fake_cookie_def)
qed

text \<open>The reply that refuses a connection has the format of the protocol.\<close>

lemma copy_from_slice_middle:
  "length a = i \<Longrightarrow> length b = length src \<Longrightarrow> copy_from_slice (a @ b @ c) i src = a @ src @ c"
  by (simp add: copy_from_slice_def)

lemma auth_failure_response_format:
  assumes "length reason \<le> 255"
  shows "build_auth_failure_response request reason =
    Ok \<lparr>fr_request = request,
        fr_response = [0, word_of_nat (length reason)]
          @ u16_bytes (sr_byte_order request) (sr_protocol_major request)
          @ u16_bytes (sr_byte_order request) (sr_protocol_minor request)
          @ u16_bytes (sr_byte_order request)
              (word_of_nat ((length reason + pad_of (length reason)) div 4))
          @ reason @ replicate (pad_of (length reason)) 0\<rparr>"
proof -
  have "length reason + pad_of (length reason) \<le> 258"
    using assms pad_of_le(2) [of "length reason"] by simp
  then have "(length reason + pad_of (length reason)) div 4 \<le> 65535" by simp
  then show ?thesis using assms
    by (simp add: build_auth_failure_response_def padded_len_ok Let_def x11_write_u16_def
        u16_bytes_def [symmetric] copy_from_slice_def)
qed

end
