(* ===== verification/X11_Registry.thy ===== *)
theory X11_Registry
  imports X11_Setup
begin

text \<open>
  The registry of fake cookies (\<^verbatim>\<open>registry.rs\<close>) and the buffer that turns the first bytes of a
  forwarded X11 connection into a decision (\<^verbatim>\<open>setup_buffer.rs\<close>). The contract of the registry is
  the locale \<open>cookie_store\<close>; operations that change the registry or the buffer return it.
\<close>

subsection \<open>The source's operations: the registry\<close>

record 'c x11_spoofed_auth =
  xs_channel_id :: 'c
  xs_auth :: x11_auth_material
  xs_single_connection :: bool

record 'c x11_auth_spoof_registry =
  rg_entries :: "'c x11_spoofed_auth list"

definition registry_new :: "'c x11_auth_spoof_registry" where
  "registry_new = \<lparr>rg_entries = []\<rparr>"

definition registry_len :: "'c x11_auth_spoof_registry \<Rightarrow> nat" where
  "registry_len r = length (rg_entries r)"

definition registry_is_empty :: "'c x11_auth_spoof_registry \<Rightarrow> bool" where
  "registry_is_empty r \<longleftrightarrow> rg_entries r = []"

definition registry_insert ::
  "'c x11_auth_spoof_registry \<Rightarrow> 'c x11_spoofed_auth
     \<Rightarrow> 'c x11_auth_spoof_registry \<times> 'c x11_spoofed_auth option" where
  "registry_insert r entry =
     (case position (\<lambda>existing. constant_time_eq (am_fake_cookie (xs_auth existing))
                                   (am_fake_cookie (xs_auth entry))) (rg_entries r) of
        None \<Rightarrow> (r\<lparr>rg_entries := rg_entries r @ [entry]\<rparr>, None)
      | Some index \<Rightarrow>
          (let (replaced, entries) = vec_remove index (rg_entries r) in
           (r\<lparr>rg_entries := entries @ [entry]\<rparr>, Some replaced)))"

definition register_mit_magic_cookie ::
  "(nat \<Rightarrow> bytes) \<Rightarrow> 'c x11_auth_spoof_registry \<Rightarrow> 'c \<Rightarrow> x11_auth_cookie \<Rightarrow> bool
     \<Rightarrow> 'c x11_auth_spoof_registry \<times> x11_auth_material" where
  "register_mit_magic_cookie random r channel_id local_cookie single_connection =
     (let auth = mit_magic_cookie random local_cookie in
      (fst (registry_insert r \<lparr>xs_channel_id = channel_id, xs_auth = auth,
                               xs_single_connection = single_connection\<rparr>), auth))"

definition resolve ::
  "'c x11_auth_spoof_registry \<Rightarrow> x11_auth_protocol \<Rightarrow> x11_auth_cookie
     \<Rightarrow> 'c x11_auth_spoof_registry \<times> 'c x11_spoofed_auth option" where
  "resolve r protocol fake_cookie =
     (case position (\<lambda>entry. am_protocol (xs_auth entry) = protocol
                        \<and> constant_time_eq (am_fake_cookie (xs_auth entry)) fake_cookie)
             (rg_entries r) of
        None \<Rightarrow> (r, None)
      | Some index \<Rightarrow>
          if xs_single_connection (rg_entries r ! index)
          then (let (entry, entries) = vec_remove index (rg_entries r) in
                (r\<lparr>rg_entries := entries\<rparr>, Some entry))
          else (r, Some (rg_entries r ! index)))"

definition resolve_setup_packet ::
  "'c x11_auth_spoof_registry \<Rightarrow> bytes
     \<Rightarrow> 'c x11_auth_spoof_registry \<times> (x11_forwarding_error + 'c x11_spoofed_auth option)" where
  "resolve_setup_packet r packet =
     (case inspect_setup_authentication packet of
        Err e \<Rightarrow> (r, Err e)
      | Ok setup_auth \<Rightarrow>
          (let (r', entry) = resolve r (sa_protocol setup_auth) (sa_fake_cookie setup_auth) in
           (r', Ok entry)))"

function remove_channel_loop ::
  "'c \<Rightarrow> nat \<Rightarrow> 'c x11_spoofed_auth list \<Rightarrow> 'c x11_spoofed_auth list
     \<Rightarrow> 'c x11_spoofed_auth list \<times> 'c x11_spoofed_auth list" where
  "remove_channel_loop channel_id index entries removed =
     (if index < length entries
      then if xs_channel_id (entries ! index) = channel_id
           then remove_channel_loop channel_id index (snd (vec_remove index entries))
                  (removed @ [fst (vec_remove index entries)])
           else remove_channel_loop channel_id (index + 1) entries removed
      else (entries, removed))"
  by pat_completeness auto
termination
  by (relation "measure (\<lambda>(channel_id, index, entries, removed). length entries - index)")
     (auto simp: vec_remove_def)

declare remove_channel_loop.simps [simp del]

definition remove_channel ::
  "'c x11_auth_spoof_registry \<Rightarrow> 'c
     \<Rightarrow> 'c x11_auth_spoof_registry \<times> 'c x11_spoofed_auth list" where
  "remove_channel r channel_id =
     (let (entries, removed) = remove_channel_loop channel_id 0 (rg_entries r) [] in
      (r\<lparr>rg_entries := entries\<rparr>, removed))"

subsection \<open>The source's operations: the setup buffer\<close>

definition DEFAULT_MAX_SETUP_PACKET_BYTES :: nat where
  "DEFAULT_MAX_SETUP_PACKET_BYTES = 1024 * 1024"

datatype x11_setup_buffer_state =
    WaitingForHeader nat | WaitingForBody nat nat | SetupComplete

record x11_setup_rewrite =
  rw_request :: x11_setup_request
  rw_rewritten_setup :: bytes
  rw_trailing_data :: bytes

datatype x11_setup_reject_reason = RejectAuthCookieMismatch | RejectUnsupportedAuthProtocol

record x11_setup_reject =
  rj_request :: x11_setup_request
  rj_reason :: x11_setup_reject_reason
  rj_failure_response :: bytes

datatype x11_setup_decision = Forward x11_setup_rewrite | Reject x11_setup_reject

record 'c x11_registered_setup_rewrite =
  rr_channel_id :: 'c
  rr_rewrite :: x11_setup_rewrite

datatype 'c x11_registered_setup_decision =
    RegisteredForward "'c x11_registered_setup_rewrite" | RegisteredReject x11_setup_reject

record x11_setup_buffer =
  bf_bytes :: bytes
  bf_max_setup_bytes :: nat
  bf_complete :: bool

definition with_max_setup_bytes :: "nat \<Rightarrow> x11_setup_buffer" where
  "with_max_setup_bytes max_setup_bytes =
     \<lparr>bf_bytes = [], bf_max_setup_bytes = max_setup_bytes, bf_complete = False\<rparr>"

definition setup_buffer_new :: x11_setup_buffer where
  "setup_buffer_new = with_max_setup_bytes DEFAULT_MAX_SETUP_PACKET_BYTES"

definition setup_state :: "x11_setup_buffer \<Rightarrow> x11_forwarding_error + x11_setup_buffer_state" where
  "setup_state b =
     (if bf_complete b then Ok SetupComplete
      else res_bind (required_setup_packet_len (bf_bytes b)) (\<lambda>required.
        case required of
          Some n \<Rightarrow> Ok (WaitingForBody (length (bf_bytes b)) n)
        | None \<Rightarrow> Ok (WaitingForHeader (length (bf_bytes b)))))"

definition push_complete_setup ::
  "x11_setup_buffer \<Rightarrow> bytes
     \<Rightarrow> x11_setup_buffer \<times> (x11_forwarding_error + (bytes \<times> bytes) option)" where
  "push_complete_setup b chunk =
     (if bf_complete b then (b, Err InvalidSetupPacketLength)
      else
        let b1 = b\<lparr>bf_bytes := bf_bytes b @ chunk\<rparr> in
        if length (bf_bytes b1) > bf_max_setup_bytes b1
        then (b1, Err (SetupPacketTooLarge (bf_max_setup_bytes b1)))
        else
          case required_setup_packet_len (bf_bytes b1) of
            Err e \<Rightarrow> (b1, Err e)
          | Ok None \<Rightarrow> (b1, Ok None)
          | Ok (Some required) \<Rightarrow>
              if length (bf_bytes b1) < required then (b1, Ok None)
              else (b1\<lparr>bf_bytes := [], bf_complete := True\<rparr>,
                    Ok (Some (take required (bf_bytes b1), drop required (bf_bytes b1)))))"

definition reject_setup_packet ::
  "bytes \<Rightarrow> x11_setup_reject_reason \<Rightarrow> bytes \<Rightarrow> x11_forwarding_error + x11_setup_reject" where
  "reject_setup_packet setup reason failure_message =
     res_bind (inspect_setup_request setup) (\<lambda>request.
     res_bind (build_auth_failure_response request failure_message) (\<lambda>failure.
     Ok \<lparr>rj_request = request, rj_reason = reason,
         rj_failure_response = fr_response failure\<rparr>))"

text \<open>Only authentication errors reach \<open>reject_reason_for_error\<close>; for others the code panics.\<close>

definition reject_reason_for_error :: "x11_forwarding_error \<Rightarrow> x11_setup_reject_reason option" where
  "reject_reason_for_error e =
     (case e of AuthCookieMismatch \<Rightarrow> Some RejectAuthCookieMismatch
      | UnsupportedAuthProtocol _ \<Rightarrow> Some RejectUnsupportedAuthProtocol
      | _ \<Rightarrow> None)"

definition push_decision ::
  "x11_setup_buffer \<Rightarrow> bytes \<Rightarrow> x11_auth_material
     \<Rightarrow> x11_setup_buffer \<times> (x11_forwarding_error + x11_setup_decision option)" where
  "push_decision b chunk auth =
     (case push_complete_setup b chunk of
        (b', Err e) \<Rightarrow> (b', Err e)
      | (b', Ok None) \<Rightarrow> (b', Ok None)
      | (b', Ok (Some (setup, trailing_data))) \<Rightarrow>
          (b', case rewrite_setup_authentication setup auth of
             (setup', Ok request) \<Rightarrow>
               Ok (Some (Forward \<lparr>rw_request = request, rw_rewritten_setup = setup',
                                  rw_trailing_data = trailing_data\<rparr>))
           | (setup', Err e) \<Rightarrow>
               (case reject_reason_for_error e of
                  Some reason \<Rightarrow>
                    res_bind (inspect_setup_request setup') (\<lambda>request.
                    res_bind (build_auth_failure_response request
                      (case reason of
                         RejectAuthCookieMismatch \<Rightarrow> str_lit ''X11 forwarding authentication failed''
                       | RejectUnsupportedAuthProtocol \<Rightarrow> str_lit ''Unsupported X11 auth protocol''))
                      (\<lambda>failure.
                    Ok (Some (Reject \<lparr>rj_request = request, rj_reason = reason,
                                      rj_failure_response = fr_response failure\<rparr>))))
                | None \<Rightarrow> Err e)))"

definition push_setup ::
  "x11_setup_buffer \<Rightarrow> bytes \<Rightarrow> x11_auth_material
     \<Rightarrow> x11_setup_buffer \<times> (x11_forwarding_error + x11_setup_rewrite option)" where
  "push_setup b chunk auth =
     (let (b', result) = push_decision b chunk auth in
      (b', res_bind result (\<lambda>decision. case decision of
             Some (Forward rewrite) \<Rightarrow> Ok (Some rewrite)
           | Some (Reject reject) \<Rightarrow>
               Err (case rj_reason reject of
                      RejectAuthCookieMismatch \<Rightarrow> AuthCookieMismatch
                    | RejectUnsupportedAuthProtocol \<Rightarrow>
                        UnsupportedAuthProtocol (sr_auth_protocol (rj_request reject)))
           | None \<Rightarrow> Ok None)))"

definition registry_decision ::
  "'c x11_auth_spoof_registry \<Rightarrow> bytes \<Rightarrow> bytes
     \<Rightarrow> 'c x11_auth_spoof_registry
        \<times> (x11_forwarding_error + 'c x11_registered_setup_decision option)" where
  "registry_decision registry setup trailing_data =
     (let (registry', resolved) = resolve_setup_packet registry setup;
          mismatch = res_bind (reject_setup_packet setup RejectAuthCookieMismatch
                       (str_lit ''X11 forwarding authentication failed''))
                       (\<lambda>reject. Ok (Some (RegisteredReject reject))) in
      (registry', case resolved of
         Ok (Some entry) \<Rightarrow>
           (case rewrite_setup_authentication setup (xs_auth entry) of
              (setup', Err e) \<Rightarrow> Err e
            | (setup', Ok request) \<Rightarrow>
                Ok (Some (RegisteredForward
                  \<lparr>rr_channel_id = xs_channel_id entry,
                   rr_rewrite = \<lparr>rw_request = request, rw_rewritten_setup = setup',
                                 rw_trailing_data = trailing_data\<rparr>\<rparr>)))
       | Ok None \<Rightarrow> mismatch
       | Err (UnsupportedAuthProtocol _) \<Rightarrow>
           res_bind (reject_setup_packet setup RejectUnsupportedAuthProtocol
             (str_lit ''Unsupported X11 auth protocol''))
             (\<lambda>reject. Ok (Some (RegisteredReject reject)))
       | Err (InvalidAuthCookie _) \<Rightarrow> mismatch
       | Err e \<Rightarrow> Err e))"

definition push_registry_decision ::
  "x11_setup_buffer \<Rightarrow> bytes \<Rightarrow> 'c x11_auth_spoof_registry
     \<Rightarrow> x11_setup_buffer \<times> 'c x11_auth_spoof_registry
        \<times> (x11_forwarding_error + 'c x11_registered_setup_decision option)" where
  "push_registry_decision b chunk registry =
     (case push_complete_setup b chunk of
        (b', Err e) \<Rightarrow> (b', registry, Err e)
      | (b', Ok None) \<Rightarrow> (b', registry, Ok None)
      | (b', Ok (Some (setup, trailing_data))) \<Rightarrow>
          (b', registry_decision registry setup trailing_data))"

subsection \<open>The contract of a cookie store\<close>

text \<open>
  What the registry promises, as a map from fake cookies to entries: an entry is found under its
  fake cookie until it is replaced, consumed by its only connection or removed with its channel.
\<close>

datatype 'c registry_step =
    InsertEntry "'c x11_spoofed_auth" | ResolveCookie x11_auth_cookie | RemoveChannel 'c

abbreviation entry_cookie :: "'c x11_spoofed_auth \<Rightarrow> x11_auth_cookie" where
  "entry_cookie e \<equiv> am_fake_cookie (xs_auth e)"

definition consumes_cookie :: "'c x11_spoofed_auth option \<Rightarrow> bool" where
  "consumes_cookie found \<longleftrightarrow> (case found of Some e \<Rightarrow> xs_single_connection e | None \<Rightarrow> False)"

definition not_on :: "'c \<Rightarrow> 'c x11_spoofed_auth option \<Rightarrow> 'c x11_spoofed_auth option" where
  "not_on ch found =
     (case found of Some e \<Rightarrow> if xs_channel_id e = ch then None else Some e | None \<Rightarrow> None)"

locale cookie_store =
  fixes store_ok :: "'r \<Rightarrow> bool"
    and lookup :: "'r \<Rightarrow> x11_auth_cookie \<Rightarrow> 'c x11_spoofed_auth option"
    and put :: "'r \<Rightarrow> 'c x11_spoofed_auth \<Rightarrow> 'r"
    and take_out :: "'r \<Rightarrow> x11_auth_cookie \<Rightarrow> 'r \<times> 'c x11_spoofed_auth option"
    and forget :: "'r \<Rightarrow> 'c \<Rightarrow> 'r"
  assumes put_ok: "store_ok r \<Longrightarrow> store_ok (put r e)"
    and lookup_put: "store_ok r \<Longrightarrow>
      lookup (put r e) c = (if c = entry_cookie e then Some e else lookup r c)"
    and take_out_ok: "store_ok r \<Longrightarrow> store_ok (fst (take_out r c))"
    and take_out_result: "store_ok r \<Longrightarrow> snd (take_out r c) = lookup r c"
    and lookup_take_out: "store_ok r \<Longrightarrow>
      lookup (fst (take_out r c)) c' = (if c' = c \<and> consumes_cookie (lookup r c) then None else lookup r c')"
    and forget_ok: "store_ok r \<Longrightarrow> store_ok (forget r ch)"
    and lookup_forget: "store_ok r \<Longrightarrow> lookup (forget r ch) c = not_on ch (lookup r c)"
begin

primrec step :: "'c registry_step \<Rightarrow> 'r \<Rightarrow> 'r" where
  "step (InsertEntry e) r = put r e"
| "step (ResolveCookie c) r = fst (take_out r c)"
| "step (RemoveChannel ch) r = forget r ch"

lemma step_ok: "store_ok r \<Longrightarrow> store_ok (step s r)"
  by (cases s) (simp_all add: put_ok take_out_ok forget_ok)

lemma steps_ok: "store_ok r \<Longrightarrow> store_ok (fold step ss r)"
  by (induction ss arbitrary: r) (simp_all add: step_ok)

lemma step_absent:
  assumes "store_ok r" and "lookup r c = None" and "\<And>e. s = InsertEntry e \<Longrightarrow> entry_cookie e \<noteq> c"
  shows "lookup (step s r) c = None"
  using assms by (cases s) (auto simp: lookup_put lookup_take_out lookup_forget not_on_def)

lemma steps_absent:
  "store_ok r \<Longrightarrow> lookup r c = None \<Longrightarrow> (\<forall>e. InsertEntry e \<in> set ss \<longrightarrow> entry_cookie e \<noteq> c) \<Longrightarrow>
     lookup (fold step ss r) c = None"
proof (induction ss arbitrary: r)
  case (Cons s ss)
  then show ?case using step_absent [of r c s] by (simp add: step_ok)
qed simp

lemma consumed_is_gone:
  assumes "store_ok r" and "snd (take_out r c) = Some e" and "xs_single_connection e"
    and "\<forall>e. InsertEntry e \<in> set ss \<longrightarrow> entry_cookie e \<noteq> c"
  shows "snd (take_out (fold step ss (fst (take_out r c))) c) = None"
proof -
  have "lookup (fst (take_out r c)) c = None"
    using assms by (simp add: lookup_take_out consumes_cookie_def take_out_result)
  then show ?thesis
    using assms steps_absent [OF take_out_ok] by (simp add: take_out_result steps_ok take_out_ok)
qed

lemma off_channel:
  assumes "store_ok r" and "\<forall>c e. lookup r c = Some e \<longrightarrow> xs_channel_id e \<noteq> ch"
    and "\<forall>e. InsertEntry e \<in> set ss \<longrightarrow> xs_channel_id e \<noteq> ch"
  shows "\<forall>c e. lookup (fold step ss r) c = Some e \<longrightarrow> xs_channel_id e \<noteq> ch"
  using assms
proof (induction ss arbitrary: r)
  case (Cons s ss)
  have "\<forall>c e. lookup (step s r) c = Some e \<longrightarrow> xs_channel_id e \<noteq> ch"
    using Cons.prems by (cases s)
      (auto simp: lookup_put lookup_take_out lookup_forget not_on_def split: if_splits option.splits)
  moreover have "store_ok (step s r)" using Cons.prems(1) by (rule step_ok)
  ultimately show ?case using Cons.IH [of "step s r"] Cons.prems(3) by simp
qed simp

lemma forgotten_channel:
  assumes "store_ok r" and "\<forall>e. InsertEntry e \<in> set ss \<longrightarrow> xs_channel_id e \<noteq> ch"
    and "snd (take_out (fold step ss (forget r ch)) c) = Some e"
  shows "xs_channel_id e \<noteq> ch"
proof -
  have "\<forall>c e. lookup (forget r ch) c = Some e \<longrightarrow> xs_channel_id e \<noteq> ch"
    using assms(1) by (auto simp: lookup_forget not_on_def split: option.splits if_splits)
  then have "\<forall>c e. lookup (fold step ss (forget r ch)) c = Some e \<longrightarrow> xs_channel_id e \<noteq> ch"
    using assms(1,2) by (intro off_channel forget_ok)
  moreover have "lookup (fold step ss (forget r ch)) c = Some e"
    using assms(1,3) by (simp add: take_out_result steps_ok forget_ok)
  ultimately show ?thesis by blast
qed

end

subsection \<open>The registry is a cookie store\<close>

definition registry_ok :: "'c x11_auth_spoof_registry \<Rightarrow> bool" where
  "registry_ok r \<longleftrightarrow> distinct (map entry_cookie (rg_entries r))"

definition registry_lookup ::
  "'c x11_auth_spoof_registry \<Rightarrow> x11_auth_cookie \<Rightarrow> 'c x11_spoofed_auth option" where
  "registry_lookup r c = List.find (\<lambda>e. entry_cookie e = c) (rg_entries r)"

lemma cookie_eq [simp]: "constant_time_eq a b \<longleftrightarrow> a = b"
  by (cases a; cases b) (simp add: constant_time_eq_def)

lemma one_protocol [simp]: "(p :: x11_auth_protocol) = q \<longleftrightarrow> True"
  by (cases p; cases q) simp

lemma vec_remove_at_position:
  assumes "position (\<lambda>e. f e = c) xs = Some i" and "distinct (map f xs)"
  shows "snd (vec_remove i xs) = filter (\<lambda>e. f e \<noteq> c) xs"
  using assms
proof (induction xs arbitrary: i)
  case (Cons x xs)
  show ?case
  proof (cases "f x = c")
    case True
    then have "filter (\<lambda>e. f e \<noteq> c) xs = xs"
      using Cons.prems by (force simp: filter_id_conv image_iff)
    then show ?thesis using True Cons.prems by (auto simp: vec_remove_def)
  next
    case False
    then show ?thesis using Cons by (auto simp: vec_remove_def)
  qed
qed simp

lemma registry_insert_entries:
  "registry_ok r \<Longrightarrow>
     rg_entries (fst (registry_insert r e))
       = filter (\<lambda>x. entry_cookie x \<noteq> entry_cookie e) (rg_entries r) @ [e]"
  using vec_remove_at_position [of entry_cookie "entry_cookie e" "rg_entries r"]
  by (auto simp: registry_insert_def registry_ok_def position_None split_beta filter_id_conv
      split: option.splits)

lemma resolve_entries:
  "registry_ok r \<Longrightarrow>
     rg_entries (fst (resolve r p c))
       = (if consumes_cookie (registry_lookup r c) then filter (\<lambda>x. entry_cookie x \<noteq> c) (rg_entries r)
          else rg_entries r)"
  using vec_remove_at_position [of entry_cookie c "rg_entries r"]
  by (auto simp: resolve_def registry_lookup_def registry_ok_def position_find consumes_cookie_def split_beta
      split: option.splits)

lemma resolve_result: "snd (resolve r p c) = registry_lookup r c"
  by (auto simp: resolve_def registry_lookup_def position_find vec_remove_def split: option.splits)

lemma remove_channel_loop_filters:
  "index \<le> length entries \<Longrightarrow>
     remove_channel_loop ch index entries removed =
       (take index entries @ filter (\<lambda>e. xs_channel_id e \<noteq> ch) (drop index entries),
        removed @ filter (\<lambda>e. xs_channel_id e = ch) (drop index entries))"
proof (induction ch index entries removed rule: remove_channel_loop.induct)
  case (1 ch index entries removed)
  show ?case
  proof (cases "index < length entries")
    case True
    then have d: "drop index entries = entries ! index # drop (Suc index) entries"
      by (simp add: Cons_nth_drop_Suc)
    show ?thesis
    proof (cases "xs_channel_id (entries ! index) = ch")
      case found: True
      have "remove_channel_loop ch index (snd (vec_remove index entries))
              (removed @ [fst (vec_remove index entries)]) =
          (take index entries @ filter (\<lambda>e. xs_channel_id e \<noteq> ch) (drop (Suc index) entries),
           removed @ [entries ! index] @ filter (\<lambda>e. xs_channel_id e = ch) (drop (Suc index) entries))"
        using "1.IH"(1) [OF True found] True by (simp add: vec_remove_def min_def)
      then show ?thesis
        using True found by (subst remove_channel_loop.simps) (simp add: d)
    next
      case False
      then have "remove_channel_loop ch (index + 1) entries removed =
          (take index entries @ [entries ! index]
             @ filter (\<lambda>e. xs_channel_id e \<noteq> ch) (drop (Suc index) entries),
           removed @ filter (\<lambda>e. xs_channel_id e = ch) (drop (Suc index) entries))"
        using "1.IH"(2) [OF True False] True by (simp add: take_Suc_conv_app_nth)
      then show ?thesis
        using True False by (subst remove_channel_loop.simps) (simp add: d)
    qed
  next
    case False
    then show ?thesis using "1.prems" by (subst remove_channel_loop.simps) simp
  qed
qed

lemma remove_channel_filters:
  "remove_channel r ch =
     (r\<lparr>rg_entries := filter (\<lambda>e. xs_channel_id e \<noteq> ch) (rg_entries r)\<rparr>,
      filter (\<lambda>e. xs_channel_id e = ch) (rg_entries r))"
  by (simp add: remove_channel_def remove_channel_loop_filters)

lemma find_filter_cookie:
  "List.find (\<lambda>e. f e = c) (filter (\<lambda>e. f e \<noteq> c') xs)
     = (if c = c' then None else List.find (\<lambda>e. f e = c) xs)"
  by (induction xs) auto

lemma find_append:
  "List.find P (xs @ ys) = (case List.find P xs of Some x \<Rightarrow> Some x | None \<Rightarrow> List.find P ys)"
  by (induction xs) auto

lemma find_filter_channel:
  "distinct (map f xs) \<Longrightarrow>
     List.find (\<lambda>e. f e = c) (filter (\<lambda>e. xs_channel_id e \<noteq> ch) xs)
       = not_on ch (List.find (\<lambda>e. f e = c) xs)"
proof (induction xs)
  case (Cons x xs)
  have "List.find (\<lambda>e. f e = f x) (filter (\<lambda>e. xs_channel_id e \<noteq> ch) xs) = None"
    using Cons.prems by (force simp: find_None_iff image_iff)
  then show ?case using Cons by (auto simp: not_on_def)
qed (simp add: not_on_def)

interpretation reg: cookie_store registry_ok registry_lookup "\<lambda>r e. fst (registry_insert r e)"
  "\<lambda>r c. resolve r MitMagicCookie1 c" "\<lambda>r ch. fst (remove_channel r ch)"
proof unfold_locales
  fix r :: "'c x11_auth_spoof_registry" and e :: "'c x11_spoofed_auth"
    and c c' :: x11_auth_cookie and ch :: 'c
  assume ok: "registry_ok r"
  show "registry_ok (fst (registry_insert r e))"
    using ok registry_insert_entries [OF ok, of e] by (auto simp: registry_ok_def distinct_map_filter)
  show "registry_lookup (fst (registry_insert r e)) c
      = (if c = entry_cookie e then Some e else registry_lookup r c)"
    using registry_insert_entries [OF ok, of e]
    by (simp add: registry_lookup_def find_append find_filter_cookie split: option.splits)
  show "registry_ok (fst (resolve r MitMagicCookie1 c))"
    using ok resolve_entries [OF ok, of MitMagicCookie1 c]
    by (auto simp: registry_ok_def distinct_map_filter)
  show "snd (resolve r MitMagicCookie1 c) = registry_lookup r c" by (rule resolve_result)
  show "registry_lookup (fst (resolve r MitMagicCookie1 c)) c'
      = (if c' = c \<and> consumes_cookie (registry_lookup r c) then None else registry_lookup r c')"
    using resolve_entries [OF ok, of MitMagicCookie1 c]
    by (simp add: registry_lookup_def find_filter_cookie)
  show "registry_ok (fst (remove_channel r ch))"
    using ok by (auto simp: registry_ok_def remove_channel_filters distinct_map_filter)
  show "registry_lookup (fst (remove_channel r ch)) c = not_on ch (registry_lookup r c)"
    using ok by (simp add: registry_lookup_def remove_channel_filters find_filter_channel registry_ok_def)
qed


subsection \<open>Collecting the setup packet\<close>

text \<open>The reads of a connection, until the buffer reports something.\<close>

fun feed_setup ::
  "x11_setup_buffer \<Rightarrow> bytes list
     \<Rightarrow> x11_setup_buffer \<times> (x11_forwarding_error + (bytes \<times> bytes) option) \<times> bytes list" where
  "feed_setup b [] = (b, Ok None, [])"
| "feed_setup b (chunk # chunks) =
     (case push_complete_setup b chunk of
        (b', Ok None) \<Rightarrow> feed_setup b' chunks
      | (b', result) \<Rightarrow> (b', result, chunks))"

lemma total_len_prefix:
  "12 \<le> length xs \<Longrightarrow> setup_packet_total_len (xs @ ys) = setup_packet_total_len xs"
  by (auto simp: setup_packet_total_len_def SETUP_HEADER_LEN_def byte_range_def nth_append)

lemma total_len_short: "length xs < 12 \<Longrightarrow> setup_packet_total_len xs = Ok None"
  by (simp add: setup_packet_total_len_def SETUP_HEADER_LEN_def)

lemma total_len_bounds:
  assumes "setup_packet_total_len p = Ok (Some n)"
  shows "12 \<le> n" and "n \<le> 131084"
proof -
  have pad: "unat (w :: u16) + pad_of (unat w) \<le> 65536" for w
    using unat_u16_le [of w] pad_of_le(2) [of "unat w"]
    by (cases "unat w = 65535 \<or> unat w = 65534 \<or> unat w = 65533") (auto simp: pad_of_def)
  obtain a b :: u16 where "n = 12 + (unat a + pad_of (unat a)) + (unat b + pad_of (unat b))"
    using assms by (auto simp: setup_packet_total_len_def SETUP_HEADER_LEN_def res_bind_eq_Ok Let_def
        padded_len_ok unat_u16_le split: if_splits)
  then show "12 \<le> n" "n \<le> 131084" using pad [of a] pad [of b] by linarith+
qed

text \<open>A buffer that waits has collected a proper beginning of the packet.\<close>

lemma push_waiting:
  assumes "\<not> bf_complete b" and "setup_packet_total_len p = Ok (Some (length p))"
    and "length (bf_bytes b @ chunk) \<le> bf_max_setup_bytes b"
    and "bf_bytes b @ chunk @ later = p @ t"
  shows "push_complete_setup b chunk =
    (if length (bf_bytes b @ chunk) < length p then (b\<lparr>bf_bytes := bf_bytes b @ chunk\<rparr>, Ok None)
     else (b\<lparr>bf_bytes := [], bf_complete := True\<rparr>,
           Ok (Some (p, drop (length p) (bf_bytes b @ chunk)))))"
proof -
  let ?xs = "bf_bytes b @ chunk"
  have xs: "?xs = take (length ?xs) (p @ t)" using assms(4) by (metis append_assoc append_eq_conv_conj)
  have p: "take (length p) ?xs = p" if "length p \<le> length ?xs"
    using that xs by (metis append_eq_conv_conj min.absorb1 take_take)
  have total: "setup_packet_total_len ?xs = Ok (Some (length p))" if "12 \<le> length ?xs"
  proof -
    have "setup_packet_total_len ?xs = setup_packet_total_len (?xs @ later)"
      using total_len_prefix [OF that] by simp
    also have "\<dots> = setup_packet_total_len (p @ t)" using assms(4) by simp
    also have "\<dots> = Ok (Some (length p))"
      using total_len_prefix total_len_bounds(1) assms(2) by simp
    finally show ?thesis .
  qed
  show ?thesis
    using assms(1,3) p total total_len_short [of ?xs] total_len_bounds(1) [OF assms(2)]
    by (cases "12 \<le> length ?xs")
       (auto simp: push_complete_setup_def required_setup_packet_len_def Let_def)
qed

lemma feed_setup_collects:
  assumes "\<not> bf_complete b" and "setup_packet_total_len p = Ok (Some (length p))"
    and "length (bf_bytes b) < length p" and "\<forall>c \<in> set chunks. length p + length c \<le> bf_max_setup_bytes b"
    and "bf_bytes b @ concat chunks = p @ t"
  shows "\<exists>b' trailing rest. feed_setup b chunks = (b', Ok (Some (p, trailing)), rest)
    \<and> bf_complete b' \<and> trailing @ concat rest = t"
  using assms
proof (induction chunks arbitrary: b)
  case (Cons c chunks)
  let ?xs = "bf_bytes b @ c"
  have push: "push_complete_setup b c =
    (if length ?xs < length p then (b\<lparr>bf_bytes := ?xs\<rparr>, Ok None)
     else (b\<lparr>bf_bytes := [], bf_complete := True\<rparr>, Ok (Some (p, drop (length p) ?xs))))"
    using Cons.prems by (intro push_waiting [where t = t and later = "concat chunks"]) auto
  show ?case
  proof (cases "length ?xs < length p")
    case True
    then show ?thesis using Cons.IH [of "b\<lparr>bf_bytes := ?xs\<rparr>"] Cons.prems push by simp
  next
    case False
    have "drop (length p) (?xs @ concat chunks) = t" using Cons.prems(5) by simp
    then have "drop (length p) ?xs @ concat chunks = t" using False by simp
    then show ?thesis using False push by auto
  qed
qed simp

text \<open>
  However the first bytes of a connection are split into reads of at most 32 KiB, the buffer
  hands out exactly the setup packet, and what follows it is in the trailing data and the reads
  that remain; the limit on its size is never hit.
\<close>

theorem setup_collected_from_any_chunks:
  assumes "setup_packet_ok f" and "concat chunks = encode_setup f @ t"
    and "\<forall>c \<in> set chunks. length c \<le> 32 * 1024"
  shows "\<exists>b trailing rest.
    feed_setup setup_buffer_new chunks = (b, Ok (Some (encode_setup f, trailing)), rest)
    \<and> setup_state b = Ok SetupComplete \<and> trailing @ concat rest = t"
proof -
  have total: "setup_packet_total_len (encode_setup f) = Ok (Some (length (encode_setup f)))"
    using parse_encode_setup(2) [OF assms(1), of "[]"] by simp
  have "\<exists>b' trailing rest. feed_setup setup_buffer_new chunks
      = (b', Ok (Some (encode_setup f, trailing)), rest) \<and> bf_complete b' \<and> trailing @ concat rest = t"
  proof (rule feed_setup_collects [OF _ total])
    show "length (bf_bytes setup_buffer_new) < length (encode_setup f)"
      using total_len_bounds(1) [OF total] by (auto simp: setup_buffer_new_def with_max_setup_bytes_def)
    show "\<forall>c \<in> set chunks. length (encode_setup f) + length c \<le> bf_max_setup_bytes setup_buffer_new"
      using total_len_bounds(2) [OF total] assms(3)
      by (auto simp: setup_buffer_new_def with_max_setup_bytes_def DEFAULT_MAX_SETUP_PACKET_BYTES_def)
  qed (simp_all add: setup_buffer_new_def with_max_setup_bytes_def assms(2))
  then show ?thesis by (fastforce simp: setup_state_def)
qed

theorem setup_collected_from_any_chunks_witness:
  "\<exists>b trailing rest.
    feed_setup setup_buffer_new [take 5 (encode_setup demo_setup), drop 5 (encode_setup demo_setup) @ [1], [2, 3]]
      = (b, Ok (Some (encode_setup demo_setup, trailing)), rest)
    \<and> setup_state b = Ok SetupComplete \<and> trailing @ concat rest = [1, 2, 3]"
proof (rule setup_collected_from_any_chunks [OF demo_setup_ok])
  have "length (encode_setup demo_setup) = 36"
    by (simp add: encode_setup_length [OF demo_setup_ok] data_start_def)
       (simp add: demo_setup_def ssh_name_def str_lit_def pad_of_def)
  then show "\<forall>c \<in> set [take 5 (encode_setup demo_setup), drop 5 (encode_setup demo_setup) @ [1], [2, 3]].
      length c \<le> 32 * 1024" by simp
qed simp

subsection \<open>The decision\<close>

lemma ssh_name_parses: "auth_protocol_parse (from_utf8_lossy (ssh_name p)) = Ok MitMagicCookie1"
proof -
  have plain: "list_all (\<lambda>b. 0x20 < b \<and> b \<le> 0x7F) (ssh_name p)" by (simp add: ssh_name_def str_lit_def)
  then have "list_all (\<lambda>b. b \<le> 0x7F) (ssh_name p)" by (rule list.pred_mono_strong) auto
  then have "from_utf8_lossy (ssh_name p) = ssh_name p" by (intro from_utf8_lossy_valid ascii_valid)
  then show ?thesis
    using str_trim_plain [OF plain] by (simp add: auth_protocol_parse_def ssh_name_def)
qed

lemma inspect_authentication_encoded:
  "setup_packet_ok f \<Longrightarrow> inspect_setup_authentication (encode_setup f @ tail) =
     res_bind (auth_protocol_parse (from_utf8_lossy (sp_protocol f))) (\<lambda>protocol.
     res_bind (cookie_from_bytes (sp_data f)) (\<lambda>fake_cookie.
     Ok \<lparr>sa_request = setup_request_of f, sa_protocol = protocol, sa_fake_cookie = fake_cookie\<rparr>))"
  by (simp add: inspect_setup_authentication_def parse_encode_setup(1) setup_auth_data_encoded)
     (simp add: parsed_of_def setup_request_of_def)

definition refusal :: "setup_packet \<Rightarrow> x11_setup_reject_reason \<Rightarrow> bytes \<Rightarrow> x11_setup_reject" where
  "refusal f reason message =
     \<lparr>rj_request = setup_request_of f, rj_reason = reason,
      rj_failure_response = [0, word_of_nat (length message)]
        @ u16_bytes (sp_order f) (sp_major f) @ u16_bytes (sp_order f) (sp_minor f)
        @ u16_bytes (sp_order f) (word_of_nat ((length message + pad_of (length message)) div 4))
        @ message @ replicate (pad_of (length message)) 0\<rparr>"

lemma reject_setup_packet_encoded:
  "setup_packet_ok f \<Longrightarrow> length message \<le> 255 \<Longrightarrow>
     reject_setup_packet (encode_setup f) reason message = Ok (refusal f reason message)"
  using parse_encode_setup(1) [of f "[]"]
  by (simp add: reject_setup_packet_def inspect_setup_request_def auth_failure_response_format
      refusal_def) (simp add: parsed_of_def setup_request_of_def)

lemma registry_decision_encoded:
  assumes ok: "setup_packet_ok f" and proto: "sp_protocol f = ssh_name MitMagicCookie1"
    and sizes: "\<forall>c e. registry_lookup r c = Some e \<longrightarrow> length (ck_bytes (am_local_cookie (xs_auth e))) \<le> 65535"
  shows "registry_decision r (encode_setup f) trailing =
    (case (if sp_data f = [] then None else registry_lookup r \<lparr>ck_bytes = sp_data f\<rparr>) of
       Some e \<Rightarrow>
         (fst (resolve r MitMagicCookie1 \<lparr>ck_bytes = sp_data f\<rparr>),
          Ok (Some (RegisteredForward
            \<lparr>rr_channel_id = xs_channel_id e,
             rr_rewrite = \<lparr>rw_request = setup_request_of f,
               rw_rewritten_setup = encode_setup (with_data (ck_bytes (am_local_cookie (xs_auth e))) f),
               rw_trailing_data = trailing\<rparr>\<rparr>)))
     | None \<Rightarrow>
         (r, Ok (Some (RegisteredReject (refusal f RejectAuthCookieMismatch
                (str_lit ''X11 forwarding authentication failed''))))))"
proof -
  let ?c = "\<lparr>ck_bytes = sp_data f\<rparr>"
  have reject: "reject_setup_packet (encode_setup f) RejectAuthCookieMismatch
      (str_lit ''X11 forwarding authentication failed'')
      = Ok (refusal f RejectAuthCookieMismatch (str_lit ''X11 forwarding authentication failed''))"
    by (rule reject_setup_packet_encoded [OF ok]) (simp add: str_lit_def)
  have inspect: "inspect_setup_authentication (encode_setup f) =
      res_bind (cookie_from_bytes (sp_data f)) (\<lambda>c. Ok \<lparr>sa_request = setup_request_of f,
        sa_protocol = MitMagicCookie1, sa_fake_cookie = c\<rparr>)"
    using inspect_authentication_encoded [OF ok, of "[]"] ssh_name_parses by (simp add: proto)
  show ?thesis
  proof (cases "sp_data f = []")
    case True
    then show ?thesis
      using reject inspect by (simp add: registry_decision_def resolve_setup_packet_def cookie_from_bytes_def)
  next
    case False
    then have resolved: "resolve_setup_packet r (encode_setup f) =
        (fst (resolve r MitMagicCookie1 ?c), Ok (registry_lookup r ?c))"
      using inspect resolve_result [of r MitMagicCookie1 ?c]
      by (auto simp: resolve_setup_packet_def cookie_from_bytes_def split_beta)
    show ?thesis
    proof (cases "registry_lookup r ?c")
      case None
      then have "fst (resolve r MitMagicCookie1 ?c) = r"
        using resolve_result [of r MitMagicCookie1 ?c] by (auto simp: resolve_def vec_remove_def
            split: option.splits if_splits)
      then show ?thesis using None False resolved reject by (simp add: registry_decision_def)
    next
      case (Some e)
      then have "entry_cookie e = ?c" by (auto simp: registry_lookup_def find_Some_iff)
      moreover have "length (ck_bytes (am_local_cookie (xs_auth e))) \<le> 65535" using sizes Some by blast
      moreover have "sp_protocol f = ssh_name (am_protocol (xs_auth e))" by (simp add: proto ssh_name_def)
      ultimately have "rewrite_setup_authentication (encode_setup f) (xs_auth e) =
          (encode_setup (with_data (ck_bytes (am_local_cookie (xs_auth e))) f), Ok (setup_request_of f))"
        using rewrite_setup_authentication_encoded [OF ok, of "[]" "xs_auth e"] by simp
      then show ?thesis using Some False resolved by (simp add: registry_decision_def)
    qed
  qed
qed


definition demo_registry :: "nat x11_auth_spoof_registry" where
  "demo_registry = \<lparr>rg_entries = [\<lparr>xs_channel_id = 7, xs_auth = demo_auth, xs_single_connection = True\<rparr>]\<rparr>"


text \<open>
  A cookie for a single connection opens one: once it has been resolved, no sequence of
  registrations of other cookies, resolutions and removals makes it resolve again.
\<close>

theorem single_connection_cookie_used_once:
  assumes "registry_ok r" and "snd (resolve r MitMagicCookie1 c) = Some e" and "xs_single_connection e"
    and "\<forall>e. InsertEntry e \<in> set steps \<longrightarrow> entry_cookie e \<noteq> c"
  shows "snd (resolve (fold reg.step steps (fst (resolve r MitMagicCookie1 c))) MitMagicCookie1 c) = None"
  by (rule reg.consumed_is_gone [OF assms])

theorem single_connection_cookie_used_once_witness:
  "snd (resolve (fold reg.step [ResolveCookie (entry_cookie (hd (rg_entries demo_registry))), RemoveChannel 3]
      (fst (resolve demo_registry MitMagicCookie1 (entry_cookie (hd (rg_entries demo_registry))))))
      MitMagicCookie1 (entry_cookie (hd (rg_entries demo_registry)))) = None"
  by (rule single_connection_cookie_used_once [where e = "hd (rg_entries demo_registry)"])
     (simp_all add: demo_registry_def registry_ok_def resolve_def vec_remove_def)

text \<open>
  A protocol name padded with white space passes the lookup, which trims it, and fails the
  rewriting, which does not: the connection ends without a refusal, and a cookie for a single
  connection is lost.
\<close>

lemma padded_protocol_consumes_cookie:
  assumes ok: "setup_packet_ok f" and proto: "sp_protocol f = ssh_name MitMagicCookie1 @ [0x20]"
    and e: "registry_lookup r \<lparr>ck_bytes = sp_data f\<rparr> = Some e" and data: "sp_data f \<noteq> []"
  shows "registry_decision r (encode_setup f) trailing =
    (fst (resolve r MitMagicCookie1 \<lparr>ck_bytes = sp_data f\<rparr>),
     Err (UnsupportedAuthProtocol (sp_protocol f)))"
proof -
  have "list_all (\<lambda>b. b \<le> 0x7F) (sp_protocol f)" by (simp add: proto ssh_name_def str_lit_def)
  then have chars: "lossy_chars (sp_protocol f) = map (\<lambda>b. [b]) (sp_protocol f)"
    and lossy: "from_utf8_lossy (sp_protocol f) = sp_protocol f"
    by (rule lossy_chars_ascii, intro from_utf8_lossy_valid ascii_valid)
  have "auth_protocol_parse (sp_protocol f) = Ok MitMagicCookie1"
    by (simp add: auth_protocol_parse_def str_trim_def chars)
       (simp add: proto ssh_name_def str_lit_def trim_chars_def is_whitespace_def)
  then have "resolve_setup_packet r (encode_setup f) =
      (fst (resolve r MitMagicCookie1 \<lparr>ck_bytes = sp_data f\<rparr>), Ok (Some e))"
    using inspect_authentication_encoded [OF ok, of "[]"] resolve_result [of r MitMagicCookie1 "\<lparr>ck_bytes = sp_data f\<rparr>"] data e
    by (auto simp: resolve_setup_packet_def cookie_from_bytes_def lossy split_beta)
  moreover have "sp_protocol f \<noteq> ssh_name (am_protocol (xs_auth e))" by (simp add: proto ssh_name_def)
  then have "rewrite_setup_authentication (encode_setup f) (xs_auth e) =
      (encode_setup f, Err (UnsupportedAuthProtocol (sp_protocol f)))"
    using rewrite_setup_authentication_encoded [OF ok, of "[]" "xs_auth e"] by (simp add: lossy)
  ultimately show ?thesis by (simp add: registry_decision_def)
qed

end
