(* ===== verification/X11_Dispatcher.thy ===== *)
theory X11_Dispatcher
  imports X11_Registry "HOL-Library.AList"
begin

text \<open>
  The dispatcher of forwarded X11 channels (\<^verbatim>\<open>hapcli-ssh/src/transport/x11.rs\<close>): routes and the
  cookie registry behind one lock, and the bridges that use them. Each critical section is one
  operation; a bridge alternates between reading its channel and the sections, and the world
  interleaves any number of bridges with registrations and removals. The clock is an argument of
  every section that reads it, the result of a read comes from the channel, and whether the SSH
  connection can be leased and the local X server reached is decided by the surroundings.
\<close>

subsection \<open>The source's operations\<close>

datatype x11_local_endpoint = UnixSocketEndpoint bytes | TcpEndpoint bytes u16

datatype x11_runtime_error = Forwarding x11_forwarding_error | RuntimeIo bytes | UnsupportedEndpoint bytes

record 'o x11_forward_route =
  rt_endpoint :: x11_local_endpoint
  rt_expires_at :: "nat option"
  rt_connection_owner :: "'o option"

record 'o x11_dispatcher =
  dp_auth_registry :: "bytes x11_auth_spoof_registry"
  dp_routes :: "(bytes \<times> 'o x11_forward_route) list"

definition dispatcher_new :: "'o x11_dispatcher" where
  "dispatcher_new = \<lparr>dp_auth_registry = registry_new, dp_routes = []\<rparr>"

text \<open>Guards dropped and routes expired end here: the route and the cookies of its channel go.\<close>

definition dispatcher_remove :: "bytes \<Rightarrow> 'o x11_dispatcher \<Rightarrow> 'o x11_dispatcher" where
  "dispatcher_remove route_id s =
     s\<lparr>dp_routes := AList.delete route_id (dp_routes s),
       dp_auth_registry := fst (remove_channel (dp_auth_registry s) route_id)\<rparr>"

definition route_expired :: "nat \<Rightarrow> 'o x11_forward_route \<Rightarrow> bool" where
  "route_expired now route \<longleftrightarrow>
     (case rt_expires_at route of Some expires_at \<Rightarrow> expires_at \<le> now | None \<Rightarrow> False)"

definition prune_expired_x11_routes :: "nat \<Rightarrow> 'o x11_dispatcher \<Rightarrow> 'o x11_dispatcher" where
  "prune_expired_x11_routes now s =
     fold (\<lambda>route_id s. dispatcher_remove route_id s)
       (map fst (filter (\<lambda>(route_id, route). route_expired now route) (dp_routes s))) s"

text \<open>The standard library's instants end at \<open>instant_max\<close>, beyond which a route never expires.\<close>

definition dispatcher_register ::
  "nat \<Rightarrow> nat \<Rightarrow> nat \<Rightarrow> bytes \<Rightarrow> x11_local_endpoint \<Rightarrow> x11_auth_material \<Rightarrow> bool \<Rightarrow> nat option
     \<Rightarrow> 'o option \<Rightarrow> 'o x11_dispatcher \<Rightarrow> 'o x11_dispatcher" where
  "dispatcher_register instant_max now now' route_id endpoint auth single_connection
     acceptance_timeout connection_owner s =
     (let expires_at = (case acceptance_timeout of
            Some duration \<Rightarrow> if now + duration \<le> instant_max then Some (now + duration) else None
          | None \<Rightarrow> None);
          s1 = prune_expired_x11_routes now' s in
      s1\<lparr>dp_auth_registry :=
           fst (registry_insert (dp_auth_registry s1)
                  \<lparr>xs_channel_id = route_id, xs_auth = auth, xs_single_connection = single_connection\<rparr>),
         dp_routes :=
           AList.update route_id
             \<lparr>rt_endpoint = endpoint, rt_expires_at = expires_at, rt_connection_owner = connection_owner\<rparr>
             (dp_routes s1)\<rparr>)"

definition has_active_routes :: "nat \<Rightarrow> 'o x11_dispatcher \<Rightarrow> 'o x11_dispatcher \<times> bool" where
  "has_active_routes now s = (let s1 = prune_expired_x11_routes now s in (s1, dp_routes s1 \<noteq> []))"

datatype channel_read = ReadTimeout | ReadFailed bytes | ReadData bytes

datatype x11_bridge =
    BridgeReading x11_setup_buffer
  | BridgeRouting "bytes x11_registered_setup_rewrite"
  | BridgeConnected x11_local_endpoint bytes
  | BridgeRefused bytes
  | BridgeFailed x11_runtime_error

definition bridge_start :: x11_bridge where
  "bridge_start = BridgeReading setup_buffer_new"

text \<open>One turn of the loop of \<^verbatim>\<open>bridge\<close>: a read, and with its data the first critical section.\<close>

definition bridge_read ::
  "nat \<Rightarrow> channel_read \<Rightarrow> x11_setup_buffer \<Rightarrow> 'o x11_dispatcher \<Rightarrow> x11_bridge \<times> 'o x11_dispatcher" where
  "bridge_read now read setup s =
     (case read of
        ReadTimeout \<Rightarrow> (BridgeFailed (RuntimeIo (str_lit ''X11 setup packet timed out'')), s)
      | ReadFailed e \<Rightarrow> (BridgeFailed (RuntimeIo e), s)
      | ReadData chunk \<Rightarrow>
          if chunk = []
          then (BridgeFailed (RuntimeIo (str_lit ''X11 channel closed before setup packet completed'')), s)
          else
            let s1 = prune_expired_x11_routes now s;
                (setup', registry', result) = push_registry_decision setup chunk (dp_auth_registry s1) in
            (case result of
               Err e \<Rightarrow> BridgeFailed (Forwarding e)
             | Ok None \<Rightarrow> BridgeReading setup'
             | Ok (Some (RegisteredForward forward)) \<Rightarrow> BridgeRouting forward
             | Ok (Some (RegisteredReject reject)) \<Rightarrow> BridgeRefused (rj_failure_response reject),
             s1\<lparr>dp_auth_registry := registry'\<rparr>))"

text \<open>The second critical section, the lease and the connection to the X server.\<close>

definition bridge_route ::
  "('o option \<Rightarrow> bytes \<Rightarrow> x11_runtime_error + unit) \<Rightarrow> (x11_local_endpoint \<Rightarrow> x11_runtime_error + unit)
     \<Rightarrow> nat \<Rightarrow> bytes x11_registered_setup_rewrite \<Rightarrow> 'o x11_dispatcher \<Rightarrow> x11_bridge \<times> 'o x11_dispatcher" where
  "bridge_route lease connect now forward s =
     (let s1 = prune_expired_x11_routes now s in
      (case map_of (dp_routes s1) (rr_channel_id forward) of
         None \<Rightarrow>
           BridgeFailed (RuntimeIo (str_lit ''X11 forwarding route expired before channel setup''))
       | Some route \<Rightarrow>
           (case lease (rt_connection_owner route) (rr_channel_id forward) of
              Err e \<Rightarrow> BridgeFailed e
            | Ok _ \<Rightarrow>
                (case connect (rt_endpoint route) of
                   Err e \<Rightarrow> BridgeFailed e
                 | Ok _ \<Rightarrow>
                     BridgeConnected (rt_endpoint route)
                       (rw_rewritten_setup (rr_rewrite forward) @ rw_trailing_data (rr_rewrite forward)))),
       s1))"

subsection \<open>Any number of bridges\<close>

text \<open>
  The events of the dispatcher's world. The registrations and the bytes each channel delivered
  are recorded for the statements; no operation looks at them.
\<close>

datatype 'o dispatch_event =
    Register nat nat nat bytes x11_local_endpoint x11_auth_material bool "nat option" "'o option"
  | QueryActive nat
  | DropGuard bytes
  | OpenBridge nat
  | BridgeTurn nat nat channel_read
  | BridgeConnect nat nat "'o option \<Rightarrow> bytes \<Rightarrow> x11_runtime_error + unit"
      "x11_local_endpoint \<Rightarrow> x11_runtime_error + unit"

record 'o x11_world =
  wd_dispatcher :: "'o x11_dispatcher"
  wd_bridges :: "nat \<Rightarrow> x11_bridge option"
  wd_input :: "nat \<Rightarrow> bytes"
  wd_registered :: "(bytes \<times> x11_local_endpoint \<times> x11_auth_material) list"

definition world_start :: "'o x11_world" where
  "world_start =
     \<lparr>wd_dispatcher = dispatcher_new, wd_bridges = (\<lambda>i. None), wd_input = (\<lambda>i. []), wd_registered = []\<rparr>"

definition read_bytes :: "channel_read \<Rightarrow> bytes" where
  "read_bytes read = (case read of ReadData chunk \<Rightarrow> chunk | _ \<Rightarrow> [])"

definition dispatch_step :: "'o dispatch_event \<Rightarrow> 'o x11_world \<Rightarrow> 'o x11_world" where
  "dispatch_step ev w =
     (case ev of
        Register instant_max now now' route_id endpoint auth single timeout owner \<Rightarrow>
          w\<lparr>wd_dispatcher := dispatcher_register instant_max now now' route_id endpoint auth single timeout owner
              (wd_dispatcher w),
            wd_registered := (route_id, endpoint, auth) # wd_registered w\<rparr>
      | QueryActive now \<Rightarrow> w\<lparr>wd_dispatcher := fst (has_active_routes now (wd_dispatcher w))\<rparr>
      | DropGuard route_id \<Rightarrow> w\<lparr>wd_dispatcher := dispatcher_remove route_id (wd_dispatcher w)\<rparr>
      | OpenBridge i \<Rightarrow>
          (case wd_bridges w i of
             None \<Rightarrow> w\<lparr>wd_bridges := (wd_bridges w)(i := Some bridge_start)\<rparr>
           | Some _ \<Rightarrow> w)
      | BridgeTurn i now read \<Rightarrow>
          (case wd_bridges w i of
             Some (BridgeReading setup) \<Rightarrow>
               (let (bridge, s) = bridge_read now read setup (wd_dispatcher w) in
                w\<lparr>wd_dispatcher := s, wd_bridges := (wd_bridges w)(i := Some bridge),
                  wd_input := (wd_input w)(i := wd_input w i @ read_bytes read)\<rparr>)
           | _ \<Rightarrow> w)
      | BridgeConnect i now lease connect \<Rightarrow>
          (case wd_bridges w i of
             Some (BridgeRouting forward) \<Rightarrow>
               (let (bridge, s) = bridge_route lease connect now forward (wd_dispatcher w) in
                w\<lparr>wd_dispatcher := s, wd_bridges := (wd_bridges w)(i := Some bridge)\<rparr>)
           | _ \<Rightarrow> w))"

inductive x11_reachable :: "'o x11_world \<Rightarrow> bool" where
  start: "x11_reachable world_start"
| step: "x11_reachable w \<Longrightarrow> x11_reachable (dispatch_step ev w)"

subsection \<open>The dispatcher's invariant\<close>

definition dispatcher_ok :: "'o x11_dispatcher \<Rightarrow> bool" where
  "dispatcher_ok s \<longleftrightarrow>
     registry_ok (dp_auth_registry s) \<and> distinct (map fst (dp_routes s))
     \<and> xs_channel_id ` set (rg_entries (dp_auth_registry s)) \<subseteq> fst ` set (dp_routes s)"

lemma remove_many:
  "fold dispatcher_remove ids s =
     s\<lparr>dp_routes := filter (\<lambda>p. fst p \<notin> set ids) (dp_routes s),
       dp_auth_registry := (dp_auth_registry s)
         \<lparr>rg_entries := filter (\<lambda>e. xs_channel_id e \<notin> set ids) (rg_entries (dp_auth_registry s))\<rparr>\<rparr>"
proof (induction ids arbitrary: s)
  case (Cons a ids)
  have "AList.delete a (dp_routes s) = filter (\<lambda>p. fst p \<noteq> a) (dp_routes s)"
    by (auto simp: AList.delete_eq intro: filter_cong)
  then have "dispatcher_remove a s = s\<lparr>dp_routes := filter (\<lambda>p. fst p \<noteq> a) (dp_routes s),
      dp_auth_registry := (dp_auth_registry s)
        \<lparr>rg_entries := filter (\<lambda>e. xs_channel_id e \<noteq> a) (rg_entries (dp_auth_registry s))\<rparr>\<rparr>"
    by (simp add: dispatcher_remove_def remove_channel_filters)
  then show ?case by (simp add: Cons conj_commute)
qed simp

lemma prune_filters:
  assumes "distinct (map fst (dp_routes s))"
  shows "prune_expired_x11_routes now s =
     s\<lparr>dp_routes := filter (\<lambda>p. \<not> route_expired now (snd p)) (dp_routes s),
       dp_auth_registry := (dp_auth_registry s)
         \<lparr>rg_entries := filter (\<lambda>e. \<not> (\<exists>p \<in> set (dp_routes s). fst p = xs_channel_id e \<and> route_expired now (snd p)))
            (rg_entries (dp_auth_registry s))\<rparr>\<rparr>"
proof -
  let ?ids = "map fst (filter (\<lambda>(route_id, route). route_expired now route) (dp_routes s))"
  have mem: "x \<in> set ?ids \<longleftrightarrow> (\<exists>p \<in> set (dp_routes s). fst p = x \<and> route_expired now (snd p))" for x
    by force
  have "fst p \<in> set ?ids \<longleftrightarrow> route_expired now (snd p)" if "p \<in> set (dp_routes s)" for p
    unfolding mem using assms that by (auto simp: distinct_map inj_on_def)
  then have "filter (\<lambda>p. fst p \<notin> set ?ids) (dp_routes s) = filter (\<lambda>p. \<not> route_expired now (snd p)) (dp_routes s)"
    by (intro filter_cong) auto
  then show ?thesis
    unfolding prune_expired_x11_routes_def remove_many mem by simp
qed

lemma prune_ok:
  assumes "dispatcher_ok s"
  shows "dispatcher_ok (prune_expired_x11_routes now s)"
    and "set (dp_routes (prune_expired_x11_routes now s)) \<subseteq> set (dp_routes s)"
    and "set (rg_entries (dp_auth_registry (prune_expired_x11_routes now s)))
         \<subseteq> set (rg_entries (dp_auth_registry s))"
    and "p \<in> set (dp_routes (prune_expired_x11_routes now s)) \<Longrightarrow> \<not> route_expired now (snd p)"
proof -
  have d: "distinct (map fst (dp_routes s))" using assms by (simp add: dispatcher_ok_def)
  show "dispatcher_ok (prune_expired_x11_routes now s)"
    using assms unfolding prune_filters [OF d]
    by (force simp: dispatcher_ok_def registry_ok_def distinct_map_filter)
qed (use assms in \<open>auto simp: prune_filters dispatcher_ok_def\<close>)

lemma remove_ok:
  "dispatcher_ok s \<Longrightarrow> dispatcher_ok (dispatcher_remove route_id s)"
  "set (dp_routes (dispatcher_remove route_id s)) \<subseteq> set (dp_routes s)"
  "set (rg_entries (dp_auth_registry (dispatcher_remove route_id s))) \<subseteq> set (rg_entries (dp_auth_registry s))"
  using remove_many [of "[route_id]" s]
  by (auto simp: dispatcher_ok_def registry_ok_def distinct_map_filter)

lemma resolve_keeps:
  assumes "registry_ok r"
  shows "registry_ok (fst (resolve r p c))"
    and "set (rg_entries (fst (resolve r p c))) \<subseteq> set (rg_entries r)"
  using assms resolve_entries [OF assms, of p c] by (auto simp: registry_ok_def distinct_map_filter)

lemma push_registry_keeps:
  assumes "registry_ok r" and "push_registry_decision b chunk r = (b', r', result)"
  shows "registry_ok r'" and "set (rg_entries r') \<subseteq> set (rg_entries r)"
proof -
  have "r' = r \<or> (\<exists>p c. r' = fst (resolve r p c))"
    using assms(2) by (auto simp: push_registry_decision_def registry_decision_def resolve_setup_packet_def
        split_beta split: sum.splits option.splits prod.splits)
  then show "registry_ok r'" "set (rg_entries r') \<subseteq> set (rg_entries r)"
    using assms(1) resolve_keeps [OF assms(1)] by blast+
qed

lemma register_entries:
  assumes "dispatcher_ok s"
  shows "dispatcher_ok (dispatcher_register m n n' route_id ep auth single timeout owner s)"
    and "e \<in> set (rg_entries (dp_auth_registry (dispatcher_register m n n' route_id ep auth single timeout owner s)))
      \<Longrightarrow> (xs_channel_id e = route_id \<and> xs_auth e = auth) \<or> e \<in> set (rg_entries (dp_auth_registry s))"
    and "p \<in> set (dp_routes (dispatcher_register m n n' route_id ep auth single timeout owner s))
      \<Longrightarrow> (fst p = route_id \<and> rt_endpoint (snd p) = ep) \<or> p \<in> set (dp_routes s)"
proof -
  let ?s1 = "prune_expired_x11_routes n' s"
  let ?e = "\<lparr>xs_channel_id = route_id, xs_auth = auth, xs_single_connection = single\<rparr>"
  have ok: "dispatcher_ok ?s1" by (rule prune_ok(1) [OF assms])
  then have reg: "registry_ok (dp_auth_registry ?s1)" by (simp add: dispatcher_ok_def)
  note ins = registry_insert_entries [OF reg, of ?e]
  have ins_ok: "registry_ok (fst (registry_insert (dp_auth_registry ?s1) ?e))"
    by (rule reg.put_ok [OF reg])
  show "dispatcher_ok (dispatcher_register m n n' route_id ep auth single timeout owner s)"
    using ok ins ins_ok
    by (auto simp: dispatcher_register_def dispatcher_ok_def Let_def distinct_update dom_update)
  show "(xs_channel_id e = route_id \<and> xs_auth e = auth) \<or> e \<in> set (rg_entries (dp_auth_registry s))"
    if "e \<in> set (rg_entries (dp_auth_registry (dispatcher_register m n n' route_id ep auth single timeout owner s)))"
    using that ins prune_ok(3) [OF assms, of n'] by (auto simp: dispatcher_register_def Let_def)
  have upd: "x \<in> set (AList.update k v al) \<Longrightarrow> x = (k, v) \<or> x \<in> set al" for x k and v :: "'a x11_forward_route" and al
    by (induction al) (auto split: if_splits)
  show "(fst p = route_id \<and> rt_endpoint (snd p) = ep) \<or> p \<in> set (dp_routes s)"
    if "p \<in> set (dp_routes (dispatcher_register m n n' route_id ep auth single timeout owner s))"
    using that prune_ok(2) [OF assms, of n'] by (auto simp: dispatcher_register_def Let_def dest!: upd)
qed

subsection \<open>What a bridge has been allowed\<close>

text \<open>
  \<open>authorised R input route_id out\<close>: the channel began with a setup packet that carries the fake
  cookie of a registration of the route, and \<open>out\<close> is the input with the local cookie in its place.
\<close>

definition authorised ::
  "(bytes \<times> x11_local_endpoint \<times> x11_auth_material) set \<Rightarrow> bytes \<Rightarrow> bytes \<Rightarrow> bytes \<Rightarrow> bool" where
  "authorised R input route_id out \<longleftrightarrow>
     (\<exists>ep auth f t. (route_id, ep, auth) \<in> R \<and> setup_packet_ok f \<and> input = encode_setup f @ t
        \<and> sp_protocol f = ssh_name MitMagicCookie1 \<and> sp_data f = ck_bytes (am_fake_cookie auth)
        \<and> out = encode_setup (with_data (ck_bytes (am_local_cookie auth)) f) @ t)"

definition known :: "(bytes \<times> x11_local_endpoint \<times> x11_auth_material) set \<Rightarrow> 'o x11_dispatcher \<Rightarrow> bool" where
  "known R s \<longleftrightarrow>
     (\<forall>e \<in> set (rg_entries (dp_auth_registry s)). \<exists>ep. (xs_channel_id e, ep, xs_auth e) \<in> R)
     \<and> (\<forall>p \<in> set (dp_routes s). \<exists>auth. (fst p, rt_endpoint (snd p), auth) \<in> R)"

definition bridge_ok ::
  "(bytes \<times> x11_local_endpoint \<times> x11_auth_material) set \<Rightarrow> bytes \<Rightarrow> x11_bridge option \<Rightarrow> bool" where
  "bridge_ok R input bridge \<longleftrightarrow>
     (case bridge of
        None \<Rightarrow> input = []
      | Some (BridgeReading b) \<Rightarrow> \<not> bf_complete b \<and> bf_bytes b = input
      | Some (BridgeRouting forward) \<Rightarrow>
          authorised R input (rr_channel_id forward)
            (rw_rewritten_setup (rr_rewrite forward) @ rw_trailing_data (rr_rewrite forward))
      | Some (BridgeConnected ep out) \<Rightarrow>
          (\<exists>route_id auth. authorised R input route_id out \<and> (route_id, ep, auth) \<in> R)
      | Some _ \<Rightarrow> True)"

definition world_ok :: "'o x11_world \<Rightarrow> bool" where
  "world_ok w \<longleftrightarrow>
     dispatcher_ok (wd_dispatcher w) \<and> known (set (wd_registered w)) (wd_dispatcher w)
     \<and> (\<forall>i. bridge_ok (set (wd_registered w)) (wd_input w i) (wd_bridges w i))"

lemma known_shrinks:
  "known R s \<Longrightarrow> set (dp_routes s') \<subseteq> set (dp_routes s) \<Longrightarrow>
     set (rg_entries (dp_auth_registry s')) \<subseteq> set (rg_entries (dp_auth_registry s)) \<Longrightarrow> known R s'"
  unfolding known_def by blast

lemma bridge_ok_mono: "R \<subseteq> R' \<Longrightarrow> bridge_ok R input bridge \<Longrightarrow> bridge_ok R' input bridge"
  unfolding bridge_ok_def authorised_def by (auto split: option.splits x11_bridge.splits) blast+

lemma prune_known: "dispatcher_ok s \<Longrightarrow> known R s \<Longrightarrow> known R (prune_expired_x11_routes now s)"
  by (rule known_shrinks [OF _ prune_ok(2,3)])

lemma push_complete_setup_cases:
  assumes "\<not> bf_complete b"
  obtains (waiting) "push_complete_setup b chunk = (b\<lparr>bf_bytes := bf_bytes b @ chunk\<rparr>, Ok None)"
    | (failed) err b' where "push_complete_setup b chunk = (b', Err err)"
    | (complete) bb pkt trailing where "push_complete_setup b chunk = (bb, Ok (Some (pkt, trailing)))"
        and "pkt @ trailing = bf_bytes b @ chunk"
proof -
  let ?b1 = "b\<lparr>bf_bytes := bf_bytes b @ chunk\<rparr>"
  show thesis
  proof (cases "length (bf_bytes b @ chunk) > bf_max_setup_bytes b")
    case True
    then show thesis by (intro failed) (simp add: push_complete_setup_def assms)
  next
    case small: False
    show thesis
    proof (cases "required_setup_packet_len (bf_bytes b @ chunk)")
      case (Inl e)
      then show thesis using small by (intro failed) (simp add: push_complete_setup_def assms)
    next
      case (Inr required)
      show thesis
      proof (cases "\<exists>n. required = Some n \<and> n \<le> length (bf_bytes b @ chunk)")
        case True
        then obtain n where n: "required = Some n" "n \<le> length (bf_bytes b @ chunk)" by blast
        show thesis
          using small Inr n by (intro complete [of "?b1\<lparr>bf_bytes := [], bf_complete := True\<rparr>"
            "take n (bf_bytes b @ chunk)" "drop n (bf_bytes b @ chunk)"])
            (simp_all add: push_complete_setup_def assms del: take_append drop_append)
      next
        case False
        then show thesis
          using small Inr by (intro waiting) (auto simp: push_complete_setup_def assms Let_def split: option.splits)
      qed
    qed
  qed
qed

lemma forward_authorised:
  assumes "registry_decision r pkt trailing = (r', Ok (Some (RegisteredForward forward)))"
    and "\<forall>e \<in> set (rg_entries r). \<exists>ep. (xs_channel_id e, ep, xs_auth e) \<in> R"
  shows "authorised R (pkt @ trailing) (rr_channel_id forward)
    (rw_rewritten_setup (rr_rewrite forward) @ rw_trailing_data (rr_rewrite forward))"
proof -
  from assms(1) obtain e setup' req
    where res: "snd (resolve_setup_packet r pkt) = Ok (Some e)"
      and rw: "rewrite_setup_authentication pkt (xs_auth e) = (setup', Ok req)"
      and fwd: "forward = \<lparr>rr_channel_id = xs_channel_id e,
        rr_rewrite = \<lparr>rw_request = req, rw_rewritten_setup = setup', rw_trailing_data = trailing\<rparr>\<rparr>"
    by (cases "resolve_setup_packet r pkt")
       (auto simp: registry_decision_def res_bind_eq_Ok Let_def
        split: sum.splits option.splits prod.splits x11_forwarding_error.splits)
  from res obtain p c where "snd (resolve r p c) = Some e"
    by (auto simp: resolve_setup_packet_def split_beta split: sum.splits)
  then have "e \<in> set (rg_entries r)"
    by (auto simp: resolve_result registry_lookup_def find_Some_iff)
  then obtain ep where reg: "(xs_channel_id e, ep, xs_auth e) \<in> R" using assms(2) by blast
  from rewrite_outcome [OF rw] obtain f tail
    where "setup_packet_ok f" "pkt = encode_setup f @ tail"
      "sp_protocol f = ssh_name (am_protocol (xs_auth e))" "sp_data f = ck_bytes (entry_cookie e)"
      "setup' = encode_setup (with_data (ck_bytes (am_local_cookie (xs_auth e))) f) @ tail"
    by auto
  with reg show ?thesis
    unfolding authorised_def fwd
    by (intro exI [of _ ep] exI [of _ "xs_auth e"] exI [of _ f] exI [of _ "tail @ trailing"])
       (simp add: ssh_name_def)
qed

lemma bridge_read_ok:
  assumes ok: "dispatcher_ok s" and known: "known R s" and "\<not> bf_complete b"
    and run: "bridge_read now read b s = (bridge, s')"
  shows "dispatcher_ok s'" and "known R s'" and "bridge_ok R (bf_bytes b @ read_bytes read) (Some bridge)"
proof -
  let ?s1 = "prune_expired_x11_routes now s"
  let ?r = "dp_auth_registry ?s1"
  have s1: "dispatcher_ok ?s1" "known R ?s1" using ok known by (simp_all add: prune_ok prune_known)
  have "dispatcher_ok s' \<and> known R s' \<and> bridge_ok R (bf_bytes b @ read_bytes read) (Some bridge)"
  proof (cases "\<exists>chunk. read = ReadData chunk \<and> chunk \<noteq> []")
    case False
    then have "s' = s" "\<exists>e. bridge = BridgeFailed e"
      using run by (auto simp: bridge_read_def split: channel_read.splits if_splits)
    then show ?thesis using ok known by (auto simp: bridge_ok_def)
  next
    case True
    then obtain chunk where read: "read = ReadData chunk" "chunk \<noteq> []" by blast
    obtain b' r' result where push: "push_registry_decision b chunk ?r = (b', r', result)"
      by (metis prod_cases3)
    have s': "s' = ?s1\<lparr>dp_auth_registry := r'\<rparr>"
      using run read push by (auto simp: bridge_read_def Let_def split: sum.splits)
    have keeps: "registry_ok r'" "set (rg_entries r') \<subseteq> set (rg_entries ?r)"
      using push_registry_keeps [OF _ push] s1(1) by (auto simp: dispatcher_ok_def)
    have "dispatcher_ok s'" "known R s'"
      using s1 keeps known_shrinks [OF s1(2), of s'] by (auto simp: s' dispatcher_ok_def)
    moreover have "bridge_ok R (bf_bytes b @ chunk) (Some bridge)"
    proof (cases rule: push_complete_setup_cases [OF assms(3), of chunk,
        case_names waiting failed complete])
      case waiting
      then show ?thesis
        using run read assms(3) by (auto simp: bridge_read_def push_registry_decision_def bridge_ok_def Let_def)
    next
      case (failed e b')
      then show ?thesis
        using run read by (auto simp: bridge_read_def push_registry_decision_def bridge_ok_def Let_def)
    next
      case (complete b'' pkt trailing)
      then have dec: "registry_decision ?r pkt trailing = (r', result)"
        using push by (simp add: push_registry_decision_def)
      have br: "bridge = (case result of Err e \<Rightarrow> BridgeFailed (Forwarding e)
          | Ok None \<Rightarrow> BridgeReading b'
          | Ok (Some (RegisteredForward forward)) \<Rightarrow> BridgeRouting forward
          | Ok (Some (RegisteredReject reject)) \<Rightarrow> BridgeRefused (rj_failure_response reject))"
        using run read push by (simp add: bridge_read_def Let_def)
      have "result \<noteq> Ok None"
        using dec by (auto simp: registry_decision_def split_beta res_bind_def Let_def
            split: sum.splits option.splits prod.splits x11_forwarding_error.splits)
      moreover have "authorised R (bf_bytes b @ chunk) (rr_channel_id forward)
          (rw_rewritten_setup (rr_rewrite forward) @ rw_trailing_data (rr_rewrite forward))"
        if "result = Ok (Some (RegisteredForward forward))" for forward
        using forward_authorised [of ?r pkt trailing r' forward R] dec s1(2) complete(2) that
        by (simp add: known_def)
      ultimately show ?thesis
        unfolding br bridge_ok_def by (auto split: sum.splits option.splits x11_registered_setup_decision.splits)
    qed
    ultimately show ?thesis by (simp add: read read_bytes_def)
  qed
  then show "dispatcher_ok s'" "known R s'" "bridge_ok R (bf_bytes b @ read_bytes read) (Some bridge)"
    by blast+
qed

lemma bridge_route_ok:
  assumes ok: "dispatcher_ok s" and known: "known R s"
    and fwd: "bridge_ok R input (Some (BridgeRouting forward))"
    and run: "bridge_route lease connect now forward s = (bridge, s')"
  shows "dispatcher_ok s'" and "known R s'" and "bridge_ok R input (Some bridge)"
proof -
  have s': "s' = prune_expired_x11_routes now s" using run by (simp add: bridge_route_def Let_def)
  then show "dispatcher_ok s'" and k: "known R s'" using ok known by (simp_all add: prune_ok prune_known)
  show "bridge_ok R input (Some bridge)"
  proof (cases "\<exists>e. bridge = BridgeFailed e")
    case False
    then obtain route where "map_of (dp_routes s') (rr_channel_id forward) = Some route"
      and b: "bridge = BridgeConnected (rt_endpoint route)
        (rw_rewritten_setup (rr_rewrite forward) @ rw_trailing_data (rr_rewrite forward))"
      using run by (auto simp: bridge_route_def Let_def split: option.splits sum.splits)
    then have "\<exists>auth. (rr_channel_id forward, rt_endpoint route, auth) \<in> R"
      using k by (force simp: known_def dest!: map_of_SomeD)
    then show ?thesis using fwd by (auto simp: bridge_ok_def b)
  qed (auto simp: bridge_ok_def)
qed

lemma dispatch_step_ok:
  assumes "world_ok w"
  shows "world_ok (dispatch_step ev w)"
proof -
  let ?s = "wd_dispatcher w" and ?R = "set (wd_registered w)"
  have ok: "dispatcher_ok ?s" and known: "known ?R ?s"
    and bridges: "\<And>i. bridge_ok ?R (wd_input w i) (wd_bridges w i)"
    using assms by (simp_all add: world_ok_def)
  show ?thesis
  proof (cases ev)
    case (Register m n n' route_id ep auth single timeout owner)
    have "known (insert (route_id, ep, auth) ?R)
        (dispatcher_register m n n' route_id ep auth single timeout owner ?s)"
      using known register_entries(2,3) [OF ok] unfolding known_def by (metis insertCI)
    moreover have "bridge_ok (insert (route_id, ep, auth) ?R) (wd_input w i) (wd_bridges w i)" for i
      using bridges by (rule bridge_ok_mono [rotated]) blast
    ultimately show ?thesis
      using register_entries(1) [OF ok] by (simp add: Register dispatch_step_def world_ok_def)
  next
    case (QueryActive now)
    then show ?thesis using ok known bridges
      by (simp add: dispatch_step_def world_ok_def has_active_routes_def Let_def prune_ok prune_known)
  next
    case (DropGuard route_id)
    then show ?thesis using ok bridges known_shrinks [OF known remove_ok(2,3)]
      by (simp add: dispatch_step_def world_ok_def remove_ok)
  next
    case (OpenBridge i)
    have "bridge_ok ?R (wd_input w i) (Some bridge_start)" if "wd_bridges w i = None"
      using bridges [of i] that
      by (simp add: bridge_ok_def bridge_start_def setup_buffer_new_def with_max_setup_bytes_def)
    then show ?thesis using assms
      by (cases "wd_bridges w i") (simp_all add: OpenBridge dispatch_step_def world_ok_def)
  next
    case (BridgeTurn i now read)
    show ?thesis
    proof (cases "\<exists>b. wd_bridges w i = Some (BridgeReading b)")
      case True
      then obtain b where b: "wd_bridges w i = Some (BridgeReading b)" by blast
      then have buf: "\<not> bf_complete b" "bf_bytes b = wd_input w i"
        using bridges [of i] by (simp_all add: bridge_ok_def)
      obtain bridge s' where run: "bridge_read now read b ?s = (bridge, s')" by fastforce
      note bridge_read_ok [OF ok known buf(1) run]
      then show ?thesis using b buf run bridges by (simp add: BridgeTurn dispatch_step_def world_ok_def)
    next
      case False
      then have "dispatch_step ev w = w"
        by (auto simp: BridgeTurn dispatch_step_def split: option.splits x11_bridge.splits)
      then show ?thesis using assms by simp
    qed
  next
    case (BridgeConnect i now lease connect)
    show ?thesis
    proof (cases "\<exists>f. wd_bridges w i = Some (BridgeRouting f)")
      case True
      then obtain forward where b: "wd_bridges w i = Some (BridgeRouting forward)" by blast
      obtain bridge s' where run: "bridge_route lease connect now forward ?s = (bridge, s')" by fastforce
      note bridge_route_ok [OF ok known _ run, of "wd_input w i"]
      then show ?thesis
        using b run bridges bridges [of i] by (simp add: BridgeConnect dispatch_step_def world_ok_def)
    next
      case False
      then have "dispatch_step ev w = w"
        by (auto simp: BridgeConnect dispatch_step_def split: option.splits x11_bridge.splits)
      then show ?thesis using assms by simp
    qed
  qed
qed

lemma world_start_ok: "world_ok world_start"
  by (simp add: world_ok_def world_start_def dispatcher_ok_def dispatcher_new_def registry_new_def
      registry_ok_def known_def bridge_ok_def)

lemma reachable_world_ok: "x11_reachable w \<Longrightarrow> world_ok w"
  by (induction rule: x11_reachable.induct) (simp_all add: world_start_ok dispatch_step_ok)

text \<open>
  C8: Under every interleaving of registrations, removals and bridges, a channel is connected to an
  X server only if it began with a setup packet that carries the fake cookie of a registration of
  a route to that server; the server then gets what the channel sent, with nothing but the cookie
  exchanged for the local one.
\<close>

theorem x11_bridges_authenticated:
  assumes "x11_reachable w" and "wd_bridges w i = Some (BridgeConnected ep out)"
  shows "\<exists>route_id ep' auth auth' f t.
    (route_id, ep', auth) \<in> set (wd_registered w) \<and> (route_id, ep, auth') \<in> set (wd_registered w)
    \<and> setup_packet_ok f \<and> sp_protocol f = ssh_name MitMagicCookie1
    \<and> sp_data f = ck_bytes (am_fake_cookie auth) \<and> wd_input w i = encode_setup f @ t
    \<and> out = encode_setup (with_data (ck_bytes (am_local_cookie auth)) f) @ t"
proof -
  have "bridge_ok (set (wd_registered w)) (wd_input w i) (Some (BridgeConnected ep out))"
    using reachable_world_ok [OF assms(1)] assms(2) by (metis world_ok_def)
  then show ?thesis by (auto simp: bridge_ok_def authorised_def) blast
qed

text \<open>
  An expired or removed route opens no connection: the cookie of a packet resolves at a time
  only to a route that is registered and has not expired by then, and so is the route over which
  the channel is then connected.
\<close>

theorem x11_routes_are_live:
  assumes "x11_reachable w"
  shows "(\<forall>b read forward. wd_bridges w i = Some (BridgeReading b)
        \<and> wd_bridges (dispatch_step (BridgeTurn i now read) w) i = Some (BridgeRouting forward)
        \<longrightarrow> (\<exists>route. (rr_channel_id forward, route) \<in> set (dp_routes (wd_dispatcher w))
              \<and> \<not> route_expired now route))
    \<and> (\<forall>forward lease connect ep out. wd_bridges w i = Some (BridgeRouting forward)
        \<and> wd_bridges (dispatch_step (BridgeConnect i now lease connect) w) i = Some (BridgeConnected ep out)
        \<longrightarrow> (\<exists>route. (rr_channel_id forward, route) \<in> set (dp_routes (wd_dispatcher w))
              \<and> \<not> route_expired now route \<and> rt_endpoint route = ep))"
proof -
  let ?s = "wd_dispatcher w" and ?s1 = "prune_expired_x11_routes now (wd_dispatcher w)"
  have ok: "dispatcher_ok ?s" using reachable_world_ok [OF assms] by (simp add: world_ok_def)
  note pruned = prune_ok [OF ok, where now = now]
  have "\<exists>route. (rr_channel_id forward, route) \<in> set (dp_routes ?s) \<and> \<not> route_expired now route"
    if b: "wd_bridges w i = Some (BridgeReading b)"
      and r: "wd_bridges (dispatch_step (BridgeTurn i now read) w) i = Some (BridgeRouting forward)" for b read forward
  proof -
    have "fst (bridge_read now read b ?s) = BridgeRouting forward"
      using b r by (simp add: dispatch_step_def split_beta)
    then obtain chunk where "snd (snd (push_registry_decision b chunk (dp_auth_registry ?s1)))
        = Ok (Some (RegisteredForward forward))"
      by (auto simp: bridge_read_def Let_def split_beta
          split: channel_read.splits if_splits sum.splits option.splits x11_registered_setup_decision.splits)
    then obtain pkt trailing where "snd (registry_decision (dp_auth_registry ?s1) pkt trailing)
        = Ok (Some (RegisteredForward forward))"
      by (auto simp: push_registry_decision_def split: prod.splits sum.splits option.splits)
    then obtain r' where "registry_decision (dp_auth_registry ?s1) pkt trailing
        = (r', Ok (Some (RegisteredForward forward)))" by (metis prod.collapse)
    then have "authorised {(xs_channel_id e, ep, xs_auth e) |e ep. e \<in> set (rg_entries (dp_auth_registry ?s1))}
        (pkt @ trailing) (rr_channel_id forward)
        (rw_rewritten_setup (rr_rewrite forward) @ rw_trailing_data (rr_rewrite forward))"
      by (rule forward_authorised) blast
    then have "rr_channel_id forward \<in> xs_channel_id ` set (rg_entries (dp_auth_registry ?s1))"
      by (auto simp: authorised_def)
    then have "rr_channel_id forward \<in> fst ` set (dp_routes ?s1)"
      using pruned(1) by (auto simp: dispatcher_ok_def)
    then show ?thesis using pruned(2,4) by fastforce
  qed
  moreover have "\<exists>route. (rr_channel_id forward, route) \<in> set (dp_routes ?s)
        \<and> \<not> route_expired now route \<and> rt_endpoint route = ep"
    if b: "wd_bridges w i = Some (BridgeRouting forward)"
      and r: "wd_bridges (dispatch_step (BridgeConnect i now lease connect) w) i = Some (BridgeConnected ep out)" for forward lease connect ep out
  proof -
    have "fst (bridge_route lease connect now forward ?s) = BridgeConnected ep out"
      using b r by (simp add: dispatch_step_def split_beta)
    then obtain route where "map_of (dp_routes ?s1) (rr_channel_id forward) = Some route" "rt_endpoint route = ep"
      by (auto simp: bridge_route_def Let_def split: option.splits sum.splits)
    then show ?thesis using pruned(2,4) by (fastforce dest!: map_of_SomeD)
  qed
  ultimately show ?thesis by blast
qed

text \<open>A connection for the witnesses: one route, one channel.\<close>

definition demo_route :: bytes where "demo_route = [82]"

definition demo_forward :: "bytes x11_registered_setup_rewrite" where
  "demo_forward =
     \<lparr>rr_channel_id = demo_route, rr_rewrite = \<lparr>rw_request = setup_request_of demo_setup,
        rw_rewritten_setup = encode_setup (with_data [9, 9, 9, 9, 9, 9] demo_setup), rw_trailing_data = []\<rparr>\<rparr>"

definition demo_registered :: "unit x11_world" where
  "demo_registered = fold dispatch_step
     [Register 1000 0 0 demo_route (UnixSocketEndpoint [47]) demo_auth True (Some 10) None, OpenBridge 0] world_start"

definition demo_routed :: "unit x11_world" where
  "demo_routed = dispatch_step (BridgeTurn 0 5 (ReadData (encode_setup demo_setup))) demo_registered"

definition demo_connect :: "nat \<Rightarrow> unit dispatch_event" where
  "demo_connect now = BridgeConnect 0 now (\<lambda>owner channel. Ok ()) (\<lambda>endpoint. Ok ())"

lemma demo_registered_state:
  "wd_bridges demo_registered = (\<lambda>i. None)(0 := Some bridge_start)"
  "dp_auth_registry (wd_dispatcher demo_registered) =
     \<lparr>rg_entries = [\<lparr>xs_channel_id = demo_route, xs_auth = demo_auth, xs_single_connection = True\<rparr>]\<rparr>"
  "dp_routes (wd_dispatcher demo_registered) =
     [(demo_route, \<lparr>rt_endpoint = UnixSocketEndpoint [47], rt_expires_at = Some 10, rt_connection_owner = None\<rparr>)]"
  by (simp_all add: demo_registered_def dispatch_step_def world_start_def dispatcher_register_def
      dispatcher_new_def registry_new_def registry_insert_def prune_expired_x11_routes_def)

lemma demo_reachable: "x11_reachable demo_registered" "x11_reachable demo_routed"
    "x11_reachable (dispatch_step (demo_connect 6) demo_routed)"
  unfolding demo_registered_def demo_routed_def
  by (simp_all add: x11_reachable.step x11_reachable.start)

lemma demo_push:
  "push_complete_setup setup_buffer_new (encode_setup demo_setup) =
     (setup_buffer_new\<lparr>bf_bytes := [], bf_complete := True\<rparr>, Ok (Some (encode_setup demo_setup, [])))"
proof -
  have total: "setup_packet_total_len (encode_setup demo_setup) = Ok (Some (length (encode_setup demo_setup)))"
    using parse_encode_setup(2) [OF demo_setup_ok, of "[]"] by simp
  then show ?thesis
    using push_waiting [OF _ total, of setup_buffer_new "encode_setup demo_setup" "[]" "[]"]
      total_len_bounds(2) [OF total]
    by (simp add: setup_buffer_new_def with_max_setup_bytes_def DEFAULT_MAX_SETUP_PACKET_BYTES_def)
qed

lemma demo_decision:
  "registry_decision \<lparr>rg_entries = [\<lparr>xs_channel_id = demo_route, xs_auth = demo_auth, xs_single_connection = True\<rparr>]\<rparr>
     (encode_setup demo_setup) [] = (\<lparr>rg_entries = []\<rparr>, Ok (Some (RegisteredForward demo_forward)))"
  by (subst registry_decision_encoded [OF demo_setup_ok])
     (auto simp: demo_setup_def registry_lookup_def demo_auth_def with_fake_cookie_def resolve_def
        vec_remove_def demo_forward_def split: if_splits)

lemma demo_routed_state:
  "wd_bridges demo_routed = (\<lambda>i. None)(0 := Some (BridgeRouting demo_forward))"
  "dp_routes (wd_dispatcher demo_routed) =
     [(demo_route, \<lparr>rt_endpoint = UnixSocketEndpoint [47], rt_expires_at = Some 10, rt_connection_owner = None\<rparr>)]"
  "wd_input demo_routed 0 = encode_setup demo_setup"
proof -
  have prune: "prune_expired_x11_routes 5 (wd_dispatcher demo_registered) = wd_dispatcher demo_registered"
    by (simp add: prune_expired_x11_routes_def demo_registered_state route_expired_def)
  have ne: "encode_setup demo_setup \<noteq> []" by (simp add: encode_setup_def)
  have input: "wd_input demo_registered 0 = []"
    by (simp add: demo_registered_def dispatch_step_def world_start_def)
  show "wd_bridges demo_routed = (\<lambda>i. None)(0 := Some (BridgeRouting demo_forward))"
    "dp_routes (wd_dispatcher demo_routed) =
       [(demo_route, \<lparr>rt_endpoint = UnixSocketEndpoint [47], rt_expires_at = Some 10, rt_connection_owner = None\<rparr>)]"
    "wd_input demo_routed 0 = encode_setup demo_setup"
    using ne input
    by (simp_all add: demo_routed_def dispatch_step_def demo_registered_state bridge_start_def bridge_read_def
        prune Let_def push_registry_decision_def demo_push demo_decision read_bytes_def)
qed

lemma demo_connected:
  "wd_bridges (dispatch_step (demo_connect 6) demo_routed) 0 =
     Some (BridgeConnected (UnixSocketEndpoint [47]) (encode_setup (with_data [9, 9, 9, 9, 9, 9] demo_setup)))"
  by (simp add: dispatch_step_def demo_connect_def demo_routed_state bridge_route_def
      prune_expired_x11_routes_def route_expired_def demo_forward_def)

theorem x11_bridges_authenticated_witness:
  "\<exists>route_id ep' auth auth' f t.
    (route_id, ep', auth) \<in> set (wd_registered (dispatch_step (demo_connect 6) demo_routed))
    \<and> (route_id, UnixSocketEndpoint [47], auth') \<in> set (wd_registered (dispatch_step (demo_connect 6) demo_routed))
    \<and> setup_packet_ok f \<and> sp_protocol f = ssh_name MitMagicCookie1
    \<and> sp_data f = ck_bytes (am_fake_cookie auth)
    \<and> wd_input (dispatch_step (demo_connect 6) demo_routed) 0 = encode_setup f @ t
    \<and> encode_setup (with_data [9, 9, 9, 9, 9, 9] demo_setup)
       = encode_setup (with_data (ck_bytes (am_local_cookie auth)) f) @ t"
  by (rule x11_bridges_authenticated [OF demo_reachable(3) demo_connected])

theorem x11_routes_are_live_witness:
  "\<exists>route. (demo_route, route) \<in> set (dp_routes (wd_dispatcher demo_routed)) \<and> \<not> route_expired 6 route
     \<and> rt_endpoint route = UnixSocketEndpoint [47]"
proof -
  have "\<exists>route. (rr_channel_id demo_forward, route) \<in> set (dp_routes (wd_dispatcher demo_routed))
      \<and> \<not> route_expired 6 route \<and> rt_endpoint route = UnixSocketEndpoint [47]"
    by (rule x11_routes_are_live [OF demo_reachable(2), THEN conjunct2, rule_format, of 0 demo_forward 6])
       (use demo_connected in \<open>auto simp: demo_routed_state(1) demo_connect_def\<close>)
  then show ?thesis by (simp add: demo_forward_def)
qed

end
