(* ===== verification/Node_Events.thy ===== *)
theory Node_Events
  imports Rust_Str "HOL-Library.AList"
begin

text \<open>
  Events about the nodes of the connection tree (\<^verbatim>\<open>hapcli-ssh/src/router/events.rs\<close>): the sequencer
  that numbers them, the emitter that finds the node of a connection, and the bounded mailboxes
  from which the user interface takes them. A mailbox is coalescing and may drop events that only
  report a level, but no event that carries one-shot effects.
\<close>

subsection \<open>The source's operations\<close>

datatype connection_state =
    StConnecting | StActive | StIdle | StLinkDown | StReconnecting | StDisconnecting | StDisconnected
  | StError bytes

datatype node_readiness = NodeReady | NodeConnecting | NodeError | NodeDisconnected

datatype node_state_event =
    ConnectionStatusChanged bytes bytes "bytes list" nat
  | ConnectionStateChanged bytes nat node_readiness bytes
  | SftpReady bytes nat bool "bytes option"
  | SharedSftpSessionChanged bytes nat bytes "nat option" bool
  | TerminalEndpointChanged bytes nat bool

definition readiness_for_connection_state :: "connection_state \<Rightarrow> node_readiness" where
  "readiness_for_connection_state st =
     (case st of
        StActive \<Rightarrow> NodeReady | StIdle \<Rightarrow> NodeReady
      | StConnecting \<Rightarrow> NodeConnecting | StReconnecting \<Rightarrow> NodeConnecting
      | StError _ \<Rightarrow> NodeError | StLinkDown \<Rightarrow> NodeError
      | StDisconnecting \<Rightarrow> NodeDisconnected | StDisconnected \<Rightarrow> NodeDisconnected)"

definition node_event_coalesce_key :: "node_state_event \<Rightarrow> bytes \<times> nat" where
  "node_event_coalesce_key ev =
     (case ev of
        ConnectionStatusChanged connection_id _ _ _ \<Rightarrow> (connection_id, 0)
      | ConnectionStateChanged node_id _ _ _ \<Rightarrow> (node_id, 1)
      | SftpReady node_id _ _ _ \<Rightarrow> (node_id, 2)
      | TerminalEndpointChanged node_id _ _ \<Rightarrow> (node_id, 3)
      | SharedSftpSessionChanged node_id _ _ _ _ \<Rightarrow> (node_id, 4))"

definition node_event_requires_reliable_delivery :: "node_state_event \<Rightarrow> bool" where
  "node_event_requires_reliable_delivery ev \<longleftrightarrow>
     (case ev of
        ConnectionStatusChanged _ status _ _ \<Rightarrow>
          status = str_lit ''link_down'' \<or> status = str_lit ''disconnected''
      | ConnectionStateChanged _ _ st _ \<Rightarrow> st = NodeError \<or> st = NodeDisconnected
      | SharedSftpSessionChanged _ _ _ _ _ \<Rightarrow> True
      | SftpReady _ _ _ _ \<Rightarrow> False
      | TerminalEndpointChanged _ _ _ \<Rightarrow> False)"

abbreviation reliable :: "node_state_event \<Rightarrow> bool" where
  "reliable \<equiv> node_event_requires_reliable_delivery"

text \<open>A mailbox; it is alive while its receiver exists, and calls to its wake are counted.\<close>

record node_event_mailbox =
  mb_queue :: "node_state_event list"
  mb_capacity :: nat
  mb_has_wake :: bool
  mb_alive :: bool
  mb_wakes :: nat

text \<open>The part of \<^verbatim>\<open>dispatch\<close> that offers an event to one mailbox.\<close>

definition remove_first :: "('a \<Rightarrow> bool) \<Rightarrow> 'a list \<Rightarrow> 'a list" where
  "remove_first P xs = (case position P xs of Some i \<Rightarrow> snd (vec_remove i xs) | None \<Rightarrow> xs)"

definition mailbox_offer :: "node_state_event \<Rightarrow> node_event_mailbox \<Rightarrow> node_event_mailbox" where
  "mailbox_offer ev m =
     (if ev \<in> set (mb_queue m) then m
      else
        let q1 = (if \<not> reliable ev
                  then remove_first (\<lambda>queued. \<not> reliable queued
                         \<and> node_event_coalesce_key queued = node_event_coalesce_key ev) (mb_queue m)
                  else mb_queue m);
            q2 = (if length q1 \<ge> mb_capacity m then remove_first (\<lambda>queued. \<not> reliable queued) q1 else q1) in
        m\<lparr>mb_queue := q2 @ [ev], mb_wakes := mb_wakes m + (if mb_has_wake m then 1 else 0)\<rparr>)"

definition mailbox_try_recv :: "node_event_mailbox \<Rightarrow> node_event_mailbox \<times> node_state_event option" where
  "mailbox_try_recv m =
     (case mb_queue m of [] \<Rightarrow> (m, None) | ev # rest \<Rightarrow> (m\<lparr>mb_queue := rest\<rparr>, Some ev))"

text \<open>A listener of the unbounded kind: whether its receiver exists, and what it was sent.\<close>

record node_event_emitter =
  em_generations :: "(bytes \<times> nat) list"
  em_connection_nodes :: "(bytes \<times> bytes) list"
  em_listeners :: "(bool \<times> node_state_event list) list"
  em_mailbox_listeners :: "(nat \<times> node_event_mailbox) list"
  em_next_listener_id :: nat

definition emitter_new :: node_event_emitter where
  "emitter_new =
     \<lparr>em_generations = [], em_connection_nodes = [], em_listeners = [], em_mailbox_listeners = [],
      em_next_listener_id = 0\<rparr>"

definition sequencer_next :: "bytes \<Rightarrow> node_event_emitter \<Rightarrow> node_event_emitter \<times> nat" where
  "sequencer_next node_id em =
     (let generation = (case map_of (em_generations em) node_id of Some g \<Rightarrow> g | None \<Rightarrow> 0) + 1 in
      (em\<lparr>em_generations := AList.update node_id generation (em_generations em)\<rparr>, generation))"

definition sequencer_current :: "bytes \<Rightarrow> node_event_emitter \<Rightarrow> nat" where
  "sequencer_current node_id em = (case map_of (em_generations em) node_id of Some g \<Rightarrow> g | None \<Rightarrow> 0)"

definition sequencer_reset :: "bytes \<Rightarrow> node_event_emitter \<Rightarrow> node_event_emitter" where
  "sequencer_reset node_id em = em\<lparr>em_generations := AList.delete node_id (em_generations em)\<rparr>"

definition subscribe :: "node_event_emitter \<Rightarrow> node_event_emitter" where
  "subscribe em = em\<lparr>em_listeners := em_listeners em @ [(True, [])]\<rparr>"

text \<open>A capacity of zero is refused by an assertion.\<close>

definition subscribe_bounded_with_wake ::
  "nat \<Rightarrow> bool \<Rightarrow> node_event_emitter \<Rightarrow> (node_event_emitter \<times> nat) option" where
  "subscribe_bounded_with_wake capacity wake em =
     (if capacity = 0 then None
      else
        let listener_id = em_next_listener_id em in
        Some (em\<lparr>em_next_listener_id := listener_id + 1,
                 em_mailbox_listeners := AList.update listener_id
                   \<lparr>mb_queue = [], mb_capacity = capacity, mb_has_wake = wake, mb_alive = True, mb_wakes = 0\<rparr>
                   (em_mailbox_listeners em)\<rparr>, listener_id))"

definition drop_subscription :: "nat \<Rightarrow> node_event_emitter \<Rightarrow> node_event_emitter" where
  "drop_subscription listener_id em =
     em\<lparr>em_mailbox_listeners := AList.delete listener_id (em_mailbox_listeners em)\<rparr>"

definition dispatch :: "node_state_event \<Rightarrow> node_event_emitter \<Rightarrow> node_event_emitter" where
  "dispatch ev em =
     em\<lparr>em_listeners := map (\<lambda>(open, sent). (open, sent @ [ev])) (filter fst (em_listeners em)),
        em_mailbox_listeners :=
          map (\<lambda>(listener_id, m). (listener_id, mailbox_offer ev m))
            (filter (\<lambda>(listener_id, m). mb_alive m) (em_mailbox_listeners em))\<rparr>"

definition register_node :: "bytes \<Rightarrow> bytes \<Rightarrow> node_event_emitter \<Rightarrow> node_event_emitter" where
  "register_node connection_id node_id em =
     em\<lparr>em_connection_nodes := AList.update connection_id node_id (em_connection_nodes em)\<rparr>"

definition unregister_node :: "bytes \<Rightarrow> node_event_emitter \<Rightarrow> node_event_emitter \<times> bytes option" where
  "unregister_node connection_id em =
     (em\<lparr>em_connection_nodes := AList.delete connection_id (em_connection_nodes em)\<rparr>,
      map_of (em_connection_nodes em) connection_id)"

definition node_id_for_connection :: "bytes \<Rightarrow> node_event_emitter \<Rightarrow> bytes option" where
  "node_id_for_connection connection_id em = map_of (em_connection_nodes em) connection_id"

text \<open>Events of a node: numbered by the sequencer, then dispatched; none without a node.\<close>

definition emit_for_node ::
  "bytes \<Rightarrow> (bytes \<Rightarrow> nat \<Rightarrow> node_state_event) \<Rightarrow> node_event_emitter
     \<Rightarrow> node_event_emitter \<times> node_state_event option" where
  "emit_for_node connection_id make_event em =
     (case node_id_for_connection connection_id em of
        None \<Rightarrow> (em, None)
      | Some node_id \<Rightarrow>
          (let (em1, generation) = sequencer_next node_id em; ev = make_event node_id generation in
           (dispatch ev em1, Some ev)))"

definition emit_connection_state_changed ::
  "bytes \<Rightarrow> node_readiness \<Rightarrow> bytes \<Rightarrow> node_event_emitter \<Rightarrow> node_event_emitter \<times> node_state_event option" where
  "emit_connection_state_changed connection_id st reason em =
     emit_for_node connection_id (\<lambda>node_id generation. ConnectionStateChanged node_id generation st reason) em"

definition emit_state_from_connection ::
  "bytes \<Rightarrow> connection_state \<Rightarrow> bytes \<Rightarrow> node_event_emitter \<Rightarrow> node_event_emitter \<times> node_state_event option" where
  "emit_state_from_connection connection_id st reason em =
     (let reason' = (case st of
            StError e \<Rightarrow> if reason = [] then e else reason @ str_lit '': '' @ e
          | StLinkDown \<Rightarrow> if reason = [] then str_lit ''link down'' else reason
          | _ \<Rightarrow> reason) in
      emit_connection_state_changed connection_id (readiness_for_connection_state st) reason' em)"

definition emit_connection_status_changed ::
  "nat \<Rightarrow> bytes \<Rightarrow> bytes \<Rightarrow> bytes list \<Rightarrow> node_event_emitter \<Rightarrow> node_event_emitter \<times> node_state_event" where
  "emit_connection_status_changed now_ms connection_id status affected_children em =
     (let ev = ConnectionStatusChanged connection_id status affected_children now_ms in
      (dispatch ev em, ev))"

definition emit_sftp_ready ::
  "bytes \<Rightarrow> bool \<Rightarrow> bytes option \<Rightarrow> node_event_emitter \<Rightarrow> node_event_emitter \<times> node_state_event option" where
  "emit_sftp_ready connection_id ready cwd em =
     emit_for_node connection_id (\<lambda>node_id generation. SftpReady node_id generation ready cwd) em"

definition emit_terminal_endpoint_changed ::
  "bytes \<Rightarrow> bool \<Rightarrow> node_event_emitter \<Rightarrow> node_event_emitter \<times> node_state_event option" where
  "emit_terminal_endpoint_changed connection_id available em =
     emit_for_node connection_id (\<lambda>node_id generation. TerminalEndpointChanged node_id generation available) em"

subsection \<open>What a mailbox keeps\<close>

text \<open>A run of a mailbox: events offered to it and calls to receive, with what was received.\<close>

datatype mailbox_step = Offer node_state_event | Receive

primrec mailbox_run_step ::
  "mailbox_step \<Rightarrow> node_event_mailbox \<times> node_state_event list \<Rightarrow> node_event_mailbox \<times> node_state_event list" where
  "mailbox_run_step (Offer ev) s = (mailbox_offer ev (fst s), snd s)"
| "mailbox_run_step Receive s =
     (let (m', r) = mailbox_try_recv (fst s) in (m', snd s @ (case r of Some ev \<Rightarrow> [ev] | None \<Rightarrow> [])))"

fun offered :: "mailbox_step list \<Rightarrow> node_state_event list" where
  "offered [] = []"
| "offered (Offer ev # steps) = ev # offered steps"
| "offered (Receive # steps) = offered steps"

lemma offered_append [simp]: "offered (xs @ ys) = offered xs @ offered ys"
  by (induction xs rule: offered.induct) simp_all

lemma remove_first_facts:
  "subseq (remove_first P xs) xs"
  "(\<And>x. P x \<Longrightarrow> \<not> Q x) \<Longrightarrow> filter Q (remove_first P xs) = filter Q xs"
  "\<exists>x \<in> set xs. P x \<Longrightarrow> length (remove_first P xs) = length xs - 1"
  "\<not> (\<exists>x \<in> set xs. P x) \<Longrightarrow> remove_first P xs = xs"
  using vec_remove_facts(6,5,3) [of P xs] position_None [of P xs]
  by (auto simp: remove_first_def split: option.splits)

lemma mailbox_offer_queue:
  assumes "ev \<notin> set (mb_queue m)"
  obtains q where "mb_queue (mailbox_offer ev m) = q @ [ev]" and "subseq q (mb_queue m)"
    and "filter reliable q = filter reliable (mb_queue m)"
    and "length q < mb_capacity m \<or> length q = length (filter reliable q)
         \<or> length q < length (mb_queue m)"
    and "mb_capacity (mailbox_offer ev m) = mb_capacity m"
proof -
  let ?P = "\<lambda>queued. \<not> reliable queued \<and> node_event_coalesce_key queued = node_event_coalesce_key ev"
  define q1 where "q1 = (if \<not> reliable ev then remove_first ?P (mb_queue m) else mb_queue m)"
  define q2 where "q2 = (if length q1 \<ge> mb_capacity m then remove_first (\<lambda>queued. \<not> reliable queued) q1 else q1)"
  have q1: "subseq q1 (mb_queue m)" "filter reliable q1 = filter reliable (mb_queue m)"
    using remove_first_facts(1) [of ?P "mb_queue m"] remove_first_facts(2) [of ?P reliable "mb_queue m"] by (auto simp: q1_def)
  have q2: "subseq q2 q1" "filter reliable q2 = filter reliable q1"
    using remove_first_facts(1) [of "\<lambda>queued. \<not> reliable queued" q1]
      remove_first_facts(2) [of "\<lambda>queued. \<not> reliable queued" reliable q1] by (auto simp: q2_def)
  have "length q2 < mb_capacity m \<or> length q2 = length (filter reliable q2) \<or> length q2 < length (mb_queue m)"
  proof (cases "length q1 \<ge> mb_capacity m")
    case True
    show ?thesis
    proof (cases "\<exists>x \<in> set q1. \<not> reliable x")
      case found: True
      then have "length q2 = length q1 - 1" "q1 \<noteq> []"
        using True remove_first_facts(3) [of q1 "\<lambda>queued. \<not> reliable queued"] by (auto simp: q2_def)
      then show ?thesis using list_emb_length [OF q1(1)] by (cases q1) auto
    next
      case False
      then have "q2 = q1" "filter reliable q1 = q1"
        using True remove_first_facts(4) [of q1 "\<lambda>queued. \<not> reliable queued"]
        by (auto simp: q2_def filter_id_conv)
      then show ?thesis by simp
    qed
  qed (simp add: q2_def)
  moreover have "mb_queue (mailbox_offer ev m) = q2 @ [ev]" "mb_capacity (mailbox_offer ev m) = mb_capacity m"
    using assms by (simp_all add: mailbox_offer_def q1_def q2_def Let_def)
  ultimately show thesis
    using that [of q2] q1 q2 subseq_order.trans [OF q2(1) q1(1)] by simp
qed

definition mailbox_new :: "nat \<Rightarrow> bool \<Rightarrow> node_event_mailbox" where
  "mailbox_new capacity wake =
     \<lparr>mb_queue = [], mb_capacity = capacity, mb_has_wake = wake, mb_alive = True, mb_wakes = 0\<rparr>"

definition mailbox_inv :: "node_state_event list \<Rightarrow> nat \<Rightarrow> node_event_mailbox \<times> node_state_event list \<Rightarrow> bool" where
  "mailbox_inv sent capacity s \<longleftrightarrow>
     (let q = mb_queue (fst s) in
      mb_capacity (fst s) = capacity \<and> subseq (snd s @ q) sent
      \<and> filter reliable (snd s @ q) = filter reliable sent
      \<and> length q \<le> max capacity (length (filter reliable q) + 1))"

lemma mailbox_inv_offer:
  assumes inv: "mailbox_inv sent capacity s" and fresh: "ev \<notin> set sent"
  shows "mailbox_inv (sent @ [ev]) capacity (mailbox_run_step (Offer ev) s)"
proof -
  obtain m received where s: "s = (m, received)" by fastforce
  have sub: "subseq (received @ mb_queue m) sent"
    and rel: "filter reliable (received @ mb_queue m) = filter reliable sent"
    and len: "length (mb_queue m) \<le> max capacity (length (filter reliable (mb_queue m)) + 1)"
    and cap: "mb_capacity m = capacity"
    using inv by (simp_all add: mailbox_inv_def s Let_def)
  have "ev \<notin> set (mb_queue m)"
    using fresh list_emb_set [OF sub] by auto
  then obtain q where q: "mb_queue (mailbox_offer ev m) = q @ [ev]" "subseq q (mb_queue m)"
    "filter reliable q = filter reliable (mb_queue m)"
    "length q < mb_capacity m \<or> length q = length (filter reliable q) \<or> length q < length (mb_queue m)"
    "mb_capacity (mailbox_offer ev m) = mb_capacity m"
    by (rule mailbox_offer_queue)
  have "subseq (received @ q) (received @ mb_queue m)" using q(2) by (intro list_emb_append_mono) simp_all
  then have "subseq (received @ q) sent" using sub by (rule subseq_order.trans)
  then have "subseq (received @ q @ [ev]) (sent @ [ev])"
    using list_emb_append_mono [of "(=)" "received @ q" sent "[ev]" "[ev]"] by simp
  moreover have "length (q @ [ev]) \<le> max capacity (length (filter reliable (q @ [ev])) + 1)"
    using q(3,4) len cap by (auto simp: max_def split: if_splits)
  ultimately show ?thesis using q rel cap by (simp add: mailbox_inv_def s Let_def)
qed

lemma mailbox_inv_receive:
  "mailbox_inv sent capacity s \<Longrightarrow> mailbox_inv sent capacity (mailbox_run_step Receive s)"
  by (cases "mb_queue (fst s)") (auto simp: mailbox_inv_def mailbox_try_recv_def Let_def split: if_splits)

lemma mailbox_inv_run:
  "distinct (offered steps) \<Longrightarrow>
     mailbox_inv (offered steps) capacity (fold mailbox_run_step steps (mailbox_new capacity wake, []))"
proof (induction steps rule: rev_induct)
  case Nil
  then show ?case by (simp add: mailbox_inv_def mailbox_new_def)
next
  case (snoc step steps)
  then show ?case
    by (cases step) (simp_all add: mailbox_inv_offer mailbox_inv_receive del: mailbox_run_step.simps)
qed



subsection \<open>Numbering\<close>

text \<open>Every event of a node carries the number after the one before.\<close>

lemma emit_for_node_numbers:
  assumes "node_id_for_connection connection_id em = Some node_id"
  shows "snd (emit_for_node connection_id make_event em)
           = Some (make_event node_id (sequencer_current node_id em + 1))"
    and "sequencer_current node_id (fst (emit_for_node connection_id make_event em))
           = sequencer_current node_id em + 1"
  using assms by (simp_all add: emit_for_node_def sequencer_next_def sequencer_current_def dispatch_def
      Let_def update_conv')

end
