(* ===== verification/Sftp_Slot.thy ===== *)
theory Sftp_Slot
  imports Prelude
begin

text \<open>
  The SFTP session that the users of an SSH connection share (\<^verbatim>\<open>SharedSftpState\<close> and the
  operations of \<^verbatim>\<open>SshConnectionHandle\<close> on it, \<^verbatim>\<open>hapcli-ssh/src/connection_registry.rs\<close>). The first
  task that needs the session opens it while the others wait for a notification; clearing the
  session starts a new generation. Each section under the lock is one operation, and the world
  interleaves any number of tasks. Whether opening a session succeeds comes from the surroundings.
\<close>

subsection \<open>The source's operations\<close>

text \<open>A notifier is known by its number; a session by whatever identifies it.\<close>

datatype 's shared_sftp_state = SharedEmpty | SharedInitializing nat nat | SharedReady 's

record sftp_session_state =
  ss_ready :: bool
  ss_cwd :: "bytes option"

definition sftp_session_state_default :: sftp_session_state where
  "sftp_session_state_default = \<lparr>ss_ready = False, ss_cwd = None\<rparr>"

record 's sftp_slot =
  sl_state :: "'s shared_sftp_state"
  sl_generation :: nat
  sl_session_state :: sftp_session_state

definition sftp_slot_new :: "'s sftp_slot" where
  "sftp_slot_new =
     \<lparr>sl_state = SharedEmpty, sl_generation = 0, sl_session_state = sftp_session_state_default\<rparr>"

text \<open>The notifier whose waiters a replacement of the state has to wake.\<close>

definition replaced_notify :: "'s shared_sftp_state \<Rightarrow> nat option" where
  "replaced_notify st = (case st of SharedInitializing notify _ \<Rightarrow> Some notify | _ \<Rightarrow> None)"

text \<open>\<^verbatim>\<open>clear_physical\<close> raises the generation before it takes the lock.\<close>

definition clear_physical_bump :: "'s sftp_slot \<Rightarrow> 's sftp_slot" where
  "clear_physical_bump sl = sl\<lparr>sl_generation := sl_generation sl + 1\<rparr>"

definition clear_physical_locked :: "'s sftp_slot \<Rightarrow> 's sftp_slot \<times> nat option" where
  "clear_physical_locked sl =
     (sl\<lparr>sl_state := SharedEmpty, sl_session_state := sftp_session_state_default\<rparr>,
      replaced_notify (sl_state sl))"

definition clear_sftp :: "'s sftp_slot \<Rightarrow> 's sftp_slot \<times> nat option" where
  "clear_sftp sl =
     (sl\<lparr>sl_generation := sl_generation sl + 1, sl_state := SharedEmpty,
         sl_session_state := sftp_session_state_default\<rparr>, replaced_notify (sl_state sl))"

definition invalidate_sftp :: "'s sftp_slot \<Rightarrow> 's sftp_slot \<times> nat option \<times> bool" where
  "invalidate_sftp sl =
     (let had_sftp = (case sl_state sl of SharedEmpty \<Rightarrow> False | _ \<Rightarrow> True) in
      (sl\<lparr>sl_generation := sl_generation sl + 1, sl_state := SharedEmpty,
          sl_session_state := (if had_sftp then sftp_session_state_default else sl_session_state sl)\<rparr>,
       replaced_notify (sl_state sl), had_sftp))"

definition acquire_existing_sftp_generation :: "nat \<Rightarrow> 's sftp_slot \<Rightarrow> 's option" where
  "acquire_existing_sftp_generation expected sl =
     (if sl_generation sl \<noteq> expected then None
      else case sl_state sl of SharedReady session \<Rightarrow> Some session | _ \<Rightarrow> None)"

text \<open>Where a task is in \<^verbatim>\<open>acquire_sftp_with_meta\<close>.\<close>

datatype 's sftp_task =
    AtLoopHead
  | HasNotify nat
  | AwaitsNotify nat
  | Opening
  | Acquired 's nat bool
  | AcquireFailed

text \<open>The first section of the loop; \<open>notify\<close> is the number of a new notifier.\<close>

definition acquire_enter :: "nat \<Rightarrow> 's sftp_slot \<Rightarrow> 's sftp_slot \<times> 's sftp_task" where
  "acquire_enter notify sl =
     (case sl_state sl of
        SharedReady session \<Rightarrow> (sl, Acquired session (sl_generation sl) False)
      | SharedInitializing n _ \<Rightarrow> (sl, HasNotify n)
      | SharedEmpty \<Rightarrow> (sl\<lparr>sl_state := SharedInitializing notify (sl_generation sl)\<rparr>, Opening))"

text \<open>The second section, after the session was opened or not; it may wake waiting tasks.\<close>

definition acquire_opened :: "'s \<Rightarrow> 's sftp_slot \<Rightarrow> 's sftp_slot \<times> nat option \<times> 's sftp_task" where
  "acquire_opened session sl =
     (case sl_state sl of
        SharedReady existing \<Rightarrow> (sl, None, Acquired existing (sl_generation sl) False)
      | SharedInitializing n generation \<Rightarrow>
          if generation = sl_generation sl
          then (sl\<lparr>sl_state := SharedReady session\<rparr>, Some n, Acquired session generation True)
          else (sl\<lparr>sl_state := SharedEmpty\<rparr>, Some n, AtLoopHead)
      | SharedEmpty \<Rightarrow> (sl, None, AtLoopHead))"

definition acquire_open_failed :: "'s sftp_slot \<Rightarrow> 's sftp_slot \<times> nat option \<times> 's sftp_task" where
  "acquire_open_failed sl =
     (case sl_state sl of
        SharedInitializing n _ \<Rightarrow> (sl\<lparr>sl_state := SharedEmpty\<rparr>, Some n, AcquireFailed)
      | _ \<Rightarrow> (sl, None, AcquireFailed))"

subsection \<open>Any number of tasks\<close>

record 's sftp_world =
  sw_slot :: "'s sftp_slot"
  sw_tasks :: "nat \<Rightarrow> 's sftp_task option"
  sw_next_notify :: nat

datatype 's sftp_event =
    StartAcquire nat | EnterLock nat | StartWaiting nat | SessionOpened nat 's | OpeningFailed nat
  | ClearSftp | InvalidateSftp | ClearPhysicalBump | ClearPhysicalLocked

text \<open>\<^verbatim>\<open>notify_waiters\<close> wakes the tasks that wait at that moment and no later ones.\<close>

definition notify_waiters :: "nat option \<Rightarrow> (nat \<Rightarrow> 's sftp_task option) \<Rightarrow> nat \<Rightarrow> 's sftp_task option" where
  "notify_waiters notify tasks =
     (\<lambda>t. if \<exists>n. notify = Some n \<and> tasks t = Some (AwaitsNotify n) then Some AtLoopHead else tasks t)"

definition sftp_step :: "'s sftp_event \<Rightarrow> 's sftp_world \<Rightarrow> 's sftp_world" where
  "sftp_step ev w =
     (case ev of
        StartAcquire t \<Rightarrow>
          if sw_tasks w t = None then w\<lparr>sw_tasks := (sw_tasks w)(t := Some AtLoopHead)\<rparr> else w
      | EnterLock t \<Rightarrow>
          if sw_tasks w t = Some AtLoopHead
          then (let (sl, task) = acquire_enter (sw_next_notify w) (sw_slot w) in
                w\<lparr>sw_slot := sl, sw_tasks := (sw_tasks w)(t := Some task),
                  sw_next_notify := sw_next_notify w + 1\<rparr>)
          else w
      | StartWaiting t \<Rightarrow>
          (case sw_tasks w t of
             Some (HasNotify n) \<Rightarrow> w\<lparr>sw_tasks := (sw_tasks w)(t := Some (AwaitsNotify n))\<rparr>
           | _ \<Rightarrow> w)
      | SessionOpened t session \<Rightarrow>
          if sw_tasks w t = Some Opening
          then (let (sl, notify, task) = acquire_opened session (sw_slot w) in
                w\<lparr>sw_slot := sl, sw_tasks := (notify_waiters notify (sw_tasks w))(t := Some task)\<rparr>)
          else w
      | OpeningFailed t \<Rightarrow>
          if sw_tasks w t = Some Opening
          then (let (sl, notify, task) = acquire_open_failed (sw_slot w) in
                w\<lparr>sw_slot := sl, sw_tasks := (notify_waiters notify (sw_tasks w))(t := Some task)\<rparr>)
          else w
      | ClearSftp \<Rightarrow>
          (let (sl, notify) = clear_sftp (sw_slot w) in
           w\<lparr>sw_slot := sl, sw_tasks := notify_waiters notify (sw_tasks w)\<rparr>)
      | InvalidateSftp \<Rightarrow>
          (let (sl, notify, had) = invalidate_sftp (sw_slot w) in
           w\<lparr>sw_slot := sl, sw_tasks := notify_waiters notify (sw_tasks w)\<rparr>)
      | ClearPhysicalBump \<Rightarrow> w\<lparr>sw_slot := clear_physical_bump (sw_slot w)\<rparr>
      | ClearPhysicalLocked \<Rightarrow>
          (let (sl, notify) = clear_physical_locked (sw_slot w) in
           w\<lparr>sw_slot := sl, sw_tasks := notify_waiters notify (sw_tasks w)\<rparr>))"

definition sftp_world_start :: "'s sftp_world" where
  "sftp_world_start = \<lparr>sw_slot = sftp_slot_new, sw_tasks = (\<lambda>t. None), sw_next_notify = 0\<rparr>"

inductive sftp_reachable :: "('s sftp_event \<Rightarrow> bool) \<Rightarrow> 's sftp_world \<Rightarrow> bool" for allowed where
  start: "sftp_reachable allowed sftp_world_start"
| step: "sftp_reachable allowed w \<Longrightarrow> allowed ev \<Longrightarrow> sftp_reachable allowed (sftp_step ev w)"

subsection \<open>One session per generation\<close>

text \<open>What has been handed out, and that the latest of it is what the slot holds.\<close>

definition generations_ok :: "'s sftp_world \<Rightarrow> bool" where
  "generations_ok w \<longleftrightarrow>
     (\<forall>t s g new. sw_tasks w t = Some (Acquired s g new) \<longrightarrow>
        g \<le> sl_generation (sw_slot w)
        \<and> (g = sl_generation (sw_slot w) \<longrightarrow> sl_state (sw_slot w) = SharedReady s)
        \<and> (\<forall>t' s' new'. sw_tasks w t' = Some (Acquired s' g new') \<longrightarrow> s' = s))"

lemma notify_waiters_acquired [simp]:
  "notify_waiters notify tasks t = Some (Acquired s g new) \<longleftrightarrow> tasks t = Some (Acquired s g new)"
  by (auto simp: notify_waiters_def)

lemma generations_ok_unchanged:
  assumes "generations_ok w" and "\<And>t s g new. sw_tasks w' t = Some (Acquired s g new) \<Longrightarrow> sw_tasks w t = Some (Acquired s g new)"
    and "sl_generation (sw_slot w') = sl_generation (sw_slot w)
         \<and> (\<forall>s. sl_state (sw_slot w) = SharedReady s \<longrightarrow> sl_state (sw_slot w') = SharedReady s)
       \<or> sl_generation (sw_slot w') = sl_generation (sw_slot w) + 1"
  shows "generations_ok w'"
  unfolding generations_ok_def
proof (intro allI impI conjI)
  fix t s g new assume t: "sw_tasks w' t = Some (Acquired s g new)"
  then have w: "sw_tasks w t = Some (Acquired s g new)" by (rule assms(2))
  then have le: "g \<le> sl_generation (sw_slot w)"
    and st: "g = sl_generation (sw_slot w) \<Longrightarrow> sl_state (sw_slot w) = SharedReady s"
    using assms(1) unfolding generations_ok_def by blast+
  show "g \<le> sl_generation (sw_slot w')" using le assms(3) by auto
  show "sl_state (sw_slot w') = SharedReady s" if "g = sl_generation (sw_slot w')"
    using that le st assms(3) by auto
  show "s' = s" if "sw_tasks w' t' = Some (Acquired s' g new')" for t' s' new'
    using assms(1) w assms(2) [OF that] unfolding generations_ok_def by blast
qed

lemma generations_ok_acquired:
  assumes "generations_ok w" and "sl_generation (sw_slot w') = sl_generation (sw_slot w)"
    and "sl_state (sw_slot w') = SharedReady s"
    and "sl_state (sw_slot w) = SharedReady s \<or> (\<forall>x. sl_state (sw_slot w) \<noteq> SharedReady x)"
    and "\<And>t' s' g' new'. sw_tasks w' t' = Some (Acquired s' g' new') \<Longrightarrow>
           sw_tasks w t' = Some (Acquired s' g' new') \<or> (s' = s \<and> g' = sl_generation (sw_slot w))"
  shows "generations_ok w'"
  using assms unfolding generations_ok_def by (metis order_refl shared_sftp_state.inject(2))

definition keeps_lock :: "'s sftp_event \<Rightarrow> bool" where
  "keeps_lock ev \<longleftrightarrow> (case ev of ClearPhysicalBump \<Rightarrow> False | ClearPhysicalLocked \<Rightarrow> False | _ \<Rightarrow> True)"

lemma sftp_step_generations_ok:
  assumes ok: "generations_ok w" and "keeps_lock ev"
  shows "generations_ok (sftp_step ev w)"
proof (cases ev)
  case (StartAcquire t)
  then show ?thesis
    by (intro generations_ok_unchanged [OF ok]) (auto simp: sftp_step_def split: if_splits)
next
  case (EnterLock t)
  show ?thesis
  proof (cases "sl_state (sw_slot w)")
    case (SharedReady s)
    show ?thesis
      by (cases "sw_tasks w t = Some AtLoopHead",
          rule generations_ok_acquired [OF ok, where s = s], rule_tac [5] generations_ok_unchanged [OF ok])
         (auto simp: EnterLock SharedReady sftp_step_def acquire_enter_def split: if_splits)
  qed (intro generations_ok_unchanged [OF ok]; auto simp: EnterLock sftp_step_def acquire_enter_def split: if_splits)+
next
  case (StartWaiting t)
  then show ?thesis
    by (intro generations_ok_unchanged [OF ok])
       (auto simp: sftp_step_def split: if_splits option.splits sftp_task.splits)
next
  case (SessionOpened t session)
  show ?thesis
  proof (cases "sw_tasks w t = Some Opening")
    case busy: True
    show ?thesis
    proof (cases "sl_state (sw_slot w)")
      case SharedEmpty
      then show ?thesis
        by (intro generations_ok_unchanged [OF ok])
           (auto simp: SessionOpened busy sftp_step_def acquire_opened_def split: if_splits)
    next
      case (SharedInitializing n g)
      show ?thesis
      proof (cases "g = sl_generation (sw_slot w)")
        case True
        then show ?thesis
          by (intro generations_ok_acquired [OF ok, where s = session])
             (auto simp: SessionOpened busy SharedInitializing sftp_step_def acquire_opened_def split: if_splits)
      next
        case False
        then show ?thesis
          by (intro generations_ok_unchanged [OF ok])
             (auto simp: SessionOpened busy SharedInitializing sftp_step_def acquire_opened_def split: if_splits)
      qed
    next
      case (SharedReady s)
      then show ?thesis
        by (intro generations_ok_acquired [OF ok, where s = s])
           (auto simp: SessionOpened busy sftp_step_def acquire_opened_def split: if_splits)
    qed
  next
    case False
    then have "sftp_step ev w = w" by (simp add: SessionOpened sftp_step_def)
    then show ?thesis using ok by simp
  qed
next
  case (OpeningFailed t)
  then show ?thesis
    by (intro generations_ok_unchanged [OF ok])
       (auto simp: sftp_step_def acquire_open_failed_def split: if_splits shared_sftp_state.splits)
next
  case ClearSftp
  then show ?thesis
    by (intro generations_ok_unchanged [OF ok]) (auto simp: sftp_step_def clear_sftp_def)
next
  case InvalidateSftp
  then show ?thesis
    by (intro generations_ok_unchanged [OF ok]) (auto simp: sftp_step_def invalidate_sftp_def Let_def)
qed (use assms(2) in \<open>simp_all add: keeps_lock_def\<close>)

lemma sftp_reachable_generations_ok: "sftp_reachable keeps_lock w \<Longrightarrow> generations_ok w"
proof (induction rule: sftp_reachable.induct)
  case start
  show ?case by (simp add: generations_ok_def sftp_world_start_def)
qed (rule sftp_step_generations_ok)

text \<open>
  C30: As long as sessions are only cleared and invalidated under the lock, a generation stands for
  one session, however many tasks acquire it, open it at the same time or fail to: two tasks that
  were given the same generation hold the same session, and while it is the current generation
  that session is what \<open>acquire_existing_sftp_generation\<close> returns.
\<close>

theorem sftp_generation_identifies_session:
  assumes "sftp_reachable keeps_lock w" and "sw_tasks w t = Some (Acquired s g new)"
  shows "(\<forall>t' s' new'. sw_tasks w t' = Some (Acquired s' g new') \<longrightarrow> s' = s)
    \<and> (g = sl_generation (sw_slot w) \<longrightarrow> acquire_existing_sftp_generation g (sw_slot w) = Some s)"
proof -
  have ok: "generations_ok w" by (rule sftp_reachable_generations_ok [OF assms(1)])
  then have "\<forall>t' s' new'. sw_tasks w t' = Some (Acquired s' g new') \<longrightarrow> s' = s"
    using assms(2) unfolding generations_ok_def by blast
  moreover have "g = sl_generation (sw_slot w) \<Longrightarrow> sl_state (sw_slot w) = SharedReady s"
    using ok assms(2) unfolding generations_ok_def by blast
  ultimately show ?thesis by (auto simp: acquire_existing_sftp_generation_def)
qed

definition demo_sftp_run :: "nat sftp_event list" where
  "demo_sftp_run = [StartAcquire 0, EnterLock 0, SessionOpened 0 7, StartAcquire 1, EnterLock 1]"

lemma sftp_reachable_run:
  assumes "list_all allowed events" and "sftp_reachable allowed w"
  shows "sftp_reachable allowed (fold sftp_step events w)"
  using assms by (induction events arbitrary: w) (auto intro: sftp_reachable.step)

lemmas sftp_eval = sftp_step_def sftp_world_start_def sftp_slot_new_def acquire_enter_def
  acquire_opened_def clear_physical_bump_def clear_physical_locked_def replaced_notify_def
  notify_waiters_def

theorem sftp_generation_identifies_session_witness:
  "acquire_existing_sftp_generation 0 (sw_slot (fold sftp_step demo_sftp_run sftp_world_start)) = Some 7"
proof -
  have r: "sftp_reachable keeps_lock (fold sftp_step demo_sftp_run sftp_world_start)"
    by (rule sftp_reachable_run) (simp_all add: demo_sftp_run_def keeps_lock_def sftp_reachable.start)
  have t: "sw_tasks (fold sftp_step demo_sftp_run sftp_world_start) 1 = Some (Acquired 7 0 False)"
    by (simp add: demo_sftp_run_def sftp_eval)
  show ?thesis
    using sftp_generation_identifies_session [OF r t] by (simp add: demo_sftp_run_def sftp_eval)
qed


subsection \<open>Where the sharing fails\<close>

text \<open>
  A task that opened a session for an old generation publishes it for the current one, if by then
  another task is opening a session: the section compares the generation in the slot, which is the
  other task's, with the current generation, not the one its own session belongs to. Session 7 was
  opened before the connection was cleared and is handed out as generation 1.
\<close>

lemma stale_session_published:
  "let w = fold sftp_step [StartAcquire 0, EnterLock 0, ClearPhysicalBump, ClearPhysicalLocked,
                           StartAcquire 1, EnterLock 1, SessionOpened 0 (7::nat)] sftp_world_start in
   sl_state (sw_slot w) = SharedReady 7 \<and> sl_generation (sw_slot w) = 1
   \<and> sw_tasks w 0 = Some (Acquired 7 1 True) \<and> sw_tasks w 1 = Some Opening"
  by (simp add: sftp_eval)

text \<open>
  Clearing the physical connection raises the generation before the lock is taken; a task that
  enters in between is given the session of the dead connection under the new generation, which
  later stands for another session.
\<close>

lemma dead_session_under_new_generation:
  "let w = fold sftp_step [StartAcquire 0, EnterLock 0, SessionOpened 0 (7::nat), ClearPhysicalBump,
                           StartAcquire 1, EnterLock 1, ClearPhysicalLocked, StartAcquire 2, EnterLock 2,
                           SessionOpened 2 8] sftp_world_start in
   sw_tasks w 1 = Some (Acquired 7 1 False) \<and> sw_tasks w 2 = Some (Acquired 8 1 True)"
  by (simp add: sftp_eval)

lemma unreferenced_notify_step:
  assumes "sw_tasks w t = Some (AwaitsNotify n)" and "replaced_notify (sl_state (sw_slot w)) \<noteq> Some n"
    and "n < sw_next_notify w"
  shows "sw_tasks (sftp_step ev w) t = Some (AwaitsNotify n)
    \<and> replaced_notify (sl_state (sw_slot (sftp_step ev w))) \<noteq> Some n \<and> n < sw_next_notify (sftp_step ev w)"
  using assms
  by (cases ev) (auto simp: sftp_step_def acquire_enter_def acquire_opened_def acquire_open_failed_def
      clear_sftp_def invalidate_sftp_def clear_physical_bump_def clear_physical_locked_def Let_def
      replaced_notify_def notify_waiters_def split: shared_sftp_state.splits option.splits sftp_task.splits)

lemma unreferenced_notify_run:
  assumes "sw_tasks w t = Some (AwaitsNotify n)" and "replaced_notify (sl_state (sw_slot w)) \<noteq> Some n"
    and "n < sw_next_notify w"
  shows "sw_tasks (fold sftp_step events w) t = Some (AwaitsNotify n)"
  using assms
proof (induction events arbitrary: w)
  case (Cons ev events)
  then show ?case using unreferenced_notify_step [OF Cons.prems] by simp
qed simp

text \<open>
  A task can wait for ever for a session that is ready. The notifier is cloned under the lock
  and waited on after it was released; when the opening task publishes the session in between, it
  wakes nobody, and no later step of any kind wakes the task, because its notifier has left the
  slot.
\<close>

theorem sftp_waiter_can_be_lost:
  "\<exists>w :: nat sftp_world. sftp_reachable keeps_lock w
     \<and> acquire_existing_sftp_generation (sl_generation (sw_slot w)) (sw_slot w) = Some 7
     \<and> (\<forall>events. sw_tasks (fold sftp_step events w) 1 = Some (AwaitsNotify 0))"
proof -
  let ?run = "[StartAcquire 0, EnterLock 0, StartAcquire 1, EnterLock 1, SessionOpened 0 (7::nat), StartWaiting 1]"
  let ?w = "fold sftp_step ?run sftp_world_start"
  have "sftp_reachable keeps_lock ?w"
    by (rule sftp_reachable_run) (simp_all add: keeps_lock_def sftp_reachable.start)
  moreover have "acquire_existing_sftp_generation (sl_generation (sw_slot ?w)) (sw_slot ?w) = Some 7"
    by (simp add: sftp_eval acquire_existing_sftp_generation_def)
  moreover have "\<forall>events. sw_tasks (fold sftp_step events ?w) 1 = Some (AwaitsNotify 0)"
    by (rule allI, rule unreferenced_notify_run [where w = ?w]) (simp_all add: sftp_eval)
  ultimately show ?thesis by blast
qed

end
