(* ===== verification/Ssh_Registry.thy ===== *)
theory Ssh_Registry
  imports Node_Events Sftp_Slot
begin

text \<open>
  The registry of SSH connections (\<^verbatim>\<open>hapcli-ssh/src/connection_registry.rs\<close>): connections shared by
  their users under a pool key, dedicated connections that end with their only user, the tree of
  connections tunnelled through one another, idle timers and the loss of links. An entry is
  reached through the registry's two maps, as the code does it before every operation; the maps are
  association lists, whose order stands for the map's order of iteration. New identifiers, the
  clock and the pool key of a configuration (which contains digests) are arguments, the timers and
  detection tasks that are spawned are recorded, and an operation that walks the tree returns
  \<open>None\<close> where the code does not return.
\<close>

subsection \<open>The source's operations: entries\<close>

datatype connection_consumer =
    Terminal bytes | Sftp bytes | PortForward bytes | X11Forward bytes | Ide bytes | NodeRouter bytes

record remote_env_info =
  re_os_type :: bytes
  re_os_version :: "bytes option"
  re_kernel :: "bytes option"
  re_arch :: "bytes option"
  re_shell :: "bytes option"
  re_home :: "bytes option"
  re_zdotdir :: "bytes option"
  re_xdg_config_home :: "bytes option"
  re_detected_at :: int

datatype probe_connection_status = ProbeAlive | ProbeDead | ProbeNotFound | ProbeNotApplicable

datatype keepalive_probe_result = KeepaliveOk | KeepaliveTimeout | KeepaliveIoError

record connection_pool_config =
  pc_idle_timeout :: "nat option"
  pc_max_connections :: nat
  pc_protect_on_exit :: bool

definition HEARTBEAT_FAIL_THRESHOLD :: nat where "HEARTBEAT_FAIL_THRESHOLD = 2"

text \<open>What the registry reads of a configuration.\<close>

record ssh_target =
  st_host :: bytes
  st_port :: u16
  st_username :: bytes

record ('p, 's) connection_entry =
  ce_connection_id :: bytes
  ce_key :: bytes
  ce_config :: ssh_target
  ce_parent_connection_id :: "bytes option"
  ce_parent_connection_consumer :: "connection_consumer option"
  ce_state :: connection_state
  ce_ref_count :: nat
  ce_keep_alive :: bool
  ce_consumers :: "connection_consumer list"
  ce_physical :: "'p option"
  ce_sftp :: "'s sftp_slot"
  ce_remote_env :: "remote_env_info option"
  ce_remote_env_detection_started :: bool
  ce_first_visible_terminal_started :: bool
  ce_heartbeat_failures :: nat
  ce_idle_generation :: nat
  ce_last_emitted_status :: "bytes option"
  ce_created_at :: nat
  ce_last_active_at :: nat
  ce_idle_timeout :: "nat option"
  ce_retire_when_unused :: bool

definition entry_new_with_key ::
  "nat \<Rightarrow> bytes \<Rightarrow> ssh_target \<Rightarrow> bytes \<Rightarrow> connection_pool_config \<Rightarrow> bool \<Rightarrow> ('p, 's) connection_entry" where
  "entry_new_with_key now fresh_id config key pool_config retire_when_unused =
     \<lparr>ce_connection_id = fresh_id, ce_key = key, ce_config = config, ce_parent_connection_id = None,
      ce_parent_connection_consumer = None, ce_state = StConnecting, ce_ref_count = 0,
      ce_keep_alive = False, ce_consumers = [], ce_physical = None, ce_sftp = sftp_slot_new,
      ce_remote_env = None, ce_remote_env_detection_started = False,
      ce_first_visible_terminal_started = False, ce_heartbeat_failures = 0, ce_idle_generation = 0,
      ce_last_emitted_status = None, ce_created_at = now, ce_last_active_at = now,
      ce_idle_timeout = pc_idle_timeout pool_config, ce_retire_when_unused = retire_when_unused\<rparr>"

record connection_info =
  ci_connection_id :: bytes
  ci_key :: bytes
  ci_host :: bytes
  ci_port :: u16
  ci_username :: bytes
  ci_parent_connection_id :: "bytes option"
  ci_state :: connection_state
  ci_ref_count :: nat
  ci_keep_alive :: bool
  ci_consumers :: "connection_consumer list"
  ci_created_at :: nat
  ci_last_active_at :: nat
  ci_idle_timeout_secs :: "nat option"
  ci_remote_env :: "remote_env_info option"

text \<open>Durations are in milliseconds.\<close>

definition entry_info :: "('p, 's) connection_entry \<Rightarrow> connection_info" where
  "entry_info e =
     \<lparr>ci_connection_id = ce_connection_id e, ci_key = ce_key e, ci_host = st_host (ce_config e),
      ci_port = st_port (ce_config e), ci_username = st_username (ce_config e),
      ci_parent_connection_id = ce_parent_connection_id e, ci_state = ce_state e,
      ci_ref_count = ce_ref_count e, ci_keep_alive = ce_keep_alive e, ci_consumers = ce_consumers e,
      ci_created_at = ce_created_at e, ci_last_active_at = ce_last_active_at e,
      ci_idle_timeout_secs = map_option (\<lambda>ms. ms div 1000) (ce_idle_timeout e),
      ci_remote_env = ce_remote_env e\<rparr>"

definition touch :: "nat \<Rightarrow> ('p, 's) connection_entry \<Rightarrow> ('p, 's) connection_entry" where
  "touch now e = e\<lparr>ce_last_active_at := now\<rparr>"

definition to_ascii_lower :: "u8 \<Rightarrow> u8" where
  "to_ascii_lower b = (if 65 \<le> b \<and> b \<le> 90 then b + 32 else b)"

definition entry_set_remote_env ::
  "remote_env_info \<Rightarrow> ('p, 's) connection_entry \<Rightarrow> ('p, 's) connection_entry \<times> bool" where
  "entry_set_remote_env env e =
     (if map to_ascii_lower (re_os_type env) = str_lit ''unknown''
      then (e\<lparr>ce_remote_env_detection_started := False\<rparr>, False)
      else if ce_remote_env e \<noteq> None then (e, False)
      else (e\<lparr>ce_remote_env := Some env\<rparr>, True))"

definition try_begin_remote_env_detection ::
  "('p, 's) connection_entry \<Rightarrow> ('p, 's) connection_entry \<times> bool" where
  "try_begin_remote_env_detection e =
     (if ce_remote_env e \<noteq> None then (e, False)
      else (e\<lparr>ce_remote_env_detection_started := True\<rparr>, \<not> ce_remote_env_detection_started e))"

definition mark_first_visible_terminal_started ::
  "('p, 's) connection_entry \<Rightarrow> ('p, 's) connection_entry \<times> bool" where
  "mark_first_visible_terminal_started e =
     (e\<lparr>ce_first_visible_terminal_started := True\<rparr>, \<not> ce_first_visible_terminal_started e)"

definition cancel_idle_timer :: "('p, 's) connection_entry \<Rightarrow> ('p, 's) connection_entry" where
  "cancel_idle_timer e = e\<lparr>ce_idle_generation := ce_idle_generation e + 1\<rparr>"

definition add_consumer :: "connection_consumer \<Rightarrow> ('p, 's) connection_entry \<Rightarrow> ('p, 's) connection_entry" where
  "add_consumer consumer e =
     (if consumer \<in> set (ce_consumers e) then e
      else e\<lparr>ce_consumers := ce_consumers e @ [consumer], ce_ref_count := ce_ref_count e + 1\<rparr>)"

definition remove_consumer :: "connection_consumer \<Rightarrow> ('p, 's) connection_entry \<Rightarrow> ('p, 's) connection_entry" where
  "remove_consumer consumer e =
     (let consumers = filter (\<lambda>existing. existing \<noteq> consumer) (ce_consumers e);
          removed = (length consumers \<noteq> length (ce_consumers e)) in
      e\<lparr>ce_consumers := consumers,
        ce_ref_count := (if removed then ce_ref_count e - 1 else ce_ref_count e)\<rparr>)"

definition set_physical :: "nat \<Rightarrow> 'p \<Rightarrow> ('p, 's) connection_entry \<Rightarrow> ('p, 's) connection_entry" where
  "set_physical now physical e = touch now (e\<lparr>ce_physical := Some physical\<rparr>)"

definition clear_physical :: "nat \<Rightarrow> ('p, 's) connection_entry \<Rightarrow> ('p, 's) connection_entry" where
  "clear_physical now e =
     touch now (e\<lparr>ce_physical := None,
                  ce_sftp := fst (clear_physical_locked (clear_physical_bump (ce_sftp e)))\<rparr>)"

subsection \<open>The source's operations: the registry\<close>

text \<open>
  Timers are recorded as the connection, the generation and the time at which they fire; detection
  tasks as the connection.
\<close>

record ('p, 's) ssh_registry =
  cr_config :: connection_pool_config
  cr_by_key :: "(bytes \<times> ('p, 's) connection_entry) list"
  cr_by_id :: "(bytes \<times> bytes) list"
  cr_runtime :: bool
  cr_emitter :: "node_event_emitter option"
  cr_timers :: "(bytes \<times> nat \<times> nat) list"
  cr_env_tasks :: "bytes list"

definition ssh_registry_new :: "connection_pool_config \<Rightarrow> ('p, 's) ssh_registry" where
  "ssh_registry_new config =
     \<lparr>cr_config = config, cr_by_key = [], cr_by_id = [], cr_runtime = False, cr_emitter = None,
      cr_timers = [], cr_env_tasks = []\<rparr>"

definition set_task_runtime :: "('p, 's) ssh_registry \<Rightarrow> ('p, 's) ssh_registry" where
  "set_task_runtime r = r\<lparr>cr_runtime := True\<rparr>"

definition set_node_event_emitter :: "node_event_emitter \<Rightarrow> ('p, 's) ssh_registry \<Rightarrow> ('p, 's) ssh_registry" where
  "set_node_event_emitter em r = r\<lparr>cr_emitter := Some em\<rparr>"

text \<open>The entry of an identifier, and writing an entry back.\<close>

definition get_entry :: "bytes \<Rightarrow> ('p, 's) ssh_registry \<Rightarrow> ('p, 's) connection_entry option" where
  "get_entry connection_id r =
     (case map_of (cr_by_id r) connection_id of
        None \<Rightarrow> None
      | Some key \<Rightarrow> map_of (cr_by_key r) key)"

definition put_entry :: "bytes \<Rightarrow> ('p, 's) connection_entry \<Rightarrow> ('p, 's) ssh_registry \<Rightarrow> ('p, 's) ssh_registry" where
  "put_entry key e r = r\<lparr>cr_by_key := AList.update key e (cr_by_key r)\<rparr>"

text \<open>A change of the entry of an identifier by one of the operations above.\<close>

definition modify_entry ::
  "bytes \<Rightarrow> (('p, 's) connection_entry \<Rightarrow> ('p, 's) connection_entry) \<Rightarrow> ('p, 's) ssh_registry \<Rightarrow> ('p, 's) ssh_registry" where
  "modify_entry connection_id f r =
     (case map_of (cr_by_id r) connection_id of
        None \<Rightarrow> r
      | Some key \<Rightarrow> (case map_of (cr_by_key r) key of None \<Rightarrow> r | Some e \<Rightarrow> put_entry key (f e) r))"

definition with_emitter ::
  "(node_event_emitter \<Rightarrow> node_event_emitter) \<Rightarrow> ('p, 's) ssh_registry \<Rightarrow> ('p, 's) ssh_registry" where
  "with_emitter f r = r\<lparr>cr_emitter := map_option f (cr_emitter r)\<rparr>"

definition emit_state :: "bytes \<Rightarrow> connection_state \<Rightarrow> bytes \<Rightarrow> ('p, 's) ssh_registry \<Rightarrow> ('p, 's) ssh_registry" where
  "emit_state connection_id st reason = with_emitter (\<lambda>em. fst (emit_state_from_connection connection_id st reason em))"

definition start_idle_timer_for_entry :: "nat \<Rightarrow> bytes \<Rightarrow> ('p, 's) connection_entry \<Rightarrow> ('p, 's) ssh_registry \<Rightarrow> ('p, 's) ssh_registry" where
  "start_idle_timer_for_entry now key e r =
     (let e1 = touch now ((cancel_idle_timer e)\<lparr>ce_state := StIdle\<rparr>);
          generation = ce_idle_generation e1;
          r1 = emit_state (ce_connection_id e) StIdle (str_lit ''idle (timer started)'') (put_entry key e1 r) in
      case ce_idle_timeout e of
        None \<Rightarrow> r1
      | Some timeout \<Rightarrow>
          if timeout = 0 \<or> \<not> cr_runtime r then r1
          else r1\<lparr>cr_timers := (ce_connection_id e, generation, now + timeout) # cr_timers r1\<rparr>)"

definition set_idle_timeout :: "nat \<Rightarrow> nat option \<Rightarrow> ('p, 's) ssh_registry \<Rightarrow> ('p, 's) ssh_registry" where
  "set_idle_timeout now idle_timeout r =
     (let r1 = r\<lparr>cr_config := (cr_config r)\<lparr>pc_idle_timeout := idle_timeout\<rparr>\<rparr> in
      fold (\<lambda>key r.
        case map_of (cr_by_key r) key of
          None \<Rightarrow> r
        | Some e \<Rightarrow>
            (let e1 = cancel_idle_timer e in
             if ce_state e1 = StIdle \<and> ce_ref_count e1 = 0 \<and> \<not> ce_keep_alive e1
             then start_idle_timer_for_entry now key e1 r
             else put_entry key e1 r))
        (map fst (cr_by_key r)) r1)"

definition acquire ::
  "nat \<Rightarrow> bytes \<Rightarrow> bytes \<Rightarrow> ssh_target \<Rightarrow> connection_consumer \<Rightarrow> ('p, 's) ssh_registry \<Rightarrow> ('p, 's) ssh_registry \<times> bytes" where
  "acquire now fresh_id key config consumer r =
     (let (e, r1) = (case map_of (cr_by_key r) key of
            Some e \<Rightarrow> (e, r)
          | None \<Rightarrow> (entry_new_with_key now fresh_id config key (cr_config r) False,
                     r\<lparr>cr_by_id := AList.update fresh_id key (cr_by_id r)\<rparr>));
          e1 = add_consumer consumer (touch now (cancel_idle_timer e)) in
      (put_entry key e1 r1, ce_connection_id e))"

definition acquire_dedicated ::
  "nat \<Rightarrow> bytes \<Rightarrow> bytes \<Rightarrow> ssh_target \<Rightarrow> connection_consumer \<Rightarrow> ('p, 's) ssh_registry \<Rightarrow> ('p, 's) ssh_registry \<times> bytes" where
  "acquire_dedicated now fresh_id pool_key config consumer r =
     (let e = (entry_new_with_key now fresh_id config pool_key (cr_config r) True)
                \<lparr>ce_consumers := [consumer], ce_ref_count := 1\<rparr> in
      (put_entry pool_key e (r\<lparr>cr_by_id := AList.update fresh_id pool_key (cr_by_id r)\<rparr>), fresh_id))"

definition connection_entry_is_registered :: "bytes \<Rightarrow> bytes \<Rightarrow> ('p, 's) ssh_registry \<Rightarrow> bool" where
  "connection_entry_is_registered connection_id key r \<longleftrightarrow>
     map_of (cr_by_id r) connection_id = Some key
     \<and> (case map_of (cr_by_key r) key of Some e \<Rightarrow> ce_connection_id e = connection_id | None \<Rightarrow> False)"

definition parent_ownership :: "('p, 's) connection_entry \<Rightarrow> (bytes \<times> connection_consumer) option" where
  "parent_ownership e =
     (case ce_parent_connection_consumer e of
        None \<Rightarrow> None
      | Some parent_consumer \<Rightarrow>
          (case ce_parent_connection_id e of None \<Rightarrow> None | Some parent_id \<Rightarrow> Some (parent_id, parent_consumer)))"

text \<open>Releasing a connection may retire it, which releases its parent, and so on up the tree.\<close>

lemma delete_shorter: "map_of xs k = Some v \<Longrightarrow> length (AList.delete k xs) < length xs"
  by (induction xs) (auto split: if_splits simp: less_Suc_eq_le AList.length_delete_le)

function release :: "nat \<Rightarrow> bytes \<Rightarrow> connection_consumer \<Rightarrow> ('p, 's) ssh_registry \<Rightarrow> ('p, 's) ssh_registry"
  and retire_connection :: "nat \<Rightarrow> bytes \<Rightarrow> ('p, 's) ssh_registry \<Rightarrow> ('p, 's) ssh_registry \<times> connection_info option"
where
  "release now connection_id consumer r =
     (case map_of (cr_by_id r) connection_id of
        None \<Rightarrow> r
      | Some key \<Rightarrow>
          (case map_of (cr_by_key r) key of
             None \<Rightarrow> r
           | Some e \<Rightarrow>
               let e1 = touch now (remove_consumer consumer e);
                   r1 = put_entry key e1 r in
               if ce_ref_count e1 = 0
               then if ce_retire_when_unused e1 then fst (retire_connection now connection_id r1)
                    else if ce_keep_alive e1
                         then put_entry key ((cancel_idle_timer e1)\<lparr>ce_state := StIdle\<rparr>) r1
                         else start_idle_timer_for_entry now key e1 r1
               else r1))"
| "retire_connection now connection_id r =
     (case map_of (cr_by_id r) connection_id of
        None \<Rightarrow> (r, None)
      | Some key \<Rightarrow>
          (case map_of (cr_by_key r) key of
             None \<Rightarrow> (r, None)
           | Some e \<Rightarrow>
               if \<not> connection_entry_is_registered connection_id key r then (r, None)
               else
                 let info = entry_info (cancel_idle_timer e);
                     r1 = r\<lparr>cr_by_key := AList.delete key (cr_by_key r),
                            cr_by_id := AList.delete connection_id (cr_by_id r)\<rparr> in
                 (case parent_ownership e of
                    None \<Rightarrow> (r1, Some info)
                  | Some (parent_id, parent_consumer) \<Rightarrow>
                      (release now parent_id parent_consumer r1, Some info))))"
  by pat_completeness auto
termination
  by (relation "measure (\<lambda>x. case x of Inl (now, i, c, r) \<Rightarrow> 2 * length (cr_by_id r) + 1
                              | Inr (now, i, r) \<Rightarrow> 2 * length (cr_by_id r))")
     (simp_all add: put_entry_def, drule delete_shorter, simp)

declare release.simps [simp del] retire_connection.simps [simp del]

text \<open>Starting the detection of the remote environment, once for each connection.\<close>

definition maybe_spawn_remote_env_detection :: "bytes \<Rightarrow> ('p, 's) ssh_registry \<Rightarrow> ('p, 's) ssh_registry" where
  "maybe_spawn_remote_env_detection connection_id r =
     (if \<not> cr_runtime r then r
      else case get_entry connection_id r of
        None \<Rightarrow> r
      | Some e \<Rightarrow>
          (let (e1, begin_detection) = try_begin_remote_env_detection e;
               r1 = modify_entry connection_id (\<lambda>_. e1) r in
           if begin_detection then r1\<lparr>cr_env_tasks := connection_id # cr_env_tasks r1\<rparr> else r1))"

definition mark_state_inner ::
  "nat \<Rightarrow> bytes \<Rightarrow> connection_state \<Rightarrow> bool \<Rightarrow> bytes \<Rightarrow> ('p, 's) ssh_registry
     \<Rightarrow> ('p, 's) ssh_registry \<times> connection_info option" where
  "mark_state_inner now connection_id st emit_node_event reason r =
     (case get_entry connection_id r of
        None \<Rightarrow> (r, None)
      | Some e \<Rightarrow>
          (let e1 = touch now (e\<lparr>ce_state := st\<rparr>);
               r1 = modify_entry connection_id (\<lambda>_. e1) r;
               r2 = (if emit_node_event then emit_state connection_id st reason r1 else r1);
               r3 = (if st = StActive \<and> ce_first_visible_terminal_started e1 \<and> \<not> ce_retire_when_unused e1
                     then maybe_spawn_remote_env_detection connection_id r2 else r2) in
           (r3, Some (entry_info e1))))"

definition mark_state ::
  "nat \<Rightarrow> bytes \<Rightarrow> connection_state \<Rightarrow> ('p, 's) ssh_registry \<Rightarrow> ('p, 's) ssh_registry \<times> connection_info option" where
  "mark_state now connection_id st r =
     mark_state_inner now connection_id st True (str_lit ''connection state changed'') r"

definition mark_state_without_event ::
  "nat \<Rightarrow> bytes \<Rightarrow> connection_state \<Rightarrow> ('p, 's) ssh_registry \<Rightarrow> ('p, 's) ssh_registry \<times> connection_info option" where
  "mark_state_without_event now connection_id st r = mark_state_inner now connection_id st False [] r"

definition mark_visible_terminal_ready :: "bytes \<Rightarrow> ('p, 's) ssh_registry \<Rightarrow> ('p, 's) ssh_registry \<times> bool option" where
  "mark_visible_terminal_ready connection_id r =
     (case get_entry connection_id r of
        None \<Rightarrow> (r, None)
      | Some e \<Rightarrow>
          (let (e1, first) = mark_first_visible_terminal_started e;
               r1 = modify_entry connection_id (\<lambda>_. e1) r in
           (if first \<and> \<not> ce_retire_when_unused e1 then maybe_spawn_remote_env_detection connection_id r1 else r1,
            Some first)))"

definition registry_emit_status_changed ::
  "nat \<Rightarrow> bytes \<Rightarrow> bytes \<Rightarrow> bytes list \<Rightarrow> ('p, 's) ssh_registry \<Rightarrow> ('p, 's) ssh_registry \<times> bool" where
  "registry_emit_status_changed now connection_id status affected_children r =
     (case get_entry connection_id r of
        None \<Rightarrow> (r, False)
      | Some e \<Rightarrow>
          if ce_last_emitted_status e = Some status then (r, False)
          else (with_emitter (\<lambda>em. fst (emit_connection_status_changed now connection_id status affected_children em))
                  (modify_entry connection_id (\<lambda>e. e\<lparr>ce_last_emitted_status := Some status\<rparr>) r), True))"

definition set_parent_connection_id ::
  "nat \<Rightarrow> bytes \<Rightarrow> bytes option \<Rightarrow> ('p, 's) ssh_registry \<Rightarrow> ('p, 's) ssh_registry \<times> connection_info option" where
  "set_parent_connection_id now connection_id parent_connection_id r =
     (case map_of (cr_by_id r) connection_id of
        None \<Rightarrow> (r, None)
      | Some key \<Rightarrow>
          (case map_of (cr_by_key r) key of
             None \<Rightarrow> (r, None)
           | Some e \<Rightarrow>
               if \<not> connection_entry_is_registered connection_id key r then (r, None)
               else
                 let released = (if parent_connection_id = None then parent_ownership e else None);
                     e1 = (if parent_connection_id = None then e\<lparr>ce_parent_connection_consumer := None\<rparr> else e);
                     e2 = touch now (e1\<lparr>ce_parent_connection_id := parent_connection_id\<rparr>);
                     r1 = put_entry key e2 r;
                     r2 = (case released of None \<Rightarrow> r1 | Some (pid, pc) \<Rightarrow> release now pid pc r1) in
                 (r2, Some (case get_entry connection_id r2 of Some e3 \<Rightarrow> entry_info e3 | None \<Rightarrow> entry_info e2))))"

definition set_parent_connection_ownership ::
  "nat \<Rightarrow> bytes \<Rightarrow> bytes \<Rightarrow> connection_consumer \<Rightarrow> ('p, 's) ssh_registry
     \<Rightarrow> ('p, 's) ssh_registry \<times> connection_info option" where
  "set_parent_connection_ownership now connection_id parent_connection_id parent_consumer r =
     (case map_of (cr_by_id r) connection_id of
        None \<Rightarrow> (r, None)
      | Some key \<Rightarrow>
          (case map_of (cr_by_key r) key of
             None \<Rightarrow> (r, None)
           | Some e \<Rightarrow>
               if \<not> connection_entry_is_registered connection_id key r then (r, None)
               else
                 let e1 = touch now (e\<lparr>ce_parent_connection_id := Some parent_connection_id,
                                       ce_parent_connection_consumer := Some parent_consumer\<rparr>) in
                 (put_entry key e1 r, Some (entry_info e1))))"

text \<open>The walk over the tunnelled connections; the stack is kept with its top first.\<close>

definition child_ids :: "('p, 's) ssh_registry \<Rightarrow> bytes \<Rightarrow> bytes list" where
  "child_ids r parent_id =
     map (\<lambda>(key, e). ce_connection_id e)
       (filter (\<lambda>(key, e). ce_parent_connection_id e = Some parent_id) (cr_by_key r))"

definition infos_of :: "('p, 's) ssh_registry \<Rightarrow> bytes list \<Rightarrow> connection_info list" where
  "infos_of r ids = concat (map (\<lambda>i. case get_entry i r of Some e \<Rightarrow> [entry_info e] | None \<Rightarrow> []) ids)"

partial_function (option) descendants_loop ::
  "('p, 's) ssh_registry \<Rightarrow> bytes list \<Rightarrow> connection_info list \<Rightarrow> connection_info list option" where
  "descendants_loop r stack descendants =
     (case stack of
        [] \<Rightarrow> Some descendants
      | parent_id # rest \<Rightarrow>
          descendants_loop r (rev (child_ids r parent_id) @ rest)
            (descendants @ infos_of r (child_ids r parent_id)))"

definition descendant_connection_infos :: "bytes \<Rightarrow> ('p, 's) ssh_registry \<Rightarrow> connection_info list option" where
  "descendant_connection_infos root_connection_id r =
     (if get_entry root_connection_id r = None then Some [] else descendants_loop r [root_connection_id] [])"

definition link_can_go_down :: "connection_state \<Rightarrow> bool" where
  "link_can_go_down st \<longleftrightarrow> st \<in> {StActive, StIdle, StConnecting, StReconnecting, StLinkDown}"

fun mark_each_link_down ::
  "nat \<Rightarrow> bytes list \<Rightarrow> ('p, 's) ssh_registry \<Rightarrow> ('p, 's) ssh_registry \<times> connection_info list" where
  "mark_each_link_down now [] r = (r, [])"
| "mark_each_link_down now (i # ids) r =
     (case get_entry i r of
        None \<Rightarrow> mark_each_link_down now ids r
      | Some e \<Rightarrow>
          if \<not> link_can_go_down (ce_state e) then mark_each_link_down now ids r
          else
            let (r1, info) = mark_state_inner now i StLinkDown False [] r;
                (r2, changed) = mark_each_link_down now ids r1 in
            (r2, (case info of Some x \<Rightarrow> x # changed | None \<Rightarrow> changed)))"

definition mark_link_down_cascade ::
  "nat \<Rightarrow> bytes \<Rightarrow> ('p, 's) ssh_registry \<Rightarrow> (('p, 's) ssh_registry \<times> connection_info list) option" where
  "mark_link_down_cascade now root r =
     (if get_entry root r = None then Some (r, [])
      else case descendant_connection_infos root r of
        None \<Rightarrow> None
      | Some infos \<Rightarrow>
          let affected_children = map ci_connection_id infos;
              (r1, changed) = mark_each_link_down now (root # affected_children) r in
          if changed = [] then Some (r1, changed)
          else
            let (r2, emitted) = registry_emit_status_changed now root (str_lit ''link_down'') affected_children r1;
                r3 = (if emitted then emit_state root StLinkDown (str_lit ''link down'') r2 else r2) in
            Some (r3, changed))"

definition mark_transport_lost_cascade ::
  "nat \<Rightarrow> bytes \<Rightarrow> bytes \<Rightarrow> ('p, 's) ssh_registry \<Rightarrow> (('p, 's) ssh_registry \<times> connection_info list) option" where
  "mark_transport_lost_cascade now root reason r =
     (case mark_link_down_cascade now root r of
        None \<Rightarrow> None
      | Some (r1, changed) \<Rightarrow>
          let r2 = fold (\<lambda>info. modify_entry (ci_connection_id info) (clear_physical now)) changed r1 in
          Some (emit_state root StLinkDown reason r2, changed))"

definition acquire_consumer_for_connection ::
  "nat \<Rightarrow> bytes \<Rightarrow> connection_consumer \<Rightarrow> ('p, 's) ssh_registry \<Rightarrow> ('p, 's) ssh_registry \<times> bool" where
  "acquire_consumer_for_connection now connection_id consumer r =
     (case get_entry connection_id r of
        None \<Rightarrow> (r, False)
      | Some e \<Rightarrow>
          (let e1 = (if consumer \<in> set (ce_consumers e) then e
                     else
                       let e1 = add_consumer consumer e in
                       if ce_ref_count e = 0
                       then let e2 = cancel_idle_timer e1 in
                            if ce_state e2 = StIdle \<and> ce_physical e2 \<noteq> None then e2\<lparr>ce_state := StActive\<rparr> else e2
                       else e1) in
           (modify_entry connection_id (\<lambda>_. touch now e1) r, True)))"

definition acquire_sftp_session ::
  "nat \<Rightarrow> bytes \<Rightarrow> bytes \<Rightarrow> ('p, 's) ssh_registry \<Rightarrow> ('p, 's) ssh_registry \<times> bool" where
  "acquire_sftp_session now connection_id consumer_id r =
     acquire_consumer_for_connection now connection_id (Sftp consumer_id) r"

definition mark_sftp_session ::
  "nat \<Rightarrow> bytes \<Rightarrow> bool \<Rightarrow> bytes option \<Rightarrow> ('p, 's) ssh_registry \<Rightarrow> ('p, 's) ssh_registry \<times> sftp_session_state option" where
  "mark_sftp_session now connection_id ready cwd r =
     (case get_entry connection_id r of
        None \<Rightarrow> (r, None)
      | Some e \<Rightarrow>
          (let st = \<lparr>ss_ready = ready, ss_cwd = cwd\<rparr> in
           (modify_entry connection_id (\<lambda>e. touch now (e\<lparr>ce_sftp := (ce_sftp e)\<lparr>sl_session_state := st\<rparr>\<rparr>)) r, Some st)))"

definition registry_set_keep_alive ::
  "nat \<Rightarrow> bytes \<Rightarrow> bool \<Rightarrow> ('p, 's) ssh_registry \<Rightarrow> ('p, 's) ssh_registry \<times> connection_info option" where
  "registry_set_keep_alive now connection_id keep_alive r =
     (case map_of (cr_by_id r) connection_id of
        None \<Rightarrow> (r, None)
      | Some key \<Rightarrow>
          (case map_of (cr_by_key r) key of
             None \<Rightarrow> (r, None)
           | Some e \<Rightarrow>
               let e1 = e\<lparr>ce_keep_alive := keep_alive\<rparr>;
                   r1 = (if keep_alive then put_entry key (cancel_idle_timer e1) r
                         else if ce_state e1 = StIdle \<and> ce_ref_count e1 = 0
                         then start_idle_timer_for_entry now key e1 r
                         else put_entry key e1 r);
                   r2 = modify_entry connection_id (touch now) r1 in
               (r2, map_option entry_info (get_entry connection_id r2))))"

definition disconnect_idle_timed_out_connection :: "nat \<Rightarrow> bytes \<Rightarrow> bytes \<Rightarrow> ('p, 's) ssh_registry \<Rightarrow> ('p, 's) ssh_registry" where
  "disconnect_idle_timed_out_connection now connection_id reason r =
     (case get_entry connection_id r of
        None \<Rightarrow> r
      | Some e \<Rightarrow>
          if ce_state e = StDisconnected \<or> ce_state e = StDisconnecting then r
          else
            let r1 = modify_entry connection_id cancel_idle_timer r;
                node = (case cr_emitter r of None \<Rightarrow> None | Some em \<Rightarrow> node_id_for_connection connection_id em);
                r2 = (case (ce_parent_connection_id e, node) of
                        (Some parent_id, Some node_id) \<Rightarrow>
                          release now parent_id (NodeRouter (node_id @ str_lit '':ancestor'')) r1
                      | _ \<Rightarrow> r1);
                r3 = modify_entry connection_id (clear_physical now) r2;
                r4 = fst (mark_state_without_event now connection_id StDisconnected r3);
                r5 = with_emitter (\<lambda>em.
                       let em1 = fst (emit_sftp_ready connection_id False None em);
                           em2 = fst (emit_state_from_connection connection_id StDisconnected reason em1) in
                       fst (unregister_node connection_id em2)) r4 in
            fst (retire_connection now connection_id r5))"

definition disconnect_if_idle_timeout :: "nat \<Rightarrow> bytes \<Rightarrow> nat \<Rightarrow> ('p, 's) ssh_registry \<Rightarrow> ('p, 's) ssh_registry option" where
  "disconnect_if_idle_timeout now root generation r =
     (case get_entry root r of
        None \<Rightarrow> Some r
      | Some e \<Rightarrow>
          if ce_idle_generation e \<noteq> generation \<or> ce_ref_count e \<noteq> 0 \<or> ce_keep_alive e \<or> ce_state e \<noteq> StIdle
          then Some r
          else
            (case descendant_connection_infos root r of
               None \<Rightarrow> None
             | Some infos \<Rightarrow>
                 let affected_children = map ci_connection_id infos;
                     r1 = fold (\<lambda>i. disconnect_idle_timed_out_connection now i (str_lit ''ancestor idle timeout cascade''))
                            (rev affected_children) r;
                     r2 = with_emitter (\<lambda>em. fst (emit_connection_status_changed now root (str_lit ''disconnected'')
                            affected_children em)) r1 in
                 Some (disconnect_idle_timed_out_connection now root (str_lit ''idle timeout'') r2)))"

text \<open>
  Keepalive probes, in the sections between which they wait: whether a probe is due, what its
  result does, whether it still is due after the pause, and what the second result does.
\<close>

datatype probe_progress = ProbeFinished probe_connection_status | ProbeAgain

definition heartbeat_ok :: "nat \<Rightarrow> ('p, 's) connection_entry \<Rightarrow> ('p, 's) connection_entry" where
  "heartbeat_ok now e = touch now (e\<lparr>ce_heartbeat_failures := 0\<rparr>)"

definition probe_active_due :: "bytes \<Rightarrow> ('p, 's) ssh_registry \<Rightarrow> probe_connection_status option" where
  "probe_active_due connection_id r =
     (case get_entry connection_id r of
        None \<Rightarrow> Some ProbeNotFound
      | Some e \<Rightarrow> if ce_state e = StActive \<or> ce_state e = StIdle then None else Some ProbeNotApplicable)"

definition probe_active_ending :: "bytes \<Rightarrow> ('p, 's) ssh_registry \<Rightarrow> bool" where
  "probe_active_ending connection_id r =
     (case get_entry connection_id r of
        None \<Rightarrow> False
      | Some e \<Rightarrow> ce_state e = StDisconnecting \<or> ce_state e = StDisconnected)"

definition probe_active_result ::
  "nat \<Rightarrow> bytes \<Rightarrow> keepalive_probe_result \<Rightarrow> ('p, 's) ssh_registry \<Rightarrow> ('p, 's) ssh_registry \<times> probe_progress" where
  "probe_active_result now connection_id result r =
     (case result of
        KeepaliveOk \<Rightarrow> (modify_entry connection_id (heartbeat_ok now) r, ProbeFinished ProbeAlive)
      | KeepaliveTimeout \<Rightarrow>
          (let failures = (case get_entry connection_id r of Some e \<Rightarrow> ce_heartbeat_failures e | None \<Rightarrow> 0) + 1 in
           (modify_entry connection_id (\<lambda>e. e\<lparr>ce_heartbeat_failures := ce_heartbeat_failures e + 1\<rparr>) r,
            ProbeFinished (if failures < HEARTBEAT_FAIL_THRESHOLD then ProbeAlive else ProbeDead)))
      | KeepaliveIoError \<Rightarrow>
          (r, if probe_active_ending connection_id r then ProbeFinished ProbeNotApplicable else ProbeAgain))"

definition probe_active_second ::
  "nat \<Rightarrow> bytes \<Rightarrow> keepalive_probe_result \<Rightarrow> ('p, 's) ssh_registry \<Rightarrow> ('p, 's) ssh_registry \<times> probe_connection_status" where
  "probe_active_second now connection_id result r =
     (case result of
        KeepaliveOk \<Rightarrow> (modify_entry connection_id (heartbeat_ok now) r, ProbeAlive)
      | _ \<Rightarrow> (r, ProbeDead))"

definition probe_single_due :: "bytes \<Rightarrow> ('p, 's) ssh_registry \<Rightarrow> probe_connection_status + connection_state" where
  "probe_single_due connection_id r =
     (case get_entry connection_id r of
        None \<Rightarrow> Inl ProbeNotFound
      | Some e \<Rightarrow>
          if ce_state e \<in> {StActive, StIdle, StLinkDown} then Inr (ce_state e) else Inl ProbeNotApplicable)"

definition link_recovered :: "nat \<Rightarrow> bytes \<Rightarrow> connection_state \<Rightarrow> ('p, 's) ssh_registry \<Rightarrow> ('p, 's) ssh_registry" where
  "link_recovered now connection_id st r =
     (if st = StLinkDown
      then let r1 = modify_entry connection_id (heartbeat_ok now) r;
               r2 = fst (mark_state_without_event now connection_id StActive r1) in
           fst (registry_emit_status_changed now connection_id (str_lit ''connected'') [] r2)
      else r)"

definition probe_single_result ::
  "nat \<Rightarrow> bytes \<Rightarrow> connection_state \<Rightarrow> keepalive_probe_result \<Rightarrow> ('p, 's) ssh_registry
     \<Rightarrow> ('p, 's) ssh_registry \<times> probe_progress" where
  "probe_single_result now connection_id st result r =
     (case result of
        KeepaliveOk \<Rightarrow> (link_recovered now connection_id st r, ProbeFinished ProbeAlive)
      | KeepaliveTimeout \<Rightarrow>
          (r, if st = StActive \<or> st = StIdle then ProbeFinished ProbeDead else ProbeAgain)
      | KeepaliveIoError \<Rightarrow> (r, ProbeFinished ProbeDead))"

definition probe_single_second ::
  "nat \<Rightarrow> bytes \<Rightarrow> connection_state \<Rightarrow> keepalive_probe_result \<Rightarrow> ('p, 's) ssh_registry
     \<Rightarrow> ('p, 's) ssh_registry \<times> probe_connection_status" where
  "probe_single_second now connection_id st result r =
     (case result of
        KeepaliveOk \<Rightarrow> (link_recovered now connection_id st r, ProbeAlive)
      | _ \<Rightarrow> (fst (mark_state_without_event now connection_id StLinkDown r), ProbeDead))"

record connection_pool_stats =
  ps_total :: nat
  ps_active :: nat
  ps_idle :: nat
  ps_link_down :: nat
  ps_reconnecting :: nat
  ps_disconnected :: nat
  ps_errored :: nat

definition stats :: "('p, 's) ssh_registry \<Rightarrow> connection_pool_stats" where
  "stats r =
     fold (\<lambda>(key, e) s.
         case ce_state e of
           StActive \<Rightarrow> s\<lparr>ps_active := ps_active s + 1\<rparr>
         | StIdle \<Rightarrow> s\<lparr>ps_idle := ps_idle s + 1\<rparr>
         | StLinkDown \<Rightarrow> s\<lparr>ps_link_down := ps_link_down s + 1\<rparr>
         | StReconnecting \<Rightarrow> s\<lparr>ps_reconnecting := ps_reconnecting s + 1\<rparr>
         | StDisconnected \<Rightarrow> s\<lparr>ps_disconnected := ps_disconnected s + 1\<rparr>
         | StDisconnecting \<Rightarrow> s\<lparr>ps_disconnected := ps_disconnected s + 1\<rparr>
         | StError _ \<Rightarrow> s\<lparr>ps_errored := ps_errored s + 1\<rparr>
         | StConnecting \<Rightarrow> s)
       (cr_by_key r)
       \<lparr>ps_total = length (cr_by_key r), ps_active = 0, ps_idle = 0, ps_link_down = 0, ps_reconnecting = 0,
        ps_disconnected = 0, ps_errored = 0\<rparr>"

text \<open>The depth of a connection in the tree, which remembers where it has been.\<close>

function topology_depth_for :: "(bytes \<times> bytes option) list \<Rightarrow> bytes \<Rightarrow> bytes list \<Rightarrow> nat" where
  "topology_depth_for parents connection_id seen =
     (if connection_id \<in> set seen then 0
      else case map_of parents connection_id of
        Some (Some parent_id) \<Rightarrow>
          if map_of parents parent_id = None then 0
          else topology_depth_for parents parent_id (connection_id # seen) + 1
      | _ \<Rightarrow> 0)"
  by pat_completeness auto
termination
proof (relation "measure (\<lambda>(parents, i, seen). card (fst ` set parents - set seen))", simp)
  fix parents :: "(bytes \<times> bytes option) list" and i :: bytes and seen :: "bytes list" and p pid
  assume "i \<notin> set seen" and "map_of parents i = Some p"
  then have "i \<in> fst ` set parents - set seen"
    using map_of_SomeD [of parents i p] by (force simp: image_iff)
  then have "card (fst ` set parents - set seen - {i}) < card (fst ` set parents - set seen)"
    by (intro card_Diff1_less) auto
  then show "((parents, pid, i # seen), parents, i, seen)
      \<in> measure (\<lambda>(parents, i, seen). card (fst ` set parents - set seen))"
    by (simp add: Diff_insert [symmetric])
qed

declare topology_depth_for.simps [simp del]

definition topology_depths :: "connection_info list \<Rightarrow> (bytes \<times> nat) list" where
  "topology_depths infos =
     (let parents = map (\<lambda>info. (ci_connection_id info, ci_parent_connection_id info)) infos in
      map (\<lambda>info. (ci_connection_id info, topology_depth_for parents (ci_connection_id info) [])) infos)"

end
