(* ===== verification/Ssh_Pool.thy ===== *)
theory Ssh_Pool
  imports Ssh_Registry
begin

text \<open>
  Correctness of the connection registry: the invariant that every operation keeps, the idle timers
  and the tree of tunnelled connections, over runs of its operations.
\<close>

subsection \<open>The invariant\<close>

definition entry_ok :: "('p, 's) connection_entry \<Rightarrow> bool" where
  "entry_ok e \<longleftrightarrow>
     distinct (ce_consumers e) \<and> ce_ref_count e = length (ce_consumers e)
     \<and> (ce_parent_connection_consumer e \<noteq> None \<longrightarrow> ce_parent_connection_id e \<noteq> None)"

text \<open>
  The generations that idle timers and other observers (\<open>S\<close>) have seen bound those of the entries
  from below.
\<close>

definition seen_generations :: "(bytes \<times> nat) set \<Rightarrow> ('p, 's) ssh_registry \<Rightarrow> (bytes \<times> nat) set" where
  "seen_generations S r = S \<union> {(i, g). \<exists>d. (i, g, d) \<in> set (cr_timers r)}"

definition pool_ok :: "(bytes \<times> nat) set \<Rightarrow> ('p, 's) ssh_registry \<Rightarrow> bool" where
  "pool_ok S r \<longleftrightarrow>
     distinct (map fst (cr_by_key r)) \<and> distinct (map fst (cr_by_id r))
     \<and> (\<forall>k e. map_of (cr_by_key r) k = Some e \<longrightarrow>
          ce_key e = k \<and> map_of (cr_by_id r) (ce_connection_id e) = Some k \<and> entry_ok e)
     \<and> (\<forall>i k. map_of (cr_by_id r) i = Some k \<longrightarrow>
          (\<exists>e. map_of (cr_by_key r) k = Some e \<and> ce_connection_id e = i))
     \<and> (\<forall>i g. (i, g) \<in> seen_generations S r \<longrightarrow>
          (\<forall>e. get_entry i r = Some e \<longrightarrow> g \<le> ce_idle_generation e))
     \<and> fst ` S \<subseteq> fst ` set (cr_timers r)"

text \<open>What an operation may do to an entry.\<close>

definition entry_step :: "('p, 's) connection_entry \<Rightarrow> ('p, 's) connection_entry \<Rightarrow> bool" where
  "entry_step e e' \<longleftrightarrow>
     ce_connection_id e' = ce_connection_id e \<and> ce_key e' = ce_key e
     \<and> ce_idle_generation e \<le> ce_idle_generation e' \<and> (entry_ok e \<longrightarrow> entry_ok e')"

lemma entry_step_refl [intro, simp]: "entry_step e e"
  by (simp add: entry_step_def)

lemma entry_step_trans: "entry_step a b \<Longrightarrow> entry_step b c \<Longrightarrow> entry_step a c"
  unfolding entry_step_def by auto

named_theorems entry_steps

lemma touch_step [entry_steps]: "entry_step e (touch now e)"
  by (simp add: entry_step_def touch_def entry_ok_def)

lemma cancel_idle_timer_step [entry_steps]: "entry_step e (cancel_idle_timer e)"
  by (simp add: entry_step_def cancel_idle_timer_def entry_ok_def)

lemma set_state_step [entry_steps]: "entry_step e (e\<lparr>ce_state := st\<rparr>)"
  by (simp add: entry_step_def entry_ok_def)

lemma idle_step: "entry_step e (touch now ((cancel_idle_timer e)\<lparr>ce_state := StIdle\<rparr>))"
  by (simp add: entry_step_def touch_def cancel_idle_timer_def entry_ok_def)

lemma kept_idle_step: "entry_step e ((cancel_idle_timer e)\<lparr>ce_state := StIdle\<rparr>)"
  by (simp add: entry_step_def cancel_idle_timer_def entry_ok_def)

lemma add_consumer_step [entry_steps]: "entry_step e (add_consumer c e)"
  by (auto simp: entry_step_def add_consumer_def entry_ok_def)

lemma filter_one:
  "distinct xs \<Longrightarrow> x \<in> set xs \<Longrightarrow> length (filter (\<lambda>y. y \<noteq> x) xs) = length xs - 1"
proof -
  assume d: "distinct xs" and x: "x \<in> set xs"
  have "filter (\<lambda>y. y \<noteq> x) xs = removeAll x xs" by (auto simp: removeAll_filter_not_eq intro: filter_cong)
  then show ?thesis using d x by (simp add: distinct_remove1_removeAll [symmetric] length_remove1)
qed

lemma remove_consumer_step [entry_steps]: "entry_step e (remove_consumer c e)"
proof -
  have "entry_ok (remove_consumer c e)" if ok: "entry_ok e"
  proof (cases "c \<in> set (ce_consumers e)")
    case True
    then have "length (filter (\<lambda>y. y \<noteq> c) (ce_consumers e)) = length (ce_consumers e) - 1"
      and "0 < length (ce_consumers e)"
      using ok by (auto simp: entry_ok_def filter_one length_pos_if_in_set)
    then show ?thesis using ok by (simp add: entry_ok_def remove_consumer_def Let_def)
  next
    case False
    then have "filter (\<lambda>y. y \<noteq> c) (ce_consumers e) = ce_consumers e" by (auto simp: filter_id_conv)
    then show ?thesis using ok by (simp add: entry_ok_def remove_consumer_def Let_def)
  qed
  then show ?thesis by (simp add: entry_step_def remove_consumer_def Let_def)
qed

lemma clear_physical_step [entry_steps]: "entry_step e (clear_physical now e)"
  by (simp add: entry_step_def clear_physical_def touch_def entry_ok_def)

lemma heartbeat_ok_step [entry_steps]: "entry_step e (heartbeat_ok now e)"
  by (simp add: entry_step_def heartbeat_ok_def touch_def entry_ok_def)

lemma try_begin_step [entry_steps]: "entry_step e (fst (try_begin_remote_env_detection e))"
  by (simp add: entry_step_def try_begin_remote_env_detection_def entry_ok_def)

lemma visible_terminal_step [entry_steps]: "entry_step e (fst (mark_first_visible_terminal_started e))"
  by (simp add: entry_step_def mark_first_visible_terminal_started_def entry_ok_def)

subsection \<open>Writing entries\<close>

lemma seen_has_timer:
  assumes "fst ` S \<subseteq> fst ` set (cr_timers r)" and "(j, g) \<in> seen_generations S r"
  shows "j \<in> fst ` set (cr_timers r)"
proof (cases "(j, g) \<in> S")
  case True
  then have "fst (j, g) \<in> fst ` S" by (rule imageI)
  then show ?thesis using assms(1) by auto
next
  case False
  then obtain d where "(j, g, d) \<in> set (cr_timers r)" using assms(2) by (auto simp: seen_generations_def)
  then have "fst (j, g, d) \<in> fst ` set (cr_timers r)" by (rule imageI)
  then show ?thesis by simp
qed

lemma get_entry_pool:
  assumes "pool_ok S r" and "get_entry i r = Some e"
  shows "map_of (cr_by_id r) i = Some (ce_key e)" and "map_of (cr_by_key r) (ce_key e) = Some e"
    and "ce_connection_id e = i" and "entry_ok e"
proof -
  obtain k where k: "map_of (cr_by_id r) i = Some k" "map_of (cr_by_key r) k = Some e"
    using assms(2) by (auto simp: get_entry_def split: option.splits)
  then have "ce_key e = k" and ok: "entry_ok e" using assms(1) unfolding pool_ok_def by blast+
  then show "map_of (cr_by_id r) i = Some (ce_key e)" "map_of (cr_by_key r) (ce_key e) = Some e"
    using k by simp_all
  have "\<exists>e. map_of (cr_by_key r) k = Some e \<and> ce_connection_id e = i"
    using assms(1) k(1) unfolding pool_ok_def by blast
  then show "ce_connection_id e = i" using k(2) by auto
  show "entry_ok e" by (rule ok)
qed

lemma by_key_pool:
  assumes "pool_ok S r" and "map_of (cr_by_key r) k = Some e"
  shows "ce_key e = k" and "map_of (cr_by_id r) (ce_connection_id e) = Some k"
    and "get_entry (ce_connection_id e) r = Some e" and "entry_ok e"
proof -
  show "ce_key e = k" "entry_ok e" and i: "map_of (cr_by_id r) (ce_connection_id e) = Some k"
    using assms unfolding pool_ok_def by blast+
  show "get_entry (ce_connection_id e) r = Some e" using i assms(2) by (simp add: get_entry_def)
qed

lemma get_put_entry:
  assumes "pool_ok S r" and "map_of (cr_by_key r) k = Some e"
  shows "get_entry i (put_entry k e' r) = (if i = ce_connection_id e then Some e' else get_entry i r)"
proof -
  have own: "map_of (cr_by_id r) (ce_connection_id e) = Some k" by (rule by_key_pool(2) [OF assms])
  have "i = ce_connection_id e" if "map_of (cr_by_id r) i = Some k" for i
  proof -
    have "\<exists>e. map_of (cr_by_key r) k = Some e \<and> ce_connection_id e = i"
      using assms(1) that unfolding pool_ok_def by blast
    then show ?thesis using assms(2) by auto
  qed
  note only = this
  show ?thesis
  proof (cases "i = ce_connection_id e")
    case True
    then show ?thesis using own by (simp add: get_entry_def put_entry_def update_conv')
  next
    case False
    then have "map_of (cr_by_id r) i \<noteq> Some k" using only by blast
    then show ?thesis
      using False by (cases "map_of (cr_by_id r) i") (simp_all add: get_entry_def put_entry_def update_conv')
  qed
qed

lemma put_entry_pool:
  assumes ok: "pool_ok S r" and k: "map_of (cr_by_key r) k = Some e" and st: "entry_step e e'"
  shows "pool_ok S (put_entry k e' r)"
proof -
  note e = by_key_pool [OF ok k]
  have id': "ce_connection_id e' = ce_connection_id e" "ce_key e' = k" "entry_ok e'"
    "ce_idle_generation e \<le> ce_idle_generation e'"
    using st e by (auto simp: entry_step_def)
  let ?r = "put_entry k e' r"
  have keys: "map_of (cr_by_key ?r) = (map_of (cr_by_key r))(k \<mapsto> e')" "cr_by_id ?r = cr_by_id r"
    by (simp_all add: put_entry_def update_conv')
  have d: "distinct (map fst (cr_by_key ?r))" "distinct (map fst (cr_by_id ?r))"
    using ok by (auto simp: pool_ok_def put_entry_def distinct_update)
  have a: "\<forall>k' x. map_of (cr_by_key ?r) k' = Some x \<longrightarrow>
      ce_key x = k' \<and> map_of (cr_by_id ?r) (ce_connection_id x) = Some k' \<and> entry_ok x"
    using by_key_pool [OF ok] id' e(2) by (auto simp: keys split: if_splits)
  have b: "\<forall>i k'. map_of (cr_by_id ?r) i = Some k' \<longrightarrow>
      (\<exists>x. map_of (cr_by_key ?r) k' = Some x \<and> ce_connection_id x = i)"
  proof (intro allI impI)
    fix i k' assume "map_of (cr_by_id ?r) i = Some k'"
    then have "\<exists>x. map_of (cr_by_key r) k' = Some x \<and> ce_connection_id x = i"
      using ok unfolding pool_ok_def keys by blast
    then show "\<exists>x. map_of (cr_by_key ?r) k' = Some x \<and> ce_connection_id x = i"
      using k id'(1) by (auto simp: keys)
  qed
  have c: "\<forall>i g. (i, g) \<in> seen_generations S ?r \<longrightarrow> (\<forall>x. get_entry i ?r = Some x \<longrightarrow> g \<le> ce_idle_generation x)"
  proof (intro allI impI)
    fix i g x assume "(i, g) \<in> seen_generations S ?r" and x: "get_entry i ?r = Some x"
    then have t: "(i, g) \<in> seen_generations S r" by (simp add: put_entry_def seen_generations_def)
    have old: "\<And>y. get_entry i r = Some y \<Longrightarrow> g \<le> ce_idle_generation y"
      using ok t unfolding pool_ok_def by blast
    show "g \<le> ce_idle_generation x"
      using x old e(3) id'(4) by (force simp: get_put_entry [OF ok k] split: if_splits)
  qed
  have "fst ` S \<subseteq> fst ` set (cr_timers ?r)" using ok by (simp add: pool_ok_def put_entry_def)
  then show ?thesis unfolding pool_ok_def using d a b c by blast
qed

lemma modify_entry_pool:
  assumes "pool_ok S r" and "\<And>e. get_entry i r = Some e \<Longrightarrow> entry_step e (f e)"
  shows "pool_ok S (modify_entry i f r)"
  using assms by (auto simp: modify_entry_def get_entry_def intro!: put_entry_pool split: option.splits)

lemma get_modify_entry:
  assumes "pool_ok S r"
  shows "get_entry j (modify_entry i f r) = (if j = i then map_option f (get_entry i r) else get_entry j r)"
proof (cases "get_entry i r")
  case None
  then have "modify_entry i f r = r" by (auto simp: modify_entry_def get_entry_def split: option.splits)
  then show ?thesis using None by simp
next
  case (Some e)
  note e = get_entry_pool [OF assms Some]
  have "modify_entry i f r = put_entry (ce_key e) (f e) r" using e by (simp add: modify_entry_def)
  then show ?thesis using get_put_entry [OF assms e(2)] e(3) Some by simp
qed

lemma get_entry_cong:
  "cr_by_key r' = cr_by_key r \<Longrightarrow> cr_by_id r' = cr_by_id r \<Longrightarrow> get_entry i r' = get_entry i r"
  by (cases "map_of (cr_by_id r) i") (simp_all add: get_entry_def)

lemma pool_ok_cong:
  assumes "cr_by_key r' = cr_by_key r" and "cr_by_id r' = cr_by_id r" and "cr_timers r' = cr_timers r"
  shows "pool_ok S r' = pool_ok S r"
  unfolding pool_ok_def seen_generations_def assms get_entry_cong [OF assms(1,2)] by (rule refl)

lemma with_emitter_pool [simp]:
  "pool_ok S (with_emitter f r) = pool_ok S r" "get_entry i (with_emitter f r) = get_entry i r"
  by (rule pool_ok_cong get_entry_cong; simp add: with_emitter_def)+

lemma emit_state_pool [simp]:
  "pool_ok S (emit_state i st reason r) = pool_ok S r" "get_entry j (emit_state i st reason r) = get_entry j r"
  by (simp_all add: emit_state_def)

lemma env_tasks_pool [simp]:
  "pool_ok S (r\<lparr>cr_env_tasks := t\<rparr>) = pool_ok S r" "get_entry i (r\<lparr>cr_env_tasks := t\<rparr>) = get_entry i r"
  by (rule pool_ok_cong get_entry_cong; simp)+

subsection \<open>The operations keep the invariant\<close>

lemma add_timer_pool:
  assumes ok: "pool_ok S r" and e: "get_entry i r = Some e" "g \<le> ce_idle_generation e"
  shows "pool_ok S (r\<lparr>cr_timers := (i, g, d) # cr_timers r\<rparr>)"
proof -
  let ?r = "r\<lparr>cr_timers := (i, g, d) # cr_timers r\<rparr>"
  have get: "get_entry j ?r = get_entry j r" for j by (rule get_entry_cong) simp_all
  have "\<forall>j g'. (j, g') \<in> seen_generations S ?r \<longrightarrow> (\<forall>x. get_entry j ?r = Some x \<longrightarrow> g' \<le> ce_idle_generation x)"
  proof (intro allI impI)
    fix j g' x assume s: "(j, g') \<in> seen_generations S ?r" and x: "get_entry j ?r = Some x"
    show "g' \<le> ce_idle_generation x"
    proof (cases "(j, g') = (i, g)")
      case True
      then show ?thesis using x e get by simp
    next
      case False
      then have "(j, g') \<in> seen_generations S r" using s by (auto simp: seen_generations_def)
      then show ?thesis using ok x get unfolding pool_ok_def by simp
    qed
  qed
  moreover have "fst ` S \<subseteq> fst ` set (cr_timers ?r)" using ok by (auto simp: pool_ok_def)
  moreover have "cr_by_key ?r = cr_by_key r" "cr_by_id ?r = cr_by_id r" by simp_all
  ultimately show ?thesis using ok unfolding pool_ok_def by presburger
qed

lemma start_idle_timer_pool:
  assumes ok: "pool_ok S r" and k: "map_of (cr_by_key r) k = Some e0" and st: "entry_step e0 e"
  shows "pool_ok S (start_idle_timer_for_entry now k e r)"
proof -
  let ?e1 = "touch now ((cancel_idle_timer e)\<lparr>ce_state := StIdle\<rparr>)"
  let ?r1 = "emit_state (ce_connection_id e) StIdle (str_lit ''idle (timer started)'') (put_entry k ?e1 r)"
  have step: "entry_step e0 ?e1" by (rule entry_step_trans [OF st idle_step])
  have r1: "pool_ok S ?r1" using put_entry_pool [OF ok k step] by simp
  have "ce_connection_id e = ce_connection_id e0" using st by (simp add: entry_step_def)
  then have own: "get_entry (ce_connection_id e) ?r1 = Some ?e1" by (simp add: get_put_entry [OF ok k])
  have "pool_ok S (?r1\<lparr>cr_timers := (ce_connection_id e, ce_idle_generation ?e1, d) # cr_timers ?r1\<rparr>)" for d
    by (rule add_timer_pool [OF r1 own]) simp
  then show ?thesis using r1 by (simp add: start_idle_timer_for_entry_def Let_def split: option.splits)
qed

lemma delete_pool:
  assumes ok: "pool_ok S r" and reg: "connection_entry_is_registered i k r"
  shows "pool_ok S (r\<lparr>cr_by_key := AList.delete k (cr_by_key r), cr_by_id := AList.delete i (cr_by_id r)\<rparr>)"
proof -
  let ?r = "r\<lparr>cr_by_key := AList.delete k (cr_by_key r), cr_by_id := AList.delete i (cr_by_id r)\<rparr>"
  obtain e where ik: "map_of (cr_by_id r) i = Some k" "map_of (cr_by_key r) k = Some e" "ce_connection_id e = i"
    using reg by (auto simp: connection_entry_is_registered_def split: option.splits)
  have maps: "map_of (cr_by_key ?r) = (map_of (cr_by_key r))(k := None)"
    "map_of (cr_by_id ?r) = (map_of (cr_by_id r))(i := None)" "cr_timers ?r = cr_timers r"
    by (simp_all add: delete_conv')
  have d: "distinct (map fst (cr_by_key ?r))" "distinct (map fst (cr_by_id ?r))"
    using ok by (auto simp: pool_ok_def distinct_delete)
  have only: "i' = i" if "map_of (cr_by_id r) i' = Some k" for i'
    using ok that ik(2,3) unfolding pool_ok_def by (metis option.inject)
  have a: "\<forall>k' x. map_of (cr_by_key ?r) k' = Some x \<longrightarrow>
      ce_key x = k' \<and> map_of (cr_by_id ?r) (ce_connection_id x) = Some k' \<and> entry_ok x"
    using by_key_pool [OF ok] ik(1) unfolding maps by (auto split: if_splits)
  have b: "\<forall>i' k'. map_of (cr_by_id ?r) i' = Some k' \<longrightarrow>
      (\<exists>x. map_of (cr_by_key ?r) k' = Some x \<and> ce_connection_id x = i')"
  proof (intro allI impI)
    fix i' k' assume "map_of (cr_by_id ?r) i' = Some k'"
    then have i': "i' \<noteq> i" "map_of (cr_by_id r) i' = Some k'" unfolding maps by (auto split: if_splits)
    then have "k' \<noteq> k" using only by blast
    moreover have "\<exists>x. map_of (cr_by_key r) k' = Some x \<and> ce_connection_id x = i'"
      using ok i'(2) unfolding pool_ok_def by blast
    ultimately show "\<exists>x. map_of (cr_by_key ?r) k' = Some x \<and> ce_connection_id x = i'" unfolding maps by simp
  qed
  have g: "get_entry j r = Some x" if "get_entry j ?r = Some x" for j x
    using that unfolding get_entry_def maps by (auto split: if_splits option.splits)
  have "seen_generations S ?r = seen_generations S r" unfolding seen_generations_def maps ..
  then have c: "\<forall>i g. (i, g) \<in> seen_generations S ?r \<longrightarrow> (\<forall>x. get_entry i ?r = Some x \<longrightarrow> g \<le> ce_idle_generation x)"
    using ok g unfolding pool_ok_def by metis
  have "fst ` S \<subseteq> fst ` set (cr_timers ?r)" using ok unfolding pool_ok_def maps by blast
  then show ?thesis unfolding pool_ok_def using d a b c by blast
qed

lemma release_retire_pool:
  fixes r r' :: "('p, 's) ssh_registry"
  shows "pool_ok S r \<Longrightarrow> pool_ok S (release now i c r)"
    and "pool_ok S r' \<Longrightarrow> pool_ok S (fst (retire_connection now' i' r'))"
proof (induction now i c r and now' i' r' rule: release_retire_connection.induct)
  case (1 now i c r)
  show ?case
  proof (cases "get_entry i r")
    case None
    then show ?thesis
      using "1.prems" by (subst release.simps) (auto simp: get_entry_def split: option.splits)
  next
    case (Some e)
    note e = get_entry_pool [OF "1.prems" Some]
    let ?e1 = "touch now (remove_consumer c e)" and ?k = "ce_key e"
    have st: "entry_step e ?e1" by (rule entry_step_trans [OF remove_consumer_step touch_step])
    have r1: "pool_ok S (put_entry ?k ?e1 r)" by (rule put_entry_pool [OF "1.prems" e(2) st])
    have k1: "map_of (cr_by_key (put_entry ?k ?e1 r)) ?k = Some ?e1" by (simp add: put_entry_def update_conv')
    have "pool_ok S (put_entry ?k ((cancel_idle_timer ?e1)\<lparr>ce_state := StIdle\<rparr>) (put_entry ?k ?e1 r))"
      by (rule put_entry_pool [OF r1 k1 kept_idle_step])
    moreover have "pool_ok S (start_idle_timer_for_entry now ?k ?e1 (put_entry ?k ?e1 r))"
      by (rule start_idle_timer_pool [OF r1 k1 entry_step_refl])
    ultimately show ?thesis
      using "1.IH" [OF e(1) e(2) refl refl] r1 e(1,2) by (subst release.simps) (simp add: Let_def)
  qed
next
  case (2 now i r)
  show ?case
  proof (cases "\<exists>e. get_entry i r = Some e \<and> connection_entry_is_registered i (ce_key e) r")
    case True
    then obtain e where g: "get_entry i r = Some e" and reg: "connection_entry_is_registered i (ce_key e) r" by blast
    note e = get_entry_pool [OF "2.prems" g]
    note del = delete_pool [OF "2.prems" reg]
    show ?thesis
    proof (cases "parent_ownership e")
      case None
      then show ?thesis using del reg e(1,2) by (subst retire_connection.simps) (simp add: Let_def)
    next
      case (Some own)
      obtain pid pc where own: "own = (pid, pc)" by fastforce
      have "pool_ok S (release now pid pc (r\<lparr>cr_by_key := AList.delete (ce_key e) (cr_by_key r),
          cr_by_id := AList.delete i (cr_by_id r)\<rparr>))"
        using reg by (intro "2.IH" [OF e(1) e(2) _ refl refl Some own [symmetric]] del) simp
      then show ?thesis
        using Some own reg e(1,2) by (subst retire_connection.simps) (simp add: Let_def)
    qed
  next
    case False
    have "fst (retire_connection now i r) = r"
    proof (cases "get_entry i r")
      case None
      then show ?thesis by (subst retire_connection.simps) (auto simp: get_entry_def split: option.splits)
    next
      case (Some e)
      then have "\<not> connection_entry_is_registered i (ce_key e) r" using False by blast
      then show ?thesis
        using get_entry_pool(1,2) [OF "2.prems" Some] by (subst retire_connection.simps) simp
    qed
    then show ?thesis using "2.prems" by simp
  qed
qed

lemma new_entry_pool:
  assumes ok: "pool_ok S r" and k: "map_of (cr_by_key r) k = None" and i: "map_of (cr_by_id r) i = None"
    and t: "i \<notin> fst ` set (cr_timers r)" and e: "ce_connection_id e = i" "ce_key e = k" "entry_ok e"
  shows "pool_ok S (put_entry k e (r\<lparr>cr_by_id := AList.update i k (cr_by_id r)\<rparr>))"
    and "get_entry j (put_entry k e (r\<lparr>cr_by_id := AList.update i k (cr_by_id r)\<rparr>))
         = (if j = i then Some e else get_entry j r)"
proof -
  let ?r = "put_entry k e (r\<lparr>cr_by_id := AList.update i k (cr_by_id r)\<rparr>)"
  have maps: "map_of (cr_by_key ?r) = (map_of (cr_by_key r))(k \<mapsto> e)"
    "map_of (cr_by_id ?r) = (map_of (cr_by_id r))(i \<mapsto> k)" "cr_timers ?r = cr_timers r"
    by (simp_all add: put_entry_def update_conv')
  have d: "distinct (map fst (cr_by_key ?r))" "distinct (map fst (cr_by_id ?r))"
    using ok by (auto simp: pool_ok_def put_entry_def distinct_update)
  have nok: "map_of (cr_by_id r) j \<noteq> Some k" for j
    using ok k unfolding pool_ok_def by fastforce
  show g: "get_entry j ?r = (if j = i then Some e else get_entry j r)" for j
    unfolding get_entry_def maps using nok [of j] by (auto split: option.splits)
  have a: "\<forall>k' x. map_of (cr_by_key ?r) k' = Some x \<longrightarrow>
      ce_key x = k' \<and> map_of (cr_by_id ?r) (ce_connection_id x) = Some k' \<and> entry_ok x"
  proof (intro allI impI)
    fix k' x assume x: "map_of (cr_by_key ?r) k' = Some x"
    show "ce_key x = k' \<and> map_of (cr_by_id ?r) (ce_connection_id x) = Some k' \<and> entry_ok x"
    proof (cases "k' = k")
      case True
      then show ?thesis using x e unfolding maps by simp
    next
      case False
      then have "map_of (cr_by_key r) k' = Some x" using x unfolding maps by simp
      note by_key_pool [OF ok this]
      moreover from this(2) have "ce_connection_id x \<noteq> i" using i by auto
      ultimately show ?thesis unfolding maps by simp
    qed
  qed
  have b: "\<forall>i' k'. map_of (cr_by_id ?r) i' = Some k' \<longrightarrow>
      (\<exists>x. map_of (cr_by_key ?r) k' = Some x \<and> ce_connection_id x = i')"
  proof (intro allI impI)
    fix i' k' assume i': "map_of (cr_by_id ?r) i' = Some k'"
    show "\<exists>x. map_of (cr_by_key ?r) k' = Some x \<and> ce_connection_id x = i'"
    proof (cases "i' = i")
      case True
      then show ?thesis using i' e unfolding maps by simp
    next
      case False
      then have "map_of (cr_by_id r) i' = Some k'" using i' unfolding maps by simp
      then have "k' \<noteq> k" "\<exists>x. map_of (cr_by_key r) k' = Some x \<and> ce_connection_id x = i'"
        using ok nok unfolding pool_ok_def by blast+
      then show ?thesis unfolding maps by simp
    qed
  qed
  have seen: "seen_generations S ?r = seen_generations S r" unfolding seen_generations_def maps ..
  have S: "fst ` S \<subseteq> fst ` set (cr_timers r)" using ok unfolding pool_ok_def by blast
  have c: "\<forall>j g. (j, g) \<in> seen_generations S ?r \<longrightarrow> (\<forall>x. get_entry j ?r = Some x \<longrightarrow> g \<le> ce_idle_generation x)"
  proof (intro allI impI)
    fix j g' x assume tm: "(j, g') \<in> seen_generations S ?r" and x: "get_entry j ?r = Some x"
    then have "(j, g') \<in> seen_generations S r" unfolding seen by simp
    then have "j \<in> fst ` set (cr_timers r)" by (rule seen_has_timer [OF S])
    then have "j \<noteq> i" using t by blast
    then have "get_entry j r = Some x" using x g by simp
    then show "g' \<le> ce_idle_generation x" using ok tm unfolding pool_ok_def seen by blast
  qed
  have "fst ` S \<subseteq> fst ` set (cr_timers ?r)" using S unfolding maps .
  then show "pool_ok S ?r" unfolding pool_ok_def using d a b c by blast
qed

definition unused_id :: "bytes \<Rightarrow> ('p, 's) ssh_registry \<Rightarrow> bool" where
  "unused_id i r \<longleftrightarrow> map_of (cr_by_id r) i = None \<and> i \<notin> fst ` set (cr_timers r)"

lemma acquire_pool:
  assumes ok: "pool_ok S r" and fresh: "unused_id fresh r"
  shows "pool_ok S (fst (acquire now fresh key config c r))"
    and "get_entry (snd (acquire now fresh key config c r)) (fst (acquire now fresh key config c r))
      = Some (add_consumer c (touch now (cancel_idle_timer
          (case map_of (cr_by_key r) key of Some e \<Rightarrow> e
           | None \<Rightarrow> entry_new_with_key now fresh config key (cr_config r) False))))"
proof -
  have st: "entry_step e (add_consumer c (touch now (cancel_idle_timer e)))" for e :: "('a, 'b) connection_entry"
    by (rule entry_step_trans [OF cancel_idle_timer_step entry_step_trans [OF touch_step add_consumer_step]])
  let ?new = "entry_new_with_key now fresh config key (cr_config r) False :: ('a, 'b) connection_entry"
  have new: "ce_connection_id ?new = fresh" "ce_key ?new = key" "entry_ok ?new"
    by (simp_all add: entry_new_with_key_def entry_ok_def)
  have "pool_ok S (fst (acquire now fresh key config c r)) \<and>
    get_entry (snd (acquire now fresh key config c r)) (fst (acquire now fresh key config c r))
      = Some (add_consumer c (touch now (cancel_idle_timer
          (case map_of (cr_by_key r) key of Some e \<Rightarrow> e | None \<Rightarrow> ?new))))"
  proof (cases "map_of (cr_by_key r) key")
    case None
    let ?e = "add_consumer c (touch now (cancel_idle_timer ?new))"
    have e: "ce_connection_id ?e = fresh" "ce_key ?e = key" "entry_ok ?e"
      using st [of ?new] new by (auto simp: entry_step_def)
    have "map_of (cr_by_id r) fresh = None" "fresh \<notin> fst ` set (cr_timers r)"
      using fresh by (simp_all add: unused_id_def)
    then show ?thesis
      using new_entry_pool [OF ok None _ _ e] None new(1) by (simp add: acquire_def Let_def)
  next
    case (Some e)
    then show ?thesis
      using put_entry_pool [OF ok Some st] get_put_entry [OF ok Some] by (simp add: acquire_def Let_def)
  qed
  then show "pool_ok S (fst (acquire now fresh key config c r))"
    and "get_entry (snd (acquire now fresh key config c r)) (fst (acquire now fresh key config c r))
      = Some (add_consumer c (touch now (cancel_idle_timer
          (case map_of (cr_by_key r) key of Some e \<Rightarrow> e | None \<Rightarrow> ?new))))"
    by blast+
qed

lemma acquire_dedicated_pool:
  assumes ok: "pool_ok S r" and fresh: "unused_id fresh r" and key: "map_of (cr_by_key r) key = None"
  shows "pool_ok S (fst (acquire_dedicated now fresh key config c r))"
  using assms by (simp add: acquire_dedicated_def unused_id_def Let_def)
    (rule new_entry_pool(1), simp_all add: entry_new_with_key_def entry_ok_def)

lemma set_idle_timeout_pool:
  assumes "pool_ok S r"
  shows "pool_ok S (set_idle_timeout now timeout r)"
proof -
  let ?f = "\<lambda>key r. case map_of (cr_by_key r) key of None \<Rightarrow> r
      | Some e \<Rightarrow> (let e1 = cancel_idle_timer e in
         if ce_state e1 = StIdle \<and> ce_ref_count e1 = 0 \<and> \<not> ce_keep_alive e1
         then start_idle_timer_for_entry now key e1 r else put_entry key e1 r)"
  have one: "pool_ok S (?f key r)" if "pool_ok S r" for key and r :: "('a, 'b) ssh_registry"
    using that put_entry_pool [OF that _ cancel_idle_timer_step] start_idle_timer_pool [OF that _ cancel_idle_timer_step]
    by (auto simp: Let_def split: option.splits)
  have "pool_ok S (fold ?f keys r)" if "pool_ok S r" for keys and r :: "('a, 'b) ssh_registry"
    using that by (induction keys arbitrary: r) (simp_all add: one del: split_paired_All)
  moreover have "pool_ok S (r\<lparr>cr_config := x\<rparr>)" for x
    using pool_ok_cong [of "r\<lparr>cr_config := x\<rparr>" r] assms by simp
  ultimately show ?thesis unfolding set_idle_timeout_def Let_def by simp
qed

lemma maybe_spawn_pool:
  assumes "pool_ok S r"
  shows "pool_ok S (maybe_spawn_remote_env_detection i r)"
proof (cases "cr_runtime r \<and> get_entry i r \<noteq> None")
  case True
  then obtain e where e: "get_entry i r = Some e" by blast
  obtain e1 b where t: "try_begin_remote_env_detection e = (e1, b)" by fastforce
  have "pool_ok S (modify_entry i (\<lambda>_. e1) r)"
    using try_begin_step [of e] t e by (intro modify_entry_pool [OF assms]) simp
  then show ?thesis using True e t by (simp add: maybe_spawn_remote_env_detection_def Let_def)
qed (use assms in \<open>auto simp: maybe_spawn_remote_env_detection_def split: option.splits\<close>)

lemma mark_state_pool:
  assumes "pool_ok S r"
  shows "pool_ok S (fst (mark_state_inner now i st emit reason r))"
proof (cases "get_entry i r")
  case (Some e)
  have "pool_ok S (modify_entry i (\<lambda>_. touch now (e\<lparr>ce_state := st\<rparr>)) r)"
    using Some by (intro modify_entry_pool [OF assms]) (auto intro: entry_step_trans [OF set_state_step touch_step])
  then show ?thesis using Some by (auto simp: mark_state_inner_def Let_def intro!: maybe_spawn_pool)
qed (simp add: mark_state_inner_def assms)

lemma visible_terminal_pool:
  assumes "pool_ok S r"
  shows "pool_ok S (fst (mark_visible_terminal_ready i r))"
proof (cases "get_entry i r")
  case (Some e)
  have "pool_ok S (modify_entry i (\<lambda>_. fst (mark_first_visible_terminal_started e)) r)"
    using Some by (intro modify_entry_pool [OF assms]) (auto intro: visible_terminal_step)
  then show ?thesis
    using Some by (auto simp: mark_visible_terminal_ready_def split_beta Let_def intro!: maybe_spawn_pool)
qed (simp add: mark_visible_terminal_ready_def assms)

lemma emit_status_pool:
  "pool_ok S r \<Longrightarrow> pool_ok S (fst (registry_emit_status_changed now i status children r))"
  by (auto simp: registry_emit_status_changed_def entry_step_def entry_ok_def intro!: modify_entry_pool
      split: option.splits)

lemma set_parent_pool:
  assumes "pool_ok S r"
  shows "pool_ok S (fst (set_parent_connection_id now i p r))"
    and "pool_ok S (fst (set_parent_connection_ownership now i pid pc r))"
proof -
  have step: "entry_step e (touch now ((if p = None then e\<lparr>ce_parent_connection_consumer := None\<rparr> else e)
      \<lparr>ce_parent_connection_id := p\<rparr>))" for e :: "('a, 'b) connection_entry"
    by (auto simp: entry_step_def touch_def entry_ok_def)
  have one: "pool_ok S (put_entry k (touch now ((if p = None then e\<lparr>ce_parent_connection_consumer := None\<rparr> else e)
      \<lparr>ce_parent_connection_id := p\<rparr>)) r)" if "map_of (cr_by_key r) k = Some e" for k e
    by (rule put_entry_pool [OF assms that step])
  show "pool_ok S (fst (set_parent_connection_id now i p r))"
    using assms one by (auto simp: set_parent_connection_id_def Let_def release_retire_pool split: option.splits)
  have "entry_step e (touch now (e\<lparr>ce_parent_connection_id := Some pid, ce_parent_connection_consumer := Some pc\<rparr>))"
    for e :: "('a, 'b) connection_entry"
    by (auto simp: entry_step_def touch_def entry_ok_def)
  then show "pool_ok S (fst (set_parent_connection_ownership now i pid pc r))"
    using assms put_entry_pool [OF assms] by (auto simp: set_parent_connection_ownership_def Let_def split: option.splits)
qed

lemma mark_each_link_down_pool:
  "pool_ok S r \<Longrightarrow> pool_ok S (fst (mark_each_link_down now ids r))"
proof (induction now ids r rule: mark_each_link_down.induct)
  case (2 now i ids r)
  show ?case
  proof (cases "\<exists>e. get_entry i r = Some e \<and> link_can_go_down (ce_state e)")
    case True
    then obtain e where e: "get_entry i r = Some e" "link_can_go_down (ce_state e)" by blast
    obtain r1 info where m: "mark_state_inner now i StLinkDown False [] r = (r1, info)" by fastforce
    have "pool_ok S r1" using mark_state_pool [OF "2.prems", of now i StLinkDown False "[]"] m by simp
    then have "pool_ok S (fst (mark_each_link_down now ids r1))"
      using "2.IH"(3) [OF e(1) _ m [symmetric]] e(2) by simp
    then show ?thesis using e m by (simp add: split_beta Let_def)
  next
    case False
    then show ?thesis using "2.IH"(1,2) "2.prems" by (auto split: option.splits)
  qed
qed simp

lemma link_down_cascade_pool:
  assumes "pool_ok S r" and "mark_link_down_cascade now root r = Some (r', changed)"
  shows "pool_ok S r'"
  using assms
  by (auto simp: mark_link_down_cascade_def Let_def split_beta simp del: mark_each_link_down.simps
      intro!: mark_each_link_down_pool emit_status_pool split: if_splits option.splits)

lemma transport_lost_pool:
  assumes "pool_ok S r" and "mark_transport_lost_cascade now root reason r = Some (r', changed)"
  shows "pool_ok S r'"
proof -
  obtain r1 where c: "mark_link_down_cascade now root r = Some (r1, changed)"
    and r': "r' = emit_state root StLinkDown reason
      (fold (\<lambda>info. modify_entry (ci_connection_id info) (clear_physical now)) changed r1)"
    using assms(2) by (auto simp: mark_transport_lost_cascade_def Let_def split: option.splits)
  have "pool_ok S (fold (\<lambda>info. modify_entry (ci_connection_id info) (clear_physical now)) infos r2)"
    if "pool_ok S r2" for infos and r2 :: "('a, 'b) ssh_registry"
    using that by (induction infos arbitrary: r2) (auto intro: modify_entry_pool clear_physical_step)
  then show ?thesis using link_down_cascade_pool [OF assms(1) c] by (simp add: r')
qed

lemma acquire_consumer_pool:
  assumes "pool_ok S r"
  shows "pool_ok S (fst (acquire_consumer_for_connection now i c r))"
proof (cases "get_entry i r")
  case (Some e)
  let ?e1 = "touch now (if c \<in> set (ce_consumers e) then e
      else let e1 = add_consumer c e in
        if ce_ref_count e = 0
        then let e2 = cancel_idle_timer e1 in
             if ce_state e2 = StIdle \<and> ce_physical e2 \<noteq> None then e2\<lparr>ce_state := StActive\<rparr> else e2
        else e1)"
  have st: "entry_step e ?e1"
    by (auto simp: entry_step_def entry_ok_def touch_def add_consumer_def cancel_idle_timer_def Let_def)
  have "fst (acquire_consumer_for_connection now i c r) = modify_entry i (\<lambda>_. ?e1) r"
    by (simp only: acquire_consumer_for_connection_def Some option.case Let_def fst_conv)
  moreover have "pool_ok S (modify_entry i (\<lambda>_. ?e1) r)"
    by (rule modify_entry_pool [OF assms]) (use st Some in \<open>simp only: option.inject\<close>)
  ultimately show ?thesis by simp
qed (simp add: acquire_consumer_for_connection_def assms)

lemma mark_sftp_pool: "pool_ok S r \<Longrightarrow> pool_ok S (fst (mark_sftp_session now i ready cwd r))"
  by (auto simp: mark_sftp_session_def Let_def entry_step_def entry_ok_def touch_def
      intro!: modify_entry_pool split: option.splits)

lemma keep_alive_pool:
  assumes "pool_ok S r"
  shows "pool_ok S (fst (registry_set_keep_alive now i keep r))"
proof (cases "get_entry i r")
  case None
  then show ?thesis using assms by (auto simp: registry_set_keep_alive_def get_entry_def split: option.splits)
next
  case (Some e)
  note e = get_entry_pool [OF assms Some]
  have st: "entry_step e (e\<lparr>ce_keep_alive := keep\<rparr>)" by (simp add: entry_step_def entry_ok_def)
  have "pool_ok S (put_entry (ce_key e) (e\<lparr>ce_keep_alive := keep\<rparr>) r)"
    "pool_ok S (put_entry (ce_key e) (cancel_idle_timer (e\<lparr>ce_keep_alive := keep\<rparr>)) r)"
    "pool_ok S (start_idle_timer_for_entry now (ce_key e) (e\<lparr>ce_keep_alive := keep\<rparr>) r)"
    using put_entry_pool [OF assms e(2) st] start_idle_timer_pool [OF assms e(2) st]
      put_entry_pool [OF assms e(2) entry_step_trans [OF st cancel_idle_timer_step]] by simp_all
  then show ?thesis
    using e(1,2) by (auto simp: registry_set_keep_alive_def Let_def intro!: modify_entry_pool touch_step)
qed

lemma disconnect_one_pool:
  assumes "pool_ok S r"
  shows "pool_ok S (disconnect_idle_timed_out_connection now i reason r)"
proof -
  have c: "pool_ok S (modify_entry i cancel_idle_timer r)"
    by (rule modify_entry_pool [OF assms cancel_idle_timer_step])
  have rest: "pool_ok S (fst (retire_connection now i (with_emitter f
      (fst (mark_state_without_event now i StDisconnected (modify_entry i (clear_physical now) r2))))))"
    if "pool_ok S r2" for f and r2 :: "('a, 'b) ssh_registry"
    using mark_state_pool [OF modify_entry_pool [OF that clear_physical_step]]
    by (intro release_retire_pool(2)) (simp add: mark_state_without_event_def)
  show ?thesis
    using assms c release_retire_pool(1) [OF c]
    by (auto simp: disconnect_idle_timed_out_connection_def Let_def intro!: rest split: option.splits)
qed

lemma disconnect_idle_pool:
  assumes "pool_ok S r" and "disconnect_if_idle_timeout now root g r = Some r'"
  shows "pool_ok S r'"
proof -
  have "pool_ok S (fold (\<lambda>i. disconnect_idle_timed_out_connection now i reason) ids r2)"
    if "pool_ok S r2" for reason ids and r2 :: "('a, 'b) ssh_registry"
    using that by (induction ids arbitrary: r2) (simp_all add: disconnect_one_pool)
  then show ?thesis
    using assms by (auto simp: disconnect_if_idle_timeout_def Let_def intro!: disconnect_one_pool
        split: option.splits if_splits)
qed

lemma link_recovered_pool: "pool_ok S r \<Longrightarrow> pool_ok S (link_recovered now i st r)"
  unfolding link_recovered_def Let_def mark_state_without_event_def
  by (auto intro!: emit_status_pool mark_state_pool modify_entry_pool heartbeat_ok_step)

lemma probe_pool:
  assumes "pool_ok S r"
  shows "pool_ok S (fst (probe_active_result now i res r))" and "pool_ok S (fst (probe_active_second now i res r))"
    and "pool_ok S (fst (probe_single_result now i st res r))" and "pool_ok S (fst (probe_single_second now i st res r))"
proof -
  have f: "entry_step e (e\<lparr>ce_heartbeat_failures := n\<rparr>)" for n and e :: "('a, 'b) connection_entry"
    by (simp add: entry_step_def entry_ok_def)
  show "pool_ok S (fst (probe_active_result now i res r))" and "pool_ok S (fst (probe_active_second now i res r))"
    and "pool_ok S (fst (probe_single_result now i st res r))" and "pool_ok S (fst (probe_single_second now i st res r))"
    using assms f by (cases res; auto simp: probe_active_result_def probe_active_second_def probe_single_result_def
        probe_single_second_def Let_def mark_state_without_event_def
        intro!: modify_entry_pool heartbeat_ok_step link_recovered_pool mark_state_pool)+
qed

end
