(* ===== verification/Ssh_Runs.thy ===== *)
theory Ssh_Runs
  imports Ssh_Pool
begin

text \<open>
  Runs of the connection registry: its operations in any order, the accounting of the consumers,
  the idle timers and the walk over the tree of tunnelled connections.
\<close>

subsection \<open>Steps and reachable registries\<close>

text \<open>
  An identifier given to a new connection is a random one that was never used. A timer may fire at
  any time after it was started, with whatever the registry holds by then; a keepalive probe
  may report any result.
\<close>

inductive ssh_step :: "('p, 's) ssh_registry \<Rightarrow> ('p, 's) ssh_registry \<Rightarrow> bool" where
  step_runtime: "ssh_step r (set_task_runtime r)"
| step_emitter: "ssh_step r (set_node_event_emitter em r)"
| step_acquire: "unused_id fresh r \<Longrightarrow> ssh_step r (fst (acquire now fresh key config c r))"
| step_dedicated: "unused_id fresh r \<Longrightarrow> map_of (cr_by_key r) key = None
    \<Longrightarrow> ssh_step r (fst (acquire_dedicated now fresh key config c r))"
| step_acquire_consumer: "ssh_step r (fst (acquire_consumer_for_connection now i c r))"
| step_release: "ssh_step r (release now i c r)"
| step_retire: "ssh_step r (fst (retire_connection now i r))"
| step_physical: "ssh_step r (modify_entry i (set_physical now p) r)"
| step_remote_env: "ssh_step r (modify_entry i (\<lambda>e. fst (entry_set_remote_env env e)) r)"
| step_mark_state: "ssh_step r (fst (mark_state now i st r))"
| step_mark_quietly: "ssh_step r (fst (mark_state_without_event now i st r))"
| step_visible_terminal: "ssh_step r (fst (mark_visible_terminal_ready i r))"
| step_set_parent: "ssh_step r (fst (set_parent_connection_id now i p r))"
| step_set_owner: "ssh_step r (fst (set_parent_connection_ownership now i pid pc r))"
| step_link_down: "mark_link_down_cascade now i r = Some (r', changed) \<Longrightarrow> ssh_step r r'"
| step_transport_lost: "mark_transport_lost_cascade now i reason r = Some (r', changed) \<Longrightarrow> ssh_step r r'"
| step_mark_sftp: "ssh_step r (fst (mark_sftp_session now i ready cwd r))"
| step_keep_alive: "ssh_step r (fst (registry_set_keep_alive now i keep r))"
| step_idle_timeout: "ssh_step r (set_idle_timeout now timeout r)"
| step_timer: "(i, g, d) \<in> set (cr_timers r) \<Longrightarrow> disconnect_if_idle_timeout now i g r = Some r' \<Longrightarrow> ssh_step r r'"
| step_probe: "probe_active_due i r = None \<Longrightarrow> ssh_step r (fst (probe_active_result now i res r))"
| step_probe_again: "ssh_step r (fst (probe_active_second now i res r))"
| step_probe_single: "probe_single_due i r = Inr st \<Longrightarrow> ssh_step r (fst (probe_single_result now i st res r))"
| step_probe_single_again: "ssh_step r (fst (probe_single_second now i st res r))"

inductive_cases ssh_stepE: "ssh_step r r'"

definition ssh_reach :: "('p, 's) ssh_registry \<Rightarrow> bool" where
  "ssh_reach r \<longleftrightarrow> (\<exists>config. ssh_step\<^sup>*\<^sup>* (ssh_registry_new config) r)"

lemma ssh_step_pool: "ssh_step r r' \<Longrightarrow> pool_ok S r \<Longrightarrow> pool_ok S r'"
proof (induction rule: ssh_step.induct)
  case (step_runtime r)
  then show ?case using pool_ok_cong [of "set_task_runtime r" r] by (simp add: set_task_runtime_def)
next
  case (step_emitter r em)
  then show ?case using pool_ok_cong [of "set_node_event_emitter em r" r] by (simp add: set_node_event_emitter_def)
next
  case (step_physical r i now p)
  then show ?case
    by (auto intro!: modify_entry_pool simp: entry_step_def set_physical_def touch_def entry_ok_def)
next
  case (step_remote_env r i env)
  then show ?case
    by (auto intro!: modify_entry_pool simp: entry_step_def entry_set_remote_env_def touch_def entry_ok_def)
qed (auto simp: mark_state_def mark_state_without_event_def
    intro: acquire_pool acquire_dedicated_pool acquire_consumer_pool release_retire_pool mark_state_pool
      visible_terminal_pool set_parent_pool link_down_cascade_pool transport_lost_pool mark_sftp_pool
      keep_alive_pool set_idle_timeout_pool disconnect_idle_pool probe_pool)

lemma ssh_steps_pool: "ssh_step\<^sup>*\<^sup>* r r' \<Longrightarrow> pool_ok S r \<Longrightarrow> pool_ok S r'"
  by (induction rule: rtranclp_induct) (auto intro: ssh_step_pool)

lemma new_pool: "pool_ok {} (ssh_registry_new config)"
  by (simp add: pool_ok_def ssh_registry_new_def seen_generations_def get_entry_def)

lemma reach_pool: "ssh_reach r \<Longrightarrow> pool_ok {} r"
  using ssh_steps_pool new_pool by (auto simp: ssh_reach_def)

lemma pool_ok_empty: "pool_ok S r \<Longrightarrow> pool_ok {} r"
  unfolding pool_ok_def seen_generations_def by blast

subsection \<open>The tree of tunnelled connections\<close>

definition tunnels :: "('p, 's) ssh_registry \<Rightarrow> (bytes \<times> bytes) set" where
  "tunnels r = {(p, c). \<exists>e. get_entry c r = Some e \<and> ce_parent_connection_id e = Some p}"

lemma in_by_key: "pool_ok S r \<Longrightarrow> (k, e) \<in> set (cr_by_key r) \<longleftrightarrow> map_of (cr_by_key r) k = Some e"
  by (simp add: pool_ok_def)

lemma set_child_ids:
  assumes "pool_ok S r"
  shows "set (child_ids r p) = {c. (p, c) \<in> tunnels r}"
proof -
  have "(\<exists>k e. (k, e) \<in> set (cr_by_key r) \<and> ce_parent_connection_id e = Some p \<and> c = ce_connection_id e)
      \<longleftrightarrow> (\<exists>e. get_entry c r = Some e \<and> ce_parent_connection_id e = Some p)" for c
    unfolding in_by_key [OF assms] using by_key_pool [OF assms] get_entry_pool [OF assms] by metis
  then show ?thesis unfolding child_ids_def tunnels_def by (simp add: image_iff set_eq_iff split_beta)
qed

lemma distinct_child_ids:
  assumes ok: "pool_ok S r"
  shows "distinct (child_ids r p)"
proof -
  have "inj_on (\<lambda>(key, e). ce_connection_id e) (set (cr_by_key r))"
  proof (rule inj_onI)
    fix x y assume x: "x \<in> set (cr_by_key r)" and y: "y \<in> set (cr_by_key r)"
      and eq: "(\<lambda>(key, e). ce_connection_id e) x = (\<lambda>(key, e). ce_connection_id e) y"
    obtain k e k' e' where xy: "x = (k, e)" "y = (k', e')" by fastforce
    have m: "map_of (cr_by_key r) k = Some e" "map_of (cr_by_key r) k' = Some e'"
      using x y unfolding xy in_by_key [OF ok] .
    then have "k = k'" using by_key_pool(2) [OF ok m(1)] by_key_pool(2) [OF ok m(2)] eq by (simp add: xy)
    then show "x = y" using m by (simp add: xy)
  qed
  then have "inj_on (\<lambda>(key, e). ce_connection_id e)
      (set (filter (\<lambda>(key, e). ce_parent_connection_id e = Some p) (cr_by_key r)))"
    by (rule inj_on_subset) auto
  moreover have "distinct (cr_by_key r)" using ok by (simp add: pool_ok_def distinct_map)
  ultimately show ?thesis unfolding child_ids_def distinct_map by simp
qed

lemma infos_of_ids:
  assumes "pool_ok S r" and "\<forall>i\<in>set ids. get_entry i r \<noteq> None"
  shows "map ci_connection_id (infos_of r ids) = ids"
  using assms(2)
proof (induction ids)
  case (Cons i ids)
  then obtain e where e: "get_entry i r = Some e" by auto
  then have "ce_connection_id e = i" by (rule get_entry_pool(3) [OF assms(1)])
  then show ?case using Cons e by (simp add: infos_of_def entry_info_def)
qed (simp add: infos_of_def)

lemma infos_of_entries: "info \<in> set (infos_of r ids) \<Longrightarrow> \<exists>i\<in>set ids. map_option entry_info (get_entry i r) = Some info"
  by (force simp: infos_of_def split: option.splits)

lemma finite_tunnels:
  assumes "pool_ok S r"
  shows "finite (tunnels r)"
proof -
  have "tunnels r \<subseteq> (\<lambda>c. (the (ce_parent_connection_id (the (get_entry c r))), c)) ` fst ` set (cr_by_id r)"
  proof
    fix x assume "x \<in> tunnels r"
    then obtain p c e where x: "x = (p, c)" "get_entry c r = Some e" "ce_parent_connection_id e = Some p"
      by (auto simp: tunnels_def)
    have "c \<in> fst ` set (cr_by_id r)"
      using get_entry_pool(1) [OF assms x(2)] by (force simp: image_iff dest: map_of_SomeD)
    then show "x \<in> (\<lambda>c. (the (ce_parent_connection_id (the (get_entry c r))), c)) ` fst ` set (cr_by_id r)"
      using x by force
  qed
  then show ?thesis by (rule finite_subset) simp
qed

text \<open>A connection has one parent: whatever reaches it passes there.\<close>

lemma tunnels_parent: "(p, c) \<in> tunnels r \<Longrightarrow> (p', c) \<in> tunnels r \<Longrightarrow> p' = p"
  by (auto simp: tunnels_def)

lemma tunnels_above:
  assumes "(p, c) \<in> tunnels r" and "(x, c) \<in> (tunnels r)\<^sup>+"
  shows "(x, p) \<in> (tunnels r)\<^sup>*"
proof -
  obtain p' where "(x, p') \<in> (tunnels r)\<^sup>*" "(p', c) \<in> tunnels r" using tranclD2 [OF assms(2)] by blast
  then show ?thesis using tunnels_parent assms(1) by metis
qed

lemma tunnels_linear:
  assumes "(x, i) \<in> (tunnels r)\<^sup>*" and "(y, i) \<in> (tunnels r)\<^sup>*"
  shows "(x, y) \<in> (tunnels r)\<^sup>* \<or> (y, x) \<in> (tunnels r)\<^sup>*"
  using assms
proof (induction rule: rtrancl_induct)
  case (step p c)
  show ?case
  proof (cases "y = c")
    case True
    then show ?thesis using step.hyps by (blast intro: rtrancl_into_rtrancl)
  next
    case False
    then have "(y, c) \<in> (tunnels r)\<^sup>+" using step.prems by (simp add: rtrancl_eq_or_trancl)
    then show ?thesis using step tunnels_above by metis
  qed
qed simp

lemma cycle_upwards:
  assumes "(x, y) \<in> (tunnels r)\<^sup>*" and "(y, y) \<in> (tunnels r)\<^sup>+"
  shows "(x, x) \<in> (tunnels r)\<^sup>+"
  using assms
proof (induction rule: converse_rtrancl_induct)
  case (step p c)
  then have "(c, p) \<in> (tunnels r)\<^sup>*" using tunnels_above by blast
  then show ?case using step.hyps(1) by (meson rtrancl_into_trancl2)
qed

text \<open>What the walk adds for one connection: everything below it, each connection once.\<close>

definition below :: "('p, 's) ssh_registry \<Rightarrow> bytes \<Rightarrow> connection_info list \<Rightarrow> bool" where
  "below r x D \<longleftrightarrow>
     (\<forall>rest ds. descendants_loop r (x # rest) ds = descendants_loop r rest (ds @ D))
     \<and> distinct (map ci_connection_id D) \<and> ci_connection_id ` set D = (tunnels r)\<^sup>+ `` {x}
     \<and> (\<forall>info\<in>set D. \<exists>i. map_option entry_info (get_entry i r) = Some info)"

lemma descendants_loop_Nil: "descendants_loop r [] ds = Some ds"
  by (subst descendants_loop.simps) simp

lemma descendants_loop_Cons:
  "descendants_loop r (x # rest) ds
    = descendants_loop r (rev (child_ids r x) @ rest) (ds @ infos_of r (child_ids r x))"
  by (subst descendants_loop.simps) simp

lemma loop_over_below:
  "\<forall>y\<in>set ys. below r y (D y)
    \<Longrightarrow> descendants_loop r (ys @ rest) ds = descendants_loop r rest (ds @ concat (map D ys))"
  by (induction ys arbitrary: ds) (auto simp: below_def)

lemma children_apart:
  assumes nc: "(x, x) \<notin> (tunnels r)\<^sup>+" and c: "(x, c) \<in> tunnels r" and c': "(x, c') \<in> tunnels r"
  shows "(c, c') \<notin> (tunnels r)\<^sup>+" and "c \<noteq> c' \<Longrightarrow> (tunnels r)\<^sup>+ `` {c} \<inter> (tunnels r)\<^sup>+ `` {c'} = {}"
proof -
  have apart: "(a, b) \<notin> (tunnels r)\<^sup>+" if a: "(x, a) \<in> tunnels r" and b: "(x, b) \<in> tunnels r" for a b
  proof
    assume "(a, b) \<in> (tunnels r)\<^sup>+"
    then have "(a, x) \<in> (tunnels r)\<^sup>*" using tunnels_above b by blast
    then show False using nc a by (meson rtrancl_into_trancl2)
  qed
  then show "(c, c') \<notin> (tunnels r)\<^sup>+" using c c' .
  assume ne: "c \<noteq> c'"
  show "(tunnels r)\<^sup>+ `` {c} \<inter> (tunnels r)\<^sup>+ `` {c'} = {}"
  proof (rule ccontr)
    assume "(tunnels r)\<^sup>+ `` {c} \<inter> (tunnels r)\<^sup>+ `` {c'} \<noteq> {}"
    then obtain i where "(c, i) \<in> (tunnels r)\<^sup>+" "(c', i) \<in> (tunnels r)\<^sup>+" by blast
    then have "(c, c') \<in> (tunnels r)\<^sup>* \<or> (c', c) \<in> (tunnels r)\<^sup>*"
      using tunnels_linear by (meson trancl_into_rtrancl)
    then have "(c, c') \<in> (tunnels r)\<^sup>+ \<or> (c', c) \<in> (tunnels r)\<^sup>+" using ne by (auto simp: rtrancl_eq_or_trancl)
    then show False using apart c c' by blast
  qed
qed

lemma distinct_concat_disjoint:
  assumes "distinct xs" and "\<And>x. x \<in> set xs \<Longrightarrow> distinct (f x)"
    and "\<And>x y. x \<in> set xs \<Longrightarrow> y \<in> set xs \<Longrightarrow> x \<noteq> y \<Longrightarrow> set (f x) \<inter> set (f y) = {}"
  shows "distinct (concat (map f xs))"
  using assms by (induction xs) auto

lemma trancl_from: "r\<^sup>+ `` {x} = r `` {x} \<union> (\<Union>c\<in>r `` {x}. r\<^sup>+ `` {c})"
proof (rule set_eqI)
  fix y show "y \<in> r\<^sup>+ `` {x} \<longleftrightarrow> y \<in> r `` {x} \<union> (\<Union>c\<in>r `` {x}. r\<^sup>+ `` {c})"
    by (auto elim: converse_tranclE intro: trancl_into_trancl2)
qed

lemma below_step:
  assumes ok: "pool_ok S r" and nc: "(x, x) \<notin> (tunnels r)\<^sup>+"
    and IH: "\<forall>c\<in>set (child_ids r x). below r c (D c)"
  shows "below r x (infos_of r (child_ids r x) @ concat (map D (rev (child_ids r x))))"
proof -
  let ?cs = "child_ids r x"
  let ?D = "infos_of r ?cs @ concat (map D (rev ?cs))"
  note cs = set_child_ids [OF ok, of x]
  have "\<forall>c\<in>set ?cs. get_entry c r \<noteq> None" unfolding cs by (auto simp: tunnels_def)
  then have ids: "map ci_connection_id (infos_of r ?cs) = ?cs" by (rule infos_of_ids [OF ok])
  then have ids': "ci_connection_id ` set (infos_of r ?cs) = set ?cs" by (metis list.set_map)
  have D: "distinct (map ci_connection_id (D c))" "ci_connection_id ` set (D c) = (tunnels r)\<^sup>+ `` {c}"
    if "c \<in> set ?cs" for c using IH that by (simp_all add: below_def)
  have "descendants_loop r (x # rest) ds = descendants_loop r rest (ds @ ?D)" for rest ds
    unfolding descendants_loop_Cons using loop_over_below [of "rev ?cs" r D] IH by simp
  moreover have "distinct (map ci_connection_id ?D)"
  proof -
    have "distinct (concat (map (\<lambda>c. map ci_connection_id (D c)) (rev ?cs)))"
      using distinct_child_ids [OF ok] D children_apart(2) [OF nc] cs
      by (intro distinct_concat_disjoint) auto
    moreover have "set ?cs \<inter> (\<Union>c\<in>set ?cs. (tunnels r)\<^sup>+ `` {c}) = {}"
      using children_apart(1) [OF nc] cs by auto
    ultimately show ?thesis
      using distinct_child_ids [OF ok] D by (auto simp: ids map_concat comp_def ids')
  qed
  moreover have "ci_connection_id ` set ?D = (tunnels r)\<^sup>+ `` {x}"
    using D by (subst trancl_from) (simp add: image_Un image_UN ids' cs Image_singleton)
  moreover have "\<forall>info\<in>set ?D. \<exists>i. map_option entry_info (get_entry i r) = Some info"
  proof
    fix info assume "info \<in> set ?D"
    then consider "info \<in> set (infos_of r ?cs)" | c where "c \<in> set ?cs" "info \<in> set (D c)" by auto
    then show "\<exists>i. map_option entry_info (get_entry i r) = Some info"
    proof cases
      case 1
      then show ?thesis using infos_of_entries by blast
    next
      case 2
      then show ?thesis using IH unfolding below_def by blast
    qed
  qed
  ultimately show ?thesis unfolding below_def by blast
qed

lemma below_exists:
  assumes ok: "pool_ok S r"
  shows "(x, x) \<notin> (tunnels r)\<^sup>+ \<Longrightarrow> \<exists>D. below r x D"
proof -
  let ?R = "{(p, c). (p, c) \<in> tunnels r \<and> (p, p) \<notin> (tunnels r)\<^sup>+}"
  have sub: "?R \<subseteq> tunnels r" by blast
  have "acyclic ?R"
  proof (rule acyclicI, intro allI notI)
    fix y assume y: "(y, y) \<in> ?R\<^sup>+"
    then have "(y, y) \<in> (tunnels r)\<^sup>+" by (rule trancl_mono [OF _ sub])
    moreover have "(y, y) \<notin> (tunnels r)\<^sup>+" using tranclD [OF y] by blast
    ultimately show False by blast
  qed
  then have wf: "wf (?R\<inverse>)"
    using finite_subset [OF sub finite_tunnels [OF ok]] by (intro finite_acyclic_wf_converse)
  show "(x, x) \<notin> (tunnels r)\<^sup>+ \<Longrightarrow> \<exists>D. below r x D"
  proof (induction x rule: wf_induct_rule [OF wf])
    case (1 x)
    have "\<exists>D. below r c D" if "c \<in> set (child_ids r x)" for c
    proof -
      have c: "(x, c) \<in> tunnels r" using that by (simp add: set_child_ids [OF ok])
      then have "(c, c) \<notin> (tunnels r)\<^sup>+" using cycle_upwards [of x c] "1.prems" by blast
      then show ?thesis using "1.IH" c "1.prems" by blast
    qed
    then obtain D where "\<forall>c\<in>set (child_ids r x). below r c (D c)" by metis
    then show ?case using below_step [OF ok "1.prems"] by blast
  qed
qed

lemma walk_needs_no_cycle:
  "descendants_loop r stack ds = Some out \<Longrightarrow> pool_ok S r \<longrightarrow> (\<forall>x\<in>set stack. (x, x) \<notin> (tunnels r)\<^sup>+)"
proof (erule descendants_loop.raw_induct [rotated])
  fix loop and r :: "('a, 'b) ssh_registry" and stack ds out
  assume 1: "\<And>r stack ds out. loop r stack ds = Some out
      \<Longrightarrow> pool_ok S r \<longrightarrow> (\<forall>x\<in>set stack. (x, x) \<notin> (tunnels r)\<^sup>+)"
    and 2: "(case stack of [] \<Rightarrow> Some ds
      | p # rest \<Rightarrow> loop r (rev (child_ids r p) @ rest) (ds @ infos_of r (child_ids r p))) = Some out"
  show "pool_ok S r \<longrightarrow> (\<forall>x\<in>set stack. (x, x) \<notin> (tunnels r)\<^sup>+)"
  proof (cases stack)
    case (Cons p rest)
    then have "loop r (rev (child_ids r p) @ rest) (ds @ infos_of r (child_ids r p)) = Some out"
      using 2 by simp
    then have IH: "pool_ok S r \<longrightarrow> (\<forall>x\<in>set (rev (child_ids r p) @ rest). (x, x) \<notin> (tunnels r)\<^sup>+)" by (rule 1)
    show ?thesis
    proof (intro impI ballI notI)
      fix x assume ok: "pool_ok S r" and x: "x \<in> set stack" and cyc: "(x, x) \<in> (tunnels r)\<^sup>+"
      show False
      proof (cases "x = p")
        case True
        then obtain c where c: "(p, c) \<in> tunnels r" "(c, p) \<in> (tunnels r)\<^sup>*" using tranclD [OF cyc] by blast
        then have "(c, c) \<in> (tunnels r)\<^sup>+" by (meson rtrancl_into_trancl1)
        then show False using IH ok c(1) by (auto simp: set_child_ids [OF ok])
      next
        case False
        then show False using IH ok x cyc Cons by auto
      qed
    qed
  qed simp
qed

text \<open>
  C15: collecting the connections tunnelled through a connection ends exactly when the connection is not, through
  its parents, below itself, and then it gives every connection below it once, with its current
  information.
\<close>

theorem descendants_walk_ends:
  assumes "ssh_reach r" and "get_entry root r \<noteq> None"
  shows "if (root, root) \<in> (tunnels r)\<^sup>+ then descendant_connection_infos root r = None
    else \<exists>infos. descendant_connection_infos root r = Some infos
      \<and> distinct (map ci_connection_id infos) \<and> ci_connection_id ` set infos = (tunnels r)\<^sup>+ `` {root}
      \<and> (\<forall>info\<in>set infos. \<exists>i. map_option entry_info (get_entry i r) = Some info)"
proof (cases "(root, root) \<in> (tunnels r)\<^sup>+")
  case True
  then have "descendants_loop r [root] [] = None"
    using walk_needs_no_cycle [of r "[root]" "[]"] reach_pool [OF assms(1)] by (cases "descendants_loop r [root] []") auto
  then show ?thesis using True assms(2) by (simp add: descendant_connection_infos_def)
next
  case False
  then obtain D where D: "below r root D" using below_exists [OF reach_pool [OF assms(1)]] by blast
  then have "descendants_loop r [root] [] = Some D" by (simp add: below_def descendants_loop_Nil)
  then have "descendant_connection_infos root r = Some D"
    using assms(2) by (simp only: descendant_connection_infos_def if_False)
  then show ?thesis using False D unfolding below_def by auto
qed

subsection \<open>Consumers and idle timers\<close>

text \<open>
  C10: whatever the order of the operations, the entry that an identifier leads to is the one registered under its own
  key and identifier, no two entries share an identifier, no consumer is counted twice, and the
  reference count is the number of consumers.
\<close>

theorem registry_entries_consistent:
  assumes "ssh_reach r" and "get_entry i r = Some e"
  shows "ce_connection_id e = i \<and> map_of (cr_by_id r) i = Some (ce_key e)
    \<and> map_of (cr_by_key r) (ce_key e) = Some e \<and> distinct (ce_consumers e)
    \<and> ce_ref_count e = length (ce_consumers e)
    \<and> (\<forall>k e'. map_of (cr_by_key r) k = Some e' \<longrightarrow> ce_connection_id e' = i \<longrightarrow> k = ce_key e)"
proof -
  note e = get_entry_pool [OF reach_pool [OF assms(1)] assms(2)]
  have "k = ce_key e" if "map_of (cr_by_key r) k = Some e'" and "ce_connection_id e' = i" for k e'
    using by_key_pool(2) [OF reach_pool [OF assms(1)] that(1)] that(2) e(1) by simp
  moreover have "distinct (ce_consumers e)" "ce_ref_count e = length (ce_consumers e)"
    using e(4) by (simp_all add: entry_ok_def)
  ultimately show ?thesis using e(1-3) by blast
qed

text \<open>Taking a connection, shared or by its identifier, when nothing used it.\<close>

inductive taken :: "bytes \<Rightarrow> ('p, 's) ssh_registry \<Rightarrow> ('p, 's) ssh_registry \<Rightarrow> bool" where
  "unused_id fresh r \<Longrightarrow> acquire now fresh key config c r = (r1, i) \<Longrightarrow> taken i r r1"
| "get_entry i r = Some e \<Longrightarrow> ce_ref_count e = 0
    \<Longrightarrow> acquire_consumer_for_connection now i c r = (r1, True) \<Longrightarrow> taken i r r1"

lemma observe_generation:
  assumes "pool_ok S r" and "get_entry i r = Some e" and "g \<le> ce_idle_generation e"
    and "i \<in> fst ` set (cr_timers r)"
  shows "pool_ok {(i, g)} r"
proof -
  have "g' \<le> ce_idle_generation x" if "(j, g') \<in> seen_generations {(i, g)} r" and "get_entry j r = Some x" for j g' x
  proof (cases "(j, g') = (i, g)")
    case True
    then show ?thesis using assms that by simp
  next
    case False
    then have "(j, g') \<in> seen_generations S r" using that(1) by (auto simp: seen_generations_def)
    then show ?thesis using assms(1) that(2) unfolding pool_ok_def by blast
  qed
  then have "\<forall>j g'. (j, g') \<in> seen_generations {(i, g)} r \<longrightarrow> (\<forall>x. get_entry j r = Some x \<longrightarrow> g' \<le> ce_idle_generation x)"
    by blast
  moreover have "fst ` {(i, g)} \<subseteq> fst ` set (cr_timers r)" using assms(4) by simp
  ultimately show ?thesis using assms(1) unfolding pool_ok_def by (elim conjE) (intro conjI; assumption)
qed

lemma acquire_timers [simp]:
  "cr_timers (fst (acquire now fresh key config c r)) = cr_timers r"
  "cr_timers (fst (acquire_consumer_for_connection now i c r)) = cr_timers r"
  by (auto simp: acquire_def acquire_consumer_for_connection_def modify_entry_def put_entry_def Let_def
      split: option.splits)

lemma taken_generation:
  assumes "taken i r r1" and ok: "pool_ok {} r" and tm: "(i, g, d) \<in> set (cr_timers r)"
  shows "pool_ok {(i, Suc g)} r1"
  using assms(1)
proof cases
  case (1 fresh now key config c)
  note a = acquire_pool [OF ok 1(1), of now key config c]
  have ne: "fresh \<noteq> i" using 1(1) tm by (force simp: unused_id_def)
  have i: "snd (acquire now fresh key config c r) = i" "fst (acquire now fresh key config c r) = r1" using 1(2) by simp_all
  then obtain e where e: "map_of (cr_by_key r) key = Some e" "ce_connection_id e = i"
    using ne by (auto simp: acquire_def Let_def entry_new_with_key_def split: option.splits)
  then have "get_entry i r = Some e" using by_key_pool(3) [OF ok] by blast
  then have "g \<le> ce_idle_generation e" using ok tm unfolding pool_ok_def seen_generations_def by blast
  then have "Suc g \<le> ce_idle_generation (add_consumer c (touch now (cancel_idle_timer e)))"
    by (simp add: add_consumer_def touch_def cancel_idle_timer_def)
  moreover have "i \<in> fst ` set (cr_timers r1)" using tm i(2) acquire_timers(1) by force
  ultimately show ?thesis using observe_generation [OF a(1) a(2)] e i by simp
next
  case (2 e now c)
  have "ce_consumers e = []" using get_entry_pool(4) [OF ok 2(1)] 2(2) by (simp add: entry_ok_def)
  moreover have "g \<le> ce_idle_generation e" using ok tm 2(1) unfolding pool_ok_def seen_generations_def by blast
  ultimately have "\<exists>e1. get_entry i r1 = Some e1 \<and> Suc g \<le> ce_idle_generation e1"
    using 2 by (auto simp: acquire_consumer_for_connection_def Let_def get_modify_entry [OF ok] touch_def
        add_consumer_def cancel_idle_timer_def)
  then obtain e1 where e1: "get_entry i r1 = Some e1" "Suc g \<le> ce_idle_generation e1" by blast
  have "pool_ok {} r1" using acquire_consumer_pool [OF ok, of now i c] 2(3) by simp
  moreover have "i \<in> fst ` set (cr_timers r1)" using tm 2(3) acquire_timers(2) [of now i c r] by force
  ultimately show ?thesis using observe_generation e1 by blast
qed

text \<open>
  C21: an idle timer that was started before a connection was taken into use again does nothing when it fires,
  whatever happened in between: releasing the connection again starts a period of its own.
\<close>

theorem old_idle_timer_is_void:
  assumes "ssh_reach r" and "(i, g, d) \<in> set (cr_timers r)" and "taken i r r1" and "ssh_step\<^sup>*\<^sup>* r1 r2"
  shows "disconnect_if_idle_timeout now i g r2 = Some r2"
proof -
  have ok: "pool_ok {(i, Suc g)} r2"
    using ssh_steps_pool [OF assms(4) taken_generation [OF assms(3) reach_pool [OF assms(1)] assms(2)]] .
  have "ce_idle_generation e \<noteq> g" if "get_entry i r2 = Some e" for e
    using ok that unfolding pool_ok_def seen_generations_def by fastforce
  then show ?thesis by (auto simp: disconnect_if_idle_timeout_def split: option.splits)
qed

subsection \<open>What a release does\<close>

definition without_entry :: "bytes \<Rightarrow> bytes \<Rightarrow> ('p, 's) ssh_registry \<Rightarrow> ('p, 's) ssh_registry" where
  "without_entry i k r = r\<lparr>cr_by_key := AList.delete k (cr_by_key r), cr_by_id := AList.delete i (cr_by_id r)\<rparr>"

lemma registered_entry:
  assumes "pool_ok S r" and "get_entry i r = Some e"
  shows "connection_entry_is_registered i (ce_key e) r"
  using get_entry_pool [OF assms] by (simp add: connection_entry_is_registered_def)

lemma without_entry_pool:
  assumes "pool_ok S r" and "get_entry i r = Some e"
  shows "pool_ok S (without_entry i (ce_key e) r)"
    and "get_entry j (without_entry i (ce_key e) r) = (if j = i then None else get_entry j r)"
proof -
  show "pool_ok S (without_entry i (ce_key e) r)"
    unfolding without_entry_def by (rule delete_pool [OF assms(1) registered_entry [OF assms]])
  note e = get_entry_pool [OF assms]
  have "k \<noteq> ce_key e" if "map_of (cr_by_id r) j = Some k" "j \<noteq> i" for k
  proof -
    have "\<exists>x. map_of (cr_by_key r) k = Some x \<and> ce_connection_id x = j"
      using assms(1) that(1) unfolding pool_ok_def by blast
    then show ?thesis using e(2,3) that(2) by auto
  qed
  then show "get_entry j (without_entry i (ce_key e) r) = (if j = i then None else get_entry j r)"
    by (cases "map_of (cr_by_id r) j") (auto simp: get_entry_def without_entry_def delete_conv')
qed

lemma release_unknown: "pool_ok S r \<Longrightarrow> get_entry i r = None \<Longrightarrow> release now i c r = r"
  by (subst release.simps) (auto simp: get_entry_def split: option.splits)

lemma release_eq:
  assumes "pool_ok S r" and "get_entry i r = Some e"
  shows "release now i c r =
    (let e1 = touch now (remove_consumer c e); r1 = put_entry (ce_key e) e1 r in
     if ce_ref_count e1 = 0
     then if ce_retire_when_unused e1 then fst (retire_connection now i r1)
          else if ce_keep_alive e1 then put_entry (ce_key e) ((cancel_idle_timer e1)\<lparr>ce_state := StIdle\<rparr>) r1
          else start_idle_timer_for_entry now (ce_key e) e1 r1
     else r1)"
  using get_entry_pool [OF assms] by (subst release.simps) (simp add: Let_def)

lemma retire_unknown: "pool_ok S r \<Longrightarrow> get_entry i r = None \<Longrightarrow> fst (retire_connection now i r) = r"
  by (subst retire_connection.simps) (auto simp: get_entry_def split: option.splits)

lemma retire_eq:
  assumes "pool_ok S r" and "get_entry i r = Some e"
  shows "fst (retire_connection now i r) =
    (case parent_ownership e of None \<Rightarrow> without_entry i (ce_key e) r
     | Some (pid, pc) \<Rightarrow> release now pid pc (without_entry i (ce_key e) r))"
  using get_entry_pool [OF assms] registered_entry [OF assms]
  by (subst retire_connection.simps) (simp add: Let_def without_entry_def split: option.splits)

lemma get_start_idle:
  assumes "pool_ok S r" and "map_of (cr_by_key r) k = Some e0" and "ce_connection_id e = ce_connection_id e0"
  shows "get_entry j (start_idle_timer_for_entry now k e r) =
    (if j = ce_connection_id e0 then Some (touch now ((cancel_idle_timer e)\<lparr>ce_state := StIdle\<rparr>)) else get_entry j r)"
proof -
  let ?r1 = "emit_state (ce_connection_id e) StIdle (str_lit ''idle (timer started)'')
      (put_entry k (touch now ((cancel_idle_timer e)\<lparr>ce_state := StIdle\<rparr>)) r)"
  have "get_entry j (?r1\<lparr>cr_timers := t\<rparr>) = get_entry j ?r1" for t by (rule get_entry_cong) simp_all
  then have "get_entry j (start_idle_timer_for_entry now k e r) = get_entry j ?r1"
    by (simp add: start_idle_timer_for_entry_def Let_def split: option.split)
  then show ?thesis by (simp add: get_put_entry [OF assms(1,2)])
qed

text \<open>
  No entry appears, and an entry's state changes to idle or not at all; a released consumer is gone.
\<close>

definition settles :: "('p, 's) ssh_registry \<Rightarrow> ('p, 's) ssh_registry \<Rightarrow> bool" where
  "settles r r' \<longleftrightarrow> (\<forall>j e'. get_entry j r' = Some e' \<longrightarrow>
     (\<exists>e. get_entry j r = Some e \<and> (ce_state e' = ce_state e \<or> ce_state e' = StIdle)
        \<and> set (ce_consumers e') \<subseteq> set (ce_consumers e)))"

lemma settles_refl [simp]: "settles r r"
  by (auto simp: settles_def)

lemma settles_trans:
  assumes "settles a b" and "settles b c"
  shows "settles a c"
  unfolding settles_def
proof (intro allI impI)
  fix j e3 assume "get_entry j c = Some e3"
  then obtain e2 where e2: "get_entry j b = Some e2" "ce_state e3 = ce_state e2 \<or> ce_state e3 = StIdle"
    "set (ce_consumers e3) \<subseteq> set (ce_consumers e2)"
    using assms(2) unfolding settles_def by blast
  obtain e1 where "get_entry j a = Some e1" "ce_state e2 = ce_state e1 \<or> ce_state e2 = StIdle"
    "set (ce_consumers e2) \<subseteq> set (ce_consumers e1)"
    using assms(1) e2(1) unfolding settles_def by blast
  then show "\<exists>e. get_entry j a = Some e \<and> (ce_state e3 = ce_state e \<or> ce_state e3 = StIdle)
      \<and> set (ce_consumers e3) \<subseteq> set (ce_consumers e)"
    using e2 by auto
qed

lemma settles_put:
  assumes "pool_ok S r" and "get_entry i r = Some e" and "ce_state e' = ce_state e \<or> ce_state e' = StIdle"
    and "set (ce_consumers e') \<subseteq> set (ce_consumers e)"
  shows "settles r (put_entry (ce_key e) e' r)"
  using assms get_entry_pool [OF assms(1,2)]
  by (auto simp: settles_def get_put_entry [OF assms(1) get_entry_pool(2) [OF assms(1,2)]])

lemma settles_without:
  assumes "pool_ok S r" and "get_entry i r = Some e"
  shows "settles r (without_entry i (ce_key e) r)"
  by (auto simp: settles_def without_entry_pool(2) [OF assms])

lemma parent_ownership_cong:
  "ce_parent_connection_consumer e' = ce_parent_connection_consumer e
    \<Longrightarrow> ce_parent_connection_id e' = ce_parent_connection_id e \<Longrightarrow> parent_ownership e' = parent_ownership e"
  by (simp only: parent_ownership_def)

text \<open>The registry after a release, before a connection without users is retired.\<close>

definition released :: "nat \<Rightarrow> connection_consumer \<Rightarrow> ('p, 's) connection_entry \<Rightarrow> ('p, 's) ssh_registry \<Rightarrow> ('p, 's) ssh_registry" where
  "released now c e r = put_entry (ce_key e) (touch now (remove_consumer c e)) r"

lemma released_facts:
  assumes "pool_ok S r" and "get_entry i r = Some e"
  shows "pool_ok S (released now c e r)" and "settles r (released now c e r)"
    and "get_entry j (released now c e r) = (if j = i then Some (touch now (remove_consumer c e)) else get_entry j r)"
    and "map_of (cr_by_key (released now c e r)) (ce_key e) = Some (touch now (remove_consumer c e))"
proof -
  note e = get_entry_pool [OF assms]
  show "pool_ok S (released now c e r)"
    unfolding released_def by (rule put_entry_pool [OF assms(1) e(2) entry_step_trans [OF remove_consumer_step touch_step]])
  show "settles r (released now c e r)"
    unfolding released_def by (rule settles_put [OF assms]) (auto simp: touch_def remove_consumer_def Let_def)
  show "get_entry j (released now c e r) = (if j = i then Some (touch now (remove_consumer c e)) else get_entry j r)"
    using e(3) by (simp add: released_def get_put_entry [OF assms(1) e(2)])
  show "map_of (cr_by_key (released now c e r)) (ce_key e) = Some (touch now (remove_consumer c e))"
    by (simp add: released_def put_entry_def update_conv')
qed

text \<open>A release that does not retire the connection.\<close>

lemma release_kept:
  assumes ok: "pool_ok S r" and g: "get_entry i r = Some e"
    and kept: "ce_ref_count (remove_consumer c e) \<noteq> 0 \<or> \<not> ce_retire_when_unused e"
  shows "settles r (release now i c r)"
    and "\<exists>e'. get_entry i (release now i c r) = Some e' \<and> ce_consumers e' = ce_consumers (remove_consumer c e)
      \<and> (ce_ref_count (remove_consumer c e) = 0 \<longrightarrow>
           ce_state e' = StIdle \<and> ce_idle_generation e' = Suc (ce_idle_generation e))"
proof -
  let ?e1 = "touch now (remove_consumer c e)"
  note r1 = released_facts [OF ok g]
  have k: "ce_connection_id ?e1 = i" "ce_key ?e1 = ce_key e" "ce_ref_count ?e1 = ce_ref_count (remove_consumer c e)"
    "ce_retire_when_unused ?e1 = ce_retire_when_unused e" "ce_consumers ?e1 = ce_consumers (remove_consumer c e)"
    "ce_idle_generation ?e1 = ce_idle_generation e"
    using get_entry_pool(3) [OF ok g] by (simp_all add: touch_def remove_consumer_def Let_def)
  let ?idle = "(cancel_idle_timer ?e1)\<lparr>ce_state := StIdle\<rparr>"
  have own: "get_entry i (released now c e r) = Some ?e1" by (simp add: r1(3))
  have put: "settles (released now c e r) (put_entry (ce_key e) ?idle (released now c e r))"
    using settles_put [OF r1(1) own, of ?idle] k(2) by (simp add: cancel_idle_timer_def)
  have gput: "get_entry j (put_entry (ce_key e) ?idle (released now c e r)) = (if j = i then Some ?idle else get_entry j (released now c e r))"
    for j using get_put_entry [OF r1(1) r1(4)] k(1) by simp
  have gtimer: "get_entry j (start_idle_timer_for_entry now (ce_key e) ?e1 (released now c e r))
      = (if j = i then Some (touch now ?idle) else get_entry j (released now c e r))" for j
    using get_start_idle [OF r1(1) r1(4) refl] k(1) by simp
  have timer: "settles (released now c e r) (start_idle_timer_for_entry now (ce_key e) ?e1 (released now c e r))"
    unfolding settles_def gtimer using own by (auto simp: cancel_idle_timer_def touch_def split: if_splits)
  have rel: "release now i c r =
      (if ce_ref_count (remove_consumer c e) = 0
       then if ce_keep_alive ?e1 then put_entry (ce_key e) ?idle (released now c e r)
            else start_idle_timer_for_entry now (ce_key e) ?e1 (released now c e r)
       else released now c e r)"
    using kept by (auto simp: release_eq [OF ok g] k(3,4) Let_def released_def [symmetric])
  show "settles r (release now i c r)"
    unfolding rel using settles_trans [OF r1(2) put] settles_trans [OF r1(2) timer] r1(2) by simp
  show "\<exists>e'. get_entry i (release now i c r) = Some e' \<and> ce_consumers e' = ce_consumers (remove_consumer c e)
      \<and> (ce_ref_count (remove_consumer c e) = 0 \<longrightarrow>
           ce_state e' = StIdle \<and> ce_idle_generation e' = Suc (ce_idle_generation e))"
  proof -
    have "ce_consumers x = ce_consumers (remove_consumer c e)" "ce_state x = StIdle"
      "ce_idle_generation x = Suc (ce_idle_generation e)" if "x = ?idle \<or> x = touch now ?idle" for x
      using that k(5,6) by (auto simp: cancel_idle_timer_def touch_def)
    then show ?thesis unfolding rel using k(5) by (auto simp: own gput gtimer)
  qed
qed

lemma release_retires:
  assumes "pool_ok S r" and "get_entry i r = Some e"
    and "ce_ref_count (remove_consumer c e) = 0" and "ce_retire_when_unused e"
  shows "release now i c r = fst (retire_connection now i (released now c e r))"
  using assms by (simp add: release_eq [OF assms(1,2)] Let_def released_def touch_def remove_consumer_def)

lemma release_retire_settles:
  fixes r r' :: "('p, 's) ssh_registry"
  shows "pool_ok S r \<Longrightarrow> settles r (release now i c r)"
    and "pool_ok S r' \<Longrightarrow> settles r' (fst (retire_connection now' i' r'))"
proof (induction now i c r and now' i' r' rule: release_retire_connection.induct)
  case (1 now i c r)
  show ?case
  proof (cases "get_entry i r")
    case None
    then show ?thesis using release_unknown [OF "1.prems"] by simp
  next
    case (Some e)
    note e = get_entry_pool [OF "1.prems" Some]
    let ?e1 = "touch now (remove_consumer c e)"
    have same: "ce_ref_count ?e1 = ce_ref_count (remove_consumer c e)" "ce_retire_when_unused ?e1 = ce_retire_when_unused e"
      by (simp_all add: touch_def remove_consumer_def Let_def)
    note r1 = released_facts [OF "1.prems" Some]
    show ?thesis
    proof (cases "ce_ref_count (remove_consumer c e) = 0 \<and> ce_retire_when_unused e")
      case True
      have "settles (released now c e r) (fst (retire_connection now i (released now c e r)))"
        using "1.IH" [OF e(1) e(2) refl refl] True same r1(1) by (simp add: released_def)
      then show ?thesis
        using settles_trans [OF r1(2)] release_retires [OF "1.prems" Some] True by simp
    next
      case False
      then show ?thesis using release_kept(1) [OF "1.prems" Some] by blast
    qed
  qed
next
  case (2 now i r)
  show ?case
  proof (cases "get_entry i r")
    case None
    then show ?thesis using retire_unknown [OF "2.prems"] by simp
  next
    case (Some e)
    note e = get_entry_pool [OF "2.prems" Some]
    note w = without_entry_pool [OF "2.prems" Some] settles_without [OF "2.prems" Some]
    show ?thesis
    proof (cases "parent_ownership e")
      case None
      then show ?thesis using w(3) retire_eq [OF "2.prems" Some] by simp
    next
      case own: (Some own)
      obtain pid pc where o: "own = (pid, pc)" by fastforce
      have "settles (without_entry i (ce_key e) r) (release now pid pc (without_entry i (ce_key e) r))"
        using "2.IH" [OF e(1) e(2) _ refl refl own o [symmetric]] registered_entry [OF "2.prems" Some] w(1)
        by (simp add: without_entry_def)
      then show ?thesis using settles_trans [OF w(3)] retire_eq [OF "2.prems" Some] own o by simp
    qed
  qed
qed

lemma settles_gone: "settles r r' \<Longrightarrow> get_entry j r = None \<Longrightarrow> get_entry j r' = None"
  unfolding settles_def by (metis not_None_eq)

lemma retire_gone:
  assumes "pool_ok S r"
  shows "get_entry i (fst (retire_connection now i r)) = None"
proof (cases "get_entry i r")
  case (Some e)
  note w = without_entry_pool [OF assms Some]
  have "get_entry i (release now pid pc (without_entry i (ce_key e) r)) = None" for pid pc
    by (rule settles_gone [OF release_retire_settles(1) [OF w(1)]]) (simp add: w(2))
  then show ?thesis using w(2) by (simp add: retire_eq [OF assms Some] split: option.splits)
qed (simp add: retire_unknown [OF assms])

lemma release_drops_consumer:
  assumes ok: "pool_ok S r" and g: "get_entry i (release now i c r) = Some e'"
  shows "c \<notin> set (ce_consumers e')"
proof (cases "get_entry i r")
  case None
  then show ?thesis using g release_unknown [OF ok None] by simp
next
  case (Some e)
  show ?thesis
  proof (cases "ce_ref_count (remove_consumer c e) \<noteq> 0 \<or> \<not> ce_retire_when_unused e")
    case True
    then have "ce_consumers e' = ce_consumers (remove_consumer c e)"
      using release_kept(2) [OF ok Some True, of now] g by auto
    then show ?thesis by (simp add: remove_consumer_def Let_def)
  next
    case False
    then show ?thesis
      using g retire_gone [OF released_facts(1) [OF ok Some]] release_retires [OF ok Some] by simp
  qed
qed


subsection \<open>Idle connections are disconnected\<close>

definition ended :: "('p, 's) connection_entry \<Rightarrow> bool" where
  "ended e \<longleftrightarrow> ce_state e = StDisconnected \<or> ce_state e = StDisconnecting"

definition live_or_gone :: "bytes \<Rightarrow> ('p, 's) ssh_registry \<Rightarrow> bool" where
  "live_or_gone j r \<longleftrightarrow> (\<forall>e. get_entry j r = Some e \<longrightarrow> \<not> ended e)"

lemma settles_live: "settles r r' \<Longrightarrow> live_or_gone j r \<Longrightarrow> live_or_gone j r'"
  unfolding settles_def live_or_gone_def ended_def by fastforce

lemma get_mark_quietly:
  assumes "pool_ok S r"
  shows "get_entry j (fst (mark_state_without_event now i StDisconnected r)) =
    (if j = i then map_option (\<lambda>e. touch now (e\<lparr>ce_state := StDisconnected\<rparr>)) (get_entry i r) else get_entry j r)"
  by (cases "get_entry i r")
     (simp_all add: mark_state_without_event_def mark_state_inner_def Let_def get_modify_entry [OF assms])

text \<open>One connection of the cascade: it is gone afterwards, and the others settle.\<close>

lemma disconnect_one_shape:
  assumes ok: "pool_ok S r" and g: "get_entry i r = Some e" and live: "\<not> ended e"
  shows "\<exists>r2 r5. settles r r2 \<and> pool_ok S r5 \<and> (\<forall>j. j \<noteq> i \<longrightarrow> get_entry j r5 = get_entry j r2)
    \<and> disconnect_idle_timed_out_connection now i reason r = fst (retire_connection now i r5)"
proof -
  let ?r1 = "modify_entry i cancel_idle_timer r"
  let ?node = "case cr_emitter r of None \<Rightarrow> None | Some em \<Rightarrow> node_id_for_connection i em"
  define r2 where "r2 = (case (ce_parent_connection_id e, ?node) of
      (Some parent_id, Some node_id) \<Rightarrow> release now parent_id (NodeRouter (node_id @ str_lit '':ancestor'')) ?r1
    | _ \<Rightarrow> ?r1)"
  define r4 where "r4 = fst (mark_state_without_event now i StDisconnected (modify_entry i (clear_physical now) r2))"
  have ok1: "pool_ok S ?r1" by (rule modify_entry_pool [OF ok cancel_idle_timer_step])
  have "settles r ?r1" using g by (auto simp: settles_def get_modify_entry [OF ok] cancel_idle_timer_def)
  then have "settles r (release now pid c ?r1)" for pid c
    by (rule settles_trans [OF _ release_retire_settles(1) [OF ok1]])
  then have r2: "settles r r2" "pool_ok S r2"
    using \<open>settles r ?r1\<close> release_retire_pool(1) [OF ok1] ok1 by (auto simp: r2_def split: option.splits)
  have ok3: "pool_ok S (modify_entry i (clear_physical now) r2)" by (rule modify_entry_pool [OF r2(2) clear_physical_step])
  have r4: "pool_ok S r4" "\<forall>j. j \<noteq> i \<longrightarrow> get_entry j r4 = get_entry j r2"
    using mark_state_pool [OF ok3, of now i StDisconnected False "[]"]
    by (simp add: r4_def mark_state_without_event_def)
       (simp add: r4_def get_mark_quietly [OF ok3] get_modify_entry [OF r2(2)])
  have "disconnect_idle_timed_out_connection now i reason r = fst (retire_connection now i (with_emitter (\<lambda>em.
      let em1 = fst (emit_sftp_ready i False None em); em2 = fst (emit_state_from_connection i StDisconnected reason em1) in
      fst (unregister_node i em2)) r4))"
    using live by (simp add: disconnect_idle_timed_out_connection_def g ended_def r4_def r2_def Let_def)
  then show ?thesis using r2(1) r4 with_emitter_pool by metis
qed

lemma disconnect_one_effect:
  assumes ok: "pool_ok S r"
  shows "live_or_gone i r \<Longrightarrow> get_entry i (disconnect_idle_timed_out_connection now i reason r) = None"
    and "live_or_gone j r \<Longrightarrow> live_or_gone j (disconnect_idle_timed_out_connection now i reason r)"
    and "get_entry j r = None \<Longrightarrow> get_entry j (disconnect_idle_timed_out_connection now i reason r) = None"
proof -
  let ?d = "disconnect_idle_timed_out_connection now i reason r"
  have all: "(live_or_gone i r \<longrightarrow> get_entry i ?d = None) \<and> (live_or_gone j r \<longrightarrow> live_or_gone j ?d)
      \<and> (get_entry j r = None \<longrightarrow> get_entry j ?d = None)"
  proof (cases "\<exists>e. get_entry i r = Some e \<and> \<not> ended e")
    case True
    then obtain e where e: "get_entry i r = Some e" "\<not> ended e" by blast
    obtain r2 r5 where r: "settles r r2" "pool_ok S r5" "\<forall>j. j \<noteq> i \<longrightarrow> get_entry j r5 = get_entry j r2"
      "?d = fst (retire_connection now i r5)"
      using disconnect_one_shape [OF ok e, of now reason] by blast
    note s = release_retire_settles(2) [OF r(2), of now i]
    have gone: "get_entry i ?d = None" unfolding r(4) by (rule retire_gone [OF r(2)])
    have "live_or_gone j r \<longrightarrow> live_or_gone j ?d"
    proof (cases "j = i")
      case True
      then show ?thesis using gone by (simp add: live_or_gone_def)
    next
      case False
      then have "live_or_gone j r2 \<Longrightarrow> live_or_gone j r5" using r(3) by (simp add: live_or_gone_def)
      then show ?thesis using settles_live [OF r(1)] settles_live [OF s] r(4) by auto
    qed
    moreover have "get_entry j r = None \<longrightarrow> get_entry j ?d = None"
      using gone settles_gone [OF r(1)] settles_gone [OF s] r(3,4) by (cases "j = i") auto
    ultimately show ?thesis using gone by blast
  next
    case False
    then have "?d = r" by (auto simp: disconnect_idle_timed_out_connection_def ended_def split: option.splits)
    then show ?thesis using False by (cases "get_entry i r") (auto simp: live_or_gone_def)
  qed
  then show "live_or_gone i r \<Longrightarrow> get_entry i ?d = None" and "live_or_gone j r \<Longrightarrow> live_or_gone j ?d"
    and "get_entry j r = None \<Longrightarrow> get_entry j ?d = None" by blast+
qed

lemma disconnect_all_effect:
  assumes "pool_ok S r" and "live_or_gone j r"
  shows "pool_ok S (fold (\<lambda>i. disconnect_idle_timed_out_connection now i reason) ids r)"
    and "live_or_gone j (fold (\<lambda>i. disconnect_idle_timed_out_connection now i reason) ids r)"
    and "j \<in> set ids \<or> get_entry j r = None
      \<Longrightarrow> get_entry j (fold (\<lambda>i. disconnect_idle_timed_out_connection now i reason) ids r) = None"
  using assms
proof (induction ids arbitrary: r)
  case (Cons i ids)
  {
    case 1
    then show ?case by (auto intro!: Cons.IH(1) disconnect_one_pool disconnect_one_effect(2))
  next
    case 2
    then show ?case by (auto intro!: Cons.IH(2) disconnect_one_pool disconnect_one_effect(2))
  next
    case 3
    have "j \<in> set ids \<or> get_entry j (disconnect_idle_timed_out_connection now i reason r) = None"
      using 3 disconnect_one_effect(1) [OF 3(2)] disconnect_one_effect(3) [OF 3(2)] by auto
    then show ?case
      unfolding fold_simps
      by (rule Cons.IH(3)) (rule disconnect_one_pool [OF 3(2)], rule disconnect_one_effect(2) [OF 3(2,3)])
  }
qed simp_all

text \<open>
  C20: an idle timer that fires in its own idle period, while the connection has no consumer and is not to be kept alive,
  disconnects it: the connection and every connection tunnelled through it that had
  not ended already are registered no more. The timer returns, unless the connection is below itself.
\<close>

theorem due_idle_timer_disconnects:
  assumes "ssh_reach r" and "get_entry root r = Some e" and "ce_idle_generation e = g" and "ce_consumers e = []"
    and "\<not> ce_keep_alive e" and "ce_state e = StIdle" and "(root, root) \<notin> (tunnels r)\<^sup>+"
  shows "\<exists>r'. disconnect_if_idle_timeout now root g r = Some r'
    \<and> (\<forall>j\<in>insert root ((tunnels r)\<^sup>+ `` {root}). \<forall>x. get_entry j r = Some x \<longrightarrow> \<not> ended x \<longrightarrow> get_entry j r' = None)"
proof -
  note ok = reach_pool [OF assms(1)]
  obtain D where D: "below r root D" using below_exists [OF ok assms(7)] by blast
  then have infos: "descendant_connection_infos root r = Some D"
    using assms(2) by (simp add: descendant_connection_infos_def below_def descendants_loop_Nil)
  have ids: "set (map ci_connection_id D) = (tunnels r)\<^sup>+ `` {root}" using D by (simp add: below_def)
  let ?cascade = "fold (\<lambda>i. disconnect_idle_timed_out_connection now i (str_lit ''ancestor idle timeout cascade''))
      (rev (map ci_connection_id D)) r"
  let ?r2 = "with_emitter (\<lambda>em. fst (emit_connection_status_changed now root (str_lit ''disconnected'')
      (map ci_connection_id D) em)) ?cascade"
  let ?r' = "disconnect_idle_timed_out_connection now root (str_lit ''idle timeout'') ?r2"
  have unused: "ce_ref_count e = 0" using get_entry_pool(4) [OF ok assms(2)] assms(4) by (simp add: entry_ok_def)
  have "disconnect_if_idle_timeout now root g r = Some ?r'"
    using assms(2-6) unused infos by (simp add: disconnect_if_idle_timeout_def Let_def)
  moreover have "get_entry j ?r' = None"
    if j: "j \<in> insert root ((tunnels r)\<^sup>+ `` {root})" and x: "get_entry j r = Some x" "\<not> ended x" for j x
  proof -
    have live: "live_or_gone j r" using x by (simp add: live_or_gone_def)
    note c = disconnect_all_effect [OF ok live,
        where now = now and reason = "str_lit ''ancestor idle timeout cascade''" and ids = "rev (map ci_connection_id D)"]
    have ok2: "pool_ok {} ?r2" using c(1) by simp
    have live2: "live_or_gone j ?r2" using c(2) by (simp add: live_or_gone_def)
    show ?thesis
    proof (cases "j = root")
      case True
      then show ?thesis using live2 by (simp only: disconnect_one_effect(1) [OF ok2])
    next
      case False
      then have "j \<in> set (rev (map ci_connection_id D))" using j ids by simp
      then have "get_entry j ?r2 = None" using c(3) by simp
      then show ?thesis by (rule disconnect_one_effect(3) [OF ok2])
    qed
  qed
  ultimately show ?thesis by blast
qed

subsection \<open>Example registries\<close>

definition example_target :: ssh_target where
  "example_target = \<lparr>st_host = [1], st_port = 22, st_username = [2]\<rparr>"

definition example_config :: connection_pool_config where
  "example_config = \<lparr>pc_idle_timeout = Some 1000, pc_max_connections = 0, pc_protect_on_exit = False\<rparr>"

definition example_empty :: "(nat, nat) ssh_registry" where
  "example_empty = set_task_runtime (ssh_registry_new example_config)"

text \<open>One connection in use, and the same once its only consumer has left.\<close>

definition example_used :: "(nat, nat) ssh_registry" where
  "example_used = fst (acquire 0 [1] [9] example_target (Terminal [5]) example_empty)"

definition example_idle :: "(nat, nat) ssh_registry" where
  "example_idle = release 1 [1] (Terminal [5]) example_used"

text \<open>It is taken again, and another connection is tunnelled through it.\<close>

definition example_again :: "(nat, nat) ssh_registry" where
  "example_again = fst (acquire 2 [3] [9] example_target (Terminal [6]) example_idle)"

definition example_two :: "(nat, nat) ssh_registry" where
  "example_two = fst (acquire 3 [2] [8] example_target (Terminal [7]) example_used)"

definition example_tree :: "(nat, nat) ssh_registry" where
  "example_tree = fst (set_parent_connection_id 4 [2] (Some [1]) example_two)"

lemmas example_defs = example_empty_def example_config_def example_target_def acquire_def
  ssh_registry_new_def set_task_runtime_def entry_new_with_key_def cancel_idle_timer_def touch_def
  add_consumer_def remove_consumer_def put_entry_def start_idle_timer_for_entry_def emit_state_def with_emitter_def

lemma example_used_eq: "example_used = example_empty
  \<lparr>cr_by_key := [([9], (entry_new_with_key 0 [1] example_target [9] example_config False)
      \<lparr>ce_consumers := [Terminal [5]], ce_ref_count := 1, ce_idle_generation := 1\<rparr>)], cr_by_id := [([1], [9])]\<rparr>"
  by (simp add: example_used_def example_defs)

lemma example_idle_eq: "example_idle = example_empty
  \<lparr>cr_by_key := [([9], (entry_new_with_key 0 [1] example_target [9] example_config False)
      \<lparr>ce_state := StIdle, ce_idle_generation := 2, ce_last_active_at := 1\<rparr>)], cr_by_id := [([1], [9])],
   cr_timers := [([1], 2, 1001)]\<rparr>"
  by (simp add: example_idle_def release.simps example_used_eq example_defs)

lemma example_two_eq: "example_two = example_used
  \<lparr>cr_by_key := cr_by_key example_used @ [([8], (entry_new_with_key 3 [2] example_target [8] example_config False)
      \<lparr>ce_consumers := [Terminal [7]], ce_ref_count := 1, ce_idle_generation := 1\<rparr>)],
   cr_by_id := [([1], [9]), ([2], [8])]\<rparr>"
  by (simp add: example_two_def example_used_eq example_defs)

lemma example_tree_eq: "example_tree = example_two
  \<lparr>cr_by_key := cr_by_key example_used @ [([8], (entry_new_with_key 3 [2] example_target [8] example_config False)
      \<lparr>ce_consumers := [Terminal [7]], ce_ref_count := 1, ce_idle_generation := 1, ce_parent_connection_id := Some [1],
       ce_last_active_at := 4\<rparr>)]\<rparr>"
  by (simp add: example_tree_def set_parent_connection_id_def connection_entry_is_registered_def Let_def
      example_two_eq example_used_eq example_defs)

lemma example_reach:
  "ssh_reach example_used" "ssh_reach example_idle" "ssh_step example_idle example_again" "ssh_reach example_tree"
proof -
  have u: "unused_id [1] example_empty" "unused_id [3] example_idle" "unused_id [2] example_used"
    unfolding unused_id_def example_idle_eq example_used_eq by (simp_all add: example_defs)
  have "ssh_step (ssh_registry_new example_config) example_empty" unfolding example_empty_def by (rule step_runtime)
  moreover have "ssh_step example_empty example_used" unfolding example_used_def by (rule step_acquire [OF u(1)])
  moreover have "ssh_step example_used example_idle" unfolding example_idle_def by (rule step_release)
  moreover have "ssh_step example_used example_two" unfolding example_two_def by (rule step_acquire [OF u(3)])
  moreover have "ssh_step example_two example_tree" unfolding example_tree_def by (rule step_set_parent)
  ultimately show "ssh_reach example_used" "ssh_reach example_idle" "ssh_reach example_tree"
    unfolding ssh_reach_def by (meson rtranclp.rtrancl_refl rtranclp.rtrancl_into_rtrancl)+
  show "ssh_step example_idle example_again" unfolding example_again_def by (rule step_acquire [OF u(2)])
qed

lemma example_entries:
  "get_entry [1] example_used = Some ((entry_new_with_key 0 [1] example_target [9] example_config False)
      \<lparr>ce_consumers := [Terminal [5]], ce_ref_count := 1, ce_idle_generation := 1\<rparr>)"
  "get_entry [1] example_idle = Some ((entry_new_with_key 0 [1] example_target [9] example_config False)
      \<lparr>ce_state := StIdle, ce_idle_generation := 2, ce_last_active_at := 1\<rparr>)"
  "cr_timers example_idle = [([1], 2, 1001)]" "get_entry [1] example_tree \<noteq> None"
  by (simp_all add: get_entry_def example_used_eq example_idle_eq example_tree_eq example_two_eq)

lemma example_tunnels: "tunnels example_idle = {}" "tunnels example_tree = {([1], [2])}"
proof -
  show "tunnels example_idle = {}"
    by (auto simp: tunnels_def get_entry_def example_idle_eq entry_new_with_key_def split: option.splits if_splits)
  show "tunnels example_tree = {([1], [2])}"
    by (auto simp: tunnels_def get_entry_def example_tree_eq example_two_eq example_used_eq entry_new_with_key_def
        split: option.splits if_splits)
qed

theorem registry_entries_consistent_witness:
  "\<exists>e. get_entry [1] example_used = Some e \<and> ce_connection_id e = [1] \<and> ce_ref_count e = length (ce_consumers e)"
  using registry_entries_consistent [OF example_reach(1) example_entries(1)] example_entries(1) by auto


theorem old_idle_timer_is_void_witness:
  "([1], 2, 1001) \<in> set (cr_timers example_idle)
    \<and> disconnect_if_idle_timeout 1001 [1] 2 (release 3 [1] (Terminal [6]) example_again)
        = Some (release 3 [1] (Terminal [6]) example_again)"
proof -
  have "unused_id [3] example_idle" by (simp add: unused_id_def example_idle_eq)
  moreover have "acquire 2 [3] [9] example_target (Terminal [6]) example_idle = (example_again, [1])"
    by (simp add: example_again_def prod_eq_iff) (simp add: acquire_def example_idle_eq Let_def entry_new_with_key_def)
  ultimately have "taken [1] example_idle example_again" by (rule taken.intros(1))
  moreover have "ssh_step\<^sup>*\<^sup>* example_again (release 3 [1] (Terminal [6]) example_again)"
    by (rule r_into_rtranclp) (rule step_release)
  moreover have "([1], 2, 1001) \<in> set (cr_timers example_idle)" by (simp add: example_entries(3))
  ultimately show ?thesis using old_idle_timer_is_void [OF example_reach(2)] by blast
qed

theorem due_idle_timer_disconnects_witness:
  "\<exists>r'. disconnect_if_idle_timeout 1001 [1] 2 example_idle = Some r' \<and> get_entry [1] r' = None"
proof -
  have "([1], [1]) \<notin> (tunnels example_idle)\<^sup>+" by (simp add: example_tunnels(1))
  then have "\<exists>r'. disconnect_if_idle_timeout 1001 [1] 2 example_idle = Some r'
    \<and> (\<forall>j\<in>insert [1] ((tunnels example_idle)\<^sup>+ `` {[1]}). \<forall>x. get_entry j example_idle = Some x \<longrightarrow> \<not> ended x
         \<longrightarrow> get_entry j r' = None)"
    by (intro due_idle_timer_disconnects [OF example_reach(2) example_entries(2)]) (simp_all add: entry_new_with_key_def)
  moreover have "\<not> ended (the (get_entry [1] example_idle))" by (simp add: example_entries(2) ended_def)
  ultimately show ?thesis using example_entries(2) by (metis insertI1 option.sel)
qed

theorem descendants_walk_ends_witness:
  "\<exists>infos. descendant_connection_infos [1] example_tree = Some infos \<and> ci_connection_id ` set infos = {[2]}"
proof -
  have last: "b = [2]" if "(a, b) \<in> {([1], [2])}\<^sup>+" for a b :: bytes using tranclD2 [OF that] by auto
  have "([1], [2]) \<in> {([1], [2])}\<^sup>+" by (rule r_into_trancl) simp
  then have set: "(tunnels example_tree)\<^sup>+ `` {[1]} = {[2]}" unfolding example_tunnels(2) using last by blast
  have "([1], [1]) \<notin> (tunnels example_tree)\<^sup>+"
  proof
    assume "([1], [1]) \<in> (tunnels example_tree)\<^sup>+"
    then have "[1] = ([2] :: bytes)" unfolding example_tunnels(2) by (rule last)
    then show False by simp
  qed
  then have "\<exists>infos. descendant_connection_infos [1] example_tree = Some infos
      \<and> distinct (map ci_connection_id infos) \<and> ci_connection_id ` set infos = (tunnels example_tree)\<^sup>+ `` {[1]}
      \<and> (\<forall>info\<in>set infos. \<exists>i. map_option entry_info (get_entry i example_tree) = Some info)"
    using descendants_walk_ends [OF example_reach(4) example_entries(4)] by (simp only: if_False)
  then show ?thesis unfolding set by blast
qed

subsection \<open>Where the registry falls short\<close>

text \<open>A connection may be made its own parent, and then the walk below it never ends.\<close>

lemma own_parent_hangs:
  assumes ok: "pool_ok S r" and g: "get_entry i r = Some e"
  shows "descendant_connection_infos i (fst (set_parent_connection_id now i (Some i) r)) = None"
proof -
  let ?e2 = "touch now (e\<lparr>ce_parent_connection_id := Some i\<rparr>)"
  let ?r = "fst (set_parent_connection_id now i (Some i) r)"
  note e = get_entry_pool [OF ok g]
  have "?r = put_entry (ce_key e) ?e2 r"
    using e(1,2) registered_entry [OF ok g] by (simp add: set_parent_connection_id_def Let_def)
  then have own: "get_entry i ?r = Some ?e2" using get_put_entry [OF ok e(2)] e(3) by simp
  then have "(i, i) \<in> tunnels ?r" by (simp add: tunnels_def touch_def)
  then have "(i, i) \<in> (tunnels ?r)\<^sup>+" by blast
  then have "descendants_loop ?r [i] [] = None"
    using walk_needs_no_cycle [of ?r "[i]" "[]" _ S] set_parent_pool(1) [OF ok, of now i "Some i"] by (cases "descendants_loop ?r [i] []") auto
  then show ?thesis using own by (simp add: descendant_connection_infos_def)
qed

text \<open>
  A failed connection whose last consumer leaves becomes idle, the state of a connection that
  works: the error is lost, and a node event says that the node is ready.
\<close>

lemma failed_connection_becomes_idle:
  assumes ok: "pool_ok S r" and g: "get_entry i r = Some e" and "ce_consumers e = [c]" and "\<not> ce_retire_when_unused e"
  shows "\<exists>e'. get_entry i (release now i c (fst (mark_state now i (StError reason) r))) = Some e'
    \<and> ce_state e' = StIdle \<and> readiness_for_connection_state (ce_state e') = NodeReady"
proof -
  let ?r = "fst (mark_state now i (StError reason) r)"
  let ?e = "touch now (e\<lparr>ce_state := StError reason\<rparr>)"
  have ok1: "pool_ok S ?r" unfolding mark_state_def by (rule mark_state_pool [OF ok])
  have g1: "get_entry i ?r = Some ?e"
    using g by (simp add: mark_state_def mark_state_inner_def Let_def get_modify_entry [OF ok])
  have zero: "ce_ref_count (remove_consumer c ?e) = 0" "\<not> ce_retire_when_unused ?e"
    using get_entry_pool(4) [OF ok1 g1] assms(3,4) by (simp_all add: remove_consumer_def entry_ok_def touch_def)
  then have "\<exists>e'. get_entry i (release now i c ?r) = Some e' \<and> ce_state e' = StIdle"
    using release_kept(2) [OF ok1 g1, of c now] by blast
  then show ?thesis by (auto simp: readiness_for_connection_state_def)
qed

text \<open>
  A connection whose link is down becomes idle in the same way while its transport is still
  recorded, and the next consumer finds it active.
\<close>

lemma dead_link_comes_back:
  assumes ok: "pool_ok S r" and g: "get_entry i r = Some e" and "ce_state e = StLinkDown" and "ce_consumers e = [c]"
    and "\<not> ce_retire_when_unused e" and "\<not> ce_keep_alive e" and "ce_physical e = Some p"
  shows "\<exists>e'. get_entry i (fst (acquire_consumer_for_connection later i c' (release now i c r))) = Some e'
    \<and> ce_state e' = StActive"
proof -
  let ?r = "release now i c r"
  have zero: "ce_ref_count (remove_consumer c e) = 0"
    using get_entry_pool(4) [OF ok g] assms(4) by (simp add: remove_consumer_def entry_ok_def)
  have "ce_consumers (remove_consumer c e) = []" using assms(4) by (simp add: remove_consumer_def Let_def)
  let ?e1 = "touch now (remove_consumer c e)"
  have rel: "?r = start_idle_timer_for_entry now (ce_key e) ?e1 (released now c e r)"
    using zero assms(5,6) by (simp add: release_eq [OF ok g] Let_def released_def remove_consumer_def touch_def)
  have "get_entry i ?r = Some (touch now ((cancel_idle_timer ?e1)\<lparr>ce_state := StIdle\<rparr>))"
    unfolding rel using get_start_idle [OF released_facts(1,4) [OF ok g] refl] get_entry_pool(3) [OF ok g]
    by (simp add: touch_def remove_consumer_def Let_def)
  then obtain e2 where e2: "get_entry i ?r = Some e2" "ce_state e2 = StIdle" "ce_consumers e2 = []" "ce_ref_count e2 = 0"
    "ce_physical e2 = Some p"
    using zero assms(4,7) by (simp add: touch_def cancel_idle_timer_def remove_consumer_def Let_def)
  then show ?thesis
    by (auto simp: acquire_consumer_for_connection_def Let_def get_modify_entry [OF release_retire_pool(1) [OF ok]] touch_def add_consumer_def cancel_idle_timer_def)
qed

text \<open>
  Changing the idle timeout restarts the timers of the idle connections with the timeout they were
  created with: the new one is never used for them.
\<close>

lemma new_idle_timeout_is_ignored:
  "cr_timers (set_idle_timeout 2 (Some 500) example_idle) = [([1], 4, 1002), ([1], 2, 1001)]"
  by (simp add: set_idle_timeout_def example_idle_eq Let_def example_defs)

end
