(* ===== verification/Text_Diff.thy ===== *)
theory Text_Diff
  imports Rust_Str "HOL-Library.Sublist"
begin

text \<open>
  The comparison of two texts line by line (\<^verbatim>\<open>hapcli-sftp/src/text_diff.rs\<close>): equal lines at both ends are
  set aside, a table of the lengths of longest common subsequences is filled for what is
  between them, and the result is read off backwards; when the table would be too large, the
  middle is removed and added as a whole. The table is a flat vector indexed as in the code. Its
  entries are natural numbers: they never exceed the number of lines.
\<close>

subsection \<open>The source's operations\<close>

definition MAX_LCS_CELLS :: nat where "MAX_LCS_CELLS = 4000000"

datatype text_diff_line_kind = DiffUnchanged | DiffAdded | DiffRemoved

record text_diff_line =
  dl_kind :: text_diff_line_kind
  dl_content :: bytes
  dl_left_line_num :: "nat option"
  dl_right_line_num :: "nat option"

record text_diff_stats =
  ds_added :: nat
  ds_removed :: nat
  ds_unchanged :: nat

definition unchanged_line :: "bytes \<Rightarrow> nat \<Rightarrow> nat \<Rightarrow> text_diff_line" where
  "unchanged_line content l r =
     \<lparr>dl_kind = DiffUnchanged, dl_content = content, dl_left_line_num = Some l, dl_right_line_num = Some r\<rparr>"

definition removed_line :: "bytes \<Rightarrow> nat \<Rightarrow> text_diff_line" where
  "removed_line content l =
     \<lparr>dl_kind = DiffRemoved, dl_content = content, dl_left_line_num = Some l, dl_right_line_num = None\<rparr>"

definition added_line :: "bytes \<Rightarrow> nat \<Rightarrow> text_diff_line" where
  "added_line content r =
     \<lparr>dl_kind = DiffAdded, dl_content = content, dl_left_line_num = None, dl_right_line_num = Some r\<rparr>"

definition equal_prefix :: "'a list \<Rightarrow> 'a list \<Rightarrow> nat" where
  "equal_prefix ls rs = length (takeWhile (\<lambda>(l, r). l = r) (zip ls rs))"

text \<open>The loop that fills the table.\<close>

definition lcs_cell :: "bytes list \<Rightarrow> bytes list \<Rightarrow> nat \<Rightarrow> nat \<Rightarrow> nat \<Rightarrow> nat list \<Rightarrow> nat list" where
  "lcs_cell left_middle right_middle row_width left_index right_index lcs_lengths =
     lcs_lengths[left_index * row_width + right_index :=
       (if left_middle ! (left_index - 1) = right_middle ! (right_index - 1)
        then lcs_lengths ! ((left_index - 1) * row_width + right_index - 1) + 1
        else max (lcs_lengths ! ((left_index - 1) * row_width + right_index))
                 (lcs_lengths ! (left_index * row_width + right_index - 1)))]"

definition lcs_row :: "bytes list \<Rightarrow> bytes list \<Rightarrow> nat \<Rightarrow> nat \<Rightarrow> nat list \<Rightarrow> nat list" where
  "lcs_row left_middle right_middle row_width left_index lcs_lengths =
     fold (lcs_cell left_middle right_middle row_width left_index) [1..<length right_middle + 1] lcs_lengths"

definition lcs_table :: "bytes list \<Rightarrow> bytes list \<Rightarrow> nat \<Rightarrow> nat \<Rightarrow> nat list" where
  "lcs_table left_middle right_middle row_width cell_count =
     fold (lcs_row left_middle right_middle row_width) [1..<length left_middle + 1] (replicate cell_count 0)"

text \<open>The lines that the loop over the table pushes, last line first.\<close>

function lcs_walk :: "bytes list \<Rightarrow> bytes list \<Rightarrow> nat \<Rightarrow> nat list \<Rightarrow> nat \<Rightarrow> nat \<Rightarrow> nat \<Rightarrow> text_diff_line list" where
  "lcs_walk left_middle right_middle row_width lcs_lengths leading_equal left_index right_index =
     (if left_index > 0 \<or> right_index > 0
      then
        if left_index > 0 \<and> right_index > 0 \<and> left_middle ! (left_index - 1) = right_middle ! (right_index - 1)
        then unchanged_line (left_middle ! (left_index - 1)) (leading_equal + left_index) (leading_equal + right_index)
             # lcs_walk left_middle right_middle row_width lcs_lengths leading_equal (left_index - 1) (right_index - 1)
        else if right_index > 0
          \<and> (left_index = 0 \<or> lcs_lengths ! ((left_index - 1) * row_width + right_index)
               \<le> lcs_lengths ! (left_index * row_width + right_index - 1))
        then added_line (right_middle ! (right_index - 1)) (leading_equal + right_index)
             # lcs_walk left_middle right_middle row_width lcs_lengths leading_equal left_index (right_index - 1)
        else removed_line (left_middle ! (left_index - 1)) (leading_equal + left_index)
             # lcs_walk left_middle right_middle row_width lcs_lengths leading_equal (left_index - 1) right_index
      else [])"
  by pat_completeness auto
termination
  by (relation "measure (\<lambda>(lm, rm, w, t, n, i, j). i + j)") auto

declare lcs_walk.simps [simp del]

definition compute_text_diff :: "bytes \<Rightarrow> bytes \<Rightarrow> text_diff_line list" where
  "compute_text_diff left right =
     (let left_lines = split_on 10 left;
          right_lines = split_on 10 right;
          left_len = length left_lines;
          right_len = length right_lines;
          leading_equal = equal_prefix left_lines right_lines;
          trailing_equal = equal_prefix (rev (drop leading_equal left_lines)) (rev (drop leading_equal right_lines));
          left_middle = take (left_len - trailing_equal - leading_equal) (drop leading_equal left_lines);
          right_middle = take (right_len - trailing_equal - leading_equal) (drop leading_equal right_lines);
          row_width = length right_middle + 1;
          cell_count = min usize_max ((length left_middle + 1) * row_width);
          lines = map (\<lambda>index. unchanged_line (left_lines ! index) (index + 1) (index + 1)) [0..<leading_equal];
          middle =
            (if MAX_LCS_CELLS < cell_count
             then map (\<lambda>index. removed_line (left_middle ! index) (leading_equal + index + 1)) [0..<length left_middle]
               @ map (\<lambda>index. added_line (right_middle ! index) (leading_equal + index + 1)) [0..<length right_middle]
             else rev (lcs_walk left_middle right_middle row_width
                         (lcs_table left_middle right_middle row_width cell_count) leading_equal
                         (length left_middle) (length right_middle)));
          trailing =
            map (\<lambda>offset. unchanged_line (left_lines ! (left_len - offset - 1)) (left_len - offset) (right_len - offset))
              (rev [0..<trailing_equal]) in
      lines @ middle @ trailing)"

definition text_diff_stats_of :: "text_diff_line list \<Rightarrow> text_diff_stats" where
  "text_diff_stats_of lines =
     fold (\<lambda>line stats. case dl_kind line of
         DiffUnchanged \<Rightarrow> stats\<lparr>ds_unchanged := ds_unchanged stats + 1\<rparr>
       | DiffAdded \<Rightarrow> stats\<lparr>ds_added := ds_added stats + 1\<rparr>
       | DiffRemoved \<Rightarrow> stats\<lparr>ds_removed := ds_removed stats + 1\<rparr>)
       lines \<lparr>ds_added = 0, ds_removed = 0, ds_unchanged = 0\<rparr>"

subsection \<open>Longest common subsequences\<close>

fun lcs :: "'a list \<Rightarrow> 'a list \<Rightarrow> nat" where
  "lcs [] ys = 0"
| "lcs xs [] = 0"
| "lcs (x # xs) (y # ys) = (if x = y then lcs xs ys + 1 else max (lcs xs (y # ys)) (lcs (x # xs) ys))"

definition longest_common :: "'a list \<Rightarrow> 'a list \<Rightarrow> nat \<Rightarrow> bool" where
  "longest_common xs ys k \<longleftrightarrow> (\<forall>zs. subseq zs xs \<longrightarrow> subseq zs ys \<longrightarrow> length zs \<le> k)"

lemma longest_common_Cons:
  assumes "longest_common xs ys k"
  shows "longest_common (a # xs) (a # ys) (Suc k)"
  unfolding longest_common_def
proof (intro allI impI)
  fix zs assume z: "subseq zs (a # xs)" "subseq zs (a # ys)"
  show "length zs \<le> Suc k"
  proof (cases zs)
    case (Cons b zs')
    show ?thesis
    proof (cases "b = a")
      case True
      then have "subseq zs' xs" "subseq zs' ys" using z Cons by simp_all
      then show ?thesis using assms Cons by (simp add: longest_common_def)
    next
      case False
      then have "subseq zs xs" "subseq zs ys" using z Cons by (auto dest: subseq_Cons2_neq)
      then show ?thesis using assms by (simp add: longest_common_def le_SucI)
    qed
  qed simp
qed

lemma longest_common_diff:
  assumes "longest_common xs (b # ys) k" and "longest_common (a # xs) ys l" and "a \<noteq> b"
  shows "longest_common (a # xs) (b # ys) (max k l)"
  unfolding longest_common_def
proof (intro allI impI)
  fix zs assume z: "subseq zs (a # xs)" "subseq zs (b # ys)"
  show "length zs \<le> max k l"
  proof (cases zs)
    case (Cons c zs')
    show ?thesis
    proof (cases "c = a")
      case True
      then have "subseq zs ys" using z Cons assms(3) by (auto dest: subseq_Cons2_neq)
      then have "length zs \<le> l" using assms(2) z by (simp add: longest_common_def)
      then show ?thesis by simp
    next
      case False
      then have "subseq zs xs" using z Cons by (auto dest: subseq_Cons2_neq)
      then have "length zs \<le> k" using assms(1) z by (simp add: longest_common_def)
      then show ?thesis by simp
    qed
  qed simp
qed

lemma longest_common_lcs: "longest_common xs ys (lcs xs ys)"
proof (induction xs ys rule: lcs.induct)
  case (3 x xs y ys)
  show ?case
  proof (cases "x = y")
    case True
    then show ?thesis using 3(1) longest_common_Cons by auto
  next
    case False
    then show ?thesis using 3(2,3) longest_common_diff by auto
  qed
qed (auto simp: longest_common_def)

lemma longest_common_append: "longest_common xs ys k \<Longrightarrow> longest_common (p @ xs) (p @ ys) (length p + k)"
  by (induction p) (auto intro: longest_common_Cons)

lemma subseq_revI: "subseq xs ys \<Longrightarrow> subseq (rev xs) (rev ys)"
proof (induction rule: list_emb.induct)
  case (list_emb_Cons xs ys y)
  then show ?case by (simp add: subseq_rev_drop_many)
next
  case (list_emb_Cons2 x y xs ys)
  then show ?case by simp
qed simp

lemma longest_common_rev: "longest_common (rev xs) (rev ys) k \<longleftrightarrow> longest_common xs ys k"
proof -
  have "longest_common (rev xs) (rev ys) k" if "longest_common xs ys k" for xs ys :: "'a list"
    using that unfolding longest_common_def by (metis length_rev rev_rev_ident subseq_revI)
  from this [of xs ys] this [of "rev xs" "rev ys"] show ?thesis by auto
qed

lemma lcs_le: "lcs xs ys \<le> length xs" "lcs xs ys \<le> length ys"
  by (induction xs ys rule: lcs.induct) auto

text \<open>The length for prefixes, which the table holds.\<close>

definition lcs_upto :: "'a list \<Rightarrow> 'a list \<Rightarrow> nat \<Rightarrow> nat \<Rightarrow> nat" where
  "lcs_upto xs ys i j = lcs (rev (take i xs)) (rev (take j ys))"

lemma lcs_Nil2 [simp]: "lcs xs [] = 0"
  by (cases xs) simp_all

lemma lcs_upto_0 [simp]: "lcs_upto xs ys 0 j = 0" "lcs_upto xs ys i 0 = 0"
  by (simp_all add: lcs_upto_def)

lemma lcs_upto_Suc:
  "i < length xs \<Longrightarrow> j < length ys \<Longrightarrow> lcs_upto xs ys (Suc i) (Suc j) =
    (if xs ! i = ys ! j then lcs_upto xs ys i j + 1
     else max (lcs_upto xs ys i (Suc j)) (lcs_upto xs ys (Suc i) j))"
  by (simp add: lcs_upto_def take_Suc_conv_app_nth)

lemma flat_index:
  fixes a b c d n :: nat
  assumes "b \<le> n" and "d \<le> n"
  shows "a * (n + 1) + b = c * (n + 1) + d \<longleftrightarrow> a = c \<and> b = d"
proof
  assume eq: "a * (n + 1) + b = c * (n + 1) + d"
  have quotient: "(x * (n + 1) + y) div (n + 1) = x" if "y \<le> n" for x y
    by (rule div_nat_eqI) (use that in \<open>simp_all add: algebra_simps\<close>)
  have "a = c" using quotient [OF assms(1), of a] quotient [OF assms(2), of c] eq by simp
  then show "a = c \<and> b = d" using eq by simp
qed simp

lemma flat_bound:
  fixes a b m n :: nat
  assumes a: "a \<le> m" and b: "b \<le> n"
  shows "a * (n + 1) + b < (m + 1) * (n + 1)"
proof -
  have "a * (n + 1) + b < a * (n + 1) + (n + 1)" using b by simp
  also have "\<dots> = (a + 1) * (n + 1)" by simp
  also have "\<dots> \<le> (m + 1) * (n + 1)" using a by (intro mult_le_mono1) simp
  finally show ?thesis .
qed

text \<open>The table with the rows before \<open>i\<close> and the row \<open>i\<close> up to \<open>j\<close> filled in.\<close>

definition filled :: "bytes list \<Rightarrow> bytes list \<Rightarrow> nat \<Rightarrow> nat \<Rightarrow> nat list \<Rightarrow> bool" where
  "filled xs ys i j t \<longleftrightarrow> length t = (length xs + 1) * (length ys + 1)
     \<and> (\<forall>a\<le>length xs. \<forall>b\<le>length ys. t ! (a * (length ys + 1) + b) =
          (if a < i \<or> a = i \<and> b \<le> j then lcs_upto xs ys a b else 0))"

lemma filled_get:
  "filled xs ys i j t \<Longrightarrow> a \<le> length xs \<Longrightarrow> b \<le> length ys \<Longrightarrow> a < i \<or> a = i \<and> b \<le> j
    \<Longrightarrow> t ! (a * (length ys + 1) + b) = lcs_upto xs ys a b"
  by (simp add: filled_def)

lemma filled_cell:
  assumes t: "filled xs ys (Suc i) j t" and i: "i < length xs" and j: "j < length ys"
  shows "filled xs ys (Suc i) (Suc j) (lcs_cell xs ys (length ys + 1) (Suc i) (Suc j) t)"
proof -
  let ?w = "length ys + 1"
  have old: "t ! (i * ?w + j) = lcs_upto xs ys i j" "t ! (i * ?w + Suc j) = lcs_upto xs ys i (Suc j)"
    "t ! (Suc i * ?w + j) = lcs_upto xs ys (Suc i) j"
    by (rule filled_get [OF t]; use i j in simp)+
  have cell: "lcs_cell xs ys ?w (Suc i) (Suc j) t = t[Suc i * ?w + Suc j := lcs_upto xs ys (Suc i) (Suc j)]"
    using old unfolding lcs_upto_Suc [OF i j] by (simp add: lcs_cell_def)
  have "t[Suc i * ?w + Suc j := lcs_upto xs ys (Suc i) (Suc j)] ! (a * ?w + b) =
      (if a < Suc i \<or> a = Suc i \<and> b \<le> Suc j then lcs_upto xs ys a b else 0)"
    if ab: "a \<le> length xs" "b \<le> length ys" for a b
  proof (cases "a = Suc i \<and> b = Suc j")
    case True
    then show ?thesis using t ab flat_bound [OF ab] by (simp add: filled_def)
  next
    case False
    then have "Suc i * ?w + Suc j \<noteq> a * ?w + b" 
      unfolding flat_index [OF Suc_leI [OF j] ab(2)] by auto
    then have "t[Suc i * ?w + Suc j := lcs_upto xs ys (Suc i) (Suc j)] ! (a * ?w + b) = t ! (a * ?w + b)"
      by (rule nth_list_update_neq)
    also have "\<dots> = (if a < Suc i \<or> a = Suc i \<and> b \<le> j then lcs_upto xs ys a b else 0)"
      using t ab by (simp add: filled_def)
    also have "\<dots> = (if a < Suc i \<or> a = Suc i \<and> b \<le> Suc j then lcs_upto xs ys a b else 0)"
      using False by (auto simp: le_Suc_eq)
    finally show ?thesis .
  qed
  moreover have "length (t[Suc i * ?w + Suc j := v]) = (length xs + 1) * ?w" for v
    using t by (simp add: filled_def)
  ultimately show ?thesis unfolding cell filled_def by blast
qed

lemma filled_row:
  assumes "filled xs ys (Suc i) 0 t" and "i < length xs"
  shows "filled xs ys (Suc i) (length ys) (lcs_row xs ys (length ys + 1) (Suc i) t)"
proof -
  have "filled xs ys (Suc i) j (fold (lcs_cell xs ys (length ys + 1) (Suc i)) [1..<j + 1] t)" if "j \<le> length ys" for j
    using that
  proof (induction j)
    case (Suc j)
    then show ?case using filled_cell [OF _ assms(2), of ys j] by simp
  qed (simp add: assms(1))
  then show ?thesis by (simp add: lcs_row_def)
qed

lemma filled_next: "filled xs ys i (length ys) t \<Longrightarrow> filled xs ys (Suc i) 0 t"
  by (auto simp: filled_def less_Suc_eq)

lemma lcs_table_correct:
  assumes "a \<le> length xs" and "b \<le> length ys"
  shows "lcs_table xs ys (length ys + 1) ((length xs + 1) * (length ys + 1)) ! (a * (length ys + 1) + b) = lcs_upto xs ys a b"
proof -
  let ?w = "length ys + 1"
  have "filled xs ys i (length ys) (fold (lcs_row xs ys ?w) [1..<i + 1] (replicate ((length xs + 1) * ?w) 0))"
    if "i \<le> length xs" for i
    using that
  proof (induction i)
    case 0
    have "replicate ((length xs + 1) * ?w) 0 ! (a * ?w + b) = (0::nat)" if "a \<le> length xs" "b \<le> length ys" for a b
      by (rule nth_replicate [OF flat_bound [OF that]])
    then show ?case by (auto simp: filled_def simp del: replicate_Suc)
  next
    case (Suc i)
    then show ?case using filled_row [OF filled_next] by simp
  qed
  from this [of "length xs"] show ?thesis unfolding lcs_table_def using assms by (intro filled_get) auto
qed

subsection \<open>What the walk collects\<close>

definition left_side :: "text_diff_line list \<Rightarrow> text_diff_line list" where
  "left_side = filter (\<lambda>l. dl_kind l \<noteq> DiffAdded)"

definition right_side :: "text_diff_line list \<Rightarrow> text_diff_line list" where
  "right_side = filter (\<lambda>l. dl_kind l \<noteq> DiffRemoved)"

definition unchanged_count :: "text_diff_line list \<Rightarrow> nat" where
  "unchanged_count ls = length (filter (\<lambda>l. dl_kind l = DiffUnchanged) ls)"

lemmas diff_lines = unchanged_line_def removed_line_def added_line_def

lemma sides_append [simp]:
  "left_side (xs @ ys) = left_side xs @ left_side ys" "right_side (xs @ ys) = right_side xs @ right_side ys"
  "unchanged_count (xs @ ys) = unchanged_count xs + unchanged_count ys"
  "left_side (rev xs) = rev (left_side xs)" "right_side (rev xs) = rev (right_side xs)"
  "unchanged_count (rev xs) = unchanged_count xs"
  by (simp_all add: left_side_def right_side_def unchanged_count_def rev_filter [symmetric])

lemma sides_Nil [simp]: "left_side [] = []" "right_side [] = []" "unchanged_count [] = 0"
  by (simp_all add: left_side_def right_side_def unchanged_count_def)

lemma sides_Cons [simp]:
  "left_side (unchanged_line c l r # ls) = unchanged_line c l r # left_side ls"
  "right_side (unchanged_line c l r # ls) = unchanged_line c l r # right_side ls"
  "unchanged_count (unchanged_line c l r # ls) = Suc (unchanged_count ls)"
  "left_side (removed_line c l # ls) = removed_line c l # left_side ls"
  "right_side (removed_line c l # ls) = right_side ls"
  "unchanged_count (removed_line c l # ls) = unchanged_count ls"
  "left_side (added_line c r # ls) = left_side ls"
  "right_side (added_line c r # ls) = added_line c r # right_side ls"
  "unchanged_count (added_line c r # ls) = unchanged_count ls"
  by (simp_all add: left_side_def right_side_def unchanged_count_def diff_lines)

lemma line_fields [simp]:
  "dl_content (unchanged_line c l r) = c" "dl_left_line_num (unchanged_line c l r) = Some l"
  "dl_right_line_num (unchanged_line c l r) = Some r"
  "dl_content (removed_line c l) = c" "dl_left_line_num (removed_line c l) = Some l"
  "dl_content (added_line c r) = c" "dl_right_line_num (added_line c r) = Some r"
  by (simp_all add: diff_lines)

lemma rev_take_step: "i > 0 \<Longrightarrow> i \<le> length xs \<Longrightarrow> rev (take i xs) = xs ! (i - 1) # rev (take (i - 1) xs)"
  by (cases i) (simp_all add: take_Suc_conv_app_nth)

lemma rev_upt_step: "i > 0 \<Longrightarrow> rev [Suc n..<n + i + 1] = (n + i) # rev [Suc n..<n + (i - 1) + 1]"
  by (cases i) simp_all

lemma walk_sides:
  assumes "i \<le> length xs" and "j \<le> length ys"
  shows "map dl_content (left_side (lcs_walk xs ys w t n i j)) = rev (take i xs)
    \<and> map dl_content (right_side (lcs_walk xs ys w t n i j)) = rev (take j ys)
    \<and> map dl_left_line_num (left_side (lcs_walk xs ys w t n i j)) = map Some (rev [Suc n..<n + i + 1])
    \<and> map dl_right_line_num (right_side (lcs_walk xs ys w t n i j)) = map Some (rev [Suc n..<n + j + 1])"
  using assms
proof (induction xs ys w t n i j rule: lcs_walk.induct)
  case (1 xs ys w t n i j)
  show ?case
  proof (cases "i > 0 \<and> j > 0 \<and> xs ! (i - 1) = ys ! (j - 1)")
    case True
    then have "lcs_walk xs ys w t n i j = unchanged_line (xs ! (i - 1)) (n + i) (n + j) # lcs_walk xs ys w t n (i - 1) (j - 1)"
      by (subst lcs_walk.simps) simp
    then show ?thesis using 1(1) 1(4,5) True by (simp add: rev_take_step rev_upt_step)
  next
    case ne: False
    show ?thesis
    proof (cases "j > 0 \<and> (i = 0 \<or> t ! ((i - 1) * w + j) \<le> t ! (i * w + j - 1))")
      case True
      then have "lcs_walk xs ys w t n i j = added_line (ys ! (j - 1)) (n + j) # lcs_walk xs ys w t n i (j - 1)"
        using ne by (subst lcs_walk.simps) auto
      then show ?thesis using 1(2) 1(4,5) True ne by (auto simp: rev_take_step rev_upt_step)
    next
      case False
      show ?thesis
      proof (cases "i > 0")
        case True
        then have "lcs_walk xs ys w t n i j = removed_line (xs ! (i - 1)) (n + i) # lcs_walk xs ys w t n (i - 1) j"
          using ne False by (subst lcs_walk.simps) auto
        then show ?thesis using 1(3) 1(4,5) True ne False by (auto simp: rev_take_step rev_upt_step)
      next
        case i0: False
        then have "j = 0" using False by simp
        then show ?thesis using i0 by (subst (1 2 3 4) lcs_walk.simps) simp
      qed
    qed
  qed
qed

lemma walk_count:
  assumes t: "\<And>a b. a \<le> length xs \<Longrightarrow> b \<le> length ys \<Longrightarrow> t ! (a * (length ys + 1) + b) = lcs_upto xs ys a b"
  shows "i \<le> length xs \<Longrightarrow> j \<le> length ys
    \<Longrightarrow> unchanged_count (lcs_walk xs ys (length ys + 1) t n i j) = lcs_upto xs ys i j"
proof (induction "i + j" arbitrary: i j rule: less_induct)
  case less
  let ?walk = "lcs_walk xs ys (length ys + 1) t n" and ?w = "length ys + 1"
  consider "i = 0" "j = 0" | j' where "i = 0" "j = Suc j'" | i' where "i = Suc i'" "j = 0"
    | i' j' where "i = Suc i'" "j = Suc j'"
    by (cases i; cases j) auto
  then show ?case
  proof cases
    case 1
    then show ?thesis by (subst lcs_walk.simps) simp
  next
    case 2
    then show ?thesis using less(1) [of 0 j'] less(3) by (subst lcs_walk.simps) simp
  next
    case 3
    then show ?thesis using less(1) [of i' 0] less(2) by (subst lcs_walk.simps) simp
  next
    case 4
    have b: "i' < length xs" "j' < length ys" using 4 less(2,3) by simp_all
    have tab: "t ! (i' * ?w + Suc j') = lcs_upto xs ys i' (Suc j')" "t ! (Suc i' * ?w + j') = lcs_upto xs ys (Suc i') j'"
      by (rule t; use b in simp)+
    have IH: "unchanged_count (?walk i' j') = lcs_upto xs ys i' j'"
      "unchanged_count (?walk i' (Suc j')) = lcs_upto xs ys i' (Suc j')"
      "unchanged_count (?walk (Suc i') j') = lcs_upto xs ys (Suc i') j'"
      using less(1) b 4 by simp_all
    have "?walk (Suc i') (Suc j') =
      (if xs ! i' = ys ! j' then unchanged_line (xs ! i') (n + Suc i') (n + Suc j') # ?walk i' j'
       else if lcs_upto xs ys i' (Suc j') \<le> lcs_upto xs ys (Suc i') j'
       then added_line (ys ! j') (n + Suc j') # ?walk (Suc i') j'
       else removed_line (xs ! i') (n + Suc i') # ?walk i' (Suc j'))"
      using tab by (subst lcs_walk.simps) simp
    then show ?thesis unfolding 4 lcs_upto_Suc [OF b] using IH by auto
  qed
qed

text \<open>Every line carries the numbers that its kind has.\<close>

definition line_ok :: "text_diff_line \<Rightarrow> bool" where
  "line_ok l \<longleftrightarrow> (dl_left_line_num l = None \<longleftrightarrow> dl_kind l = DiffAdded)
     \<and> (dl_right_line_num l = None \<longleftrightarrow> dl_kind l = DiffRemoved)"

lemma line_ok_kinds [simp]: "line_ok (unchanged_line c l r)" "line_ok (removed_line c l)" "line_ok (added_line c r)"
  by (simp_all add: line_ok_def diff_lines)

lemma walk_lines_ok: "list_all line_ok (lcs_walk xs ys w t n i j)"
proof (induction xs ys w t n i j rule: lcs_walk.induct)
  case (1 xs ys w t n i j)
  then show ?case by (subst lcs_walk.simps) auto
qed

subsection \<open>The ends\<close>

lemma equal_prefix_facts:
  "take (equal_prefix ls rs) ls = take (equal_prefix ls rs) rs"
  "equal_prefix ls rs \<le> length ls" "equal_prefix ls rs \<le> length rs"
proof (induction ls arbitrary: rs)
  case (Cons l ls)
  {
    case 1
    show ?case using Cons(1) by (cases rs) (auto simp: equal_prefix_def)
  next
    case 2
    show ?case using Cons(2) by (cases rs) (auto simp: equal_prefix_def)
  next
    case 3
    show ?case using Cons(3) by (cases rs) (auto simp: equal_prefix_def)
  }
qed (simp_all add: equal_prefix_def)

lemma common_ends:
  fixes ls rs :: "'a list"
  defines "k \<equiv> equal_prefix ls rs"
  defines "q \<equiv> equal_prefix (rev (drop k ls)) (rev (drop k rs))"
  defines "lm \<equiv> take (length ls - q - k) (drop k ls)" and "rm \<equiv> take (length rs - q - k) (drop k rs)"
  shows "k + q + length lm = length ls" and "k + q + length rm = length rs"
    and "ls = take k ls @ lm @ drop (length ls - q) ls" and "rs = take k ls @ rm @ drop (length ls - q) ls"
proof -
  have k: "take k ls = take k rs" "k \<le> length ls" "k \<le> length rs"
    unfolding k_def by (rule equal_prefix_facts)+
  have q: "take q (rev (drop k ls)) = take q (rev (drop k rs))" "q \<le> length ls - k" "q \<le> length rs - k"
    using equal_prefix_facts [of "rev (drop k ls)" "rev (drop k rs)"] by (simp_all add: q_def)
  show "k + q + length lm = length ls" "k + q + length rm = length rs"
    using k q by (simp_all add: lm_def rm_def)
  have whole: "xs = take k xs @ take (length xs - q - k) (drop k xs) @ drop (length xs - q) xs"
    if "k + q \<le> length xs" for xs :: "'a list"
  proof -
    have "drop (length xs - q) xs = drop (length xs - q - k) (drop k xs)" using that by simp
    then show ?thesis by (simp only: append_take_drop_id)
  qed
  show l: "ls = take k ls @ lm @ drop (length ls - q) ls" unfolding lm_def by (rule whole) (use k q in simp)
  have tail: "drop (length xs - q) xs = rev (take q (rev (drop k xs)))" if "k + q \<le> length xs" for xs :: "'a list"
    using that by (simp add: take_rev)
  have "drop (length rs - q) rs = drop (length ls - q) ls" using q k tail by simp
  then show "rs = take k ls @ rm @ drop (length ls - q) ls"
    unfolding rm_def using whole [of rs] k q by simp
qed

lemma leading_lines:
  assumes "k \<le> length ls"
  defines "d \<equiv> map (\<lambda>index. unchanged_line (ls ! index) (index + 1) (index + 1)) [0..<k]"
  shows "left_side d = d" and "right_side d = d" and "unchanged_count d = k" and "map dl_content d = take k ls"
    and "map dl_left_line_num d = map Some [1..<k + 1]" and "map dl_right_line_num d = map Some [1..<k + 1]"
    and "list_all line_ok d"
proof -
  show "left_side d = d" "right_side d = d" "unchanged_count d = k"
    by (auto simp: d_def left_side_def right_side_def unchanged_count_def diff_lines filter_id_conv)
  show "map dl_content d = take k ls" by (rule nth_equalityI) (use assms(1) in \<open>simp_all add: d_def\<close>)
  show "map dl_left_line_num d = map Some [1..<k + 1]" "map dl_right_line_num d = map Some [1..<k + 1]"
    by (simp_all add: d_def comp_def map_Suc_upt [symmetric] del: map_Suc_upt upt_Suc)
  show "list_all line_ok d" by (simp add: d_def list_all_iff)
qed

lemma trailing_lines:
  assumes "q \<le> length ls" and "q \<le> m"
  defines "d \<equiv> map (\<lambda>offset. unchanged_line (ls ! (length ls - offset - 1)) (length ls - offset) (m - offset)) (rev [0..<q])"
  shows "left_side d = d" and "right_side d = d" and "unchanged_count d = q" and "map dl_content d = drop (length ls - q) ls"
    and "map dl_left_line_num d = map Some [Suc (length ls - q)..<length ls + 1]"
    and "map dl_right_line_num d = map Some [Suc (m - q)..<m + 1]" and "list_all line_ok d"
proof -
  show "left_side d = d" "right_side d = d" "unchanged_count d = q"
    by (auto simp: d_def left_side_def right_side_def unchanged_count_def diff_lines filter_id_conv)
  have nth: "d ! i = unchanged_line (ls ! (length ls - q + i)) (Suc (length ls - q + i)) (Suc (m - q + i))" if "i < q" for i
    using assms(1,2) that by (simp add: d_def rev_nth Suc_diff_le)
  show "map dl_content d = drop (length ls - q) ls"
    by (rule nth_equalityI) (use assms(1) nth in \<open>simp_all add: d_def\<close>)
  show "map dl_left_line_num d = map Some [Suc (length ls - q)..<length ls + 1]"
    by (rule nth_equalityI) (use assms(1) nth in \<open>simp_all add: d_def del: upt_Suc\<close>)
  show "map dl_right_line_num d = map Some [Suc (m - q)..<m + 1]"
    by (rule nth_equalityI) (use assms(2) nth in \<open>simp_all add: d_def del: upt_Suc\<close>)
  show "list_all line_ok d" by (simp add: d_def list_all_iff)
qed

lemma upt_split: "i \<le> j \<Longrightarrow> j \<le> k \<Longrightarrow> [i..<j] @ [j..<k] = [i..<k]"
  using upt_add_eq_append [of i j "k - j"] by simp

text \<open>What the lines between the ends have to be, whichever way they are found.\<close>

definition middle_ok :: "nat \<Rightarrow> bytes list \<Rightarrow> bytes list \<Rightarrow> text_diff_line list \<Rightarrow> bool" where
  "middle_ok k lm rm d \<longleftrightarrow>
     map dl_content (left_side d) = lm \<and> map dl_content (right_side d) = rm
     \<and> map dl_left_line_num (left_side d) = map Some [Suc k..<k + length lm + 1]
     \<and> map dl_right_line_num (right_side d) = map Some [Suc k..<k + length rm + 1] \<and> list_all line_ok d"

lemma walk_middle:
  "middle_ok k lm rm (rev (lcs_walk lm rm w t k (length lm) (length rm)))"
  using walk_sides [of "length lm" lm "length rm" rm w t k] walk_lines_ok [of lm rm w t k "length lm" "length rm"]
  by (simp add: middle_ok_def rev_map [symmetric] list_all_iff del: upt_Suc)

lemma coarse_middle:
  "middle_ok k lm rm (map (\<lambda>index. removed_line (lm ! index) (k + index + 1)) [0..<length lm]
     @ map (\<lambda>index. added_line (rm ! index) (k + index + 1)) [0..<length rm])"
proof -
  let ?a = "map (\<lambda>index. removed_line (lm ! index) (k + index + 1)) [0..<length lm]"
  let ?b = "map (\<lambda>index. added_line (rm ! index) (k + index + 1)) [0..<length rm]"
  have sides: "left_side ?a = ?a" "right_side ?a = []" "left_side ?b = []" "right_side ?b = ?b"
    by (auto simp: left_side_def right_side_def diff_lines filter_id_conv filter_empty_conv)
  have "map dl_content ?a = lm" "map dl_content ?b = rm"
    by (rule nth_equalityI; simp)+
  moreover have "map dl_left_line_num ?a = map Some [Suc k..<k + length lm + 1]"
    "map dl_right_line_num ?b = map Some [Suc k..<k + length rm + 1]"
    by (rule nth_equalityI; simp del: upt_Suc)+
  ultimately show ?thesis unfolding middle_ok_def sides_append sides by (auto simp: list_all_iff simp del: upt_Suc)
qed

definition diff_middle :: "nat \<Rightarrow> bytes list \<Rightarrow> bytes list \<Rightarrow> text_diff_line list" where
  "diff_middle k lm rm =
     (let row_width = length rm + 1; cell_count = min usize_max ((length lm + 1) * row_width) in
      if MAX_LCS_CELLS < cell_count
      then map (\<lambda>index. removed_line (lm ! index) (k + index + 1)) [0..<length lm]
        @ map (\<lambda>index. added_line (rm ! index) (k + index + 1)) [0..<length rm]
      else rev (lcs_walk lm rm row_width (lcs_table lm rm row_width cell_count) k (length lm) (length rm)))"

lemma diff_middle_ok: "middle_ok k lm rm (diff_middle k lm rm)"
  by (simp only: diff_middle_def Let_def walk_middle coarse_middle if_cancel split: if_split) simp

lemma diff_middle_longest:
  assumes "(length lm + 1) * (length rm + 1) \<le> MAX_LCS_CELLS"
  shows "longest_common lm rm (unchanged_count (diff_middle k lm rm))"
proof -
  have cells: "min usize_max ((length lm + 1) * (length rm + 1)) = (length lm + 1) * (length rm + 1)"
    using assms by (intro min_absorb2) (simp add: MAX_LCS_CELLS_def usize_max_def)
  have "unchanged_count (diff_middle k lm rm) = lcs (rev lm) (rev rm)"
    using walk_count [where xs = lm and ys = rm and i = "length lm" and j = "length rm", OF lcs_table_correct] assms
    unfolding diff_middle_def Let_def cells by (simp add: lcs_upto_def)
  then show ?thesis using longest_common_lcs [of "rev lm" "rev rm"] by (simp add: longest_common_rev)
qed

text \<open>
  C9: Of any two texts the comparison gives, on its left side, every line of the left text in order and
  numbered from one, and on its right side every line of the right text likewise; added lines have no
  left number, removed ones no right number. Unless the texts are so large that the table is
  avoided, as many lines as possible are reported as unchanged: no common subsequence of the lines is longer.
\<close>

theorem text_diff_correct:
  fixes left right :: bytes
  defines "ls \<equiv> split_on 10 left" and "rs \<equiv> split_on 10 right" and "d \<equiv> compute_text_diff left right"
  shows "map dl_content (left_side d) = ls \<and> map dl_content (right_side d) = rs
    \<and> map dl_left_line_num (left_side d) = map Some [1..<length ls + 1]
    \<and> map dl_right_line_num (right_side d) = map Some [1..<length rs + 1] \<and> list_all line_ok d
    \<and> ((length ls + 1) * (length rs + 1) \<le> MAX_LCS_CELLS \<longrightarrow> longest_common ls rs (unchanged_count d))"
proof -
  define k where "k = equal_prefix ls rs"
  define q where "q = equal_prefix (rev (drop k ls)) (rev (drop k rs))"
  define lm where "lm = take (length ls - q - k) (drop k ls)"
  define rm where "rm = take (length rs - q - k) (drop k rs)"
  note ends = common_ends [where ls = ls and rs = rs, folded k_def, folded q_def, folded lm_def rm_def]
  let ?lead = "map (\<lambda>index. unchanged_line (ls ! index) (index + 1) (index + 1)) [0..<k]"
  let ?trail = "map (\<lambda>offset. unchanged_line (ls ! (length ls - offset - 1)) (length ls - offset) (length rs - offset)) (rev [0..<q])"
  have d: "d = ?lead @ diff_middle k lm rm @ ?trail"
    unfolding d_def compute_text_diff_def Let_def diff_middle_def
    by (simp only: ls_def [symmetric] rs_def [symmetric] k_def [symmetric] q_def [symmetric] lm_def [symmetric] rm_def [symmetric])
  have le: "k \<le> length ls" "q \<le> length ls" "q \<le> length rs" using ends(1,2) by simp_all
  note lead = leading_lines [OF le(1)] and trail = trailing_lines [OF le(2,3)]
  note mid = diff_middle_ok [of k lm rm, unfolded middle_ok_def]
  have upt: "[1..<k + 1] @ [Suc k..<k + n + 1] @ [Suc (m - q)..<m + 1] = [1..<m + 1]" if "k + q + n = m" for n m
  proof -
    have "[Suc k..<k + n + 1] @ [k + n + 1..<m + 1] = [Suc k..<m + 1]"
      using upt_split [of "Suc k" "k + n + 1" "m + 1"] that by simp
    moreover have "[1..<k + 1] @ [Suc k..<m + 1] = [1..<m + 1]"
      using upt_split [of 1 "Suc k" "m + 1"] that by simp
    moreover have "Suc (m - q) = k + n + 1" using that by simp
    ultimately show ?thesis by metis
  qed
  have "map dl_content (left_side d) = ls" using mid by (simp only: d sides_append lead trail map_append ends(3) [symmetric])
  moreover have "map dl_content (right_side d) = rs" using mid by (simp only: d sides_append lead trail map_append ends(4) [symmetric])
  moreover have "map dl_left_line_num (left_side d) = map Some [1..<length ls + 1]"
    using mid by (simp only: d sides_append lead trail map_append upt [OF ends(1), symmetric])
  moreover have "map dl_right_line_num (right_side d) = map Some [1..<length rs + 1]"
    using mid by (simp only: d sides_append lead trail map_append upt [OF ends(2), symmetric])
  moreover have "list_all line_ok d" using mid lead(7) trail(7) by (simp only: d list_all_append)
  moreover have "longest_common ls rs (unchanged_count d)" if small: "(length ls + 1) * (length rs + 1) \<le> MAX_LCS_CELLS"
  proof -
    have "(length lm + 1) * (length rm + 1) \<le> (length ls + 1) * (length rs + 1)"
      using ends(1,2) by (intro mult_le_mono) simp_all
    then have "longest_common lm rm (unchanged_count (diff_middle k lm rm))"
      using small by (intro diff_middle_longest) simp
    then have "longest_common (rev lm) (rev rm) (unchanged_count (diff_middle k lm rm))" by (simp add: longest_common_rev)
    then have "longest_common (rev (lm @ drop (length ls - q) ls)) (rev (rm @ drop (length ls - q) ls))
        (q + unchanged_count (diff_middle k lm rm))"
      using longest_common_append [of "rev lm" "rev rm" _ "rev (drop (length ls - q) ls)"] le(2) by simp
    then have "longest_common (lm @ drop (length ls - q) ls) (rm @ drop (length ls - q) ls)
        (q + unchanged_count (diff_middle k lm rm))"
      unfolding longest_common_rev .
    then have "longest_common (take k ls @ lm @ drop (length ls - q) ls) (take k ls @ rm @ drop (length ls - q) ls)
        (k + (q + unchanged_count (diff_middle k lm rm)))"
      using longest_common_append [of _ _ _ "take k ls"] le(1) by fastforce
    moreover have "unchanged_count d = k + (q + unchanged_count (diff_middle k lm rm))"
      by (simp only: d sides_append lead trail ac_simps)
    ultimately show ?thesis using ends(3,4) by simp
  qed
  ultimately show ?thesis by blast
qed

theorem text_diff_correct_witness:
  "longest_common (split_on 10 [97, 10, 98]) (split_on 10 [97, 10, 99]) (unchanged_count (compute_text_diff [97, 10, 98] [97, 10, 99]))"
  using text_diff_correct [of "[97, 10, 98]" "[97, 10, 99]"] by (simp add: MAX_LCS_CELLS_def)

text \<open>The summary counts the lines of each kind.\<close>

lemma text_diff_stats_count:
  "text_diff_stats_of ls = \<lparr>ds_added = length (filter (\<lambda>l. dl_kind l = DiffAdded) ls),
     ds_removed = length (filter (\<lambda>l. dl_kind l = DiffRemoved) ls), ds_unchanged = unchanged_count ls\<rparr>"
proof -
  let ?f = "\<lambda>line stats. case dl_kind line of
         DiffUnchanged \<Rightarrow> stats\<lparr>ds_unchanged := ds_unchanged stats + 1\<rparr>
       | DiffAdded \<Rightarrow> stats\<lparr>ds_added := ds_added stats + 1\<rparr>
       | DiffRemoved \<Rightarrow> stats\<lparr>ds_removed := ds_removed stats + 1\<rparr>"
  have "fold ?f ls \<lparr>ds_added = a, ds_removed = b, ds_unchanged = c\<rparr>
      = \<lparr>ds_added = a + length (filter (\<lambda>l. dl_kind l = DiffAdded) ls),
         ds_removed = b + length (filter (\<lambda>l. dl_kind l = DiffRemoved) ls), ds_unchanged = c + unchanged_count ls\<rparr>" for a b c
    by (induction ls arbitrary: a b c) (auto simp: unchanged_count_def split: text_diff_line_kind.splits)
  then show ?thesis by (simp add: text_diff_stats_of_def)
qed

end
