(* ===== verification/Sftp_Paths.thy ===== *)
theory Sftp_Paths
  imports Rust_Str
begin

text \<open>
  Remote paths and name conflicts (\<^verbatim>\<open>hapcli-sftp/src/path_utils.rs\<close>, \<^verbatim>\<open>conflict.rs\<close>). Paths are the bytes of
  strings; a local path is joined as on Unix. The search for a free name is a loop that is
  shown to end.
\<close>

subsection \<open>The source's operations\<close>

datatype sftp_error =
    SubsystemNotAvailable bytes | PermissionDenied bytes | SftpFileNotFound bytes | DirectoryNotFound bytes
  | SftpIoError bytes | ChannelError bytes | ProtocolError bytes | InvalidPath bytes | TransferCancelled
  | TransferInterrupted bytes | NotInitialized bytes | TransferError bytes | WriteError bytes | StorageError bytes

definition starts_with_byte :: "u8 \<Rightarrow> bytes \<Rightarrow> bool" where
  "starts_with_byte b s \<longleftrightarrow> s \<noteq> [] \<and> hd s = b"

definition ends_with_byte :: "u8 \<Rightarrow> bytes \<Rightarrow> bool" where
  "ends_with_byte b s \<longleftrightarrow> s \<noteq> [] \<and> last s = b"

definition is_absolute_remote_path :: "bytes \<Rightarrow> bool" where
  "is_absolute_remote_path path \<longleftrightarrow>
     starts_with_byte 47 path
     \<or> length path \<ge> 3 \<and> is_ascii_alphabetic (path ! 0) \<and> path ! 1 = 58 \<and> (path ! 2 = 47 \<or> path ! 2 = 92)"

definition join_local_path :: "bytes \<Rightarrow> bytes \<Rightarrow> bytes" where
  "join_local_path base component =
     (if starts_with_byte 47 component then component
      else if base = [] \<or> ends_with_byte 47 base then base @ component
      else base @ [47] @ component)"

definition validate_remote_entry_name :: "bytes \<Rightarrow> sftp_error + unit" where
  "validate_remote_entry_name name =
     (if name = [] \<or> name = [46] \<or> name = [46, 46] \<or> (\<exists>b\<in>{47, 92, 10, 13, 0}. b \<in> set name)
      then Err (ProtocolError (str_lit ''SFTP directory entry is not a safe path component''))
      else Ok ())"

definition join_remote_path :: "bytes \<Rightarrow> bytes \<Rightarrow> bytes" where
  "join_remote_path base component =
     (if ends_with_byte 47 base then base @ component else base @ [47] @ component)"

text \<open>\<^verbatim>\<open>replace("//", "/")\<close>: matches do not overlap.\<close>

fun replace_double_slash :: "bytes \<Rightarrow> bytes" where
  "replace_double_slash (b # c # bs) =
     (if b = 47 \<and> c = 47 then 47 # replace_double_slash bs else b # replace_double_slash (c # bs))"
| "replace_double_slash bs = bs"

definition normalize_remote_path :: "bytes \<Rightarrow> bytes" where
  "normalize_remote_path path =
     (let trimmed = str_trim path in
      if trimmed = [] \<or> trimmed = [47] then [47]
      else
        let normalized = replace_double_slash (map (\<lambda>b. if b = 92 then 47 else b) trimmed) in
        if starts_with_byte 47 normalized then normalized else 47 # normalized)"

definition join_slash :: "bytes list \<Rightarrow> bytes" where
  "join_slash parts = concat (case parts of [] \<Rightarrow> [] | p # ps \<Rightarrow> p # map (\<lambda>q. 47 # q) ps)"

definition trim_end_slash :: "bytes \<Rightarrow> bytes" where
  "trim_end_slash s = rev (dropWhile (\<lambda>b. b = 47) (rev s))"

definition remote_parent_path :: "bytes \<Rightarrow> bytes" where
  "remote_parent_path path =
     (let normalized = normalize_remote_path path in
      if normalized = [47] then normalized
      else
        let parts = butlast (filter (\<lambda>part. part \<noteq> []) (split_on 47 (trim_end_slash normalized))) in
        if parts = [] then [47] else 47 # join_slash parts)"

definition remote_directory_prefixes :: "bytes \<Rightarrow> bytes list" where
  "remote_directory_prefixes path =
     (let absolute = starts_with_byte 47 path;
          components = filter (\<lambda>part. part \<noteq> []) (split_on 47 path) in
      map (\<lambda>index. let joined = join_slash (take (index + 1) components) in
             if absolute then 47 # joined else joined)
        [0..<length components])"

definition split_extension :: "bytes \<Rightarrow> bytes \<times> bytes" where
  "split_extension name =
     (if 46 \<in> set name
      then let index = length name - 1 - length (takeWhile (\<lambda>b. b \<noteq> 46) (rev name)) in
           if index > 0 then (take index name, drop index name) else (name, [])
      else (name, []))"

definition conflict_candidate :: "bytes \<Rightarrow> bytes \<Rightarrow> nat \<Rightarrow> bytes" where
  "conflict_candidate base_name extension counter =
     base_name @ [32, 40] @ u64_to_string counter @ [41] @ extension"

partial_function (option) conflict_loop :: "bytes list \<Rightarrow> bytes \<Rightarrow> bytes \<Rightarrow> nat \<Rightarrow> bytes option" where
  "conflict_loop existing_names base_name extension counter =
     (let candidate = conflict_candidate base_name extension counter in
      if candidate \<notin> set existing_names then Some candidate
      else conflict_loop existing_names base_name extension (counter + 1))"

definition unique_conflict_name :: "bytes \<Rightarrow> bytes list \<Rightarrow> bytes option" where
  "unique_conflict_name name existing_names =
     (let (base_name, extension) = split_extension name in conflict_loop existing_names base_name extension 1)"

datatype transfer_direction = Upload | Download

record conflict_transfer =
  ct_name :: bytes
  ct_source_size :: nat
  ct_source_modified :: "int option"
  ct_source_is_directory :: bool
  ct_direction :: transfer_direction

record conflict_target =
  cg_name :: bytes
  cg_size :: nat
  cg_modified :: "int option"
  cg_is_directory :: bool

record transfer_conflict =
  cf_file_name :: bytes
  cf_source_size :: nat
  cf_source_modified :: "int option"
  cf_target_size :: nat
  cf_target_modified :: "int option"
  cf_direction :: transfer_direction

definition find_transfer_conflicts :: "conflict_transfer list \<Rightarrow> conflict_target list \<Rightarrow> transfer_conflict list" where
  "find_transfer_conflicts transfers targets =
     concat (map (\<lambda>transfer.
       case find (\<lambda>target. cg_name target = ct_name transfer) targets of
         None \<Rightarrow> []
       | Some target \<Rightarrow>
           [\<lparr>cf_file_name = ct_name transfer, cf_source_size = ct_source_size transfer,
             cf_source_modified = ct_source_modified transfer, cf_target_size = cg_size target,
             cf_target_modified = cg_modified target, cf_direction = ct_direction transfer\<rparr>]) transfers)"

definition source_not_newer_than_target :: "bytes \<Rightarrow> int option \<Rightarrow> conflict_target list \<Rightarrow> bool" where
  "source_not_newer_than_target source_name source_modified targets =
     (case find (\<lambda>target. cg_name target = source_name \<and> \<not> cg_is_directory target) targets of
        None \<Rightarrow> False
      | Some target \<Rightarrow>
          (case (source_modified, cg_modified target) of
             (Some s, Some t) \<Rightarrow> s \<le> t
           | _ \<Rightarrow> False))"

subsection \<open>Free names\<close>

lemma u64_to_string_inj: "u64_to_string m = u64_to_string n \<Longrightarrow> m = n"
proof (induction m arbitrary: n rule: less_induct)
  case (less m)
  have digit: "word_of_nat (48 + a) = (word_of_nat (48 + b) :: u8) \<Longrightarrow> a = b" if "a < 10" "b < 10" for a b
  proof -
    assume "word_of_nat (48 + a) = (word_of_nat (48 + b) :: u8)"
    then have "unat (48 + word_of_nat a :: u8) = unat (48 + word_of_nat b :: u8)" by simp
    then show "a = b" using digit_byte(2) that by simp
  qed
  have len: "k < 10 \<longleftrightarrow> length (u64_to_string k) = 1" for k
    by (subst u64_to_string.simps) (auto simp: length_0_conv)
  show ?case
  proof (cases "m < 10")
    case True
    then have "n < 10" using less.prems len by metis
    then show ?thesis using True less.prems digit by (simp add: u64_to_string.simps)
  next
    case False
    then have n: "\<not> n < 10" using less.prems len by metis
    have "u64_to_string (m div 10) @ [word_of_nat (48 + m mod 10)] = u64_to_string (n div 10) @ [word_of_nat (48 + n mod 10)]"
      using less.prems False n by (subst (asm) (1 2) u64_to_string.simps) simp
    then have "u64_to_string (m div 10) = u64_to_string (n div 10)" "m mod 10 = n mod 10"
      using digit [of "m mod 10" "n mod 10"] by simp_all
    moreover have "m div 10 < m" using False by simp
    ultimately have "m div 10 = n div 10" using less.IH by blast
    then show ?thesis using \<open>m mod 10 = n mod 10\<close> by (metis div_mult_mod_eq)
  qed
qed

lemma conflict_candidate_inj: "conflict_candidate b e m = conflict_candidate b e n \<Longrightarrow> m = n"
  by (auto simp: conflict_candidate_def intro: u64_to_string_inj)

lemma some_candidate_free:
  fixes existing :: "bytes list"
  shows "\<exists>n\<ge>1. n \<le> length existing + 1 \<and> conflict_candidate b e n \<notin> set existing"
proof (rule ccontr)
  assume "\<not> ?thesis"
  then have "conflict_candidate b e ` {1..length existing + 1} \<subseteq> set existing" by force
  then have "card (conflict_candidate b e ` {1..length existing + 1}) \<le> card (set existing)" by (intro card_mono) auto
  moreover have "card (conflict_candidate b e ` {1..length existing + 1}) = length existing + 1"
    by (subst card_image) (auto intro!: inj_onI dest: conflict_candidate_inj)
  ultimately show False using card_length [of existing] by linarith
qed

lemma conflict_loop_first:
  assumes "conflict_candidate b e n \<notin> set existing" and "m \<le> n" and "\<forall>k. m \<le> k \<longrightarrow> k < n \<longrightarrow> conflict_candidate b e k \<in> set existing"
  shows "conflict_loop existing b e m = Some (conflict_candidate b e n)"
  using assms(2,3)
proof (induction "n - m" arbitrary: m)
  case 0
  then show ?case using assms(1) by (subst conflict_loop.simps) simp
next
  case (Suc d)
  then have "conflict_candidate b e m \<in> set existing" by simp
  moreover have "conflict_loop existing b e (m + 1) = Some (conflict_candidate b e n)" using Suc by simp
  ultimately show ?case by (subst conflict_loop.simps) simp
qed

lemma split_extension_parts:
  assumes "split_extension name = (b, e)"
  shows "name = b @ e" and "b \<noteq> [] \<and> e \<noteq> [] \<and> hd e = 46 \<and> 46 \<notin> set (tl e) \<or> e = [] \<and> 46 \<notin> set (tl name)"
proof -
  show "name = b @ e" using assms by (auto simp: split_extension_def Let_def split: if_splits)
  show "b \<noteq> [] \<and> e \<noteq> [] \<and> hd e = 46 \<and> 46 \<notin> set (tl e) \<or> e = [] \<and> 46 \<notin> set (tl name)"
  proof (cases "46 \<in> set name")
    case True
    then obtain ys zs where name: "name = ys @ 46 # zs" "46 \<notin> set zs" by (meson split_list_last)
    have "takeWhile (\<lambda>b. b \<noteq> 46) (rev name) = rev zs"
      using name(2) takeWhile_append2 [where xs = "rev zs" and P = "\<lambda>b. b \<noteq> 46"] by (fastforce simp: name(1))
    then have "length name - 1 - length (takeWhile (\<lambda>b. b \<noteq> 46) (rev name)) = length ys" by (simp add: name(1))
    then show ?thesis using assms True name(2) by (auto simp: split_extension_def name(1) Let_def split: if_splits)
  next
    case False
    then show ?thesis using assms by (cases name) (auto simp: split_extension_def)
  qed
qed

text \<open>
  C36: choosing a name for a conflicting file always ends: it gives the name with the first number, put before the
  extension, that no existing file has, after at most one try more than there are files. The extension starts at the last
  dot that is not the first byte of the name.
\<close>

theorem conflict_name_is_found:
  "\<exists>base_name extension n. name = base_name @ extension
    \<and> (base_name \<noteq> [] \<and> extension \<noteq> [] \<and> hd extension = 46 \<and> 46 \<notin> set (tl extension) \<or> extension = [] \<and> 46 \<notin> set (tl name))
    \<and> 1 \<le> n \<and> n \<le> length existing + 1
    \<and> unique_conflict_name name existing = Some (conflict_candidate base_name extension n)
    \<and> conflict_candidate base_name extension n \<notin> set existing
    \<and> (\<forall>k. 1 \<le> k \<and> k < n \<longrightarrow> conflict_candidate base_name extension k \<in> set existing)"
proof -
  obtain b e where be: "split_extension name = (b, e)" by fastforce
  note name = split_extension_parts [OF be]
  let ?P = "\<lambda>n. 1 \<le> n \<and> conflict_candidate b e n \<notin> set existing"
  define n where "n = (LEAST n. ?P n)"
  obtain n0 where n0: "?P n0" "n0 \<le> length existing + 1" using some_candidate_free [of existing b e] by blast
  have n: "?P n" unfolding n_def by (rule LeastI [of ?P, OF n0(1)])
  have "n \<le> n0" unfolding n_def by (rule Least_le [of ?P, OF n0(1)])
  moreover have before: "\<forall>k. 1 \<le> k \<and> k < n \<longrightarrow> conflict_candidate b e k \<in> set existing"
    unfolding n_def using not_less_Least by blast
  moreover have "unique_conflict_name name existing = Some (conflict_candidate b e n)"
    unfolding unique_conflict_name_def be Let_def prod.case using n before by (intro conflict_loop_first) auto
  ultimately show ?thesis using n n0(2) name by (intro exI [of _ b] exI [of _ e] exI [of _ n]) auto
qed

theorem conflict_name_is_found_witness:
  "unique_conflict_name [97, 46, 98] [] \<noteq> None"
  using conflict_name_is_found [of "[97, 46, 98]" "[]"] by auto

subsection \<open>Components\<close>

definition components :: "bytes \<Rightarrow> bytes list" where
  "components path = filter (\<lambda>part. part \<noteq> []) (split_on 47 path)"

lemma split_on_not_Nil [simp]: "split_on c s \<noteq> []"
  by (induction s) (auto split: list.splits)

lemma split_on_append: "split_on c (a @ c # b) = split_on c a @ split_on c b"
proof (induction a)
  case (Cons x a)
  then show ?case by (cases "split_on c a") auto
qed simp

lemma components_append: "components (a @ 47 # b) = components a @ components b"
  by (simp add: components_def split_on_append)

lemma components_Nil [simp]: "components [] = []"
  by (simp add: components_def)

lemma components_slash: "components (47 # b) = components b"
  using components_append [of "[]" b] by simp

lemma components_plain: "47 \<notin> set name \<Longrightarrow> name \<noteq> [] \<Longrightarrow> components name = [name]"
  by (simp add: components_def split_on_absent)

lemma components_trailing: "components (a @ replicate n 47) = components a"
proof (induction n arbitrary: a)
  case (Suc n)
  have "components (a @ replicate (Suc n) 47) = components ((a @ [47]) @ replicate n 47)" by simp
  also have "\<dots> = components (a @ [47])" by (rule Suc.IH)
  also have "\<dots> = components a" using components_append [of a "[]"] by simp
  finally show ?case .
qed simp

lemma components_trim_end: "components (trim_end_slash s) = components s"
proof -
  have "takeWhile (\<lambda>b. b = 47) (rev s) = replicate (length (takeWhile (\<lambda>b. b = 47) (rev s))) 47"
    by (rule replicate_eqI [symmetric, THEN sym]) (auto dest: set_takeWhileD)
  then have "s = trim_end_slash s @ replicate (length (takeWhile (\<lambda>b. b = 47) (rev s))) 47"
    unfolding trim_end_slash_def by (metis rev_append rev_replicate rev_rev_ident takeWhile_dropWhile_id)
  then show ?thesis using components_trailing by metis
qed

lemma components_set: "part \<in> set (components s) \<Longrightarrow> part \<noteq> [] \<and> 47 \<notin> set part"
proof -
  have "47 \<notin> set part" if "part \<in> set (split_on 47 s)" for part
    using that
  proof (induction s arbitrary: part)
    case (Cons b s)
    then show ?case by (cases "split_on 47 s") (auto split: if_splits)
  qed simp
  then show "part \<in> set (components s) \<Longrightarrow> part \<noteq> [] \<and> 47 \<notin> set part" by (simp add: components_def)
qed

lemma components_join_slash:
  assumes "\<forall>part\<in>set parts. part \<noteq> [] \<and> 47 \<notin> set part"
  shows "components (join_slash parts) = parts"
proof (cases parts)
  case (Cons p ps)
  have "components (q @ concat (map (\<lambda>q. 47 # q) ps)) = q # ps" if "q \<noteq> [] \<and> 47 \<notin> set q" "\<forall>part\<in>set ps. part \<noteq> [] \<and> 47 \<notin> set part" for q ps
    using that
  proof (induction ps arbitrary: q)
    case Nil
    then show ?case by (simp add: components_plain)
  next
    case (Cons p ps)
    then show ?case by (simp add: components_append components_plain)
  qed
  then show ?thesis using assms Cons by (simp add: join_slash_def)
qed (simp add: join_slash_def)



text \<open>The parent of a path is absolute and has all its components but the last; the prefixes are those of the components.\<close>

lemma remote_parent_components:
  "starts_with_byte 47 (remote_parent_path path)
    \<and> components (remote_parent_path path) = butlast (components (normalize_remote_path path))"
proof (cases "normalize_remote_path path = [47]")
  case True
  then show ?thesis by (simp add: remote_parent_path_def starts_with_byte_def components_slash)
next
  case False
  let ?n = "normalize_remote_path path" and ?parts = "butlast (components (normalize_remote_path path))"
  have parts: "butlast (filter (\<lambda>part. part \<noteq> []) (split_on 47 (trim_end_slash ?n))) = ?parts"
    by (simp only: components_def [symmetric] components_trim_end)
  have ok: "\<forall>part\<in>set ?parts. part \<noteq> [] \<and> 47 \<notin> set part" using components_set by (metis in_set_butlastD)
  have p: "remote_parent_path path = (if ?parts = [] then [47] else 47 # join_slash ?parts)"
    using False by (simp add: remote_parent_path_def Let_def parts)
  show ?thesis using components_join_slash [OF ok] by (simp add: p starts_with_byte_def components_slash)
qed

lemma directory_prefixes_components:
  assumes "i < length (components path)"
  shows "components (remote_directory_prefixes path ! i) = take (i + 1) (components path)
    \<and> starts_with_byte 47 (remote_directory_prefixes path ! i) = starts_with_byte 47 path"
proof -
  let ?c = "components path"
  have nth: "remote_directory_prefixes path ! i =
      (if starts_with_byte 47 path then 47 # join_slash (take (i + 1) ?c) else join_slash (take (i + 1) ?c))"
    using assms by (simp add: remote_directory_prefixes_def components_def [symmetric] Let_def)
  have ok: "\<forall>part\<in>set (take (i + 1) ?c). part \<noteq> [] \<and> 47 \<notin> set part" using components_set by (metis in_set_takeD)
  obtain p ps where c: "?c = p # ps" using assms by (cases ?c) auto
  have "p \<noteq> [] \<and> 47 \<notin> set p" using components_set [of p path] c by simp
  then have "\<not> starts_with_byte 47 (join_slash (take (i + 1) ?c))"
    by (cases p) (auto simp: c join_slash_def starts_with_byte_def)
  then show ?thesis using components_join_slash [OF ok] by (simp add: nth components_slash) (simp add: starts_with_byte_def)
qed

text \<open>Three slashes in a row are not normalised: two of them remain.\<close>

lemma normalize_leaves_double_slash:
  "normalize_remote_path (str_lit ''a///b'') = str_lit ''/a//b''"
  "normalize_remote_path (str_lit ''/a//b'') = str_lit ''/a/b''"
proof -
  have "str_trim [97, 47, 47, 47, 98] = [97, 47, 47, 47, 98]" "str_trim [47, 97, 47, 47, 98] = [47, 97, 47, 47, 98]"
    by (rule str_trim_plain; simp)+
  then show "normalize_remote_path (str_lit ''a///b'') = str_lit ''/a//b''"
    "normalize_remote_path (str_lit ''/a//b'') = str_lit ''/a/b''"
    by (simp_all add: normalize_remote_path_def str_lit_def starts_with_byte_def)
qed

end
