(* ===== verification/Sftp_Transfers.thy ===== *)
theory Sftp_Transfers
  imports Rust_Str "HOL-Library.AList" "HOL-Library.List_Lexorder"
begin

text \<open>
  The manager of SFTP transfers (\<^verbatim>\<open>hapcli-sftp/src/transfer_manager.rs\<close>): the controls through which a
  transfer is cancelled, paused or interrupted, the snapshots of background transfers,
  the permits that limit how many transfers run, and the shutdown of a session. Controls are shared
  between the manager and the transfers that hold them, so they live in a store and are referred
  to by their position. An operation of the manager is one definition and,
  in the runs, one step, also where it takes the locks of both maps one after the other; \<open>acquire_permit\<close>, the registration of a background transfer and the
  shutdown are one definition for each of their sections. The
  clock is an argument; the caches for the results of capability probes are left out.
\<close>

subsection \<open>The source's operations: values\<close>

definition DEFAULT_SFTP_CONCURRENT_TRANSFERS :: nat where "DEFAULT_SFTP_CONCURRENT_TRANSFERS = 3"
definition DEFAULT_SFTP_DIRECTORY_PARALLELISM :: nat where "DEFAULT_SFTP_DIRECTORY_PARALLELISM = 4"
definition MAX_SFTP_CONCURRENT_TRANSFERS :: nat where "MAX_SFTP_CONCURRENT_TRANSFERS = 10"
definition MAX_SFTP_DIRECTORY_PARALLELISM :: nat where "MAX_SFTP_DIRECTORY_PARALLELISM = 16"

definition FINISHED_BACKGROUND_TRANSFER_RETENTION_MS :: nat where
  "FINISHED_BACKGROUND_TRANSFER_RETENTION_MS = 5 * 60 * 1000"

datatype shutdown_state = ManagerRunning | ManagerShuttingDown | ManagerStopped

datatype transfer_protocol = ProtocolSftp | ProtocolScp

datatype transfer_strategy = StrategyFile | StrategyDirectoryRecursive | StrategyDirectoryTar

datatype background_transfer_direction = BackgroundUpload | BackgroundDownload

datatype background_transfer_kind = KindFile | KindDirectory

datatype background_transfer_state =
  BtPending | BtActive | BtPaused | BtCompleted | BtCancelled | BtError

definition is_finished :: "background_transfer_state \<Rightarrow> bool" where
  "is_finished st \<longleftrightarrow> st \<in> {BtCompleted, BtCancelled, BtError}"

record background_snapshot =
  bt_id :: bytes
  bt_node_id :: bytes
  bt_name :: bytes
  bt_local_path :: bytes
  bt_remote_path :: bytes
  bt_direction :: background_transfer_direction
  bt_kind :: background_transfer_kind
  bt_protocol :: transfer_protocol
  bt_strategy :: transfer_strategy
  bt_state :: background_transfer_state
  bt_size :: nat
  bt_transferred :: nat
  bt_backend_speed :: "nat option"
  bt_error :: "bytes option"
  bt_start_time :: nat
  bt_end_time :: "nat option"
  bt_item_count :: "nat option"

definition snapshot_new ::
  "nat \<Rightarrow> bytes \<Rightarrow> bytes \<Rightarrow> bytes \<Rightarrow> bytes \<Rightarrow> bytes \<Rightarrow> background_transfer_direction \<Rightarrow> background_transfer_kind
     \<Rightarrow> transfer_strategy \<Rightarrow> nat \<Rightarrow> nat \<Rightarrow> background_snapshot" where
  "snapshot_new now i node_id name local_path remote_path direction kind strategy size_bytes transferred =
     \<lparr>bt_id = i, bt_node_id = node_id, bt_name = name, bt_local_path = local_path, bt_remote_path = remote_path,
      bt_direction = direction, bt_kind = kind, bt_protocol = ProtocolSftp, bt_strategy = strategy,
      bt_state = BtPending, bt_size = size_bytes, bt_transferred = transferred, bt_backend_speed = None,
      bt_error = None, bt_start_time = now, bt_end_time = None, bt_item_count = None\<rparr>"

record sftp_transfer_settings =
  rs_max_concurrent_transfers :: nat
  rs_speed_limit_kbps :: nat
  rs_directory_parallelism :: nat

record sftp_transfer_stats =
  rt_active :: nat
  rt_queued :: nat
  rt_completed :: nat

record sftp_shutdown_report =
  sr_started :: bool
  sr_drained :: bool
  sr_cancelled_transfers :: nat
  sr_remaining_transfers :: nat

record sftp_control =
  tc_cancelled :: bool
  tc_paused :: bool
  tc_interrupt :: "bytes option"

definition control_new :: sftp_control where
  "control_new = \<lparr>tc_cancelled = False, tc_paused = False, tc_interrupt = None\<rparr>"

record registered_control =
  rc_control :: nat
  rc_owner_count :: nat
  rc_node_id :: "bytes option"

subsection \<open>The source's operations: the manager\<close>

record sftp_manager =
  tm_store :: "sftp_control list"
  tm_controls :: "(bytes \<times> registered_control) list"
  tm_permits :: nat
  tm_active_count :: nat
  tm_max_concurrent :: nat
  tm_directory_parallelism :: nat
  tm_speed_limit_bps :: nat
  tm_shutdown_state :: shutdown_state
  tm_background :: "(bytes \<times> background_snapshot) list"

definition manager_new :: sftp_manager where
  "manager_new =
     \<lparr>tm_store = [], tm_controls = [], tm_permits = MAX_SFTP_CONCURRENT_TRANSFERS, tm_active_count = 0,
      tm_max_concurrent = DEFAULT_SFTP_CONCURRENT_TRANSFERS,
      tm_directory_parallelism = DEFAULT_SFTP_DIRECTORY_PARALLELISM, tm_speed_limit_bps = 0,
      tm_shutdown_state = ManagerRunning, tm_background = []\<rparr>"

definition cleanup_background_transfers :: "nat \<Rightarrow> sftp_manager \<Rightarrow> sftp_manager" where
  "cleanup_background_transfers now m =
     m\<lparr>tm_background := filter (\<lambda>(i, snapshot).
         \<not> is_finished (bt_state snapshot)
         \<or> (case bt_end_time snapshot of
              Some end_time \<Rightarrow> now - end_time \<le> FINISHED_BACKGROUND_TRANSFER_RETENTION_MS
            | None \<Rightarrow> True)) (tm_background m)\<rparr>"

definition clamp :: "nat \<Rightarrow> nat \<Rightarrow> nat \<Rightarrow> nat" where
  "clamp lo hi x = max lo (min hi x)"

definition set_max_concurrent :: "nat \<Rightarrow> sftp_manager \<Rightarrow> sftp_manager" where
  "set_max_concurrent limit m = m\<lparr>tm_max_concurrent := clamp 1 MAX_SFTP_CONCURRENT_TRANSFERS limit\<rparr>"

definition set_directory_parallelism :: "nat \<Rightarrow> sftp_manager \<Rightarrow> sftp_manager" where
  "set_directory_parallelism parallelism m =
     m\<lparr>tm_directory_parallelism := clamp 1 MAX_SFTP_DIRECTORY_PARALLELISM parallelism\<rparr>"

definition set_speed_limit_kbps :: "nat \<Rightarrow> sftp_manager \<Rightarrow> sftp_manager" where
  "set_speed_limit_kbps kbps m = m\<lparr>tm_speed_limit_bps := min usize_max (kbps * 1024)\<rparr>"

definition apply_settings :: "sftp_transfer_settings \<Rightarrow> sftp_manager \<Rightarrow> sftp_manager" where
  "apply_settings settings m =
     set_directory_parallelism (rs_directory_parallelism settings)
       (set_speed_limit_kbps (rs_speed_limit_kbps settings)
         (set_max_concurrent (rs_max_concurrent_transfers settings) m))"

definition registered_count :: "sftp_manager \<Rightarrow> nat" where
  "registered_count m = length (tm_controls m)"

definition transfer_stats :: "sftp_manager \<Rightarrow> sftp_transfer_stats" where
  "transfer_stats m =
     \<lparr>rt_active = tm_active_count m, rt_queued = registered_count m - tm_active_count m, rt_completed = 0\<rparr>"

definition register_owned :: "bytes \<Rightarrow> bytes option \<Rightarrow> sftp_manager \<Rightarrow> sftp_manager \<times> nat" where
  "register_owned transfer_id node_id m =
     (case map_of (tm_controls m) transfer_id of
        Some registered \<Rightarrow>
          (m\<lparr>tm_controls := AList.update transfer_id
               (registered\<lparr>rc_owner_count := rc_owner_count registered + 1,
                           rc_node_id := (if rc_node_id registered = None then node_id else rc_node_id registered)\<rparr>)
               (tm_controls m)\<rparr>,
           rc_control registered)
      | None \<Rightarrow>
          (let control = control_new\<lparr>tc_cancelled := tm_shutdown_state m \<noteq> ManagerRunning\<rparr>;
               ref = length (tm_store m) in
           (m\<lparr>tm_store := tm_store m @ [control],
              tm_controls := AList.update transfer_id
                \<lparr>rc_control = ref, rc_owner_count = 1, rc_node_id = node_id\<rparr> (tm_controls m)\<rparr>,
            ref)))"

definition register_transfer :: "bytes \<Rightarrow> sftp_manager \<Rightarrow> sftp_manager \<times> nat" where
  "register_transfer transfer_id m = register_owned transfer_id None m"

definition register_for_node :: "bytes \<Rightarrow> bytes \<Rightarrow> sftp_manager \<Rightarrow> sftp_manager \<times> nat" where
  "register_for_node transfer_id node_id m = register_owned transfer_id (Some node_id) m"

definition get_control :: "bytes \<Rightarrow> sftp_manager \<Rightarrow> nat option" where
  "get_control transfer_id m = map_option rc_control (map_of (tm_controls m) transfer_id)"

definition unregister :: "bytes \<Rightarrow> sftp_manager \<Rightarrow> sftp_manager" where
  "unregister transfer_id m =
     (case map_of (tm_controls m) transfer_id of
        None \<Rightarrow> m
      | Some registered \<Rightarrow>
          (let owner_count = rc_owner_count registered - 1 in
           if owner_count = 0 then m\<lparr>tm_controls := AList.delete transfer_id (tm_controls m)\<rparr>
           else m\<lparr>tm_controls := AList.update transfer_id (registered\<lparr>rc_owner_count := owner_count\<rparr>) (tm_controls m)\<rparr>))"

text \<open>A change of the control that a transfer is registered with, and of a background snapshot.\<close>

definition modify_control :: "nat \<Rightarrow> (sftp_control \<Rightarrow> sftp_control) \<Rightarrow> sftp_manager \<Rightarrow> sftp_manager" where
  "modify_control ref f m = m\<lparr>tm_store := (tm_store m)[ref := f (tm_store m ! ref)]\<rparr>"

definition modify_background ::
  "bytes \<Rightarrow> (background_snapshot \<Rightarrow> bool) \<Rightarrow> (background_snapshot \<Rightarrow> background_snapshot) \<Rightarrow> sftp_manager \<Rightarrow> sftp_manager" where
  "modify_background transfer_id guard f m =
     (case map_of (tm_background m) transfer_id of
        None \<Rightarrow> m
      | Some snapshot \<Rightarrow>
          if guard snapshot then m\<lparr>tm_background := AList.update transfer_id (f snapshot) (tm_background m)\<rparr> else m)"

definition unfinished :: "background_snapshot \<Rightarrow> bool" where
  "unfinished snapshot \<longleftrightarrow> \<not> is_finished (bt_state snapshot)"

definition cancel_transfer :: "bytes \<Rightarrow> sftp_manager \<Rightarrow> sftp_manager \<times> bool" where
  "cancel_transfer transfer_id m =
     (case get_control transfer_id m of
        Some control \<Rightarrow> (modify_control control (\<lambda>c. c\<lparr>tc_cancelled := True\<rparr>) m, True)
      | None \<Rightarrow> (m, False))"

definition pause_transfer :: "bytes \<Rightarrow> sftp_manager \<Rightarrow> sftp_manager \<times> bool" where
  "pause_transfer transfer_id m =
     (case get_control transfer_id m of
        Some control \<Rightarrow>
          (modify_background transfer_id unfinished (\<lambda>s. s\<lparr>bt_state := BtPaused, bt_backend_speed := Some 0\<rparr>)
             (modify_control control (\<lambda>c. c\<lparr>tc_paused := True\<rparr>) m), True)
      | None \<Rightarrow> (m, False))"

definition resume_transfer :: "bytes \<Rightarrow> sftp_manager \<Rightarrow> sftp_manager \<times> bool" where
  "resume_transfer transfer_id m =
     (case get_control transfer_id m of
        Some control \<Rightarrow>
          (modify_background transfer_id (\<lambda>s. bt_state s = BtPaused) (\<lambda>s. s\<lparr>bt_state := BtPending\<rparr>)
             (modify_control control (\<lambda>c. c\<lparr>tc_paused := False\<rparr>) m), True)
      | None \<Rightarrow> (m, False))"

definition interrupt_transfer_of :: "nat \<Rightarrow> bytes \<Rightarrow> bytes \<Rightarrow> sftp_manager \<Rightarrow> sftp_manager \<times> bool" where
  "interrupt_transfer_of now transfer_id reason m =
     (let (m1, had_control) =
            (case get_control transfer_id m of
               Some control \<Rightarrow> (modify_control control (\<lambda>c. c\<lparr>tc_interrupt := Some reason\<rparr>) m, True)
             | None \<Rightarrow> (m, False));
          found = (case map_of (tm_background m1) transfer_id of Some s \<Rightarrow> unfinished s | None \<Rightarrow> False) in
      (modify_background transfer_id unfinished
         (\<lambda>s. s\<lparr>bt_state := BtError, bt_error := Some reason, bt_backend_speed := Some 0, bt_end_time := Some now\<rparr>) m1,
       found \<or> had_control))"

definition interrupt_node :: "nat \<Rightarrow> bytes \<Rightarrow> bytes \<Rightarrow> sftp_manager \<Rightarrow> sftp_manager \<times> bytes list" where
  "interrupt_node now node_id reason m =
     (let transfer_ids = sort (map fst (filter (\<lambda>(i, registered). rc_node_id registered = Some node_id) (tm_controls m))) in
      (fold (\<lambda>i m. fst (interrupt_transfer_of now i reason m)) transfer_ids m, transfer_ids))"

definition cancel_all :: "sftp_manager \<Rightarrow> sftp_manager" where
  "cancel_all m =
     fold (\<lambda>(i, registered). modify_control (rc_control registered) (\<lambda>c. c\<lparr>tc_cancelled := True\<rparr>)) (tm_controls m) m"

text \<open>Background transfers.\<close>

definition background_prepare :: "nat \<Rightarrow> background_snapshot \<Rightarrow> sftp_manager \<Rightarrow> background_snapshot" where
  "background_prepare now snapshot m =
     (if tm_shutdown_state m = ManagerRunning then snapshot\<lparr>bt_state := BtPending\<rparr>
      else snapshot\<lparr>bt_state := BtCancelled, bt_backend_speed := Some 0, bt_end_time := Some now\<rparr>)"

definition background_insert :: "background_snapshot \<Rightarrow> sftp_manager \<Rightarrow> sftp_manager" where
  "background_insert snapshot m = m\<lparr>tm_background := AList.update (bt_id snapshot) snapshot (tm_background m)\<rparr>"

definition register_background_transfer :: "nat \<Rightarrow> background_snapshot \<Rightarrow> sftp_manager \<Rightarrow> sftp_manager" where
  "register_background_transfer now snapshot m =
     (let m1 = cleanup_background_transfers now m in background_insert (background_prepare now snapshot m1) m1)"

definition update_background_transfer_strategy :: "bytes \<Rightarrow> transfer_strategy \<Rightarrow> sftp_manager \<Rightarrow> sftp_manager" where
  "update_background_transfer_strategy transfer_id strategy m =
     modify_background transfer_id (\<lambda>_. True) (\<lambda>s. s\<lparr>bt_strategy := strategy\<rparr>) m"

definition mark_background_transfer_active :: "bytes \<Rightarrow> sftp_manager \<Rightarrow> sftp_manager" where
  "mark_background_transfer_active transfer_id m =
     modify_background transfer_id unfinished (\<lambda>s. s\<lparr>bt_state := BtActive\<rparr>) m"

definition update_background_transfer_progress :: "bytes \<Rightarrow> nat \<Rightarrow> nat \<Rightarrow> nat \<Rightarrow> sftp_manager \<Rightarrow> sftp_manager" where
  "update_background_transfer_progress transfer_id transferred total_bytes speed m =
     modify_background transfer_id unfinished
       (\<lambda>s. s\<lparr>bt_transferred := transferred, bt_size := (if total_bytes > 0 then total_bytes else bt_size s),
              bt_backend_speed := Some speed, bt_state := BtActive\<rparr>) m"

definition finish_background_transfer ::
  "nat \<Rightarrow> bytes \<Rightarrow> background_transfer_state \<Rightarrow> bytes option \<Rightarrow> nat option \<Rightarrow> sftp_manager
     \<Rightarrow> sftp_manager \<times> background_snapshot option" where
  "finish_background_transfer now transfer_id st error item_count m =
     (case map_of (tm_background m) transfer_id of
        None \<Rightarrow> (m, None)
      | Some snapshot \<Rightarrow>
          (let shutdown_cancelled = (tm_shutdown_state m \<noteq> ManagerRunning \<and> bt_state snapshot = BtCancelled);
               s1 = snapshot\<lparr>bt_state := (if shutdown_cancelled then BtCancelled else st),
                             bt_error := (if shutdown_cancelled then None else error),
                             bt_item_count := item_count, bt_end_time := Some now\<rparr>;
               s2 = (if bt_state s1 = BtCompleted \<and> bt_size s1 > 0 then s1\<lparr>bt_transferred := bt_size s1\<rparr> else s1) in
           (m\<lparr>tm_background := AList.update transfer_id s2 (tm_background m)\<rparr>, Some s2)))"

definition get_background_transfer :: "nat \<Rightarrow> bytes \<Rightarrow> sftp_manager \<Rightarrow> sftp_manager \<times> background_snapshot option" where
  "get_background_transfer now transfer_id m =
     (let m1 = cleanup_background_transfers now m in (m1, map_of (tm_background m1) transfer_id))"

definition list_background_transfers ::
  "nat \<Rightarrow> bytes option \<Rightarrow> sftp_manager \<Rightarrow> sftp_manager \<times> background_snapshot list" where
  "list_background_transfers now node_id m =
     (let m1 = cleanup_background_transfers now m in
      (m1, sort_key bt_start_time
        (filter (\<lambda>s. case node_id of None \<Rightarrow> True | Some i \<Rightarrow> bt_node_id s = i) (map snd (tm_background m1)))))"

text \<open>One look of \<^verbatim>\<open>wait_background_transfer_finished\<close>: the result, or that it waits.\<close>

definition wait_background_turn :: "nat \<Rightarrow> bytes \<Rightarrow> sftp_manager \<Rightarrow> sftp_manager \<times> background_snapshot option option" where
  "wait_background_turn now transfer_id m =
     (case get_background_transfer now transfer_id m of
        (m1, Some snapshot) \<Rightarrow> (m1, if is_finished (bt_state snapshot) then Some (Some snapshot) else None)
      | (m1, None) \<Rightarrow> (m1, Some None))"

text \<open>The sections of \<^verbatim>\<open>shutdown_session_transfers\<close>.\<close>

definition shutdown_begin :: "sftp_manager \<Rightarrow> sftp_manager \<times> sftp_shutdown_report option" where
  "shutdown_begin m =
     (if tm_shutdown_state m = ManagerRunning then (m\<lparr>tm_shutdown_state := ManagerShuttingDown\<rparr>, None)
      else (m, Some \<lparr>sr_started = False, sr_drained = (registered_count m = 0), sr_cancelled_transfers = 0,
                     sr_remaining_transfers = registered_count m\<rparr>))"

definition shutdown_collect :: "sftp_manager \<Rightarrow> nat list" where
  "shutdown_collect m = map (\<lambda>(i, registered). rc_control registered) (tm_controls m)"

definition shutdown_cancel :: "nat list \<Rightarrow> sftp_manager \<Rightarrow> sftp_manager" where
  "shutdown_cancel controls m = fold (\<lambda>ref. modify_control ref (\<lambda>c. c\<lparr>tc_cancelled := True\<rparr>)) controls m"

definition shutdown_sweep :: "nat \<Rightarrow> sftp_manager \<Rightarrow> sftp_manager" where
  "shutdown_sweep now m =
     m\<lparr>tm_background := map (\<lambda>(i, s). (i, if is_finished (bt_state s) then s
         else s\<lparr>bt_state := BtCancelled, bt_backend_speed := Some 0, bt_error := None, bt_end_time := Some now\<rparr>))
       (tm_background m)\<rparr>"

definition shutdown_finish :: "nat list \<Rightarrow> bool \<Rightarrow> sftp_manager \<Rightarrow> sftp_manager \<times> sftp_shutdown_report" where
  "shutdown_finish controls drained m =
     (m\<lparr>tm_shutdown_state := ManagerStopped\<rparr>,
      \<lparr>sr_started = True, sr_drained = drained, sr_cancelled_transfers = length controls,
       sr_remaining_transfers = registered_count m\<rparr>)"

text \<open>What a running transfer sees of its control: one turn of \<^verbatim>\<open>check_control\<close>.\<close>

datatype control_check = ControlOk | ControlCancelled | ControlInterrupted bytes | ControlPaused

definition check_turn :: "nat \<Rightarrow> sftp_manager \<Rightarrow> control_check" where
  "check_turn control m =
     (let c = tm_store m ! control in
      if tc_cancelled c then ControlCancelled
      else case tc_interrupt c of
        Some reason \<Rightarrow> ControlInterrupted reason
      | None \<Rightarrow> if tc_paused c then ControlPaused else ControlOk)"

definition check_control :: "bytes \<Rightarrow> sftp_manager \<Rightarrow> control_check" where
  "check_control transfer_id m =
     (case get_control transfer_id m of None \<Rightarrow> ControlOk | Some control \<Rightarrow> check_turn control m)"

text \<open>
  The sections of \<^verbatim>\<open>acquire_permit\<close>: the comparison with the limit, the semaphore, and the
  counter; and of dropping a permit: the counter, then the semaphore.
\<close>

definition permit_available :: "sftp_manager \<Rightarrow> bool" where
  "permit_available m \<longleftrightarrow> tm_active_count m < tm_max_concurrent m"

definition permit_take :: "sftp_manager \<Rightarrow> sftp_manager option" where
  "permit_take m = (if tm_permits m = 0 then None else Some (m\<lparr>tm_permits := tm_permits m - 1\<rparr>))"

definition permit_count :: "sftp_manager \<Rightarrow> sftp_manager" where
  "permit_count m = m\<lparr>tm_active_count := tm_active_count m + 1\<rparr>"

definition permit_drop :: "sftp_manager \<Rightarrow> sftp_manager" where
  "permit_drop m = m\<lparr>tm_active_count := tm_active_count m - 1\<rparr>"

definition permit_return :: "sftp_manager \<Rightarrow> sftp_manager" where
  "permit_return m = m\<lparr>tm_permits := tm_permits m + 1\<rparr>"

end
