(* ===== verification/Sftp_Transfer_Runs.thy ===== *)
theory Sftp_Transfer_Runs
  imports Sftp_Transfers
begin

text \<open>
  Runs of the transfer manager: its operations in any order, interleaved with tasks that acquire and
  return permits, with the registration of background transfers and with a shutdown.
\<close>

subsection \<open>Runs\<close>

text \<open>The operations of the manager that are one section.\<close>

datatype transfer_op =
    OpRegister bytes "bytes option" | OpUnregister bytes | OpCancel bytes | OpPause bytes | OpResume bytes
  | OpInterrupt nat bytes bytes | OpInterruptNode nat bytes bytes | OpCancelAll | OpSettings sftp_transfer_settings
  | OpStrategy bytes transfer_strategy | OpActive bytes | OpProgress bytes nat nat nat
  | OpFinish nat bytes background_transfer_state "bytes option" "nat option" | OpLook nat bytes

fun run_op :: "transfer_op \<Rightarrow> sftp_manager \<Rightarrow> sftp_manager" where
  "run_op (OpRegister i node) m = fst (register_owned i node m)"
| "run_op (OpUnregister i) m = unregister i m"
| "run_op (OpCancel i) m = fst (cancel_transfer i m)"
| "run_op (OpPause i) m = fst (pause_transfer i m)"
| "run_op (OpResume i) m = fst (resume_transfer i m)"
| "run_op (OpInterrupt now i reason) m = fst (interrupt_transfer_of now i reason m)"
| "run_op (OpInterruptNode now node reason) m = fst (interrupt_node now node reason m)"
| "run_op OpCancelAll m = cancel_all m"
| "run_op (OpSettings settings) m = apply_settings settings m"
| "run_op (OpStrategy i strategy) m = update_background_transfer_strategy i strategy m"
| "run_op (OpActive i) m = mark_background_transfer_active i m"
| "run_op (OpProgress i transferred total_bytes speed) m = update_background_transfer_progress i transferred total_bytes speed m"
| "run_op (OpFinish now i st error items) m = fst (finish_background_transfer now i st error items m)"
| "run_op (OpLook now i) m = fst (get_background_transfer now i m)"

text \<open>
  The manager together with the tasks that are between sections: those that acquire or hold a
  permit, background transfers that are being registered, and the shutdown, which may find at its end
  that the transfers have drained in time or not.
\<close>

datatype permit_stage = PermitWaiting | PermitPassed | PermitTaken | PermitHeld | PermitDropping | PermitDone

datatype shutdown_stage =
    ShutdownIdle | ShutdownStarted | ShutdownCollected "nat list" | ShutdownCancelled "nat list"
  | ShutdownSwept "nat list" | ShutdownOver sftp_shutdown_report

record transfer_world =
  tw_manager :: sftp_manager
  tw_permits :: "permit_stage list"
  tw_prepared :: "background_snapshot list"
  tw_shutdown :: shutdown_stage

definition transfer_world_start :: transfer_world where
  "transfer_world_start = \<lparr>tw_manager = manager_new, tw_permits = [], tw_prepared = [], tw_shutdown = ShutdownIdle\<rparr>"

inductive sftp_transfer_step :: "transfer_world \<Rightarrow> transfer_world \<Rightarrow> bool" where
  step_op: "sftp_transfer_step w (w\<lparr>tw_manager := run_op op (tw_manager w)\<rparr>)"
| step_prepare: "sftp_transfer_step w
    (w\<lparr>tw_manager := cleanup_background_transfers now (tw_manager w),
       tw_prepared := background_prepare now snapshot (tw_manager w) # tw_prepared w\<rparr>)"
| step_insert: "tw_prepared w = pre @ snapshot # post \<Longrightarrow>
    sftp_transfer_step w (w\<lparr>tw_manager := background_insert snapshot (tw_manager w), tw_prepared := pre @ post\<rparr>)"
| step_want_permit: "sftp_transfer_step w (w\<lparr>tw_permits := tw_permits w @ [PermitWaiting]\<rparr>)"
| step_pass: "k < length (tw_permits w) \<Longrightarrow> tw_permits w ! k = PermitWaiting \<Longrightarrow> permit_available (tw_manager w) \<Longrightarrow>
    sftp_transfer_step w (w\<lparr>tw_permits := (tw_permits w)[k := PermitPassed]\<rparr>)"
| step_take: "k < length (tw_permits w) \<Longrightarrow> tw_permits w ! k = PermitPassed \<Longrightarrow> permit_take (tw_manager w) = Some m \<Longrightarrow>
    sftp_transfer_step w (w\<lparr>tw_manager := m, tw_permits := (tw_permits w)[k := PermitTaken]\<rparr>)"
| step_count: "k < length (tw_permits w) \<Longrightarrow> tw_permits w ! k = PermitTaken \<Longrightarrow>
    sftp_transfer_step w (w\<lparr>tw_manager := permit_count (tw_manager w), tw_permits := (tw_permits w)[k := PermitHeld]\<rparr>)"
| step_drop: "k < length (tw_permits w) \<Longrightarrow> tw_permits w ! k = PermitHeld \<Longrightarrow>
    sftp_transfer_step w (w\<lparr>tw_manager := permit_drop (tw_manager w), tw_permits := (tw_permits w)[k := PermitDropping]\<rparr>)"
| step_return: "k < length (tw_permits w) \<Longrightarrow> tw_permits w ! k = PermitDropping \<Longrightarrow>
    sftp_transfer_step w (w\<lparr>tw_manager := permit_return (tw_manager w), tw_permits := (tw_permits w)[k := PermitDone]\<rparr>)"
| step_begin: "shutdown_begin (tw_manager w) = (m, None) \<Longrightarrow>
    sftp_transfer_step w (w\<lparr>tw_manager := m, tw_shutdown := ShutdownStarted\<rparr>)"
| step_collect: "tw_shutdown w = ShutdownStarted \<Longrightarrow>
    sftp_transfer_step w (w\<lparr>tw_shutdown := ShutdownCollected (shutdown_collect (tw_manager w))\<rparr>)"
| step_cancel: "tw_shutdown w = ShutdownCollected refs \<Longrightarrow>
    sftp_transfer_step w (w\<lparr>tw_manager := shutdown_cancel refs (tw_manager w), tw_shutdown := ShutdownCancelled refs\<rparr>)"
| step_sweep: "tw_shutdown w = ShutdownCancelled refs \<Longrightarrow>
    sftp_transfer_step w (w\<lparr>tw_manager := shutdown_sweep now (tw_manager w), tw_shutdown := ShutdownSwept refs\<rparr>)"
| step_finish: "tw_shutdown w = ShutdownSwept refs \<Longrightarrow> shutdown_finish refs drained (tw_manager w) = (m, report) \<Longrightarrow>
    sftp_transfer_step w (w\<lparr>tw_manager := m, tw_shutdown := ShutdownOver report\<rparr>)"

definition sftp_transfer_reach :: "transfer_world \<Rightarrow> bool" where
  "sftp_transfer_reach w \<longleftrightarrow> sftp_transfer_step\<^sup>*\<^sup>* transfer_world_start w"

subsection \<open>Controls\<close>

definition controls_ok :: "sftp_manager \<Rightarrow> bool" where
  "controls_ok m \<longleftrightarrow> distinct (map fst (tm_controls m))
     \<and> (\<forall>i r. map_of (tm_controls m) i = Some r \<longrightarrow> rc_control r < length (tm_store m) \<and> rc_owner_count r > 0)"

definition cancelled_at :: "nat \<Rightarrow> sftp_manager \<Rightarrow> bool" where
  "cancelled_at ref m \<longleftrightarrow> tc_cancelled (tm_store m ! ref)"

text \<open>What an operation may do to the controls: none is given up being cancelled, and what is new is born cancelled during a shutdown.\<close>

definition controls_step :: "sftp_manager \<Rightarrow> sftp_manager \<Rightarrow> bool" where
  "controls_step m m' \<longleftrightarrow> tm_shutdown_state m' = tm_shutdown_state m \<and> length (tm_store m) \<le> length (tm_store m')
     \<and> (\<forall>k<length (tm_store m). cancelled_at k m \<longrightarrow> cancelled_at k m')
     \<and> (\<forall>i r'. map_of (tm_controls m') i = Some r' \<longrightarrow>
          rc_control r' < length (tm_store m') \<and> rc_owner_count r' > 0
          \<and> ((\<exists>r. map_of (tm_controls m) i = Some r \<and> rc_control r' = rc_control r)
             \<or> (tm_shutdown_state m \<noteq> ManagerRunning \<longrightarrow> cancelled_at (rc_control r') m')))
     \<and> distinct (map fst (tm_controls m'))"

lemma controls_step_ok: "controls_step m m' \<Longrightarrow> controls_ok m'"
  by (auto simp: controls_step_def controls_ok_def)

lemma controls_step_refl: "controls_ok m \<Longrightarrow> controls_step m m"
  by (auto simp: controls_step_def controls_ok_def)

lemma controls_step_same:
  "controls_ok m \<Longrightarrow> tm_store m' = tm_store m \<Longrightarrow> tm_controls m' = tm_controls m
    \<Longrightarrow> tm_shutdown_state m' = tm_shutdown_state m \<Longrightarrow> controls_step m m'"
  by (auto simp: controls_step_def controls_ok_def cancelled_at_def)

lemma controls_step_trans:
  assumes "controls_step a b" and "controls_step b c"
  shows "controls_step a c"
proof -
  have "(\<exists>r. map_of (tm_controls a) i = Some r \<and> rc_control r' = rc_control r)
      \<or> (tm_shutdown_state a \<noteq> ManagerRunning \<longrightarrow> cancelled_at (rc_control r') c)"
    if r': "map_of (tm_controls c) i = Some r'" for i r'
  proof (cases "\<exists>r2. map_of (tm_controls b) i = Some r2 \<and> rc_control r' = rc_control r2")
    case True
    then obtain r2 where r2: "map_of (tm_controls b) i = Some r2" "rc_control r' = rc_control r2" by blast
    have "rc_control r2 < length (tm_store b)" using assms(1) r2(1) unfolding controls_step_def by blast
    then have "cancelled_at (rc_control r2) b \<Longrightarrow> cancelled_at (rc_control r') c"
      using assms(2) r2(2) unfolding controls_step_def by auto
    then show ?thesis using assms(1) r2 unfolding controls_step_def by metis
  next
    case False
    then show ?thesis using assms r' unfolding controls_step_def by metis
  qed
  moreover have "cancelled_at k a \<Longrightarrow> cancelled_at k c" if "k < length (tm_store a)" for k
    using assms that unfolding controls_step_def by (meson less_le_trans)
  moreover have "tm_shutdown_state c = tm_shutdown_state a" "length (tm_store a) \<le> length (tm_store c)"
    "distinct (map fst (tm_controls c))"
    using assms unfolding controls_step_def by auto
  moreover have "rc_control r' < length (tm_store c) \<and> rc_owner_count r' > 0" if "map_of (tm_controls c) i = Some r'" for i r'
    using assms(2) that unfolding controls_step_def by blast
  ultimately show ?thesis unfolding controls_step_def [of a c] by blast
qed

lemma modify_control_step:
  assumes "controls_ok m" and "\<And>c. tc_cancelled c \<Longrightarrow> tc_cancelled (f c)"
  shows "controls_step m (modify_control ref f m)"
proof -
  have "cancelled_at k (modify_control ref f m)" if "k < length (tm_store m)" "cancelled_at k m" for k
    using that assms(2) by (cases "k = ref") (simp_all add: cancelled_at_def modify_control_def)
  then show ?thesis using assms(1) by (auto simp: controls_step_def controls_ok_def modify_control_def)
qed

lemma modify_background_same [simp]:
  "tm_store (modify_background i g f m) = tm_store m" "tm_controls (modify_background i g f m) = tm_controls m"
  "tm_shutdown_state (modify_background i g f m) = tm_shutdown_state m"
  by (auto simp: modify_background_def split: option.splits)

lemma put_control_step:
  assumes "controls_ok m" and "map_of (tm_controls m) i = Some r"
    and "rc_control r' = rc_control r" and "rc_owner_count r' > 0"
  shows "controls_step m (m\<lparr>tm_controls := AList.update i r' (tm_controls m)\<rparr>)"
  using assms by (auto simp: controls_step_def controls_ok_def cancelled_at_def update_conv' distinct_update
      simp del: map_of_eq_Some_iff)

lemma delete_control_step:
  assumes "controls_ok m"
  shows "controls_step m (m\<lparr>tm_controls := AList.delete i (tm_controls m)\<rparr>)"
  using assms by (auto simp: controls_step_def controls_ok_def cancelled_at_def delete_conv' distinct_delete
      simp del: map_of_eq_Some_iff split: if_splits)

lemma register_step:
  assumes ok: "controls_ok m"
  shows "controls_step m (fst (register_owned i node m))"
proof (cases "map_of (tm_controls m) i")
  case None
  let ?m = "fst (register_owned i node m)"
  let ?new = "\<lparr>rc_control = length (tm_store m), rc_owner_count = 1, rc_node_id = node\<rparr>"
  let ?c = "control_new\<lparr>tc_cancelled := tm_shutdown_state m \<noteq> ManagerRunning\<rparr>"
  have m: "tm_store ?m = tm_store m @ [?c]" "tm_controls ?m = AList.update i ?new (tm_controls m)"
    "tm_shutdown_state ?m = tm_shutdown_state m"
    using None by (simp_all add: register_owned_def Let_def)
  have "rc_control r' < length (tm_store ?m) \<and> rc_owner_count r' > 0
      \<and> ((\<exists>r. map_of (tm_controls m) j = Some r \<and> rc_control r' = rc_control r)
         \<or> (tm_shutdown_state m \<noteq> ManagerRunning \<longrightarrow> cancelled_at (rc_control r') ?m))"
    if "map_of (tm_controls ?m) j = Some r'" for j r'
    using that ok unfolding m update_conv' controls_ok_def
    by (auto simp: cancelled_at_def m less_SucI split: if_splits)
  moreover have "cancelled_at k m \<Longrightarrow> cancelled_at k ?m" if "k < length (tm_store m)" for k
    using that by (simp add: cancelled_at_def m nth_append)
  ultimately show ?thesis using ok by (simp add: controls_step_def m distinct_update controls_ok_def)
next
  case (Some r)
  let ?r = "r\<lparr>rc_owner_count := rc_owner_count r + 1, rc_node_id := (if rc_node_id r = None then node else rc_node_id r)\<rparr>"
  have m: "fst (register_owned i node m) = m\<lparr>tm_controls := AList.update i ?r (tm_controls m)\<rparr>"
    using Some by (simp add: register_owned_def)
  show ?thesis unfolding m by (rule put_control_step [OF ok Some]) simp_all
qed

lemma unregister_step:
  assumes ok: "controls_ok m"
  shows "controls_step m (unregister i m)"
proof (cases "map_of (tm_controls m) i")
  case None
  then show ?thesis using controls_step_refl [OF ok] by (simp add: unregister_def)
next
  case (Some r)
  then show ?thesis
    using delete_control_step [OF ok] put_control_step [OF ok Some] by (simp add: unregister_def Let_def)
qed

lemma then_background_step:
  assumes "controls_step m m1"
  shows "controls_step m (modify_background i g f m1)"
  by (rule controls_step_trans [OF assms controls_step_same [OF controls_step_ok [OF assms]]]) simp_all

lemma interrupt_step:
  assumes "controls_ok m"
  shows "controls_step m (fst (interrupt_transfer_of now i reason m))"
proof -
  have "controls_step m (modify_control ref (\<lambda>c. c\<lparr>tc_interrupt := Some reason\<rparr>) m)" for ref
    by (rule modify_control_step [OF assms]) simp
  then show ?thesis
    using controls_step_refl [OF assms]
    by (auto simp: interrupt_transfer_of_def Let_def split: option.splits intro!: then_background_step)
qed

lemma fold_controls_step:
  assumes "controls_ok m" and "\<And>x m. controls_ok m \<Longrightarrow> controls_step m (f x m)"
  shows "controls_step m (fold f xs m)"
  using assms(1)
proof (induction xs arbitrary: m)
  case Nil
  then show ?case by (simp add: controls_step_refl)
next
  case (Cons x xs)
  have s: "controls_step m (f x m)" by (rule assms(2) [OF Cons.prems])
  show ?case using controls_step_trans [OF s Cons.IH [OF controls_step_ok [OF s]]] by simp
qed

lemma cancel_step: "controls_ok m \<Longrightarrow> controls_step m (modify_control ref (\<lambda>c. c\<lparr>tc_cancelled := True\<rparr>) m)"
  by (rule modify_control_step) simp_all

lemma control_ops_step:
  assumes "controls_ok m"
  shows "controls_step m (fst (cancel_transfer i m))" and "controls_step m (fst (pause_transfer i m))"
    and "controls_step m (fst (resume_transfer i m))" and "controls_step m (fst (interrupt_node now node reason m))"
    and "controls_step m (cancel_all m)" and "controls_step m (shutdown_cancel refs m)"
proof -
  have p: "controls_step m (modify_control ref (\<lambda>c. c\<lparr>tc_paused := b\<rparr>) m)" for ref b
    by (rule modify_control_step [OF assms]) simp
  have pb: "controls_step m (modify_background i g f (modify_control ref (\<lambda>c. c\<lparr>tc_paused := b\<rparr>) m))" for g f ref b
    by (rule then_background_step [OF p])
  show "controls_step m (fst (cancel_transfer i m))"
    using cancel_step [OF assms] controls_step_refl [OF assms] by (simp add: cancel_transfer_def split: option.splits)
  show "controls_step m (fst (pause_transfer i m))" "controls_step m (fst (resume_transfer i m))"
    using pb controls_step_refl [OF assms]
    by (simp_all add: pause_transfer_def resume_transfer_def split: option.splits)
  show "controls_step m (fst (interrupt_node now node reason m))"
    unfolding interrupt_node_def Let_def fst_conv by (rule fold_controls_step [OF assms interrupt_step])
  show "controls_step m (cancel_all m)" "controls_step m (shutdown_cancel refs m)"
    unfolding cancel_all_def shutdown_cancel_def
    by (rule fold_controls_step [OF assms]; auto intro: cancel_step)+
qed

lemma background_ops_step:
  assumes "controls_ok m"
  shows "controls_step m (fst (finish_background_transfer now i st error items m))"
    and "controls_step m (modify_background i g f m)" and "controls_step m (cleanup_background_transfers now m)"
    and "controls_step m (apply_settings settings m)" and "controls_step m (background_insert snapshot m)"
    and "controls_step m (shutdown_sweep now m)"
  by (rule controls_step_same [OF assms];
      auto simp: finish_background_transfer_def cleanup_background_transfers_def apply_settings_def
        set_max_concurrent_def set_speed_limit_kbps_def set_directory_parallelism_def background_insert_def
        shutdown_sweep_def Let_def split: option.splits)+

lemma run_op_step: "controls_ok m \<Longrightarrow> controls_step m (run_op op m)"
  by (cases op) (simp_all add: register_step unregister_step control_ops_step interrupt_step background_ops_step
      update_background_transfer_strategy_def mark_background_transfer_active_def
      update_background_transfer_progress_def get_background_transfer_def Let_def)

subsection \<open>Shutdown\<close>

definition registered_cancelled :: "nat list \<Rightarrow> sftp_manager \<Rightarrow> bool" where
  "registered_cancelled refs m \<longleftrightarrow>
     (\<forall>i r. map_of (tm_controls m) i = Some r \<longrightarrow> rc_control r \<in> set refs \<or> cancelled_at (rc_control r) m)"

definition shutdown_ok :: "shutdown_stage \<Rightarrow> sftp_manager \<Rightarrow> bool" where
  "shutdown_ok stage m \<longleftrightarrow>
     (case stage of
        ShutdownIdle \<Rightarrow> tm_shutdown_state m = ManagerRunning
      | ShutdownStarted \<Rightarrow> tm_shutdown_state m \<noteq> ManagerRunning
      | ShutdownCollected refs \<Rightarrow>
          tm_shutdown_state m \<noteq> ManagerRunning \<and> registered_cancelled refs m \<and> set refs \<subseteq> {..<length (tm_store m)}
      | _ \<Rightarrow> tm_shutdown_state m \<noteq> ManagerRunning \<and> registered_cancelled [] m)"

lemma registered_cancelled_step:
  assumes "controls_ok m" and "controls_step m m'" and "tm_shutdown_state m \<noteq> ManagerRunning" and "registered_cancelled refs m"
  shows "registered_cancelled refs m'"
  unfolding registered_cancelled_def
proof (intro allI impI)
  fix i r' assume r': "map_of (tm_controls m') i = Some r'"
  show "rc_control r' \<in> set refs \<or> cancelled_at (rc_control r') m'"
  proof (cases "\<exists>r. map_of (tm_controls m) i = Some r \<and> rc_control r' = rc_control r")
    case True
    then obtain r where r: "map_of (tm_controls m) i = Some r" "rc_control r' = rc_control r" by blast
    then have "rc_control r < length (tm_store m)" using assms(1) unfolding controls_ok_def by blast
    moreover have "rc_control r \<in> set refs \<or> cancelled_at (rc_control r) m"
      using assms(4) r(1) unfolding registered_cancelled_def by blast
    ultimately show ?thesis using assms(2) r(2) unfolding controls_step_def by auto
  next
    case False
    then show ?thesis using assms(2,3) r' unfolding controls_step_def by blast
  qed
qed

lemma shutdown_ok_step:
  assumes "controls_ok m" and "controls_step m m'" and "shutdown_ok stage m"
  shows "shutdown_ok stage m'"
proof -
  have same: "tm_shutdown_state m' = tm_shutdown_state m" "length (tm_store m) \<le> length (tm_store m')"
    using assms(2) unfolding controls_step_def by blast+
  show ?thesis
    using assms(3) same registered_cancelled_step [OF assms(1,2)]
    by (auto simp: shutdown_ok_def lessThan_def split: shutdown_stage.splits dest: subsetD order.strict_trans2)
qed

lemma cancelled_after_cancel:
  assumes "controls_ok m" and "registered_cancelled refs m" and "set refs \<subseteq> {..<length (tm_store m)}"
    and "tm_shutdown_state m \<noteq> ManagerRunning"
  shows "registered_cancelled [] (shutdown_cancel refs m)"
  using assms
proof (induction refs arbitrary: m)
  case (Cons ref refs)
  let ?m = "modify_control ref (\<lambda>c. c\<lparr>tc_cancelled := True\<rparr>) m"
  have st: "controls_step m ?m" by (rule cancel_step [OF Cons.prems(1)])
  have "registered_cancelled (ref # refs) ?m" by (rule registered_cancelled_step [OF Cons.prems(1) st Cons.prems(4,2)])
  moreover have "cancelled_at ref ?m" using Cons.prems(3) by (simp add: cancelled_at_def modify_control_def)
  ultimately have "registered_cancelled refs ?m" by (auto simp: registered_cancelled_def)
  moreover have "tm_shutdown_state ?m = tm_shutdown_state m" "length (tm_store ?m) = length (tm_store m)"
    by (simp_all add: modify_control_def)
  ultimately have "registered_cancelled [] (shutdown_cancel refs ?m)"
    using Cons.IH [OF controls_step_ok [OF st]] Cons.prems(3,4) by simp
  then show ?case by (simp add: shutdown_cancel_def)
qed (simp add: shutdown_cancel_def)

text \<open>The permits: what the semaphore has left and what tasks have taken of it is constant.\<close>

definition permits_ok :: "transfer_world \<Rightarrow> bool" where
  "permits_ok w \<longleftrightarrow>
     tm_permits (tw_manager w)
       + length (filter (\<lambda>s. s \<in> {PermitTaken, PermitHeld, PermitDropping}) (tw_permits w)) = MAX_SFTP_CONCURRENT_TRANSFERS
     \<and> tm_active_count (tw_manager w) = length (filter (\<lambda>s. s = PermitHeld) (tw_permits w))"

definition transfer_world_ok :: "transfer_world \<Rightarrow> bool" where
  "transfer_world_ok w \<longleftrightarrow>
     controls_ok (tw_manager w) \<and> shutdown_ok (tw_shutdown w) (tw_manager w) \<and> permits_ok w"

lemma length_filter_update:
  assumes "k < length xs"
  shows "length (filter P (xs[k := x])) + (if P (xs ! k) then 1 else 0) = length (filter P xs) + (if P x then 1 else 0)"
proof -
  have "xs = take k xs @ xs ! k # drop (Suc k) xs" using assms by (rule id_take_nth_drop)
  then have "length (filter P xs) = length (filter P (take k xs @ xs ! k # drop (Suc k) xs))" by simp
  moreover have "xs[k := x] = take k xs @ x # drop (Suc k) xs" using assms by (rule upd_conv_take_nth_drop)
  ultimately show ?thesis by simp
qed

lemma length_filter_mono: "(\<And>x. P x \<Longrightarrow> Q x) \<Longrightarrow> length (filter P xs) \<le> length (filter Q xs)"
  by (induction xs) (auto intro: le_SucI)

definition same_permits :: "sftp_manager \<Rightarrow> sftp_manager \<Rightarrow> bool" where
  "same_permits m m' \<longleftrightarrow> tm_permits m' = tm_permits m \<and> tm_active_count m' = tm_active_count m"

lemma same_permits_modify [simp]:
  "same_permits m (modify_control ref f m1) = same_permits m m1"
  "same_permits m (modify_background i g h m1) = same_permits m m1"
  "same_permits m (m1\<lparr>tm_controls := cs\<rparr>) = same_permits m m1" "same_permits m (m1\<lparr>tm_store := st\<rparr>) = same_permits m m1"
  "same_permits m (m1\<lparr>tm_background := bg\<rparr>) = same_permits m m1" "same_permits m m"
  by (auto simp: same_permits_def modify_control_def modify_background_def split: option.splits)

lemma same_permits_fold: "(\<And>x m1. same_permits m (f x m1) = same_permits m m1) \<Longrightarrow> same_permits m (fold f xs m1) = same_permits m m1"
  by (induction xs arbitrary: m1) simp_all

lemma same_permits_interrupt [simp]: "same_permits m (fst (interrupt_transfer_of now i reason m1)) = same_permits m m1"
  by (simp add: interrupt_transfer_of_def Let_def split: option.split)

lemma same_permits_folds [simp]:
  "same_permits m (fst (interrupt_node now node reason m1)) = same_permits m m1"
  "same_permits m (cancel_all m1) = same_permits m m1" "same_permits m (shutdown_cancel refs m1) = same_permits m m1"
  by (auto simp: interrupt_node_def cancel_all_def shutdown_cancel_def Let_def intro!: same_permits_fold)

lemma same_permits_op: "same_permits m (run_op op m)"
proof (cases op)
  case (OpSettings settings)
  then show ?thesis
    by (simp add: apply_settings_def set_max_concurrent_def set_speed_limit_kbps_def set_directory_parallelism_def same_permits_def)
qed (auto simp: register_owned_def unregister_def cancel_transfer_def pause_transfer_def resume_transfer_def
    update_background_transfer_strategy_def mark_background_transfer_active_def update_background_transfer_progress_def
    finish_background_transfer_def get_background_transfer_def cleanup_background_transfers_def Let_def
    split: option.split)

lemma permits_ok_same: "same_permits (tw_manager w) m \<Longrightarrow> permits_ok w \<Longrightarrow> tw_permits w' = tw_permits w
    \<Longrightarrow> tw_manager w' = m \<Longrightarrow> permits_ok w'"
  by (simp add: permits_ok_def same_permits_def)

text \<open>A task that goes from one stage to another, with the manager's counters following.\<close>

lemma permits_ok_stage:
  assumes "permits_ok w" and "k < length (tw_permits w)"
    and "tm_permits m + (if s \<in> {PermitTaken, PermitHeld, PermitDropping} then 1 else 0)
      = tm_permits (tw_manager w) + (if tw_permits w ! k \<in> {PermitTaken, PermitHeld, PermitDropping} then 1 else 0)"
    and "tm_active_count m + (if tw_permits w ! k = PermitHeld then 1 else 0)
      = tm_active_count (tw_manager w) + (if s = PermitHeld then 1 else 0)"
  shows "permits_ok (w\<lparr>tw_manager := m, tw_permits := (tw_permits w)[k := s]\<rparr>)"
  using assms(1,3,4)
    length_filter_update [OF assms(2), of "\<lambda>s. s \<in> {PermitTaken, PermitHeld, PermitDropping}" s]
    length_filter_update [OF assms(2), of "\<lambda>s. s = PermitHeld" s]
  unfolding permits_ok_def by simp

lemma world_ok_step:
  assumes "transfer_world_ok w" and "controls_step (tw_manager w) (tw_manager w')" and "tw_shutdown w' = tw_shutdown w"
    and "permits_ok w'"
  shows "transfer_world_ok w'"
  using assms controls_step_ok [OF assms(2)] shutdown_ok_step [OF _ assms(2)] by (simp add: transfer_world_ok_def)

lemma world_controls_ok: "transfer_world_ok w \<Longrightarrow> controls_ok (tw_manager w)"
  by (simp add: transfer_world_ok_def)

lemma world_ok_stage:
  assumes "transfer_world_ok w" and "k < length (tw_permits w)"
    and "tm_store m = tm_store (tw_manager w)" and "tm_controls m = tm_controls (tw_manager w)"
    and "tm_shutdown_state m = tm_shutdown_state (tw_manager w)"
    and "tm_permits m + (if s \<in> {PermitTaken, PermitHeld, PermitDropping} then 1 else 0)
      = tm_permits (tw_manager w) + (if tw_permits w ! k \<in> {PermitTaken, PermitHeld, PermitDropping} then 1 else 0)"
    and "tm_active_count m + (if tw_permits w ! k = PermitHeld then 1 else 0)
      = tm_active_count (tw_manager w) + (if s = PermitHeld then 1 else 0)"
  shows "transfer_world_ok (w\<lparr>tw_manager := m, tw_permits := (tw_permits w)[k := s]\<rparr>)"
proof (rule world_ok_step [OF assms(1)])
  show "permits_ok (w\<lparr>tw_manager := m, tw_permits := (tw_permits w)[k := s]\<rparr>)"
    using assms(1) by (intro permits_ok_stage assms) (simp add: transfer_world_ok_def)
qed (use assms(3-5) controls_step_same [OF world_controls_ok [OF assms(1)]] in simp_all)

lemma world_ok_manager:
  assumes "transfer_world_ok w" and "controls_step (tw_manager w) m" and "same_permits (tw_manager w) m"
    and "tw_manager w' = m" and "tw_shutdown w' = tw_shutdown w" and "tw_permits w' = tw_permits w"
  shows "transfer_world_ok w'"
proof (rule world_ok_step [OF assms(1)])
  have "permits_ok w" using assms(1) by (simp add: transfer_world_ok_def)
  then show "permits_ok w'" by (rule permits_ok_same [OF assms(3) _ assms(6,4)])
qed (use assms in simp_all)

lemma transfer_step_ok: "sftp_transfer_step w w' \<Longrightarrow> transfer_world_ok w \<Longrightarrow> transfer_world_ok w'"
proof (induction rule: sftp_transfer_step.induct)
  case (step_op w op)
  then show ?case
    by (intro world_ok_manager [OF step_op run_op_step [OF world_controls_ok [OF step_op]] same_permits_op]) simp_all
next
  case (step_prepare w now snapshot)
  then show ?case
    by (intro world_ok_manager [OF step_prepare background_ops_step(3) [OF world_controls_ok [OF step_prepare]]])
       (simp_all add: cleanup_background_transfers_def)
next
  case (step_insert w pre snapshot post)
  then show ?case
    by (intro world_ok_manager [OF step_insert(2) background_ops_step(5) [OF world_controls_ok [OF step_insert(2)]]])
       (simp_all add: background_insert_def)
next
  case (step_want_permit w)
  then show ?case by (simp add: transfer_world_ok_def permits_ok_def)
next
  case (step_pass k w)
  then have "transfer_world_ok (w\<lparr>tw_manager := tw_manager w, tw_permits := (tw_permits w)[k := PermitPassed]\<rparr>)"
    by (intro world_ok_stage) simp_all
  then show ?case by simp
next
  case (step_take k w m)
  then show ?case by (intro world_ok_stage) (auto simp: permit_take_def split: if_splits)
next
  case (step_count k w)
  then show ?case by (intro world_ok_stage) (auto simp: permit_count_def)
next
  case (step_drop k w)
  have "PermitHeld \<in> set (tw_permits w)" using nth_mem [OF step_drop(1)] step_drop(2) by simp
  then have "0 < tm_active_count (tw_manager w)"
    using step_drop(3) by (auto simp: transfer_world_ok_def permits_ok_def filter_empty_conv)
  then show ?case using step_drop by (intro world_ok_stage) (auto simp: permit_drop_def)
next
  case (step_return k w)
  then show ?case by (intro world_ok_stage) (auto simp: permit_return_def)
next
  case (step_begin w m)
  then show ?case
    by (auto simp: shutdown_begin_def transfer_world_ok_def controls_ok_def shutdown_ok_def permits_ok_def split: if_splits)
next
  case (step_collect w)
  have "rc_control r \<in> set (shutdown_collect (tw_manager w))" if "map_of (tm_controls (tw_manager w)) i = Some r" for i r
    using map_of_SomeD [OF that] by (force simp: shutdown_collect_def)
  moreover have "set (shutdown_collect (tw_manager w)) \<subseteq> {..<length (tm_store (tw_manager w))}"
    using step_collect by (auto simp: shutdown_collect_def transfer_world_ok_def controls_ok_def)
  ultimately show ?case
    using step_collect by (auto simp: transfer_world_ok_def shutdown_ok_def registered_cancelled_def permits_ok_def)
next
  case (step_cancel w refs)
  let ?m = "shutdown_cancel refs (tw_manager w)"
  have ok: "controls_ok (tw_manager w)" "permits_ok w" "tm_shutdown_state (tw_manager w) \<noteq> ManagerRunning"
    "registered_cancelled refs (tw_manager w)" "set refs \<subseteq> {..<length (tm_store (tw_manager w))}"
    using step_cancel by (simp_all add: transfer_world_ok_def shutdown_ok_def)
  have st: "controls_step (tw_manager w) ?m" by (rule control_ops_step(6) [OF ok(1)])
  then have "tm_shutdown_state ?m \<noteq> ManagerRunning" using ok(3) by (simp add: controls_step_def)
  moreover have "permits_ok (w\<lparr>tw_manager := ?m, tw_shutdown := ShutdownCancelled refs\<rparr>)"
    by (rule permits_ok_same [OF _ ok(2)]) simp_all
  ultimately show ?case
    using controls_step_ok [OF st] cancelled_after_cancel [OF ok(1,4,5,3)]
    by (simp add: transfer_world_ok_def shutdown_ok_def)
next
  case (step_sweep w refs now)
  let ?m = "shutdown_sweep now (tw_manager w)"
  have ok: "controls_ok (tw_manager w)" "shutdown_ok (ShutdownSwept refs) (tw_manager w)" "permits_ok w"
    using step_sweep by (simp_all add: transfer_world_ok_def shutdown_ok_def)
  have st: "controls_step (tw_manager w) ?m" by (rule background_ops_step(6) [OF ok(1)])
  have "permits_ok (w\<lparr>tw_manager := ?m, tw_shutdown := ShutdownSwept refs\<rparr>)"
    by (rule permits_ok_same [OF _ ok(3)]) (simp_all add: shutdown_sweep_def)
  then show ?case
    using controls_step_ok [OF st] shutdown_ok_step [OF ok(1) st ok(2)] by (simp add: transfer_world_ok_def)
next
  case (step_finish w refs drained m report)
  then show ?case
    by (auto simp: shutdown_finish_def transfer_world_ok_def controls_ok_def shutdown_ok_def registered_cancelled_def
        cancelled_at_def permits_ok_def)
qed

lemma transfer_reach_ok: "sftp_transfer_reach w \<Longrightarrow> transfer_world_ok w"
  unfolding sftp_transfer_reach_def
proof (induction rule: rtranclp_induct)
  case base
  show ?case
    by (simp add: transfer_world_start_def transfer_world_ok_def manager_new_def controls_ok_def shutdown_ok_def permits_ok_def)
next
  case (step w w')
  then show ?case using transfer_step_ok by blast
qed

text \<open>
  Under every interleaving the counter of running transfers is the number of permits held, and never more than
  the semaphore has.
\<close>

theorem transfer_permits_bounded:
  assumes "sftp_transfer_reach w"
  shows "tm_active_count (tw_manager w) = length (filter (\<lambda>s. s = PermitHeld) (tw_permits w))
    \<and> tm_active_count (tw_manager w) \<le> MAX_SFTP_CONCURRENT_TRANSFERS"
proof -
  have ok: "permits_ok w" using transfer_reach_ok [OF assms] by (simp add: transfer_world_ok_def)
  have "length (filter (\<lambda>s. s = PermitHeld) (tw_permits w))
      \<le> length (filter (\<lambda>s. s \<in> {PermitTaken, PermitHeld, PermitDropping}) (tw_permits w))"
    by (rule length_filter_mono) simp
  then show ?thesis using ok by (simp add: permits_ok_def)
qed

text \<open>
  C11: once a shutdown has cancelled the transfers it found, every transfer that is registered, then or later, sees that it
  is cancelled the next time it looks at its control, also one whose registration raced with the shutdown.
\<close>

theorem shutdown_cancels_every_transfer:
  assumes "sftp_transfer_reach w"
    and "(case tw_shutdown w of ShutdownCancelled _ \<Rightarrow> True | ShutdownSwept _ \<Rightarrow> True | ShutdownOver _ \<Rightarrow> True | _ \<Rightarrow> False)"
    and "get_control i (tw_manager w) \<noteq> None"
  shows "check_control i (tw_manager w) = ControlCancelled"
proof -
  have "registered_cancelled [] (tw_manager w)"
    using transfer_reach_ok [OF assms(1)] assms(2)
    by (auto simp: transfer_world_ok_def shutdown_ok_def split: shutdown_stage.splits)
  then show ?thesis
    using assms(3) by (auto simp: check_control_def get_control_def check_turn_def registered_cancelled_def cancelled_at_def)
qed

text \<open>
  A transfer as nested helpers register and unregister it: as long as one of them has not
  unregistered, given the number of owners at the start.
\<close>

fun still_owned :: "bytes \<Rightarrow> nat \<Rightarrow> transfer_op list \<Rightarrow> bool" where
  "still_owned i n [] \<longleftrightarrow> 0 < n"
| "still_owned i n (op # ops) \<longleftrightarrow> 0 < n \<and>
     still_owned i (case op of OpRegister j _ \<Rightarrow> if j = i then n + 1 else n
                    | OpUnregister j \<Rightarrow> if j = i then n - 1 else n | _ \<Rightarrow> n) ops"

lemma controls_unchanged [simp]:
  "tm_controls (modify_control ref f m) = tm_controls m"
  "tm_controls (fst (interrupt_transfer_of now i reason m)) = tm_controls m"
  by (auto simp: modify_control_def interrupt_transfer_of_def Let_def split: option.splits)

lemma fold_controls: "(\<And>x m. tm_controls (f x m) = tm_controls m) \<Longrightarrow> tm_controls (fold f xs m) = tm_controls m"
  by (induction xs arbitrary: m) simp_all

lemma run_op_controls:
  assumes "\<forall>i node. op \<noteq> OpRegister i node" and "\<forall>i. op \<noteq> OpUnregister i"
  shows "tm_controls (run_op op m) = tm_controls m"
proof -
  have "tm_controls (fst (interrupt_node now node reason m)) = tm_controls m" "tm_controls (cancel_all m) = tm_controls m"
    for now node reason
    by (auto simp: interrupt_node_def cancel_all_def Let_def intro!: fold_controls)
  then show ?thesis
    using assms by (cases op) (auto simp: cancel_transfer_def pause_transfer_def resume_transfer_def apply_settings_def
        set_max_concurrent_def set_speed_limit_kbps_def set_directory_parallelism_def update_background_transfer_strategy_def
        mark_background_transfer_active_def update_background_transfer_progress_def finish_background_transfer_def
        get_background_transfer_def cleanup_background_transfers_def Let_def split: option.splits)
qed

lemma owner_count_step:
  assumes ok: "controls_ok m" and r: "map_of (tm_controls m) i = Some r"
    and n: "n = (case op of OpRegister j _ \<Rightarrow> if j = i then rc_owner_count r + 1 else rc_owner_count r
                 | OpUnregister j \<Rightarrow> if j = i then rc_owner_count r - 1 else rc_owner_count r | _ \<Rightarrow> rc_owner_count r)"
    and "0 < n"
  shows "\<exists>r'. map_of (tm_controls (run_op op m)) i = Some r' \<and> rc_owner_count r' = n \<and> rc_control r' = rc_control r"
proof (cases op)
  case (OpRegister j node)
  then show ?thesis using r n by (auto simp: register_owned_def update_conv' Let_def split: option.splits)
next
  case (OpUnregister j)
  then show ?thesis
    using r n \<open>0 < n\<close> by (auto simp: unregister_def update_conv' delete_conv' Let_def split: option.splits)
qed (use run_op_controls [of op m] r n in auto)

text \<open>
  C31: a transfer that was cancelled while it was queued stays cancelled when nested helpers register it again: until
  the last of its owners has unregistered, whatever else is done to the manager, every look at the control
  finds it cancelled.
\<close>

theorem cancellation_survives_nesting:
  assumes "sftp_transfer_reach w" and "map_of (tm_controls (tw_manager w)) i = Some r"
    and "check_control i (tw_manager w) = ControlCancelled" and "still_owned i (rc_owner_count r) ops"
  shows "check_control i (fold run_op ops (tw_manager w)) = ControlCancelled"
proof -
  have "check_control i (fold run_op ops m) = ControlCancelled"
    if "controls_ok m" and "map_of (tm_controls m) i = Some r" and "cancelled_at (rc_control r) m"
      and "still_owned i (rc_owner_count r) ops" for m r
    using that
  proof (induction ops arbitrary: m r)
    case Nil
    then show ?case by (simp add: check_control_def get_control_def check_turn_def cancelled_at_def)
  next
    case (Cons op ops)
    define n where "n = (case op of OpRegister j _ \<Rightarrow> if j = i then rc_owner_count r + 1 else rc_owner_count r
                 | OpUnregister j \<Rightarrow> if j = i then rc_owner_count r - 1 else rc_owner_count r | _ \<Rightarrow> rc_owner_count r)"
    have owned: "still_owned i n ops" using Cons.prems(4) by (simp add: n_def)
    then have "0 < n" by (cases ops) simp_all
    then obtain r' where r': "map_of (tm_controls (run_op op m)) i = Some r'" "rc_owner_count r' = n" "rc_control r' = rc_control r"
      using owner_count_step [OF Cons.prems(1,2) n_def] by blast
    have st: "controls_step m (run_op op m)" by (rule run_op_step [OF Cons.prems(1)])
    have "rc_control r < length (tm_store m)" using Cons.prems(1,2) unfolding controls_ok_def by blast
    then have "cancelled_at (rc_control r') (run_op op m)" using st Cons.prems(3) r'(3) unfolding controls_step_def by simp
    then show ?case using Cons.IH [OF controls_step_ok [OF st] r'(1)] owned r'(2) by simp
  qed
  moreover have "cancelled_at (rc_control r) (tw_manager w)"
    using assms(2,3) by (auto simp: check_control_def get_control_def check_turn_def cancelled_at_def Let_def
        split: if_splits option.splits)
  moreover have "controls_ok (tw_manager w)" by (rule world_controls_ok [OF transfer_reach_ok [OF assms(1)]])
  ultimately show ?thesis using assms(2,4) by blast
qed

subsection \<open>Background transfers\<close>

definition ended_ok :: "background_snapshot \<Rightarrow> bool" where
  "ended_ok s \<longleftrightarrow> (is_finished (bt_state s) \<longrightarrow> bt_end_time s \<noteq> None)"

definition background_ok :: "sftp_manager \<Rightarrow> bool" where
  "background_ok m \<longleftrightarrow> distinct (map fst (tm_background m))
     \<and> (\<forall>i s. map_of (tm_background m) i = Some s \<longrightarrow> ended_ok s)"

lemma background_ok_update:
  "background_ok m \<Longrightarrow> ended_ok s \<Longrightarrow> background_ok (m\<lparr>tm_background := AList.update i s (tm_background m)\<rparr>)"
  by (auto simp: background_ok_def distinct_update update_conv' simp del: map_of_eq_Some_iff)

lemma background_ok_modify:
  "background_ok m \<Longrightarrow> (\<And>s. g s \<Longrightarrow> ended_ok s \<Longrightarrow> ended_ok (f s)) \<Longrightarrow> background_ok (modify_background i g f m)"
  by (auto simp: modify_background_def intro!: background_ok_update split: option.split)
     (auto simp: background_ok_def simp del: map_of_eq_Some_iff)

lemma background_ok_control [simp]: "background_ok (modify_control ref f m) = background_ok m"
  by (simp add: background_ok_def modify_control_def)

lemma background_ok_interrupt: "background_ok m \<Longrightarrow> background_ok (fst (interrupt_transfer_of now i reason m))"
  by (auto simp: interrupt_transfer_of_def Let_def ended_ok_def intro!: background_ok_modify split: option.split)

lemma map_of_filter:
  assumes "distinct (map fst xs)"
  shows "map_of (filter P xs) i = (case map_of xs i of Some v \<Rightarrow> if P (i, v) then Some v else None | None \<Rightarrow> None)"
  using assms
proof (induction xs)
  case (Cons x xs)
  have "map_of (filter P xs) (fst x) = None" using Cons.prems by (auto simp: map_of_eq_None_iff)
  then show ?case using Cons by (cases x) (auto split: option.splits)
qed simp

lemma background_ok_cleanup:
  assumes "background_ok m"
  shows "background_ok (cleanup_background_transfers now m)"
proof -
  have d: "distinct (map fst (tm_background m))" using assms by (simp add: background_ok_def)
  have "distinct (map fst (filter P (tm_background m)))" for P using d by (rule distinct_map_filter)
  moreover have "ended_ok s" if "map_of (filter P (tm_background m)) i = Some s" for P i s
    using that assms unfolding map_of_filter [OF d] background_ok_def by (auto split: option.splits if_splits)
  ultimately show ?thesis unfolding background_ok_def cleanup_background_transfers_def by simp
qed

lemma fold_background_ok:
  "(\<And>x m. background_ok m \<Longrightarrow> background_ok (f x m)) \<Longrightarrow> background_ok m \<Longrightarrow> background_ok (fold f xs m)"
  by (induction xs arbitrary: m) simp_all

lemma background_ok_op:
  assumes "background_ok m"
  shows "background_ok (run_op op m)"
proof (cases op)
  case (OpRegister i node)
  then show ?thesis using assms by (auto simp: register_owned_def background_ok_def Let_def split: option.splits)
next
  case (OpUnregister i)
  then show ?thesis using assms by (auto simp: unregister_def background_ok_def Let_def split: option.splits)
next
  case (OpInterruptNode now node reason)
  then show ?thesis using assms by (auto simp: interrupt_node_def Let_def intro!: fold_background_ok background_ok_interrupt)
next
  case OpCancelAll
  then show ?thesis using assms by (auto simp: cancel_all_def intro!: fold_background_ok)
next
  case (OpSettings settings)
  then show ?thesis using assms
    by (simp add: apply_settings_def set_max_concurrent_def set_speed_limit_kbps_def set_directory_parallelism_def background_ok_def)
next
  case (OpFinish now i st error items)
  then show ?thesis using assms
    by (auto simp: finish_background_transfer_def Let_def ended_ok_def intro!: background_ok_update split: option.splits)
qed (use assms in \<open>auto simp: cancel_transfer_def pause_transfer_def resume_transfer_def update_background_transfer_strategy_def
    mark_background_transfer_active_def update_background_transfer_progress_def get_background_transfer_def Let_def
    ended_ok_def is_finished_def intro!: background_ok_modify background_ok_interrupt background_ok_cleanup split: option.split\<close>)

lemma background_ok_sweep:
  assumes "background_ok m"
  shows "background_ok (shutdown_sweep now m)"
proof -
  let ?g = "\<lambda>s. if is_finished (bt_state s) then s
         else s\<lparr>bt_state := BtCancelled, bt_backend_speed := Some 0, bt_error := None, bt_end_time := Some now\<rparr>"
  have m: "tm_background (shutdown_sweep now m) = map (\<lambda>(i, s). (i, ?g s)) (tm_background m)"
    by (simp add: shutdown_sweep_def)
  have "map_of (tm_background (shutdown_sweep now m)) i = map_option ?g (map_of (tm_background m) i)" for i
    unfolding m by (simp add: map_of_map)
  moreover have "map fst (tm_background (shutdown_sweep now m)) = map fst (tm_background m)"
    unfolding m by (simp add: comp_def split_beta)
  ultimately show ?thesis using assms unfolding background_ok_def by (auto simp: ended_ok_def simp del: map_of_eq_Some_iff)
qed

lemma background_ok_step:
  "sftp_transfer_step w w' \<Longrightarrow> background_ok (tw_manager w) \<and> list_all ended_ok (tw_prepared w)
    \<Longrightarrow> background_ok (tw_manager w') \<and> list_all ended_ok (tw_prepared w')"
proof (induction rule: sftp_transfer_step.induct)
  case (step_op w op)
  then show ?case by (simp add: background_ok_op)
next
  case (step_sweep w refs now)
  then show ?case by (simp add: background_ok_sweep)
next
  case (step_prepare w now snapshot)
  then show ?case
    by (simp add: background_ok_cleanup background_prepare_def ended_ok_def is_finished_def)
next
  case (step_insert w pre snapshot post)
  then show ?case by (auto simp: background_insert_def intro!: background_ok_update)
next
  case (step_cancel w refs)
  then show ?case by (auto simp: shutdown_cancel_def intro!: fold_background_ok)
qed (auto simp: permit_take_def permit_count_def permit_drop_def permit_return_def
    shutdown_begin_def shutdown_finish_def background_ok_def split: if_splits simp del: map_of_eq_Some_iff)

lemma reach_background_ok: "sftp_transfer_reach w \<Longrightarrow> background_ok (tw_manager w)"
proof -
  have "background_ok (tw_manager w) \<and> list_all ended_ok (tw_prepared w)" if "sftp_transfer_step\<^sup>*\<^sup>* transfer_world_start w"
    using that
  proof (induction rule: rtranclp_induct)
    case base
    show ?case by (simp add: transfer_world_start_def manager_new_def background_ok_def)
  next
    case (step w w')
    then show ?case using background_ok_step by blast
  qed
  then show "sftp_transfer_reach w \<Longrightarrow> background_ok (tw_manager w)" unfolding sftp_transfer_reach_def by blast
qed

text \<open>
  A finished background transfer always has the time at which it ended, and whoever looks for it after the retention
  time finds it gone; a transfer that has not finished is never dropped.
\<close>

theorem finished_transfers_expire:
  assumes "sftp_transfer_reach w" and "map_of (tm_background (tw_manager w)) i = Some s"
  shows "if is_finished (bt_state s)
    then \<exists>end_time. bt_end_time s = Some end_time
      \<and> (\<forall>now. snd (get_background_transfer now i (tw_manager w)) =
           (if now \<le> end_time + FINISHED_BACKGROUND_TRANSFER_RETENTION_MS then Some s else None))
    else \<forall>now. snd (get_background_transfer now i (tw_manager w)) = Some s"
proof -
  have ok: "distinct (map fst (tm_background (tw_manager w)))" "ended_ok s"
    using reach_background_ok [OF assms(1)] assms(2) unfolding background_ok_def by blast+
  have look: "snd (get_background_transfer now i (tw_manager w)) =
      (if \<not> is_finished (bt_state s) \<or> (case bt_end_time s of
           Some end_time \<Rightarrow> now - end_time \<le> FINISHED_BACKGROUND_TRANSFER_RETENTION_MS | None \<Rightarrow> True)
       then Some s else None)" for now
    using ok(1) assms(2)
    by (simp add: get_background_transfer_def cleanup_background_transfers_def Let_def map_of_filter del: map_of_eq_Some_iff)
  show ?thesis using ok(2) by (auto simp: look ended_ok_def)
qed

subsection \<open>Examples, and where the manager falls short\<close>

definition example_snapshot :: background_snapshot where
  "example_snapshot = snapshot_new 0 [1] [2] [3] [4] [5] BackgroundUpload KindFile StrategyFile 10 0"

lemma reach_run: "sftp_transfer_reach w \<Longrightarrow> sftp_transfer_step w w' \<Longrightarrow> sftp_transfer_reach w'"
  unfolding sftp_transfer_reach_def by (rule rtranclp.rtrancl_into_rtrancl)

lemma reach_start: "sftp_transfer_reach transfer_world_start"
  by (simp add: sftp_transfer_reach_def)

lemma reach_op: "sftp_transfer_reach w \<Longrightarrow> sftp_transfer_reach (w\<lparr>tw_manager := run_op op (tw_manager w)\<rparr>)"
  by (rule reach_run [OF _ step_op])

definition example_registered :: transfer_world where
  "example_registered = transfer_world_start\<lparr>tw_manager := run_op (OpCancel [1]) (run_op (OpRegister [1] None) manager_new)\<rparr>"

lemma example_registered_reach: "sftp_transfer_reach example_registered"
  using reach_op [OF reach_op [OF reach_start, of "OpRegister [1] None"], of "OpCancel [1]"]
  by (simp add: example_registered_def transfer_world_start_def)

theorem cancellation_survives_nesting_witness:
  "check_control [1] (fold run_op [OpRegister [1] None, OpResume [1], OpUnregister [1]] (tw_manager example_registered)) = ControlCancelled"
  by (rule cancellation_survives_nesting [OF example_registered_reach,
        where r = "\<lparr>rc_control = 0, rc_owner_count = 1, rc_node_id = None\<rparr>"])
     (simp_all add: example_registered_def register_owned_def cancel_transfer_def get_control_def modify_control_def
        manager_new_def check_control_def check_turn_def Let_def)

text \<open>A shutdown that finds one transfer, and a background transfer whose registration began before.\<close>

definition shutdown_run :: "transfer_world list" where
  "shutdown_run =
     (let w0 = transfer_world_start;
          w1 = w0\<lparr>tw_manager := run_op (OpRegister [1] None) (tw_manager w0)\<rparr>;
          w2 = w1\<lparr>tw_manager := cleanup_background_transfers 0 (tw_manager w1),
                  tw_prepared := background_prepare 0 example_snapshot (tw_manager w1) # tw_prepared w1\<rparr>;
          w3 = w2\<lparr>tw_manager := fst (shutdown_begin (tw_manager w2)), tw_shutdown := ShutdownStarted\<rparr>;
          w4 = w3\<lparr>tw_shutdown := ShutdownCollected (shutdown_collect (tw_manager w3))\<rparr>;
          w5 = w4\<lparr>tw_manager := shutdown_cancel [0] (tw_manager w4), tw_shutdown := ShutdownCancelled [0]\<rparr>;
          w6 = w5\<lparr>tw_manager := shutdown_sweep 1 (tw_manager w5), tw_shutdown := ShutdownSwept [0]\<rparr>;
          w7 = w6\<lparr>tw_manager := fst (shutdown_finish [0] False (tw_manager w6)),
                  tw_shutdown := ShutdownOver (snd (shutdown_finish [0] False (tw_manager w6)))\<rparr>;
          w8 = w7\<lparr>tw_manager := background_insert (background_prepare 0 example_snapshot (tw_manager w1)) (tw_manager w7),
                  tw_prepared := []\<rparr>
      in [w0, w1, w2, w3, w4, w5, w6, w7, w8])"

lemmas transfer_eval = transfer_world_start_def manager_new_def register_owned_def cleanup_background_transfers_def
  background_prepare_def shutdown_begin_def shutdown_collect_def shutdown_cancel_def modify_control_def shutdown_sweep_def
  shutdown_finish_def background_insert_def example_snapshot_def snapshot_new_def control_new_def

lemma shutdown_run_reach: "\<forall>w\<in>set shutdown_run. sftp_transfer_reach w"
proof -
  let ?w = "\<lambda>k. shutdown_run ! k"
  have s1: "sftp_transfer_step (?w 0) (?w 1)" using step_op [of "?w 0" "OpRegister [1] None"] by (simp add: shutdown_run_def Let_def)
  have s2: "sftp_transfer_step (?w 1) (?w 2)" using step_prepare [of "?w 1" 0 example_snapshot] by (simp add: shutdown_run_def Let_def)
  have s3: "sftp_transfer_step (?w 2) (?w 3)"
    using step_begin [of "?w 2" "fst (shutdown_begin (tw_manager (?w 2)))"] by (simp add: shutdown_run_def transfer_eval Let_def)
  have s4: "sftp_transfer_step (?w 3) (?w 4)" using step_collect [of "?w 3"] by (simp add: shutdown_run_def Let_def)
  have s5: "sftp_transfer_step (?w 4) (?w 5)" using step_cancel [of "?w 4" "[0]"] by (simp add: shutdown_run_def transfer_eval Let_def)
  have s6: "sftp_transfer_step (?w 5) (?w 6)" using step_sweep [of "?w 5" "[0]" 1] by (simp add: shutdown_run_def Let_def)
  have s7: "sftp_transfer_step (?w 6) (?w 7)"
    using step_finish [of "?w 6" "[0]" False "fst (shutdown_finish [0] False (tw_manager (?w 6)))"
      "snd (shutdown_finish [0] False (tw_manager (?w 6)))"] by (simp add: shutdown_run_def Let_def)
  have s8: "sftp_transfer_step (?w 7) (?w 8)"
    using step_insert [of "?w 7" "[]" "background_prepare 0 example_snapshot (tw_manager (?w 1))" "[]"]
    by (simp add: shutdown_run_def transfer_world_start_def Let_def)
  have r0: "sftp_transfer_reach (?w 0)" using reach_start by (simp add: shutdown_run_def Let_def)
  note r1 = reach_run [OF r0 s1]
  note r2 = reach_run [OF r1 s2]
  note r3 = reach_run [OF r2 s3]
  note r4 = reach_run [OF r3 s4]
  note r5 = reach_run [OF r4 s5]
  note r6 = reach_run [OF r5 s6]
  note r7 = reach_run [OF r6 s7]
  note r8 = reach_run [OF r7 s8]
  have "length shutdown_run = 9" by (simp add: shutdown_run_def Let_def)
  then have "set shutdown_run = {?w 0, ?w 1, ?w 2, ?w 3, ?w 4, ?w 5, ?w 6, ?w 7, ?w 8}"
    by (auto simp: set_conv_nth numeral_eq_Suc less_Suc_eq)
  then show ?thesis using r0 r1 r2 r3 r4 r5 r6 r7 r8 by simp
qed

lemma shutdown_run_last: "sftp_transfer_reach (shutdown_run ! 8)"
  using shutdown_run_reach nth_mem [of 8 shutdown_run] by (simp add: shutdown_run_def Let_def)

theorem shutdown_cancels_every_transfer_witness:
  "check_control [1] (tw_manager (shutdown_run ! 8)) = ControlCancelled"
  by (rule shutdown_cancels_every_transfer [OF shutdown_run_last])
     (simp_all add: shutdown_run_def transfer_eval get_control_def Let_def)

theorem finished_transfers_expire_witness:
  "snd (get_background_transfer 10 [1] (tw_manager (shutdown_run ! 8))) \<noteq> None"
proof -
  have "map_of (tm_background (tw_manager (shutdown_run ! 8))) [1] = Some (example_snapshot\<lparr>bt_state := BtPending\<rparr>)"
    by (simp add: shutdown_run_def transfer_eval Let_def)
  then show ?thesis
    using finished_transfers_expire [OF shutdown_run_last] by (fastforce simp: is_finished_def)
qed

theorem transfer_permits_bounded_witness: "tm_active_count (tw_manager (shutdown_run ! 8)) \<le> 10"
  using transfer_permits_bounded [OF shutdown_run_last] by (simp add: MAX_SFTP_CONCURRENT_TRANSFERS_def)

text \<open>
  A background transfer whose registration looked at the manager before the shutdown and is entered after it stays
  pending: whoever waits for it waits on, although the session is over.
\<close>

lemma late_background_transfer_stays_pending:
  "\<exists>w report. sftp_transfer_reach w \<and> tw_shutdown w = ShutdownOver report \<and> tm_shutdown_state (tw_manager w) = ManagerStopped
    \<and> (\<forall>now. snd (wait_background_turn now [1] (tw_manager w)) = None)"
proof (intro exI conjI allI)
  show "sftp_transfer_reach (shutdown_run ! 8)" by (rule shutdown_run_last)
  show "tw_shutdown (shutdown_run ! 8) = ShutdownOver \<lparr>sr_started = True, sr_drained = False, sr_cancelled_transfers = 1, sr_remaining_transfers = 1\<rparr>"
    "tm_shutdown_state (tw_manager (shutdown_run ! 8)) = ManagerStopped"
    by (simp_all add: shutdown_run_def transfer_eval registered_count_def Let_def)
  show "snd (wait_background_turn now [1] (tw_manager (shutdown_run ! 8))) = None" for now
    by (simp add: wait_background_turn_def get_background_transfer_def shutdown_run_def transfer_eval is_finished_def Let_def)
qed

text \<open>
  The limit on running transfers is compared before a permit is taken: tasks that compare at the same time all pass, and
  more transfers run than the configured limit allows.
\<close>

theorem transfer_limit_can_be_exceeded:
  "\<exists>w. sftp_transfer_reach w \<and> tm_max_concurrent (tw_manager w) < tm_active_count (tw_manager w)"
proof -
  let ?one = "OpSettings \<lparr>rs_max_concurrent_transfers = 1, rs_speed_limit_kbps = 0, rs_directory_parallelism = 1\<rparr>"
  define m where "m = run_op ?one manager_new"
  have m: "tm_max_concurrent m = 1" "tm_permits m = 10" "tm_active_count m = 0"
    by (simp_all add: m_def manager_new_def apply_settings_def set_max_concurrent_def set_speed_limit_kbps_def
        set_directory_parallelism_def clamp_def MAX_SFTP_CONCURRENT_TRANSFERS_def)
  define w where "w permits active stages = \<lparr>tw_manager = m\<lparr>tm_permits := permits, tm_active_count := active\<rparr>,
    tw_permits = stages, tw_prepared = [], tw_shutdown = ShutdownIdle\<rparr>" for permits active stages
  have order: "m\<lparr>tm_active_count := a, tm_permits := p\<rparr> = m\<lparr>tm_permits := p, tm_active_count := a\<rparr>" for a p
    by (cases m) simp
  have "m\<lparr>tm_permits := 10, tm_active_count := 0\<rparr> = m" using m by (cases m) simp
  moreover have "sftp_transfer_reach (transfer_world_start\<lparr>tw_manager := m\<rparr>)"
    using reach_op [OF reach_start, of ?one] by (simp add: transfer_world_start_def m_def)
  ultimately have "sftp_transfer_reach (w 10 0 [])" by (simp add: w_def transfer_world_start_def)
  then have "sftp_transfer_reach (w 10 0 [PermitWaiting, PermitWaiting])"
    using reach_run [OF reach_run [OF _ step_want_permit] step_want_permit] by (fastforce simp: w_def)
  moreover have "sftp_transfer_step (w 10 0 [PermitWaiting, PermitWaiting]) (w 10 0 [PermitPassed, PermitWaiting])"
    using step_pass [of 0 "w 10 0 [PermitWaiting, PermitWaiting]"] m by (simp add: w_def permit_available_def)
  moreover have "sftp_transfer_step (w 10 0 [PermitPassed, PermitWaiting]) (w 10 0 [PermitPassed, PermitPassed])"
    using step_pass [of 1 "w 10 0 [PermitPassed, PermitWaiting]"] m by (simp add: w_def permit_available_def)
  moreover have "sftp_transfer_step (w 10 0 [PermitPassed, PermitPassed]) (w 9 0 [PermitTaken, PermitPassed])"
    using step_take [of 0 "w 10 0 [PermitPassed, PermitPassed]"] by (simp add: w_def permit_take_def order)
  moreover have "sftp_transfer_step (w 9 0 [PermitTaken, PermitPassed]) (w 8 0 [PermitTaken, PermitTaken])"
    using step_take [of 1 "w 9 0 [PermitTaken, PermitPassed]"] by (simp add: w_def permit_take_def order)
  moreover have "sftp_transfer_step (w 8 0 [PermitTaken, PermitTaken]) (w 8 1 [PermitHeld, PermitTaken])"
    using step_count [of 0 "w 8 0 [PermitTaken, PermitTaken]"] by (simp add: w_def permit_count_def)
  moreover have "sftp_transfer_step (w 8 1 [PermitHeld, PermitTaken]) (w 8 2 [PermitHeld, PermitHeld])"
    using step_count [of 1 "w 8 1 [PermitHeld, PermitTaken]"] by (simp add: w_def permit_count_def numeral_2_eq_2)
  ultimately have "sftp_transfer_reach (w 8 2 [PermitHeld, PermitHeld])" using reach_run by meson
  moreover have "tm_max_concurrent (tw_manager (w 8 2 [PermitHeld, PermitHeld])) < tm_active_count (tw_manager (w 8 2 [PermitHeld, PermitHeld]))"
    using m by (simp add: w_def)
  ultimately show ?thesis by blast
qed

text \<open>
  Progress that is reported after a transfer was paused makes its snapshot active again while its
  control stays paused.
\<close>

lemma progress_hides_pause:
  assumes "get_control i m = Some ref" and "ref < length (tm_store m)" and "map_of (tm_background m) i = Some s" and "unfinished s"
    and "m' = update_background_transfer_progress i t total_bytes speed (fst (pause_transfer i m))"
  shows "tc_paused (tm_store m' ! ref) \<and> map_option bt_state (map_of (tm_background m') i) = Some BtActive"
  using assms
  by (simp add: pause_transfer_def update_background_transfer_progress_def modify_background_def modify_control_def
      update_conv' unfinished_def is_finished_def)

end
