(* ===== verification/Trzsz_Buffer.thy ===== *)
theory Trzsz_Buffer
  imports Rust_Str Modem_Io
begin

text \<open>
  The input of a trzsz transfer (\<^verbatim>\<open>hapcli-trzsz/src/buffer.rs\<close>) and the escaping of binary data (\<^verbatim>\<open>escape.rs\<close>),
  with the errors of \<^verbatim>\<open>error.rs\<close>. The chunks that arrive while a read is under way are
  in the queue from the start; a read that needs more has the outcome \<open>Waiting\<close>. Slicing a string
  inside a character is the outcome \<open>Panicked\<close>.
  The buffer refines a plain stream of bytes: what is read does not depend on how the stream was
  cut into chunks.
\<close>

datatype trzsz_error =
    TzInvalidApiVersion nat nat | TzInvalidOwnerId | TzInvalidPath bytes | TzUnauthorizedPath bytes
  | TzDirectoryNotAllowed bytes | TzSymlinkNotAllowed bytes | TzReservedName bytes | TzRootNotPrepared
  | TzRootMismatch | TzHandleNotFound bytes | TzHandleOwnerMismatch | TzAlreadyExists bytes
  | TzMaxFileCountExceeded nat nat | TzMaxTotalBytesExceeded nat nat | TzInvalidState bytes
  | TzInvalidOffset nat nat | TzChunkTooLarge nat nat | TzIo

datatype trzsz_outcome = Waiting | Panicked | Failed trzsz_error

subsection \<open>The source's operations: the buffer\<close>

record trzsz_buffer =
  zb_queue :: "bytes list"
  zb_next_buffer :: bytes
  zb_next_index :: nat
  zb_stopped :: bool

type_synonym 'a zread = "(trzsz_buffer, trzsz_outcome, 'a) chan"

definition trzsz_buffer_default :: trzsz_buffer where
  "trzsz_buffer_default = \<lparr>zb_queue = [], zb_next_buffer = [], zb_next_index = 0, zb_stopped = False\<rparr>"

definition add_buffer :: "bytes \<Rightarrow> trzsz_buffer \<Rightarrow> trzsz_buffer" where
  "add_buffer buffer b = b\<lparr>zb_queue := zb_queue b @ [buffer]\<rparr>"

definition stop_buffer :: "trzsz_buffer \<Rightarrow> trzsz_buffer" where
  "stop_buffer b = b\<lparr>zb_stopped := True\<rparr>"

definition drain_buffer :: "trzsz_buffer \<Rightarrow> trzsz_buffer" where
  "drain_buffer b = b\<lparr>zb_queue := [], zb_next_buffer := [], zb_next_index := 0\<rparr>"

function next_buffer :: "bytes zread" where
  "next_buffer b =
     (if zb_next_index b < length (zb_next_buffer b) then (Ok (drop (zb_next_index b) (zb_next_buffer b)), b)
      else if zb_stopped b then (Err (Failed (TzInvalidState (str_lit ''Stopped''))), b)
      else case zb_queue b of
        next # queue \<Rightarrow> next_buffer (b\<lparr>zb_queue := queue, zb_next_buffer := next, zb_next_index := 0\<rparr>)
      | [] \<Rightarrow> (Err Waiting, b))"
  by pat_completeness auto
termination
  by (relation "measure (\<lambda>b. length (zb_queue b))") auto

declare next_buffer.simps [simp del]

text \<open>The index stays within a vector, so the saturating addition of the source is an addition.\<close>

definition consume_buffer :: "nat \<Rightarrow> trzsz_buffer \<Rightarrow> trzsz_buffer" where
  "consume_buffer n b = b\<lparr>zb_next_index := zb_next_index b + n\<rparr>"

definition previous_chunk_had_newline :: "trzsz_buffer \<Rightarrow> bool" where
  "previous_chunk_had_newline b \<longleftrightarrow>
     zb_next_index b > 0 \<and> zb_next_index b - 1 < length (zb_next_buffer b) \<and> zb_next_buffer b ! (zb_next_index b - 1) = 10"

text \<open>The bytes that are still to be read.\<close>

definition buffer_stream :: "trzsz_buffer \<Rightarrow> bytes" where
  "buffer_stream b = drop (zb_next_index b) (zb_next_buffer b) @ concat (zb_queue b)"

lemma next_buffer_stream:
  assumes "next_buffer b = (r, b')"
  shows "buffer_stream b' = buffer_stream b" and "zb_stopped b' = zb_stopped b"
    and "r = Ok n \<Longrightarrow> n = drop (zb_next_index b') (zb_next_buffer b') \<and> n \<noteq> []"
    and "r = Ok n \<Longrightarrow> \<exists>rest. buffer_stream b = n @ rest"
    and "length (zb_queue b') \<le> length (zb_queue b)"
  using assms
proof (induction b rule: next_buffer.induct)
  case (1 b)
  {
    case 1 then show ?case using "1.IH" by (subst (asm) next_buffer.simps) (auto simp: buffer_stream_def split: if_splits list.splits)
  next
    case 2 then show ?case using "1.IH" by (subst (asm) next_buffer.simps) (auto split: if_splits list.splits)
  next
    case 3 then show ?case using "1.IH" by (subst (asm) next_buffer.simps) (auto split: if_splits list.splits)
  next
    case 4 then show ?case using "1.IH" by (subst (asm) next_buffer.simps) (auto simp: buffer_stream_def split: if_splits list.splits)
  next
    case 5 then show ?case using "1.IH" by (subst (asm) next_buffer.simps) (fastforce split: if_splits list.splits)
  }
qed


lemma consume_buffer_stream:
  assumes "n \<le> length (drop (zb_next_index b) (zb_next_buffer b))"
  shows "buffer_stream (consume_buffer n b) = drop n (buffer_stream b)"
  using assms by (simp add: buffer_stream_def consume_buffer_def add.commute)

lemma consume_buffer_stopped [simp]: "zb_stopped (consume_buffer n b) = zb_stopped b"
  by (simp add: consume_buffer_def)

lemma read_shrinks:
  assumes "next_buffer b = (Ok n, b')" and "0 < k" and "k \<le> length n"
  shows "length (buffer_stream (consume_buffer k b')) < length (buffer_stream b)"
proof -
  note next_buffer_stream(3) [OF assms(1) refl]
  then have "buffer_stream (consume_buffer k b') = drop k (buffer_stream b')" using assms(3) by (intro consume_buffer_stream) simp
  moreover have "length n \<le> length (buffer_stream b)" using next_buffer_stream(4) [OF assms(1) refl] by auto
  ultimately show ?thesis using assms(2,3) next_buffer_stream(1) [OF assms(1)] by simp
qed

text \<open>\<^verbatim>\<open>read_line\<close>: the line so far is an argument of its loop.\<close>

definition line_chunk :: "u8 \<Rightarrow> bytes \<Rightarrow> trzsz_buffer \<Rightarrow> bytes \<times> trzsz_buffer" where
  "line_chunk stop_byte next b =
     (case position (\<lambda>v. v = stop_byte) next of
        Some newline_index \<Rightarrow> (take newline_index next, consume_buffer (newline_index + 1) b)
      | None \<Rightarrow> (next, consume_buffer (length next) b))"

lemma line_chunk_shrinks:
  assumes "next_buffer b = (Ok n, b')"
  shows "length (buffer_stream (snd (line_chunk c n b'))) < length (buffer_stream b)"
proof (cases "position (\<lambda>v. v = c) n")
  case None
  moreover have "n \<noteq> []" using next_buffer_stream(3) [OF assms refl] by blast
  ultimately show ?thesis using read_shrinks [OF assms, of "length n"] by (simp add: line_chunk_def)
next
  case (Some i)
  then show ?thesis using read_shrinks [OF assms] position_bound [OF Some] by (simp add: line_chunk_def)
qed

function read_line_loop :: "bytes \<Rightarrow> bytes zread" where
  "read_line_loop buffer b =
     (case next_buffer b of
        (Inl e, b1) \<Rightarrow> (Err e, b1)
      | (Inr next, b1) \<Rightarrow>
          if 3 \<in> set (fst (line_chunk 10 next b1))
          then (Err (Failed (TzInvalidState (str_lit ''Interrupted''))), snd (line_chunk 10 next b1))
          else if previous_chunk_had_newline (snd (line_chunk 10 next b1))
          then (Ok (from_utf8_lossy (buffer @ fst (line_chunk 10 next b1))), snd (line_chunk 10 next b1))
          else read_line_loop (buffer @ fst (line_chunk 10 next b1)) (snd (line_chunk 10 next b1)))"
  by pat_completeness auto
termination
  by (relation "measure (\<lambda>(buffer, b). length (buffer_stream b))") (auto simp: line_chunk_shrinks)

declare read_line_loop.simps [simp del]

definition read_line :: "bytes zread" where
  "read_line b = read_line_loop [] b"

function read_binary_loop :: "nat \<Rightarrow> bytes \<Rightarrow> bytes zread" where
  "read_binary_loop len buffer b =
     (if length buffer < len
      then case next_buffer b of
          (Inl e, b1) \<Rightarrow> (Err e, b1)
        | (Inr next, b1) \<Rightarrow>
            read_binary_loop len (buffer @ take (len - length buffer) next)
              (consume_buffer (length (take (len - length buffer) next)) b1)
      else (Ok buffer, b))"
  by pat_completeness auto
termination
proof (relation "measure (\<lambda>(len, buffer, b). length (buffer_stream b))", goal_cases)
  case (2 len buffer b r b1 nxt)
  then have n: "next_buffer b = (Ok nxt, b1)" by simp
  then have "nxt \<noteq> []" using next_buffer_stream(3) by metis
  then show ?case using 2 read_shrinks [OF n, of "length (take (len - length buffer) nxt)"] by simp
qed simp

declare read_binary_loop.simps [simp del]

definition read_binary :: "nat \<Rightarrow> bytes zread" where
  "read_binary len b = read_binary_loop len [] b"


text \<open>\<^verbatim>\<open>read_line_on_windows\<close>: the local variables of its loop, and what it does with one byte.\<close>

record windows_line =
  wl_buffer :: bytes
  wl_last_byte :: u8
  wl_skip_vt100 :: bool
  wl_has_newline :: bool
  wl_may_duplicate :: bool
  wl_has_cursor_home :: bool
  wl_previous_has_cursor_home :: bool

definition is_trzsz_letter :: "u8 \<Rightarrow> bool" where
  "is_trzsz_letter c \<longleftrightarrow> is_ascii_alphabetic c \<or> is_digit c \<or> c \<in> {35, 58, 43, 47, 61}"

definition windows_push :: "u8 \<Rightarrow> windows_line \<Rightarrow> windows_line" where
  "windows_push c l =
     l\<lparr>wl_buffer := wl_buffer l @ [c], wl_previous_has_cursor_home := wl_has_cursor_home l,
       wl_has_cursor_home := False, wl_has_newline := False\<rparr>"

definition windows_char :: "u8 \<Rightarrow> windows_line \<Rightarrow> windows_line" where
  "windows_char c l0 =
     (let l = (if c = 10 then l0\<lparr>wl_has_newline := True\<rparr> else l0) in
      if wl_skip_vt100 l then
        (let l1 = (if is_ascii_alphabetic c
                   then l\<lparr>wl_skip_vt100 := False,
                          wl_may_duplicate := wl_may_duplicate l \<or> (c = 72 \<and> is_digit (wl_last_byte l))\<rparr>
                   else l);
             l2 = (if wl_last_byte l1 = 91 \<and> c = 72 then l1\<lparr>wl_has_cursor_home := True\<rparr> else l1) in
         l2\<lparr>wl_last_byte := c\<rparr>)
      else if c = 27 then l\<lparr>wl_skip_vt100 := True, wl_last_byte := c\<rparr>
      else if \<not> is_trzsz_letter c then l
      else if wl_may_duplicate l then
        (let l1 = l\<lparr>wl_may_duplicate := False\<rparr> in
         if wl_has_newline l1 \<and> wl_buffer l1 \<noteq> [] \<and> (c = last (wl_buffer l1) \<or> wl_previous_has_cursor_home l1)
         then l1\<lparr>wl_buffer := butlast (wl_buffer l1) @ [c]\<rparr>
         else windows_push c l1)
      else windows_push c l)"

fun windows_chars :: "bytes \<Rightarrow> windows_line \<Rightarrow> trzsz_error + windows_line" where
  "windows_chars [] l = Ok l"
| "windows_chars (c # cs) l =
     (if c = 3 then Err (TzInvalidState (str_lit ''Interrupted'')) else windows_chars cs (windows_char c l))"

definition windows_line_new :: windows_line where
  "windows_line_new =
     \<lparr>wl_buffer = [], wl_last_byte = 27, wl_skip_vt100 = False, wl_has_newline = False, wl_may_duplicate = False,
      wl_has_cursor_home = False, wl_previous_has_cursor_home = False\<rparr>"

function windows_line_loop :: "windows_line \<Rightarrow> bytes zread" where
  "windows_line_loop l b =
     (case next_buffer b of
        (Inl e, b1) \<Rightarrow> (Err e, b1)
      | (Inr next, b1) \<Rightarrow>
          (case windows_chars (fst (line_chunk 33 next b1)) l of
             Inl e \<Rightarrow> (Err (Failed e), snd (line_chunk 33 next b1))
           | Inr l1 \<Rightarrow>
               if 33 \<in> set next \<and> wl_buffer l1 \<noteq> [] \<and> \<not> wl_skip_vt100 l1
               then (Ok (from_utf8_lossy (wl_buffer l1)), snd (line_chunk 33 next b1))
               else windows_line_loop l1 (snd (line_chunk 33 next b1))))"
  by pat_completeness auto
termination
  by (relation "measure (\<lambda>(l, b). length (buffer_stream b))") (auto simp: line_chunk_shrinks)

declare windows_line_loop.simps [simp del]

definition read_line_on_windows :: "bytes zread" where
  "read_line_on_windows b = windows_line_loop windows_line_new b"

subsection \<open>The source's operations: escaping\<close>

type_synonym escape_code = "u8 \<times> u8 \<times> u8"

definition escape_chars_to_codes :: "bytes list list \<Rightarrow> escape_code list" where
  "escape_chars_to_codes escape_chars =
     concat (map (\<lambda>escape_char.
       case escape_char of
         [] \<Rightarrow> []
       | [] # _ \<Rightarrow> []
       | (b # _) # rest \<Rightarrow> (case rest of (t0 # t1 # _) # _ \<Rightarrow> [(b, t0, t1)] | _ \<Rightarrow> [])) escape_chars)"

definition escape_byte :: "escape_code list \<Rightarrow> u8 \<Rightarrow> bytes" where
  "escape_byte escape_codes v =
     (case find (\<lambda>(b, t0, t1). v = b) escape_codes of Some (b, t0, t1) \<Rightarrow> [t0, t1] | None \<Rightarrow> [v])"

definition escape_data :: "bytes \<Rightarrow> escape_code list \<Rightarrow> bytes" where
  "escape_data data escape_codes =
     (if escape_codes = [] then data else concat (map (escape_byte escape_codes) data))"

fun unescape_loop :: "escape_code list \<Rightarrow> bytes \<Rightarrow> bytes" where
  "unescape_loop escape_codes [] = []"
| "unescape_loop escape_codes [v] = [v]"
| "unescape_loop escape_codes (v # w # rest) =
     (case find (\<lambda>(b, t0, t1). v = t0 \<and> w = t1) escape_codes of
        Some (b, t0, t1) \<Rightarrow> b # unescape_loop escape_codes rest
      | None \<Rightarrow> v # unescape_loop escape_codes (w # rest))"

definition unescape_data :: "bytes \<Rightarrow> escape_code list \<Rightarrow> bytes" where
  "unescape_data data escape_codes =
     (if escape_codes = [] then data else unescape_loop escape_codes data)"


subsection \<open>The buffer refines a stream\<close>

lemma next_buffer_ready:
  assumes "\<not> zb_stopped b" and "buffer_stream b \<noteq> []"
  obtains n b' rest where "next_buffer b = (Ok n, b')" and "n \<noteq> []" and "buffer_stream b = n @ rest"
    and "buffer_stream b' = n @ rest" and "\<not> zb_stopped b'" and "n = drop (zb_next_index b') (zb_next_buffer b')"
proof -
  have "\<exists>n b'. next_buffer b = (Ok n, b')"
    using assms
  proof (induction b rule: next_buffer.induct)
    case (1 b)
    then show ?case by (subst next_buffer.simps) (fastforce simp: buffer_stream_def split: list.splits)
  qed
  then obtain n b' where n: "next_buffer b = (Ok n, b')" by blast
  then show ?thesis
    using that next_buffer_stream(1,2,3,4) [OF n] assms(1) by metis
qed

lemma next_buffer_empty: "\<not> zb_stopped b \<Longrightarrow> buffer_stream b = [] \<Longrightarrow> \<exists>b'. next_buffer b = (Err Waiting, b') \<and> buffer_stream b' = []"
proof (induction b rule: next_buffer.induct)
  case (1 b)
  then show ?case by (subst next_buffer.simps) (auto simp: buffer_stream_def split: list.splits)
qed

lemma line_chunk_hit:
  assumes "n = drop (zb_next_index b) (zb_next_buffer b)" and "n = line @ c # more_bytes" and "c \<notin> set line"
    and "buffer_stream b = n @ rest"
  shows "fst (line_chunk c n b) = line" and "buffer_stream (snd (line_chunk c n b)) = more_bytes @ rest"
    and "zb_stopped (snd (line_chunk c n b)) = zb_stopped b"
    and "c = 10 \<Longrightarrow> previous_chunk_had_newline (snd (line_chunk c n b))"
proof -
  have pos: "position (\<lambda>v. v = c) n = Some (length line)" using assms(2,3) by (auto intro!: position_append_hit)
  then show "fst (line_chunk c n b) = line" "zb_stopped (snd (line_chunk c n b)) = zb_stopped b"
    using assms(2) by (simp_all add: line_chunk_def)
  have "buffer_stream (consume_buffer (length line + 1) b) = drop (length line + 1) (buffer_stream b)"
    using assms(1,2) by (intro consume_buffer_stream) (metis One_nat_def length_append length_Cons add_Suc_right le_add1 add_0_right Suc_eq_plus1 add_Suc)
  then show "buffer_stream (snd (line_chunk c n b)) = more_bytes @ rest"
    using pos assms(2,4) by (simp add: line_chunk_def)
  have "drop (zb_next_index b) (zb_next_buffer b) ! length line = c" using assms(1,2) by (metis nth_append_length)
  moreover have "length line < length (drop (zb_next_index b) (zb_next_buffer b))" using assms(1,2) by (metis length_append length_Cons add_Suc_right less_add_Suc1)
  ultimately show "c = 10 \<Longrightarrow> previous_chunk_had_newline (snd (line_chunk c n b))"
    using pos by (auto simp: line_chunk_def previous_chunk_had_newline_def consume_buffer_def)
qed

lemma line_chunk_miss:
  assumes "n = drop (zb_next_index b) (zb_next_buffer b)" and "c \<notin> set n" and "n \<noteq> []" and "buffer_stream b = n @ rest"
  shows "fst (line_chunk c n b) = n" and "buffer_stream (snd (line_chunk c n b)) = rest"
    and "zb_stopped (snd (line_chunk c n b)) = zb_stopped b"
    and "c = 10 \<Longrightarrow> \<not> previous_chunk_had_newline (snd (line_chunk c n b))"
proof -
  have pos: "position (\<lambda>v. v = c) n = None" using assms(2) by (auto simp: position_None)
  then show "fst (line_chunk c n b) = n" "zb_stopped (snd (line_chunk c n b)) = zb_stopped b"
    by (simp_all add: line_chunk_def)
  have "buffer_stream (consume_buffer (length n) b) = drop (length n) (buffer_stream b)"
    using assms(1) by (intro consume_buffer_stream) simp
  then show "buffer_stream (snd (line_chunk c n b)) = rest" using pos assms(4) by (simp add: line_chunk_def)
  have "zb_next_buffer b ! (zb_next_index b + length n - 1) \<in> set n"
  proof -
    have "n ! (length n - 1) = zb_next_buffer b ! (zb_next_index b + (length n - 1))"
      using assms(1,3) by (subst (1) assms(1)) (rule nth_drop, simp)
    moreover have "zb_next_index b + (length n - 1) = zb_next_index b + length n - 1" using assms(3) by (cases n) simp_all
    ultimately show ?thesis using assms(3) by (metis nth_mem length_greater_0_conv diff_less zero_less_one)
  qed
  then show "c = 10 \<Longrightarrow> \<not> previous_chunk_had_newline (snd (line_chunk c n b))"
    using pos assms(2) by (auto simp: line_chunk_def previous_chunk_had_newline_def consume_buffer_def)
qed

text \<open>A chunk either contains the end of the line or is a part of it.\<close>

lemma chunk_of_line:
  assumes "n @ r = line @ c # rest" and "c \<notin> set line"
  obtains (hit) more_bytes where "n = line @ c # more_bytes" and "rest = more_bytes @ r"
    | (miss) line' where "line = n @ line'" and "r = line' @ c # rest" and "c \<notin> set n"
  using assms by (auto simp: append_eq_append_conv2 Cons_eq_append_conv append_eq_Cons_conv)

lemma read_line_loop_stream:
  assumes "\<not> zb_stopped b" and "buffer_stream b = line @ 10 # rest" and "10 \<notin> set line" and "3 \<notin> set line"
  shows "\<exists>b'. read_line_loop buffer b = (Ok (from_utf8_lossy (buffer @ line)), b') \<and> buffer_stream b' = rest \<and> \<not> zb_stopped b'"
  using assms
proof (induction buffer b arbitrary: line rule: read_line_loop.induct)
  case (1 buffer b)
  obtain n b1 r where n: "next_buffer b = (Ok n, b1)" "n \<noteq> []" "buffer_stream b = n @ r" "buffer_stream b1 = n @ r"
    "\<not> zb_stopped b1" "n = drop (zb_next_index b1) (zb_next_buffer b1)"
    using next_buffer_ready [OF "1.prems"(1)] "1.prems"(2) by (metis append_is_Nil_conv list.distinct(1))
  have "n @ r = line @ 10 # rest" using n(3) "1.prems"(2) by simp
  from this "1.prems"(3) show ?case
  proof (cases rule: chunk_of_line)
    case (hit m)
    then show ?thesis
      using line_chunk_hit [OF n(6) hit(1) "1.prems"(3) n(4)] n(1,5) "1.prems"(4)
      by (subst read_line_loop.simps) simp
  next
    case (miss line')
    note chunk = line_chunk_miss [OF n(6) miss(3) n(2,4)]
    have no: "3 \<notin> set n" "3 \<notin> set line'" "10 \<notin> set line'" using miss(1) "1.prems"(3,4) by auto
    have "\<exists>b'. read_line_loop (buffer @ n) (snd (line_chunk 10 n b1)) = (Ok (from_utf8_lossy ((buffer @ n) @ line')), b')
        \<and> buffer_stream b' = rest \<and> \<not> zb_stopped b'"
      using "1.IH" [OF n(1) [symmetric] refl _ _ _ _ no(3,2)] chunk no(1) n(5) miss(2) by simp
    then show ?thesis
      using n(1) chunk no(1) miss(1) by (subst read_line_loop.simps) simp
  qed
qed


text \<open>Control-C anywhere in the line interrupts the read.\<close>

lemma read_line_loop_interrupted:
  assumes "\<not> zb_stopped b" and "buffer_stream b = line @ 10 # rest" and "10 \<notin> set line" and "3 \<in> set line"
  shows "fst (read_line_loop buffer b) = Err (Failed (TzInvalidState (str_lit ''Interrupted'')))"
  using assms
proof (induction buffer b arbitrary: line rule: read_line_loop.induct)
  case (1 buffer b)
  obtain n b1 r where n: "next_buffer b = (Ok n, b1)" "n \<noteq> []" "buffer_stream b = n @ r" "buffer_stream b1 = n @ r"
    "\<not> zb_stopped b1" "n = drop (zb_next_index b1) (zb_next_buffer b1)"
    using next_buffer_ready [OF "1.prems"(1)] "1.prems"(2) by (metis append_is_Nil_conv list.distinct(1))
  have "n @ r = line @ 10 # rest" using n(3) "1.prems"(2) by simp
  from this "1.prems"(3) show ?case
  proof (cases rule: chunk_of_line)
    case (hit m)
    then show ?thesis
      using line_chunk_hit [OF n(6) hit(1) "1.prems"(3) n(4)] n(1) "1.prems"(4)
      by (subst read_line_loop.simps) simp
  next
    case (miss line')
    note chunk = line_chunk_miss [OF n(6) miss(3) n(2,4)]
    show ?thesis
    proof (cases "3 \<in> set n")
      case True
      then show ?thesis using n(1) chunk by (subst read_line_loop.simps) simp
    next
      case False
      then have no: "3 \<in> set line'" "10 \<notin> set line'" using miss(1) "1.prems"(3,4) by auto
      have "fst (read_line_loop (buffer @ n) (snd (line_chunk 10 n b1))) = Err (Failed (TzInvalidState (str_lit ''Interrupted'')))"
        using "1.IH" [OF n(1) [symmetric] refl _ _ _ _ no(2,1)] chunk False n(5) miss(2) by simp
      then show ?thesis using n(1) chunk False by (subst read_line_loop.simps) simp
    qed
  qed
qed

lemma read_binary_loop_stream:
  assumes "\<not> zb_stopped b" and "buffer_stream b = data @ rest" and "length buffer + length data = len"
  shows "\<exists>b'. read_binary_loop len buffer b = (Ok (buffer @ data), b') \<and> buffer_stream b' = rest \<and> \<not> zb_stopped b'"
  using assms
proof (induction len buffer b arbitrary: data rule: read_binary_loop.induct)
  case (1 len buffer b)
  show ?case
  proof (cases "data = []")
    case True
    then show ?thesis using "1.prems" by (subst read_binary_loop.simps) simp
  next
    case False
    then obtain n b1 r where n: "next_buffer b = (Ok n, b1)" "n \<noteq> []" "buffer_stream b = n @ r" "buffer_stream b1 = n @ r"
      "\<not> zb_stopped b1" "n = drop (zb_next_index b1) (zb_next_buffer b1)"
      using next_buffer_ready [OF "1.prems"(1)] "1.prems"(2) by (metis append_is_Nil_conv)
    define t where "t = take (len - length buffer) n"
    have len: "len - length buffer = length data" "length buffer < len" using "1.prems"(3) False by auto
    have b2: "buffer_stream (consume_buffer (length t) b1) = drop (length t) (n @ r)"
      using consume_buffer_stream [of "length t" b1] n(4,6) by (simp add: t_def)
    have nr: "n @ r = data @ rest" using n(3) "1.prems"(2) by simp
    have t: "t = take (length data) n" by (simp add: t_def len)
    have lt: "length t \<le> length n" "length t \<le> length data" by (simp_all add: t)
    have "take (length t) n = take (length t) data" using arg_cong [OF nr, of "take (length t)"] lt by simp
    moreover have "take (length t) n = t" by (simp add: t min_def)
    ultimately have split: "data = t @ drop (length t) data" by (metis append_take_drop_id)
    have "buffer_stream (consume_buffer (length t) b1) = drop (length t) data @ rest"
      using b2 nr by (simp add: t)
    moreover have "length (buffer @ t) + length (drop (length t) data) = len" using "1.prems"(3) by (simp add: t)
    ultimately obtain b' where "read_binary_loop len (buffer @ t) (consume_buffer (length t) b1) = (Ok ((buffer @ t) @ drop (length t) data), b')"
      "buffer_stream b' = rest" "\<not> zb_stopped b'"
      using "1.IH" [OF len(2) n(1) [symmetric] refl] n(5) by (auto simp: t_def)
    then show ?thesis using n(1) len(2) split by (subst read_binary_loop.simps) (simp add: t_def)
  qed
qed

text \<open>What a read finds is determined by the stream alone.\<close>

lemma read_line_stream:
  assumes "\<not> zb_stopped b" and "buffer_stream b = line @ 10 # rest" and "10 \<notin> set line" and "3 \<notin> set line"
  obtains b' where "read_line b = (Ok (from_utf8_lossy line), b')" and "buffer_stream b' = rest" and "\<not> zb_stopped b'"
  using read_line_loop_stream [OF assms, of "[]"] by (auto simp: read_line_def)

lemma read_binary_stream:
  assumes "\<not> zb_stopped b" and "buffer_stream b = data @ rest"
  obtains b' where "read_binary (length data) b = (Ok data, b')" and "buffer_stream b' = rest" and "\<not> zb_stopped b'"
  using read_binary_loop_stream [OF assms, of "[]" "length data"] by (auto simp: read_binary_def)

lemma windows_chars_plain:
  assumes "3 \<notin> set cs" and "27 \<notin> set cs" and "\<not> wl_skip_vt100 l" and "\<not> wl_may_duplicate l"
  shows "\<exists>l'. windows_chars cs l = Ok l' \<and> wl_buffer l' = wl_buffer l @ filter is_trzsz_letter cs
    \<and> \<not> wl_skip_vt100 l' \<and> \<not> wl_may_duplicate l'"
  using assms
proof (induction cs arbitrary: l)
  case (Cons c cs)
  have "wl_buffer (windows_char c l) = wl_buffer l @ filter is_trzsz_letter [c]" "\<not> wl_skip_vt100 (windows_char c l)"
    "\<not> wl_may_duplicate (windows_char c l)"
    using Cons.prems by (auto simp: windows_char_def windows_push_def Let_def)
  then show ?case using Cons.IH [of "windows_char c l"] Cons.prems by (cases "is_trzsz_letter c") simp_all
qed simp

lemma windows_line_stream:
  assumes "\<not> zb_stopped b" and "buffer_stream b = line @ 33 # rest" and "33 \<notin> set line" and "3 \<notin> set line" and "27 \<notin> set line"
    and "\<not> wl_skip_vt100 l" and "\<not> wl_may_duplicate l" and "wl_buffer l @ filter is_trzsz_letter line \<noteq> []"
  shows "\<exists>b'. windows_line_loop l b = (Ok (from_utf8_lossy (wl_buffer l @ filter is_trzsz_letter line)), b')
    \<and> buffer_stream b' = rest \<and> \<not> zb_stopped b'"
  using assms
proof (induction l b arbitrary: line rule: windows_line_loop.induct)
  case (1 l b)
  obtain n b1 r where n: "next_buffer b = (Ok n, b1)" "n \<noteq> []" "buffer_stream b = n @ r" "buffer_stream b1 = n @ r"
    "\<not> zb_stopped b1" "n = drop (zb_next_index b1) (zb_next_buffer b1)"
    using next_buffer_ready [OF "1.prems"(1)] "1.prems"(2) by (metis append_is_Nil_conv list.distinct(1))
  have "n @ r = line @ 33 # rest" using n(3) "1.prems"(2) by simp
  from this "1.prems"(3) show ?case
  proof (cases rule: chunk_of_line)
    case (hit m)
    obtain l' where "windows_chars line l = Ok l'" "wl_buffer l' = wl_buffer l @ filter is_trzsz_letter line" "\<not> wl_skip_vt100 l'"
      using windows_chars_plain [OF "1.prems"(4,5,6,7)] by blast
    then show ?thesis
      using line_chunk_hit(1,2,3) [OF n(6) hit(1) "1.prems"(3) n(4)] n(1,5) hit "1.prems"(8)
      by (subst windows_line_loop.simps) simp
  next
    case (miss line')
    note chunk = line_chunk_miss(1,2,3) [OF n(6) miss(3) n(2,4)]
    have no: "33 \<notin> set line'" "3 \<notin> set line'" "27 \<notin> set line'" "3 \<notin> set n" "27 \<notin> set n" using miss(1) "1.prems"(3,4,5) by auto
    obtain l' where l': "windows_chars n l = Ok l'" "wl_buffer l' = wl_buffer l @ filter is_trzsz_letter n"
      "\<not> wl_skip_vt100 l'" "\<not> wl_may_duplicate l'"
      using windows_chars_plain [OF no(4,5) "1.prems"(6,7)] by blast
    have "\<exists>b'. windows_line_loop l' (snd (line_chunk 33 n b1)) = (Ok (from_utf8_lossy (wl_buffer l' @ filter is_trzsz_letter line')), b')
        \<and> buffer_stream b' = rest \<and> \<not> zb_stopped b'"
      by (rule "1.IH" [OF n(1) [symmetric] refl])
        (use chunk l' no(1,2,3) n(5) miss "1.prems"(8) in \<open>auto\<close>)
    then show ?thesis
      using n(1) chunk l' miss(1,3) by (subst windows_line_loop.simps) simp
  qed
qed

subsection \<open>Escaping\<close>

text \<open>
  The codes that a configuration can contain: the first byte of every escape sequence is itself escaped, and an
  escape sequence stands for one byte.
\<close>

definition escape_codes_ok :: "escape_code list \<Rightarrow> bool" where
  "escape_codes_ok codes \<longleftrightarrow>
     list_all (\<lambda>(b, t0, t1). t0 \<in> set (map fst codes)) codes
     \<and> list_all (\<lambda>(b, t). list_all (\<lambda>(b', t'). t = t' \<longrightarrow> b = b') codes) codes"

lemma unescape_escape_byte:
  assumes "escape_codes_ok codes"
  shows "unescape_loop codes (escape_byte codes v @ rest) = v # unescape_loop codes rest"
proof (cases "find (\<lambda>(b, t0, t1). v = b) codes")
  case None
  then have v: "v \<notin> set (map fst codes)" by (auto simp: find_None_iff)
  then have "(b, v, t) \<notin> set codes" for b t using assms by (fastforce simp: escape_codes_ok_def list_all_iff)
  then have "find (\<lambda>(b, t0, t1). v = t0 \<and> w = t1) codes = None" for w by (auto simp: find_None_iff)
  then show ?thesis using None by (cases rest) (simp_all add: escape_byte_def)
next
  case (Some c)
  obtain b t0 t1 where c: "c = (b, t0, t1)" by (metis prod.exhaust)
  then have mem: "(b, t0, t1) \<in> set codes" "b = v" using Some by (auto simp: find_Some_iff in_set_conv_nth)
  then obtain c' where c': "find (\<lambda>(b, s0, s1). t0 = s0 \<and> t1 = s1) codes = Some c'"
    by (cases "find (\<lambda>(b, s0, s1). t0 = s0 \<and> t1 = s1) codes") (auto simp: find_None_iff)
  then obtain b' where b': "c' = (b', t0, t1)" "(b', t0, t1) \<in> set codes"
    by (auto simp: find_Some_iff) (metis nth_mem)
  then have "b' = v" using assms mem unfolding escape_codes_ok_def list_all_iff by fastforce
  then show ?thesis using Some c c' b'(1) by (simp add: escape_byte_def)
qed

text \<open>Unescaping undoes escaping.\<close>

lemma unescape_escape: "escape_codes_ok codes \<Longrightarrow> unescape_data (escape_data data codes) codes = data"
proof -
  assume ok: "escape_codes_ok codes"
  have "unescape_loop codes (concat (map (escape_byte codes) data)) = data"
    by (induction data) (simp_all add: unescape_escape_byte [OF ok])
  then show ?thesis by (simp add: escape_data_def unescape_data_def)
qed

end
