(* ===== verification/Trzsz_Transfer.thy ===== *)
theory Trzsz_Transfer
  imports Trzsz_Buffer
begin

text \<open>
  The protocol engine of a trzsz transfer (\<^verbatim>\<open>hapcli-trzsz/src/transfer.rs\<close>): lines, numbers, strings and data in both
  directions, and the conversations that send and receive files. Compression, Base64, JSON and MD5 are
  packages from outside and are the functions of a record \<open>trzsz_codec\<close>, as are the texts of the
  errors that they and the parsers of the standard library give; readers and writers of local files are the
  operations of their traits. Times are arguments; the progress bar, and the times that the
  engine keeps only for itself, are left out.
\<close>

subsection \<open>The source's operations: values\<close>

record trzsz_config =
  zf_binary :: bool
  zf_directory :: bool
  zf_tmux_output_junk :: bool
  zf_bufsize :: "nat option"
  zf_escape_chars :: "bytes list list"

definition trzsz_config_empty :: trzsz_config where
  "trzsz_config_empty =
     \<lparr>zf_binary = False, zf_directory = False, zf_tmux_output_junk = False, zf_bufsize = None, zf_escape_chars = []\<rparr>"

record trzsz_codec =
  zc_compress :: "bytes \<Rightarrow> bytes option"
  zc_decompress :: "bytes \<Rightarrow> bytes option"
  zc_base64_encode :: "bytes \<Rightarrow> bytes"
  zc_base64_decode :: "bytes \<Rightarrow> bytes + bytes"
  zc_md5 :: "bytes \<Rightarrow> bytes"
  zc_entry_json :: "nat \<Rightarrow> bytes list \<Rightarrow> bool \<Rightarrow> bytes"
  zc_action_json :: "bool \<Rightarrow> bool \<Rightarrow> bytes"
  zc_parse_config :: "bytes \<Rightarrow> bytes + trzsz_config"
  zc_utf8_error :: "bytes \<Rightarrow> bytes"
  zc_int_error :: "bytes \<Rightarrow> bytes"

record 'r trzsz_file_reader =
  fr_close_file :: "'r \<Rightarrow> 'r"
  fr_path_id :: "'r \<Rightarrow> nat"
  fr_rel_path :: "'r \<Rightarrow> bytes list"
  fr_is_dir :: "'r \<Rightarrow> bool"
  fr_size :: "'r \<Rightarrow> nat"
  fr_read_file :: "nat \<Rightarrow> 'r \<Rightarrow> (trzsz_error + bytes) \<times> 'r"

record 'w trzsz_file_writer =
  fw_close_file :: "'w \<Rightarrow> 'w"
  fw_local_name :: "'w \<Rightarrow> bytes"
  fw_is_dir :: "'w \<Rightarrow> bool"
  fw_write_file :: "bytes \<Rightarrow> 'w \<Rightarrow> (trzsz_error + unit) \<times> 'w"
  fw_commit_file :: "'w \<Rightarrow> (trzsz_error + unit) \<times> 'w"
  fw_finish_file :: "'w \<Rightarrow> (trzsz_error + unit) \<times> 'w"
  fw_abort_file :: "'w \<Rightarrow> (trzsz_error + unit) \<times> 'w"

record trzsz_save_param =
  sp_root_path :: bytes
  sp_display_name :: bytes

record trzsz_transfer =
  zt_buffer :: trzsz_buffer
  zt_writes :: "bytes list"
  zt_is_windows_shell :: bool
  zt_max_data_chunk_size :: nat
  zt_remote_is_windows :: bool
  zt_tmux_output_junk :: bool
  zt_transfer_config :: trzsz_config
  zt_stopped :: bool
  zt_protocol_newline :: bytes

type_synonym 'a zrun = "(trzsz_transfer, trzsz_outcome, 'a) chan"

definition transfer_new :: "bool \<Rightarrow> nat \<Rightarrow> trzsz_transfer" where
  "transfer_new is_windows_shell max_data_chunk_size =
     \<lparr>zt_buffer = trzsz_buffer_default, zt_writes = [], zt_is_windows_shell = is_windows_shell,
      zt_max_data_chunk_size = max_data_chunk_size, zt_remote_is_windows = False, zt_tmux_output_junk = False,
      zt_transfer_config = trzsz_config_empty, zt_stopped = False, zt_protocol_newline = [10]\<rparr>"

definition add_received_data :: "bytes \<Rightarrow> trzsz_transfer \<Rightarrow> trzsz_transfer" where
  "add_received_data data t =
     (if \<not> zt_stopped t then t\<lparr>zt_buffer := add_buffer data (zt_buffer t)\<rparr> else t)"

definition stop_transferring :: "trzsz_transfer \<Rightarrow> trzsz_transfer" where
  "stop_transferring t = t\<lparr>zt_stopped := True, zt_buffer := stop_buffer (zt_buffer t)\<rparr>"

definition set_remote_platform :: "bool \<Rightarrow> trzsz_transfer \<Rightarrow> trzsz_transfer" where
  "set_remote_platform remote_is_windows t =
     (if remote_is_windows then t\<lparr>zt_remote_is_windows := True, zt_protocol_newline := [33, 10]\<rparr> else t)"

definition clean_input :: "trzsz_transfer \<Rightarrow> trzsz_transfer" where
  "clean_input t = t\<lparr>zt_stopped := True, zt_buffer := drain_buffer (zt_buffer t)\<rparr>"

subsection \<open>The source's operations: lines\<close>

fun find_sub :: "bytes \<Rightarrow> bytes \<Rightarrow> nat option" where
  "find_sub p [] = (if p = [] then Some 0 else None)"
| "find_sub p (b # bs) = (if prefix p (b # bs) then Some 0 else map_option Suc (find_sub p bs))"

fun rfind_sub :: "bytes \<Rightarrow> bytes \<Rightarrow> nat option" where
  "rfind_sub p [] = (if p = [] then Some 0 else None)"
| "rfind_sub p (b # bs) =
     (case rfind_sub p bs of Some i \<Rightarrow> Some (Suc i) | None \<Rightarrow> if prefix p (b # bs) then Some 0 else None)"

definition with_buffer :: "'a zread \<Rightarrow> 'a zrun" where
  "with_buffer f t = (case f (zt_buffer t) of (r, b) \<Rightarrow> (r, t\<lparr>zt_buffer := b\<rparr>))"

definition fail :: "trzsz_error \<Rightarrow> 'a zrun" where
  "fail e = io_fail (Failed e)"

definition transfer_write :: "bytes \<Rightarrow> unit zrun" where
  "transfer_write data t = (Ok (), t\<lparr>zt_writes := zt_writes t @ [data]\<rparr>)"

definition send_line :: "bytes \<Rightarrow> bytes \<Rightarrow> unit zrun" where
  "send_line kind buffer t = transfer_write (35 # kind @ 58 # buffer @ zt_protocol_newline t) t"

lemma find_sub_bound: "find_sub p s = Some i \<Longrightarrow> i + length p \<le> length s"
  by (induction s arbitrary: i) (auto split: if_splits dest: prefix_length_le)

function strip_tmux_status_line :: "bytes \<Rightarrow> bytes" where
  "strip_tmux_status_line buffer =
     (case find_sub [27, 80, 61] buffer of
        None \<Rightarrow> buffer
      | Some begin_index \<Rightarrow>
          (case find_sub [27, 80, 61] (drop (begin_index + 3) buffer) of
             None \<Rightarrow> take begin_index buffer
           | Some mid_index \<Rightarrow>
               (case find_sub [27, 92] (drop (begin_index + 3 + mid_index + 3) buffer) of
                  None \<Rightarrow> take begin_index buffer
                | Some end_index \<Rightarrow>
                    strip_tmux_status_line
                      (take begin_index buffer @ drop (begin_index + 3 + mid_index + 3 + end_index + 2) buffer))))"
  by pat_completeness auto
termination
  by (relation "measure length") (auto dest!: find_sub_bound)

declare strip_tmux_status_line.simps [simp del]

text \<open>Every line that is read consumes at least its end.\<close>

lemma read_line_loop_shrinks:
  "read_line_loop buffer b = (Ok line, b') \<Longrightarrow> length (buffer_stream b') < length (buffer_stream b)"
proof (induction buffer b rule: read_line_loop.induct)
  case (1 buffer b)
  obtain r b1 where n: "next_buffer b = (r, b1)" by fastforce
  show ?case
  proof (cases r)
    case (Inl e)
    then show ?thesis using "1.prems" n by (subst (asm) read_line_loop.simps) simp
  next
    case (Inr nxt)
    note shrink = line_chunk_shrinks [OF n [unfolded Inr], of 10]
    have "length (buffer_stream b') < length (buffer_stream (snd (line_chunk 10 nxt b1)))"
      if "\<not> previous_chunk_had_newline (snd (line_chunk 10 nxt b1))" "3 \<notin> set (fst (line_chunk 10 nxt b1))"
      using "1.prems" n Inr that by (intro "1.IH" [OF n [symmetric] Inr]) (simp_all add: read_line_loop.simps [of buffer])
    then show ?thesis using "1.prems" n Inr shrink
      by (subst (asm) read_line_loop.simps) (auto split: if_splits)
  qed
qed

function read_joined_lines :: "bytes \<Rightarrow> bytes zread" where
  "read_joined_lines line b =
     (if line \<noteq> [] \<and> last line = 13
      then case read_line b of
          (Inl e, b1) \<Rightarrow> (Err e, b1)
        | (Inr more_bytes, b1) \<Rightarrow> read_joined_lines (butlast line @ more_bytes) b1
      else (Ok line, b))"
  by pat_completeness auto
termination
  by (relation "measure (\<lambda>(line, b). length (buffer_stream b))") (auto simp: read_line_def dest: read_line_loop_shrinks [OF sym])

declare read_joined_lines.simps [simp del]


definition after_marker :: "bytes \<Rightarrow> bytes \<Rightarrow> bytes" where
  "after_marker expect_type line =
     (case rfind_sub (35 # expect_type @ [58]) line of
        Some index \<Rightarrow> drop index line
      | None \<Rightarrow>
          (case rfind_sub [35] line of
             Some index \<Rightarrow> if index > 0 then drop index line else line
           | None \<Rightarrow> line))"

definition recv_line :: "bytes \<Rightarrow> bool \<Rightarrow> bytes zrun" where
  "recv_line expect_type may_have_junk t =
     (if zt_stopped t then fail (TzInvalidState (str_lit ''Stopped'')) t
      else if zt_is_windows_shell t \<or> zt_remote_is_windows t
      then io_bind (with_buffer read_line_on_windows) (\<lambda>line. io_return (after_marker expect_type line)) t
      else if zt_tmux_output_junk t \<or> may_have_junk
      then io_bind (with_buffer read_line) (\<lambda>line.
           io_bind (with_buffer (read_joined_lines line)) (\<lambda>line.
           io_return (strip_tmux_status_line (after_marker expect_type line)))) t
      else with_buffer read_line t)"

text \<open>The kind of a line is the slice from its second byte, which must not be inside a character.\<close>

definition recv_check :: "bytes \<Rightarrow> bool \<Rightarrow> bytes zrun" where
  "recv_check expect_type may_have_junk =
     io_bind (recv_line expect_type may_have_junk) (\<lambda>line.
       case position (\<lambda>v. v = 58) line of
         None \<Rightarrow> fail (TzInvalidState (str_lit ''Missing colon in trzsz line: '' @ line))
       | Some separator_index \<Rightarrow>
           if separator_index < 1 then fail (TzInvalidState (str_lit ''Invalid trzsz line: '' @ line))
           else if is_cont (line ! 1) then io_fail Panicked
           else
             let kind = drop 1 (take separator_index line);
                 buffer = drop (separator_index + 1) line in
             if kind \<noteq> expect_type then fail (TzInvalidState (kind @ [58, 32] @ buffer))
             else io_return buffer)"

definition encode_buffer :: "trzsz_codec \<Rightarrow> bytes \<Rightarrow> trzsz_error + bytes" where
  "encode_buffer zc buffer =
     (case zc_compress zc buffer of None \<Rightarrow> Err TzIo | Some data \<Rightarrow> Ok (zc_base64_encode zc data))"

definition decode_buffer :: "trzsz_codec \<Rightarrow> bytes \<Rightarrow> trzsz_error + bytes" where
  "decode_buffer zc buffer =
     (case zc_base64_decode zc buffer of
        Inl msg \<Rightarrow> Err (TzInvalidState msg)
      | Inr data \<Rightarrow> (case zc_decompress zc data of None \<Rightarrow> Err TzIo | Some out \<Rightarrow> Ok out))"

definition lift_result :: "trzsz_error + 'a \<Rightarrow> 'a zrun" where
  "lift_result r = (case r of Inl e \<Rightarrow> fail e | Inr x \<Rightarrow> io_return x)"

definition send_integer :: "bytes \<Rightarrow> nat \<Rightarrow> unit zrun" where
  "send_integer kind v = send_line kind (u64_to_string v)"

definition recv_integer :: "trzsz_codec \<Rightarrow> bytes \<Rightarrow> bool \<Rightarrow> nat zrun" where
  "recv_integer zc kind may_have_junk =
     io_bind (recv_check kind may_have_junk) (\<lambda>buffer.
       case parse_u64 buffer of
         Some v \<Rightarrow> io_return v
       | None \<Rightarrow> fail (TzInvalidState (str_lit ''Invalid integer: '' @ zc_int_error zc buffer)))"

definition check_integer :: "trzsz_codec \<Rightarrow> nat \<Rightarrow> unit zrun" where
  "check_integer zc expect =
     io_bind (recv_integer zc (str_lit ''SUCC'') False) (\<lambda>v.
       if v \<noteq> expect
       then fail (TzInvalidState (str_lit ''Integer check ['' @ u64_to_string v @ str_lit ''] <> ['' @ u64_to_string expect @ [93]))
       else io_return ())"

definition send_binary :: "trzsz_codec \<Rightarrow> bytes \<Rightarrow> bytes \<Rightarrow> unit zrun" where
  "send_binary zc kind buffer = io_bind (lift_result (encode_buffer zc buffer)) (send_line kind)"

definition recv_binary :: "trzsz_codec \<Rightarrow> bytes \<Rightarrow> bool \<Rightarrow> bytes zrun" where
  "recv_binary zc kind may_have_junk =
     io_bind (recv_check kind may_have_junk) (\<lambda>buffer. lift_result (decode_buffer zc buffer))"

definition check_binary :: "trzsz_codec \<Rightarrow> bytes \<Rightarrow> unit zrun" where
  "check_binary zc expect =
     io_bind (recv_binary zc (str_lit ''SUCC'') False) (\<lambda>v.
       if v \<noteq> expect then fail (TzInvalidState (str_lit ''Binary check failed'')) else io_return ())"

definition send_string :: "trzsz_codec \<Rightarrow> bytes \<Rightarrow> bytes \<Rightarrow> unit zrun" where
  "send_string zc kind v = io_bind (lift_result (encode_buffer zc v)) (send_line kind)"

definition recv_string :: "trzsz_codec \<Rightarrow> bytes \<Rightarrow> bool \<Rightarrow> bytes zrun" where
  "recv_string zc kind may_have_junk =
     io_bind (recv_check kind may_have_junk) (\<lambda>buffer.
     io_bind (lift_result (decode_buffer zc buffer)) (\<lambda>decoded.
       if utf8_valid decoded then io_return decoded else fail (TzInvalidState (zc_utf8_error zc decoded))))"

definition send_data :: "trzsz_codec \<Rightarrow> bytes \<Rightarrow> bool \<Rightarrow> escape_code list \<Rightarrow> unit zrun" where
  "send_data zc data binary escape_codes =
     (if \<not> binary then send_binary zc (str_lit ''DATA'') data
      else
        let escaped = escape_data data escape_codes in
        io_bind (send_line (str_lit ''DATA'') (u64_to_string (length escaped))) (\<lambda>_. transfer_write escaped))"

definition recv_data :: "trzsz_codec \<Rightarrow> bool \<Rightarrow> escape_code list \<Rightarrow> bytes zrun" where
  "recv_data zc binary escape_codes =
     (if \<not> binary then recv_binary zc (str_lit ''DATA'') False
      else io_bind (recv_integer zc (str_lit ''DATA'') False) (\<lambda>len.
           io_bind (with_buffer (read_binary len)) (\<lambda>data. io_return (unescape_data data escape_codes))))"

definition config_escape_codes :: "trzsz_transfer \<Rightarrow> escape_code list" where
  "config_escape_codes t = escape_chars_to_codes (zf_escape_chars (zt_transfer_config t))"

definition send_action :: "trzsz_codec \<Rightarrow> bool \<Rightarrow> bool \<Rightarrow> unit zrun" where
  "send_action zc confirm remote_is_windows t =
     send_string zc (str_lit ''ACT'') (zc_action_json zc confirm (zt_is_windows_shell t \<or> remote_is_windows))
       (if remote_is_windows then set_remote_platform True t else t)"

definition recv_config :: "trzsz_codec \<Rightarrow> trzsz_config zrun" where
  "recv_config zc =
     io_bind (recv_string zc (str_lit ''CFG'') True) (\<lambda>buffer.
       case zc_parse_config zc buffer of
         Inl msg \<Rightarrow> fail (TzInvalidState msg)
       | Inr config \<Rightarrow>
           (\<lambda>t. (Ok config, t\<lparr>zt_transfer_config := config, zt_tmux_output_junk := zf_tmux_output_junk config\<rparr>)))"

definition client_exit :: "trzsz_codec \<Rightarrow> bytes \<Rightarrow> unit zrun" where
  "client_exit zc message = send_string zc (str_lit ''EXIT'') message"

definition client_error :: "trzsz_codec \<Rightarrow> bytes \<Rightarrow> unit zrun" where
  "client_error zc message t = send_string zc (str_lit ''FAIL'') message (clean_input t)"

subsection \<open>The source's operations: sending files\<close>

definition send_file_num :: "trzsz_codec \<Rightarrow> nat \<Rightarrow> unit zrun" where
  "send_file_num zc num = io_bind (send_integer (str_lit ''NUM'') num) (\<lambda>_. check_integer zc num)"

definition send_file_name :: "trzsz_codec \<Rightarrow> 'r trzsz_file_reader \<Rightarrow> 'r \<Rightarrow> bool \<Rightarrow> bytes zrun" where
  "send_file_name zc fr file directory =
     (if fr_rel_path fr file = [] then fail (TzInvalidPath (str_lit ''empty trzsz rel path''))
      else io_bind
        (send_string zc (str_lit ''NAME'')
          (if directory then zc_entry_json zc (fr_path_id fr file) (fr_rel_path fr file) (fr_is_dir fr file)
           else last (fr_rel_path fr file)))
        (\<lambda>_. recv_string zc (str_lit ''SUCC'') False))"

definition send_file_size :: "trzsz_codec \<Rightarrow> nat \<Rightarrow> unit zrun" where
  "send_file_size zc len = io_bind (send_integer (str_lit ''SIZE'') len) (\<lambda>_. check_integer zc len)"

definition next_buffer_size :: "nat \<Rightarrow> nat \<Rightarrow> nat \<Rightarrow> nat \<Rightarrow> nat" where
  "next_buffer_size max_buffer_size chunk_time data_len buffer_size =
     (if data_len = buffer_size \<and> chunk_time < 500 \<and> buffer_size < max_buffer_size
      then min (buffer_size * 2) max_buffer_size
      else if chunk_time \<ge> 2000 \<and> buffer_size > 1024 then 1024
      else buffer_size)"

text \<open>The loop of \<^verbatim>\<open>send_file_data\<close>; the times of the chunks are given by their number.\<close>

function send_file_loop ::
  "trzsz_codec \<Rightarrow> 'r trzsz_file_reader \<Rightarrow> nat \<Rightarrow> bool \<Rightarrow> escape_code list \<Rightarrow> nat \<Rightarrow> (nat \<Rightarrow> nat)
     \<Rightarrow> nat \<Rightarrow> nat \<Rightarrow> nat \<Rightarrow> bytes \<Rightarrow> 'r \<Rightarrow> (bytes \<times> 'r) zrun" where
  "send_file_loop zc fr len binary escape_codes max_buffer_size chunk_time k buffer_size step context_bytes file =
     (if step < len
      then case fr_read_file fr buffer_size file of
          (Inl e, file1) \<Rightarrow> fail e
        | (Inr data, file1) \<Rightarrow>
            if data = []
            then fail (TzInvalidState (str_lit ''Unexpected EOF while reading ''
                   @ concat (case fr_rel_path fr file1 of [] \<Rightarrow> [] | p # ps \<Rightarrow> p # map (\<lambda>q. 47 # q) ps)))
            else
              io_bind (send_data zc data binary escape_codes) (\<lambda>_.
              io_bind (check_integer zc (length data)) (\<lambda>_.
                send_file_loop zc fr len binary escape_codes max_buffer_size chunk_time (k + 1)
                  (next_buffer_size max_buffer_size (chunk_time k) (length data) buffer_size)
                  (step + length data) (context_bytes @ data) file1))
      else io_return (zc_md5 zc context_bytes, file))"
  by pat_completeness auto
termination
  by (relation "measure (\<lambda>(zc, fr, len, binary, codes, mx, tm, k, bs, step, ctx, file). len - step)") (auto intro!: diff_less_mono2)

declare send_file_loop.simps [simp del]

definition send_file_data ::
  "trzsz_codec \<Rightarrow> 'r trzsz_file_reader \<Rightarrow> 'r \<Rightarrow> nat \<Rightarrow> bool \<Rightarrow> escape_code list \<Rightarrow> nat \<Rightarrow> (nat \<Rightarrow> nat) \<Rightarrow> (bytes \<times> 'r) zrun" where
  "send_file_data zc fr file len binary escape_codes max_buffer_size chunk_time =
     send_file_loop zc fr len binary escape_codes max_buffer_size chunk_time 0 1024 0 [] file"

definition send_file_md5 :: "trzsz_codec \<Rightarrow> bytes \<Rightarrow> unit zrun" where
  "send_file_md5 zc digest = io_bind (send_binary zc (str_lit ''MD5'') digest) (\<lambda>_. check_binary zc digest)"

fun send_each_file ::
  "trzsz_codec \<Rightarrow> 'r trzsz_file_reader \<Rightarrow> bool \<Rightarrow> bool \<Rightarrow> escape_code list \<Rightarrow> nat \<Rightarrow> (nat \<Rightarrow> nat \<Rightarrow> nat)
     \<Rightarrow> 'r list \<Rightarrow> bytes list \<Rightarrow> 'r list \<Rightarrow> (bytes list \<times> 'r list) zrun" where
  "send_each_file zc fr binary directory escape_codes max_buffer_size chunk_time sent remote_names [] =
     io_return (remote_names, sent)"
| "send_each_file zc fr binary directory escape_codes max_buffer_size chunk_time sent remote_names (file # files) =
     io_bind (send_file_name zc fr file directory) (\<lambda>remote_name.
       let names = (if remote_name \<in> set remote_names then remote_names else remote_names @ [remote_name]) in
       if fr_is_dir fr file
       then send_each_file zc fr binary directory escape_codes max_buffer_size chunk_time (sent @ [file]) names files
       else
         io_bind (send_file_size zc (fr_size fr file)) (\<lambda>_.
         io_bind (send_file_data zc fr file (fr_size fr file) binary escape_codes max_buffer_size (chunk_time (length sent)))
           (\<lambda>(digest, file1).
         io_bind (send_file_md5 zc digest) (\<lambda>_.
           send_each_file zc fr binary directory escape_codes max_buffer_size chunk_time
             (sent @ [fr_close_file fr file1]) names files))))"

definition send_files ::
  "trzsz_codec \<Rightarrow> 'r trzsz_file_reader \<Rightarrow> (nat \<Rightarrow> nat \<Rightarrow> nat) \<Rightarrow> 'r list \<Rightarrow> (bytes list \<times> 'r list) zrun" where
  "send_files zc fr chunk_time files t =
     (let config = zt_transfer_config t;
          max_buffer_size = min (zt_max_data_chunk_size t)
            (case zf_bufsize config of Some v \<Rightarrow> v | None \<Rightarrow> zt_max_data_chunk_size t) in
      io_bind (send_file_num zc (length files)) (\<lambda>_.
        send_each_file zc fr (zf_binary config) (zf_directory config) (config_escape_codes t) max_buffer_size chunk_time [] [] files) t)"


subsection \<open>The source's operations: receiving files\<close>

text \<open>
  The state of \<^verbatim>\<open>recv_files\<close> besides the engine: what \<open>open_save_file\<close> keeps, and the files that it has opened, the one
  that is being received last.
\<close>

record ('o, 'w) trzsz_receiver =
  zr_transfer :: trzsz_transfer
  zr_opener :: 'o
  zr_files :: "'w list"

type_synonym ('o, 'w, 'a) rrun = "(('o, 'w) trzsz_receiver, trzsz_outcome, 'a) chan"

type_synonym ('o, 'w) save_file_opener =
  "trzsz_save_param \<Rightarrow> bytes \<Rightarrow> bool \<Rightarrow> bool \<Rightarrow> 'o \<Rightarrow> (trzsz_error + 'w) \<times> 'o"

definition on_transfer :: "'a zrun \<Rightarrow> ('o, 'w, 'a) rrun" where
  "on_transfer m r = (case m (zr_transfer r) of (x, t) \<Rightarrow> (x, r\<lparr>zr_transfer := t\<rparr>))"

definition on_file :: "('w \<Rightarrow> (trzsz_error + unit) \<times> 'w) \<Rightarrow> ('o, 'w, unit) rrun" where
  "on_file f r =
     (case f (last (zr_files r)) of
        (x, file) \<Rightarrow> (case x of Inl e \<Rightarrow> Err (Failed e) | Inr u \<Rightarrow> Ok u, r\<lparr>zr_files := butlast (zr_files r) @ [file]\<rparr>))"

definition recv_file_num :: "trzsz_codec \<Rightarrow> nat zrun" where
  "recv_file_num zc =
     io_bind (recv_integer zc (str_lit ''NUM'') False) (\<lambda>num.
     io_bind (send_integer (str_lit ''SUCC'') num) (\<lambda>_. io_return num))"

definition recv_file_name ::
  "trzsz_codec \<Rightarrow> 'w trzsz_file_writer \<Rightarrow> ('o, 'w) save_file_opener \<Rightarrow> trzsz_save_param \<Rightarrow> bool \<Rightarrow> bool \<Rightarrow> ('o, 'w, unit) rrun" where
  "recv_file_name zc fw open_save_file save_param directory overwrite =
     io_bind (on_transfer (recv_string zc (str_lit ''NAME'') False)) (\<lambda>file_name r.
       case open_save_file save_param file_name directory overwrite (zr_opener r) of
         (Inl e, opener) \<Rightarrow> (Err (Failed e), r\<lparr>zr_opener := opener\<rparr>)
       | (Inr file, opener) \<Rightarrow>
           on_transfer (send_string zc (str_lit ''SUCC'') (fw_local_name fw file))
             (r\<lparr>zr_opener := opener, zr_files := zr_files r @ [file]\<rparr>))"

definition recv_file_size :: "trzsz_codec \<Rightarrow> nat zrun" where
  "recv_file_size zc =
     io_bind (recv_integer zc (str_lit ''SIZE'') False) (\<lambda>len.
     io_bind (send_integer (str_lit ''SUCC'') len) (\<lambda>_. io_return len))"

text \<open>Every line that is received consumes input.\<close>

lemma joined_lines_shrink:
  "read_joined_lines line b = (Ok x, b') \<Longrightarrow> length (buffer_stream b') \<le> length (buffer_stream b)"
proof (induction line b rule: read_joined_lines.induct)
  case (1 line b)
  then show ?case
    by (subst (asm) (2) read_joined_lines.simps)
      (fastforce simp: read_line_def dest: read_line_loop_shrinks split: if_splits prod.splits sum.splits)
qed

lemma windows_line_shrinks:
  "windows_line_loop l b = (Ok line, b') \<Longrightarrow> length (buffer_stream b') < length (buffer_stream b)"
proof (induction l b rule: windows_line_loop.induct)
  case (1 l b)
  obtain r b1 where n: "next_buffer b = (r, b1)" by fastforce
  show ?case
  proof (cases r)
    case (Inl e)
    then show ?thesis using "1.prems" n by (subst (asm) windows_line_loop.simps) simp
  next
    case (Inr nxt)
    note shrink = line_chunk_shrinks [OF n [unfolded Inr], of 33]
    show ?thesis
      using "1.prems" n Inr shrink "1.IH" [OF n [symmetric] Inr]
      by (subst (asm) windows_line_loop.simps) (fastforce split: if_splits sum.splits)
  qed
qed

definition transfer_stream :: "trzsz_transfer \<Rightarrow> bytes" where
  "transfer_stream t = buffer_stream (zt_buffer t)"

lemma recv_line_shrinks:
  assumes "recv_line kind junk t = (Ok line, t')"
  shows "length (transfer_stream t') < length (transfer_stream t)"
  using assms
  by (auto simp: recv_line_def fail_def with_buffer_def transfer_stream_def read_line_def read_line_on_windows_def io_bind_def
      split: if_splits prod.splits sum.splits dest: read_line_loop_shrinks windows_line_shrinks dest!: joined_lines_shrink)


lemma recv_check_shrinks:
  assumes "recv_check kind junk t = (Ok x, t')"
  shows "length (transfer_stream t') < length (transfer_stream t)"
proof -
  obtain r t1 where line: "recv_line kind junk t = (r, t1)" by fastforce
  then show ?thesis
    using assms recv_line_shrinks [of kind junk t _ t1]
    by (cases r) (auto simp: recv_check_def fail_def io_bind_def io_fail_def Let_def split: option.splits if_splits)
qed

lemma recv_integer_shrinks:
  assumes "recv_integer zc kind junk t = (Ok x, t')"
  shows "length (transfer_stream t') < length (transfer_stream t)"
  using assms recv_check_shrinks [of kind junk t]
  by (auto simp: recv_integer_def fail_def io_bind_def io_fail_def split: option.splits sum.splits prod.splits)

lemma recv_binary_shrinks:
  assumes "recv_binary zc kind junk t = (Ok x, t')"
  shows "length (transfer_stream t') < length (transfer_stream t)"
  using assms recv_check_shrinks [of kind junk t]
  by (auto simp: recv_binary_def lift_result_def fail_def io_bind_def io_fail_def split: sum.splits prod.splits)

lemma read_binary_loop_shrinks:
  "read_binary_loop len buffer b = (x, b') \<Longrightarrow> length (buffer_stream b') \<le> length (buffer_stream b)"
proof (induction len buffer b rule: read_binary_loop.induct)
  case (1 len buffer b)
  obtain r b1 where n: "next_buffer b = (r, b1)" by fastforce
  show ?case
  proof (cases r)
    case (Inl e)
    then show ?thesis using "1.prems" n next_buffer_stream(1) [OF n] by (subst (asm) read_binary_loop.simps) (auto split: if_splits)
  next
    case (Inr nxt)
    have "nxt \<noteq> []" using next_buffer_stream(3) [OF n Inr] by blast
    then have "length (buffer_stream (consume_buffer (length (take (len - length buffer) nxt)) b1)) < length (buffer_stream b)"
      if "length buffer < len"
      using that by (intro read_shrinks [OF n [unfolded Inr]]) simp_all
    then show ?thesis using "1.prems" n Inr "1.IH" [OF _ n [symmetric] Inr]
      by (subst (asm) read_binary_loop.simps) (fastforce split: if_splits)
  qed
qed

lemma recv_data_shrinks:
  assumes "recv_data zc binary codes t = (Ok x, t')"
  shows "length (transfer_stream t') < length (transfer_stream t)"
proof (cases binary)
  case True
  then obtain len t1 where t1: "recv_integer zc (str_lit ''DATA'') False t = (Ok len, t1)"
    using assms by (auto simp: recv_data_def io_bind_def split: prod.splits sum.splits)
  have "length (transfer_stream t') \<le> length (transfer_stream t1)"
    using assms True t1 read_binary_loop_shrinks [of len "[]" "zt_buffer t1"]
    by (auto simp: recv_data_def io_bind_def with_buffer_def transfer_stream_def read_binary_def split: prod.splits sum.splits)
  then show ?thesis using recv_integer_shrinks [OF t1] by simp
qed (use assms recv_binary_shrinks in \<open>auto simp: recv_data_def\<close>)

lemma send_line_stream [simp]:
  "fst (send_line kind data t) = Ok ()" "transfer_stream (snd (send_line kind data t)) = transfer_stream t"
  by (simp_all add: send_line_def transfer_write_def transfer_stream_def)

function recv_file_loop ::
  "trzsz_codec \<Rightarrow> 'w trzsz_file_writer \<Rightarrow> nat \<Rightarrow> bool \<Rightarrow> escape_code list \<Rightarrow> nat \<Rightarrow> bytes \<Rightarrow> ('o, 'w, bytes) rrun" where
  "recv_file_loop zc fw len binary escape_codes step context_bytes r =
     (if step < len
      then case on_transfer (recv_data zc binary escape_codes) r of
          (Inl e, r1) \<Rightarrow> (Err e, r1)
        | (Inr data, r1) \<Rightarrow>
            (case on_file (fw_write_file fw data) r1 of
               (Inl e, r2) \<Rightarrow> (Err e, r2)
             | (Inr _, r2) \<Rightarrow>
                 recv_file_loop zc fw len binary escape_codes (step + length data) (context_bytes @ data)
                   (snd (on_transfer (send_integer (str_lit ''SUCC'') (length data)) r2)))
      else (Ok (zc_md5 zc context_bytes), r))"
  by pat_completeness auto
termination
proof (relation "measure (\<lambda>(zc, fw, len, binary, codes, step, ctx, r). length (transfer_stream (zr_transfer r)))", goal_cases)
  case (2 zc fw len binary codes step ctx r x r1 data y r2)
  have "length (transfer_stream (zr_transfer r1)) < length (transfer_stream (zr_transfer r))"
    using 2(2,3) recv_data_shrinks [of zc binary codes "zr_transfer r"] by (auto simp: on_transfer_def split: prod.splits)
  moreover have "zr_transfer r2 = zr_transfer r1" using 2(4) by (auto simp: on_file_def split: prod.splits)
  moreover have "transfer_stream (zr_transfer (snd (on_transfer (send_integer k n) r2))) = transfer_stream (zr_transfer r2)" for k n
    by (simp add: on_transfer_def send_integer_def send_line_def transfer_write_def transfer_stream_def)
  ultimately show ?case by simp
qed simp

declare recv_file_loop.simps [simp del]

definition recv_file_data ::
  "trzsz_codec \<Rightarrow> 'w trzsz_file_writer \<Rightarrow> nat \<Rightarrow> bool \<Rightarrow> escape_code list \<Rightarrow> ('o, 'w, bytes) rrun" where
  "recv_file_data zc fw len binary escape_codes = recv_file_loop zc fw len binary escape_codes 0 []"

definition recv_file_md5 :: "trzsz_codec \<Rightarrow> bytes \<Rightarrow> unit zrun" where
  "recv_file_md5 zc digest =
     io_bind (recv_binary zc (str_lit ''MD5'') False) (\<lambda>expected_digest.
       if digest \<noteq> expected_digest then fail (TzInvalidState (str_lit ''Check MD5 failed''))
       else send_binary zc (str_lit ''SUCC'') digest)"

definition recv_file_content ::
  "trzsz_codec \<Rightarrow> 'w trzsz_file_writer \<Rightarrow> bool \<Rightarrow> escape_code list \<Rightarrow> ('o, 'w, unit) rrun" where
  "recv_file_content zc fw binary escape_codes =
     io_bind (on_transfer (recv_file_size zc)) (\<lambda>len r.
       case recv_file_data zc fw len binary escape_codes r of
         (Inr digest, r1) \<Rightarrow>
           io_bind (on_file (\<lambda>file. (Ok (), fw_close_file fw file))) (\<lambda>_.
           io_bind (on_transfer (recv_file_md5 zc digest)) (\<lambda>_. on_file (fw_finish_file fw))) r1
       | (Inl (Failed e), r1) \<Rightarrow> (Err (Failed e), snd (on_file (fw_abort_file fw) r1))
       | (Inl e, r1) \<Rightarrow> (Err e, r1))"

fun recv_each_file ::
  "trzsz_codec \<Rightarrow> 'w trzsz_file_writer \<Rightarrow> ('o, 'w) save_file_opener \<Rightarrow> trzsz_save_param \<Rightarrow> bool \<Rightarrow> bool \<Rightarrow> escape_code list
     \<Rightarrow> bytes list \<Rightarrow> nat \<Rightarrow> ('o, 'w, bytes list) rrun" where
  "recv_each_file zc fw open_save_file save_param binary directory escape_codes local_names 0 = io_return local_names"
| "recv_each_file zc fw open_save_file save_param binary directory escape_codes local_names (Suc num) =
     io_bind (recv_file_name zc fw open_save_file save_param directory False) (\<lambda>_ r.
       let file = last (zr_files r);
           names = (if fw_local_name fw file \<in> set local_names then local_names else local_names @ [fw_local_name fw file]) in
       if fw_is_dir fw file
       then recv_each_file zc fw open_save_file save_param binary directory escape_codes names num r
       else io_bind (recv_file_content zc fw binary escape_codes) (\<lambda>_.
              recv_each_file zc fw open_save_file save_param binary directory escape_codes names num) r)"

fun commit_files :: "'w trzsz_file_writer \<Rightarrow> 'w list \<Rightarrow> (trzsz_error + unit) \<times> 'w list" where
  "commit_files fw [] = (Ok (), [])"
| "commit_files fw (file # files) =
     (case fw_commit_file fw file of
        (Inl e, file1) \<Rightarrow> (Err e, file1 # files)
      | (Inr _, file1) \<Rightarrow> (case commit_files fw files of (x, files1) \<Rightarrow> (x, file1 # files1)))"

definition recv_files ::
  "trzsz_codec \<Rightarrow> 'w trzsz_file_writer \<Rightarrow> ('o, 'w) save_file_opener \<Rightarrow> trzsz_save_param \<Rightarrow> ('o, 'w, bytes list) rrun" where
  "recv_files zc fw open_save_file save_param r =
     (let config = zt_transfer_config (zr_transfer r) in
      io_bind (on_transfer (recv_file_num zc)) (\<lambda>num.
      io_bind (recv_each_file zc fw open_save_file save_param (zf_binary config) (zf_directory config)
                 (config_escape_codes (zr_transfer r)) [] num) (\<lambda>local_names r.
        case commit_files fw (zr_files r) of
          (Inl e, files) \<Rightarrow> (Err (Failed e), r\<lparr>zr_files := files\<rparr>)
        | (Inr _, files) \<Rightarrow> (Ok local_names, r\<lparr>zr_files := files\<rparr>))) r)"

end
