(* ===== verification/Trzsz_Session.thy ===== *)
theory Trzsz_Session
  imports Trzsz_Transfer
begin

text \<open>
  Whole trzsz conversations: a sender and a receiver that are given each other's output. An engine is described by the bytes
  that it has still to read and those that it has written; how the input is cut into chunks does not matter.
\<close>

subsection \<open>Triples for the engine\<close>

definition plain_engine :: "trzsz_transfer \<Rightarrow> bool" where
  "plain_engine t \<longleftrightarrow> \<not> zt_stopped t \<and> \<not> zt_is_windows_shell t \<and> \<not> zt_remote_is_windows t \<and> \<not> zt_tmux_output_junk t
     \<and> zt_protocol_newline t = [10]"

definition engine_at :: "trzsz_transfer \<Rightarrow> bytes \<Rightarrow> bytes \<Rightarrow> trzsz_transfer \<Rightarrow> bool" where
  "engine_at t0 s w t \<longleftrightarrow> (\<exists>b ws. t = t0\<lparr>zt_buffer := b, zt_writes := ws\<rparr> \<and> buffer_stream b = s \<and> \<not> zb_stopped b \<and> concat ws = w)"

definition does :: "trzsz_transfer \<Rightarrow> 'a zrun \<Rightarrow> bytes \<Rightarrow> bytes \<Rightarrow> 'a \<Rightarrow> bytes \<Rightarrow> bytes \<Rightarrow> bool" where
  "does t0 m s w x s' w' \<longleftrightarrow> (\<forall>t. engine_at t0 s w t \<longrightarrow> (\<exists>t'. m t = (Ok x, t') \<and> engine_at t0 s' w' t'))"

lemma engine_at_buffer:
  assumes "engine_at t0 s w t" and "buffer_stream b = s'" and "\<not> zb_stopped b"
  shows "engine_at t0 s' w (t\<lparr>zt_buffer := b\<rparr>)"
proof -
  obtain b0 ws where "t = t0\<lparr>zt_buffer := b0, zt_writes := ws\<rparr>" "concat ws = w" using assms(1) by (auto simp: engine_at_def)
  then show ?thesis using assms(2,3) by (cases t0) (auto simp: engine_at_def)
qed

lemma does_return: "does t0 (io_return x) s w x s w"
  by (simp add: does_def)

lemma does_bind: "does t0 m s w x sm wm \<Longrightarrow> does t0 (f x) sm wm y s' w' \<Longrightarrow> does t0 (io_bind m f) s w y s' w'"
  by (fastforce simp: does_def)

definition protocol_line :: "bytes \<Rightarrow> bytes \<Rightarrow> bytes" where
  "protocol_line kind p = 35 # kind @ 58 # p @ [10]"

definition printable :: "u8 \<Rightarrow> bool" where
  "printable b \<longleftrightarrow> 32 < b \<and> b \<le> 0x7E"

lemma does_write: "does t0 (transfer_write d) s w () s (w @ d)"
  by (fastforce simp: does_def engine_at_def transfer_write_def)

lemma does_send_line: "plain_engine t0 \<Longrightarrow> does t0 (send_line kind p) s w () s (w @ protocol_line kind p)"
  by (fastforce simp: does_def engine_at_def send_line_def transfer_write_def plain_engine_def protocol_line_def)

lemma printable_facts:
  assumes "list_all printable bs"
  shows "10 \<notin> set bs" and "3 \<notin> set bs" and "list_all (\<lambda>b. b \<le> 0x7F) bs"
  using assms by (auto simp: list_all_iff printable_def word_le_nat_alt word_less_nat_alt)

lemma printable_not_cont: "printable b \<longrightarrow> \<not> is_cont b"
  by (rule u8_allI [where P = "\<lambda>b. printable b \<longrightarrow> \<not> is_cont b"]) (simp add: upt_conv_Cons printable_def is_cont_def)

text \<open>The kinds of line that the protocol uses.\<close>

definition kind_ok :: "bytes \<Rightarrow> bool" where
  "kind_ok kind \<longleftrightarrow> kind \<noteq> [] \<and> list_all printable kind \<and> 58 \<notin> set kind"

lemma kinds [simp]:
  "kind_ok (str_lit ''SUCC'')" "kind_ok (str_lit ''NUM'')" "kind_ok (str_lit ''NAME'')" "kind_ok (str_lit ''SIZE'')"
  "kind_ok (str_lit ''DATA'')" "kind_ok (str_lit ''MD5'')"
  by (simp_all add: kind_ok_def str_lit_def printable_def)

lemma does_recv_check:
  assumes "plain_engine t0" and "kind_ok kind" and "list_all printable p"
  shows "does t0 (recv_check kind False) (protocol_line kind p @ s) w p s w"
  unfolding does_def
proof (intro allI impI)
  fix t assume at: "engine_at t0 (protocol_line kind p @ s) w t"
  then obtain b ws where t: "t = t0\<lparr>zt_buffer := b, zt_writes := ws\<rparr>" "\<not> zb_stopped b" "concat ws = w"
    "buffer_stream b = (35 # kind @ 58 # p) @ 10 # s"
    by (auto simp: engine_at_def protocol_line_def)
  define line where "line = 35 # kind @ 58 # p"
  have pr: "list_all printable line" using assms(2,3) by (simp add: line_def kind_ok_def printable_def)
  note facts = printable_facts [OF pr]
  obtain b' where b': "read_line b = (Ok (from_utf8_lossy line), b')" "buffer_stream b' = s" "\<not> zb_stopped b'"
    using read_line_stream [OF t(2) t(4) [folded line_def] facts(1,2)] by blast
  have lossy: "from_utf8_lossy line = line" by (rule from_utf8_lossy_valid [OF ascii_valid [OF facts(3)]])
  have recv: "recv_line kind False t = (Ok line, t\<lparr>zt_buffer := b'\<rparr>)"
    using assms(1) t(1) b'(1) lossy by (simp add: recv_line_def plain_engine_def with_buffer_def)
  have pos: "position (\<lambda>v. v = 58) line = Some (Suc (length kind))"
    using assms(2) position_append_hit [of kind "\<lambda>v. v = 58" 58 p] by (fastforce simp: line_def kind_ok_def)
  have "\<not> is_cont (line ! 1)"
  proof -
    have "printable (line ! 1)" using pr unfolding list_all_length by (elim allE [of _ 1]) (simp add: line_def)
    then show ?thesis using printable_not_cont by blast
  qed
  then have "recv_check kind False t = (Ok p, t\<lparr>zt_buffer := b'\<rparr>)"
    using recv pos by (simp add: recv_check_def io_bind_def Let_def) (simp add: line_def)
  then show "\<exists>t'. recv_check kind False t = (Ok p, t') \<and> engine_at t0 s w t'"
    using engine_at_buffer [OF at b'(2,3)] by blast
qed

lemma digits_printable: "list_all printable (u64_to_string n)"
proof -
  have "is_digit b \<Longrightarrow> printable b" for b
    by (simp add: is_digit_def printable_def word_le_nat_alt word_less_nat_alt)
  then show ?thesis using u64_to_string_digits [of n] by (auto simp: list_all_iff)
qed

lemma does_send_integer: "plain_engine t0 \<Longrightarrow> does t0 (send_integer kind n) s w () s (w @ protocol_line kind (u64_to_string n))"
  unfolding send_integer_def by (rule does_send_line)

lemma does_recv_integer:
  assumes "plain_engine t0" and "kind_ok kind" and "n < 2 ^ 64"
  shows "does t0 (recv_integer zc kind False) (protocol_line kind (u64_to_string n) @ s) w n s w"
  unfolding recv_integer_def
  by (rule does_bind [OF does_recv_check [OF assms(1,2) digits_printable]]) (simp add: parse_u64_to_string [OF assms(3)] does_return)

lemma does_check_integer:
  assumes "plain_engine t0" and "n < 2 ^ 64"
  shows "does t0 (check_integer zc n) (protocol_line (str_lit ''SUCC'') (u64_to_string n) @ s) w () s w"
  unfolding check_integer_def
  by (rule does_bind [OF does_recv_integer [OF assms(1) _ assms(2)]]) (simp_all add: does_return)

subsection \<open>Encoded lines\<close>

text \<open>What compression and Base64 promise.\<close>

definition base64_char :: "u8 \<Rightarrow> bool" where
  "base64_char b \<longleftrightarrow> is_ascii_alphabetic b \<or> is_digit b \<or> b \<in> {43, 47, 61}"

definition codec_ok :: "trzsz_codec \<Rightarrow> bool" where
  "codec_ok zc \<longleftrightarrow>
     (\<forall>d. \<exists>c. zc_compress zc d = Some c \<and> zc_decompress zc c = Some d)
     \<and> (\<forall>d. zc_base64_decode zc (zc_base64_encode zc d) = Ok d)
     \<and> (\<forall>d. list_all base64_char (zc_base64_encode zc d))"

definition encoded :: "trzsz_codec \<Rightarrow> bytes \<Rightarrow> bytes" where
  "encoded zc d = zc_base64_encode zc (the (zc_compress zc d))"

lemma codec_facts:
  assumes "codec_ok zc"
  shows "encode_buffer zc d = Ok (encoded zc d)" and "decode_buffer zc (encoded zc d) = Ok d" and "list_all printable (encoded zc d)"
proof -
  obtain c where c: "zc_compress zc d = Some c" "zc_decompress zc c = Some d" using assms unfolding codec_ok_def by blast
  then show "encode_buffer zc d = Ok (encoded zc d)" "decode_buffer zc (encoded zc d) = Ok d"
    using assms by (simp_all add: encode_buffer_def decode_buffer_def encoded_def codec_ok_def)
  have "base64_char b \<Longrightarrow> printable b" for b
    by (auto simp: base64_char_def is_digit_def is_ascii_alphabetic_def printable_def word_le_nat_alt word_less_nat_alt)
  then show "list_all printable (encoded zc d)"
    using assms by (auto simp: codec_ok_def encoded_def list_all_iff)
qed

lemma does_send_encoded:
  assumes "plain_engine t0" and "codec_ok zc"
  shows "does t0 (send_string zc kind d) s w () s (w @ protocol_line kind (encoded zc d))"
    and "does t0 (send_binary zc kind d) s w () s (w @ protocol_line kind (encoded zc d))"
proof -
  have lift: "does t0 (lift_result (encode_buffer zc d)) s w (encoded zc d) s w"
    by (simp add: lift_result_def codec_facts(1) [OF assms(2)] does_return)
  show "does t0 (send_string zc kind d) s w () s (w @ protocol_line kind (encoded zc d))"
    "does t0 (send_binary zc kind d) s w () s (w @ protocol_line kind (encoded zc d))"
    unfolding send_string_def send_binary_def by (rule does_bind [OF lift does_send_line [OF assms(1)]])+
qed

lemma does_recv_binary:
  assumes "plain_engine t0" and "codec_ok zc" and "kind_ok kind"
  shows "does t0 (recv_binary zc kind False) (protocol_line kind (encoded zc d) @ s) w d s w"
  unfolding recv_binary_def
  by (rule does_bind [OF does_recv_check [OF assms(1,3) codec_facts(3) [OF assms(2)]]])
    (simp add: codec_facts(2) [OF assms(2)] lift_result_def does_return)

lemma does_recv_string:
  assumes "plain_engine t0" and "codec_ok zc" and "kind_ok kind" and "utf8_valid d"
  shows "does t0 (recv_string zc kind False) (protocol_line kind (encoded zc d) @ s) w d s w"
  unfolding recv_string_def
  by (rule does_bind [OF does_recv_check [OF assms(1,3) codec_facts(3) [OF assms(2)]]], rule does_bind [where x = d and sm = s and wm = w])
    (simp_all add: codec_facts(2) [OF assms(2)] lift_result_def does_return assms(4))

lemma does_check_binary:
  assumes "plain_engine t0" and "codec_ok zc"
  shows "does t0 (check_binary zc d) (protocol_line (str_lit ''SUCC'') (encoded zc d) @ s) w () s w"
  unfolding check_binary_def by (rule does_bind [OF does_recv_binary [OF assms]]) (simp_all add: does_return)


subsection \<open>Data\<close>

definition data_message :: "trzsz_codec \<Rightarrow> bool \<Rightarrow> escape_code list \<Rightarrow> bytes \<Rightarrow> bytes" where
  "data_message zc binary codes d =
     (if binary then protocol_line (str_lit ''DATA'') (u64_to_string (length (escape_data d codes))) @ escape_data d codes
      else protocol_line (str_lit ''DATA'') (encoded zc d))"

definition ack_line :: "bytes \<Rightarrow> bytes" where
  "ack_line d = protocol_line (str_lit ''SUCC'') (u64_to_string (length d))"

lemma does_send_data:
  assumes "plain_engine t0" and "codec_ok zc"
  shows "does t0 (send_data zc d binary codes) s w () s (w @ data_message zc binary codes d)"
proof (cases binary)
  case True
  have "does t0 (io_bind (send_line (str_lit ''DATA'') (u64_to_string (length (escape_data d codes)))) (\<lambda>_. transfer_write (escape_data d codes)))
      s w () s ((w @ protocol_line (str_lit ''DATA'') (u64_to_string (length (escape_data d codes)))) @ escape_data d codes)"
    by (rule does_bind [OF does_send_line [OF assms(1)] does_write])
  then show ?thesis using True by (simp add: send_data_def data_message_def Let_def)
qed (simp add: send_data_def data_message_def does_send_encoded(2) [OF assms])

lemma does_read_binary:
  "does t0 (with_buffer (read_binary (length d))) (d @ s) w d s w"
  unfolding does_def
proof (intro allI impI)
  fix t assume at: "engine_at t0 (d @ s) w t"
  then obtain b ws where t: "t = t0\<lparr>zt_buffer := b, zt_writes := ws\<rparr>" "buffer_stream b = d @ s" "\<not> zb_stopped b" "concat ws = w"
    by (auto simp: engine_at_def)
  obtain b' where b': "read_binary (length d) b = (Ok d, b')" "buffer_stream b' = s" "\<not> zb_stopped b'"
    using read_binary_stream [OF t(3,2)] .
  then show "\<exists>t'. with_buffer (read_binary (length d)) t = (Ok d, t') \<and> engine_at t0 s w t'"
    using t(1) b'(1) engine_at_buffer [OF at b'(2,3)] by (auto simp: with_buffer_def)
qed

lemma escaped_length: "length (escape_data d codes) \<le> 2 * length d"
proof -
  have two: "length (escape_byte codes v) \<le> 2" for v by (auto simp: escape_byte_def split: option.splits)
  have "length (concat (map (escape_byte codes) d)) \<le> 2 * length d"
  proof (induction d)
    case (Cons v d)
    then show ?case using two [of v] by simp
  qed simp
  then show ?thesis by (simp add: escape_data_def)
qed

lemma does_recv_data:
  assumes "plain_engine t0" and "codec_ok zc" and "binary \<longrightarrow> escape_codes_ok codes" and "2 * length d < 2 ^ 64"
  shows "does t0 (recv_data zc binary codes) (data_message zc binary codes d @ s) w d s w"
proof (cases binary)
  case True
  let ?e = "escape_data d codes"
  have "length ?e < 2 ^ 64" using escaped_length [of d codes] assms(4) by linarith
  then have "does t0 (recv_integer zc (str_lit ''DATA'') False) (protocol_line (str_lit ''DATA'') (u64_to_string (length ?e)) @ ?e @ s) w
      (length ?e) (?e @ s) w"
    by (intro does_recv_integer [OF assms(1)]) simp_all
  moreover have "unescape_data ?e codes = d"
    using assms(3) True unescape_escape [of codes d] by simp
  then have "does t0 (io_bind (with_buffer (read_binary (length ?e))) (\<lambda>data. io_return (unescape_data data codes))) (?e @ s) w d s w"
    using does_bind [OF does_read_binary] does_return by metis
  ultimately show ?thesis using True by (simp add: recv_data_def data_message_def does_bind)
qed (simp add: recv_data_def data_message_def does_recv_binary [OF assms(1,2)])

subsection \<open>One file: sending\<close>

text \<open>A reader delivers the content of its file, in pieces of any length that is asked for at most.\<close>

definition reader_ok :: "'r trzsz_file_reader \<Rightarrow> ('r \<Rightarrow> bytes) \<Rightarrow> bool" where
  "reader_ok fr content \<longleftrightarrow>
     (\<forall>n f. 0 < n \<longrightarrow> content f \<noteq> [] \<longrightarrow>
        (\<exists>d f'. fr_read_file fr n f = (Ok d, f') \<and> d \<noteq> [] \<and> content f = d @ content f'))"

lemma next_buffer_size_pos: "0 < bs \<Longrightarrow> 0 < next_buffer_size mx tm n bs"
  by (auto simp: next_buffer_size_def)

lemma does_send_file_loop:
  assumes "plain_engine t0" and "codec_ok zc" and "reader_ok fr content"
    and "length (content f) < 2 ^ 64" and "step + length (content f) = len" and "0 < bs"
  shows "\<exists>ds f'. concat ds = content f \<and> list_all (\<lambda>d. d \<noteq> []) ds
    \<and> (\<forall>s w. does t0 (send_file_loop zc fr len binary codes mx tm k bs step ctx f)
        (concat (map ack_line ds) @ s) w (zc_md5 zc (ctx @ content f), f') s (w @ concat (map (data_message zc binary codes) ds)))"
  using assms(4,5,6)
proof (induction "length (content f)" arbitrary: f step bs k ctx rule: less_induct)
  case less
  show ?case
  proof (cases "content f = []")
    case True
    then have "does t0 (send_file_loop zc fr len binary codes mx tm k bs step ctx f) s w (zc_md5 zc ctx, f) s w" for s w
      using less.prems(2) by (subst send_file_loop.simps) (simp add: does_return)
    then show ?thesis using True by (intro exI [of _ "[]"] exI [of _ f]) simp
  next
    case False
    obtain d f1 where d: "fr_read_file fr bs f = (Ok d, f1)" "d \<noteq> []" "content f = d @ content f1"
      using assms(3) less.prems(3) False unfolding reader_ok_def by blast
    have len: "length (content f1) < length (content f)" "length d < 2 ^ 64" "step < len"
      using d(2,3) less.prems(1,2) by (cases d; simp)+
    have prems: "length (content f1) < 2 ^ 64" "step + length d + length (content f1) = len" using len(1) less.prems(1,2) d(3) by simp_all
    obtain ds f' where ds: "concat ds = content f1" "list_all (\<lambda>d. d \<noteq> []) ds"
      and rest: "\<And>s w. does t0 (send_file_loop zc fr len binary codes mx tm (k + 1) (next_buffer_size mx (tm k) (length d) bs)
          (step + length d) (ctx @ d) f1) (concat (map ack_line ds) @ s) w (zc_md5 zc ((ctx @ d) @ content f1), f') s
          (w @ concat (map (data_message zc binary codes) ds))"
      using less.hyps [OF len(1) prems(1,2) next_buffer_size_pos [OF less.prems(3)]] by blast
    have "does t0 (send_file_loop zc fr len binary codes mx tm k bs step ctx f)
        (ack_line d @ concat (map ack_line ds) @ s) w (zc_md5 zc (ctx @ content f), f') s
        ((w @ data_message zc binary codes d) @ concat (map (data_message zc binary codes) ds))" for s w
    proof -
      have check: "does t0 (check_integer zc (length d)) (ack_line d @ concat (map ack_line ds) @ s) (w @ data_message zc binary codes d) ()
          (concat (map ack_line ds) @ s) (w @ data_message zc binary codes d)"
        unfolding ack_line_def by (rule does_check_integer [OF assms(1) len(2)])
      have unfold: "send_file_loop zc fr len binary codes mx tm k bs step ctx f =
          io_bind (send_data zc d binary codes) (\<lambda>_. io_bind (check_integer zc (length d)) (\<lambda>_.
            send_file_loop zc fr len binary codes mx tm (k + 1) (next_buffer_size mx (tm k) (length d) bs) (step + length d) (ctx @ d) f1))"
        using d(1,2) len(3) by (subst send_file_loop.simps) simp
      show ?thesis
        unfolding unfold d(3)
        by (rule does_bind [OF does_send_data [OF assms(1,2)]], rule does_bind [OF check]) (use rest [of s "w @ data_message zc binary codes d"] in simp)
    qed
    then show ?thesis using d(2,3) ds by (intro exI [of _ "d # ds"] exI [of _ f']) simp
  qed
qed


lemma does_send_file_content:
  assumes "plain_engine t0" and "codec_ok zc" and "reader_ok fr content" and "length (content f) < 2 ^ 64"
  shows "\<exists>ds f'. concat ds = content f \<and> list_all (\<lambda>d. d \<noteq> []) ds
    \<and> (\<forall>s w. does t0 (send_file_data zc fr f (length (content f)) binary codes mx tm)
        (concat (map ack_line ds) @ s) w (zc_md5 zc (content f), f') s (w @ concat (map (data_message zc binary codes) ds)))"
  using does_send_file_loop [OF assms, where step = 0 and bs = 1024 and ctx = "[]" and k = 0]
  by (simp add: send_file_data_def)

subsection \<open>One file: receiving\<close>

definition receiver_at :: "trzsz_transfer \<Rightarrow> bytes \<Rightarrow> bytes \<Rightarrow> 'q \<Rightarrow> 'w list \<Rightarrow> ('q, 'w) trzsz_receiver \<Rightarrow> bool" where
  "receiver_at t0 s w q fs r \<longleftrightarrow> engine_at t0 s w (zr_transfer r) \<and> zr_opener r = q \<and> zr_files r = fs"

definition rdoes :: "trzsz_transfer \<Rightarrow> ('q, 'w, 'a) rrun \<Rightarrow> bytes \<Rightarrow> bytes \<Rightarrow> 'q \<Rightarrow> 'w list
    \<Rightarrow> 'a \<Rightarrow> bytes \<Rightarrow> bytes \<Rightarrow> 'q \<Rightarrow> 'w list \<Rightarrow> bool" where
  "rdoes t0 m s w q fs x s' w' q' fs' \<longleftrightarrow>
     (\<forall>r. receiver_at t0 s w q fs r \<longrightarrow> (\<exists>r'. m r = (Ok x, r') \<and> receiver_at t0 s' w' q' fs' r'))"

lemma rdoes_return: "rdoes t0 (io_return x) s w q fs x s w q fs"
  by (simp add: rdoes_def)

lemma rdoes_bind:
  "rdoes t0 m s w q fs x sm wm qm fm \<Longrightarrow> rdoes t0 (f x) sm wm qm fm y s' w' q' fs' \<Longrightarrow> rdoes t0 (io_bind m f) s w q fs y s' w' q' fs'"
  by (fastforce simp: rdoes_def)

lemma rdoes_transfer:
  assumes "does t0 m s w x s' w'"
  shows "rdoes t0 (on_transfer m) s w q fs x s' w' q fs"
  unfolding rdoes_def
proof (intro allI impI)
  fix r assume r: "receiver_at t0 s w q fs r"
  then obtain t' where "m (zr_transfer r) = (Ok x, t')" "engine_at t0 s' w' t'"
    using assms unfolding does_def receiver_at_def by blast
  then show "\<exists>r'. on_transfer m r = (Ok x, r') \<and> receiver_at t0 s' w' q fs r'"
    using r by (auto simp: on_transfer_def receiver_at_def)
qed

lemma rdoes_file:
  assumes "g f = (Ok (), f')"
  shows "rdoes t0 (on_file g) s w q (fs @ [f]) () s w q (fs @ [f'])"
  using assms by (auto simp: rdoes_def on_file_def receiver_at_def)

text \<open>
  What is asked of the writers of local files: as long as the file is open, writes succeed and append,
  finishing and committing succeed, and none of these changes its name or what it is.
\<close>

definition same_file :: "'w trzsz_file_writer \<Rightarrow> 'w \<Rightarrow> 'w \<Rightarrow> bool" where
  "same_file fw f f' \<longleftrightarrow> fw_local_name fw f' = fw_local_name fw f \<and> fw_is_dir fw f' = fw_is_dir fw f"

definition writer_ok :: "'w trzsz_file_writer \<Rightarrow> ('w \<Rightarrow> bytes) \<Rightarrow> bool" where
  "writer_ok fw contents \<longleftrightarrow>
     (\<forall>f d. \<not> fw_is_dir fw f \<longrightarrow> (\<exists>f'. fw_write_file fw d f = (Ok (), f') \<and> contents f' = contents f @ d \<and> same_file fw f f'))
     \<and> (\<forall>f. contents (fw_close_file fw f) = contents f \<and> same_file fw f (fw_close_file fw f))
     \<and> (\<forall>f. \<not> fw_is_dir fw f \<longrightarrow> (\<exists>f'. fw_finish_file fw f = (Ok (), f') \<and> contents f' = contents f \<and> same_file fw f f'))
     \<and> (\<forall>f. \<exists>f'. fw_commit_file fw f = (Ok (), f') \<and> contents f' = contents f \<and> same_file fw f f')"

lemma rdoes_recv_file_loop:
  assumes "plain_engine t0" and "codec_ok zc" and "binary \<longrightarrow> escape_codes_ok codes" and "writer_ok fw contents"
    and "list_all (\<lambda>d. d \<noteq> [] \<and> 2 * length d < 2 ^ 64) ds" and "step + length (concat ds) = len" and "\<not> fw_is_dir fw f"
  shows "\<exists>f'. contents f' = contents f @ concat ds \<and> same_file fw f f'
    \<and> (\<forall>s w. rdoes t0 (recv_file_loop zc fw len binary codes step ctx)
        (concat (map (data_message zc binary codes) ds) @ s) w q (fs @ [f]) (zc_md5 zc (ctx @ concat ds)) s
        (w @ concat (map ack_line ds)) q (fs @ [f']))"
  using assms(5,6,7)
proof (induction ds arbitrary: step ctx f)
  case Nil
  then have "rdoes t0 (recv_file_loop zc fw len binary codes step ctx) s w q (fs @ [f]) (zc_md5 zc ctx) s w q (fs @ [f])" for s w
    by (auto simp: rdoes_def recv_file_loop.simps [of zc fw len])
  then show ?case by (intro exI [of _ f]) (simp add: same_file_def)
next
  case (Cons d ds)
  obtain f1 where f1: "fw_write_file fw d f = (Ok (), f1)" "contents f1 = contents f @ d" "same_file fw f f1"
    using assms(4) Cons.prems(3) unfolding writer_ok_def by blast
  have dir1: "\<not> fw_is_dir fw f1" using f1(3) Cons.prems(3) by (simp add: same_file_def)
  obtain f' where f': "contents f' = contents f1 @ concat ds" "same_file fw f1 f'"
    and rest: "\<And>s w. rdoes t0 (recv_file_loop zc fw len binary codes (step + length d) (ctx @ d))
        (concat (map (data_message zc binary codes) ds) @ s) w q (fs @ [f1]) (zc_md5 zc ((ctx @ d) @ concat ds)) s
        (w @ concat (map ack_line ds)) q (fs @ [f'])"
    using Cons.IH [of "step + length d" f1 "ctx @ d"] Cons.prems(1,2) dir1 by auto
  have "rdoes t0 (recv_file_loop zc fw len binary codes step ctx)
      (data_message zc binary codes d @ concat (map (data_message zc binary codes) ds) @ s) w q (fs @ [f])
      (zc_md5 zc (ctx @ d @ concat ds)) s ((w @ ack_line d) @ concat (map ack_line ds)) q (fs @ [f'])" for s w
  proof -
    let ?s = "concat (map (data_message zc binary codes) ds) @ s"
    have recv: "rdoes t0 (on_transfer (recv_data zc binary codes)) (data_message zc binary codes d @ ?s) w q (fs @ [f]) d ?s w q (fs @ [f])"
      using Cons.prems(1) by (intro rdoes_transfer does_recv_data assms(1,2,3)) simp
    have put: "rdoes t0 (on_file (fw_write_file fw d)) ?s w q (fs @ [f]) () ?s w q (fs @ [f1])" by (rule rdoes_file, rule f1(1))
    have ack: "rdoes t0 (on_transfer (send_integer (str_lit ''SUCC'') (length d))) ?s w q (fs @ [f1]) () ?s (w @ ack_line d) q (fs @ [f1])"
      unfolding ack_line_def by (intro rdoes_transfer does_send_integer assms(1))
    have more: "step < len" using Cons.prems(1,2) by (cases d) simp_all
    show ?thesis
      unfolding rdoes_def
    proof (intro allI impI)
      fix r assume "receiver_at t0 (data_message zc binary codes d @ ?s) w q (fs @ [f]) r"
      then obtain r1 where r1: "on_transfer (recv_data zc binary codes) r = (Ok d, r1)" "receiver_at t0 ?s w q (fs @ [f]) r1"
        using recv unfolding rdoes_def by blast
      then obtain r2 where r2: "on_file (fw_write_file fw d) r1 = (Ok (), r2)" "receiver_at t0 ?s w q (fs @ [f1]) r2"
        using put unfolding rdoes_def by blast
      then obtain r3 where r3: "on_transfer (send_integer (str_lit ''SUCC'') (length d)) r2 = (Ok (), r3)"
          "receiver_at t0 ?s (w @ ack_line d) q (fs @ [f1]) r3"
        using ack unfolding rdoes_def by blast
      obtain r4 where "recv_file_loop zc fw len binary codes (step + length d) (ctx @ d) r3 = (Ok (zc_md5 zc ((ctx @ d) @ concat ds)), r4)"
          "receiver_at t0 s ((w @ ack_line d) @ concat (map ack_line ds)) q (fs @ [f']) r4"
        using rest [of s "w @ ack_line d"] r3(2) unfolding rdoes_def by blast
      then show "\<exists>r'. recv_file_loop zc fw len binary codes step ctx r = (Ok (zc_md5 zc (ctx @ d @ concat ds)), r')
          \<and> receiver_at t0 s ((w @ ack_line d) @ concat (map ack_line ds)) q (fs @ [f']) r'"
        using more r1(1) r2(1) r3(1) by (subst recv_file_loop.simps) simp
    qed
  qed
  then show ?case using f1(2,3) f' by (intro exI [of _ f']) (simp add: same_file_def)
qed


definition file_messages :: "trzsz_codec \<Rightarrow> bool \<Rightarrow> escape_code list \<Rightarrow> bytes list \<Rightarrow> bytes" where
  "file_messages zc binary codes ds =
     protocol_line (str_lit ''SIZE'') (u64_to_string (length (concat ds))) @ concat (map (data_message zc binary codes) ds)
     @ protocol_line (str_lit ''MD5'') (encoded zc (zc_md5 zc (concat ds)))"

definition file_acks :: "trzsz_codec \<Rightarrow> bytes list \<Rightarrow> bytes" where
  "file_acks zc ds =
     protocol_line (str_lit ''SUCC'') (u64_to_string (length (concat ds))) @ concat (map ack_line ds)
     @ protocol_line (str_lit ''SUCC'') (encoded zc (zc_md5 zc (concat ds)))"

lemma rdoes_recv_file_content:
  assumes "plain_engine t0" and "codec_ok zc" and "binary \<longrightarrow> escape_codes_ok codes" and "writer_ok fw contents"
    and "list_all (\<lambda>d. d \<noteq> [] \<and> 2 * length d < 2 ^ 64) ds" and "length (concat ds) < 2 ^ 64" and "\<not> fw_is_dir fw f"
  shows "\<exists>f'. contents f' = contents f @ concat ds \<and> same_file fw f f'
    \<and> (\<forall>s w. rdoes t0 (recv_file_content zc fw binary codes) (file_messages zc binary codes ds @ s) w q (fs @ [f]) () s
        (w @ file_acks zc ds) q (fs @ [f']))"
proof -
  let ?len = "length (concat ds)"
  let ?digest = "zc_md5 zc (concat ds)"
  obtain f1 where f1: "contents f1 = contents f @ concat ds" "same_file fw f f1"
    and data: "\<And>s w. rdoes t0 (recv_file_loop zc fw ?len binary codes 0 [])
        (concat (map (data_message zc binary codes) ds) @ s) w q (fs @ [f]) (zc_md5 zc ([] @ concat ds)) s
        (w @ concat (map ack_line ds)) q (fs @ [f1])"
    using rdoes_recv_file_loop [OF assms(1-5), where step = 0 and len = ?len and f = f and ctx = "[]" and q = q and fs = fs] assms(7) by auto
  define f2 where "f2 = fw_close_file fw f1"
  have f2: "contents f2 = contents f1" "same_file fw f1 f2" using assms(4) unfolding writer_ok_def f2_def by blast+
  then have "\<not> fw_is_dir fw f2" using f1(2) assms(7) by (simp add: same_file_def)
  then obtain f3 where f3: "fw_finish_file fw f2 = (Ok (), f3)" "contents f3 = contents f2" "same_file fw f2 f3"
    using assms(4) unfolding writer_ok_def by blast
  have "rdoes t0 (recv_file_content zc fw binary codes) (file_messages zc binary codes ds @ s) w q (fs @ [f]) () s
      (w @ file_acks zc ds) q (fs @ [f3])" for s w
  proof -
    let ?s1 = "concat (map (data_message zc binary codes) ds) @ protocol_line (str_lit ''MD5'') (encoded zc ?digest) @ s"
    let ?w1 = "w @ protocol_line (str_lit ''SUCC'') (u64_to_string ?len)"
    let ?w2 = "?w1 @ concat (map ack_line ds)"
    have "does t0 (recv_file_size zc) (protocol_line (str_lit ''SIZE'') (u64_to_string ?len) @ ?s1) w ?len ?s1 ?w1"
      unfolding recv_file_size_def
      by (rule does_bind [OF does_recv_integer [OF assms(1) _ assms(6)] does_bind [OF does_send_integer [OF assms(1)] does_return]]) simp
    then have size: "rdoes t0 (on_transfer (recv_file_size zc)) (file_messages zc binary codes ds @ s) w q (fs @ [f]) ?len ?s1 ?w1 q (fs @ [f])"
      unfolding file_messages_def append_assoc by (rule rdoes_transfer)
    have content: "rdoes t0 (recv_file_data zc fw ?len binary codes) ?s1 ?w1 q (fs @ [f]) ?digest
        (protocol_line (str_lit ''MD5'') (encoded zc ?digest) @ s) ?w2 q (fs @ [f1])"
      using data [of "protocol_line (str_lit ''MD5'') (encoded zc ?digest) @ s" ?w1] by (simp add: recv_file_data_def)
    have "does t0 (recv_file_md5 zc ?digest) (protocol_line (str_lit ''MD5'') (encoded zc ?digest) @ s) ?w2 () s
        (?w2 @ protocol_line (str_lit ''SUCC'') (encoded zc ?digest))"
      unfolding recv_file_md5_def
      by (rule does_bind [OF does_recv_binary [OF assms(1,2)]]) (use does_send_encoded(2) [OF assms(1,2), of "str_lit ''SUCC''" ?digest s ?w2] in simp_all)
    then have digest: "rdoes t0 (on_transfer (recv_file_md5 zc ?digest)) (protocol_line (str_lit ''MD5'') (encoded zc ?digest) @ s) ?w2 q (fs @ [f2])
        () s (w @ file_acks zc ds) q (fs @ [f2])"
      by (intro rdoes_transfer) (simp add: file_acks_def)
    have ending: "rdoes t0 (io_bind (on_file (\<lambda>file. (Ok (), fw_close_file fw file))) (\<lambda>_.
          io_bind (on_transfer (recv_file_md5 zc ?digest)) (\<lambda>_. on_file (fw_finish_file fw))))
        (protocol_line (str_lit ''MD5'') (encoded zc ?digest) @ s) ?w2 q (fs @ [f1]) () s (w @ file_acks zc ds) q (fs @ [f3])"
      by (rule rdoes_bind [OF rdoes_file rdoes_bind [OF digest rdoes_file]]) (simp_all add: f2_def [symmetric] f3(1))
    show ?thesis
      unfolding recv_file_content_def
    proof (rule rdoes_bind [OF size])
      show "rdoes t0 (\<lambda>r. case recv_file_data zc fw ?len binary codes r of
            (Inr digest, r1) \<Rightarrow>
              io_bind (on_file (\<lambda>file. (Ok (), fw_close_file fw file))) (\<lambda>_.
              io_bind (on_transfer (recv_file_md5 zc digest)) (\<lambda>_. on_file (fw_finish_file fw))) r1
          | (Inl (Failed e), r1) \<Rightarrow> (Err (Failed e), snd (on_file (fw_abort_file fw) r1))
          | (Inl e, r1) \<Rightarrow> (Err e, r1)) ?s1 ?w1 q (fs @ [f]) () s (w @ file_acks zc ds) q (fs @ [f3])"
        using content ending unfolding rdoes_def by fastforce
    qed
  qed
  then show ?thesis using f1 f2 f3 by (intro exI [of _ f3]) (simp add: same_file_def)
qed

subsection \<open>All files\<close>

text \<open>The name that is sent for a file, and that the receiver's side opens every file that is announced.\<close>

definition sent_name :: "trzsz_codec \<Rightarrow> 'r trzsz_file_reader \<Rightarrow> bool \<Rightarrow> 'r \<Rightarrow> bytes" where
  "sent_name zc fr directory f =
     (if directory then zc_entry_json zc (fr_path_id fr f) (fr_rel_path fr f) (fr_is_dir fr f) else last (fr_rel_path fr f))"

definition sendable :: "trzsz_codec \<Rightarrow> 'r trzsz_file_reader \<Rightarrow> ('r \<Rightarrow> bytes) \<Rightarrow> bool \<Rightarrow> 'r \<Rightarrow> bool" where
  "sendable zc fr content directory f \<longleftrightarrow>
     fr_rel_path fr f \<noteq> [] \<and> utf8_valid (sent_name zc fr directory f)
     \<and> (\<not> fr_is_dir fr f \<longrightarrow> fr_size fr f = length (content f) \<and> 2 * length (content f) < 2 ^ 64)"

fun opens_all :: "'w trzsz_file_writer \<Rightarrow> ('w \<Rightarrow> bytes) \<Rightarrow> ('q, 'w) save_file_opener \<Rightarrow> trzsz_save_param \<Rightarrow> bool \<Rightarrow> 'q
    \<Rightarrow> (bytes \<times> bool) list \<Rightarrow> bool" where
  "opens_all fw contents open_save_file save_param directory q [] \<longleftrightarrow> True"
| "opens_all fw contents open_save_file save_param directory q ((name, is_dir) # entries) \<longleftrightarrow>
     (case open_save_file save_param name directory False q of
        (Inr f, q') \<Rightarrow> fw_is_dir fw f = is_dir \<and> contents f = [] \<and> utf8_valid (fw_local_name fw f)
          \<and> opens_all fw contents open_save_file save_param directory q' entries
      | (Inl e, q') \<Rightarrow> False)"

definition delivered :: "'r trzsz_file_reader \<Rightarrow> ('r \<Rightarrow> bytes) \<Rightarrow> 'w trzsz_file_writer \<Rightarrow> ('w \<Rightarrow> bytes) \<Rightarrow> 'r \<Rightarrow> 'w \<Rightarrow> bool" where
  "delivered fr content fw contents f g \<longleftrightarrow>
     fw_is_dir fw g = fr_is_dir fr f \<and> (\<not> fr_is_dir fr f \<longrightarrow> contents g = content f)"


lemma chunks_small:
  assumes "concat ds = c" and "2 * length c < (2 :: nat) ^ 64" and "list_all (\<lambda>d. d \<noteq> []) ds"
  shows "list_all (\<lambda>d. d \<noteq> [] \<and> 2 * length d < (2 :: nat) ^ 64) ds"
proof -
  have "length d \<le> length c" if "d \<in> set ds" for d
    using that assms(1) by (auto simp: length_concat member_le_sum_list)
  then show ?thesis using assms(2,3) by (auto simp: list_all_iff) (meson le_less_trans mult_le_mono2)
qed

lemma does_send_file_name:
  assumes "plain_engine t0" and "codec_ok zc" and "sendable zc fr content directory f" and "utf8_valid name"
  shows "does t0 (send_file_name zc fr f directory) (protocol_line (str_lit ''SUCC'') (encoded zc name) @ s) w name s
    (w @ protocol_line (str_lit ''NAME'') (encoded zc (sent_name zc fr directory f)))"
proof -
  have "does t0 (io_bind (send_string zc (str_lit ''NAME'') (sent_name zc fr directory f)) (\<lambda>_. recv_string zc (str_lit ''SUCC'') False))
      (protocol_line (str_lit ''SUCC'') (encoded zc name) @ s) w name s (w @ protocol_line (str_lit ''NAME'') (encoded zc (sent_name zc fr directory f)))"
    by (rule does_bind [OF does_send_encoded(1) [OF assms(1,2)] does_recv_string [OF assms(1,2) _ assms(4)]]) simp
  then show ?thesis using assms(3) by (simp add: send_file_name_def sendable_def sent_name_def)
qed

lemma rdoes_recv_file_name:
  assumes "plain_engine t0" and "codec_ok zc" and "utf8_valid name"
    and "open_save_file save_param name directory False q = (Ok g, q')"
  shows "rdoes t0 (recv_file_name zc fw open_save_file save_param directory False)
    (protocol_line (str_lit ''NAME'') (encoded zc name) @ s) w q fs () s
    (w @ protocol_line (str_lit ''SUCC'') (encoded zc (fw_local_name fw g))) q' (fs @ [g])"
  unfolding recv_file_name_def
proof (rule rdoes_bind [OF rdoes_transfer [OF does_recv_string [OF assms(1,2) _ assms(3)]]])
  have send: "rdoes t0 (on_transfer (send_string zc (str_lit ''SUCC'') (fw_local_name fw g))) s w q' (fs @ [g]) () s
      (w @ protocol_line (str_lit ''SUCC'') (encoded zc (fw_local_name fw g))) q' (fs @ [g])"
    by (rule rdoes_transfer [OF does_send_encoded(1) [OF assms(1,2)]])
  have "receiver_at t0 s w q' (fs @ [g]) (r\<lparr>zr_opener := q', zr_files := fs @ [g]\<rparr>)" if "receiver_at t0 s w q fs r" for r
    using that by (simp add: receiver_at_def)
  then show "rdoes t0 (\<lambda>r. case open_save_file save_param name directory False (zr_opener r) of
        (Inl e, opener) \<Rightarrow> (Err (Failed e), r\<lparr>zr_opener := opener\<rparr>)
      | (Inr file, opener) \<Rightarrow>
          on_transfer (send_string zc (str_lit ''SUCC'') (fw_local_name fw file))
            (r\<lparr>zr_opener := opener, zr_files := zr_files r @ [file]\<rparr>)) s w q fs () s
      (w @ protocol_line (str_lit ''SUCC'') (encoded zc (fw_local_name fw g))) q' (fs @ [g])"
    using send assms(4) by (simp add: rdoes_def receiver_at_def)
qed simp

lemma session_files:
  assumes "plain_engine ts" and "plain_engine tr" and "codec_ok zc" and "reader_ok fr content" and "writer_ok fw contents"
    and "binary \<longrightarrow> escape_codes_ok codes"
    and "list_all (sendable zc fr content directory) files"
    and "opens_all fw contents open_save_file save_param directory q (map (\<lambda>f. (sent_name zc fr directory f, fr_is_dir fr f)) files)"
  shows "\<exists>S R names' sent' gs q'. list_all2 (delivered fr content fw contents) files gs
    \<and> (\<forall>s w. does ts (send_each_file zc fr binary directory codes mx tm sent names files) (R @ s) w (names', sent') s (w @ S))
    \<and> (\<forall>s w. rdoes tr (recv_each_file zc fw open_save_file save_param binary directory codes names (length files))
          (S @ s) w q fs names' s (w @ R) q' (fs @ gs))"
  using assms(7,8)
proof (induction files arbitrary: sent names q fs)
  case Nil
  show ?case
    by (rule exI [of _ "[]"], rule exI [of _ "[]"], rule exI [of _ names], rule exI [of _ sent], rule exI [of _ "[]"], rule exI [of _ q])
      (simp add: does_def rdoes_def)
next
  case (Cons f files)
  obtain g q1 where g: "open_save_file save_param (sent_name zc fr directory f) directory False q = (Ok g, q1)"
    "fw_is_dir fw g = fr_is_dir fr f" "contents g = []" "utf8_valid (fw_local_name fw g)"
    "opens_all fw contents open_save_file save_param directory q1 (map (\<lambda>f. (sent_name zc fr directory f, fr_is_dir fr f)) files)"
    using Cons.prems(2) by (auto split: prod.splits sum.splits)
  have ok: "sendable zc fr content directory f" "list_all (sendable zc fr content directory) files" using Cons.prems(1) by simp_all
  then have name: "utf8_valid (sent_name zc fr directory f)" by (simp add: sendable_def)
  define ack where "ack = protocol_line (str_lit ''SUCC'') (encoded zc (fw_local_name fw g))"
  define msg where "msg = protocol_line (str_lit ''NAME'') (encoded zc (sent_name zc fr directory f))"
  define names1 where "names1 = (if fw_local_name fw g \<in> set names then names else names @ [fw_local_name fw g])"
  have send_name: "does ts (send_file_name zc fr f directory) (ack @ s) w (fw_local_name fw g) s (w @ msg)" for s w
    unfolding ack_def msg_def by (rule does_send_file_name [OF assms(1,3) ok(1) g(4)])
  have recv_name: "rdoes tr (recv_file_name zc fw open_save_file save_param directory False) (msg @ s) w q fs () s (w @ ack) q1 (fs @ [g])" for s w
    unfolding ack_def msg_def by (rule rdoes_recv_file_name [OF assms(2,3) name]) (rule g(1))
  show ?case
  proof (cases "fr_is_dir fr f")
    case True
    obtain S R names' sent' gs q' where IH: "list_all2 (delivered fr content fw contents) files gs"
      "\<And>s w. does ts (send_each_file zc fr binary directory codes mx tm (sent @ [f]) names1 files) (R @ s) w (names', sent') s (w @ S)"
      "\<And>s w. rdoes tr (recv_each_file zc fw open_save_file save_param binary directory codes names1 (length files))
          (S @ s) w q1 (fs @ [g]) names' s (w @ R) q' ((fs @ [g]) @ gs)"
      using Cons.IH [OF ok(2) g(5), of "sent @ [f]" names1 "fs @ [g]"] by blast
    have "does ts (send_each_file zc fr binary directory codes mx tm sent names (f # files)) (ack @ R @ s) w (names', sent') s ((w @ msg) @ S)" for s w
      unfolding send_each_file.simps
      by (rule does_bind [OF send_name]) (use IH(2) [of s "w @ msg"] True in \<open>simp add: Let_def names1_def\<close>)
    moreover have "rdoes tr (recv_each_file zc fw open_save_file save_param binary directory codes names (Suc (length files)))
        (msg @ S @ s) w q fs names' s ((w @ ack) @ R) q' ((fs @ [g]) @ gs)" for s w
      unfolding recv_each_file.simps
      by (rule rdoes_bind [OF recv_name])
        (use IH(3) [of s "w @ ack"] True g(2) in \<open>simp add: rdoes_def receiver_at_def Let_def names1_def split del: if_split cong: if_cong\<close>)
    moreover have "delivered fr content fw contents f g" using True g(2) by (simp add: delivered_def)
    ultimately show ?thesis
      using IH(1)
      by (intro exI [of _ "msg @ S"] exI [of _ "ack @ R"] exI [of _ names'] exI [of _ sent'] exI [of _ "g # gs"] exI [of _ q']) simp
  next
    case False
    then have size: "fr_size fr f = length (content f)" "2 * length (content f) < 2 ^ 64" using ok(1) by (auto simp: sendable_def)
    then have small: "length (content f) < 2 ^ 64" by linarith
    obtain ds f' where ds: "concat ds = content f" "list_all (\<lambda>d. d \<noteq> []) ds"
      and send_data: "\<And>s w. does ts (send_file_data zc fr f (length (content f)) binary codes mx (tm (length sent)))
        (concat (map ack_line ds) @ s) w (zc_md5 zc (content f), f') s (w @ concat (map (data_message zc binary codes) ds))"
      using does_send_file_content [OF assms(1,3,4) small] by blast
    obtain g' where g': "contents g' = contents g @ concat ds" "same_file fw g g'"
      and recv_data: "\<And>s w. rdoes tr (recv_file_content zc fw binary codes) (file_messages zc binary codes ds @ s) w q1 (fs @ [g]) () s
        (w @ file_acks zc ds) q1 (fs @ [g'])"
      using rdoes_recv_file_content [OF assms(2,3,6,5) chunks_small [OF ds(1) size(2) ds(2)], where f = g and q = q1 and fs = fs] small ds(1) g(2) False by auto
    obtain S R names' sent' gs q' where IH: "list_all2 (delivered fr content fw contents) files gs"
      "\<And>s w. does ts (send_each_file zc fr binary directory codes mx tm (sent @ [fr_close_file fr f']) names1 files) (R @ s) w (names', sent') s (w @ S)"
      "\<And>s w. rdoes tr (recv_each_file zc fw open_save_file save_param binary directory codes names1 (length files))
          (S @ s) w q1 (fs @ [g']) names' s (w @ R) q' ((fs @ [g']) @ gs)"
      using Cons.IH [OF ok(2) g(5), of "sent @ [fr_close_file fr f']" names1 "fs @ [g']"] by blast
    have "does ts (send_each_file zc fr binary directory codes mx tm sent names (f # files)) (ack @ file_acks zc ds @ R @ s) w (names', sent') s
        (((w @ msg) @ file_messages zc binary codes ds) @ S)" for s w
    proof -
      let ?d = "zc_md5 zc (content f)"
      let ?w1 = "(w @ msg) @ protocol_line (str_lit ''SIZE'') (u64_to_string (length (content f)))"
      let ?w2 = "?w1 @ concat (map (data_message zc binary codes) ds)"
      let ?s2 = "protocol_line (str_lit ''SUCC'') (encoded zc ?d) @ R @ s"
      have s1: "does ts (send_file_size zc (length (content f))) (file_acks zc ds @ R @ s) (w @ msg) () (concat (map ack_line ds) @ ?s2) ?w1"
        unfolding send_file_size_def file_acks_def ds(1) append_assoc
        by (rule does_bind [OF does_send_integer [OF assms(1)]]) (simp add: does_check_integer [OF assms(1) small])
      have s3: "does ts (send_file_md5 zc ?d) ?s2 ?w2 () (R @ s) ((w @ msg) @ file_messages zc binary codes ds)"
        unfolding send_file_md5_def file_messages_def ds(1) append_assoc
        by (rule does_bind [OF does_send_encoded(2) [OF assms(1,3)]]) (simp add: does_check_binary [OF assms(1,3)])
      have "does ts (io_bind (send_file_size zc (length (content f))) (\<lambda>_.
          io_bind (send_file_data zc fr f (length (content f)) binary codes mx (tm (length sent))) (\<lambda>(digest, file1).
          io_bind (send_file_md5 zc digest) (\<lambda>_.
            send_each_file zc fr binary directory codes mx tm (sent @ [fr_close_file fr file1]) names1 files))))
          (file_acks zc ds @ R @ s) (w @ msg) (names', sent') s (((w @ msg) @ file_messages zc binary codes ds) @ S)"
        by (rule does_bind [OF s1], rule does_bind [OF send_data], simp only: prod.case, rule does_bind [OF s3], rule IH(2))
      then show ?thesis
        unfolding send_each_file.simps
        by (intro does_bind [OF send_name]) (use False in \<open>simp add: Let_def names1_def size(1) split del: if_split\<close>)
    qed
    moreover have "rdoes tr (recv_each_file zc fw open_save_file save_param binary directory codes names (Suc (length files)))
        (msg @ file_messages zc binary codes ds @ S @ s) w q fs names' s (((w @ ack) @ file_acks zc ds) @ R) q' ((fs @ [g']) @ gs)" for s w
    proof -
      have "rdoes tr (io_bind (recv_file_content zc fw binary codes) (\<lambda>_.
            recv_each_file zc fw open_save_file save_param binary directory codes names1 (length files)))
          (file_messages zc binary codes ds @ S @ s) (w @ ack) q1 (fs @ [g]) names' s (((w @ ack) @ file_acks zc ds) @ R) q' ((fs @ [g']) @ gs)"
        by (rule rdoes_bind [OF recv_data IH(3)])
      then show ?thesis
        unfolding recv_each_file.simps
        by (intro rdoes_bind [OF recv_name]) (use False g(2) in \<open>simp add: rdoes_def receiver_at_def Let_def names1_def split del: if_split cong: if_cong\<close>)
    qed
    moreover have "delivered fr content fw contents f g'"
      using False g(2,3) g' ds(1) by (simp add: delivered_def same_file_def)
    ultimately show ?thesis
      using IH(1)
      by (intro exI [of _ "msg @ file_messages zc binary codes ds @ S"] exI [of _ "ack @ file_acks zc ds @ R"]
          exI [of _ names'] exI [of _ sent'] exI [of _ "g' # gs"] exI [of _ q']) simp
  qed
qed


lemma commit_files_ok:
  assumes "writer_ok fw contents" and "list_all2 (delivered fr content fw contents) files gs"
  shows "\<exists>gs'. commit_files fw gs = (Ok (), gs') \<and> list_all2 (delivered fr content fw contents) files gs'"
  using assms(2)
proof (induction rule: list_all2_induct)
  case (Cons f files g gs)
  obtain g' where "fw_commit_file fw g = (Ok (), g')" "contents g' = contents g" "same_file fw g g'"
    using assms(1) unfolding writer_ok_def by blast
  then show ?case using Cons by (auto simp: delivered_def same_file_def)
qed simp



subsection \<open>Examples\<close>

text \<open>A codec that writes each byte as two letters, a reader and a writer in memory.\<close>

fun example_decode :: "bytes \<Rightarrow> bytes + bytes" where
  "example_decode [] = Ok []"
| "example_decode [b] = Err []"
| "example_decode (a # b # bs) = (case example_decode bs of Inl e \<Rightarrow> Err e | Inr d \<Rightarrow> Ok (((a - 65) * 16 + (b - 65)) # d))"

definition example_codec :: trzsz_codec where
  "example_codec =
     \<lparr>zc_compress = Some, zc_decompress = Some,
      zc_base64_encode = \<lambda>d. concat (map (\<lambda>b. [65 + b div 16, 65 + b mod 16]) d), zc_base64_decode = example_decode,
      zc_md5 = \<lambda>d. [word_of_nat (length d)], zc_entry_json = \<lambda>i p d. concat p, zc_action_json = \<lambda>c w. [],
      zc_parse_config = \<lambda>d. Ok trzsz_config_empty, zc_utf8_error = \<lambda>d. [], zc_int_error = \<lambda>d. []\<rparr>"

lemma example_byte: "((65 + b div 16 - 65) * 16 + (65 + b mod 16 - 65) :: u8) = b
  \<and> base64_char (65 + b div 16) \<and> base64_char (65 + b mod 16)"
  by (rule u8_allI [where b = b]) code_simp

lemma example_codec_ok: "codec_ok example_codec"
proof -
  have "example_decode (concat (map (\<lambda>b. [65 + b div 16, 65 + b mod 16]) d)) = Ok d" for d
    by (induction d) (use example_byte in \<open>simp_all\<close>)
  moreover have "list_all base64_char (concat (map (\<lambda>b. [65 + b div 16, 65 + b mod 16]) d))" for d
    by (induction d) (use example_byte in \<open>simp_all\<close>)
  ultimately show ?thesis by (simp add: codec_ok_def example_codec_def)
qed

definition memory_reader :: "bytes trzsz_file_reader" where
  "memory_reader =
     \<lparr>fr_close_file = id, fr_path_id = \<lambda>f. 1, fr_rel_path = \<lambda>f. [[97]], fr_is_dir = \<lambda>f. False, fr_size = length,
      fr_read_file = \<lambda>n f. (Ok (take n f), drop n f)\<rparr>"

definition memory_writer :: "bytes trzsz_file_writer" where
  "memory_writer =
     \<lparr>fw_close_file = id, fw_local_name = \<lambda>f. [98], fw_is_dir = \<lambda>f. False, fw_write_file = \<lambda>d f. (Ok (), f @ d),
      fw_commit_file = \<lambda>f. (Ok (), f), fw_finish_file = \<lambda>f. (Ok (), f), fw_abort_file = \<lambda>f. (Ok (), [])\<rparr>"

lemma memory_files: "reader_ok memory_reader id" "writer_ok memory_writer id"
  by (auto simp: reader_ok_def memory_reader_def writer_ok_def memory_writer_def same_file_def)


text \<open>
  A line that starts with a byte which is not ASCII, as unrelated output can, makes the engine slice the line inside its first
  character.
\<close>

lemma garbage_line_panics:
  "fst (recv_check (str_lit ''SUCC'') False (add_received_data [0xFF, 58, 10] (transfer_new False 1024))) = Err Panicked"
  by code_simp

end
