(* ===== verification/Trzsz_Filter.thy ===== *)
theory Trzsz_Filter
  imports Trzsz_Transfer "HOL-Library.AList"
begin

text \<open>
  The recognition of trzsz transfers in terminal output (\<^verbatim>\<open>hapcli-trzsz/src/filter.rs\<close>, \<^verbatim>\<open>types.rs\<close>): the filter
  passes output on and remembers its end, so that a key which announces a transfer is found across
  chunks; the announced transfer is started when the filter is drained. The regular expression of the source
  is a parser over characters; which characters outside ASCII are digits is an argument.
\<close>

subsection \<open>The source's operations: handshakes\<close>

datatype trzsz_handshake_mode = HandshakeSend | HandshakeReceive | HandshakeDirectory

definition from_protocol_char :: "bytes \<Rightarrow> trzsz_handshake_mode option" where
  "from_protocol_char c =
     (if c = [83] then Some HandshakeSend
      else if c = [82] then Some HandshakeReceive
      else if c = [68] then Some HandshakeDirectory
      else None)"

datatype trzsz_transfer_direction = TrzszUpload | TrzszDownload

datatype trzsz_transfer_selection = SelectFile | SelectDirectory

record trzsz_handshake =
  hs_mode :: trzsz_handshake_mode
  hs_version :: bytes
  hs_unique_id :: bytes
  hs_remote_is_windows :: bool
  hs_direction :: trzsz_transfer_direction
  hs_selection :: trzsz_transfer_selection

definition bytes_end_with :: "bytes \<Rightarrow> bytes \<Rightarrow> bool" where
  "bytes_end_with s e \<longleftrightarrow> suffix e s"

definition handshake_from_parts :: "trzsz_handshake_mode \<Rightarrow> bytes \<Rightarrow> bytes \<Rightarrow> bool \<Rightarrow> trzsz_handshake" where
  "handshake_from_parts mode version unique_id is_windows_shell =
     \<lparr>hs_mode = mode, hs_version = version, hs_unique_id = unique_id,
      hs_remote_is_windows =
        (unique_id = str_lit '':1'' \<or> (length unique_id = 14 \<and> bytes_end_with unique_id (str_lit ''10''))) \<or> is_windows_shell,
      hs_direction = (if mode = HandshakeSend then TrzszDownload else TrzszUpload),
      hs_selection = (if mode = HandshakeDirectory then SelectDirectory else SelectFile)\<rparr>"

record trzsz_policy =
  tp_allow_directory :: bool
  tp_max_chunk_bytes :: nat
  tp_max_file_count :: nat
  tp_max_total_bytes :: nat

definition TRZSZ_MAGIC_KEY_PREFIX :: bytes where
  "TRZSZ_MAGIC_KEY_PREFIX = str_lit ''::TRZSZ:TRANSFER:''"

definition MAGIC_DETECT_BUFFER_BYTES :: nat where
  "MAGIC_DETECT_BUFFER_BYTES = 128"

definition find_trzsz_magic_key_bytes :: "bytes \<Rightarrow> bytes option" where
  "find_trzsz_magic_key_bytes output =
     (if length output < length TRZSZ_MAGIC_KEY_PREFIX then None
      else map_option (\<lambda>index. from_utf8_lossy (drop index output)) (rfind_sub TRZSZ_MAGIC_KEY_PREFIX output))"

text \<open>The regular expression \<^verbatim>\<open>::TRZSZ:TRANSFER:([SRD]):(\d+\.\d+\.\d+)(:\d+)?(?::\d+)?\<close> on the characters of a string.\<close>

definition regex_digit :: "(bytes \<Rightarrow> bool) \<Rightarrow> bytes \<Rightarrow> bool" where
  "regex_digit unicode_digit c \<longleftrightarrow> (case c of [b] \<Rightarrow> is_digit b | _ \<Rightarrow> unicode_digit c)"

definition match_digits :: "(bytes \<Rightarrow> bool) \<Rightarrow> bytes list \<Rightarrow> (bytes list \<times> bytes list) option" where
  "match_digits ud cs =
     (let ds = takeWhile (regex_digit ud) cs in
      if ds = [] then None else Some (ds, dropWhile (regex_digit ud) cs))"

definition match_after :: "bytes \<Rightarrow> (bytes \<Rightarrow> bool) \<Rightarrow> bytes list \<Rightarrow> (bytes list \<times> bytes list) option" where
  "match_after c ud cs =
     (case cs of
        x # rest \<Rightarrow> if x = c then map_option (\<lambda>(ds, r). (x # ds, r)) (match_digits ud rest) else None
      | [] \<Rightarrow> None)"

definition match_version :: "(bytes \<Rightarrow> bool) \<Rightarrow> bytes list \<Rightarrow> (bytes list \<times> bytes list) option" where
  "match_version ud cs =
     (case match_digits ud cs of
        None \<Rightarrow> None
      | Some (a, r1) \<Rightarrow>
          (case match_after [46] ud r1 of
             None \<Rightarrow> None
           | Some (b, r2) \<Rightarrow> map_option (\<lambda>(c, r3). (a @ b @ c, r3)) (match_after [46] ud r2)))"

definition magic_chars :: "bytes list" where
  "magic_chars = map (\<lambda>b. [b]) TRZSZ_MAGIC_KEY_PREFIX"

definition match_handshake :: "(bytes \<Rightarrow> bool) \<Rightarrow> bytes list \<Rightarrow> (bytes \<times> bytes \<times> bytes \<times> bytes list) option" where
  "match_handshake ud cs =
     (if prefix magic_chars cs then
        (case drop (length magic_chars) cs of
           m # colon # rest \<Rightarrow>
             if m \<in> {[83], [82], [68]} \<and> colon = [58] then
               (case match_version ud rest of
                  None \<Rightarrow> None
                | Some (version, r1) \<Rightarrow>
                    (let (unique_id, r2) = (case match_after [58] ud r1 of None \<Rightarrow> ([], r1) | Some (u, r) \<Rightarrow> (u, r));
                         r3 = (case match_after [58] ud r2 of None \<Rightarrow> r2 | Some (_, r) \<Rightarrow> r) in
                     Some (m, concat version, concat unique_id, r3)))
             else None
         | _ \<Rightarrow> None)
      else None)"

fun search_handshake :: "(bytes \<Rightarrow> bool) \<Rightarrow> bytes list \<Rightarrow> (bytes \<times> bytes \<times> bytes \<times> bytes list) option" where
  "search_handshake ud [] = match_handshake ud []"
| "search_handshake ud (c # cs) =
     (case match_handshake ud (c # cs) of Some x \<Rightarrow> Some x | None \<Rightarrow> search_handshake ud cs)"

definition parse_trzsz_handshake :: "(bytes \<Rightarrow> bool) \<Rightarrow> bytes \<Rightarrow> bool \<Rightarrow> trzsz_handshake option" where
  "parse_trzsz_handshake ud output is_windows_shell =
     (case search_handshake ud (lossy_chars output) of
        None \<Rightarrow> None
      | Some (m, version, unique_id, rest) \<Rightarrow>
          if rest \<noteq> [] \<and> is_digit (hd (hd rest)) then None
          else map_option (\<lambda>mode. handshake_from_parts mode version unique_id is_windows_shell) (from_protocol_char m))"

subsection \<open>The source's operations: the filter\<close>

datatype trzsz_filter_output =
    WriteTerminal bytes | SendServer bytes | TransferData bytes | StartTransfer trzsz_handshake
  | CancelTransfer | UploadTimedOut bytes

record trzsz_filter =
  tf_detect_tail :: bytes
  tf_pending_detect_buffers :: "bytes list"
  tf_unique_ids :: "(bytes \<times> nat) list"
  tf_transfer_active :: bool
  tf_disposed :: bool
  tf_upload_interrupting :: bool
  tf_upload_skip_trz_command :: bool
  tf_upload_init_pending :: bool
  tf_upload_init_has_directory :: bool
  tf_terminal_columns :: nat
  tf_transfer_policy :: trzsz_policy

definition filter_new :: "trzsz_policy \<Rightarrow> trzsz_filter" where
  "filter_new transfer_policy =
     \<lparr>tf_detect_tail = [], tf_pending_detect_buffers = [], tf_unique_ids = [], tf_transfer_active = False,
      tf_disposed = False, tf_upload_interrupting = False, tf_upload_skip_trz_command = False,
      tf_upload_init_pending = False, tf_upload_init_has_directory = False, tf_terminal_columns = 80,
      tf_transfer_policy = transfer_policy\<rparr>"

definition update_transfer_policy :: "trzsz_policy \<Rightarrow> trzsz_filter \<Rightarrow> trzsz_filter" where
  "update_transfer_policy transfer_policy f = f\<lparr>tf_transfer_policy := transfer_policy\<rparr>"

definition set_terminal_columns :: "nat \<Rightarrow> trzsz_filter \<Rightarrow> trzsz_filter" where
  "set_terminal_columns columns f = (if columns > 0 then f\<lparr>tf_terminal_columns := columns\<rparr> else f)"

definition begin_transfer_for_detected_handshake :: "trzsz_handshake \<Rightarrow> trzsz_filter \<Rightarrow> trzsz_filter" where
  "begin_transfer_for_detected_handshake handshake f =
     (let f1 = (if hs_direction handshake = TrzszUpload then f\<lparr>tf_upload_init_pending := False\<rparr> else f) in
      f1\<lparr>tf_detect_tail := [], tf_pending_detect_buffers := [], tf_transfer_active := True\<rparr>)"

definition filter_finish_transfer :: "trzsz_filter \<Rightarrow> trzsz_filter" where
  "filter_finish_transfer f = f\<lparr>tf_transfer_active := False\<rparr>"

definition filter_dispose :: "trzsz_filter \<Rightarrow> trzsz_filter \<times> trzsz_filter_output list" where
  "filter_dispose f =
     (if tf_disposed f then (f, [])
      else (f\<lparr>tf_disposed := True, tf_transfer_active := False, tf_upload_init_pending := False\<rparr>,
            if tf_transfer_active f then [CancelTransfer] else []))"

fun strip_escapes :: "bool \<Rightarrow> bytes \<Rightarrow> bytes" where
  "strip_escapes skip_vt100 [] = []"
| "strip_escapes skip_vt100 (c # cs) =
     (if skip_vt100 then strip_escapes (\<not> is_ascii_alphabetic c) cs
      else if c = 27 then strip_escapes True cs
      else c # strip_escapes False cs)"

definition strip_server_output :: "bytes \<Rightarrow> bytes option" where
  "strip_server_output output =
     (let buffer = rev (dropWhile (\<lambda>b. b = 13 \<or> b = 10) (rev (strip_escapes False output))) in
      if length buffer > 100 then None else Some (from_utf8_lossy buffer))"

definition queue_magic_detection :: "bytes \<Rightarrow> trzsz_filter \<Rightarrow> trzsz_filter" where
  "queue_magic_detection output f =
     (let buffer = tf_detect_tail f @ output;
          f1 = (case find_trzsz_magic_key_bytes buffer of
                  Some magic \<Rightarrow> f\<lparr>tf_pending_detect_buffers := tf_pending_detect_buffers f @ [magic]\<rparr>
                | None \<Rightarrow> f) in
      f1\<lparr>tf_detect_tail :=
           (if length buffer > MAGIC_DETECT_BUFFER_BYTES then drop (length buffer - MAGIC_DETECT_BUFFER_BYTES) buffer else buffer)\<rparr>)"

definition trzsz_process_server_output :: "bytes \<Rightarrow> trzsz_filter \<Rightarrow> trzsz_filter \<times> trzsz_filter_output list" where
  "trzsz_process_server_output output f =
     (if tf_disposed f then (f, [])
      else if tf_transfer_active f then (f, [TransferData output])
      else if tf_upload_interrupting f then (f, [])
      else if tf_upload_skip_trz_command f then
        (let f1 = f\<lparr>tf_upload_skip_trz_command := False\<rparr>;
             stripped = strip_server_output output in
         if stripped \<in> {Some (str_lit ''trz''), Some (str_lit ''trz -d'')} then (f1, [WriteTerminal [13, 10]])
         else
           let terminal_output = (case stripped of None \<Rightarrow> output | Some v \<Rightarrow> v) in
           (queue_magic_detection terminal_output f1, [WriteTerminal terminal_output]))
      else (queue_magic_detection output f, [WriteTerminal output]))"

definition unique_id_exists :: "bytes \<Rightarrow> bool \<Rightarrow> trzsz_filter \<Rightarrow> trzsz_filter \<times> bool" where
  "unique_id_exists unique_id is_windows_shell f =
     (if unique_id = [] then (f, False)
      else if \<not> is_windows_shell \<and> length unique_id = 14 \<and> bytes_end_with unique_id (str_lit ''00'') then (f, False)
      else if map_of (tf_unique_ids f) unique_id \<noteq> None then (f, True)
      else
        let ids = (if length (tf_unique_ids f) \<ge> 100
                   then map (\<lambda>(i, index). (i, index - 50)) (filter (\<lambda>(i, index). index \<ge> 50) (tf_unique_ids f))
                   else tf_unique_ids f) in
        (f\<lparr>tf_unique_ids := AList.update unique_id (length ids) ids\<rparr>, False))"

fun drain_buffers :: "(bytes \<Rightarrow> bool) \<Rightarrow> bool \<Rightarrow> bytes list \<Rightarrow> trzsz_filter \<Rightarrow> trzsz_filter \<times> trzsz_filter_output list" where
  "drain_buffers ud is_windows_shell [] f = (f, [])"
| "drain_buffers ud is_windows_shell (buffer # buffers) f =
     (case parse_trzsz_handshake ud buffer is_windows_shell of
        None \<Rightarrow> drain_buffers ud is_windows_shell buffers f
      | Some handshake \<Rightarrow>
          (case unique_id_exists (hs_unique_id handshake) is_windows_shell f of
             (f1, True) \<Rightarrow> drain_buffers ud is_windows_shell buffers f1
           | (f1, False) \<Rightarrow> (begin_transfer_for_detected_handshake handshake f1, [StartTransfer handshake])))"

definition drain_detected_handshakes :: "(bytes \<Rightarrow> bool) \<Rightarrow> bool \<Rightarrow> trzsz_filter \<Rightarrow> trzsz_filter \<times> trzsz_filter_output list" where
  "drain_detected_handshakes ud is_windows_shell f =
     (if tf_disposed f \<or> tf_transfer_active f then (f\<lparr>tf_pending_detect_buffers := []\<rparr>, [])
      else drain_buffers ud is_windows_shell (tf_pending_detect_buffers f) (f\<lparr>tf_pending_detect_buffers := []\<rparr>))"

definition process_terminal_input :: "bytes \<Rightarrow> trzsz_filter \<Rightarrow> trzsz_filter_output option" where
  "process_terminal_input input f =
     (if tf_disposed f then None
      else if tf_transfer_active f then (if input = [3] then Some CancelTransfer else None)
      else Some (SendServer input))"

text \<open>The low byte of a character's code point.\<close>

definition char_low_byte :: "bytes \<Rightarrow> u8" where
  "char_low_byte c =
     (if length c = 1 then hd c
      else push_bit 6 (c ! (length c - 2) AND 3) OR (last c AND 0x3F))"

definition process_binary_input :: "bytes \<Rightarrow> trzsz_filter \<Rightarrow> trzsz_filter_output option" where
  "process_binary_input input f =
     (if tf_disposed f \<or> tf_transfer_active f then None
      else Some (SendServer (map char_low_byte (lossy_chars input))))"

definition begin_upload_interrupt :: "bool \<Rightarrow> trzsz_filter \<Rightarrow> trzsz_filter \<times> trzsz_filter_output option" where
  "begin_upload_interrupt has_directory f =
     (if tf_disposed f \<or> tf_transfer_active f \<or> tf_upload_init_pending f then (f, None)
      else (f\<lparr>tf_upload_interrupting := True, tf_upload_init_pending := True, tf_upload_init_has_directory := has_directory\<rparr>,
            Some (SendServer [3])))"

definition finish_upload_interrupt :: "trzsz_filter \<Rightarrow> trzsz_filter \<times> trzsz_filter_output option" where
  "finish_upload_interrupt f =
     (if tf_disposed f \<or> \<not> tf_upload_init_pending f then (f, None)
      else (f\<lparr>tf_upload_interrupting := False, tf_upload_skip_trz_command := True\<rparr>,
            Some (SendServer ((if tf_upload_init_has_directory f then str_lit ''trz -d'' else str_lit ''trz'') @ [13]))))"

definition upload_init_timed_out :: "trzsz_filter \<Rightarrow> trzsz_filter \<times> trzsz_filter_output option" where
  "upload_init_timed_out f =
     (if \<not> tf_upload_init_pending f then (f, None)
      else (f\<lparr>tf_upload_init_pending := False, tf_upload_interrupting := False, tf_upload_skip_trz_command := False\<rparr>,
            Some (UploadTimedOut (str_lit ''Upload does not start''))))"

text \<open>
  A key that arrives in two chunks, cut inside the number at its end, is taken for complete: the transfer starts with a part of
  the number, and the number of a host that does not run Windows can be taken for that of one which does.
\<close>

definition no_policy :: trzsz_policy where
  "no_policy = \<lparr>tp_allow_directory = True, tp_max_chunk_bytes = 1024, tp_max_file_count = 1, tp_max_total_bytes = 1024\<rparr>"

lemma split_key_changes_platform:
  "map (\<lambda>out. case out of StartTransfer h \<Rightarrow> (hs_unique_id h, hs_remote_is_windows h) | _ \<Rightarrow> ([], False))
     (snd (drain_detected_handshakes (\<lambda>c. False) False
       (fst (trzsz_process_server_output (str_lit ''234567890100'' @ [10])
         (fst (trzsz_process_server_output (str_lit ''::TRZSZ:TRANSFER:R:1.1.6:1'') (filter_new no_policy)))))))
   = [(str_lit '':1'', True)]
   \<and> map (\<lambda>out. case out of StartTransfer h \<Rightarrow> (hs_unique_id h, hs_remote_is_windows h) | _ \<Rightarrow> ([], False))
     (snd (drain_detected_handshakes (\<lambda>c. False) False
       (fst (trzsz_process_server_output (str_lit ''::TRZSZ:TRANSFER:R:1.1.6:1234567890100'' @ [10]) (filter_new no_policy)))))
   = [(str_lit '':1234567890100'', False)]"
  by code_simp


subsection \<open>Keys across chunks\<close>

lemma rfind_sub_Some: "rfind_sub p s = Some i \<Longrightarrow> i \<le> length s \<and> prefix p (drop i s)"
  by (induction s arbitrary: i) (auto split: option.splits if_splits)

lemma rfind_sub_None: "rfind_sub p s = None \<Longrightarrow> i \<le> length s \<Longrightarrow> \<not> prefix p (drop i s)"
proof (induction s arbitrary: i)
  case (Cons b s)
  then show ?case by (cases i) (auto split: option.splits if_splits)
qed (auto split: if_splits)

text \<open>A stream in which the key occurs once, and what the filter remembers of a part of it.\<close>

definition only_key :: "bytes \<Rightarrow> bytes \<Rightarrow> bool" where
  "only_key pre key \<longleftrightarrow>
     prefix TRZSZ_MAGIC_KEY_PREFIX key \<and> list_all (\<lambda>b. b \<le> 0x7F) key \<and> length key \<le> MAGIC_DETECT_BUFFER_BYTES
     \<and> (\<forall>i. prefix TRZSZ_MAGIC_KEY_PREFIX (drop i (pre @ key)) \<longrightarrow> i = length pre)"

definition listening :: "bytes \<Rightarrow> bytes \<Rightarrow> bytes \<Rightarrow> trzsz_filter \<Rightarrow> bool" where
  "listening pre key st f \<longleftrightarrow>
     \<not> tf_disposed f \<and> \<not> tf_transfer_active f \<and> \<not> tf_upload_interrupting f \<and> \<not> tf_upload_skip_trz_command f
     \<and> tf_unique_ids f = [] \<and> tf_detect_tail f = drop (length st - MAGIC_DETECT_BUFFER_BYTES) st
     \<and> (\<forall>p\<in>set (tf_pending_detect_buffers f). \<exists>m. p = take m key)"

lemma drop_of_suffix: "a @ b = take n s \<Longrightarrow> drop i b = take (n - (length a + i)) (drop (length a + i) s)"
  using drop_take [of "length a + i" n s] by (metis append_eq_conv_conj drop_drop add.commute)

lemma suffix_end:
  assumes "a @ b = s" and "a = [] \<or> k \<le> length b"
  shows "drop (length b - k) b = drop (length s - k) s"
proof (cases "a = []")
  case False
  then have "length s - k = length a + (length b - k)" using assms by auto
  then show ?thesis using assms(1) by auto
qed (use assms in simp)

lemma found_is_key_part:
  assumes "only_key pre key" and "a @ buffer = take n (pre @ key)" and "find_trzsz_magic_key_bytes buffer = Some magic"
  shows "\<exists>m. magic = take m key"
proof -
  obtain i where i: "rfind_sub TRZSZ_MAGIC_KEY_PREFIX buffer = Some i" "magic = from_utf8_lossy (drop i buffer)"
    using assms(3) by (auto simp: find_trzsz_magic_key_bytes_def split: if_splits)
  have drop: "drop i buffer = take (n - (length a + i)) (drop (length a + i) (pre @ key))"
    by (rule drop_of_suffix [OF assms(2)])
  then have "prefix TRZSZ_MAGIC_KEY_PREFIX (drop (length a + i) (pre @ key))"
    using rfind_sub_Some [OF i(1)] take_is_prefix prefix_order.trans by metis
  then have "length a + i = length pre" using assms(1) unfolding only_key_def by blast
  then have "drop i buffer = take (n - length pre) key" using drop by simp
  moreover have "list_all (\<lambda>b. b \<le> 0x7F) (take (n - length pre) key)"
    using assms(1) by (auto simp: only_key_def list_all_iff dest: in_set_takeD)
  ultimately show ?thesis using i(2) from_utf8_lossy_valid [OF ascii_valid] by metis
qed

lemma complete_key_found:
  assumes "only_key pre key" and "a @ buffer = pre @ key" and "a = [] \<or> MAGIC_DETECT_BUFFER_BYTES \<le> length buffer"
  shows "find_trzsz_magic_key_bytes buffer = Some key"
proof -
  have len: "length a \<le> length pre"
    using assms(1,3) arg_cong [OF assms(2), of length] by (auto simp: only_key_def)
  let ?i = "length pre - length a"
  have key: "drop ?i buffer = key"
    using arg_cong [OF assms(2), of "drop (length pre)"] len by simp
  have "?i \<le> length buffer" using arg_cong [OF assms(2), of length] by simp
  then have "rfind_sub TRZSZ_MAGIC_KEY_PREFIX buffer \<noteq> None"
    using rfind_sub_None [of TRZSZ_MAGIC_KEY_PREFIX buffer ?i] key assms(1) by (auto simp: only_key_def)
  then obtain j where j: "rfind_sub TRZSZ_MAGIC_KEY_PREFIX buffer = Some j" by blast
  have "drop j buffer = drop (length a + j) (pre @ key)" using arg_cong [OF assms(2), of "drop (length a + j)"] by simp
  then have "length a + j = length pre" using rfind_sub_Some [OF j] assms(1) unfolding only_key_def by metis
  then have "drop j buffer = key" using key by (metis add_diff_cancel_left')
  moreover have "\<not> length buffer < length TRZSZ_MAGIC_KEY_PREFIX"
    using key assms(1) prefix_length_le [of TRZSZ_MAGIC_KEY_PREFIX key] by (auto simp: only_key_def)
  moreover have "from_utf8_lossy key = key" using assms(1) by (intro from_utf8_lossy_valid ascii_valid) (simp add: only_key_def)
  ultimately show ?thesis using j by (simp add: find_trzsz_magic_key_bytes_def)
qed

lemma queue_listening:
  assumes "only_key pre key" and "listening pre key st f" and "st @ output = take n (pre @ key)"
  defines "f' \<equiv> fst (trzsz_process_server_output output f)"
  shows "listening pre key (st @ output) f'" and "snd (trzsz_process_server_output output f) = [WriteTerminal output]"
    and "st @ output = pre @ key \<Longrightarrow> key \<in> set (tf_pending_detect_buffers f')"
proof -
  have f': "f' = queue_magic_detection output f" and out: "snd (trzsz_process_server_output output f) = [WriteTerminal output]"
    using assms(2) by (simp_all add: f'_def trzsz_process_server_output_def listening_def)
  let ?a = "take (length st - MAGIC_DETECT_BUFFER_BYTES) st"
  let ?b = "tf_detect_tail f @ output"
  have split: "?a @ ?b = st @ output" using assms(2) by (simp add: listening_def)
  have long: "?a = [] \<or> MAGIC_DETECT_BUFFER_BYTES \<le> length ?b" using assms(2) by (auto simp: listening_def)
  have part: "\<exists>m. magic = take m key" if "find_trzsz_magic_key_bytes ?b = Some magic" for magic
    by (rule found_is_key_part [OF assms(1) _ that]) (use split assms(3) in simp)
  have "drop (length ?b - MAGIC_DETECT_BUFFER_BYTES) ?b = drop (length (st @ output) - MAGIC_DETECT_BUFFER_BYTES) (st @ output)"
    by (rule suffix_end [OF split long])
  then show "listening pre key (st @ output) f'"
    using assms(2) part by (auto simp: f' listening_def queue_magic_detection_def Let_def split: option.splits)
  show "snd (trzsz_process_server_output output f) = [WriteTerminal output]" by (rule out)
  assume "st @ output = pre @ key"
  then have "find_trzsz_magic_key_bytes ?b = Some key" using complete_key_found [OF assms(1) _ long] split by simp
  then show "key \<in> set (tf_pending_detect_buffers f')" by (simp add: f' queue_magic_detection_def Let_def)
qed

definition feed_filter :: "bytes list \<Rightarrow> trzsz_filter \<Rightarrow> trzsz_filter" where
  "feed_filter chunks f = fold (\<lambda>c f. fst (trzsz_process_server_output c f)) chunks f"

lemma feed_listening:
  assumes "only_key pre key" and "concat chunks = pre @ key" and "chunks \<noteq> []"
  shows "listening pre key (pre @ key) (feed_filter chunks (filter_new policy))
    \<and> key \<in> set (tf_pending_detect_buffers (feed_filter chunks (filter_new policy)))"
proof -
  have "listening pre key (concat cs) (feed_filter cs (filter_new policy))
      \<and> (concat cs = pre @ key \<longrightarrow> cs \<noteq> [] \<longrightarrow> key \<in> set (tf_pending_detect_buffers (feed_filter cs (filter_new policy))))"
    if "prefix cs chunks" for cs
    using that
  proof (induction cs rule: rev_induct)
    case Nil
    show ?case by (simp add: feed_filter_def filter_new_def listening_def)
  next
    case (snoc c cs)
    have IH: "listening pre key (concat cs) (feed_filter cs (filter_new policy))"
      using snoc by (meson append_prefixD)
    obtain more_chunks where "chunks = (cs @ [c]) @ more_chunks" using snoc.prems by (auto simp: prefix_def)
    then have "concat cs @ c = take (length (concat cs @ c)) (pre @ key)" using assms(2) [symmetric] by simp
    note step = queue_listening(1,3) [OF assms(1) IH this]
    have "feed_filter (cs @ [c]) (filter_new policy) = fst (trzsz_process_server_output c (feed_filter cs (filter_new policy)))"
      "concat (cs @ [c]) = concat cs @ c"
      by (simp_all add: feed_filter_def)
    then show ?case using step by metis
  qed
  then show ?thesis using assms(2,3) by (metis prefix_order.order_refl)
qed


text \<open>The mode of a key is its first byte after the prefix, however much of the key there is.\<close>

lemma match_handshake_mode:
  assumes "match_handshake ud cs = Some (m, rest)"
  shows "length magic_chars < length cs" and "m = cs ! length magic_chars" and "prefix magic_chars cs"
  using assms
  by (auto simp: match_handshake_def nth_via_drop split: if_splits list.splits option.splits prod.splits dest: arg_cong [of _ _ length])

lemma search_handshake_first:
  assumes "\<And>i. 0 < i \<Longrightarrow> \<not> prefix magic_chars (drop i cs)"
  shows "search_handshake ud cs = match_handshake ud cs"
proof (cases cs)
  case (Cons c cs')
  have none: "search_handshake ud ds = None" if "\<And>i. \<not> prefix magic_chars (drop i ds)" for ds
    using that
  proof (induction ds)
    case Nil
    then show ?case using Nil [of 0] by (simp add: match_handshake_def)
  next
    case (Cons d ds)
    then show ?case using Cons.prems [of 0] Cons.prems [of "Suc _"] by (simp add: match_handshake_def)
  qed
  have "search_handshake ud cs' = None" by (rule none) (use assms [of "Suc _"] Cons in simp)
  then show ?thesis using Cons by (simp split: option.splits)
qed simp

lemma prefix_singletons: "prefix (map (\<lambda>b. [b]) p) (map (\<lambda>b. [b]) q) \<longleftrightarrow> prefix p q"
proof (induction p arbitrary: q)
  case (Cons b p)
  then show ?case by (cases q) simp_all
qed simp

lemma parse_key_part:
  assumes "only_key pre key" and "parse_trzsz_handshake ud (take n key) w = Some h"
  shows "from_protocol_char [key ! length TRZSZ_MAGIC_KEY_PREFIX] = Some (hs_mode h)"
    and "hs_direction h = (if hs_mode h = HandshakeSend then TrzszDownload else TrzszUpload)"
proof -
  let ?cs = "map (\<lambda>b. [b]) (take n key) :: bytes list"
  have ascii: "list_all (\<lambda>b. b \<le> 0x7F) (take n key)"
    using assms(1) by (auto simp: only_key_def list_all_iff dest: in_set_takeD)
  have "\<not> prefix magic_chars (drop i ?cs)" if "0 < i" for i
  proof
    assume "prefix magic_chars (drop i ?cs)"
    then have "prefix TRZSZ_MAGIC_KEY_PREFIX (take (n - i) (drop i key))"
      unfolding magic_chars_def drop_map drop_take prefix_singletons .
    then have "prefix TRZSZ_MAGIC_KEY_PREFIX (drop i key)" using take_is_prefix prefix_order.trans by blast
    then have "prefix TRZSZ_MAGIC_KEY_PREFIX (drop (length pre + i) (pre @ key))" by simp
    then have "length pre + i = length pre" using assms(1) unfolding only_key_def by blast
    then show False using that by simp
  qed
  then have first: "search_handshake ud ?cs = match_handshake ud ?cs" by (rule search_handshake_first)
  obtain m v u r mode where m: "match_handshake ud ?cs = Some (m, v, u, r)" "from_protocol_char m = Some mode"
    "h = handshake_from_parts mode v u w"
    using assms(2) by (auto simp: parse_trzsz_handshake_def lossy_chars_ascii [OF ascii] first split: option.splits if_splits)
  note mode = match_handshake_mode [OF m(1)]
  have "m = [key ! length TRZSZ_MAGIC_KEY_PREFIX]" using mode(1,2) by (simp add: magic_chars_def)
  then show "from_protocol_char [key ! length TRZSZ_MAGIC_KEY_PREFIX] = Some (hs_mode h)"
    using m(2,3) by (simp add: handshake_from_parts_def)
  show "hs_direction h = (if hs_mode h = HandshakeSend then TrzszDownload else TrzszUpload)"
    using m(3) by (simp add: handshake_from_parts_def)
qed

lemma drain_key_parts:
  assumes "only_key pre key" and "\<forall>p\<in>set ps. \<exists>m. p = take m key" and "key \<in> set ps"
    and "parse_trzsz_handshake ud key w = Some h" and "tf_unique_ids f = []"
  shows "\<exists>h'. snd (drain_buffers ud w ps f) = [StartTransfer h'] \<and> tf_transfer_active (fst (drain_buffers ud w ps f))
    \<and> hs_mode h' = hs_mode h \<and> hs_direction h' = hs_direction h"
  using assms(2,3)
proof (induction ps)
  case (Cons p ps)
  obtain n where n: "p = take n key" using Cons.prems(1) by auto
  have key: "key = take (length key) key" by simp
  note full = parse_key_part [OF assms(1), of ud "length key" w h, unfolded key [symmetric], OF assms(4)]
  show ?case
  proof (cases "parse_trzsz_handshake ud p w")
    case None
    then have "key \<in> set ps" using Cons.prems(2) assms(4) by auto
    then show ?thesis using Cons.IH Cons.prems(1) None by simp
  next
    case (Some h')
    have "hs_mode h' = hs_mode h" "hs_direction h' = hs_direction h"
      using parse_key_part [OF assms(1), of ud n w h'] Some n full by auto
    moreover have "\<exists>f1. unique_id_exists (hs_unique_id h') w f = (f1, False)"
      using assms(5) by (simp add: unique_id_exists_def Let_def)
    ultimately show ?thesis using Some by (auto simp: begin_transfer_for_detected_handshake_def Let_def)
  qed
qed simp



subsection \<open>A key starts one transfer\<close>

datatype filter_op =
    FilterServer bytes | FilterDrain | FilterInput bytes | FilterBinary bytes | FilterBeginUpload bool | FilterFinishUpload
  | FilterUploadTimeout | FilterFinish | FilterDispose | FilterColumns nat | FilterPolicy trzsz_policy

definition with_outputs :: "'f \<times> 'a option \<Rightarrow> 'f \<times> 'a list" where
  "with_outputs x = (fst x, case snd x of None \<Rightarrow> [] | Some out \<Rightarrow> [out])"

fun run_filter_op :: "(bytes \<Rightarrow> bool) \<Rightarrow> bool \<Rightarrow> filter_op \<Rightarrow> trzsz_filter \<Rightarrow> trzsz_filter \<times> trzsz_filter_output list" where
  "run_filter_op ud w (FilterServer output) f = trzsz_process_server_output output f"
| "run_filter_op ud w FilterDrain f = drain_detected_handshakes ud w f"
| "run_filter_op ud w (FilterInput input) f = with_outputs (f, process_terminal_input input f)"
| "run_filter_op ud w (FilterBinary input) f = with_outputs (f, process_binary_input input f)"
| "run_filter_op ud w (FilterBeginUpload has_directory) f = with_outputs (begin_upload_interrupt has_directory f)"
| "run_filter_op ud w FilterFinishUpload f = with_outputs (finish_upload_interrupt f)"
| "run_filter_op ud w FilterUploadTimeout f = with_outputs (upload_init_timed_out f)"
| "run_filter_op ud w FilterFinish f = (filter_finish_transfer f, [])"
| "run_filter_op ud w FilterDispose f = filter_dispose f"
| "run_filter_op ud w (FilterColumns columns) f = (set_terminal_columns columns f, [])"
| "run_filter_op ud w (FilterPolicy policy) f = (update_transfer_policy policy f, [])"

fun run_filter :: "(bytes \<Rightarrow> bool) \<Rightarrow> bool \<Rightarrow> filter_op list \<Rightarrow> trzsz_filter \<Rightarrow> trzsz_filter \<times> trzsz_filter_output list" where
  "run_filter ud w [] f = (f, [])"
| "run_filter ud w (op # ops) f =
     (case run_filter_op ud w op f of (f1, out) \<Rightarrow> (case run_filter ud w ops f1 of (f2, outs) \<Rightarrow> (f2, out @ outs)))"

definition started_ids :: "trzsz_filter_output list \<Rightarrow> bytes list" where
  "started_ids outs = concat (map (\<lambda>out. case out of StartTransfer h \<Rightarrow> [hs_unique_id h] | _ \<Rightarrow> []) outs)"

text \<open>The identifiers that the filter remembers, with consecutive numbers, at most a hundred.\<close>

definition ids_ok :: "(bytes \<times> nat) list \<Rightarrow> bool" where
  "ids_ok ids \<longleftrightarrow> distinct (map fst ids) \<and> distinct (map snd ids) \<and> set (map snd ids) = {0..<length ids} \<and> length ids \<le> 100"

definition remembered :: "bool \<Rightarrow> bytes \<Rightarrow> bool" where
  "remembered w u \<longleftrightarrow> u \<noteq> [] \<and> (w \<or> length u \<noteq> 14 \<or> \<not> bytes_end_with u (str_lit ''00''))"

definition recent_id :: "bytes \<Rightarrow> nat \<Rightarrow> (bytes \<times> nat) list \<Rightarrow> bool" where
  "recent_id u k ids \<longleftrightarrow> ids_ok ids \<and> (\<exists>i. map_of ids u = Some i \<and> length ids \<le> i + Suc k)"

lemma update_new: "map_of ids u = None \<Longrightarrow> AList.update u n ids = ids @ [(u, n)]"
  by (induction ids) (auto split: if_splits)

definition evicted :: "(bytes \<times> nat) list \<Rightarrow> (bytes \<times> nat) list" where
  "evicted ids = (if length ids \<ge> 100 then map (\<lambda>(i, index). (i, index - 50)) (filter (\<lambda>(i, index). index \<ge> 50) ids) else ids)"

lemma evicted_ok:
  assumes "ids_ok ids"
  shows "ids_ok (evicted ids)" and "length (evicted ids) < 100"
    and "map_of ids u = Some i \<Longrightarrow> length ids \<le> i + Suc k \<Longrightarrow> k < 50 \<Longrightarrow>
      \<exists>j. map_of (evicted ids) u = Some j \<and> length (evicted ids) \<le> j + Suc k"
    and "map_of (evicted ids) u \<noteq> None \<Longrightarrow> map_of ids u \<noteq> None"
proof -
  define big where "big = filter (\<lambda>(i :: bytes, index). index \<ge> (50 :: nat)) ids"
  have ev: "evicted ids = (if length ids = 100 then map (\<lambda>(i, index). (i, index - 50)) big else ids)"
    using assms by (auto simp: evicted_def big_def ids_ok_def)
  have snd_big: "set (map snd big) = {50..<length ids}" using assms by (force simp: ids_ok_def big_def image_iff)
  have dist: "distinct (map snd big)" "distinct (map fst big)"
    using assms by (auto simp: ids_ok_def big_def distinct_map intro: inj_on_subset)
  have len: "length big = length ids - 50"
    using distinct_card [OF dist(1)] snd_big by simp
  let ?m = "map (\<lambda>(i, index). (i, index - 50)) big :: (bytes \<times> nat) list"
  have fst_m: "map fst ?m = map fst big" and snd_m: "map snd ?m = map (\<lambda>x. x - 50) (map snd big)" by (auto simp: comp_def split_beta)
  have "inj_on (\<lambda>x. x - 50) (set (map snd big))" unfolding snd_big inj_on_def by auto
  then have "distinct (map snd ?m)" unfolding snd_m distinct_map [of "\<lambda>x. x - 50"] using dist(1) by blast
  moreover have "set (map snd ?m) = {0..<length ids - 50}"
  proof -
    have "set (map snd ?m) = (\<lambda>x. x - 50) ` {50..<length ids}" unfolding snd_m set_map [of "\<lambda>x. x - 50"] snd_big ..
    also have "\<dots> = {0..<length ids - 50}"
    proof (intro set_eqI iffI)
      fix x assume "x \<in> {0..<length ids - 50}"
      then show "x \<in> (\<lambda>x. x - 50) ` {50..<length ids}" by (intro image_eqI [of _ _ "x + 50"]) auto
    qed auto
    finally show ?thesis .
  qed
  moreover have "distinct (map fst ?m)" unfolding fst_m by (rule dist(2))
  moreover have "length ?m = length ids - 50" "length ?m \<le> 100" using len assms by (auto simp: ids_ok_def)
  ultimately have m_ok: "ids_ok ?m" unfolding ids_ok_def by (intro conjI) (simp_all only:)
  show "ids_ok (evicted ids)" using m_ok assms by (simp add: ev)
  show "length (evicted ids) < 100" using len assms by (auto simp: ev ids_ok_def)
  show "map_of (evicted ids) u \<noteq> None \<Longrightarrow> map_of ids u \<noteq> None"
    by (auto simp: ev big_def map_of_eq_None_iff split: if_splits) (metis fst_conv image_eqI)
  assume u: "map_of ids u = Some i" "length ids \<le> i + Suc k" "k < 50"
  show "\<exists>j. map_of (evicted ids) u = Some j \<and> length (evicted ids) \<le> j + Suc k"
  proof (cases "length ids = 100")
    case True
    then have "i \<ge> 50" using u(2,3) by simp
    then have "(u, i) \<in> set big" using map_of_SomeD [OF u(1)] by (simp add: big_def)
    then have "(u, i - 50) \<in> set ?m" by force
    then have "map_of ?m u = Some (i - 50)" using m_ok by (simp add: ids_ok_def)
    then show ?thesis using True u(2) \<open>i \<ge> 50\<close> len by (simp add: ev)
  qed (use u in \<open>simp add: ev\<close>)
qed

lemma unique_id_step:
  assumes "unique_id_exists v w f = (f', exists_already)" and "recent_id u k (tf_unique_ids f)" and "k < 50"
  shows "recent_id u (if exists_already \<or> \<not> remembered w v then k else Suc k) (tf_unique_ids f')"
    and "v = u \<Longrightarrow> remembered w u \<Longrightarrow> exists_already"
proof -
  note r = assms(2) [unfolded recent_id_def]
  show "v = u \<Longrightarrow> remembered w u \<Longrightarrow> exists_already"
    using assms(1) r by (auto simp: unique_id_exists_def remembered_def Let_def split: if_splits)
  show "recent_id u (if exists_already \<or> \<not> remembered w v then k else Suc k) (tf_unique_ids f')"
  proof (cases "remembered w v \<and> map_of (tf_unique_ids f) v = None")
    case False
    then have "tf_unique_ids f' = tf_unique_ids f" "exists_already \<or> \<not> remembered w v"
      using assms(1) by (auto simp: unique_id_exists_def remembered_def Let_def split: if_splits)
    then show ?thesis using assms(2) by simp
  next
    case True
    let ?e = "evicted (tf_unique_ids f)"
    note e = evicted_ok [OF conjunct1 [OF r]]
    have "map_of ?e v = None" using True e(4) by blast
    then have new: "tf_unique_ids f' = ?e @ [(v, length ?e)]" "\<not> exists_already"
      using assms(1) True by (auto simp: unique_id_exists_def remembered_def Let_def evicted_def [symmetric] update_new split: if_splits)
    have fresh: "v \<notin> fst ` set ?e" using \<open>map_of ?e v = None\<close> by (simp add: map_of_eq_None_iff)
    obtain j where j: "map_of ?e u = Some j" "length ?e \<le> j + Suc k" using r e(3) assms(3) by blast
    have "ids_ok (tf_unique_ids f')"
      using e(1,2) fresh unfolding new(1) ids_ok_def by (auto simp: atLeast0_lessThan_Suc)
    moreover have "map_of (tf_unique_ids f') u = Some j" using j(1) by (simp add: new(1) map_add_def map_of_append)
    ultimately show ?thesis using j(2) new True by (simp add: recent_id_def)
  qed
qed


lemma unique_id_new:
  assumes "unique_id_exists v w f = (f', exists_already)" and "ids_ok (tf_unique_ids f)"
  shows "ids_ok (tf_unique_ids f')" and "remembered w v \<Longrightarrow> \<not> exists_already \<Longrightarrow> recent_id v 0 (tf_unique_ids f')"
proof -
  have "ids_ok (tf_unique_ids f') \<and> (remembered w v \<longrightarrow> \<not> exists_already \<longrightarrow> recent_id v 0 (tf_unique_ids f'))"
  proof (cases "remembered w v \<and> map_of (tf_unique_ids f) v = None")
    case False
    then show ?thesis
      using assms by (auto simp: unique_id_exists_def remembered_def Let_def split: if_splits)
  next
    case True
    let ?e = "evicted (tf_unique_ids f)"
    note e = evicted_ok [OF assms(2)]
    have none: "map_of ?e v = None" using True e(4) by blast
    then have new: "tf_unique_ids f' = ?e @ [(v, length ?e)]"
      using assms(1) True by (auto simp: unique_id_exists_def remembered_def Let_def evicted_def [symmetric] update_new split: if_splits)
    have "v \<notin> fst ` set ?e" using none by (simp add: map_of_eq_None_iff)
    then have "ids_ok (tf_unique_ids f')" using e(1,2) unfolding new ids_ok_def by (auto simp: atLeast0_lessThan_Suc)
    then show ?thesis using none by (simp add: recent_id_def new map_of_append map_add_def)
  qed
  then show "ids_ok (tf_unique_ids f')" "remembered w v \<Longrightarrow> \<not> exists_already \<Longrightarrow> recent_id v 0 (tf_unique_ids f')" by blast+
qed

lemma begin_transfer_ids [simp]: "tf_unique_ids (begin_transfer_for_detected_handshake h f) = tf_unique_ids f"
  by (simp add: begin_transfer_for_detected_handshake_def Let_def)

lemma recent_id_mono: "recent_id u k ids \<Longrightarrow> k \<le> l \<Longrightarrow> recent_id u l ids"
  by (fastforce simp: recent_id_def)

lemma drain_buffers_ids:
  assumes "drain_buffers ud w ps f = (f', outs)" and "ids_ok (tf_unique_ids f)"
  shows "ids_ok (tf_unique_ids f')" and "recent_id u k (tf_unique_ids f) \<Longrightarrow> k < 50 \<Longrightarrow> remembered w u \<Longrightarrow>
      recent_id u (k + length (started_ids outs)) (tf_unique_ids f') \<and> u \<notin> set (started_ids outs)"
    and "outs = [StartTransfer h] \<Longrightarrow> remembered w (hs_unique_id h) \<Longrightarrow> recent_id (hs_unique_id h) 0 (tf_unique_ids f')"
proof -
  have "ids_ok (tf_unique_ids f') \<and> (recent_id u k (tf_unique_ids f) \<longrightarrow> k < 50 \<longrightarrow> remembered w u \<longrightarrow>
      recent_id u (k + length (started_ids outs)) (tf_unique_ids f') \<and> u \<notin> set (started_ids outs))
    \<and> (outs = [StartTransfer h] \<longrightarrow> remembered w (hs_unique_id h) \<longrightarrow> recent_id (hs_unique_id h) 0 (tf_unique_ids f'))"
    using assms
  proof (induction ps arbitrary: f)
    case Nil
    then show ?case by (auto simp: started_ids_def)
  next
    case (Cons p ps)
    show ?case
    proof (cases "parse_trzsz_handshake ud p w")
      case None
      then show ?thesis using Cons.IH [of f] Cons.prems by simp
    next
      case (Some h1)
      obtain f1 x where f1: "unique_id_exists (hs_unique_id h1) w f = (f1, x)" by fastforce
      note new = unique_id_new [OF f1 Cons.prems(2)]
      note step = unique_id_step [OF f1]
      show ?thesis
      proof (cases x)
        case True
        then have run: "drain_buffers ud w ps f1 = (f', outs)" using Cons.prems(1) Some f1 by simp
        have "recent_id u k (tf_unique_ids f1)" if "recent_id u k (tf_unique_ids f)" "k < 50" using step(1) [OF that] True by simp
        then show ?thesis using Cons.IH [OF run new(1)] by blast
      next
        case False
        then have started: "f' = begin_transfer_for_detected_handshake h1 f1" "outs = [StartTransfer h1]"
          using Cons.prems(1) Some f1 by auto
        have "recent_id u (Suc k) (tf_unique_ids f1)" "hs_unique_id h1 \<noteq> u"
          if "recent_id u k (tf_unique_ids f)" "k < 50" "remembered w u"
          using step [OF that(1,2)] that(3) False recent_id_mono [of u k _ "Suc k"] by (auto split: if_splits)
        then show ?thesis using started new False by (auto simp: started_ids_def)
      qed
    qed
  qed
  then show "ids_ok (tf_unique_ids f')" "recent_id u k (tf_unique_ids f) \<Longrightarrow> k < 50 \<Longrightarrow> remembered w u \<Longrightarrow>
      recent_id u (k + length (started_ids outs)) (tf_unique_ids f') \<and> u \<notin> set (started_ids outs)"
    "outs = [StartTransfer h] \<Longrightarrow> remembered w (hs_unique_id h) \<Longrightarrow> recent_id (hs_unique_id h) 0 (tf_unique_ids f')"
    by blast+
qed

lemma other_ops_ids:
  assumes "run_filter_op ud w op f = (f', outs)" and "op \<noteq> FilterDrain"
  shows "tf_unique_ids f' = tf_unique_ids f" and "started_ids outs = []"
proof -
  have queue: "tf_unique_ids (queue_magic_detection c g) = tf_unique_ids g" for c g
    by (simp add: queue_magic_detection_def Let_def split: option.splits)
  show "tf_unique_ids f' = tf_unique_ids f" "started_ids outs = []"
    using assms
    by (cases op; auto simp: trzsz_process_server_output_def queue Let_def with_outputs_def process_terminal_input_def process_binary_input_def
        begin_upload_interrupt_def finish_upload_interrupt_def upload_init_timed_out_def filter_finish_transfer_def filter_dispose_def
        set_terminal_columns_def update_transfer_policy_def started_ids_def split: if_splits)+
qed

lemma filter_op_ids:
  assumes "run_filter_op ud w op f = (f', outs)" and "ids_ok (tf_unique_ids f)"
  shows "ids_ok (tf_unique_ids f')" and "recent_id u k (tf_unique_ids f) \<Longrightarrow> k < 50 \<Longrightarrow> remembered w u \<Longrightarrow>
      recent_id u (k + length (started_ids outs)) (tf_unique_ids f') \<and> u \<notin> set (started_ids outs)"
proof -
  have "ids_ok (tf_unique_ids f') \<and> (recent_id u k (tf_unique_ids f) \<longrightarrow> k < 50 \<longrightarrow> remembered w u \<longrightarrow>
      recent_id u (k + length (started_ids outs)) (tf_unique_ids f') \<and> u \<notin> set (started_ids outs))"
  proof (cases "op = FilterDrain \<and> \<not> tf_disposed f \<and> \<not> tf_transfer_active f")
    case True
    then have "drain_buffers ud w (tf_pending_detect_buffers f) (f\<lparr>tf_pending_detect_buffers := []\<rparr>) = (f', outs)"
      using assms(1) by (auto simp: drain_detected_handshakes_def)
    then show ?thesis using drain_buffers_ids(1,2) [of ud w _ "f\<lparr>tf_pending_detect_buffers := []\<rparr>" f' outs] assms(2) by simp
  next
    case False
    then have "tf_unique_ids f' = tf_unique_ids f \<and> started_ids outs = []"
      using assms(1) other_ops_ids [OF assms(1)] by (cases "op = FilterDrain") (auto simp: drain_detected_handshakes_def started_ids_def)
    then show ?thesis using assms(2) by simp
  qed
  then show "ids_ok (tf_unique_ids f')" "recent_id u k (tf_unique_ids f) \<Longrightarrow> k < 50 \<Longrightarrow> remembered w u \<Longrightarrow>
      recent_id u (k + length (started_ids outs)) (tf_unique_ids f') \<and> u \<notin> set (started_ids outs)" by blast+
qed

lemma run_filter_ids:
  assumes "run_filter ud w ops f = (f', outs)" and "ids_ok (tf_unique_ids f)"
  shows "ids_ok (tf_unique_ids f')"
    and "recent_id u k (tf_unique_ids f) \<Longrightarrow> k + length (started_ids outs) < 50 \<Longrightarrow> remembered w u \<Longrightarrow> u \<notin> set (started_ids outs)"
proof -
  have "ids_ok (tf_unique_ids f') \<and> (recent_id u k (tf_unique_ids f) \<longrightarrow> k + length (started_ids outs) < 50 \<longrightarrow> remembered w u
      \<longrightarrow> u \<notin> set (started_ids outs))"
    using assms
  proof (induction ops arbitrary: f k outs)
    case Nil
    then show ?case by (auto simp: started_ids_def)
  next
    case (Cons op ops)
    obtain f1 out1 out2 where f1: "run_filter_op ud w op f = (f1, out1)" "run_filter ud w ops f1 = (f', out2)" "outs = out1 @ out2"
      using Cons.prems(1) by (auto split: prod.splits)
    note step = filter_op_ids [OF f1(1) Cons.prems(2)]
    have "started_ids outs = started_ids out1 @ started_ids out2" by (simp add: f1(3) started_ids_def)
    then show ?case using Cons.IH [OF f1(2) step(1), of "k + length (started_ids out1)"] step by auto
  qed
  then show "ids_ok (tf_unique_ids f')"
    "recent_id u k (tf_unique_ids f) \<Longrightarrow> k + length (started_ids outs) < 50 \<Longrightarrow> remembered w u \<Longrightarrow> u \<notin> set (started_ids outs)" by blast+
qed



end
