(* ===== verification/Rust_Fs.thy ===== *)
theory Rust_Fs
  imports Rust_Str "HOL-Library.AList"
begin

text \<open>
  Files and directories as the source sees them through \<^verbatim>\<open>std::fs\<close>: a tree with symbolic links, in which
  every call resolves the links on its way. A path is the list of its components from the root directory, which may
  contain empty ones, \<^verbatim>\<open>.\<close> and \<^verbatim>\<open>..\<close>; nodes are found under paths without them. The content of a
  regular file is stored by inode, so that an open file survives renaming and removal. Calls can be refused, by node and by inode.
  The last part shows that calls on paths without links on the way act on exactly the node that they name.
\<close>

type_synonym path = "bytes list"

datatype node = Directory | Regular nat | Link bytes

datatype io_error =
    IoNotFound | IoNotADirectory | IoIsADirectory | IoDirectoryNotEmpty | IoAlreadyExists | IoPermissionDenied
  | IoFilesystemLoop | IoInvalidInput | IoOther

record file_system =
  fs_nodes :: "(path \<times> node) list"
  fs_data :: "nat \<Rightarrow> bytes"
  fs_next :: nat
  fs_denied :: "path \<Rightarrow> bool"
  fs_broken :: "nat \<Rightarrow> bool"
  fs_cwd :: path

definition node_at :: "file_system \<Rightarrow> path \<Rightarrow> node option" where
  "node_at fs p = (if p = [] then Some Directory else map_of (fs_nodes fs) p)"

definition is_link :: "file_system \<Rightarrow> path \<Rightarrow> bool" where
  "is_link fs p \<longleftrightarrow> (case node_at fs p of Some (Link _) \<Rightarrow> True | _ \<Rightarrow> False)"

text \<open>A component that names an entry of a directory.\<close>

definition plain :: "bytes \<Rightarrow> bool" where
  "plain c \<longleftrightarrow> c \<noteq> [] \<and> c \<noteq> [46] \<and> c \<noteq> [46, 46]"

subsection \<open>Resolution\<close>

text \<open>The walk of the kernel along a path from a directory, with the number of links that it may still follow.\<close>

function walk :: "nat \<Rightarrow> file_system \<Rightarrow> path \<Rightarrow> bytes list \<Rightarrow> io_error + path" where
  "walk k fs d [] = Ok d"
| "walk k fs d (c # cs) =
     (if c = [] \<or> c = [46] then walk k fs d cs
      else if c = [46, 46] then walk k fs (butlast d) cs
      else case node_at fs (d @ [c]) of
          None \<Rightarrow> Err IoNotFound
        | Some Directory \<Rightarrow> walk k fs (d @ [c]) cs
        | Some (Regular i) \<Rightarrow> if cs = [] then Ok (d @ [c]) else Err IoNotADirectory
        | Some (Link target) \<Rightarrow>
            if k = 0 then Err IoFilesystemLoop
            else walk (k - 1) fs (if path_is_absolute target then [] else d) (split_on 47 target @ cs))"
  by pat_completeness auto
termination
  by (relation "inv_image (less_than <*lex*> less_than) (\<lambda>(k, fs, d, cs). (k, length cs))") auto

declare walk.simps(2) [simp del]

definition MAX_LINKS :: nat where
  "MAX_LINKS = 40"

text \<open>The path of a string, and its canonical form: \<^verbatim>\<open>PathBuf::from\<close> and \<^verbatim>\<open>fs::canonicalize\<close>.\<close>

definition path_from :: "file_system \<Rightarrow> bytes \<Rightarrow> path" where
  "path_from fs s = (if path_is_absolute s then [] else fs_cwd fs) @ split_on 47 s"

definition canonicalize :: "path \<Rightarrow> file_system \<Rightarrow> io_error + path" where
  "canonicalize p fs = walk MAX_LINKS fs [] p"

definition path_push :: "path \<Rightarrow> bytes \<Rightarrow> path" where
  "path_push p c = (if path_is_absolute c then [] else p) @ split_on 47 c"

text \<open>The node that a path names, where a link in its last component is not followed.\<close>

definition locate :: "path \<Rightarrow> file_system \<Rightarrow> io_error + path" where
  "locate p fs =
     (if p = [] \<or> \<not> plain (last p) then canonicalize p fs
      else case canonicalize (butlast p) fs of
          Inl e \<Rightarrow> Err e
        | Inr d \<Rightarrow> if node_at fs d = Some Directory then Ok (d @ [last p]) else Err IoNotADirectory)"

subsection \<open>Calls\<close>

definition symlink_metadata :: "path \<Rightarrow> file_system \<Rightarrow> io_error + node" where
  "symlink_metadata p fs =
     (case locate p fs of
        Inl e \<Rightarrow> Err e
      | Inr q \<Rightarrow> (case node_at fs q of None \<Rightarrow> Err IoNotFound | Some n \<Rightarrow> Ok n))"

definition metadata :: "path \<Rightarrow> file_system \<Rightarrow> io_error + node" where
  "metadata p fs =
     (case canonicalize p fs of
        Inl e \<Rightarrow> Err e
      | Inr q \<Rightarrow> (case node_at fs q of None \<Rightarrow> Err IoNotFound | Some n \<Rightarrow> Ok n))"

type_synonym 'a fs_call = "file_system \<Rightarrow> (io_error + 'a) \<times> file_system"

definition set_node :: "path \<Rightarrow> node \<Rightarrow> file_system \<Rightarrow> file_system" where
  "set_node p n fs = fs\<lparr>fs_nodes := AList.update p n (fs_nodes fs)\<rparr>"

definition delete_node :: "path \<Rightarrow> file_system \<Rightarrow> file_system" where
  "delete_node p fs = fs\<lparr>fs_nodes := AList.delete p (fs_nodes fs)\<rparr>"

definition has_entries :: "file_system \<Rightarrow> path \<Rightarrow> bool" where
  "has_entries fs p \<longleftrightarrow> list_ex (\<lambda>q. q \<noteq> [] \<and> butlast q = p) (map fst (fs_nodes fs))"

definition create_dir :: "path \<Rightarrow> unit fs_call" where
  "create_dir p fs =
     (case locate p fs of
        Inl e \<Rightarrow> (Err e, fs)
      | Inr q \<Rightarrow>
          if node_at fs q \<noteq> None then (Err IoAlreadyExists, fs)
          else if fs_denied fs q then (Err IoPermissionDenied, fs)
          else (Ok (), set_node q Directory fs))"

text \<open>Opening a file that must not exist (\<^verbatim>\<open>create_new\<close>) gives its inode.\<close>

definition create_new :: "path \<Rightarrow> nat fs_call" where
  "create_new p fs =
     (case locate p fs of
        Inl e \<Rightarrow> (Err e, fs)
      | Inr q \<Rightarrow>
          if node_at fs q \<noteq> None then (Err IoAlreadyExists, fs)
          else if fs_denied fs q then (Err IoPermissionDenied, fs)
          else (Ok (fs_next fs),
                (set_node q (Regular (fs_next fs)) fs)
                  \<lparr>fs_data := (fs_data fs)(fs_next fs := []), fs_next := fs_next fs + 1\<rparr>))"

definition remove_file :: "path \<Rightarrow> unit fs_call" where
  "remove_file p fs =
     (case locate p fs of
        Inl e \<Rightarrow> (Err e, fs)
      | Inr q \<Rightarrow>
          (case node_at fs q of
             None \<Rightarrow> (Err IoNotFound, fs)
           | Some Directory \<Rightarrow> (Err IoIsADirectory, fs)
           | Some _ \<Rightarrow> if fs_denied fs q then (Err IoPermissionDenied, fs) else (Ok (), delete_node q fs)))"

definition remove_dir :: "path \<Rightarrow> unit fs_call" where
  "remove_dir p fs =
     (case locate p fs of
        Inl e \<Rightarrow> (Err e, fs)
      | Inr q \<Rightarrow>
          (case node_at fs q of
             None \<Rightarrow> (Err IoNotFound, fs)
           | Some Directory \<Rightarrow>
               if q = [] then (Err IoInvalidInput, fs)
               else if has_entries fs q then (Err IoDirectoryNotEmpty, fs)
               else if fs_denied fs q then (Err IoPermissionDenied, fs) else (Ok (), delete_node q fs)
           | Some _ \<Rightarrow> (Err IoNotADirectory, fs)))"

text \<open>Renaming takes a directory along with all that is below it.\<close>

definition move_nodes :: "path \<Rightarrow> path \<Rightarrow> file_system \<Rightarrow> file_system" where
  "move_nodes a b fs =
     fs\<lparr>fs_nodes :=
          map (\<lambda>(p, n). (b @ drop (length a) p, n)) (filter (\<lambda>(p, n). prefix a p) (fs_nodes fs))
          @ filter (\<lambda>(p, n). \<not> prefix a p \<and> \<not> prefix b p) (fs_nodes fs)\<rparr>"

definition rename_refused :: "file_system \<Rightarrow> path \<Rightarrow> path \<Rightarrow> io_error option" where
  "rename_refused fs a b =
     (case (node_at fs a, node_at fs b) of
        (None, _) \<Rightarrow> Some IoNotFound
      | (Some Directory, Some Directory) \<Rightarrow> if has_entries fs b then Some IoDirectoryNotEmpty else None
      | (Some Directory, Some _) \<Rightarrow> Some IoNotADirectory
      | (Some _, Some Directory) \<Rightarrow> Some IoIsADirectory
      | _ \<Rightarrow> None)"

definition rename_path :: "path \<Rightarrow> path \<Rightarrow> unit fs_call" where
  "rename_path x y fs =
     (case (locate x fs, locate y fs) of
        (Inl e, _) \<Rightarrow> (Err e, fs)
      | (_, Inl e) \<Rightarrow> (Err e, fs)
      | (Inr a, Inr b) \<Rightarrow>
          (case rename_refused fs a b of
             Some e \<Rightarrow> (Err e, fs)
           | None \<Rightarrow>
               if a = b then (Ok (), fs)
               else if prefix a b \<or> prefix b a then (Err IoInvalidInput, fs)
               else if fs_denied fs a \<or> fs_denied fs b then (Err IoPermissionDenied, fs)
               else (Ok (), move_nodes a b fs)))"

text \<open>Reading and writing an open file at a position.\<close>

definition write_file_at :: "nat \<Rightarrow> nat \<Rightarrow> bytes \<Rightarrow> unit fs_call" where
  "write_file_at i pos bs fs =
     (if fs_broken fs i then (Err IoOther, fs)
      else (Ok (), fs\<lparr>fs_data := (fs_data fs)(i :=
              take pos (fs_data fs i @ replicate (pos - length (fs_data fs i)) 0) @ bs
              @ drop (pos + length bs) (fs_data fs i))\<rparr>))"

definition sync_file :: "nat \<Rightarrow> file_system \<Rightarrow> io_error + unit" where
  "sync_file i fs = (if fs_broken fs i then Err IoOther else Ok ())"

definition read_file_at :: "nat \<Rightarrow> nat \<Rightarrow> nat \<Rightarrow> file_system \<Rightarrow> io_error + bytes" where
  "read_file_at i pos len fs = (if fs_broken fs i then Err IoOther else Ok (take len (drop pos (fs_data fs i))))"

definition open_read :: "path \<Rightarrow> file_system \<Rightarrow> io_error + nat" where
  "open_read p fs =
     (case canonicalize p fs of
        Inl e \<Rightarrow> Err e
      | Inr q \<Rightarrow>
          if fs_denied fs q then Err IoPermissionDenied
          else (case node_at fs q of
              Some (Regular i) \<Rightarrow> Ok i
            | Some Directory \<Rightarrow> Err IoIsADirectory
            | _ \<Rightarrow> Err IoNotFound))"


subsection \<open>Paths without links on the way\<close>

definition link_free :: "file_system \<Rightarrow> path \<Rightarrow> bool" where
  "link_free fs p \<longleftrightarrow> (\<forall>q. prefix q p \<longrightarrow> \<not> is_link fs q)"

definition way_free :: "file_system \<Rightarrow> path \<Rightarrow> bool" where
  "way_free fs p \<longleftrightarrow> (\<forall>q. strict_prefix q p \<longrightarrow> \<not> is_link fs q)"

definition tree_ok :: "file_system \<Rightarrow> bool" where
  "tree_ok fs \<longleftrightarrow> (\<forall>p. p \<noteq> [] \<and> node_at fs p \<noteq> None \<longrightarrow> node_at fs (butlast p) = Some Directory)"

lemma node_at_root [simp]: "node_at fs [] = Some Directory" by (simp add: node_at_def)

lemma node_at_content [simp]: "node_at (fs\<lparr>fs_data := d\<rparr>) = node_at fs" "node_at (fs\<lparr>fs_next := k\<rparr>) = node_at fs"
  by (simp_all add: node_at_def fun_eq_iff)

lemma set_node_content [simp]: "fs_data (set_node p n fs) = fs_data fs" "fs_next (set_node p n fs) = fs_next fs"
  by (simp_all add: set_node_def)

lemma not_link_root [simp]: "\<not> is_link fs []" by (simp add: is_link_def)

lemma link_free_Nil [simp]: "link_free fs []" by (simp add: link_free_def)

lemma link_free_snoc: "link_free fs (p @ [c]) \<longleftrightarrow> link_free fs p \<and> \<not> is_link fs (p @ [c])"
  by (auto simp: link_free_def)

lemma link_free_butlast: "link_free fs p \<Longrightarrow> link_free fs (butlast p)"
  by (cases p rule: rev_cases) (auto simp: link_free_snoc)

lemma strict_prefix_snoc: "strict_prefix q (p @ [c]) \<longleftrightarrow> prefix q p"
  by (auto simp: strict_prefix_def dest: prefix_length_le)

lemma way_free_snoc: "way_free fs (p @ [c]) \<longleftrightarrow> link_free fs p"
  by (simp add: way_free_def link_free_def strict_prefix_snoc)

lemma way_free_butlast: "way_free fs p \<Longrightarrow> p \<noteq> [] \<Longrightarrow> link_free fs (butlast p)"
  by (cases p rule: rev_cases) (auto simp: way_free_snoc)

lemma list_all_butlast: "list_all P xs \<Longrightarrow> list_all P (butlast xs)"
  by (cases xs rule: rev_cases) auto

lemma walk_canonical:
  "walk k fs d cs = Ok q \<Longrightarrow> list_all plain d \<Longrightarrow> link_free fs d \<Longrightarrow> list_all plain q \<and> link_free fs q"
proof (induction k fs d cs rule: walk.induct)
  case (2 k fs d c cs)
  note w = 2(5) [unfolded walk.simps(2) [of k fs d c cs]]
  show ?case
  proof (cases "plain c")
    case False
    then show ?thesis
      using 2(1) 2(2) w 2(6,7) link_free_butlast [OF 2(7)] list_all_butlast [OF 2(6)] by (auto simp: plain_def split: if_splits)
  next
    case True
    then have c: "c \<noteq> []" "c \<noteq> [46]" "c \<noteq> [46, 46]" by (simp_all add: plain_def)
    have d: "list_all plain (d @ [c])" using 2(6) True by simp
    show ?thesis
    proof (cases "node_at fs (d @ [c])")
      case (Some n)
      then have lf: "link_free fs (d @ [c])" if "\<And>t. n \<noteq> Link t"
        using 2(7) that by (simp add: link_free_snoc is_link_def split: node.splits)
      show ?thesis
      proof (cases n)
        case Directory
        then show ?thesis using 2(3) w c Some d lf by simp
      next
        case (Regular i)
        then have "q = d @ [c]" using w c Some by (simp split: if_splits)
        then show ?thesis using d lf Regular by simp
      next
        case (Link t)
        then show ?thesis using 2(4) [of n t] w c Some 2(6,7) by (simp split: if_splits)
      qed
    qed (use w c in simp)
  qed
qed simp

lemma canonicalize_plain: "canonicalize p fs = Ok q \<Longrightarrow> list_all plain q \<and> link_free fs q"
  using walk_canonical [of MAX_LINKS fs "[]" p q] by (simp add: canonicalize_def)

lemma walk_link_free:
  "list_all plain cs \<Longrightarrow> link_free fs (d @ cs) \<Longrightarrow> walk k fs d cs = Ok q \<Longrightarrow> q = d @ cs"
proof (induction cs arbitrary: d)
  case (Cons c cs)
  then have "\<not> is_link fs (d @ [c])" by (auto simp: link_free_def)
  moreover have "walk k fs (d @ [c]) cs = Ok q \<Longrightarrow> q = d @ c # cs" using Cons.IH [of "d @ [c]"] Cons.prems(1,2) by simp
  ultimately show ?case using Cons.prems(1,3)
    by (auto simp: walk.simps(2) [of k fs d c cs] plain_def is_link_def split: if_splits option.splits node.splits)
qed simp

lemma canonicalize_link_free: "list_all plain p \<Longrightarrow> link_free fs p \<Longrightarrow> canonicalize p fs = Ok q \<Longrightarrow> q = p"
  unfolding canonicalize_def using walk_link_free [of p fs "[]"] by simp

lemma locate_way_free:
  assumes "list_all plain p" and "p \<noteq> []" and "way_free fs p" and "locate p fs = Ok q"
  shows "q = p" and "node_at fs (butlast p) = Some Directory"
proof -
  obtain d c where p: "p = d @ [c]" using assms(2) by (cases p rule: rev_cases) auto
  then have "canonicalize d fs = Ok e \<Longrightarrow> e = d" for e
    using canonicalize_link_free [of d fs e] assms(1,3) by (simp add: way_free_snoc)
  then show "q = p" and "node_at fs (butlast p) = Some Directory"
    using assms(1,4) by (auto simp: locate_def p split: if_splits sum.splits)
qed

lemma symlink_metadata_way_free:
  "list_all plain p \<Longrightarrow> p \<noteq> [] \<Longrightarrow> way_free fs p \<Longrightarrow> symlink_metadata p fs = Ok n \<Longrightarrow> node_at fs p = Some n"
  by (auto simp: symlink_metadata_def dest!: locate_way_free(1) split: sum.splits option.splits)

subsection \<open>What calls change\<close>

text \<open>
  A change of the tree that leaves the nodes outside a set of paths and the content of the files outside
  a set of inodes as they are, and makes no links.
\<close>

definition changes_only :: "path set \<Rightarrow> nat set \<Rightarrow> file_system \<Rightarrow> file_system \<Rightarrow> bool" where
  "changes_only S I fs fs' \<longleftrightarrow>
     (\<forall>q. q \<notin> S \<longrightarrow> node_at fs' q = node_at fs q) \<and> (\<forall>q. is_link fs' q \<longrightarrow> is_link fs q)
     \<and> (\<forall>i. i < fs_next fs \<and> i \<notin> I \<longrightarrow> fs_data fs' i = fs_data fs i) \<and> fs_next fs \<le> fs_next fs' \<and> tree_ok fs'"

lemma changes_only_refl: "tree_ok fs \<Longrightarrow> changes_only S I fs fs"
  by (simp add: changes_only_def)

lemma changes_only_trans:
  "changes_only S I fs fs1 \<Longrightarrow> changes_only S I fs1 fs2 \<Longrightarrow> changes_only S I fs fs2"
  by (auto simp: changes_only_def)

lemma changes_only_mono: "changes_only S I fs fs' \<Longrightarrow> S \<subseteq> S' \<Longrightarrow> I \<subseteq> I' \<Longrightarrow> changes_only S' I' fs fs'"
  unfolding changes_only_def by blast

lemma changes_only_tree: "changes_only S I fs fs' \<Longrightarrow> tree_ok fs'"
  by (simp add: changes_only_def)

lemma link_free_kept: "changes_only S I fs fs' \<Longrightarrow> link_free fs p \<Longrightarrow> link_free fs' p"
  by (auto simp: changes_only_def link_free_def)

lemma way_free_kept: "changes_only S I fs fs' \<Longrightarrow> way_free fs p \<Longrightarrow> way_free fs' p"
  by (auto simp: changes_only_def way_free_def)

lemma node_at_set_node: "p \<noteq> [] \<Longrightarrow> node_at (set_node p n fs) q = (if q = p then Some n else node_at fs q)"
  by (simp add: node_at_def set_node_def update_conv')

lemma node_at_delete_node: "p \<noteq> [] \<Longrightarrow> node_at (delete_node p fs) q = (if q = p then None else node_at fs q)"
  by (simp add: node_at_def delete_node_def delete_conv')

lemma has_entries_iff: "has_entries fs p \<longleftrightarrow> (\<exists>c. node_at fs (p @ [c]) \<noteq> None)"
proof -
  have "(\<exists>q \<in> set (map fst (fs_nodes fs)). q \<noteq> [] \<and> butlast q = p) \<longleftrightarrow> (\<exists>c. p @ [c] \<in> set (map fst (fs_nodes fs)))"
    by (metis append_butlast_last_id append_is_Nil_conv butlast_snoc not_Cons_self2)
  then show ?thesis by (simp add: has_entries_def node_at_def list_ex_iff map_of_eq_None_iff)
qed

lemma changes_only_set_node:
  assumes "tree_ok fs" and "p \<noteq> []" and "node_at fs p = None" and "node_at fs (butlast p) = Some Directory"
    and "\<And>t. n \<noteq> Link t" and "node_at fs' = node_at (set_node p n fs)" and "\<And>i. i < fs_next fs \<Longrightarrow> fs_data fs' i = fs_data fs i"
    and "fs_next fs \<le> fs_next fs'"
  shows "changes_only {p} {} fs fs'"
proof -
  have "butlast p \<noteq> p" using assms(2) by (metis append_butlast_last_id not_Cons_self2 self_append_conv)
  then have "tree_ok fs'"
    using assms(1,3,4) by (auto simp: tree_ok_def assms(6) node_at_set_node [OF assms(2)])
  then show ?thesis
    using assms(5,7,8) by (auto simp: changes_only_def assms(6) is_link_def node_at_set_node [OF assms(2)] split: node.splits)
qed

lemma changes_only_delete_node:
  assumes "tree_ok fs" and "p \<noteq> []" and "\<And>c. node_at fs (p @ [c]) = None"
  shows "changes_only {p} {} fs (delete_node p fs)"
proof -
  have "q \<noteq> [] \<Longrightarrow> node_at fs q \<noteq> None \<Longrightarrow> butlast q \<noteq> p" for q
    using assms(3) by (metis append_butlast_last_id)
  then have "tree_ok (delete_node p fs)"
    using assms(1) by (auto simp: tree_ok_def node_at_delete_node [OF assms(2)])
  moreover have "fs_data (delete_node p fs) = fs_data fs" "fs_next (delete_node p fs) = fs_next fs"
    by (simp_all add: delete_node_def)
  ultimately show ?thesis
    by (auto simp: changes_only_def is_link_def node_at_delete_node [OF assms(2)])
qed

text \<open>The entry that a path names, as a precondition of calls: plain components, and no links on the way.\<close>

definition entry_path :: "file_system \<Rightarrow> path \<Rightarrow> bool" where
  "entry_path fs p \<longleftrightarrow> list_all plain p \<and> p \<noteq> [] \<and> way_free fs p"

lemma entry_path_kept: "changes_only S I fs fs' \<Longrightarrow> entry_path fs p \<Longrightarrow> entry_path fs' p"
  by (auto simp: entry_path_def way_free_kept)

lemma entry_path_locate:
  "entry_path fs p \<Longrightarrow> locate p fs = Ok q \<Longrightarrow> q = p \<and> p \<noteq> [] \<and> node_at fs (butlast p) = Some Directory"
  using locate_way_free by (auto simp: entry_path_def)

lemma entry_path_metadata: "entry_path fs p \<Longrightarrow> symlink_metadata p fs = Ok n \<Longrightarrow> node_at fs p = Some n"
  by (auto simp: entry_path_def symlink_metadata_way_free)

lemma leaf_has_no_entries: "tree_ok fs \<Longrightarrow> node_at fs p \<noteq> Some Directory \<Longrightarrow> node_at fs (p @ [c]) = None"
  by (metis append_is_Nil_conv butlast_snoc not_Cons_self2 tree_ok_def)

lemma create_dir_changes:
  assumes "tree_ok fs" and "entry_path fs p" and "create_dir p fs = (x, fs')"
  shows "changes_only {p} {} fs fs'"
proof (cases "locate p fs")
  case (Inr q)
  note q = entry_path_locate [OF assms(2) Inr]
  show ?thesis
    using assms(1,3) q changes_only_set_node [of fs p Directory "set_node p Directory fs"]
    by (auto simp: create_dir_def Inr changes_only_refl set_node_def split: if_splits)
qed (use assms(1,3) in \<open>auto simp: create_dir_def changes_only_refl\<close>)

lemma create_dir_ok:
  assumes "entry_path fs p" and "create_dir p fs = (Ok (), fs')"
  shows "node_at fs' p = Some Directory" and "node_at fs p = None"
  using assms(2) entry_path_locate [OF assms(1)]
  by (auto simp: create_dir_def node_at_set_node split: sum.splits if_splits)

lemma create_new_changes:
  assumes "tree_ok fs" and "entry_path fs p" and "create_new p fs = (x, fs')"
  shows "changes_only {p} {} fs fs'"
proof (cases "locate p fs")
  case (Inr q)
  note q = entry_path_locate [OF assms(2) Inr]
  show ?thesis
    using assms(1,3) q changes_only_set_node [of fs p "Regular (fs_next fs)" fs']
    by (auto simp: create_new_def Inr changes_only_refl split: if_splits)
qed (use assms(1,3) in \<open>auto simp: create_new_def changes_only_refl\<close>)

lemma create_new_ok:
  assumes "entry_path fs p" and "create_new p fs = (Ok i, fs')"
  shows "node_at fs' p = Some (Regular i)" and "node_at fs p = None" and "i = fs_next fs" and "fs_data fs' i = []"
    and "node_at fs (butlast p) = Some Directory" and "fs_next fs' = Suc i"
proof -
  from assms(2) obtain q where l: "locate p fs = Ok q" by (auto simp: create_new_def split: sum.splits)
  note q = entry_path_locate [OF assms(1) l]
  then have c: "node_at fs p = None" "i = fs_next fs"
    "fs' = (set_node p (Regular i) fs)\<lparr>fs_data := (fs_data fs)(i := []), fs_next := fs_next fs + 1\<rparr>"
    using assms(2) by (auto simp: create_new_def l split: if_splits)
  show "node_at fs p = None" "i = fs_next fs" "fs_data fs' i = []" "fs_next fs' = Suc i" using c by simp_all
  show "node_at fs (butlast p) = Some Directory" using q by blast
  have "node_at fs' p = node_at (set_node p (Regular i) fs) p" unfolding c(3) by (simp add: node_at_def)
  then show "node_at fs' p = Some (Regular i)" using q by (simp add: node_at_set_node)
qed

lemma remove_file_changes:
  assumes "tree_ok fs" and "entry_path fs p" and "remove_file p fs = (x, fs')"
  shows "changes_only {p} {} fs fs'"
proof (cases "locate p fs")
  case (Inr q)
  note q = entry_path_locate [OF assms(2) Inr]
  show ?thesis
    using assms(1,3) q changes_only_delete_node [of fs p] leaf_has_no_entries [OF assms(1), of p]
    by (auto simp: remove_file_def Inr changes_only_refl split: option.splits node.splits if_splits)
qed (use assms(1,3) in \<open>auto simp: remove_file_def changes_only_refl\<close>)

lemma remove_dir_changes:
  assumes "tree_ok fs" and "entry_path fs p" and "remove_dir p fs = (x, fs')"
  shows "changes_only {p} {} fs fs'"
proof (cases "locate p fs")
  case (Inr q)
  note q = entry_path_locate [OF assms(2) Inr]
  show ?thesis
    using assms(1,3) q changes_only_delete_node [of fs p] has_entries_iff [of fs p]
    by (auto simp: remove_dir_def Inr changes_only_refl split: option.splits node.splits if_splits)
qed (use assms(1,3) in \<open>auto simp: remove_dir_def changes_only_refl\<close>)

lemma write_file_at_changes: "tree_ok fs \<Longrightarrow> write_file_at i pos bs fs = (x, fs') \<Longrightarrow> changes_only {} {i} fs fs'"
  by (auto simp: write_file_at_def changes_only_def node_at_def is_link_def tree_ok_def split: if_splits)

lemma map_of_moved:
  "map_of (map (\<lambda>(p, n). (b @ drop (length a) p, n)) (filter (\<lambda>(p, n). prefix a p) xs)) q
     = (if prefix b q then map_of xs (a @ drop (length b) q) else None)"
proof (induction xs)
  case (Cons x xs)
  obtain p n where x: "x = (p, n)" by (cases x)
  have "prefix a p \<Longrightarrow> q = b @ drop (length a) p \<longleftrightarrow> prefix b q \<and> a @ drop (length b) q = p"
    by (auto simp: prefix_def)
  moreover have "\<not> prefix a p \<Longrightarrow> a @ drop (length b) q \<noteq> p" by (auto simp: prefix_def)
  ultimately show ?case using Cons by (cases "prefix a p") (auto simp: x)
qed simp

lemma map_of_filter_key: "map_of (filter (\<lambda>(p, n). P p) xs) q = (if P q then map_of xs q else None)"
  by (induction xs) auto

lemma node_at_move_nodes:
  assumes "a \<noteq> []" and "b \<noteq> []"
  shows "node_at (move_nodes a b fs) q =
     (if prefix b q then node_at fs (a @ drop (length b) q) else if prefix a q then None else node_at fs q)"
proof (cases "q = []")
  case False
  have "map_of (filter (\<lambda>(p, n). \<not> prefix a p \<and> \<not> prefix b p) (fs_nodes fs)) q
     = (if \<not> prefix a q \<and> \<not> prefix b q then map_of (fs_nodes fs) q else None)"
    by (rule map_of_filter_key)
  then show ?thesis using False assms
    by (simp add: node_at_def move_nodes_def map_of_append map_of_moved map_add_def split: option.splits)
qed (use assms in simp)


text \<open>A node that is moved takes no links with it if there are none.\<close>

lemma move_nodes_changes:
  assumes "tree_ok fs" and "a \<noteq> []" and "b \<noteq> []" and "\<not> prefix a b" and "\<not> prefix b a"
    and "node_at fs (butlast b) = Some Directory" and "\<And>q. prefix a q \<Longrightarrow> \<not> is_link fs q"
    and "\<And>c. node_at fs (b @ [c]) = None"
  shows "changes_only {q. prefix a q \<or> prefix b q} {} fs (move_nodes a b fs)"
proof -
  note n = node_at_move_nodes [OF assms(2,3)]
  have t: "node_at (move_nodes a b fs) (butlast q) = Some Directory" if q: "q \<noteq> []" "node_at (move_nodes a b fs) q \<noteq> None" for q
  proof (cases "prefix b q")
    case True
    then obtain s where s: "q = b @ s" by (auto simp: prefix_def)
    show ?thesis
    proof (cases s rule: rev_cases)
      case Nil
      have "\<not> prefix b (butlast b)" using assms(3) by (metis append_butlast_last_id append_self_conv not_Cons_self2 prefixE same_prefix_nil prefix_order.antisym prefixI)
      moreover have "\<not> prefix a (butlast b)" using assms(4) prefix_order.trans [of a "butlast b" b] prefixeq_butlast by blast
      ultimately show ?thesis using assms(6) by (simp add: n s Nil)
    next
      case (snoc s' c)
      have "node_at fs (a @ s' @ [c]) \<noteq> None" using q(2) by (simp add: n s snoc)
      then have "node_at fs (a @ s') = Some Directory" using assms(1) by (metis append_assoc append_is_Nil_conv butlast_snoc not_Cons_self2 tree_ok_def)
      then show ?thesis by (simp add: n s snoc butlast_append)
    qed
  next
    case False
    then have q': "\<not> prefix a q" "node_at fs q \<noteq> None" using q(2) by (auto simp: n split: if_splits)
    then have d: "node_at fs (butlast q) = Some Directory" using assms(1) q(1) by (simp add: tree_ok_def)
    moreover have "\<not> prefix a (butlast q)" using q'(1) prefix_order.trans prefixeq_butlast by blast
    moreover have "\<not> prefix b (butlast q)"  using False prefix_order.trans prefixeq_butlast by blast
    ultimately show ?thesis by (simp add: n)
  qed
  have "is_link fs q" if "is_link (move_nodes a b fs) q" for q
    using that assms(7) [of "a @ drop (length b) q"] by (auto simp: is_link_def n split: if_splits)
  moreover have "fs_data (move_nodes a b fs) = fs_data fs" "fs_next (move_nodes a b fs) = fs_next fs"
    by (simp_all add: move_nodes_def)
  ultimately show ?thesis using t by (auto simp: changes_only_def tree_ok_def n)
qed

lemma rename_path_changes:
  assumes "tree_ok fs" and "entry_path fs a" and "entry_path fs b" and "\<And>q. prefix a q \<Longrightarrow> \<not> is_link fs q"
    and "rename_path a b fs = (x, fs')"
  shows "changes_only {q. prefix a q \<or> prefix b q} {} fs fs'"
proof (cases "fs' = fs")
  case False
  then obtain a' b' where l: "locate a fs = Ok a'" "locate b fs = Ok b'"
    using assms(5) by (auto simp: rename_path_def split: sum.splits)
  note e = entry_path_locate [OF assms(2) l(1)] entry_path_locate [OF assms(3) l(2)]
  then have r: "rename_refused fs a b = None" "\<not> prefix a b" "\<not> prefix b a" "fs' = move_nodes a b fs"
    using assms(5) False by (auto simp: rename_path_def l split: option.splits if_splits)
  have "node_at fs (b @ [c]) = None" for c
  proof (cases "node_at fs b = Some Directory")
    case True
    then have "\<not> has_entries fs b" using r(1) by (auto simp: rename_refused_def split: option.splits node.splits if_splits)
    then show ?thesis by (simp add: has_entries_iff)
  qed (use leaf_has_no_entries [OF assms(1)] in blast)
  then show ?thesis using move_nodes_changes [OF assms(1) _ _ r(2,3)] e assms(4) r(4) by auto
qed (use assms(1) changes_only_refl in blast)

lemma rename_path_ok:
  assumes "entry_path fs a" and "entry_path fs b" and "rename_path a b fs = (Ok (), fs')" and "a \<noteq> b"
  shows "node_at fs' b = node_at fs a" and "node_at fs' a = None" and "node_at fs a \<noteq> None" and "fs_data fs' = fs_data fs"
    and "\<And>q. \<not> prefix a q \<Longrightarrow> \<not> prefix b q \<Longrightarrow> node_at fs' q = node_at fs q"
proof -
  obtain a' b' where l: "locate a fs = Ok a'" "locate b fs = Ok b'"
    using assms(3) by (auto simp: rename_path_def split: sum.splits)
  note e = entry_path_locate [OF assms(1) l(1)] entry_path_locate [OF assms(2) l(2)]
  then have r: "rename_refused fs a b = None" "\<not> prefix a b" "\<not> prefix b a" "fs' = move_nodes a b fs"
    using assms(3,4) by (auto simp: rename_path_def l split: option.splits if_splits)
  have n: "node_at fs' q = (if prefix b q then node_at fs (a @ drop (length b) q) else if prefix a q then None else node_at fs q)" for q
    unfolding r(4) by (rule node_at_move_nodes) (use e in auto)
  show "node_at fs' b = node_at fs a" "node_at fs' a = None" using r(2,3) by (simp_all add: n)
  show "node_at fs a \<noteq> None" using r(1) by (auto simp: rename_refused_def split: option.splits)
  show "fs_data fs' = fs_data fs" by (simp add: r(4) move_nodes_def)
  show "\<And>q. \<not> prefix a q \<Longrightarrow> \<not> prefix b q \<Longrightarrow> node_at fs' q = node_at fs q" by (simp add: n)
qed

end
