(* ===== verification/Trzsz_Files.thy ===== *)
theory Trzsz_Files
  imports Trzsz_Buffer Rust_Fs "HOL-Library.List_Lexorder" "HOL-Library.Product_Lexorder"
begin

text \<open>
  The local files of trzsz transfers: the checks on names that a remote host sends (\<^verbatim>\<open>hapcli-trzsz/src/path_guard.rs\<close>),
  the owners of transfers and their handles (\<^verbatim>\<open>lib.rs\<close>), and the operations on files to receive and
  to send (\<^verbatim>\<open>download.rs\<close>, \<^verbatim>\<open>upload.rs\<close>). Operations are taken one after the other and read the clock once. Unicode
  normalisation and the platform are the argument \<open>trzsz_platform\<close>, random identifiers are arguments, and so is
  the order in which a directory is scanned.
\<close>

subsection \<open>The source's operations: names and paths\<close>

record trzsz_platform =
  pf_nfc :: "bytes \<Rightarrow> bytes"
  pf_windows :: bool

definition TRZSZ_API_VERSION :: nat where
  "TRZSZ_API_VERSION = 1"

definition MAX_TRANSFER_CHUNK_SIZE :: nat where
  "MAX_TRANSFER_CHUNK_SIZE = 1024 * 1024"

definition MAX_HANDLES_PER_OWNER :: nat where
  "MAX_HANDLES_PER_OWNER = 256"

definition WINDOWS_RESERVED_NAMES :: "bytes list" where
  "WINDOWS_RESERVED_NAMES = map str_lit
     [''CON'', ''PRN'', ''AUX'', ''NUL'', ''COM1'', ''COM2'', ''COM3'', ''COM4'', ''COM5'', ''COM6'', ''COM7'', ''COM8'',
      ''COM9'', ''LPT1'', ''LPT2'', ''LPT3'', ''LPT4'', ''LPT5'', ''LPT6'', ''LPT7'', ''LPT8'', ''LPT9'']"

definition WINDOWS_ILLEGAL_CHARS :: bytes where
  "WINDOWS_ILLEGAL_CHARS = [60, 62, 58, 34, 124, 63, 42, 0]"

definition path_display :: "path \<Rightarrow> bytes" where
  "path_display p = (if p = [] then [47] else concat (map (\<lambda>c. 47 # c) p))"

definition is_control_char :: "bytes \<Rightarrow> bool" where
  "is_control_char ch \<longleftrightarrow>
     (case ch of [b] \<Rightarrow> b < 32 \<or> b = 127 | [a, b] \<Rightarrow> a = 0xC2 \<and> 0x80 \<le> b \<and> b \<le> 0x9F | _ \<Rightarrow> False)"

definition ascii_uppercase :: "bytes \<Rightarrow> bytes" where
  "ascii_uppercase = map (\<lambda>b. if 97 \<le> b \<and> b \<le> 122 then b - 32 else b)"

definition validate_api_version :: "nat \<Rightarrow> trzsz_error + unit" where
  "validate_api_version api_version =
     (if api_version \<noteq> TRZSZ_API_VERSION then Err (TzInvalidApiVersion TRZSZ_API_VERSION api_version) else Ok ())"

definition validate_owner_id :: "bytes \<Rightarrow> trzsz_error + unit" where
  "validate_owner_id owner_id =
     (if owner_id = [] \<or> length owner_id > 256 then Err TzInvalidOwnerId
      else if list_ex is_control_char (lossy_chars owner_id) then Err TzInvalidOwnerId
      else Ok ())"

definition canonicalize_existing_root :: "bytes \<Rightarrow> file_system \<Rightarrow> trzsz_error + path" where
  "canonicalize_existing_root root_path fs =
     (case metadata (path_from fs root_path) fs of
        Inl _ \<Rightarrow> Err TzIo
      | Inr n \<Rightarrow>
          if n \<noteq> Directory then Err (TzInvalidPath (str_lit ''Download root is not a directory: '' @ root_path))
          else (case canonicalize (path_from fs root_path) fs of Inl _ \<Rightarrow> Err TzIo | Inr q \<Rightarrow> Ok q))"

definition sanitize_component :: "trzsz_platform \<Rightarrow> bytes \<Rightarrow> trzsz_error + bytes" where
  "sanitize_component pf component =
     (if component = [] then Err (TzInvalidPath (str_lit ''Empty path component''))
      else let normalized = pf_nfc pf component in
      if normalized = [] then Err (TzInvalidPath (str_lit ''Empty path component''))
      else if normalized = [46] \<or> normalized = [46, 46]
      then Err (TzInvalidPath (str_lit ''Relative path component is not allowed: '' @ normalized))
      else if 47 \<in> set normalized \<or> 92 \<in> set normalized \<or> list_ex is_control_char (lossy_chars normalized)
      then Err (TzInvalidPath (str_lit ''Illegal path component: '' @ normalized))
      else if pf_windows pf \<and> list_ex (\<lambda>b. b \<in> set WINDOWS_ILLEGAL_CHARS) normalized
      then Err (TzInvalidPath (str_lit ''Illegal path component: '' @ normalized))
      else if pf_windows pf \<and> last normalized \<in> {32, 46} then Err (TzReservedName normalized)
      else if pf_windows pf \<and> ascii_uppercase normalized \<in> set WINDOWS_RESERVED_NAMES then Err (TzReservedName normalized)
      else Ok normalized)"

fun sanitize_components :: "trzsz_platform \<Rightarrow> bytes list \<Rightarrow> trzsz_error + bytes list" where
  "sanitize_components pf [] = Ok []"
| "sanitize_components pf (c # cs) =
     (case sanitize_component pf c of
        Inl e \<Rightarrow> Err e
      | Inr x \<Rightarrow> (case sanitize_components pf cs of Inl e \<Rightarrow> Err e | Inr xs \<Rightarrow> Ok (x # xs)))"

definition sanitize_upload_rel_path :: "trzsz_platform \<Rightarrow> path \<Rightarrow> trzsz_error + bytes list" where
  "sanitize_upload_rel_path pf p = sanitize_components pf (map from_utf8_lossy p)"

definition sanitize_download_rel_path :: "trzsz_platform \<Rightarrow> bytes \<Rightarrow> trzsz_error + bytes list" where
  "sanitize_download_rel_path pf file_name =
     (case sanitize_components pf (split_on 47 (map (\<lambda>b. if b = 92 then 47 else b) file_name)) of
        Inl e \<Rightarrow> Err e
      | Inr components \<Rightarrow>
          if components = [] then Err (TzInvalidPath (str_lit ''Empty relative path'')) else Ok components)"

fun make_parents :: "path \<Rightarrow> bytes list \<Rightarrow> (file_system, trzsz_error, unit) chan" where
  "make_parents current [] fs = (Ok (), fs)"
| "make_parents current (c # cs) fs =
     (let current = path_push current c in
      case symlink_metadata current fs of
        Inr (Link _) \<Rightarrow> (Err (TzSymlinkNotAllowed (path_display current)), fs)
      | Inr (Regular _) \<Rightarrow> (Err (TzInvalidPath (str_lit ''Parent path is not a directory: '' @ path_display current)), fs)
      | Inr Directory \<Rightarrow> make_parents current cs fs
      | Inl IoNotFound \<Rightarrow>
          (case create_dir current fs of
             (Inl _, fs1) \<Rightarrow> (Err TzIo, fs1)
           | (Inr _, fs1) \<Rightarrow> make_parents current cs fs1)
      | Inl _ \<Rightarrow> (Err TzIo, fs))"

definition build_download_target_path :: "path \<Rightarrow> bytes list \<Rightarrow> (file_system, trzsz_error, path) chan" where
  "build_download_target_path root rel_components =
     (if rel_components = [] then io_fail (TzInvalidPath (str_lit ''Empty relative path''))
      else io_bind (make_parents root (butlast rel_components)) (\<lambda>_ fs.
        let final_path = foldl path_push root rel_components in
        case symlink_metadata final_path fs of
          Inr (Link _) \<Rightarrow> (Err (TzSymlinkNotAllowed (path_display final_path)), fs)
        | _ \<Rightarrow> (Ok final_path, fs)))"

definition ensure_within_root :: "path \<Rightarrow> path \<Rightarrow> trzsz_error + unit" where
  "ensure_within_root root candidate =
     (if prefix root candidate then Ok ()
      else Err (TzInvalidPath (str_lit ''Target escapes prepared root: '' @ path_display candidate)))"

fun check_parents :: "path \<Rightarrow> bytes list \<Rightarrow> file_system \<Rightarrow> trzsz_error + unit" where
  "check_parents current [] fs = Ok ()"
| "check_parents current (c # cs) fs =
     (let current = path_push current c in
      case symlink_metadata current fs of
        Inl IoNotFound \<Rightarrow> Err (TzInvalidPath (str_lit ''Parent path no longer exists: '' @ path_display current))
      | Inl _ \<Rightarrow> Err TzIo
      | Inr (Link _) \<Rightarrow> Err (TzSymlinkNotAllowed (path_display current))
      | Inr (Regular _) \<Rightarrow> Err (TzInvalidPath (str_lit ''Parent path is not a directory: '' @ path_display current))
      | Inr Directory \<Rightarrow> check_parents current cs fs)"

definition validate_download_target_path :: "path \<Rightarrow> path \<Rightarrow> file_system \<Rightarrow> trzsz_error + unit" where
  "validate_download_target_path root final_path fs =
     res_bind (ensure_within_root root final_path) (\<lambda>_.
     if final_path = [] then Err (TzInvalidPath (str_lit ''Final path has no parent: '' @ path_display final_path))
     else
       let parent = butlast final_path in
       res_bind (ensure_within_root root parent) (\<lambda>_.
       res_bind (check_parents root (drop (length root) parent) fs) (\<lambda>_.
       case symlink_metadata final_path fs of
         Inr (Link _) \<Rightarrow> Err (TzSymlinkNotAllowed (path_display final_path))
       | Inr Directory \<Rightarrow> Err (TzInvalidPath (str_lit ''Target path resolves to a directory: '' @ path_display final_path))
       | _ \<Rightarrow> Ok ())))"

definition build_temp_path :: "bytes \<Rightarrow> path \<Rightarrow> bytes \<Rightarrow> trzsz_error + path" where
  "build_temp_path uuid final_path local_name =
     (if final_path = [] then Err (TzInvalidPath (str_lit ''Final path has no parent: '' @ path_display final_path))
      else Ok (path_push (butlast final_path)
             (46 # local_name @ str_lit ''.oxide-trzsz-'' @ uuid @ str_lit ''.part'')))"

subsection \<open>The source's operations: owners and handles\<close>

record owner_state =
  ow_authorized_upload_paths :: "path list"
  ow_prepared_download_root :: "path option"
  ow_upload_handles :: "bytes list"
  ow_download_handles :: "bytes list"
  ow_download_directories :: "path list"
  ow_touched_at :: nat

record upload_handle =
  uh_owner_id :: bytes
  uh_size :: nat
  uh_file :: nat
  uh_touched_at :: nat

record download_handle =
  dh_owner_id :: bytes
  dh_root_path :: path
  dh_final_path :: path
  dh_temp_path :: path
  dh_overwrite :: bool
  dh_file :: nat
  dh_position :: nat
  dh_touched_at :: nat

record trzsz_state =
  ts_owners :: "(bytes \<times> owner_state) list"
  ts_upload_handles :: "(bytes \<times> upload_handle) list"
  ts_download_handles :: "(bytes \<times> download_handle) list"
  ts_handle_ttl :: nat

definition trzsz_state_new :: "nat \<Rightarrow> trzsz_state" where
  "trzsz_state_new handle_ttl =
     \<lparr>ts_owners = [], ts_upload_handles = [], ts_download_handles = [], ts_handle_ttl = handle_ttl\<rparr>"

definition owner_new :: "nat \<Rightarrow> owner_state" where
  "owner_new now =
     \<lparr>ow_authorized_upload_paths = [], ow_prepared_download_root = None, ow_upload_handles = [], ow_download_handles = [],
      ow_download_directories = [], ow_touched_at = now\<rparr>"

definition owner_entry :: "nat \<Rightarrow> bytes \<Rightarrow> trzsz_state \<Rightarrow> owner_state" where
  "owner_entry now owner_id st = (case map_of (ts_owners st) owner_id of None \<Rightarrow> owner_new now | Some ow \<Rightarrow> ow)"

definition put_owner :: "bytes \<Rightarrow> owner_state \<Rightarrow> trzsz_state \<Rightarrow> trzsz_state" where
  "put_owner owner_id ow st = st\<lparr>ts_owners := AList.update owner_id ow (ts_owners st)\<rparr>"

definition modify_owner :: "bytes \<Rightarrow> (owner_state \<Rightarrow> owner_state) \<Rightarrow> trzsz_state \<Rightarrow> trzsz_state" where
  "modify_owner owner_id f st = st\<lparr>ts_owners := AList.map_entry owner_id f (ts_owners st)\<rparr>"

definition release_upload_handle :: "nat \<Rightarrow> bytes \<Rightarrow> bytes \<Rightarrow> trzsz_state \<Rightarrow> trzsz_state" where
  "release_upload_handle now owner_id handle_id =
     modify_owner owner_id (\<lambda>ow. ow\<lparr>ow_upload_handles := removeAll handle_id (ow_upload_handles ow), ow_touched_at := now\<rparr>)"

definition release_download_handle :: "nat \<Rightarrow> bytes \<Rightarrow> bytes \<Rightarrow> trzsz_state \<Rightarrow> trzsz_state" where
  "release_download_handle now owner_id handle_id =
     modify_owner owner_id (\<lambda>ow. ow\<lparr>ow_download_handles := removeAll handle_id (ow_download_handles ow), ow_touched_at := now\<rparr>)"

record cleanup_plan =
  cp_temp_paths :: "path list"
  cp_directory_paths :: "path list"

fun drop_uploads :: "nat \<Rightarrow> (bytes \<times> bytes) list \<Rightarrow> trzsz_state \<Rightarrow> trzsz_state" where
  "drop_uploads now [] st = st"
| "drop_uploads now ((handle_id, owner_id) # rest) st =
     drop_uploads now rest
       (release_upload_handle now owner_id handle_id
         (st\<lparr>ts_upload_handles := AList.delete handle_id (ts_upload_handles st)\<rparr>))"

fun drop_downloads :: "nat \<Rightarrow> (bytes \<times> bytes) list \<Rightarrow> path list \<Rightarrow> trzsz_state \<Rightarrow> path list \<times> trzsz_state" where
  "drop_downloads now [] temp_paths st = (temp_paths, st)"
| "drop_downloads now ((handle_id, owner_id) # rest) temp_paths st =
     drop_downloads now rest
       (case map_of (ts_download_handles st) handle_id of None \<Rightarrow> temp_paths | Some h \<Rightarrow> temp_paths @ [dh_temp_path h])
       (release_download_handle now owner_id handle_id
         (st\<lparr>ts_download_handles := AList.delete handle_id (ts_download_handles st)\<rparr>))"

fun drop_owners :: "bytes list \<Rightarrow> path list \<Rightarrow> trzsz_state \<Rightarrow> path list \<times> trzsz_state" where
  "drop_owners [] directory_paths st = (directory_paths, st)"
| "drop_owners (owner_id # rest) directory_paths st =
     drop_owners rest
       (case map_of (ts_owners st) owner_id of None \<Rightarrow> directory_paths | Some ow \<Rightarrow> directory_paths @ ow_download_directories ow)
       (st\<lparr>ts_owners := AList.delete owner_id (ts_owners st)\<rparr>)"

definition collect_expired_cleanup :: "nat \<Rightarrow> trzsz_state \<Rightarrow> cleanup_plan \<times> trzsz_state" where
  "collect_expired_cleanup now st =
     (let ttl = ts_handle_ttl st;
          expired_uploads = [(i, uh_owner_id h). (i, h) \<leftarrow> ts_upload_handles st, now - uh_touched_at h \<ge> ttl];
          st1 = drop_uploads now expired_uploads st;
          expired_downloads = [(i, dh_owner_id h). (i, h) \<leftarrow> ts_download_handles st1, now - dh_touched_at h \<ge> ttl];
          (temp_paths, st2) = drop_downloads now expired_downloads [] st1;
          expired_owners = [i. (i, ow) \<leftarrow> ts_owners st2,
            ow_upload_handles ow = [] \<and> ow_download_handles ow = [] \<and> now - ow_touched_at ow \<ge> ttl];
          (directory_paths, st3) = drop_owners expired_owners [] st2 in
      (\<lparr>cp_temp_paths = temp_paths, cp_directory_paths = directory_paths\<rparr>, st3))"

fun remove_all :: "(path \<Rightarrow> unit fs_call) \<Rightarrow> path list \<Rightarrow> nat \<Rightarrow> file_system \<Rightarrow> nat \<times> file_system" where
  "remove_all remove [] errors fs = (errors, fs)"
| "remove_all remove (p # ps) errors fs =
     (case remove p fs of
        (Inl _, fs1) \<Rightarrow> remove_all remove ps (errors + 1) fs1
      | (Inr _, fs1) \<Rightarrow> remove_all remove ps errors fs1)"

definition cleanup_execute :: "cleanup_plan \<Rightarrow> file_system \<Rightarrow> nat \<times> file_system" where
  "cleanup_execute plan fs =
     (let (errors, fs1) = remove_all remove_file (cp_temp_paths plan) 0 fs in
      remove_all remove_dir (rev (sort_key (\<lambda>p. (length p, p)) (cp_directory_paths plan))) errors fs1)"

text \<open>The state together with the file system that it works on.\<close>

record trzsz_world =
  zw_state :: trzsz_state
  zw_fs :: file_system

type_synonym 'a trzsz_op = "(trzsz_world, trzsz_error, 'a) chan"

definition in_state :: "(trzsz_state, trzsz_error, 'a) chan \<Rightarrow> 'a trzsz_op" where
  "in_state m w = (case m (zw_state w) of (x, st) \<Rightarrow> (x, w\<lparr>zw_state := st\<rparr>))"

definition in_fs :: "(file_system, trzsz_error, 'a) chan \<Rightarrow> 'a trzsz_op" where
  "in_fs m w = (case m (zw_fs w) of (x, fs) \<Rightarrow> (x, w\<lparr>zw_fs := fs\<rparr>))"

definition look_fs :: "(file_system \<Rightarrow> trzsz_error + 'a) \<Rightarrow> 'a trzsz_op" where
  "look_fs f w = (f (zw_fs w), w)"

definition io_result :: "'a fs_call \<Rightarrow> (file_system, trzsz_error, 'a) chan" where
  "io_result c fs = (case c fs of (Inl _, fs1) \<Rightarrow> (Err TzIo, fs1) | (Inr x, fs1) \<Rightarrow> (Ok x, fs1))"

definition purge_world :: "nat \<Rightarrow> trzsz_world \<Rightarrow> trzsz_world" where
  "purge_world now w =
     (let (plan, st) = collect_expired_cleanup now (zw_state w) in
      w\<lparr>zw_state := st, zw_fs := snd (cleanup_execute plan (zw_fs w))\<rparr>)"

definition purge_expired :: "nat \<Rightarrow> unit trzsz_op" where
  "purge_expired now w = (Ok (), purge_world now w)"

definition set_authorized_upload_paths :: "nat \<Rightarrow> bytes \<Rightarrow> path list \<Rightarrow> unit trzsz_op" where
  "set_authorized_upload_paths now owner_id paths =
     io_bind (purge_expired now) (\<lambda>_. in_state (\<lambda>st.
       (Ok (), put_owner owner_id
          ((owner_entry now owner_id st)\<lparr>ow_authorized_upload_paths := paths, ow_touched_at := now\<rparr>) st)))"

definition is_upload_path_authorized :: "nat \<Rightarrow> bytes \<Rightarrow> path \<Rightarrow> bool trzsz_op" where
  "is_upload_path_authorized now owner_id p =
     io_bind (purge_expired now) (\<lambda>_. in_state (\<lambda>st.
       case map_of (ts_owners st) owner_id of
         None \<Rightarrow> (Ok False, st)
       | Some ow \<Rightarrow> (Ok (p \<in> set (ow_authorized_upload_paths ow)), modify_owner owner_id (ow_touched_at_update (\<lambda>_. now)) st)))"

definition register_upload_handle :: "nat \<Rightarrow> bytes \<Rightarrow> bytes \<Rightarrow> nat \<Rightarrow> nat \<Rightarrow> (bytes \<times> nat) trzsz_op" where
  "register_upload_handle now handle_id owner_id file sz =
     io_bind (purge_expired now) (\<lambda>_. in_state (\<lambda>st.
       let ow = owner_entry now owner_id st in
       if length (ow_upload_handles ow) \<ge> MAX_HANDLES_PER_OWNER
       then (Err (TzInvalidState (str_lit ''Too many active upload handles for owner: '' @ owner_id)), put_owner owner_id ow st)
       else (Ok (handle_id, sz),
             (put_owner owner_id (ow\<lparr>ow_upload_handles := List.insert handle_id (ow_upload_handles ow), ow_touched_at := now\<rparr>) st)
               \<lparr>ts_upload_handles := AList.update handle_id
                  \<lparr>uh_owner_id = owner_id, uh_size = sz, uh_file = file, uh_touched_at = now\<rparr> (ts_upload_handles st)\<rparr>)))"

text \<open>Reading, writing and cleaning up begin with a purge, like the others; what follows it is a definition of its own.\<close>

definition read_section :: "nat \<Rightarrow> bytes \<Rightarrow> bytes \<Rightarrow> nat \<Rightarrow> nat \<Rightarrow> bytes trzsz_op" where
  "read_section now owner_id handle_id offset len w =
      (let st = modify_owner owner_id (ow_touched_at_update (\<lambda>_. now)) (zw_state w); w1 = w\<lparr>zw_state := st\<rparr> in
       case map_of (ts_upload_handles st) handle_id of
         None \<Rightarrow> (Err (TzHandleNotFound handle_id), w1)
       | Some h \<Rightarrow>
           if uh_owner_id h \<noteq> owner_id then (Err TzHandleOwnerMismatch, w1)
           else if offset > uh_size h then (Err (TzInvalidOffset offset (uh_size h)), w1)
           else
             (case read_file_at (uh_file h) offset len (zw_fs w) of Inl _ \<Rightarrow> Err TzIo | Inr bs \<Rightarrow> Ok bs,
              w\<lparr>zw_state := st\<lparr>ts_upload_handles :=
                AList.update handle_id (h\<lparr>uh_touched_at := now\<rparr>) (ts_upload_handles st)\<rparr>\<rparr>))"

definition state_read_upload_chunk :: "nat \<Rightarrow> bytes \<Rightarrow> bytes \<Rightarrow> nat \<Rightarrow> nat \<Rightarrow> bytes trzsz_op" where
  "state_read_upload_chunk now owner_id handle_id offset len =
     io_bind (purge_expired now) (\<lambda>_. read_section now owner_id handle_id offset len)"

definition close_upload_handle :: "nat \<Rightarrow> bytes \<Rightarrow> bytes \<Rightarrow> unit trzsz_op" where
  "close_upload_handle now owner_id handle_id =
     io_bind (purge_expired now) (\<lambda>_. in_state (\<lambda>st.
       case map_of (ts_upload_handles st) handle_id of
         None \<Rightarrow> (Err (TzHandleNotFound handle_id), st)
       | Some h \<Rightarrow>
           if uh_owner_id h \<noteq> owner_id then (Err TzHandleOwnerMismatch, st)
           else (Ok (), release_upload_handle now owner_id handle_id
                  (st\<lparr>ts_upload_handles := AList.delete handle_id (ts_upload_handles st)\<rparr>))))"

definition state_prepare_download_root :: "nat \<Rightarrow> bytes \<Rightarrow> path \<Rightarrow> path trzsz_op" where
  "state_prepare_download_root now owner_id root_path =
     io_bind (purge_expired now) (\<lambda>_. in_state (\<lambda>st.
       (Ok root_path, put_owner owner_id
          ((owner_entry now owner_id st)\<lparr>ow_prepared_download_root := Some root_path, ow_touched_at := now\<rparr>) st)))"

definition prepared_download_root :: "nat \<Rightarrow> bytes \<Rightarrow> path option trzsz_op" where
  "prepared_download_root now owner_id =
     io_bind (purge_expired now) (\<lambda>_. in_state (\<lambda>st.
       case map_of (ts_owners st) owner_id of
         None \<Rightarrow> (Ok None, st)
       | Some ow \<Rightarrow> (Ok (ow_prepared_download_root ow), modify_owner owner_id (ow_touched_at_update (\<lambda>_. now)) st)))"

record download_open =
  do_writer_id :: bytes
  do_local_name :: bytes
  do_display_name :: bytes
  do_temp_path :: path
  do_final_path :: path

definition register_download_handle ::
  "nat \<Rightarrow> bytes \<Rightarrow> bytes \<Rightarrow> bytes \<Rightarrow> bytes \<Rightarrow> path \<Rightarrow> path \<Rightarrow> path \<Rightarrow> bool \<Rightarrow> nat \<Rightarrow> download_open trzsz_op" where
  "register_download_handle now writer_id owner_id local_name display_name root_path final_path temp_path overwrite file =
     io_bind (purge_expired now) (\<lambda>_. in_state (\<lambda>st.
       let ow = owner_entry now owner_id st in
       if length (ow_download_handles ow) \<ge> MAX_HANDLES_PER_OWNER
       then (Err (TzInvalidState (str_lit ''Too many active download handles for owner: '' @ owner_id)), put_owner owner_id ow st)
       else (Ok \<lparr>do_writer_id = writer_id, do_local_name = local_name, do_display_name = display_name,
                 do_temp_path = temp_path, do_final_path = final_path\<rparr>,
             (put_owner owner_id (ow\<lparr>ow_download_handles := List.insert writer_id (ow_download_handles ow), ow_touched_at := now\<rparr>) st)
               \<lparr>ts_download_handles := AList.update writer_id
                  \<lparr>dh_owner_id = owner_id, dh_root_path = root_path, dh_final_path = final_path, dh_temp_path = temp_path,
                   dh_overwrite = overwrite, dh_file = file, dh_position = 0, dh_touched_at = now\<rparr> (ts_download_handles st)\<rparr>)))"

definition register_download_directory :: "nat \<Rightarrow> bytes \<Rightarrow> path \<Rightarrow> unit trzsz_op" where
  "register_download_directory now owner_id directory_path =
     io_bind (purge_expired now) (\<lambda>_. in_state (\<lambda>st.
       let ow = owner_entry now owner_id st in
       (Ok (), put_owner owner_id
          (ow\<lparr>ow_download_directories := List.insert directory_path (ow_download_directories ow), ow_touched_at := now\<rparr>) st)))"

definition state_commit_download_directory :: "nat \<Rightarrow> bytes \<Rightarrow> path \<Rightarrow> unit trzsz_op" where
  "state_commit_download_directory now owner_id directory_path =
     io_bind (purge_expired now) (\<lambda>_. in_state (\<lambda>st.
       (Ok (), modify_owner owner_id
          (\<lambda>ow. ow\<lparr>ow_download_directories := removeAll directory_path (ow_download_directories ow), ow_touched_at := now\<rparr>) st)))"

definition write_section :: "nat \<Rightarrow> bytes \<Rightarrow> bytes \<Rightarrow> bytes \<Rightarrow> unit trzsz_op" where
  "write_section now owner_id writer_id data w =
      (let st = modify_owner owner_id (ow_touched_at_update (\<lambda>_. now)) (zw_state w); w1 = w\<lparr>zw_state := st\<rparr> in
       case map_of (ts_download_handles st) writer_id of
         None \<Rightarrow> (Err (TzHandleNotFound writer_id), w1)
       | Some h \<Rightarrow>
           if dh_owner_id h \<noteq> owner_id then (Err TzHandleOwnerMismatch, w1)
           else
             (case write_file_at (dh_file h) (dh_position h) data (zw_fs w) of
                (Inl _, fs) \<Rightarrow>
                  (Err TzIo, w\<lparr>zw_state := st\<lparr>ts_download_handles :=
                     AList.update writer_id (h\<lparr>dh_touched_at := now\<rparr>) (ts_download_handles st)\<rparr>, zw_fs := fs\<rparr>)
              | (Inr _, fs) \<Rightarrow>
                  (Ok (), w\<lparr>zw_state := st\<lparr>ts_download_handles :=
                     AList.update writer_id (h\<lparr>dh_touched_at := now, dh_position := dh_position h + length data\<rparr>)
                       (ts_download_handles st)\<rparr>, zw_fs := fs\<rparr>)))"

definition state_write_download_chunk :: "nat \<Rightarrow> bytes \<Rightarrow> bytes \<Rightarrow> bytes \<Rightarrow> unit trzsz_op" where
  "state_write_download_chunk now owner_id writer_id data =
     io_bind (purge_expired now) (\<lambda>_. write_section now owner_id writer_id data)"

text \<open>Taking a download handle out of the state, which finishing and aborting begin with.\<close>

definition take_download_handle :: "nat \<Rightarrow> bytes \<Rightarrow> bytes \<Rightarrow> (trzsz_state, trzsz_error, download_handle) chan" where
  "take_download_handle now owner_id writer_id st =
     (case map_of (ts_download_handles st) writer_id of
        None \<Rightarrow> (Err (TzHandleNotFound writer_id), st)
      | Some h \<Rightarrow>
          if dh_owner_id h \<noteq> owner_id then (Err TzHandleOwnerMismatch, st)
          else (Ok h, release_download_handle now owner_id writer_id
                 (st\<lparr>ts_download_handles := AList.delete writer_id (ts_download_handles st)\<rparr>)))"

definition put_in_place :: "download_handle \<Rightarrow> (file_system, trzsz_error, unit) chan" where
  "put_in_place h =
     io_bind (\<lambda>fs. (case sync_file (dh_file h) fs of Inl _ \<Rightarrow> Err TzIo | Inr _ \<Rightarrow> Ok (), fs)) (\<lambda>_.
     io_bind (\<lambda>fs. (validate_download_target_path (dh_root_path h) (dh_final_path h) fs, fs)) (\<lambda>_.
     io_bind (\<lambda>fs.
       case symlink_metadata (dh_final_path h) fs of
         Inl _ \<Rightarrow> (Ok (), fs)
       | Inr (Link _) \<Rightarrow> (Err (TzSymlinkNotAllowed (path_display (dh_final_path h))), fs)
       | Inr Directory \<Rightarrow>
           (Err (TzInvalidPath (str_lit ''Cannot replace existing directory: '' @ path_display (dh_final_path h))), fs)
       | Inr (Regular _) \<Rightarrow>
           if \<not> dh_overwrite h then (Err (TzAlreadyExists (path_display (dh_final_path h))), fs)
           else io_result (remove_file (dh_final_path h)) fs) (\<lambda>_.
     io_result (rename_path (dh_temp_path h) (dh_final_path h)))))"

definition finish_download_handle :: "nat \<Rightarrow> bytes \<Rightarrow> bytes \<Rightarrow> unit trzsz_op" where
  "finish_download_handle now owner_id writer_id =
     io_bind (purge_expired now) (\<lambda>_.
     io_bind (in_state (take_download_handle now owner_id writer_id)) (\<lambda>h.
     in_fs (\<lambda>fs.
       case put_in_place h fs of
         (Inl e, fs1) \<Rightarrow> (Err e, snd (remove_file (dh_temp_path h) fs1))
       | (Inr _, fs1) \<Rightarrow> (Ok (), fs1))))"

definition abort_download_handle :: "nat \<Rightarrow> bytes \<Rightarrow> bytes \<Rightarrow> unit trzsz_op" where
  "abort_download_handle now owner_id writer_id =
     io_bind (in_state (take_download_handle now owner_id writer_id)) (\<lambda>h.
     in_fs (\<lambda>fs. (Ok (), snd (remove_file (dh_temp_path h) fs))))"

record owner_cleanup =
  oc_owner_id :: bytes
  oc_upload_handles :: nat
  oc_download_handles :: nat
  oc_cleanup_errors :: nat

definition owner_cleanup_plan :: "owner_state \<Rightarrow> trzsz_state \<Rightarrow> cleanup_plan \<times> trzsz_state" where
  "owner_cleanup_plan ow st =
     (\<lparr>cp_temp_paths = [dh_temp_path h. i \<leftarrow> ow_download_handles ow,
         h \<leftarrow> (case map_of (ts_download_handles st) i of None \<Rightarrow> [] | Some h \<Rightarrow> [h])],
       cp_directory_paths = ow_download_directories ow\<rparr>,
      st\<lparr>ts_upload_handles := filter (\<lambda>(i, h). i \<notin> set (ow_upload_handles ow)) (ts_upload_handles st),
         ts_download_handles := filter (\<lambda>(i, h). i \<notin> set (ow_download_handles ow)) (ts_download_handles st)\<rparr>)"

definition cleanup_section :: "bytes \<Rightarrow> owner_cleanup trzsz_op" where
  "cleanup_section owner_id w =
      (let st = zw_state w in
       case map_of (ts_owners st) owner_id of
         None \<Rightarrow> (Ok \<lparr>oc_owner_id = owner_id, oc_upload_handles = 0, oc_download_handles = 0, oc_cleanup_errors = 0\<rparr>, w)
       | Some ow \<Rightarrow>
           let (plan, st1) = owner_cleanup_plan ow (st\<lparr>ts_owners := AList.delete owner_id (ts_owners st)\<rparr>);
               (cleanup_errors, fs1) = cleanup_execute plan (zw_fs w) in
           (Ok \<lparr>oc_owner_id = owner_id, oc_upload_handles = length (ow_upload_handles ow),
                oc_download_handles = length (ow_download_handles ow), oc_cleanup_errors = cleanup_errors\<rparr>,
            w\<lparr>zw_state := st1, zw_fs := fs1\<rparr>))"

definition cleanup_owner :: "nat \<Rightarrow> bytes \<Rightarrow> owner_cleanup trzsz_op" where
  "cleanup_owner now owner_id = io_bind (purge_expired now) (\<lambda>_. cleanup_section owner_id)"

subsection \<open>The source's operations: receiving files\<close>

definition checked :: "nat \<Rightarrow> bytes \<Rightarrow> 'a trzsz_op \<Rightarrow> 'a trzsz_op" where
  "checked api_version owner_id m =
     io_bind (io_lift (validate_api_version api_version)) (\<lambda>_. io_bind (io_lift (validate_owner_id owner_id)) (\<lambda>_. m))"

definition prepare_download_root :: "nat \<Rightarrow> bytes \<Rightarrow> nat \<Rightarrow> bytes \<Rightarrow> path trzsz_op" where
  "prepare_download_root now owner_id api_version root_path =
     checked api_version owner_id
       (io_bind (look_fs (canonicalize_existing_root root_path)) (state_prepare_download_root now owner_id))"

text \<open>The root that an owner has prepared, if it is the one of the request.\<close>

definition requested_root :: "nat \<Rightarrow> bytes \<Rightarrow> bytes \<Rightarrow> path trzsz_op" where
  "requested_root now owner_id root_path =
     io_bind (prepared_download_root now owner_id) (\<lambda>prepared.
       case prepared of
         None \<Rightarrow> io_fail TzRootNotPrepared
       | Some prepared_root \<Rightarrow>
           io_bind (look_fs (canonicalize_existing_root root_path)) (\<lambda>requested.
             if prepared_root \<noteq> requested then io_fail TzRootMismatch else io_return prepared_root))"

definition target_path :: "path \<Rightarrow> bytes list \<Rightarrow> path trzsz_op" where
  "target_path prepared_root rel_components =
     io_bind (in_fs (build_download_target_path prepared_root rel_components)) (\<lambda>final_path.
     io_bind (io_lift (ensure_within_root prepared_root final_path)) (\<lambda>_. io_return final_path))"

definition check_save_target :: "path \<Rightarrow> bool \<Rightarrow> file_system \<Rightarrow> trzsz_error + unit" where
  "check_save_target final_path overwrite fs =
     (case symlink_metadata final_path fs of
        Inl _ \<Rightarrow> Ok ()
      | Inr (Link _) \<Rightarrow> Err (TzSymlinkNotAllowed (path_display final_path))
      | Inr Directory \<Rightarrow> Err (TzInvalidPath (str_lit ''Target path resolves to a directory: '' @ path_display final_path))
      | Inr (Regular _) \<Rightarrow> if \<not> overwrite then Err (TzAlreadyExists (path_display final_path)) else Ok ())"

definition open_save_file ::
  "trzsz_platform \<Rightarrow> nat \<Rightarrow> bytes \<Rightarrow> bytes \<Rightarrow> bytes \<Rightarrow> nat \<Rightarrow> bytes \<Rightarrow> bytes \<Rightarrow> bool \<Rightarrow> download_open trzsz_op" where
  "open_save_file pf now uuid writer_id owner_id api_version root_path file_name overwrite =
     checked api_version owner_id
       (io_bind (requested_root now owner_id root_path) (\<lambda>prepared_root.
        io_bind (io_lift (sanitize_download_rel_path pf file_name)) (\<lambda>rel_components.
        io_bind (target_path prepared_root rel_components) (\<lambda>final_path.
        io_bind (look_fs (check_save_target final_path overwrite)) (\<lambda>_.
        let local_name = last rel_components in
        io_bind (io_lift (build_temp_path uuid final_path local_name)) (\<lambda>temp_path.
        io_bind (in_fs (io_result (create_new temp_path))) (\<lambda>file.
        register_download_handle now writer_id owner_id local_name local_name prepared_root final_path temp_path
          overwrite file)))))))"

fun existing_parents :: "path \<Rightarrow> bytes list \<Rightarrow> file_system \<Rightarrow> trzsz_error + unit" where
  "existing_parents parent_path [] fs = Ok ()"
| "existing_parents parent_path (c # cs) fs =
     (let parent_path = path_push parent_path c in
      case symlink_metadata parent_path fs of
        Inr (Link _) \<Rightarrow> Err (TzSymlinkNotAllowed (path_display parent_path))
      | Inr (Regular _) \<Rightarrow> Err (TzInvalidPath (str_lit ''Parent path is not a directory: '' @ path_display parent_path))
      | Inr Directory \<Rightarrow> existing_parents parent_path cs fs
      | Inl IoNotFound \<Rightarrow> Err (TzInvalidPath (str_lit ''Parent directory does not exist: '' @ path_display parent_path))
      | Inl _ \<Rightarrow> Err TzIo)"

definition create_at :: "nat \<Rightarrow> bytes \<Rightarrow> bool \<Rightarrow> path \<Rightarrow> bool trzsz_op" where
  "create_at now owner_id must_create final_path w =
     (case symlink_metadata final_path (zw_fs w) of
        Inr (Link _) \<Rightarrow> (Err (TzSymlinkNotAllowed (path_display final_path)), w)
      | Inr Directory \<Rightarrow> (if must_create then Err (TzAlreadyExists (path_display final_path)) else Ok False, w)
      | Inr (Regular _) \<Rightarrow> (Err (TzInvalidPath (str_lit ''Target path resolves to a file: '' @ path_display final_path)), w)
      | Inl IoNotFound \<Rightarrow>
          io_bind (in_fs (io_result (create_dir final_path))) (\<lambda>_.
          io_bind (register_download_directory now owner_id final_path) (\<lambda>_. io_return True)) w
      | Inl _ \<Rightarrow> (Err TzIo, w))"

definition create_download_directory ::
  "trzsz_platform \<Rightarrow> nat \<Rightarrow> bytes \<Rightarrow> nat \<Rightarrow> bytes \<Rightarrow> bytes \<Rightarrow> bool \<Rightarrow> bool trzsz_op" where
  "create_download_directory pf now owner_id api_version root_path directory_path must_create =
     checked api_version owner_id
       (io_bind (requested_root now owner_id root_path) (\<lambda>prepared_root.
        io_bind (io_lift (sanitize_download_rel_path pf directory_path)) (\<lambda>rel_components.
        io_bind (look_fs (existing_parents prepared_root (butlast rel_components))) (\<lambda>_.
        io_bind (target_path prepared_root rel_components) (create_at now owner_id must_create)))))"

definition commit_download_directory :: "trzsz_platform \<Rightarrow> nat \<Rightarrow> bytes \<Rightarrow> nat \<Rightarrow> bytes \<Rightarrow> bytes \<Rightarrow> unit trzsz_op" where
  "commit_download_directory pf now owner_id api_version root_path directory_path =
     checked api_version owner_id
       (io_bind (requested_root now owner_id root_path) (\<lambda>prepared_root.
        io_bind (io_lift (sanitize_download_rel_path pf directory_path)) (\<lambda>rel_components.
        io_bind (target_path prepared_root rel_components) (\<lambda>final_path.
        state_commit_download_directory now owner_id final_path))))"

definition remove_directory_at :: "nat \<Rightarrow> bytes \<Rightarrow> path \<Rightarrow> unit trzsz_op" where
  "remove_directory_at now owner_id final_path w =
     (case symlink_metadata final_path (zw_fs w) of
        Inr (Link _) \<Rightarrow> (Err (TzSymlinkNotAllowed (path_display final_path)), w)
      | Inr (Regular _) \<Rightarrow> (Err (TzInvalidPath (str_lit ''Target path is not a directory: '' @ path_display final_path)), w)
      | Inr Directory \<Rightarrow>
          (case remove_dir final_path (zw_fs w) of
             (Inr _, fs) \<Rightarrow> state_commit_download_directory now owner_id final_path (w\<lparr>zw_fs := fs\<rparr>)
           | (Inl IoDirectoryNotEmpty, fs) \<Rightarrow> (Ok (), w\<lparr>zw_fs := fs\<rparr>)
           | (Inl IoNotFound, fs) \<Rightarrow> state_commit_download_directory now owner_id final_path (w\<lparr>zw_fs := fs\<rparr>)
           | (Inl _, fs) \<Rightarrow> (Err TzIo, w\<lparr>zw_fs := fs\<rparr>))
      | Inl IoNotFound \<Rightarrow> state_commit_download_directory now owner_id final_path w
      | Inl _ \<Rightarrow> (Err TzIo, w))"

definition remove_download_directory :: "trzsz_platform \<Rightarrow> nat \<Rightarrow> bytes \<Rightarrow> nat \<Rightarrow> bytes \<Rightarrow> bytes \<Rightarrow> unit trzsz_op" where
  "remove_download_directory pf now owner_id api_version root_path directory_path =
     checked api_version owner_id
       (io_bind (requested_root now owner_id root_path) (\<lambda>prepared_root.
        io_bind (io_lift (sanitize_download_rel_path pf directory_path)) (\<lambda>rel_components.
        io_bind (target_path prepared_root rel_components) (remove_directory_at now owner_id))))"

definition remove_file_at :: "path \<Rightarrow> (file_system, trzsz_error, unit) chan" where
  "remove_file_at final_path fs =
     (case symlink_metadata final_path fs of
        Inr (Link _) \<Rightarrow> (Err (TzSymlinkNotAllowed (path_display final_path)), fs)
      | Inr Directory \<Rightarrow> (Err (TzInvalidPath (str_lit ''Target path is a directory: '' @ path_display final_path)), fs)
      | Inr (Regular _) \<Rightarrow>
          (case remove_file final_path fs of
             (Inr _, fs1) \<Rightarrow> (Ok (), fs1)
           | (Inl IoNotFound, fs1) \<Rightarrow> (Ok (), fs1)
           | (Inl _, fs1) \<Rightarrow> (Err TzIo, fs1))
      | Inl IoNotFound \<Rightarrow> (Ok (), fs)
      | Inl _ \<Rightarrow> (Err TzIo, fs))"

definition remove_download_file :: "trzsz_platform \<Rightarrow> nat \<Rightarrow> bytes \<Rightarrow> nat \<Rightarrow> bytes \<Rightarrow> bytes \<Rightarrow> unit trzsz_op" where
  "remove_download_file pf now owner_id api_version root_path file_path =
     checked api_version owner_id
       (io_bind (requested_root now owner_id root_path) (\<lambda>prepared_root.
        io_bind (io_lift (sanitize_download_rel_path pf file_path)) (\<lambda>rel_components.
        io_bind (target_path prepared_root rel_components) (\<lambda>final_path. in_fs (remove_file_at final_path)))))"

definition write_download_chunk :: "nat \<Rightarrow> bytes \<Rightarrow> nat \<Rightarrow> bytes \<Rightarrow> bytes \<Rightarrow> unit trzsz_op" where
  "write_download_chunk now owner_id api_version writer_id data =
     checked api_version owner_id
       (if length data > MAX_TRANSFER_CHUNK_SIZE then io_fail (TzChunkTooLarge (length data) MAX_TRANSFER_CHUNK_SIZE)
        else state_write_download_chunk now owner_id writer_id data)"

definition finish_download_file :: "nat \<Rightarrow> bytes \<Rightarrow> nat \<Rightarrow> bytes \<Rightarrow> unit trzsz_op" where
  "finish_download_file now owner_id api_version writer_id =
     checked api_version owner_id (finish_download_handle now owner_id writer_id)"

definition abort_download_file :: "nat \<Rightarrow> bytes \<Rightarrow> nat \<Rightarrow> bytes \<Rightarrow> unit trzsz_op" where
  "abort_download_file now owner_id api_version writer_id =
     checked api_version owner_id (abort_download_handle now owner_id writer_id)"

subsection \<open>The source's operations: sending files\<close>

record upload_entry =
  ue_path_id :: nat
  ue_path :: path
  ue_rel_path :: "bytes list"
  ue_size :: nat
  ue_is_dir :: bool
  ue_is_symlink :: bool

definition file_len :: "file_system \<Rightarrow> node \<Rightarrow> nat" where
  "file_len fs n = (case n of Regular i \<Rightarrow> length (fs_data fs i) | _ \<Rightarrow> 0)"

text \<open>The entries of a scanned directory; the scan gives paths or the texts of errors.\<close>

fun scan_entries ::
  "trzsz_platform \<Rightarrow> file_system \<Rightarrow> nat \<Rightarrow> path \<Rightarrow> bytes list \<Rightarrow> (bytes + path) list \<Rightarrow> trzsz_error + upload_entry list" where
  "scan_entries pf fs path_id canonical_root rel_root [] = Ok []"
| "scan_entries pf fs path_id canonical_root rel_root (entry # entries) =
     (case entry of
        Inl error \<Rightarrow> Err (TzInvalidPath error)
      | Inr p \<Rightarrow>
          (case symlink_metadata p fs of
             Inl _ \<Rightarrow> Err TzIo
           | Inr n \<Rightarrow>
               if (case n of Link _ \<Rightarrow> True | _ \<Rightarrow> False) then Err (TzSymlinkNotAllowed (path_display p))
               else if \<not> prefix canonical_root p then Err (TzInvalidPath (str_lit ''prefix not found''))
               else res_bind (sanitize_upload_rel_path pf (drop (length canonical_root) p)) (\<lambda>rel.
                 res_bind (scan_entries pf fs path_id canonical_root rel_root entries) (\<lambda>rest.
                 Ok (\<lparr>ue_path_id = path_id, ue_path = p, ue_rel_path = rel_root @ rel, ue_size = file_len fs n,
                      ue_is_dir = (n = Directory), ue_is_symlink = False\<rparr> # rest)))))"

definition scan_upload_path ::
  "trzsz_platform \<Rightarrow> (file_system \<Rightarrow> path \<Rightarrow> (bytes + path) list) \<Rightarrow> bool \<Rightarrow> file_system \<Rightarrow> nat \<Rightarrow> bytes
     \<Rightarrow> trzsz_error + upload_entry list" where
  "scan_upload_path pf walk_dir allow_directory fs path_id raw_path =
     (let root = path_from fs raw_path in
      case symlink_metadata root fs of
        Inl _ \<Rightarrow> Err TzIo
      | Inr (Link _) \<Rightarrow> Err (TzSymlinkNotAllowed raw_path)
      | Inr n \<Rightarrow>
          if n = Directory \<and> \<not> allow_directory then Err (TzDirectoryNotAllowed raw_path)
          else (case canonicalize root fs of
              Inl _ \<Rightarrow> Err TzIo
            | Inr canonical_root \<Rightarrow>
                (case path_file_name raw_path of
                   None \<Rightarrow> Err (TzInvalidPath raw_path)
                 | Some name \<Rightarrow>
                     res_bind (sanitize_upload_rel_path pf [name]) (\<lambda>rel_root.
                     if n \<noteq> Directory
                     then Ok [\<lparr>ue_path_id = path_id, ue_path = canonical_root, ue_rel_path = rel_root, ue_size = file_len fs n,
                               ue_is_dir = False, ue_is_symlink = False\<rparr>]
                     else scan_entries pf fs path_id canonical_root rel_root (walk_dir fs canonical_root)))))"

fun scan_upload_paths ::
  "trzsz_platform \<Rightarrow> (file_system \<Rightarrow> path \<Rightarrow> (bytes + path) list) \<Rightarrow> bool \<Rightarrow> file_system \<Rightarrow> nat \<Rightarrow> bytes list
     \<Rightarrow> trzsz_error + upload_entry list" where
  "scan_upload_paths pf walk_dir allow_directory fs index [] = Ok []"
| "scan_upload_paths pf walk_dir allow_directory fs index (raw_path # raw_paths) =
     res_bind (scan_upload_path pf walk_dir allow_directory fs (index + 1) raw_path) (\<lambda>entries.
     res_bind (scan_upload_paths pf walk_dir allow_directory fs (index + 1) raw_paths) (\<lambda>rest. Ok (entries @ rest)))"

definition build_upload_entries ::
  "trzsz_platform \<Rightarrow> (file_system \<Rightarrow> path \<Rightarrow> (bytes + path) list) \<Rightarrow> nat \<Rightarrow> bytes \<Rightarrow> nat \<Rightarrow> bytes list \<Rightarrow> bool
     \<Rightarrow> upload_entry list trzsz_op" where
  "build_upload_entries pf walk_dir now owner_id api_version paths allow_directory =
     checked api_version owner_id
       (if paths = [] then io_fail (TzInvalidPath (str_lit ''At least one upload path is required''))
        else io_bind (look_fs (\<lambda>fs. scan_upload_paths pf walk_dir allow_directory fs 0 paths)) (\<lambda>entries.
          io_bind (set_authorized_upload_paths now owner_id (remdups (map ue_path entries))) (\<lambda>_. io_return entries)))"

definition upload_target :: "bytes \<Rightarrow> file_system \<Rightarrow> trzsz_error + (path \<times> nat)" where
  "upload_target p fs =
     (case symlink_metadata (path_from fs p) fs of
        Inl _ \<Rightarrow> Err TzIo
      | Inr (Link _) \<Rightarrow> Err (TzSymlinkNotAllowed p)
      | Inr Directory \<Rightarrow> Err (TzInvalidPath (str_lit ''Upload target is not a regular file: '' @ p))
      | Inr (Regular i) \<Rightarrow>
          (case canonicalize (path_from fs p) fs of Inl _ \<Rightarrow> Err TzIo | Inr canonical \<Rightarrow> Ok (canonical, file_len fs (Regular i))))"

definition open_upload_file :: "nat \<Rightarrow> bytes \<Rightarrow> bytes \<Rightarrow> nat \<Rightarrow> bytes \<Rightarrow> (bytes \<times> nat) trzsz_op" where
  "open_upload_file now handle_id owner_id api_version p =
     checked api_version owner_id
       (io_bind (look_fs (upload_target p)) (\<lambda>(canonical, len).
        io_bind (is_upload_path_authorized now owner_id canonical) (\<lambda>authorized.
        if \<not> authorized then io_fail (TzUnauthorizedPath (path_display canonical))
        else io_bind (look_fs (\<lambda>fs. case open_read canonical fs of Inl _ \<Rightarrow> Err TzIo | Inr i \<Rightarrow> Ok i)) (\<lambda>file.
          register_upload_handle now handle_id owner_id file len))))"

definition read_upload_chunk :: "nat \<Rightarrow> bytes \<Rightarrow> nat \<Rightarrow> bytes \<Rightarrow> nat \<Rightarrow> nat \<Rightarrow> bytes trzsz_op" where
  "read_upload_chunk now owner_id api_version handle_id offset len =
     checked api_version owner_id
       (if len > MAX_TRANSFER_CHUNK_SIZE then io_fail (TzChunkTooLarge len MAX_TRANSFER_CHUNK_SIZE)
        else state_read_upload_chunk now owner_id handle_id offset len)"

definition close_upload_file :: "nat \<Rightarrow> bytes \<Rightarrow> nat \<Rightarrow> bytes \<Rightarrow> unit trzsz_op" where
  "close_upload_file now owner_id api_version handle_id =
     checked api_version owner_id (close_upload_handle now owner_id handle_id)"

end
