(* ===== verification/Trzsz_File_Runs.thy ===== *)
theory Trzsz_File_Runs
  imports Trzsz_Files
begin

text \<open>
  The invariant of the file operations of trzsz and the runs over which it holds: every path that the state remembers is below
  a directory prepared for downloads and is reached without links. \<open>safe\<close> describes an operation that changes files below
  these directories only; the operations are composed of safe parts. The locale \<open>removal\<close> is what cleaning up needs of a call.
\<close>

subsection \<open>Names\<close>

lemma sanitize_component_ok:
  "sanitize_component pf c = Ok x \<Longrightarrow> plain x \<and> 47 \<notin> set x"
  by (auto simp: sanitize_component_def plain_def Let_def split: if_splits)

lemma sanitize_components_ok:
  "sanitize_components pf cs = Ok xs \<Longrightarrow> list_all (\<lambda>x. plain x \<and> 47 \<notin> set x) xs \<and> length xs = length cs"
  by (induction cs arbitrary: xs) (auto dest: sanitize_component_ok split: sum.splits)

lemma sanitize_download_ok:
  "sanitize_download_rel_path pf name = Ok xs \<Longrightarrow> list_all (\<lambda>x. plain x \<and> 47 \<notin> set x) xs \<and> xs \<noteq> []"
  by (auto simp: sanitize_download_rel_path_def dest!: sanitize_components_ok split: sum.splits if_splits)

lemma path_push_plain: "47 \<notin> set c \<Longrightarrow> path_push p c = p @ [c]"
  by (simp add: path_push_def path_absolute_slash split_on_absent)

lemma foldl_path_push: "list_all (\<lambda>x. plain x \<and> 47 \<notin> set x) cs \<Longrightarrow> foldl path_push p cs = p @ cs"
  by (induction cs arbitrary: p) (auto simp: path_push_plain)

subsection \<open>The invariant\<close>

definition below_roots :: "path set \<Rightarrow> path set" where
  "below_roots R = {q. \<exists>r \<in> R. strict_prefix r q}"

definition target_ok :: "path set \<Rightarrow> file_system \<Rightarrow> path \<Rightarrow> bool" where
  "target_ok R fs p \<longleftrightarrow> entry_path fs p \<and> p \<in> below_roots R"

definition handle_ok :: "path set \<Rightarrow> file_system \<Rightarrow> download_handle \<Rightarrow> bool" where
  "handle_ok R fs h \<longleftrightarrow> target_ok R fs (dh_final_path h) \<and> target_ok R fs (dh_temp_path h)
     \<and> dh_temp_path h \<noteq> dh_final_path h \<and> butlast (dh_temp_path h) = butlast (dh_final_path h)
     \<and> (\<forall>q. prefix (dh_temp_path h) q \<longrightarrow> \<not> is_link fs q)"

definition owner_ok :: "path set \<Rightarrow> file_system \<Rightarrow> owner_state \<Rightarrow> bool" where
  "owner_ok R fs ow \<longleftrightarrow> (\<forall>d \<in> set (ow_download_directories ow). target_ok R fs d)
     \<and> (\<forall>r. ow_prepared_download_root ow = Some r \<longrightarrow> r \<in> R)"

definition files_ok :: "path set \<Rightarrow> trzsz_world \<Rightarrow> bool" where
  "files_ok R w \<longleftrightarrow> tree_ok (zw_fs w) \<and> (\<forall>r \<in> R. list_all plain r \<and> link_free (zw_fs w) r)
     \<and> (\<forall>i h. map_of (ts_download_handles (zw_state w)) i = Some h \<longrightarrow> handle_ok R (zw_fs w) h)
     \<and> (\<forall>i ow. map_of (ts_owners (zw_state w)) i = Some ow \<longrightarrow> owner_ok R (zw_fs w) ow)"

lemma target_ok_kept: "changes_only S I fs fs' \<Longrightarrow> target_ok R fs p \<Longrightarrow> target_ok R fs' p"
  by (auto simp: target_ok_def entry_path_kept)

lemma handle_ok_kept: "changes_only S I fs fs' \<Longrightarrow> handle_ok R fs h \<Longrightarrow> handle_ok R fs' h"
  using target_ok_kept by (auto simp: handle_ok_def changes_only_def)

lemma owner_ok_kept: "changes_only S I fs fs' \<Longrightarrow> owner_ok R fs ow \<Longrightarrow> owner_ok R fs' ow"
  using target_ok_kept by (auto simp: owner_ok_def)

text \<open>A change of the files keeps the invariant, and so does a state with fewer handles and directories.\<close>

definition owner_shrinks :: "owner_state \<Rightarrow> owner_state \<Rightarrow> bool" where
  "owner_shrinks ow ow' \<longleftrightarrow> set (ow_download_directories ow') \<subseteq> set (ow_download_directories ow)
     \<and> ow_prepared_download_root ow' = ow_prepared_download_root ow"

definition shrinks :: "trzsz_state \<Rightarrow> trzsz_state \<Rightarrow> bool" where
  "shrinks st st' \<longleftrightarrow>
     (\<forall>i h. map_of (ts_download_handles st') i = Some h \<longrightarrow> map_of (ts_download_handles st) i = Some h)
     \<and> (\<forall>i ow'. map_of (ts_owners st') i = Some ow' \<longrightarrow> (\<exists>ow. map_of (ts_owners st) i = Some ow \<and> owner_shrinks ow ow'))"

lemma files_ok_fs: "files_ok R w \<Longrightarrow> changes_only S I (zw_fs w) fs \<Longrightarrow> files_ok R (w\<lparr>zw_fs := fs\<rparr>)"
  using link_free_kept handle_ok_kept owner_ok_kept by (auto simp: files_ok_def changes_only_tree)

lemma files_ok_shrinks: "files_ok R w \<Longrightarrow> shrinks (zw_state w) st \<Longrightarrow> files_ok R (w\<lparr>zw_state := st\<rparr>)"
proof -
  assume w: "files_ok R w" and s: "shrinks (zw_state w) st"
  have "owner_ok R (zw_fs w) ow'" if ow': "map_of (ts_owners st) i = Some ow'" for i ow'
  proof -
    obtain ow where ow: "map_of (ts_owners (zw_state w)) i = Some ow" "owner_shrinks ow ow'"
      using s ow' unfolding shrinks_def by blast
    then have "owner_ok R (zw_fs w) ow" using w by (simp add: files_ok_def)
    then show ?thesis using ow(2) by (auto simp: owner_ok_def owner_shrinks_def)
  qed
  moreover have "handle_ok R (zw_fs w) h" if "map_of (ts_download_handles st) i = Some h" for i h
  proof -
    have "map_of (ts_download_handles (zw_state w)) i = Some h" using s that unfolding shrinks_def by blast
    then show ?thesis using w by (simp add: files_ok_def)
  qed
  ultimately show ?thesis using w by (simp add: files_ok_def)
qed

lemma owner_shrinks_refl: "owner_shrinks ow ow" by (simp add: owner_shrinks_def)

lemma owner_shrinks_trans: "owner_shrinks ow ow1 \<Longrightarrow> owner_shrinks ow1 ow2 \<Longrightarrow> owner_shrinks ow ow2"
  by (auto simp: owner_shrinks_def)

lemma shrinks_refl: "shrinks st st" by (simp add: shrinks_def owner_shrinks_refl)

lemma shrinks_trans: "shrinks st st1 \<Longrightarrow> shrinks st1 st2 \<Longrightarrow> shrinks st st2"
  unfolding shrinks_def using owner_shrinks_trans by blast

lemma shrinks_modify_owner:
  "(\<And>ow. owner_shrinks ow (f ow)) \<Longrightarrow> shrinks st (modify_owner i f st)"
  by (auto simp: shrinks_def modify_owner_def map_of_map_entry owner_shrinks_refl split: option.splits if_splits)

lemma shrinks_delete_download: "shrinks st (st\<lparr>ts_download_handles := AList.delete i (ts_download_handles st)\<rparr>)"
  by (simp add: shrinks_def delete_conv' owner_shrinks_refl)

lemma shrinks_release_download: "shrinks st (release_download_handle now o_id i st)"
  unfolding release_download_handle_def by (rule shrinks_modify_owner) (simp add: owner_shrinks_def)

lemma shrinks_release_upload: "shrinks st (release_upload_handle now o_id i st)"
  unfolding release_upload_handle_def by (rule shrinks_modify_owner) (simp add: owner_shrinks_def)

lemma shrinks_uploads: "shrinks st (st\<lparr>ts_upload_handles := u\<rparr>)"
  by (simp add: shrinks_def owner_shrinks_refl)

lemma drop_uploads_shrinks: "shrinks st (drop_uploads now xs st)"
proof (induction now xs st rule: drop_uploads.induct)
  case (2 now handle_id owner_id rest st)
  then show ?case using shrinks_trans [OF shrinks_trans [OF shrinks_uploads shrinks_release_upload]] by simp
qed (simp add: shrinks_refl)

lemma drop_downloads_shrinks:
  "drop_downloads now xs ts st = (ts', st') \<Longrightarrow>
     shrinks st st' \<and> (\<forall>p \<in> set ts'. p \<in> set ts \<or> (\<exists>i h. map_of (ts_download_handles st) i = Some h \<and> p = dh_temp_path h))"
proof (induction now xs ts st arbitrary: ts' st' rule: drop_downloads.induct)
  case (2 now handle_id owner_id rest ts st)
  let ?st = "release_download_handle now owner_id handle_id
    (st\<lparr>ts_download_handles := AList.delete handle_id (ts_download_handles st)\<rparr>)"
  have s: "shrinks st ?st" using shrinks_trans [OF shrinks_delete_download shrinks_release_download] .
  have sub: "map_of (ts_download_handles ?st) i = Some h \<Longrightarrow> map_of (ts_download_handles st) i = Some h" for i h
    using s by (simp add: shrinks_def)
  let ?ts = "case map_of (ts_download_handles st) handle_id of None \<Rightarrow> ts | Some h \<Rightarrow> ts @ [dh_temp_path h]"
  have t: "p \<in> set ?ts \<Longrightarrow> p \<in> set ts \<or> (\<exists>i h. map_of (ts_download_handles st) i = Some h \<and> p = dh_temp_path h)" for p
    by (auto split: option.splits)
  have ih: "shrinks ?st st'" "\<forall>p \<in> set ts'. p \<in> set ?ts \<or> (\<exists>i h. map_of (ts_download_handles ?st) i = Some h \<and> p = dh_temp_path h)"
    using 2(1) [of ts' st'] 2(2) by simp_all
  show ?case using shrinks_trans [OF s ih(1)] ih(2) t sub by blast
qed (auto simp: shrinks_refl)

lemma drop_owners_shrinks:
  "drop_owners xs ds st = (ds', st') \<Longrightarrow>
     shrinks st st' \<and> (\<forall>d \<in> set ds'. d \<in> set ds \<or> (\<exists>i ow. map_of (ts_owners st) i = Some ow \<and> d \<in> set (ow_download_directories ow)))"
proof (induction xs ds st arbitrary: ds' st' rule: drop_owners.induct)
  case (2 owner_id rest ds st)
  let ?st = "st\<lparr>ts_owners := AList.delete owner_id (ts_owners st)\<rparr>"
  have s: "shrinks st ?st" by (simp add: shrinks_def delete_conv' owner_shrinks_refl)
  have sub: "map_of (ts_owners ?st) i = Some ow \<Longrightarrow> map_of (ts_owners st) i = Some ow" for i ow
    by (simp add: delete_conv' split: if_splits)
  let ?ds = "case map_of (ts_owners st) owner_id of None \<Rightarrow> ds | Some ow \<Rightarrow> ds @ ow_download_directories ow"
  have t: "d \<in> set ?ds \<Longrightarrow> d \<in> set ds \<or> (\<exists>i ow. map_of (ts_owners st) i = Some ow \<and> d \<in> set (ow_download_directories ow))" for d
    by (auto split: option.splits)
  have ih: "shrinks ?st st'"
    "\<forall>d \<in> set ds'. d \<in> set ?ds \<or> (\<exists>i ow. map_of (ts_owners ?st) i = Some ow \<and> d \<in> set (ow_download_directories ow))"
    using 2(1) [of ds' st'] 2(2) by simp_all
  show ?case using shrinks_trans [OF s ih(1)] ih(2) t sub by blast
qed (auto simp: shrinks_refl)

text \<open>Calls that remove what a path names and nothing else.\<close>

locale removal =
  fixes remove :: "path \<Rightarrow> unit fs_call"
  assumes removal_changes:
    "tree_ok fs \<Longrightarrow> entry_path fs p \<Longrightarrow> remove p fs = (x, fs') \<Longrightarrow> changes_only {p} {} fs fs'"
begin

lemma remove_all_changes:
  "tree_ok fs \<Longrightarrow> \<forall>p \<in> set ps. target_ok R fs p \<Longrightarrow> remove_all remove ps errors fs = (n, fs') \<Longrightarrow>
     changes_only (below_roots R) {} fs fs'"
proof (induction ps arbitrary: errors fs)
  case Nil
  then show ?case by (simp add: changes_only_refl)
next
  case (Cons p ps)
  obtain x fs1 where r: "remove p fs = (x, fs1)" by fastforce
  have c: "changes_only (below_roots R) {} fs fs1"
    using removal_changes [OF Cons.prems(1) _ r] Cons.prems(2) changes_only_mono [of "{p}" "{}" fs fs1]
    by (auto simp: target_ok_def)
  obtain k where "remove_all remove ps k fs1 = (n, fs')"
    using Cons.prems(3) r by (auto split: sum.splits)
  then have "changes_only (below_roots R) {} fs1 fs'"
    using Cons.IH [of fs1 k] Cons.prems(2) changes_only_tree [OF c] target_ok_kept [OF c] by auto
  then show ?case by (rule changes_only_trans [OF c])
qed

end

interpretation file_removal: removal remove_file
  by unfold_locales (rule remove_file_changes)

interpretation dir_removal: removal remove_dir
  by unfold_locales (rule remove_dir_changes)

lemma cleanup_execute_changes:
  assumes "tree_ok fs" and "\<forall>p \<in> set (cp_temp_paths plan). target_ok R fs p" and "\<forall>p \<in> set (cp_directory_paths plan). target_ok R fs p"
    and "cleanup_execute plan fs = (n, fs')"
  shows "changes_only (below_roots R) {} fs fs'"
proof -
  obtain k fs1 where r: "remove_all remove_file (cp_temp_paths plan) 0 fs = (k, fs1)" by fastforce
  have c: "changes_only (below_roots R) {} fs fs1" by (rule file_removal.remove_all_changes [OF assms(1,2) r])
  have "\<forall>p \<in> set (rev (sort_key (\<lambda>p. (length p, p)) (cp_directory_paths plan))). target_ok R fs1 p"
    using assms(3) target_ok_kept [OF c] by simp
  moreover have "remove_all remove_dir (rev (sort_key (\<lambda>p. (length p, p)) (cp_directory_paths plan))) k fs1 = (n, fs')"
    using assms(4) r by (simp add: cleanup_execute_def)
  ultimately show ?thesis
    using changes_only_trans [OF c dir_removal.remove_all_changes [OF changes_only_tree [OF c]]] by blast
qed


subsection \<open>Operations that stay below the roots\<close>

definition safe ::
  "path set \<Rightarrow> nat set \<Rightarrow> (trzsz_world \<Rightarrow> bool) \<Rightarrow> 'a trzsz_op \<Rightarrow> ('a \<Rightarrow> trzsz_world \<Rightarrow> bool) \<Rightarrow> bool" where
  "safe R I P m Q \<longleftrightarrow> (\<forall>w x w'. files_ok R w \<and> P w \<and> m w = (x, w') \<longrightarrow>
     changes_only (below_roots R) I (zw_fs w) (zw_fs w') \<and> files_ok R w' \<and> (\<forall>y. x = Ok y \<longrightarrow> Q y w'))"

lemma safe_bind:
  assumes "safe R I P m Q" and "\<And>y. safe R I (Q y) (f y) Q'"
  shows "safe R I P (io_bind m f) Q'"
  unfolding safe_def
proof (intro allI impI)
  fix w x w' assume w: "files_ok R w \<and> P w \<and> io_bind m f w = (x, w')"
  then have "io_bind m f w = (x, w')" by simp
  then show "changes_only (below_roots R) I (zw_fs w) (zw_fs w') \<and> files_ok R w' \<and> (\<forall>y. x = Ok y \<longrightarrow> Q' y w')"
  proof (cases rule: io_bind_cases)
    case (err e)
    then show ?thesis using assms(1) w unfolding safe_def by blast
  next
    case (ok y w1)
    have m: "changes_only (below_roots R) I (zw_fs w) (zw_fs w1)" "files_ok R w1" "Q y w1"
      using assms(1) w ok(1) unfolding safe_def by blast+
    then have f: "changes_only (below_roots R) I (zw_fs w1) (zw_fs w') \<and> files_ok R w' \<and> (\<forall>z. x = Ok z \<longrightarrow> Q' z w')"
      using assms(2) ok(2) unfolding safe_def by blast
    then show ?thesis using changes_only_trans [OF m(1)] by blast
  qed
qed

lemma safe_pre: "safe R I P' m Q \<Longrightarrow> (\<And>w. P w \<Longrightarrow> P' w) \<Longrightarrow> safe R I P m Q"
  unfolding safe_def by blast

lemma safe_post: "safe R I P m Q' \<Longrightarrow> (\<And>y w. Q' y w \<Longrightarrow> Q y w) \<Longrightarrow> safe R I P m Q"
  unfolding safe_def by blast

lemma safe_assume: "(P' \<Longrightarrow> safe R I P m Q) \<Longrightarrow> safe R I (\<lambda>w. P' \<and> P w) m Q"
  unfolding safe_def by blast

lemma files_ok_tree: "files_ok R w \<Longrightarrow> tree_ok (zw_fs w)" by (simp add: files_ok_def)

lemma safe_fail: "safe R I P (io_fail e) Q"
  by (auto simp: safe_def changes_only_refl files_ok_tree)

lemma safe_lift: "(\<And>y. r = Ok y \<Longrightarrow> safe R I P (f y) Q) \<Longrightarrow> safe R I P (io_bind (io_lift r) f) Q"
  by (cases r) (auto simp: safe_def changes_only_refl files_ok_tree)

lemma safe_return: "(\<And>w. P w \<Longrightarrow> Q x w) \<Longrightarrow> safe R I P (io_return x) Q"
  by (auto simp: safe_def changes_only_refl files_ok_tree)

lemma safe_look: "(\<And>w y. files_ok R w \<Longrightarrow> P w \<Longrightarrow> f (zw_fs w) = Ok y \<Longrightarrow> Q y w) \<Longrightarrow> safe R I P (look_fs f) Q"
  by (auto simp: safe_def look_fs_def changes_only_refl files_ok_tree)

lemma safe_checked: "safe R I P m Q \<Longrightarrow> safe R I P (checked v i m) Q"
  unfolding checked_def by (intro safe_lift)

lemma safe_in_fs:
  assumes "\<And>fs w x fs'. files_ok R w \<Longrightarrow> P w \<Longrightarrow> fs = zw_fs w \<Longrightarrow> m fs = (x, fs') \<Longrightarrow>
      changes_only (below_roots R) I fs fs' \<and> (\<forall>y. x = Ok y \<longrightarrow> Q y (w\<lparr>zw_fs := fs'\<rparr>))"
  shows "safe R I P (in_fs m) Q"
  unfolding safe_def in_fs_def using assms files_ok_fs by (fastforce split: prod.splits)

lemma safe_in_state:
  assumes "\<And>w x st. files_ok R w \<Longrightarrow> P w \<Longrightarrow> m (zw_state w) = (x, st) \<Longrightarrow>
      files_ok R (w\<lparr>zw_state := st\<rparr>) \<and> (\<forall>y. x = Ok y \<longrightarrow> Q y (w\<lparr>zw_state := st\<rparr>))"
  shows "safe R I P (in_state m) Q"
  unfolding safe_def in_state_def using assms changes_only_refl files_ok_tree by (fastforce split: prod.splits)

text \<open>Statements about files that calls below the roots keep.\<close>

definition kept :: "(trzsz_world \<Rightarrow> bool) \<Rightarrow> bool" where
  "kept P \<longleftrightarrow> (\<forall>w w' S I. P w \<and> changes_only S I (zw_fs w) (zw_fs w') \<and> shrinks (zw_state w) (zw_state w') \<longrightarrow> P w')"

lemma kept_fs: "kept P \<Longrightarrow> P w \<Longrightarrow> changes_only S I (zw_fs w) fs \<Longrightarrow> P (w\<lparr>zw_fs := fs\<rparr>)"
  unfolding kept_def using shrinks_refl [of "zw_state w"] by (metis trzsz_world.select_convs(1,2) trzsz_world.surjective trzsz_world.update_convs(2))

lemma kept_state: "kept P \<Longrightarrow> files_ok R w \<Longrightarrow> P w \<Longrightarrow> shrinks (zw_state w) st \<Longrightarrow> P (w\<lparr>zw_state := st\<rparr>)"
  unfolding kept_def using changes_only_refl [OF files_ok_tree, of R w]
  by (metis trzsz_world.select_convs(1,2) trzsz_world.surjective trzsz_world.update_convs(1))

lemma kept_True: "kept (\<lambda>w. True)" by (simp add: kept_def)

lemma kept_conj: "kept P \<Longrightarrow> kept Q \<Longrightarrow> kept (\<lambda>w. P w \<and> Q w)"
  unfolding kept_def by blast

lemma kept_const: "kept (\<lambda>w. c)" by (simp add: kept_def)

lemma kept_target: "kept (\<lambda>w. target_ok R (zw_fs w) p)"
  unfolding kept_def using target_ok_kept by blast

lemma kept_no_link: "kept (\<lambda>w. \<forall>q. prefix p q \<longrightarrow> \<not> is_link (zw_fs w) q)"
  unfolding kept_def changes_only_def by blast

lemma purge_files_ok:
  assumes "files_ok R w"
  shows "changes_only (below_roots R) I (zw_fs w) (zw_fs (purge_world now w))" and "files_ok R (purge_world now w)"
    and "shrinks (zw_state w) (zw_state (purge_world now w))"
proof -
  obtain plan st where c: "collect_expired_cleanup now (zw_state w) = (plan, st)" by fastforce
  let ?st1 = "drop_uploads now [(i, uh_owner_id h). (i, h) \<leftarrow> ts_upload_handles (zw_state w),
      now - uh_touched_at h \<ge> ts_handle_ttl (zw_state w)] (zw_state w)"
  obtain xs ts st2 where d: "drop_downloads now xs [] ?st1 = (ts, st2)" and ts: "cp_temp_paths plan = ts"
    and st2: "\<exists>ys. drop_owners ys [] st2 = (cp_directory_paths plan, st)"
    using c by (fastforce simp: collect_expired_cleanup_def Let_def split: prod.splits)
  obtain ys where o: "drop_owners ys [] st2 = (cp_directory_paths plan, st)" using st2 by blast
  note s1 = drop_uploads_shrinks [of "zw_state w" now]
  note s2 = drop_downloads_shrinks [OF d]
  note s3 = drop_owners_shrinks [OF o]
  have w1: "files_ok R (w\<lparr>zw_state := ?st1\<rparr>)" by (rule files_ok_shrinks [OF assms s1])
  have w2: "files_ok R (w\<lparr>zw_state := st2\<rparr>)"
    using files_ok_shrinks [OF w1, of st2] s2 by simp
  have "\<forall>p \<in> set (cp_temp_paths plan). target_ok R (zw_fs w) p"
    using s2 w1 unfolding ts by (fastforce simp: files_ok_def handle_ok_def)
  moreover have "\<forall>p \<in> set (cp_directory_paths plan). target_ok R (zw_fs w) p"
    using s3 w2 by (fastforce simp: files_ok_def owner_ok_def)
  moreover obtain n fs where e: "cleanup_execute plan (zw_fs w) = (n, fs)" by fastforce
  ultimately have ch: "changes_only (below_roots R) {} (zw_fs w) fs"
    using cleanup_execute_changes [OF files_ok_tree [OF assms]] by blast
  have pw: "purge_world now w = w\<lparr>zw_state := st, zw_fs := fs\<rparr>" by (simp add: purge_world_def c e)
  have sh: "shrinks (zw_state w) st" using shrinks_trans [OF shrinks_trans [OF s1]] s2 s3 by blast
  show "changes_only (below_roots R) I (zw_fs w) (zw_fs (purge_world now w))" using changes_only_mono [OF ch] by (simp add: pw)
  show "shrinks (zw_state w) (zw_state (purge_world now w))" using sh by (simp add: pw)
  show "files_ok R (purge_world now w)" using files_ok_fs [OF files_ok_shrinks [OF assms sh], of _ _ fs] ch by (simp add: pw)
qed

lemma safe_purge: "kept P \<Longrightarrow> safe R I P (purge_expired now) (\<lambda>_. P)"
  unfolding safe_def purge_expired_def kept_def using purge_files_ok by fast

subsection \<open>Targets\<close>

definition under_root :: "path set \<Rightarrow> file_system \<Rightarrow> path \<Rightarrow> bool" where
  "under_root R fs p \<longleftrightarrow> list_all plain p \<and> link_free fs p \<and> (\<exists>r \<in> R. prefix r p)"

lemma under_root_target: "under_root R fs p \<Longrightarrow> plain c \<Longrightarrow> target_ok R fs (p @ [c])"
  by (auto simp: under_root_def target_ok_def entry_path_def way_free_snoc below_roots_def strict_prefix_snoc)

lemma under_root_dir:
  "under_root R fs p \<Longrightarrow> plain c \<Longrightarrow> node_at fs (p @ [c]) = Some Directory \<Longrightarrow> under_root R fs (p @ [c])"
  by (auto simp: under_root_def link_free_snoc is_link_def)

lemma under_root_kept: "changes_only S I fs fs' \<Longrightarrow> under_root R fs p \<Longrightarrow> under_root R fs' p"
  by (auto simp: under_root_def link_free_kept)

lemma target_changes: "target_ok R fs p \<Longrightarrow> changes_only {p} {} fs fs' \<Longrightarrow> changes_only (below_roots R) I fs fs'"
  by (rule changes_only_mono) (auto simp: target_ok_def)

lemma make_parents_ok:
  "tree_ok fs \<Longrightarrow> under_root R fs current \<Longrightarrow> list_all (\<lambda>x. plain x \<and> 47 \<notin> set x) cs \<Longrightarrow> make_parents current cs fs = (x, fs') \<Longrightarrow>
     changes_only (below_roots R) I fs fs' \<and> (x = Ok () \<longrightarrow> under_root R fs' (current @ cs))"
proof (induction current cs fs rule: make_parents.induct)
  case (1 current fs)
  then show ?case by (auto simp: changes_only_refl)
next
  case (2 current c cs fs)
  have c: "plain c" "path_push current c = current @ [c]" using 2(5) by (auto simp: path_push_plain)
  have t: "target_ok R fs (current @ [c])" by (rule under_root_target [OF 2(4) c(1)])
  then have e: "entry_path fs (current @ [c])" by (simp add: target_ok_def)
  note u = 2(6) [unfolded make_parents.simps Let_def c(2)]
  show ?case
  proof (cases "symlink_metadata (current @ [c]) fs")
    case (Inl err)
    show ?thesis
    proof (cases "err = IoNotFound")
      case True
      obtain y fs1 where d: "create_dir (current @ [c]) fs = (y, fs1)" by fastforce
      have ch: "changes_only (below_roots R) I fs fs1" by (rule target_changes [OF t create_dir_changes [OF 2(3) e d]])
      show ?thesis
      proof (cases y)
        case (Inl e1)
        then show ?thesis using u ch by (auto simp: Inl True d \<open>symlink_metadata _ fs = _\<close>)
      next
        case (Inr z)
        then have "node_at fs1 (current @ [c]) = Some Directory" using create_dir_ok(1) [OF e] d by simp
        then have "under_root R fs1 (current @ [c])"
          using under_root_dir under_root_kept [OF ch 2(4)] c(1) by blast
        then have "changes_only (below_roots R) I fs1 fs' \<and> (x = Ok () \<longrightarrow> under_root R fs' ((current @ [c]) @ cs))"
          using 2(1) [OF refl, unfolded c(2), OF \<open>symlink_metadata _ fs = _\<close> True] u d Inr changes_only_tree [OF ch] 2(5)
          by (simp add: True \<open>symlink_metadata _ fs = _\<close>)
        then show ?thesis using changes_only_trans [OF ch] by simp
      qed
    next
      case False
      then show ?thesis using u 2(3) by (cases err) (auto simp: Inl changes_only_refl)
    qed
  next
    case (Inr n)
    show ?thesis
    proof (cases n)
      case Directory
      then have "node_at fs (current @ [c]) = Some Directory" using entry_path_metadata [OF e Inr] by simp
      then have "under_root R fs (current @ [c])" by (rule under_root_dir [OF 2(4) c(1)])
      then show ?thesis using 2(2) [OF refl, unfolded c(2), OF Inr Directory 2(3)] u 2(5) by (simp add: Inr Directory)
    qed (use u 2(3) Inr changes_only_refl in auto)
  qed
qed

lemma build_download_target_path_ok:
  assumes "tree_ok fs" and "under_root R fs root" and "list_all (\<lambda>x. plain x \<and> 47 \<notin> set x) cs" and "cs \<noteq> []"
    and "build_download_target_path root cs fs = (x, fs')"
  shows "changes_only (below_roots R) I fs fs' \<and> (\<forall>p. x = Ok p \<longrightarrow> p = root @ cs \<and> target_ok R fs' p)"
proof -
  obtain y fs1 where m: "make_parents root (butlast cs) fs = (y, fs1)" by fastforce
  have cs: "cs = butlast cs @ [last cs]" "plain (last cs)" using assms(3,4) by (simp_all add: list_all_iff)
  have b: "list_all (\<lambda>x. plain x \<and> 47 \<notin> set x) (butlast cs)" using assms(3) by (rule list_all_butlast)
  note mk = make_parents_ok [OF assms(1,2) b m]
  have "target_ok R fs1 (root @ cs)" if "y = Ok ()"
    using under_root_target [OF _ cs(2), of R fs1 "root @ butlast cs"] mk that cs(1) by simp
  then show ?thesis using assms(4,5) mk [of I]
    by (cases y) (auto simp: build_download_target_path_def io_bind_def m foldl_path_push [OF assms(3)] Let_def
        split: sum.splits node.splits)
qed

lemma safe_target_path:
  assumes "list_all (\<lambda>x. plain x \<and> 47 \<notin> set x) cs" and "cs \<noteq> []" and "kept P"
  shows "safe R I (\<lambda>w. root \<in> R \<and> P w) (target_path root cs) (\<lambda>p w. p = root @ cs \<and> target_ok R (zw_fs w) p \<and> P w)"
  unfolding target_path_def
proof (rule safe_bind)
  show "safe R I (\<lambda>w. root \<in> R \<and> P w) (in_fs (build_download_target_path root cs))
      (\<lambda>p w. p = root @ cs \<and> target_ok R (zw_fs w) p \<and> P w)"
  proof (rule safe_in_fs)
    fix fs w x fs'
    assume w: "files_ok R w" "root \<in> R \<and> P w" "fs = zw_fs w" "build_download_target_path root cs fs = (x, fs')"
    have "under_root R fs root" using w(1-3) by (auto simp: under_root_def files_ok_def)
    note b = build_download_target_path_ok [OF _ this assms(1,2) w(4)]
    have t: "tree_ok fs" using w(1,3) by (simp add: files_ok_tree)
    moreover have "P (w\<lparr>zw_fs := fs'\<rparr>)"
      using kept_fs [OF assms(3), of w] w(2,3) b [OF t, of "{}"] by blast
    ultimately show "changes_only (below_roots R) I fs fs' \<and>
        (\<forall>y. x = Ok y \<longrightarrow> y = root @ cs \<and> target_ok R (zw_fs (w\<lparr>zw_fs := fs'\<rparr>)) y \<and> P (w\<lparr>zw_fs := fs'\<rparr>))"
      using b by simp
  qed
next
  fix y show "safe R I (\<lambda>w. y = root @ cs \<and> target_ok R (zw_fs w) y \<and> P w)
      (io_bind (io_lift (ensure_within_root root y)) (\<lambda>_. io_return y)) (\<lambda>p w. p = root @ cs \<and> target_ok R (zw_fs w) p \<and> P w)"
    by (intro safe_lift safe_return)
qed

subsection \<open>Operations on the state\<close>

text \<open>An operation that purges first and then changes the state only.\<close>

lemma safe_purged:
  assumes "kept P" and "\<And>w x st. files_ok R w \<Longrightarrow> P w \<Longrightarrow> m (zw_state w) = (x, st) \<Longrightarrow>
      files_ok R (w\<lparr>zw_state := st\<rparr>) \<and> (\<forall>y. x = Ok y \<longrightarrow> Q y (w\<lparr>zw_state := st\<rparr>))"
  shows "safe R I P (io_bind (purge_expired now) (\<lambda>_. in_state m)) Q"
  by (rule safe_bind [OF safe_purge [OF assms(1)] safe_in_state]) (rule assms(2))

lemma files_ok_put_owner:
  "files_ok R w \<Longrightarrow> owner_ok R (zw_fs w) ow \<Longrightarrow> files_ok R (w\<lparr>zw_state := put_owner i ow (zw_state w)\<rparr>)"
  by (auto simp: files_ok_def put_owner_def update_conv' split: if_splits)

lemma files_ok_put_handle:
  "files_ok R (w\<lparr>zw_state := st\<rparr>) \<Longrightarrow> handle_ok R (zw_fs w) h \<Longrightarrow>
     files_ok R (w\<lparr>zw_state := st\<lparr>ts_download_handles := AList.update i h (ts_download_handles st)\<rparr>\<rparr>)"
  by (auto simp: files_ok_def update_conv' split: if_splits)

lemma files_ok_uploads: "files_ok R (w\<lparr>zw_state := st\<lparr>ts_upload_handles := u\<rparr>\<rparr>) \<longleftrightarrow> files_ok R (w\<lparr>zw_state := st\<rparr>)"
  by (simp add: files_ok_def)

lemma owner_entry_ok: "files_ok R w \<Longrightarrow> owner_ok R (zw_fs w) (owner_entry now i (zw_state w))"
  by (auto simp: owner_entry_def files_ok_def owner_ok_def owner_new_def split: option.splits)

lemma owner_entry_dirs:
  "files_ok R w \<Longrightarrow> d \<in> set (ow_download_directories (owner_entry now i (zw_state w))) \<Longrightarrow> target_ok R (zw_fs w) d"
  using owner_entry_ok [of R w now i] by (simp add: owner_ok_def)

lemma owner_entry_root:
  "files_ok R w \<Longrightarrow> ow_prepared_download_root (owner_entry now i (zw_state w)) = Some r \<Longrightarrow> r \<in> R"
  using owner_entry_ok [of R w now i] by (simp add: owner_ok_def)

lemma files_ok_register:
  "files_ok R w \<Longrightarrow> owner_ok R (zw_fs w) ow \<Longrightarrow> handle_ok R (zw_fs w) h \<Longrightarrow>
     files_ok R (w\<lparr>zw_state := (put_owner i ow (zw_state w))
       \<lparr>ts_download_handles := AList.update wid h (ts_download_handles (zw_state w))\<rparr>\<rparr>)"
  using files_ok_put_handle [OF files_ok_put_owner] by (simp add: put_owner_def)

lemma shrinks_touch: "shrinks st (modify_owner i (ow_touched_at_update f) st)"
  by (rule shrinks_modify_owner) (simp add: owner_shrinks_def)

lemma shrinks_take:
  "take_download_handle now i wid st = (x, st') \<Longrightarrow>
     shrinks st st' \<and> (\<forall>h. x = Ok h \<longrightarrow> map_of (ts_download_handles st) wid = Some h)"
  using shrinks_trans [OF shrinks_delete_download shrinks_release_download]
  by (auto simp: take_download_handle_def shrinks_refl split: option.splits if_splits)

lemma safe_set_authorized: "safe R I (\<lambda>_. True) (set_authorized_upload_paths now i ps) (\<lambda>_ _. True)"
  unfolding set_authorized_upload_paths_def
  by (rule safe_purged [OF kept_True]) (auto intro!: files_ok_put_owner intro: owner_entry_dirs owner_entry_root simp: owner_ok_def)

lemma safe_is_authorized: "safe R I (\<lambda>_. True) (is_upload_path_authorized now i p) (\<lambda>_ _. True)"
  unfolding is_upload_path_authorized_def
  by (rule safe_purged [OF kept_True]) (auto intro: files_ok_shrinks shrinks_touch split: option.splits)

lemma safe_register_upload: "safe R I (\<lambda>_. True) (register_upload_handle now hid i file sz) (\<lambda>_ _. True)"
  unfolding register_upload_handle_def
  by (rule safe_purged [OF kept_True])
    (auto simp: Let_def files_ok_uploads owner_ok_def intro!: files_ok_put_owner intro: owner_entry_dirs owner_entry_root split: if_splits)

lemma safe_close_upload: "safe R I (\<lambda>_. True) (close_upload_handle now i hid) (\<lambda>_ _. True)"
  unfolding close_upload_handle_def
  by (rule safe_purged [OF kept_True])
    (auto intro: files_ok_shrinks shrinks_trans [OF shrinks_uploads shrinks_release_upload] split: option.splits if_splits)

lemma safe_state_prepare: "r \<in> R \<Longrightarrow> safe R I (\<lambda>_. True) (state_prepare_download_root now i r) (\<lambda>_ _. True)"
  unfolding state_prepare_download_root_def
  by (rule safe_purged [OF kept_True]) (auto intro!: files_ok_put_owner intro: owner_entry_dirs owner_entry_root simp: owner_ok_def)

lemma world_owner_root:
  "files_ok R w \<Longrightarrow> map_of (ts_owners (zw_state w)) i = Some ow \<Longrightarrow> ow_prepared_download_root ow = Some r \<Longrightarrow> r \<in> R"
  by (auto simp: files_ok_def owner_ok_def)

lemma safe_prepared: "safe R I (\<lambda>_. True) (prepared_download_root now i) (\<lambda>r _. \<forall>x. r = Some x \<longrightarrow> x \<in> R)"
  unfolding prepared_download_root_def
  by (rule safe_purged [OF kept_True])
    (auto intro: files_ok_shrinks shrinks_touch world_owner_root split: option.splits)

lemma safe_requested_root: "safe R I (\<lambda>_. True) (requested_root now i root_path) (\<lambda>r _. r \<in> R)"
  unfolding requested_root_def
proof (rule safe_bind [OF safe_prepared])
  fix prepared
  show "safe R I (\<lambda>_. \<forall>x. prepared = Some x \<longrightarrow> x \<in> R)
    (case prepared of None \<Rightarrow> io_fail TzRootNotPrepared
     | Some prepared_root \<Rightarrow> io_bind (look_fs (canonicalize_existing_root root_path))
         (\<lambda>requested. if prepared_root \<noteq> requested then io_fail TzRootMismatch else io_return prepared_root))
    (\<lambda>r _. r \<in> R)"
  proof (cases prepared)
    case (Some r)
    show ?thesis unfolding Some option.case
    proof (rule safe_bind [where Q = "\<lambda>_ _. r \<in> R", OF safe_look])
      fix y show "safe R I (\<lambda>_. r \<in> R) (if r \<noteq> y then io_fail TzRootMismatch else io_return r) (\<lambda>r _. r \<in> R)"
        by (cases "r = y") (auto intro: safe_return safe_fail)
    qed simp
  qed (simp add: safe_fail)
qed

lemma safe_register_download:
  "t \<noteq> f \<Longrightarrow> butlast t = butlast f \<Longrightarrow>
   safe R I (\<lambda>w. target_ok R (zw_fs w) f \<and> target_ok R (zw_fs w) t \<and> (\<forall>q. prefix t q \<longrightarrow> \<not> is_link (zw_fs w) q))
     (register_download_handle now wid i ln dn root f t overwrite file) (\<lambda>_ _. True)"
  unfolding register_download_handle_def
  by (rule safe_purged [OF kept_conj [OF kept_target kept_conj [OF kept_target kept_no_link]]])
    (auto simp: Let_def handle_ok_def owner_ok_def intro!: files_ok_register files_ok_put_owner
      intro: owner_entry_dirs owner_entry_root split: if_splits)

lemma safe_register_directory:
  "safe R I (\<lambda>w. target_ok R (zw_fs w) d) (register_download_directory now i d) (\<lambda>_ _. True)"
  unfolding register_download_directory_def
  by (rule safe_purged [OF kept_target]) (auto simp: Let_def owner_ok_def intro!: files_ok_put_owner
      intro: owner_entry_dirs owner_entry_root)

lemma safe_commit_directory: "safe R I (\<lambda>_. True) (state_commit_download_directory now i d) (\<lambda>_ _. True)"
  unfolding state_commit_download_directory_def
  by (rule safe_purged [OF kept_True]) (auto intro!: files_ok_shrinks shrinks_modify_owner simp: owner_shrinks_def)


subsection \<open>Operations on files\<close>

lemma io_result_cases: "io_result c fs = (x, fs') \<Longrightarrow> \<exists>y. c fs = (y, fs') \<and> (\<forall>z. x = Ok z \<longrightarrow> y = Ok z)"
  by (auto simp: io_result_def split: prod.splits sum.splits)

lemma put_in_place_changes:
  assumes "tree_ok fs" and "handle_ok R fs h" and "put_in_place h fs = (x, fs')"
  shows "changes_only (below_roots R) I fs fs'"
proof -
  have t: "target_ok R fs (dh_final_path h)" "target_ok R fs (dh_temp_path h)" using assms(2) by (simp_all add: handle_ok_def)
  have "fs' = fs \<or> (\<exists>y fs1. changes_only (below_roots R) I fs fs1 \<and> rename_path (dh_temp_path h) (dh_final_path h) fs1 = (y, fs'))
      \<or> changes_only (below_roots R) I fs fs'"
  proof -
    have rm: "changes_only (below_roots R) I fs fs1" if "remove_file (dh_final_path h) fs = (y, fs1)" for y fs1
      using target_changes [OF t(1) remove_file_changes [OF assms(1) _ that]] t(1) by (simp add: target_ok_def)
    show ?thesis using assms(3) rm changes_only_refl [OF assms(1), of "below_roots R" I]
      by (auto simp: put_in_place_def io_bind_def io_result_def split: sum.splits node.splits if_splits prod.splits)
  qed
  moreover have "changes_only (below_roots R) I fs1 fs'"
    if c: "changes_only (below_roots R) I fs fs1" and rn: "rename_path (dh_temp_path h) (dh_final_path h) fs1 = (y, fs')" for y fs1
  proof -
    note h = handle_ok_kept [OF c assms(2)]
    have "changes_only {q. prefix (dh_temp_path h) q \<or> prefix (dh_final_path h) q} {} fs1 fs'"
      using rename_path_changes [OF changes_only_tree [OF c] _ _ _ rn] h by (simp add: handle_ok_def target_ok_def)
    moreover have "{q. prefix (dh_temp_path h) q \<or> prefix (dh_final_path h) q} \<subseteq> below_roots R"
      using t by (auto simp: target_ok_def below_roots_def intro: prefix_order.less_le_trans)
    ultimately show ?thesis using changes_only_mono by blast
  qed
  ultimately show ?thesis using changes_only_refl [OF assms(1)] changes_only_trans by blast
qed

lemma temp_removed:
  assumes "tree_ok fs" and "handle_ok R fs h"
  shows "changes_only (below_roots R) I fs (snd (remove_file (dh_temp_path h) fs))"
proof -
  obtain y fs1 where r: "remove_file (dh_temp_path h) fs = (y, fs1)" by fastforce
  have t: "target_ok R fs (dh_temp_path h)" using assms(2) by (simp add: handle_ok_def)
  then show ?thesis using target_changes [OF t remove_file_changes [OF assms(1) _ r]] r by (simp add: target_ok_def)
qed

lemma safe_take:
  "safe R I (\<lambda>_. True) (in_state (take_download_handle now i wid)) (\<lambda>h w. handle_ok R (zw_fs w) h)"
proof (rule safe_in_state)
  fix w x st assume w: "files_ok R w" "take_download_handle now i wid (zw_state w) = (x, st)"
  note s = shrinks_take [OF w(2)]
  then have "\<forall>h. x = Ok h \<longrightarrow> handle_ok R (zw_fs w) h" using w(1) by (auto simp: files_ok_def)
  then show "files_ok R (w\<lparr>zw_state := st\<rparr>) \<and> (\<forall>y. x = Ok y \<longrightarrow> handle_ok R (zw_fs (w\<lparr>zw_state := st\<rparr>)) y)"
    using files_ok_shrinks [OF w(1)] s by simp
qed

lemma safe_finish: "safe R I (\<lambda>_. True) (finish_download_handle now i wid) (\<lambda>_ _. True)"
  unfolding finish_download_handle_def
proof (rule safe_bind [OF safe_purge [OF kept_True] safe_bind [OF safe_take safe_in_fs]])
  fix h fs w x fs'
  assume w: "files_ok R w" "handle_ok R (zw_fs w) h" "fs = zw_fs w"
    and r: "(case put_in_place h fs of (Inl e, fs1) \<Rightarrow> (Err e, snd (remove_file (dh_temp_path h) fs1)) | (Inr _, fs1) \<Rightarrow> (Ok (), fs1)) = (x, fs')"
  obtain y fs1 where p: "put_in_place h fs = (y, fs1)" by fastforce
  have t: "tree_ok fs" using w(1,3) by (simp add: files_ok_tree)
  have c: "changes_only (below_roots R) I fs fs1" using put_in_place_changes [OF t _ p] w(2,3) by simp
  have "changes_only (below_roots R) I fs1 (snd (remove_file (dh_temp_path h) fs1))"
    using temp_removed [OF changes_only_tree [OF c]] handle_ok_kept [OF c] w(2,3) by simp
  then show "changes_only (below_roots R) I fs fs' \<and> (\<forall>y. x = Ok y \<longrightarrow> True)"
    using r p c changes_only_trans [OF c] by (auto split: sum.splits)
qed

lemma safe_abort: "safe R I (\<lambda>_. True) (abort_download_handle now i wid) (\<lambda>_ _. True)"
  unfolding abort_download_handle_def
  by (rule safe_bind [OF safe_take safe_in_fs]) (auto intro: temp_removed files_ok_tree)

lemma files_ok_fs_state:
  "files_ok R w \<Longrightarrow> shrinks (zw_state w) st \<Longrightarrow> changes_only S I (zw_fs w) fs \<Longrightarrow> files_ok R (w\<lparr>zw_state := st, zw_fs := fs\<rparr>)"
  using files_ok_fs [OF files_ok_shrinks] by simp

lemma owner_cleanup_plan_ok:
  assumes "files_ok R w" and "map_of (ts_owners (zw_state w)) i = Some ow"
    and "owner_cleanup_plan ow ((zw_state w)\<lparr>ts_owners := AList.delete i (ts_owners (zw_state w))\<rparr>) = (plan, st)"
  shows "shrinks (zw_state w) st" and "\<forall>p \<in> set (cp_temp_paths plan). target_ok R (zw_fs w) p"
    and "\<forall>p \<in> set (cp_directory_paths plan). target_ok R (zw_fs w) p"
proof -
  show "shrinks (zw_state w) st"
    using assms(3) by (auto simp: owner_cleanup_plan_def shrinks_def map_of_filter_key delete_conv' owner_shrinks_refl split: if_splits)
  have p: "plan = \<lparr>cp_temp_paths = [dh_temp_path h. i \<leftarrow> ow_download_handles ow,
         h \<leftarrow> (case map_of (ts_download_handles (zw_state w)) i of None \<Rightarrow> [] | Some h \<Rightarrow> [h])],
       cp_directory_paths = ow_download_directories ow\<rparr>"
    using assms(3) by (simp add: owner_cleanup_plan_def)
  show "\<forall>p \<in> set (cp_temp_paths plan). target_ok R (zw_fs w) p"
    using assms(1) by (auto simp: p files_ok_def handle_ok_def split: option.splits)
  show "\<forall>p \<in> set (cp_directory_paths plan). target_ok R (zw_fs w) p"
    using assms(1,2) by (auto simp: p files_ok_def owner_ok_def)
qed

lemma safe_cleanup_owner: "safe R I (\<lambda>_. True) (cleanup_owner now i) (\<lambda>_ _. True)"
  unfolding cleanup_owner_def
proof (rule safe_bind [OF safe_purge [OF kept_True]], unfold safe_def, intro allI impI)
  fix u :: unit and w :: trzsz_world and x w'
  assume a: "files_ok R w \<and> True \<and> cleanup_section i w = (x, w')"
  then have w: "files_ok R w" by simp
  show "changes_only (below_roots R) I (zw_fs w) (zw_fs w') \<and> files_ok R w' \<and> (\<forall>y. x = Ok y \<longrightarrow> True)"
  proof (cases "map_of (ts_owners (zw_state w)) i")
    case None
    then show ?thesis using a changes_only_refl [OF files_ok_tree [OF w]] by (auto simp: cleanup_section_def Let_def)
  next
    case (Some ow)
    obtain plan st where p: "owner_cleanup_plan ow ((zw_state w)\<lparr>ts_owners := AList.delete i (ts_owners (zw_state w))\<rparr>) = (plan, st)"
      by fastforce
    obtain n fs where e: "cleanup_execute plan (zw_fs w) = (n, fs)" by fastforce
    note o = owner_cleanup_plan_ok [OF w Some p]
    have c: "changes_only (below_roots R) {} (zw_fs w) fs" by (rule cleanup_execute_changes [OF files_ok_tree [OF w] o(2,3) e])
    have "w' = w\<lparr>zw_state := st, zw_fs := fs\<rparr>" using a by (simp add: cleanup_section_def Let_def Some p e)
    then show ?thesis using files_ok_fs_state [OF w o(1) c] changes_only_mono [OF c] by simp
  qed
qed

lemma safe_read_upload: "safe R I (\<lambda>_. True) (state_read_upload_chunk now i hid offset len) (\<lambda>_ _. True)"
  unfolding state_read_upload_chunk_def
proof (rule safe_bind [OF safe_purge [OF kept_True]], unfold safe_def, intro allI impI)
  fix u :: unit and w :: trzsz_world and x w'
  let ?st = "modify_owner i (ow_touched_at_update (\<lambda>_. now)) (zw_state w)"
  assume a: "files_ok R w \<and> True \<and> read_section now i hid offset len w = (x, w')"
  then have w: "files_ok R w" by simp
  have "files_ok R (w\<lparr>zw_state := ?st\<rparr>)" by (rule files_ok_shrinks [OF w shrinks_touch])
  then show "changes_only (below_roots R) I (zw_fs w) (zw_fs w') \<and> files_ok R w' \<and> (\<forall>y. x = Ok y \<longrightarrow> True)"
    using a changes_only_refl [OF files_ok_tree [OF w]] by (auto simp: read_section_def Let_def files_ok_uploads split: option.splits if_splits)
qed

text \<open>Writing changes the content of the handle's file.\<close>

definition handle_inode :: "bytes \<Rightarrow> nat set \<Rightarrow> trzsz_world \<Rightarrow> bool" where
  "handle_inode wid I w \<longleftrightarrow> (\<forall>h. map_of (ts_download_handles (zw_state w)) wid = Some h \<longrightarrow> dh_file h \<in> I)"

lemma kept_inode: "kept (handle_inode wid I)"
  unfolding kept_def handle_inode_def shrinks_def by blast

lemma safe_write: "safe R I (handle_inode wid I) (state_write_download_chunk now i wid data) (\<lambda>_ _. True)"
  unfolding state_write_download_chunk_def
proof (rule safe_bind [OF safe_purge [OF kept_inode]], unfold safe_def, intro allI impI)
  fix u :: unit and w :: trzsz_world and x w'
  let ?st = "modify_owner i (ow_touched_at_update (\<lambda>_. now)) (zw_state w)"
  assume a: "files_ok R w \<and> handle_inode wid I w \<and> write_section now i wid data w = (x, w')"
  then have w: "files_ok R w" "handle_inode wid I w" by simp_all
  have w1: "files_ok R (w\<lparr>zw_state := ?st\<rparr>)" by (rule files_ok_shrinks [OF w(1) shrinks_touch])
  show "changes_only (below_roots R) I (zw_fs w) (zw_fs w') \<and> files_ok R w' \<and> (\<forall>y. x = Ok y \<longrightarrow> True)"
  proof (cases "map_of (ts_download_handles (zw_state w)) wid")
    case (Some h)
    obtain y fs where f: "write_file_at (dh_file h) (dh_position h) data (zw_fs w) = (y, fs)" by fastforce
    have c: "changes_only (below_roots R) I (zw_fs w) fs"
      using changes_only_mono [OF write_file_at_changes [OF files_ok_tree [OF w(1)] f]] w(2) Some by (simp add: handle_inode_def)
    have "handle_ok R (zw_fs w) h" using w(1) Some by (simp add: files_ok_def)
    then have "handle_ok R (zw_fs w) h'" if "dh_final_path h' = dh_final_path h" "dh_temp_path h' = dh_temp_path h" for h'
      using that by (simp add: handle_ok_def)
    note up = files_ok_fs [OF files_ok_put_handle [OF w1 this], of _ _ _ _ fs]
    have s: "ts_download_handles ?st = ts_download_handles (zw_state w)" by (simp add: modify_owner_def)
    show ?thesis
    proof (cases "dh_owner_id h = i")
      case True
      then show ?thesis using a c up by (cases y) (auto simp: write_section_def Let_def Some s f)
    next
      case False
      then show ?thesis using a w1 changes_only_refl [OF files_ok_tree [OF w(1)]] by (auto simp: write_section_def Let_def Some s)
    qed
  qed (use a w1 changes_only_refl [OF files_ok_tree [OF w(1)]] in \<open>auto simp: write_section_def Let_def modify_owner_def\<close>)
qed

subsection \<open>Requests\<close>

definition uuid_ok :: "bytes \<Rightarrow> bool" where
  "uuid_ok u \<longleftrightarrow> length u = 36 \<and> list_all (\<lambda>b. is_digit b \<or> 97 \<le> b \<and> b \<le> 102 \<or> b = 45) u"

lemma uuid_no_slash: "uuid_ok u \<Longrightarrow> 47 \<notin> set u"
  by (auto simp: uuid_ok_def list_all_iff is_digit_def)

lemma nothing_below_leaf:
  assumes "tree_ok fs" and "node_at fs p \<noteq> Some Directory"
  shows "strict_prefix p q \<Longrightarrow> node_at fs q = None"
proof (induction q rule: rev_induct)
  case (snoc c q)
  then have "node_at fs q \<noteq> Some Directory" using assms(2) by (auto simp: strict_prefix_snoc prefix_order.le_less)
  then show ?case by (rule leaf_has_no_entries [OF assms(1)])
qed simp

lemma create_new_no_links:
  assumes "tree_ok fs" and "entry_path fs p" and "create_new p fs = (Ok i, fs')" and "prefix p q"
  shows "\<not> is_link fs' q"
proof -
  have n: "node_at fs' p = Some (Regular i)" by (rule create_new_ok(1) [OF assms(2,3)])
  have "tree_ok fs'" using create_new_changes [OF assms(1-3)] by (simp add: changes_only_tree)
  then have "strict_prefix p q \<Longrightarrow> node_at fs' q = None" using nothing_below_leaf [of fs' p q] n by simp
  then show ?thesis using assms(4) n by (cases "q = p") (auto simp: is_link_def strict_prefix_def)
qed

lemma temp_path_plain:
  assumes "47 \<notin> set name" and "uuid_ok u"
  shows "path_push d (46 # name @ str_lit ''.oxide-trzsz-'' @ u @ str_lit ''.part'')
    = d @ [46 # name @ str_lit ''.oxide-trzsz-'' @ u @ str_lit ''.part'']"
  by (rule path_push_plain) (use assms(1) uuid_no_slash [OF assms(2)] in \<open>simp add: str_lit_def\<close>)

lemma temp_target:
  assumes "target_ok R fs (d @ [c])" and "47 \<notin> set name" and "uuid_ok u"
  shows "target_ok R fs (path_push d (46 # name @ str_lit ''.oxide-trzsz-'' @ u @ str_lit ''.part''))"
proof -
  let ?n = "46 # name @ str_lit ''.oxide-trzsz-'' @ u @ str_lit ''.part''"
  have "path_push d ?n = d @ [?n]" by (rule temp_path_plain [OF assms(2,3)])
  moreover have "plain ?n" by (auto simp: plain_def str_lit_def dest: arg_cong [of _ _ length])
  ultimately show ?thesis using assms(1)
    by (auto simp: target_ok_def entry_path_def way_free_snoc below_roots_def strict_prefix_snoc)
qed

lemma safe_create_temp:
  assumes "kept P"
  shows "safe R I (\<lambda>w. target_ok R (zw_fs w) t \<and> P w) (in_fs (io_result (create_new t)))
    (\<lambda>_ w. (target_ok R (zw_fs w) t \<and> P w) \<and> (\<forall>q. prefix t q \<longrightarrow> \<not> is_link (zw_fs w) q))"
proof (rule safe_in_fs)
  fix fs w x fs'
  assume w: "files_ok R w" "target_ok R (zw_fs w) t \<and> P w" "fs = zw_fs w" "io_result (create_new t) fs = (x, fs')"
  obtain y where y: "create_new t fs = (y, fs')" "\<forall>z. x = Ok z \<longrightarrow> y = Ok z" using io_result_cases [OF w(4)] by blast
  have t: "tree_ok fs" "entry_path fs t" "target_ok R fs t" using w(1-3) by (simp_all add: files_ok_tree target_ok_def)
  have c: "changes_only (below_roots R) I fs fs'" by (rule target_changes [OF t(3) create_new_changes [OF t(1,2) y(1)]])
  have "target_ok R fs' t" "P (w\<lparr>zw_fs := fs'\<rparr>)"
    using target_ok_kept [OF c t(3)] kept_fs [OF assms, of w] c w(2,3) by blast+
  moreover have "\<forall>z q. x = Ok z \<and> prefix t q \<longrightarrow> \<not> is_link fs' q" using create_new_no_links [OF t(1,2)] y by blast
  ultimately show "changes_only (below_roots R) I fs fs' \<and> (\<forall>z. x = Ok z \<longrightarrow>
      (target_ok R (zw_fs (w\<lparr>zw_fs := fs'\<rparr>)) t \<and> P (w\<lparr>zw_fs := fs'\<rparr>)) \<and>
      (\<forall>q. prefix t q \<longrightarrow> \<not> is_link (zw_fs (w\<lparr>zw_fs := fs'\<rparr>)) q))"
    using c by simp
qed

lemma safe_open_save_file:
  assumes "uuid_ok uuid"
  shows "safe R I (\<lambda>_. True) (open_save_file pf now uuid wid i v root_path name overwrite) (\<lambda>_ _. True)"
  unfolding open_save_file_def
proof (rule safe_checked, rule safe_bind [OF safe_requested_root], rule safe_lift)
  fix root cs assume "sanitize_download_rel_path pf name = Ok cs"
  then have cs: "list_all (\<lambda>x. plain x \<and> 47 \<notin> set x) cs" "cs \<noteq> []" using sanitize_download_ok by blast+
  then have l: "47 \<notin> set (last cs)" by (simp add: list_all_iff)
  have tp: "safe R I (\<lambda>_. root \<in> R) (target_path root cs) (\<lambda>p w. p = root @ cs \<and> target_ok R (zw_fs w) p)"
    using safe_target_path [OF cs kept_True] by simp
  show "safe R I (\<lambda>_. root \<in> R)
    (io_bind (target_path root cs) (\<lambda>final_path. io_bind (look_fs (check_save_target final_path overwrite)) (\<lambda>_.
      let local_name = last cs in io_bind (io_lift (build_temp_path uuid final_path local_name)) (\<lambda>temp_path.
      io_bind (in_fs (io_result (create_new temp_path))) (\<lambda>file.
      register_download_handle now wid i local_name local_name root final_path temp_path overwrite file))))) (\<lambda>_ _. True)"
    unfolding Let_def
  proof (rule safe_bind [OF tp])
    fix f
    show "safe R I (\<lambda>w. f = root @ cs \<and> target_ok R (zw_fs w) f)
      (io_bind (look_fs (check_save_target f overwrite)) (\<lambda>_. io_bind (io_lift (build_temp_path uuid f (last cs))) (\<lambda>t.
        io_bind (in_fs (io_result (create_new t))) (\<lambda>file.
        register_download_handle now wid i (last cs) (last cs) root f t overwrite file)))) (\<lambda>_ _. True)"
    proof (rule safe_bind [where Q = "\<lambda>_ w. f = root @ cs \<and> target_ok R (zw_fs w) f", OF safe_look], assumption, rule safe_lift)
      fix t assume "build_temp_path uuid f (last cs) = Ok t"
      then have t: "f \<noteq> []" "t = path_push (butlast f) (46 # last cs @ str_lit ''.oxide-trzsz-'' @ uuid @ str_lit ''.part'')"
        by (auto simp: build_temp_path_def split: if_splits)
      have t2: "t = butlast f @ [46 # last cs @ str_lit ''.oxide-trzsz-'' @ uuid @ str_lit ''.part'']"
        using t(2) temp_path_plain [OF l assms] by simp
      have s: "safe R I (\<lambda>w. target_ok R (zw_fs w) t \<and> target_ok R (zw_fs w) f) (io_bind (in_fs (io_result (create_new t))) (\<lambda>file.
          register_download_handle now wid i (last cs) (last cs) root f t overwrite file)) (\<lambda>_ _. True)"
        if "f = root @ cs"
      proof (rule safe_bind [OF safe_create_temp [OF kept_target] safe_pre [OF safe_register_download]])
        have "length (last cs) < length (last t)" unfolding t2 by simp
        moreover have "last f = last cs" using that cs(2) by simp
        ultimately show "t \<noteq> f" by auto
      qed (auto simp: t2)
      have tt: "target_ok R fs t" if "target_ok R fs f" for fs
        using temp_target [of R fs "butlast f" "last f", OF _ l assms] that t by simp
      show "safe R I (\<lambda>w. f = root @ cs \<and> target_ok R (zw_fs w) f) (io_bind (in_fs (io_result (create_new t))) (\<lambda>file.
          register_download_handle now wid i (last cs) (last cs) root f t overwrite file)) (\<lambda>_ _. True)"
        by (rule safe_assume, rule safe_pre [OF s]) (use tt in blast)+
    qed
  qed
qed

text \<open>The requests that name a directory or file begin in the same way.\<close>

lemma safe_request:
  assumes "\<And>f. safe R I (\<lambda>w. target_ok R (zw_fs w) f) (m f) (\<lambda>_ _. True)"
  shows "safe R I (\<lambda>_. True) (checked v i (io_bind (requested_root now i root_path) (\<lambda>root.
    io_bind (io_lift (sanitize_download_rel_path pf name)) (\<lambda>cs. io_bind (target_path root cs) m)))) (\<lambda>_ _. True)"
proof (rule safe_checked, rule safe_bind [OF safe_requested_root], rule safe_lift)
  fix root cs assume "sanitize_download_rel_path pf name = Ok cs"
  then have cs: "list_all (\<lambda>x. plain x \<and> 47 \<notin> set x) cs" "cs \<noteq> []" using sanitize_download_ok by blast+
  have tp: "safe R I (\<lambda>_. root \<in> R) (target_path root cs) (\<lambda>p w. p = root @ cs \<and> target_ok R (zw_fs w) p)"
    using safe_target_path [OF cs kept_True] by simp
  show "safe R I (\<lambda>_. root \<in> R) (io_bind (target_path root cs) m) (\<lambda>_ _. True)"
    by (rule safe_bind [OF tp safe_pre [OF assms]]) blast
qed

lemma safe_commit: "safe R I (\<lambda>_. True) (commit_download_directory pf now i v root_path name) (\<lambda>_ _. True)"
  unfolding commit_download_directory_def by (rule safe_request [OF safe_pre [OF safe_commit_directory]]) simp

lemma remove_file_at_changes:
  assumes "tree_ok fs" and "target_ok R fs f" and "remove_file_at f fs = (x, fs')"
  shows "changes_only (below_roots R) I fs fs'"
proof -
  obtain y fs1 where f: "remove_file f fs = (y, fs1)" by fastforce
  have "entry_path fs f" using assms(2) by (simp add: target_ok_def)
  then have "changes_only (below_roots R) I fs fs1" using target_changes [OF assms(2) remove_file_changes [OF assms(1) _ f]] by simp
  moreover have "fs' = fs \<or> fs' = fs1"
    using assms(3) by (auto simp: remove_file_at_def f split: sum.splits node.splits io_error.splits)
  ultimately show ?thesis using changes_only_refl [OF assms(1)] by auto
qed

lemma safe_remove_file: "safe R I (\<lambda>_. True) (remove_download_file pf now i v root_path name) (\<lambda>_ _. True)"
  unfolding remove_download_file_def
  by (rule safe_request, rule safe_in_fs) (auto intro: remove_file_at_changes files_ok_tree)

lemma safe_io_result:
  assumes "\<And>fs x fs'. tree_ok fs \<Longrightarrow> entry_path fs f \<Longrightarrow> c fs = (x, fs') \<Longrightarrow> changes_only {f} {} fs fs'" and "kept P"
  shows "safe R I (\<lambda>w. target_ok R (zw_fs w) f \<and> P w) (in_fs (io_result c)) (\<lambda>_ w. target_ok R (zw_fs w) f \<and> P w)"
proof (rule safe_in_fs)
  fix fs w x fs' assume w: "files_ok R w" "target_ok R (zw_fs w) f \<and> P w" "fs = zw_fs w" "io_result c fs = (x, fs')"
  obtain y where y: "c fs = (y, fs')" using io_result_cases [OF w(4)] by blast
  have t: "tree_ok fs" "entry_path fs f" "target_ok R fs f" using w(1-3) by (simp_all add: files_ok_tree target_ok_def)
  have c: "changes_only (below_roots R) I fs fs'" by (rule target_changes [OF t(3) assms(1) [OF t(1,2) y]])
  then show "changes_only (below_roots R) I fs fs' \<and> (\<forall>y. x = Ok y \<longrightarrow> target_ok R (zw_fs (w\<lparr>zw_fs := fs'\<rparr>)) f \<and> P (w\<lparr>zw_fs := fs'\<rparr>))"
    using target_ok_kept [OF c t(3)] kept_fs [OF assms(2), of w] w(2,3) by simp
qed

lemma safe_make_directory:
  "safe R I (\<lambda>w. target_ok R (zw_fs w) f) (io_bind (in_fs (io_result (create_dir f))) (\<lambda>_.
     io_bind (register_download_directory now i f) (\<lambda>_. io_return True))) (\<lambda>_ _. True)"
proof (rule safe_bind)
  show "safe R I (\<lambda>w. target_ok R (zw_fs w) f) (in_fs (io_result (create_dir f))) (\<lambda>_ w. target_ok R (zw_fs w) f)"
    using safe_io_result [OF create_dir_changes kept_True, where f = f] by simp
  show "safe R I (\<lambda>w. target_ok R (zw_fs w) f) (io_bind (register_download_directory now i f) (\<lambda>_. io_return True)) (\<lambda>_ _. True)"
    by (rule safe_bind [OF safe_register_directory safe_return]) simp
qed

lemma safe_create_at: "safe R I (\<lambda>w. target_ok R (zw_fs w) f) (create_at now i must_create f) (\<lambda>_ _. True)"
  unfolding safe_def
proof (intro allI impI)
  fix w x w' assume w: "files_ok R w \<and> target_ok R (zw_fs w) f \<and> create_at now i must_create f w = (x, w')"
  show "changes_only (below_roots R) I (zw_fs w) (zw_fs w') \<and> files_ok R w' \<and> (\<forall>y. x = Ok y \<longrightarrow> True)"
  proof (cases "symlink_metadata f (zw_fs w) = Inl IoNotFound")
    case True
    then have "io_bind (in_fs (io_result (create_dir f))) (\<lambda>_.
        io_bind (register_download_directory now i f) (\<lambda>_. io_return True)) w = (x, w')"
      using w by (simp add: create_at_def)
    then show ?thesis using w safe_make_directory [of R I f now i] unfolding safe_def by blast
  next
    case False
    then have "w' = w" using w by (auto simp: create_at_def split: sum.splits node.splits io_error.splits)
    then show ?thesis using w changes_only_refl [OF files_ok_tree] by blast
  qed
qed

lemma safe_create: "safe R I (\<lambda>_. True) (create_download_directory pf now i v root_path name must_create) (\<lambda>_ _. True)"
  unfolding create_download_directory_def
proof (rule safe_checked, rule safe_bind [OF safe_requested_root], rule safe_lift)
  fix root cs assume "sanitize_download_rel_path pf name = Ok cs"
  then have cs: "list_all (\<lambda>x. plain x \<and> 47 \<notin> set x) cs" "cs \<noteq> []" using sanitize_download_ok by blast+
  have tp: "safe R I (\<lambda>_. root \<in> R) (target_path root cs) (\<lambda>p w. p = root @ cs \<and> target_ok R (zw_fs w) p)"
    using safe_target_path [OF cs kept_True] by simp
  show "safe R I (\<lambda>_. root \<in> R) (io_bind (look_fs (existing_parents root (butlast cs))) (\<lambda>_.
        io_bind (target_path root cs) (create_at now i must_create))) (\<lambda>_ _. True)"
    by (rule safe_bind [where Q = "\<lambda>_ _. root \<in> R", OF safe_look], assumption,
        rule safe_bind [OF tp safe_pre [OF safe_create_at]]) blast
qed

lemma safe_remove_directory_at:
  "safe R I (\<lambda>w. target_ok R (zw_fs w) f) (remove_directory_at now i f) (\<lambda>_ _. True)"
  unfolding safe_def
proof (intro allI impI)
  fix w x w' assume w: "files_ok R w \<and> target_ok R (zw_fs w) f \<and> remove_directory_at now i f w = (x, w')"
  then have t: "tree_ok (zw_fs w)" "entry_path (zw_fs w) f" "target_ok R (zw_fs w) f" by (auto simp: files_ok_tree target_ok_def)
  obtain y fs where d: "remove_dir f (zw_fs w) = (y, fs)" by fastforce
  have c: "changes_only (below_roots R) I (zw_fs w) fs" by (rule target_changes [OF t(3) remove_dir_changes [OF t(1,2) d]])
  have "(\<exists>w1. (w1 = w \<or> w1 = w\<lparr>zw_fs := fs\<rparr>) \<and> (w' = w1 \<or> (\<exists>z. state_commit_download_directory now i f w1 = (z, w'))))"
    using w by (auto simp: remove_directory_at_def d split: sum.splits node.splits io_error.splits)
  then obtain w1 where w1: "w1 = w \<or> w1 = w\<lparr>zw_fs := fs\<rparr>"
      "w' = w1 \<or> (\<exists>z. state_commit_download_directory now i f w1 = (z, w'))" by blast
  have ok: "files_ok R w1" "changes_only (below_roots R) I (zw_fs w) (zw_fs w1)"
    using w1(1) files_ok_fs [OF _ c] c w changes_only_refl [OF t(1)] by auto
  have "changes_only (below_roots R) I (zw_fs w1) (zw_fs w') \<and> files_ok R w'"
    using w1(2)
  proof
    assume "w' = w1"
    then show ?thesis using ok(1) changes_only_refl [OF files_ok_tree] by blast
  next
    assume "\<exists>z. state_commit_download_directory now i f w1 = (z, w')"
    then show ?thesis using safe_commit_directory [of R I now i f] ok(1) unfolding safe_def by blast
  qed
  then show "changes_only (below_roots R) I (zw_fs w) (zw_fs w') \<and> files_ok R w' \<and> (\<forall>y. x = Ok y \<longrightarrow> True)"
    using changes_only_trans [OF ok(2)] by blast
qed

lemma safe_remove_directory: "safe R I (\<lambda>_. True) (remove_download_directory pf now i v root_path name) (\<lambda>_ _. True)"
  unfolding remove_download_directory_def by (rule safe_request [OF safe_remove_directory_at])

subsection \<open>Runs\<close>

text \<open>
  The requests in the order in which they come, from any owners and with any arguments. Other programs may change
  the files in between as they like, except that they make no links.
\<close>

datatype file_op =
    OpPrepare nat bytes nat bytes
  | OpOpen nat bytes bytes bytes nat bytes bytes bool
  | OpCreate nat bytes nat bytes bytes bool
  | OpCommit nat bytes nat bytes bytes
  | OpRemoveDirectory nat bytes nat bytes bytes
  | OpRemoveFile nat bytes nat bytes bytes
  | OpWrite nat bytes nat bytes bytes
  | OpFinishDownload nat bytes nat bytes
  | OpAbort nat bytes nat bytes
  | OpScan nat bytes nat "bytes list" bool
  | OpOpenUpload nat bytes bytes nat bytes
  | OpReadUpload nat bytes nat bytes nat nat
  | OpCloseUpload nat bytes nat bytes
  | OpCleanup nat bytes
  | OpPurge nat

fun run_file_op ::
  "trzsz_platform \<Rightarrow> (file_system \<Rightarrow> path \<Rightarrow> (bytes + path) list) \<Rightarrow> file_op \<Rightarrow> trzsz_world \<Rightarrow> trzsz_world" where
  "run_file_op pf wd (OpPrepare now i v root) w = snd (prepare_download_root now i v root w)"
| "run_file_op pf wd (OpOpen now uuid wid i v root name overwrite) w = snd (open_save_file pf now uuid wid i v root name overwrite w)"
| "run_file_op pf wd (OpCreate now i v root name must_create) w = snd (create_download_directory pf now i v root name must_create w)"
| "run_file_op pf wd (OpCommit now i v root name) w = snd (commit_download_directory pf now i v root name w)"
| "run_file_op pf wd (OpRemoveDirectory now i v root name) w = snd (remove_download_directory pf now i v root name w)"
| "run_file_op pf wd (OpRemoveFile now i v root name) w = snd (remove_download_file pf now i v root name w)"
| "run_file_op pf wd (OpWrite now i v wid data) w = snd (write_download_chunk now i v wid data w)"
| "run_file_op pf wd (OpFinishDownload now i v wid) w = snd (finish_download_file now i v wid w)"
| "run_file_op pf wd (OpAbort now i v wid) w = snd (abort_download_file now i v wid w)"
| "run_file_op pf wd (OpScan now i v paths allow) w = snd (build_upload_entries pf wd now i v paths allow w)"
| "run_file_op pf wd (OpOpenUpload now hid i v p) w = snd (open_upload_file now hid i v p w)"
| "run_file_op pf wd (OpReadUpload now i v hid offset len) w = snd (read_upload_chunk now i v hid offset len w)"
| "run_file_op pf wd (OpCloseUpload now i v hid) w = snd (close_upload_file now i v hid w)"
| "run_file_op pf wd (OpCleanup now i) w = snd (cleanup_owner now i w)"
| "run_file_op pf wd (OpPurge now) w = purge_world now w"

text \<open>The root that a request prepares, the file that it writes to, and the form of random identifiers.\<close>

definition new_roots :: "file_op \<Rightarrow> trzsz_world \<Rightarrow> path set" where
  "new_roots op w =
     (case op of
        OpPrepare now i v root \<Rightarrow>
          (case fst (prepare_download_root now i v root w) of Inr r \<Rightarrow> {r} | Inl _ \<Rightarrow> {})
      | _ \<Rightarrow> {})"

definition written_file :: "file_op \<Rightarrow> trzsz_world \<Rightarrow> nat set" where
  "written_file op w =
     (case op of
        OpWrite now i v wid data \<Rightarrow>
          (case map_of (ts_download_handles (zw_state w)) wid of Some h \<Rightarrow> {dh_file h} | None \<Rightarrow> {})
      | _ \<Rightarrow> {})"

definition op_uuid_ok :: "file_op \<Rightarrow> bool" where
  "op_uuid_ok op \<longleftrightarrow> (case op of OpOpen now uuid wid i v root name overwrite \<Rightarrow> uuid_ok uuid | _ \<Rightarrow> True)"

inductive file_reach ::
  "trzsz_platform \<Rightarrow> (file_system \<Rightarrow> path \<Rightarrow> (bytes + path) list) \<Rightarrow> path set \<Rightarrow> trzsz_world \<Rightarrow> bool"
  for pf wd where
  start: "tree_ok fs \<Longrightarrow> file_reach pf wd {} \<lparr>zw_state = trzsz_state_new ttl, zw_fs = fs\<rparr>"
| request: "file_reach pf wd R w \<Longrightarrow> op_uuid_ok op \<Longrightarrow> file_reach pf wd (R \<union> new_roots op w) (run_file_op pf wd op w)"
| others: "file_reach pf wd R w \<Longrightarrow> tree_ok fs \<Longrightarrow> fs_next (zw_fs w) \<le> fs_next fs \<Longrightarrow>
    (\<And>q. is_link fs q \<Longrightarrow> is_link (zw_fs w) q) \<Longrightarrow> file_reach pf wd R (w\<lparr>zw_fs := fs\<rparr>)"

lemma safe_open_upload: "safe R I (\<lambda>_. True) (open_upload_file now hid i v p) (\<lambda>_ _. True)"
  unfolding open_upload_file_def
proof (rule safe_checked, rule safe_bind [where Q = "\<lambda>_ _. True", OF safe_look], simp, unfold case_prod_beta)
  fix y :: "path \<times> nat"
  have "safe R I (\<lambda>_. True) (if \<not> a then io_fail (TzUnauthorizedPath (path_display (fst y)))
        else io_bind (look_fs (\<lambda>fs. case open_read (fst y) fs of Inl _ \<Rightarrow> Err TzIo | Inr i \<Rightarrow> Ok i)) (\<lambda>file.
          register_upload_handle now hid i file (snd y))) (\<lambda>_ _. True)" for a
    by (cases a) (auto intro: safe_fail safe_bind [where Q = "\<lambda>_ _. True", OF safe_look safe_register_upload])
  then show "safe R I (\<lambda>_. True) (io_bind (is_upload_path_authorized now i (fst y)) (\<lambda>a. if \<not> a then io_fail (TzUnauthorizedPath (path_display (fst y)))
        else io_bind (look_fs (\<lambda>fs. case open_read (fst y) fs of Inl _ \<Rightarrow> Err TzIo | Inr i \<Rightarrow> Ok i)) (\<lambda>file.
          register_upload_handle now hid i file (snd y)))) (\<lambda>_ _. True)"
    by (rule safe_bind [OF safe_is_authorized])
qed

lemma safe_build_entries: "safe R I (\<lambda>_. True) (build_upload_entries pf wd now i v paths allow) (\<lambda>_ _. True)"
proof -
  have "safe R I (\<lambda>_. True) (io_bind (look_fs (\<lambda>fs. scan_upload_paths pf wd allow fs 0 paths)) (\<lambda>entries.
      io_bind (set_authorized_upload_paths now i (remdups (map ue_path entries))) (\<lambda>_. io_return entries))) (\<lambda>_ _. True)"
    by (rule safe_bind [where Q = "\<lambda>_ _. True", OF safe_look safe_bind [OF safe_set_authorized safe_return]]) simp_all
  then show ?thesis unfolding build_upload_entries_def by (intro safe_checked) (simp add: safe_fail)
qed

lemma safe_write_chunk: "safe R I (handle_inode wid I) (write_download_chunk now i v wid data) (\<lambda>_ _. True)"
  unfolding write_download_chunk_def by (intro safe_checked) (simp add: safe_fail safe_write)

lemma safe_read_chunk: "safe R I (\<lambda>_. True) (read_upload_chunk now i v hid offset len) (\<lambda>_ _. True)"
  unfolding read_upload_chunk_def by (intro safe_checked) (simp add: safe_fail safe_read_upload)

lemma safe_run: "safe R I P m Q \<Longrightarrow> files_ok R w \<Longrightarrow> P w \<Longrightarrow>
    changes_only (below_roots R) I (zw_fs w) (zw_fs (snd (m w))) \<and> files_ok R (snd (m w))"
  unfolding safe_def by (cases "m w") auto

lemma canonical_root: "canonicalize_existing_root root fs = Ok r \<Longrightarrow> list_all plain r \<and> link_free fs r"
  using canonicalize_plain by (auto simp: canonicalize_existing_root_def split: sum.splits if_splits)

lemma files_ok_insert:
  assumes "files_ok R w" and "list_all plain r" and "link_free (zw_fs w) r"
  shows "files_ok (insert r R) w"
proof -
  have b: "below_roots R \<subseteq> below_roots (insert r R)" by (auto simp: below_roots_def)
  then have "handle_ok R fs h \<Longrightarrow> handle_ok (insert r R) fs h" "owner_ok R fs ow \<Longrightarrow> owner_ok (insert r R) fs ow" for fs h ow
    by (auto simp: handle_ok_def owner_ok_def target_ok_def)
  then show ?thesis using assms unfolding files_ok_def by blast
qed

lemma prepare_ok:
  assumes "files_ok R w"
  shows "changes_only (below_roots (R \<union> new_roots (OpPrepare now i v root) w)) I (zw_fs w) (zw_fs (snd (prepare_download_root now i v root w)))
    \<and> files_ok (R \<union> new_roots (OpPrepare now i v root) w) (snd (prepare_download_root now i v root w))"
proof (cases "validate_api_version v = Ok () \<and> validate_owner_id i = Ok () \<and> (\<exists>r. canonicalize_existing_root root (zw_fs w) = Ok r)")
  case False
  then have "\<exists>e. prepare_download_root now i v root w = (Err e, w)"
    by (auto simp: prepare_download_root_def checked_def io_bind_def look_fs_def split: sum.splits)
  then show ?thesis using assms changes_only_refl [OF files_ok_tree] by (auto simp: new_roots_def)
next
  case True
  then obtain r where r: "canonicalize_existing_root root (zw_fs w) = Ok r" by blast
  note c = canonical_root [OF r]
  have w: "files_ok (insert r R) w" using files_ok_insert [OF assms] c by blast
  have p: "prepare_download_root now i v root w = state_prepare_download_root now i r w"
    using True by (simp add: prepare_download_root_def checked_def io_bind_def look_fs_def r)
  moreover have "fst (state_prepare_download_root now i r w) = Ok r"
    by (simp add: state_prepare_download_root_def io_bind_def purge_expired_def in_state_def)
  ultimately have "new_roots (OpPrepare now i v root) w = {r}" by (simp add: new_roots_def)
  then show ?thesis using safe_run [OF safe_state_prepare [of r "insert r R" I] w, of now i] p by simp
qed

lemma run_file_op_ok:
  assumes "files_ok R w" and "op_uuid_ok op"
  shows "changes_only (below_roots (R \<union> new_roots op w)) (written_file op w) (zw_fs w) (zw_fs (run_file_op pf wd op w))
    \<and> files_ok (R \<union> new_roots op w) (run_file_op pf wd op w)"
proof (cases op)
  case (OpPrepare now i v root)
  then show ?thesis using prepare_ok [OF assms(1), of now i v root] by simp
next
  case (OpWrite now i v wid data)
  have "handle_inode wid (written_file op w) w" by (auto simp: handle_inode_def written_file_def OpWrite)
  then show ?thesis using safe_run [OF safe_write_chunk assms(1)] by (simp add: OpWrite new_roots_def)
next
  case (OpPurge now)
  then show ?thesis using purge_files_ok [OF assms(1)] by (simp add: new_roots_def)
next
  case (OpOpen now uuid wid i v root name overwrite)
  then have "uuid_ok uuid" using assms(2) by (simp add: op_uuid_ok_def)
  then show ?thesis using safe_run [OF safe_open_save_file assms(1)] by (simp add: OpOpen new_roots_def)
qed (use safe_run [OF safe_create assms(1)] safe_run [OF safe_commit assms(1)] safe_run [OF safe_remove_directory assms(1)]
    safe_run [OF safe_remove_file assms(1)] safe_run [OF safe_checked [OF safe_finish] assms(1)]
    safe_run [OF safe_checked [OF safe_abort] assms(1)] safe_run [OF safe_build_entries assms(1)]
    safe_run [OF safe_open_upload assms(1)] safe_run [OF safe_read_chunk assms(1)]
    safe_run [OF safe_checked [OF safe_close_upload] assms(1)] safe_run [OF safe_cleanup_owner assms(1)] in
    \<open>simp_all add: new_roots_def finish_download_file_def abort_download_file_def close_upload_file_def\<close>)

lemma file_reach_ok: "file_reach pf wd R w \<Longrightarrow> files_ok R w"
proof (induction rule: file_reach.induct)
  case (start fs ttl)
  then show ?case by (simp add: files_ok_def trzsz_state_new_def)
next
  case (request R w op)
  then show ?case using run_file_op_ok by blast
next
  case (others R w fs)
  then have "changes_only UNIV UNIV (zw_fs w) fs" by (auto simp: changes_only_def)
  then show ?case by (rule files_ok_fs [OF others.IH])
qed

end
