(* ===== verification/Trzsz_Downloads.thy ===== *)
theory Trzsz_Downloads
  imports Trzsz_File_Runs
begin

text \<open>
  What follows from the invariant for downloads: they stay below their roots, finishing puts the partial file in place,
  and it holds what was written. A run shows that the statements apply, and others what the code does not intend.
\<close>

subsection \<open>Confinement\<close>

text \<open>
  C3: Whatever names a remote host sends and whatever requests come, no operation on files creates, changes or removes
  anything that is not below a directory prepared for downloads, nor does it change the content of an existing file other
  than the one that a write is for, even if other programs change the files in between, as long as they make no links.
\<close>

theorem downloads_stay_below_roots:
  assumes "file_reach pf wd R w" and "op_uuid_ok op" and "\<forall>r \<in> R \<union> new_roots op w. \<not> strict_prefix r q"
    and "n < fs_next (zw_fs w)" and "n \<notin> written_file op w"
  shows "node_at (zw_fs (run_file_op pf wd op w)) q = node_at (zw_fs w) q
    \<and> fs_data (zw_fs (run_file_op pf wd op w)) n = fs_data (zw_fs w) n"
  using run_file_op_ok [OF file_reach_ok [OF assms(1)] assms(2), of pf wd] assms(3-5)
  by (auto simp: changes_only_def below_roots_def)

subsection \<open>Finishing\<close>

lemma dir_prefix:
  assumes "tree_ok fs"
  shows "node_at fs p = Some Directory \<Longrightarrow> prefix q p \<Longrightarrow> node_at fs q = Some Directory"
proof (induction p rule: rev_induct)
  case (snoc c p)
  then have "node_at fs p = Some Directory" using assms unfolding tree_ok_def by (metis butlast_snoc option.distinct(1) snoc_eq_iff_butlast)
  then show ?case using snoc by auto
qed simp

lemma walk_dirs:
  "list_all plain cs \<Longrightarrow> (\<And>q. prefix q cs \<Longrightarrow> node_at fs (d @ q) = Some Directory) \<Longrightarrow> walk k fs d cs = Ok (d @ cs)"
proof (induction cs arbitrary: d)
  case (Cons c cs)
  have "node_at fs (d @ [c]) = Some Directory" using Cons.prems(2) [of "[c]"] by simp
  moreover have "walk k fs (d @ [c]) cs = Ok ((d @ [c]) @ cs)"
    by (rule Cons.IH) (use Cons.prems(1) Cons.prems(2) [of "c # _"] in simp_all)
  ultimately show ?case using Cons.prems(1) by (simp add: walk.simps(2) [of k fs d c cs] plain_def)
qed simp

lemma metadata_exists:
  assumes "tree_ok fs" and "entry_path fs p" and "node_at fs p = Some n"
  shows "symlink_metadata p fs = Ok n"
proof -
  have p: "list_all plain p" "p \<noteq> []" using assms(2) by (simp_all add: entry_path_def)
  have d: "node_at fs (butlast p) = Some Directory" using assms(1,3) p(2) by (simp add: tree_ok_def)
  have "canonicalize (butlast p) fs = Ok (butlast p)"
    using walk_dirs [of "butlast p" fs "[]" MAX_LINKS] dir_prefix [OF assms(1) d] list_all_butlast [OF p(1)]
    by (simp add: canonicalize_def)
  moreover have "plain (last p)" using p by (simp add: list_all_iff)
  ultimately show ?thesis using d p(2) assms(3) by (simp add: symlink_metadata_def locate_def)
qed

lemma rename_path_err: "rename_path a b fs = (Err e, fs') \<Longrightarrow> fs' = fs"
  by (auto simp: rename_path_def split: sum.splits option.splits if_splits)

lemma put_in_place_ok:
  assumes "tree_ok fs" and "handle_ok R fs h" and "put_in_place h fs = (x, fs')"
  shows "x = Ok () \<Longrightarrow> node_at fs (dh_temp_path h) \<noteq> None \<and> node_at fs' (dh_final_path h) = node_at fs (dh_temp_path h)
      \<and> node_at fs' (dh_temp_path h) = None \<and> fs_data fs' = fs_data fs \<and> (node_at fs (dh_final_path h) \<noteq> None \<longrightarrow> dh_overwrite h)"
    and "x \<noteq> Ok () \<Longrightarrow> \<not> dh_overwrite h \<Longrightarrow> fs' = fs"
proof -
  have e: "entry_path fs (dh_final_path h)" "entry_path fs (dh_temp_path h)" "dh_temp_path h \<noteq> dh_final_path h"
    using assms(2) by (simp_all add: handle_ok_def target_ok_def)
  show "fs' = fs" if "x \<noteq> Ok ()" "\<not> dh_overwrite h"
    using assms(3) that rename_path_err [of "dh_temp_path h" "dh_final_path h" fs]
    by (auto simp: put_in_place_def io_bind_def io_result_def split: sum.splits node.splits if_splits prod.splits)
  assume x: "x = Ok ()"
  then obtain fs1 where r: "rename_path (dh_temp_path h) (dh_final_path h) fs1 = (Ok (), fs')"
    and f: "fs1 = fs \<and> (\<exists>e. symlink_metadata (dh_final_path h) fs = Inl e)
      \<or> dh_overwrite h \<and> (\<exists>y. remove_file (dh_final_path h) fs = (y, fs1))"
    using assms(3) by (auto simp: put_in_place_def io_bind_def io_result_def split: sum.splits node.splits if_splits prod.splits)
  have c: "changes_only {dh_final_path h} {} fs fs1"
    using f remove_file_changes [OF assms(1) e(1)] changes_only_refl [OF assms(1)] by blast
  have "fs_data fs1 = fs_data fs"
    using f by (auto simp: remove_file_def delete_node_def split: sum.splits option.splits node.splits if_splits)
  moreover have "node_at fs1 (dh_temp_path h) = node_at fs (dh_temp_path h)" using c e(3) by (simp add: changes_only_def)
  moreover have "node_at fs (dh_final_path h) \<noteq> None \<longrightarrow> dh_overwrite h"
    using f metadata_exists [OF assms(1) e(1)] by auto
  moreover note rename_path_ok(1-4) [OF entry_path_kept [OF c e(2)] entry_path_kept [OF c e(1)] r e(3)]
  ultimately show "node_at fs (dh_temp_path h) \<noteq> None \<and> node_at fs' (dh_final_path h) = node_at fs (dh_temp_path h)
      \<and> node_at fs' (dh_temp_path h) = None \<and> fs_data fs' = fs_data fs \<and> (node_at fs (dh_final_path h) \<noteq> None \<longrightarrow> dh_overwrite h)"
    by simp
qed

lemma finish_after_purge:
  assumes "map_of (ts_download_handles (zw_state (purge_world now w))) wid = Some h"
    and "finish_download_handle now (dh_owner_id h) wid w = (x, w')"
  obtains fs1 y where "put_in_place h (zw_fs (purge_world now w)) = (y, fs1)" and "x = y"
    and "zw_fs w' = (case y of Inl _ \<Rightarrow> snd (remove_file (dh_temp_path h) fs1) | Inr _ \<Rightarrow> fs1)"
    and "map_of (ts_download_handles (zw_state w')) wid = None"
  using assms
  by (auto simp: finish_download_handle_def io_bind_def purge_expired_def in_state_def in_fs_def take_download_handle_def
      release_download_handle_def modify_owner_def delete_conv' split: prod.splits sum.splits)

text \<open>
  C33: Finishing a download closes its handle. If it succeeds, the partial file is under the final name, and a file that was there
  before is replaced only if that was asked for; if it fails and replacing was not asked for, what the final name stood for is left alone.
\<close>

theorem finish_puts_file_in_place:
  assumes "file_reach pf wd R w" and "map_of (ts_download_handles (zw_state (purge_world now w))) wid = Some h"
    and "fs = zw_fs (purge_world now w)" and "finish_download_handle now (dh_owner_id h) wid w = (x, w')"
  shows "map_of (ts_download_handles (zw_state w')) wid = None
    \<and> (x = Ok () \<longrightarrow> node_at fs (dh_temp_path h) \<noteq> None \<and> node_at (zw_fs w') (dh_final_path h) = node_at fs (dh_temp_path h)
         \<and> node_at (zw_fs w') (dh_temp_path h) = None \<and> (node_at fs (dh_final_path h) \<noteq> None \<longrightarrow> dh_overwrite h))
    \<and> (x \<noteq> Ok () \<and> \<not> dh_overwrite h \<longrightarrow> node_at (zw_fs w') (dh_final_path h) = node_at fs (dh_final_path h))"
proof -
  have w: "files_ok R (purge_world now w)" by (rule purge_files_ok(2) [OF file_reach_ok [OF assms(1)]])
  then have h: "handle_ok R fs h" and t: "tree_ok fs" using assms(2,3) by (simp_all add: files_ok_def)
  obtain fs1 y where p: "put_in_place h fs = (y, fs1)" "x = y"
      "zw_fs w' = (case y of Inl _ \<Rightarrow> snd (remove_file (dh_temp_path h) fs1) | Inr _ \<Rightarrow> fs1)"
      "map_of (ts_download_handles (zw_state w')) wid = None"
    by (rule finish_after_purge [OF assms(2,4)]) (use assms(3) in simp)
  note ok = put_in_place_ok [OF t h p(1)]
  have e: "entry_path fs (dh_temp_path h)" "dh_temp_path h \<noteq> dh_final_path h" using h by (simp_all add: handle_ok_def target_ok_def)
  have rm: "node_at (snd (remove_file (dh_temp_path h) fs)) (dh_final_path h) = node_at fs (dh_final_path h)"
  proof -
    obtain z fs2 where z: "remove_file (dh_temp_path h) fs = (z, fs2)" by fastforce
    show ?thesis using remove_file_changes [OF t e(1) z] e(2) by (simp add: changes_only_def z)
  qed
  have "node_at (zw_fs w') (dh_final_path h) = node_at fs (dh_final_path h)" if "x \<noteq> Ok ()" "\<not> dh_overwrite h"
    using ok(2) p(2,3) that rm by (cases y) auto
  then show ?thesis using ok(1) p(2-4) by auto
qed

text \<open>A download from its request to its end.\<close>

fun write_chunks :: "nat \<Rightarrow> bytes \<Rightarrow> bytes \<Rightarrow> bytes list \<Rightarrow> unit trzsz_op" where
  "write_chunks now owner_id writer_id [] = io_return ()"
| "write_chunks now owner_id writer_id (chunk # chunks) =
     io_bind (write_download_chunk now owner_id TRZSZ_API_VERSION writer_id chunk) (\<lambda>_. write_chunks now owner_id writer_id chunks)"

definition only_removes :: "file_system \<Rightarrow> file_system \<Rightarrow> bool" where
  "only_removes fs fs' \<longleftrightarrow> (\<forall>q. node_at fs' q = node_at fs q \<or> node_at fs' q = None) \<and> fs_data fs' = fs_data fs"

lemma only_removes_refl: "only_removes fs fs" by (simp add: only_removes_def)

lemma only_removes_trans: "only_removes fs fs1 \<Longrightarrow> only_removes fs1 fs2 \<Longrightarrow> only_removes fs fs2"
  unfolding only_removes_def by metis

lemma only_removes_delete: "p \<noteq> [] \<Longrightarrow> only_removes fs (delete_node p fs)"
  using node_at_delete_node [of p fs] by (auto simp: only_removes_def delete_node_def)

lemma remove_file_only_removes: "only_removes fs (snd (remove_file p fs))"
proof (cases "locate p fs")
  case (Inr q)
  then show ?thesis using only_removes_delete [of q fs]
    by (cases "q = []") (auto simp: remove_file_def only_removes_refl split: option.splits node.splits)
qed (simp add: remove_file_def only_removes_refl)

lemma remove_dir_only_removes: "only_removes fs (snd (remove_dir p fs))"
proof (cases "locate p fs")
  case (Inr q)
  then show ?thesis using only_removes_delete [of q fs]
    by (auto simp: remove_dir_def only_removes_refl split: option.splits node.splits)
qed (simp add: remove_dir_def only_removes_refl)

lemma remove_all_only_removes:
  assumes "\<And>p fs. only_removes fs (snd (remove p fs))"
  shows "only_removes fs (snd (remove_all remove ps n fs))"
proof (induction ps arbitrary: n fs)
  case (Cons p ps)
  obtain x fs1 where r: "remove p fs = (x, fs1)" by fastforce
  then have "only_removes fs fs1" using assms [of fs p] by simp
  then show ?case using only_removes_trans Cons.IH by (cases x) (auto simp: r)
qed (simp add: only_removes_refl)

lemma purge_only_removes: "only_removes (zw_fs w) (zw_fs (purge_world now w))"
proof -
  obtain plan st where c: "collect_expired_cleanup now (zw_state w) = (plan, st)" by fastforce
  obtain k fs1 where r: "remove_all remove_file (cp_temp_paths plan) 0 (zw_fs w) = (k, fs1)" by fastforce
  have "only_removes (zw_fs w) fs1" using remove_all_only_removes [of remove_file "zw_fs w" "cp_temp_paths plan" 0, OF remove_file_only_removes] r by simp
  then show ?thesis
    using only_removes_trans remove_all_only_removes [of remove_dir, OF remove_dir_only_removes]
    by (simp add: purge_world_def c cleanup_execute_def r)
qed

definition downloading :: "bytes \<Rightarrow> bytes \<Rightarrow> path \<Rightarrow> path \<Rightarrow> nat \<Rightarrow> bytes \<Rightarrow> trzsz_world \<Rightarrow> bool" where
  "downloading wid i f t n content w \<longleftrightarrow>
     (\<exists>h. map_of (ts_download_handles (zw_state w)) wid = Some h \<and> dh_owner_id h = i \<and> dh_final_path h = f \<and> dh_temp_path h = t
        \<and> dh_file h = n \<and> dh_position h = length content)
     \<and> fs_data (zw_fs w) n = content \<and> (node_at (zw_fs w) t = Some (Regular n) \<or> node_at (zw_fs w) t = None)"


lemma downloading_purged:
  assumes "files_ok R w" and "downloading wid i f t n content w"
    and "map_of (ts_download_handles (zw_state (purge_world now w))) wid \<noteq> None"
  shows "downloading wid i f t n content (purge_world now w)"
proof -
  obtain h where h: "map_of (ts_download_handles (zw_state (purge_world now w))) wid = Some h" using assms(3) by blast
  then have "map_of (ts_download_handles (zw_state w)) wid = Some h"
    using purge_files_ok(3) [OF assms(1), of now] unfolding shrinks_def by blast
  moreover have "node_at (zw_fs (purge_world now w)) t = node_at (zw_fs w) t \<or> node_at (zw_fs (purge_world now w)) t = None"
      "fs_data (zw_fs (purge_world now w)) = fs_data (zw_fs w)"
    using purge_only_removes [of w now] by (simp_all add: only_removes_def)
  ultimately show ?thesis using assms(2) h by (auto simp: downloading_def)
qed

lemma write_appends:
  assumes "files_ok R w" and "downloading wid i f t n content w" and "write_download_chunk now i TRZSZ_API_VERSION wid data w = (Ok (), w')"
  shows "downloading wid i f t n (content @ data) w'"
proof -
  let ?w = "purge_world now w"
  have s: "write_section now i wid data ?w = (Ok (), w')"
    using assms(3)
    by (auto simp: write_download_chunk_def checked_def io_bind_def state_write_download_chunk_def purge_expired_def io_fail_def
        split: sum.splits if_splits)
  then have "map_of (ts_download_handles (zw_state ?w)) wid \<noteq> None"
    by (auto simp: write_section_def Let_def modify_owner_def split: option.splits)
  from downloading_purged [OF assms(1,2) this] show ?thesis using s
    by (auto simp: downloading_def write_section_def Let_def modify_owner_def write_file_at_def update_conv'
        split: option.splits if_splits prod.splits sum.splits)
qed

lemma write_chunks_append:
  "files_ok R w \<Longrightarrow> downloading wid i f t n content w \<Longrightarrow> write_chunks now i wid chunks w = (Ok (), w') \<Longrightarrow>
     files_ok R w' \<and> downloading wid i f t n (content @ concat chunks) w'"
proof (induction chunks arbitrary: content w)
  case (Cons chunk chunks)
  then obtain w1 where c: "write_download_chunk now i TRZSZ_API_VERSION wid chunk w = (Ok (), w1)" "write_chunks now i wid chunks w1 = (Ok (), w')"
    by (auto simp: io_bind_def split: prod.splits sum.splits)
  have "files_ok R w1"
    using safe_write_chunk [of R UNIV wid now i TRZSZ_API_VERSION chunk] Cons.prems(1) c(1)
    unfolding safe_def handle_inode_def by blast
  then show ?case using Cons.IH [of w1 "content @ chunk"] write_appends [OF Cons.prems(1,2) c(1)] c(2) by simp
qed simp

lemma finish_content:
  assumes "files_ok R w" and "downloading wid i f t n content w" and "finish_download_handle now i wid w = (Ok (), w')"
  shows "node_at (zw_fs w') f = Some (Regular n) \<and> fs_data (zw_fs w') n = content"
proof -
  let ?w = "purge_world now w"
  have "map_of (ts_download_handles (zw_state ?w)) wid \<noteq> None"
    using assms(3) by (auto simp: finish_download_handle_def io_bind_def purge_expired_def in_state_def take_download_handle_def
        split: option.splits)
  note d = downloading_purged [OF assms(1,2) this]
  then obtain h where h: "map_of (ts_download_handles (zw_state ?w)) wid = Some h" "dh_owner_id h = i" "dh_final_path h = f" "dh_temp_path h = t"
    by (auto simp: downloading_def)
  obtain fs1 y where p: "put_in_place h (zw_fs ?w) = (y, fs1)" "Ok () = y"
      "zw_fs w' = (case y of Inl _ \<Rightarrow> snd (remove_file (dh_temp_path h) fs1) | Inr _ \<Rightarrow> fs1)"
    using finish_after_purge [OF h(1)] assms(3) h(2) by metis
  have w: "files_ok R ?w" by (rule purge_files_ok(2) [OF assms(1)])
  have hk: "handle_ok R (zw_fs ?w) h" using w h(1) by (simp add: files_ok_def)
  show ?thesis using put_in_place_ok(1) [OF files_ok_tree [OF w] hk p(1)] p(2,3) d h(3,4) by (auto simp: downloading_def)
qed

lemma bind_Ok: "io_bind m f w = (Ok x, w') \<Longrightarrow> \<exists>y w1. m w = (Ok y, w1) \<and> f y w1 = (Ok x, w')"
  by (auto simp: io_bind_def split: prod.splits sum.splits)

lemma lift_Ok: "io_bind (io_lift r) f w = (Ok x, w') \<Longrightarrow> \<exists>y. r = Ok y \<and> f y w = (Ok x, w')"
  by (cases r) (auto simp: io_bind_def)

lemma look_Ok: "io_bind (look_fs g) f w = (Ok x, w') \<Longrightarrow> \<exists>y. f y w = (Ok x, w')"
  by (auto simp: io_bind_def look_fs_def split: sum.splits)

lemma checked_Ok: "checked v i m w = (Ok x, w') \<Longrightarrow> m w = (Ok x, w')"
  by (auto simp: checked_def dest!: lift_Ok)

lemma register_downloading:
  assumes "register_download_handle now wid i ln dn root f t overwrite n w = (Ok d, w')"
    and "node_at (zw_fs w) t = Some (Regular n)" and "fs_data (zw_fs w) n = []"
  shows "downloading wid i f t n [] w' \<and> do_writer_id d = wid \<and> do_final_path d = f"
proof -
  have "node_at (zw_fs (purge_world now w)) t = node_at (zw_fs w) t \<or> node_at (zw_fs (purge_world now w)) t = None"
      "fs_data (zw_fs (purge_world now w)) = fs_data (zw_fs w)"
    using purge_only_removes [of w now] by (simp_all add: only_removes_def)
  then show ?thesis using assms
    by (auto simp: register_download_handle_def io_bind_def purge_expired_def in_state_def Let_def downloading_def update_conv'
        split: if_splits)
qed

lemma open_starts_download:
  assumes "files_ok R w" and "uuid_ok uuid" and "open_save_file pf now uuid wid i v root_path name overwrite w = (Ok d, w')"
  shows "\<exists>t n. downloading wid i (do_final_path d) t n [] w' \<and> do_writer_id d = wid"
proof -
  obtain root w1 cs where r: "requested_root now i root_path w = (Ok root, w1)" and cs: "sanitize_download_rel_path pf name = Ok cs"
    and k: "io_bind (target_path root cs) (\<lambda>final_path.
        io_bind (look_fs (check_save_target final_path overwrite)) (\<lambda>_.
        let local_name = last cs in
        io_bind (io_lift (build_temp_path uuid final_path local_name)) (\<lambda>temp_path.
        io_bind (in_fs (io_result (create_new temp_path))) (\<lambda>file.
        register_download_handle now wid i local_name local_name root final_path temp_path overwrite file)))) w1 = (Ok d, w')"
    using assms(3) unfolding open_save_file_def by (blast dest: checked_Ok bind_Ok lift_Ok)
  obtain f w2 where f: "target_path root cs w1 = (Ok f, w2)"
    and k2: "io_bind (look_fs (check_save_target f overwrite)) (\<lambda>_.
        let local_name = last cs in
        io_bind (io_lift (build_temp_path uuid f local_name)) (\<lambda>temp_path.
        io_bind (in_fs (io_result (create_new temp_path))) (\<lambda>file.
        register_download_handle now wid i local_name local_name root f temp_path overwrite file))) w2 = (Ok d, w')"
    using bind_Ok [OF k] by blast
  obtain t n w3 where t: "build_temp_path uuid f (last cs) = Ok t" and c: "in_fs (io_result (create_new t)) w2 = (Ok n, w3)"
    and g: "register_download_handle now wid i (last cs) (last cs) root f t overwrite n w3 = (Ok d, w')"
    using look_Ok [OF k2] unfolding Let_def by (blast dest: bind_Ok lift_Ok)
  have w1: "files_ok R w1" "root \<in> R" using safe_requested_root [of R "{}" now i root_path] assms(1) r unfolding safe_def by blast+
  note ok = sanitize_download_ok [OF cs]
  have w2: "files_ok R w2" "target_ok R (zw_fs w2) f"
    using safe_target_path [of cs "\<lambda>_. True" R "{}" root] ok w1 f kept_True unfolding safe_def by blast+
  have "f \<noteq> []" and tp: "t = path_push (butlast f) (46 # last cs @ str_lit ''.oxide-trzsz-'' @ uuid @ str_lit ''.part'')"
    using t by (auto simp: build_temp_path_def split: if_splits)
  moreover have "47 \<notin> set (last cs)" using ok by (simp add: list_all_iff)
  ultimately have e: "entry_path (zw_fs w2) t"
    using temp_target [of R "zw_fs w2" "butlast f" "last f" "last cs" uuid] w2(2) assms(2) by (simp add: target_ok_def)
  obtain fs3 where n: "create_new t (zw_fs w2) = (Ok n, fs3)" and w3: "w3 = w2\<lparr>zw_fs := fs3\<rparr>"
    using c by (auto simp: in_fs_def io_result_def split: prod.splits sum.splits)
  have "node_at (zw_fs w3) t = Some (Regular n)" "fs_data (zw_fs w3) n = []"
    using create_new_ok(1,4) [OF e n] by (simp_all add: w3)
  from register_downloading [OF g this] show ?thesis by blast
qed

text \<open>
  C32: A download whose file was opened, whose chunks were all written and which was finished leaves under its final name a file with
  exactly the chunks as its content, whatever other handles expire in the meantime.
\<close>

theorem download_content_delivered:
  assumes "file_reach pf wd R w" and "uuid_ok uuid"
    and "open_save_file pf now uuid wid i v root_path name overwrite w = (Ok d, w1)"
    and "write_chunks now1 i (do_writer_id d) chunks w1 = (Ok (), w2)"
    and "finish_download_file now2 i v (do_writer_id d) w2 = (Ok (), w3)"
  shows "\<exists>n. node_at (zw_fs w3) (do_final_path d) = Some (Regular n) \<and> fs_data (zw_fs w3) n = concat chunks"
proof -
  have w: "files_ok R w" by (rule file_reach_ok [OF assms(1)])
  have w1: "files_ok R w1" using safe_open_save_file [OF assms(2)] w assms(3) unfolding safe_def by blast
  obtain t n where d: "downloading wid i (do_final_path d) t n [] w1" "do_writer_id d = wid"
    using open_starts_download [OF w assms(2,3)] by blast
  have w2: "files_ok R w2" "downloading wid i (do_final_path d) t n (concat chunks) w2"
    using write_chunks_append [OF w1 d(1)] assms(4) d(2) by simp_all
  have "finish_download_handle now2 i wid w2 = (Ok (), w3)"
    using assms(5) d(2) unfolding finish_download_file_def by (auto dest: checked_Ok)
  then show ?thesis using finish_content [OF w2] by blast
qed

subsection \<open>A run\<close>

text \<open>A directory is prepared and a file below it is received; another directory is not touched.\<close>

definition sample_fs :: file_system where
  "sample_fs = \<lparr>fs_nodes = [(map str_lit [''d''], Directory), (map str_lit [''e''], Directory), (map str_lit [''e'', ''f''], Regular 0)],
     fs_data = (\<lambda>_. [1, 2]), fs_next = 1, fs_denied = (\<lambda>_. False), fs_broken = (\<lambda>_. False), fs_cwd = []\<rparr>"

definition sample_pf :: trzsz_platform where
  "sample_pf = \<lparr>pf_nfc = (\<lambda>s. s), pf_windows = False\<rparr>"

definition sample_uuid :: bytes where
  "sample_uuid = replicate 36 48"

definition sample_world :: trzsz_world where
  "sample_world = run_file_op sample_pf (\<lambda>_ _. []) (OpPrepare 0 (str_lit ''o'') 1 (str_lit ''/d''))
     \<lparr>zw_state = trzsz_state_new 900, zw_fs = sample_fs\<rparr>"

definition sample_open :: file_op where
  "sample_open = OpOpen 0 sample_uuid (str_lit ''w'') (str_lit ''o'') 1 (str_lit ''/d'') (str_lit ''a/b'') False"

lemma tree_ok_nodes:
  "tree_ok fs \<longleftrightarrow> list_all (\<lambda>p. p \<noteq> [] \<longrightarrow> node_at fs (butlast p) = Some Directory) (map fst (fs_nodes fs))"
proof -
  have "p \<noteq> [] \<Longrightarrow> node_at fs p \<noteq> None \<longleftrightarrow> p \<in> set (map fst (fs_nodes fs))" for p
    by (simp add: node_at_def map_of_eq_None_iff)
  then show ?thesis unfolding tree_ok_def list_all_iff by blast
qed

lemma sample_reach:
  "file_reach sample_pf (\<lambda>_ _. []) {map str_lit [''d'']} sample_world"
  "file_reach sample_pf (\<lambda>_ _. []) {map str_lit [''d'']} (run_file_op sample_pf (\<lambda>_ _. []) sample_open sample_world)"
proof -
  let ?w = "\<lparr>zw_state = trzsz_state_new 900, zw_fs = sample_fs\<rparr>" and ?op = "OpPrepare 0 (str_lit ''o'') 1 (str_lit ''/d'')"
  have "tree_ok sample_fs" unfolding tree_ok_nodes by code_simp
  then have s: "file_reach sample_pf (\<lambda>_ _. []) {} ?w" by (rule file_reach.start)
  have n: "new_roots ?op ?w = {map str_lit [''d'']}" "new_roots sample_open sample_world = {}" by code_simp+
  have o: "op_uuid_ok ?op" "op_uuid_ok sample_open" by code_simp+
  show r: "file_reach sample_pf (\<lambda>_ _. []) {map str_lit [''d'']} sample_world"
    using file_reach.request [OF s o(1)] unfolding n sample_world_def by simp
  show "file_reach sample_pf (\<lambda>_ _. []) {map str_lit [''d'']} (run_file_op sample_pf (\<lambda>_ _. []) sample_open sample_world)"
    using file_reach.request [OF r o(2)] unfolding n by simp
qed

definition sample_download :: download_open where
  "sample_download =
     \<lparr>do_writer_id = str_lit ''w'', do_local_name = str_lit ''b'', do_display_name = str_lit ''b'',
      do_temp_path = map str_lit [''d'', ''a'', ''.b.oxide-trzsz-000000000000000000000000000000000000.part''],
      do_final_path = map str_lit [''d'', ''a'', ''b'']\<rparr>"

definition sample_handle :: download_handle where
  "sample_handle =
     \<lparr>dh_owner_id = str_lit ''o'', dh_root_path = map str_lit [''d''], dh_final_path = do_final_path sample_download,
      dh_temp_path = do_temp_path sample_download, dh_overwrite = False, dh_file = 1, dh_position = 0, dh_touched_at = 0\<rparr>"

theorem downloads_stay_below_roots_witness:
  "(node_at (zw_fs (run_file_op sample_pf (\<lambda>_ _. []) sample_open sample_world)) (map str_lit [''e'', ''f''])
      = node_at (zw_fs sample_world) (map str_lit [''e'', ''f''])
    \<and> fs_data (zw_fs (run_file_op sample_pf (\<lambda>_ _. []) sample_open sample_world)) 0 = fs_data (zw_fs sample_world) 0)
    \<and> node_at (zw_fs (run_file_op sample_pf (\<lambda>_ _. []) sample_open sample_world)) (map str_lit [''d'', ''a'']) = Some Directory"
proof (rule conjI)
  have n: "new_roots sample_open sample_world = {}" by code_simp
  have u: "op_uuid_ok sample_open" "0 < fs_next (zw_fs sample_world)" "0 \<notin> written_file sample_open sample_world" by code_simp+
  have "\<forall>r \<in> {map str_lit [''d'']} \<union> new_roots sample_open sample_world. \<not> strict_prefix r (map str_lit [''e'', ''f''])"
    unfolding n by (simp add: str_lit_def strict_prefix_def)
  from downloads_stay_below_roots [OF sample_reach(1) u(1) this u(2,3)]
  show "node_at (zw_fs (run_file_op sample_pf (\<lambda>_ _. []) sample_open sample_world)) (map str_lit [''e'', ''f''])
      = node_at (zw_fs sample_world) (map str_lit [''e'', ''f''])
    \<and> fs_data (zw_fs (run_file_op sample_pf (\<lambda>_ _. []) sample_open sample_world)) 0 = fs_data (zw_fs sample_world) 0" .
qed code_simp

theorem finish_puts_file_in_place_witness:
  "node_at (zw_fs (snd (finish_download_handle 0 (dh_owner_id sample_handle) (str_lit ''w'')
     (run_file_op sample_pf (\<lambda>_ _. []) sample_open sample_world)))) (dh_final_path sample_handle) = Some (Regular 1)"
proof -
  let ?w = "run_file_op sample_pf (\<lambda>_ _. []) sample_open sample_world"
  have h: "map_of (ts_download_handles (zw_state (purge_world 0 ?w))) (str_lit ''w'') = Some sample_handle" by code_simp
  have x: "fst (finish_download_handle 0 (dh_owner_id sample_handle) (str_lit ''w'') ?w) = Ok ()" by code_simp
  have t: "node_at (zw_fs (purge_world 0 ?w)) (dh_temp_path sample_handle) = Some (Regular 1)" by code_simp
  note place = finish_puts_file_in_place [OF sample_reach(2) h refl surjective_pairing]
  show ?thesis using place x t by metis
qed

lemma small_chunk:
  "length data \<le> 2 \<Longrightarrow> write_download_chunk now i v wid data = checked v i (state_write_download_chunk now i wid data)"
  by (simp add: write_download_chunk_def MAX_TRANSFER_CHUNK_SIZE_def)

theorem download_content_delivered_witness:
  "\<exists>n. node_at (zw_fs (snd (finish_download_file 0 (str_lit ''o'') 1 (str_lit ''w'') (snd (write_chunks 0 (str_lit ''o'') (str_lit ''w'')
       [[1], [2, 3]] (run_file_op sample_pf (\<lambda>_ _. []) sample_open sample_world)))))) (map str_lit [''d'', ''a'', ''b'']) = Some (Regular n)
     \<and> fs_data (zw_fs (snd (finish_download_file 0 (str_lit ''o'') 1 (str_lit ''w'') (snd (write_chunks 0 (str_lit ''o'') (str_lit ''w'')
       [[1], [2, 3]] (run_file_op sample_pf (\<lambda>_ _. []) sample_open sample_world)))))) n = [1, 2, 3]"
proof -
  let ?open = "open_save_file sample_pf 0 sample_uuid (str_lit ''w'') (str_lit ''o'') 1 (str_lit ''/d'') (str_lit ''a/b'') False sample_world"
  let ?w1 = "run_file_op sample_pf (\<lambda>_ _. []) sample_open sample_world"
  let ?written = "write_chunks 0 (str_lit ''o'') (str_lit ''w'') [[1], [2, 3]] ?w1"
  let ?finish = "finish_download_file 0 (str_lit ''o'') 1 (str_lit ''w'') (snd ?written)"
  have d: "do_writer_id sample_download = str_lit ''w''" "do_final_path sample_download = map str_lit [''d'', ''a'', ''b'']"
    by (simp_all add: sample_download_def)
  have "fst ?open = Ok sample_download" by code_simp
  then have o: "?open = (Ok sample_download, ?w1)" by (simp add: sample_open_def prod_eq_iff)
  have "fst ?written = Ok ()" unfolding write_chunks.simps small_chunk [of "[1]", simplified] small_chunk [of "[2, 3]", simplified] by code_simp
  then have c: "write_chunks 0 (str_lit ''o'') (do_writer_id sample_download) [[1], [2, 3]] ?w1 = (Ok (), snd ?written)"
    by (simp only: d prod_eq_iff fst_conv snd_conv)
  have "fst ?finish = Ok ()" unfolding write_chunks.simps small_chunk [of "[1]", simplified] small_chunk [of "[2, 3]", simplified] by code_simp
  then have f: "finish_download_file 0 (str_lit ''o'') 1 (do_writer_id sample_download) (snd ?written) = (Ok (), snd ?finish)"
    by (simp only: d prod_eq_iff fst_conv snd_conv)
  have u: "uuid_ok sample_uuid" by code_simp
  have "concat [[1], [2, 3]] = [1, 2, 3 :: u8]" by simp
  then show ?thesis using download_content_delivered [OF sample_reach(1) u o c f] unfolding d by metis
qed

subsection \<open>Where the code does something else\<close>

text \<open>
  A file to be overwritten is removed before the partial file is renamed. If that fails, because the partial file is gone, the old file is lost.
\<close>

lemma finish_failure_loses_file:
  "let run = run_file_op sample_pf (\<lambda>_ _. []); o_id = str_lit ''o'';
       w0 = run (OpPrepare 0 o_id 1 (str_lit ''/e'')) \<lparr>zw_state = trzsz_state_new 900, zw_fs = sample_fs\<rparr>;
       w1 = run (OpOpen 0 sample_uuid (str_lit ''w'') o_id 1 (str_lit ''/e'') (str_lit ''f'') True) w0;
       w2 = run (OpRemoveFile 0 o_id 1 (str_lit ''/e'') (str_lit ''.f.oxide-trzsz-000000000000000000000000000000000000.part'')) w1
   in node_at (zw_fs w2) (map str_lit [''e'', ''f'']) = Some (Regular 0)
     \<and> fst (finish_download_file 0 o_id 1 (str_lit ''w'') w2) = Err TzIo
     \<and> node_at (zw_fs (snd (finish_download_file 0 o_id 1 (str_lit ''w'') w2))) (map str_lit [''e'', ''f'']) = None"
  by code_simp

text \<open>Removing a file that does not exist creates the directories that it would be in.\<close>

lemma removing_creates_directories:
  "let w = run_file_op sample_pf (\<lambda>_ _. []) (OpRemoveFile 0 (str_lit ''o'') 1 (str_lit ''/d'') (str_lit ''a/b'')) sample_world
   in node_at (zw_fs sample_world) (map str_lit [''d'', ''a'']) = None
     \<and> node_at (zw_fs w) (map str_lit [''d'', ''a'']) = Some Directory"
  by code_simp

text \<open>
  Cleaning up does not check for links: if a directory on the way has been replaced by a link, a directory outside the root is removed.
\<close>

lemma cleanup_follows_links:
  "let run = run_file_op sample_pf (\<lambda>_ _. []); o_id = str_lit ''o''; b = map str_lit [''d'', ''a'', ''b''];
       w1 = run (OpCreate 0 o_id 1 (str_lit ''/d'') (str_lit ''a'') True) sample_world;
       w2 = run (OpCreate 0 o_id 1 (str_lit ''/d'') (str_lit ''a/b'') True) w1;
       w3 = w2\<lparr>zw_fs := set_node (map str_lit [''e'', ''b'']) Directory
              (set_node (butlast b) (Link (str_lit ''/e'')) (delete_node b (zw_fs w2)))\<rparr>
   in node_at (zw_fs w3) (map str_lit [''e'', ''b'']) = Some Directory
     \<and> node_at (zw_fs (run (OpCleanup 0 o_id) w3)) (map str_lit [''e'', ''b'']) = None"
  by code_simp

text \<open>
  The partial file is created before the number of handles is checked: the request that finds too many fails, and the file is left
  on the disk without a handle that would ever remove it.
\<close>

lemma full_owner_keeps_part_file:
  assumes "length (ow_download_handles (owner_entry now i (zw_state (purge_world now w)))) \<ge> MAX_HANDLES_PER_OWNER"
  shows "\<exists>e w'. register_download_handle now wid i ln dn root f t overwrite n w = (Err e, w')
    \<and> zw_fs w' = zw_fs (purge_world now w)
    \<and> ts_download_handles (zw_state w') = ts_download_handles (zw_state (purge_world now w))"
  using assms
  by (simp add: register_download_handle_def io_bind_def purge_expired_def in_state_def Let_def put_owner_def)

end
