(* ===== verification/Spec2Isabelle.thy ===== *)
theory Spec2Isabelle
  imports Xymodem_Transfer Zmodem_Transfer Modem_Consumer Editor_Utf16 Backpressure Telnet
    X11_Dispatcher Ssh_Runs Text_Diff Sftp_Paths Sftp_Transfer_Runs
    Trzsz_Session Trzsz_Filter Trzsz_Downloads
begin

text \<open>
  hapcli is a terminal client written in Rust: local, serial, Telnet and SSH terminals with file
  transfers inside the terminal, an editor for remote files, port forwarding and more, in some
  sixty crates. This development models the parts that carry logic of their own and that other
  parts rely on without checking:

  \<^item> the modem transfers (crate \<^verbatim>\<open>hapcli-modem-transfer\<close>): the XMODEM, YMODEM and ZMODEM protocols, the
    recognition of a transfer in terminal output and the hand-over of the byte stream to it;
  \<^item> the trzsz transfers (crate \<^verbatim>\<open>hapcli-trzsz\<close>): the input buffer, the escaping of binary data, the protocol
    engine, the recognition of a transfer in terminal output and the handling of local files;
  \<^item> the editor core (crate \<^verbatim>\<open>hapcli-editor-core\<close>): the text buffer over a piece table, its history,
    its line index, search, cursors;
  \<^item> of \<^verbatim>\<open>hapcli-terminal\<close>, the flow control of terminal output (\<^verbatim>\<open>backpressure.rs\<close>, \<^verbatim>\<open>activity.rs\<close>) and the
    Telnet protocol (\<^verbatim>\<open>session/telnet.rs\<close>);
  \<^item> of \<^verbatim>\<open>hapcli-ssh\<close>, the registry of connections (\<^verbatim>\<open>connection_registry.rs\<close>) with the SFTP session that
    the users of a connection share, and the events it sends to nodes (\<^verbatim>\<open>router/events.rs\<close>);
  \<^item> X11 forwarding: the crate \<^verbatim>\<open>hapcli-x11-forwarding\<close> as far as it deals with cookies and setup packets,
    and the dispatcher of X11 channels (\<^verbatim>\<open>hapcli-ssh/src/transport/x11.rs\<close>);
  \<^item> of \<^verbatim>\<open>hapcli-sftp\<close>, the manager of transfers (\<^verbatim>\<open>transfer_manager.rs\<close>), paths and conflicts with existing
    files (\<^verbatim>\<open>path_utils.rs\<close>, \<^verbatim>\<open>conflict.rs\<close>) and the comparison of texts (\<^verbatim>\<open>text_diff.rs\<close>).

  \<^bold>\<open>How the parts work together.\<close> A worker reads bytes from a transport and sends them through a channel
  bounded by bytes to the terminal session. Before they are shown, the consumer of the modem crate
  filters them: its detector looks for the beginning of a transfer across chunk boundaries; when it
  finds one, a transfer object takes over the stream, and a protocol engine on another thread
  reads and writes through it until the transfer ends. The trzsz filter does the same for keys that a
  remote program prints; its engine reads lines and blocks from a queue of chunks, and the names that the remote host
  sends are checked before files are made for them. Files opened remotely are edited in a text
  buffer whose clients see offsets, lines and columns. SSH connections are shared: terminals, file
  transfers and forwards take and release entries of the registry, which counts its consumers,
  disconnects what is idle, follows connections tunnelled through one another, and tells the
  nodes of the user interface. Programs that a remote host runs open X11 channels over them; the
  dispatcher lets a channel through to the local display if its first packet carries a cookie that was
  made for it, and exchanges that cookie for the display's own. File transfers register with the
  transfer manager, which hands out permits, passes on pauses, cancellations and lost connections,
  and cancels what is left when the session ends.

  \<^bold>\<open>Conventions.\<close> A Rust integer is a word of its width where wrap-around matters, otherwise a natural
  number with saturation, checks and wrap-around written out; bytes are words of 8 bits, a string is
  the list of its UTF-8 bytes. A fallible function returns a sum with the error on the left; one that
  changes state returns the next state also when it fails. The peer of a protocol engine is the list
  of bytes it will send, in the in-memory channel of the source. Every turn of a protocol loop consumes
  input, advances in a file or spends a retry, which proves that the loops end: no fuel is used, and
  all models are total except for two loops that return an option: the walk over tunnelled connections, which
  does not always end, and the search for a free file name, which is shown to end. The walk along
  a path follows at most forty links, as the kernel does. Operations behind a mutex are one definition per critical section, and
  their interleavings are inductive step relations.

  \<^bold>\<open>Theories and what they show.\<close>

  \<^item> \<open>Prelude\<close>, \<open>Rust_Str\<close>: integer types, results, byte orders, UTF-8 (validity, lossy decoding),
    decimal numbers, whitespace and paths, as far as the source uses them.
  \<^item> \<open>Crc\<close> (\<^verbatim>\<open>crc.rs\<close>): both checksums bit by bit; a replaced byte is always detected.
  \<^item> \<open>Modem_Io\<close> (\<^verbatim>\<open>io.rs\<close>, \<^verbatim>\<open>error.rs\<close>): the byte channel of the protocol engines.
  \<^item> \<open>Xymodem\<close>, \<open>Xymodem_Transfer\<close> (\<^verbatim>\<open>xymodem.rs\<close>, \<^verbatim>\<open>xymodem_transfer.rs\<close>): blocks and their parsers (exact
    inverses, corruption rejected, plain file names only); a sender and a receiver connected to each
    other both finish and the receiver has every file; no peer makes the receiver write more
    than was declared or a repeated block twice.
  \<^item> \<open>Zmodem\<close>, \<open>Zmodem_Stream\<close>, \<open>Zmodem_Transfer\<close> (\<^verbatim>\<open>zmodem.rs\<close>, \<^verbatim>\<open>zmodem_transfer.rs\<close>): headers,
    escaping and subpackets with their round trips, and the same statements for whole sessions.
  \<^item> \<open>Modem_Detector\<close>, \<open>Modem_Stream\<close>, \<open>Modem_Consumer\<close> (\<^verbatim>\<open>detector.rs\<close>, \<^verbatim>\<open>stream.rs\<close>, \<^verbatim>\<open>consumer.rs\<close>): starts are
    found however the stream is cut; the transfer's buffers are bounded under every interleaving and
    stopping is final; every byte received is shown, handed on or held back, in order.
  \<^item> \<open>Trzsz_Buffer\<close>, \<open>Trzsz_Transfer\<close>, \<open>Trzsz_Session\<close> (\<^verbatim>\<open>buffer.rs\<close>, \<^verbatim>\<open>escape.rs\<close>, \<^verbatim>\<open>transfer.rs\<close> of
    \<^verbatim>\<open>hapcli-trzsz\<close>): lines and blocks are read the same however the input is cut; unescaping undoes
    escaping; a sender and a receiver given each other's output both finish, and the receiver has
    committed every file with its content.
  \<^item> \<open>Trzsz_Filter\<close> (\<^verbatim>\<open>filter.rs\<close>, \<^verbatim>\<open>types.rs\<close> of \<^verbatim>\<open>hapcli-trzsz\<close>): a key starts a transfer however the output is
    cut, and only once while it is remembered.
  \<^item> \<open>Rust_Fs\<close>: files, directories and symbolic links as \<^verbatim>\<open>std::fs\<close> shows them; calls on paths without links on
    the way change the node that they name only.
  \<^item> \<open>Trzsz_Files\<close>, \<open>Trzsz_File_Runs\<close>, \<open>Trzsz_Downloads\<close> (\<^verbatim>\<open>path_guard.rs\<close>, \<^verbatim>\<open>lib.rs\<close>, \<^verbatim>\<open>download.rs\<close>, \<^verbatim>\<open>upload.rs\<close> of
    \<^verbatim>\<open>hapcli-trzsz\<close>): over all runs, and while other programs change files too, nothing outside the prepared
    directories is touched, whatever names come from the remote host; finishing a download puts exactly what was written
    under the final name and replaces a file only if that was asked for.
  \<^item> \<open>Editor_Text\<close> (\<^verbatim>\<open>types.rs\<close>, \<^verbatim>\<open>selection.rs\<close>, \<^verbatim>\<open>edit.rs\<close>, \<^verbatim>\<open>error.rs\<close>, \<^verbatim>\<open>line_index.rs\<close>): what a list of edits
    means, and that the incremental line index is the recomputed one.
  \<^item> \<open>Piece_Table\<close> (\<^verbatim>\<open>piece_table.rs\<close>): the storage refines a plain text. The locale \<open>text_storage\<close> states
    what the buffer needs of its storage; the piece table interprets it.
  \<^item> \<open>Text_Buffer\<close>, \<open>Buffer_History\<close> (\<^verbatim>\<open>buffer.rs\<close>): the buffer's operations, the inverse of a list of
    edits, and over all reachable buffers: undo and redo never fail and are inverse to each other, a
    clean buffer holds the saved text, transactions are all or nothing, positions and offsets
    translate both ways, lines partition the text.
  \<^item> \<open>Editor_Search\<close>, \<open>Editor_Cursor\<close> (\<^verbatim>\<open>search.rs\<close>, \<^verbatim>\<open>word.rs\<close>, \<^verbatim>\<open>cursor.rs\<close>, \<^verbatim>\<open>multicursor.rs\<close>): the search
    finds every match; cursors stay on characters; which cursor of a set is the primary one.
  \<^item> \<open>Editor_Utf16\<close> (\<^verbatim>\<open>utf16.rs\<close>): offsets in UTF-16 units translate to character boundaries and back.
  \<^item> \<open>Backpressure\<close> (\<^verbatim>\<open>backpressure.rs\<close>, \<^verbatim>\<open>activity.rs\<close>): the channel's bound, order and wake-ups under
    every interleaving of its producer and consumer; UTF-8 characters are not cut.
  \<^item> \<open>Telnet\<close> (\<^verbatim>\<open>session/telnet.rs\<close>): what the worker writes is always complete messages that carry
    exactly what was typed; on complete reads the codec agrees with the automaton of the protocol.
  \<^item> \<open>X11_Setup\<close> (\<^verbatim>\<open>auth.rs\<close>, \<^verbatim>\<open>protocol.rs\<close>): cookies and setup packets in both byte orders; a packet is
    rewritten only if it carries the fake cookie, and then only in its authentication data.
  \<^item> \<open>X11_Registry\<close> (\<^verbatim>\<open>registry.rs\<close>, \<^verbatim>\<open>setup_buffer.rs\<close>): the store of fake cookies, whose contract is the
    locale \<open>cookie_store\<close>; packets are collected from any chunks, forwarded exactly if their cookie is
    registered, and a cookie for one connection serves once.
  \<^item> \<open>X11_Dispatcher\<close> (\<^verbatim>\<open>transport/x11.rs\<close>): under every interleaving only authenticated channels reach a
    display, over routes that are live.
  \<^item> \<open>Node_Events\<close> (\<^verbatim>\<open>router/events.rs\<close>): mailboxes keep the order and every event that needs reliable
    delivery, and stay within their capacity otherwise.
  \<^item> \<open>Sftp_Slot\<close> (\<^verbatim>\<open>connection_registry.rs\<close>): the sections under the lock of the shared SFTP session and the
    tasks that use it; what a generation guarantees, and how a waiting task can be lost.
  \<^item> \<open>Ssh_Registry\<close>, \<open>Ssh_Pool\<close>, \<open>Ssh_Runs\<close> (\<^verbatim>\<open>connection_registry.rs\<close>): the operations of the registry,
    the invariant that each of them keeps, and over all runs: consistent entries and reference
    counts, what the last release does, which idle timers disconnect what, and when the walk over
    the tunnelled connections ends.
  \<^item> \<open>Sftp_Transfers\<close>, \<open>Sftp_Transfer_Runs\<close> (\<^verbatim>\<open>transfer_manager.rs\<close>): the manager's operations, and under every
    interleaving with tasks that acquire permits, register background transfers or shut the session
    down: a shutdown cancels every transfer, a cancellation is not lost by registering a transfer
    again, permits stay within the semaphore, finished transfers expire and others do not.
  \<^item> \<open>Sftp_Paths\<close> (\<^verbatim>\<open>path_utils.rs\<close>, \<^verbatim>\<open>conflict.rs\<close>): accepted names of directory entries stay in their
    directory; parents and prefixes in terms of components; a free name is always found.
  \<^item> \<open>Text_Diff\<close> (\<^verbatim>\<open>text_diff.rs\<close>): a comparison gives back both texts and keeps as many lines as a longest common
    subsequence has.

  \<^bold>\<open>Parameters.\<close> Grapheme segmentation and the Unicode table of alphanumeric characters outside ASCII
  are arguments of the definitions that use them. The clock of a drain budget is the elapsed time given.
  Files to send and to receive are lists of bytes; opening, creating and naming local files is
  left to the caller as in the source. For trzsz, compression, Base64, JSON, MD5, the texts of errors, the
  readers and writers of local files, the digits outside ASCII and the time a chunk takes are
  arguments, and the statements on whole sessions name what they need of them: decoding undoes
  encoding, encoded text is one line. Unicode normalisation of names and the order in which a directory is scanned are arguments
  as well. Random cookies and identifiers, clocks, the
  pool key of a configuration, and whether a keepalive answers or a local display can be reached are
  arguments too.

  \<^bold>\<open>What the theorems show to be different from what the code means to do.\<close> A 16-bit binary file
  header is rejected by the receiver (\<open>crc16_file_header_is_rejected\<close>); the XON after a repeated
  control header reaches the terminal (\<open>control_header_xon_reaches_terminal\<close>); a block start held back
  when a download command completes is lost (\<open>held_block_start_skips_transfer\<close>); replacing all
  occurrences of a query that overlaps itself fails (\<open>replace_all_overlapping_rejected\<close>); adding
  a cursor before the primary one replaces it (\<open>primary_is_leftmost\<close>); a Telnet message split between
  two reads becomes terminal data (\<open>telnet_split_message_becomes_data\<close>), and refusals are answered by
  refusals (\<open>telnet_refusals_answer_each_other\<close>). A protocol name with white space around it uses up an X11
  cookie without an answer (\<open>padded_protocol_consumes_cookie\<close>). A shared SFTP session of a connection that
  was lost can be handed out as a new one (\<open>stale_session_published\<close>, \<open>dead_session_under_new_generation\<close>),
  and a task can miss that the session is ready (\<open>sftp_waiter_can_be_lost\<close>). A connection may be made its
  own parent, and walks below it then never end (\<open>own_parent_hangs\<close>); the last release turns a failed
  connection into an idle one (\<open>failed_connection_becomes_idle\<close>) and one whose link is down into one that
  the next user finds active (\<open>dead_link_comes_back\<close>); a changed idle timeout does not reach existing
  connections (\<open>new_idle_timeout_is_ignored\<close>). More transfers can run than the limit allows
  (\<open>transfer_limit_can_be_exceeded\<close>), a background transfer registered during a shutdown can stay pending
  (\<open>late_background_transfer_stays_pending\<close>), progress hides a pause (\<open>progress_hides_pause\<close>), and a
  normalised path can contain two slashes in a row (\<open>normalize_leaves_double_slash\<close>). A line that begins with
  a character outside ASCII makes a trzsz transfer panic (\<open>garbage_line_panics\<close>), and a key cut between two
  reads can be taken with a shortened identifier (\<open>split_key_changes_platform\<close>). When finishing a download fails, the file it was
  to replace can be lost (\<open>finish_failure_loses_file\<close>); removing a file creates directories (\<open>removing_creates_directories\<close>);
  cleaning up follows links made in the meantime (\<open>cleanup_follows_links\<close>); a partial file stays behind when an owner
  has too many (\<open>full_owner_keeps_part_file\<close>).

  \<^bold>\<open>Not modelled.\<close> Real time, threads other than as interleavings, logging and formatting. Of
  \<^verbatim>\<open>hapcli-terminal\<close> everything but flow control and the Telnet codec and worker; of \<^verbatim>\<open>hapcli-ssh\<close> the
  transport, the router's resolution of nodes, reconnection, the detection of the remote environment and the
  snapshots for monitors, and the registry's operations are taken one after the other; of X11
  forwarding the search for the local display and its cookie and the copying of bytes; of \<^verbatim>\<open>hapcli-sftp\<close>
  sessions, SCP and tar transfers, the caches for capability probes, the stored progress and the retries; of \<^verbatim>\<open>hapcli-trzsz\<close> the
  consumer and controller around filter and engine and the progress bar, and the operations on files are taken one after the other. Of the other
  crates nothing. The vendored SSH and SFTP libraries, the user interface, cloud, plugin and
  assistant crates are glue to code from outside, presentation or input and output.
\<close>

end
